(* ===== verification/Prelude.thy ===== *)
theory Prelude
  imports Main
begin

text \<open>
  Shared vocabulary of the development.

  The sources are compiled with assertions: \<^verbatim>\<open>DCHECK\<close>, \<^verbatim>\<open>CHECK\<close> and \<^verbatim>\<open>NOTREACHED\<close>
  abort the program when they fail.  An operation that contains one is modelled as a function into
  \<open>'a res\<close>, and each assertion is a branch that yields the failure.  That an operation never
  hits one of its assertions is then a theorem about its model.  \<open>DanglingPointer\<close> is the
  failure of an operation that follows a pointer to an object already destroyed.

  The rest of the theory collects facts on list surgery (\<^verbatim>\<open>std::vector::insert\<close> and
  \<^verbatim>\<open>erase\<close>) and on index-returning linear searches, which most components share.
\<close>

section \<open>Failures as values\<close>

datatype failure =
    DCheckFailed string
  | CheckFailed string
  | NotReached string
  | DanglingPointer string

type_synonym 'a res = "failure + 'a"

definition dcheck :: "bool \<Rightarrow> string \<Rightarrow> 'a res \<Rightarrow> 'a res" where
  "dcheck c msg k = (if c then k else Inl (DCheckFailed msg))"

definition ccheck :: "bool \<Rightarrow> string \<Rightarrow> 'a res \<Rightarrow> 'a res" where
  "ccheck c msg k = (if c then k else Inl (CheckFailed msg))"

fun rbind :: "'a res \<Rightarrow> ('a \<Rightarrow> 'b res) \<Rightarrow> 'b res" where
  "rbind (Inl e) f = Inl e"
| "rbind (Inr x) f = f x"

fun is_ok :: "'a res \<Rightarrow> bool" where
  "is_ok (Inl e) = False"
| "is_ok (Inr x) = True"

fun rmap :: "('a \<Rightarrow> 'b res) \<Rightarrow> 'a list \<Rightarrow> 'b list res" where
  "rmap f [] = Inr []"
| "rmap f (x # xs) = rbind (f x) (\<lambda>y. rbind (rmap f xs) (\<lambda>ys. Inr (y # ys)))"

named_theorems res_simps \<open>evaluation of checked computations\<close>

lemma dcheck_True [simp, res_simps]: "c \<Longrightarrow> dcheck c msg k = k"
  by (simp add: dcheck_def)

lemma ccheck_True [simp, res_simps]: "c \<Longrightarrow> ccheck c msg k = k"
  by (simp add: ccheck_def)

lemma dcheck_False [simp]: "\<not> c \<Longrightarrow> dcheck c msg k = Inl (DCheckFailed msg)"
  by (simp add: dcheck_def)

lemma ccheck_False [simp]: "\<not> c \<Longrightarrow> ccheck c msg k = Inl (CheckFailed msg)"
  by (simp add: ccheck_def)

lemma dcheck_Inr_iff [res_simps]: "dcheck c msg k = Inr x \<longleftrightarrow> c \<and> k = Inr x"
  by (simp add: dcheck_def)

lemma ccheck_Inr_iff [res_simps]: "ccheck c msg k = Inr x \<longleftrightarrow> c \<and> k = Inr x"
  by (simp add: ccheck_def)

lemma rbind_Inr_iff [res_simps]: "rbind m f = Inr y \<longleftrightarrow> (\<exists>x. m = Inr x \<and> f x = Inr y)"
  by (cases m) auto

lemma is_ok_iff: "is_ok m \<longleftrightarrow> (\<exists>x. m = Inr x)"
  by (cases m) auto

lemma rmap_pure: "(\<And>x. x \<in> set xs \<Longrightarrow> f x = Inr (g x)) \<Longrightarrow> rmap f xs = Inr (map g xs)"
  by (induction xs) auto

text \<open>What is known of the result of a computation that may fail.\<close>

definition yields :: "'a res \<Rightarrow> ('a \<Rightarrow> bool) \<Rightarrow> bool" where
  "yields m Q \<longleftrightarrow> (\<forall>x. m = Inr x \<longrightarrow> Q x)"

named_theorems yields_simps \<open>conditions for what a computation yields\<close>

lemma yields_Inr [yields_simps]: "yields (Inr x) Q \<longleftrightarrow> Q x"
  by (simp add: yields_def)

lemma yields_Inl [yields_simps]: "yields (Inl e) Q"
  by (simp add: yields_def)

lemma yields_rbind [yields_simps]: "yields (rbind m f) Q \<longleftrightarrow> yields m (\<lambda>x. yields (f x) Q)"
  by (auto simp: yields_def rbind_Inr_iff)

lemma yields_dcheck [yields_simps]: "yields (dcheck c msg k) Q \<longleftrightarrow> (c \<longrightarrow> yields k Q)"
  by (simp add: yields_def dcheck_def)

lemma yields_any: "(\<And>x. Q x) \<Longrightarrow> yields m Q"
  by (simp add: yields_def)

lemma yieldsD: "yields m Q \<Longrightarrow> m = Inr x \<Longrightarrow> Q x"
  by (simp add: yields_def)

lemma yields_weaken: "yields m Q \<Longrightarrow> (\<And>x. Q x \<Longrightarrow> R x) \<Longrightarrow> yields m R"
  by (simp add: yields_def)

section \<open>Insertion into and erasure from a vector\<close>

definition insert_at :: "nat \<Rightarrow> 'a \<Rightarrow> 'a list \<Rightarrow> 'a list" where
  "insert_at i x xs = take i xs @ x # drop i xs"

definition remove_at :: "nat \<Rightarrow> 'a list \<Rightarrow> 'a list" where
  "remove_at i xs = take i xs @ drop (Suc i) xs"

named_theorems vec_simps \<open>elements of a vector after an insertion or an erasure\<close>

lemma length_insert_at [simp]: "length (insert_at i x xs) = Suc (length xs)"
  by (simp add: insert_at_def)

lemma length_remove_at [simp]: "i < length xs \<Longrightarrow> length (remove_at i xs) = length xs - 1"
  by (simp add: remove_at_def)

lemma set_insert_at [simp]: "set (insert_at i x xs) = insert x (set xs)"
  unfolding insert_at_def
  by (metis append_take_drop_id list.simps(15) set_append Un_insert_right)

lemma insert_at_length [simp]: "insert_at (length xs) x xs = xs @ [x]"
  by (simp add: insert_at_def)

lemma map_insert_at [vec_simps]: "map f (insert_at i x xs) = insert_at i (f x) (map f xs)"
  by (simp add: insert_at_def take_map drop_map)

lemma map_remove_at [vec_simps]: "map f (remove_at i xs) = remove_at i (map f xs)"
  by (simp add: remove_at_def take_map drop_map)

lemma nth_insert_at [vec_simps]:
  assumes "i \<le> length xs" "j \<le> length xs"
  shows "insert_at i x xs ! j = (if j < i then xs ! j else if j = i then x else xs ! (j - 1))"
  using assms by (auto simp: insert_at_def nth_append nth_Cons' min_def)

lemma nth_remove_at [vec_simps]:
  assumes "i < length xs" "j < length xs - 1"
  shows "remove_at i xs ! j = (if j < i then xs ! j else xs ! Suc j)"
  using assms by (auto simp: remove_at_def nth_append min_def)

lemma remove_insert_at [simp]: "i \<le> length xs \<Longrightarrow> remove_at i (insert_at i x xs) = xs"
  by (simp add: insert_at_def remove_at_def min_def)

lemma insert_remove_at: "i < length xs \<Longrightarrow> insert_at i (xs ! i) (remove_at i xs) = xs"
  by (simp add: insert_at_def remove_at_def id_take_nth_drop [symmetric] min_def)

lemma set_remove_at_subset: "set (remove_at i xs) \<subseteq> set xs"
  by (auto simp: remove_at_def dest: in_set_takeD in_set_dropD)

lemma distinct_insert_at [simp]: "distinct (insert_at i x xs) \<longleftrightarrow> x \<notin> set xs \<and> distinct xs"
proof -
  have "distinct (insert_at i x xs) \<longleftrightarrow> distinct (x # take i xs @ drop i xs)"
    unfolding insert_at_def by (simp del: append_take_drop_id) blast
  then show ?thesis by simp
qed

lemma distinct_remove_at: "distinct xs \<Longrightarrow> distinct (remove_at i xs)"
  unfolding remove_at_def
  by (metis append_take_drop_id distinct_append drop_drop in_set_dropD distinct_drop
      disjoint_iff add.commute plus_1_eq_Suc)

lemma set_remove_at_distinct:
  assumes "distinct xs" "i < length xs"
  shows "set (remove_at i xs) = set xs - {xs ! i}"
proof -
  have eq: "xs = take i xs @ xs ! i # drop (Suc i) xs"
    using assms(2) by (rule id_take_nth_drop)
  have "distinct (take i xs @ xs ! i # drop (Suc i) xs)"
    using assms(1) eq by simp
  then have "xs ! i \<notin> set (take i xs)" "xs ! i \<notin> set (drop (Suc i) xs)"
    by auto
  moreover have "set xs = insert (xs ! i) (set (take i xs) \<union> set (drop (Suc i) xs))"
    by (subst (1) eq) auto
  ultimately show ?thesis
    by (auto simp: remove_at_def)
qed

lemma set_list_update_distinct:
  assumes "distinct xs" "i < length xs"
  shows "set (xs[i := y]) = insert y (set xs - {xs ! i})"
  using assms by (simp add: set_update_distinct)

text \<open>Moving one element: an erasure followed by an insertion.\<close>

lemma length_move:
  "i < length xs \<Longrightarrow> length (insert_at j x (remove_at i xs)) = length xs"
  by simp

lemma nth_move [vec_simps]:
  assumes "i < length xs" "j < length xs" "k < length xs"
  shows "insert_at j (xs ! i) (remove_at i xs) ! k =
    (if k = j then xs ! i
     else if i \<le> k \<and> k < j then xs ! Suc k
     else if j < k \<and> k \<le> i then xs ! (k - 1)
     else xs ! k)"
  using assms by (auto simp: nth_insert_at nth_remove_at)

lemma set_move:
  assumes "distinct xs" "i < length xs"
  shows "set (insert_at j (xs ! i) (remove_at i xs)) = set xs"
  using assms by (auto simp: set_remove_at_distinct)

lemma distinct_move:
  assumes "distinct xs" "i < length xs"
  shows "distinct (insert_at j (xs ! i) (remove_at i xs))"
  using assms by (simp add: set_remove_at_distinct distinct_remove_at)

section \<open>Index-returning searches\<close>

text \<open>
  The loop \<^verbatim>\<open>for (int i = 0; i < count; ++i) if (P(i)) return i; return -1;\<close>
\<close>

fun find_index_from :: "('a \<Rightarrow> bool) \<Rightarrow> int \<Rightarrow> 'a list \<Rightarrow> int" where
  "find_index_from P k [] = -1"
| "find_index_from P k (x # xs) = (if P x then k else find_index_from P (k + 1) xs)"

definition find_index :: "('a \<Rightarrow> bool) \<Rightarrow> 'a list \<Rightarrow> int" where
  "find_index P xs = find_index_from P 0 xs"

lemma find_index_from_none: "0 \<le> k \<Longrightarrow> find_index_from P k xs = -1 \<longleftrightarrow> (\<forall>x \<in> set xs. \<not> P x)"
  by (induction xs arbitrary: k) auto

lemma find_index_from_some:
  assumes "0 \<le> k" and "find_index_from P k xs = r" and "r \<noteq> -1"
  shows "k \<le> r \<and> r < k + int (length xs) \<and> P (xs ! nat (r - k)) \<and>
         (\<forall>j < nat (r - k). \<not> P (xs ! j))"
  using assms
proof (induction xs arbitrary: k)
  case Nil
  then show ?case by simp
next
  case (Cons x xs)
  show ?case
  proof (cases "P x")
    case True
    with Cons.prems show ?thesis by auto
  next
    case False
    with Cons.prems Cons.IH [of "k + 1"]
    have r: "k + 1 \<le> r" "r < k + 1 + int (length xs)" "P (xs ! nat (r - (k + 1)))"
      "\<forall>j < nat (r - (k + 1)). \<not> P (xs ! j)"
      by auto
    have n: "nat (r - k) = Suc (nat (r - (k + 1)))" using r(1) by auto
    show ?thesis
      using r False unfolding n by (auto simp: less_Suc_eq_0_disj)
  qed
qed

lemma find_index_none [simp]: "find_index P xs = -1 \<longleftrightarrow> (\<forall>x \<in> set xs. \<not> P x)"
  by (simp add: find_index_def find_index_from_none)

lemma find_index_some:
  assumes "find_index P xs \<noteq> -1"
  shows "0 \<le> find_index P xs" "find_index P xs < int (length xs)"
    "P (xs ! nat (find_index P xs))" "\<And>j. j < nat (find_index P xs) \<Longrightarrow> \<not> P (xs ! j)"
  using find_index_from_some [of 0 P xs "find_index P xs"] assms
  by (auto simp: find_index_def)

lemma find_index_eqI:
  assumes "i < length xs" "P (xs ! i)" "\<And>j. j < i \<Longrightarrow> \<not> P (xs ! j)"
  shows "find_index P xs = int i"
proof -
  have ne: "find_index P xs \<noteq> -1"
    using assms(1,2) nth_mem by fastforce
  note fi = find_index_some [OF ne]
  have "\<not> nat (find_index P xs) < i" using assms(3) fi(3) by blast
  moreover have "\<not> i < nat (find_index P xs)" using assms(2) fi(4) by blast
  ultimately show ?thesis using fi(1) by linarith
qed

lemma find_index_distinct:
  assumes "distinct (map f xs)" "i < length xs"
  shows "find_index (\<lambda>x. f x = f (xs ! i)) xs = int i"
proof (rule find_index_eqI)
  show "i < length xs" by (fact assms(2))
  show "f (xs ! i) = f (xs ! i)" ..
  fix j assume "j < i"
  then show "f (xs ! j) \<noteq> f (xs ! i)"
    using assms by (auto simp: distinct_conv_nth)
qed

section \<open>Positions in a filtered range\<close>

lemma filter_upt_nth:
  assumes "P i" "i < n"
  shows "filter P [0..<n] ! length (filter P [0..<i]) = i"
    and "length (filter P [0..<i]) < length (filter P [0..<n])"
proof -
  have "[0..<n] = [0..<i] @ i # [Suc i..<n]"
    using assms(2) upt_add_eq_append [of 0 i "n - i"] by (simp add: upt_conv_Cons)
  then have split: "filter P [0..<n] = filter P [0..<i] @ i # filter P [Suc i..<n]"
    using assms(1) by simp
  show "filter P [0..<n] ! length (filter P [0..<i]) = i"
    by (simp add: split)
  show "length (filter P [0..<i]) < length (filter P [0..<n])"
    by (simp add: split)
qed

lemma length_filter_upt: "length (filter P [0..<n]) = card {j. j < n \<and> P j}"
  by (simp add: length_filter_conv_card)
     (intro arg_cong [where f = card], auto)

end
