(* ===== verification/Removing_Indexes.thy ===== *)
theory Removing_Indexes
  imports Prelude
begin

text \<open>
  \<^verbatim>\<open>WebStateListRemovingIndexes\<close>
  (\<^verbatim>\<open>chrome/browser/web_state_list/web_state_list_removing_indexes.{h,mm}\<close>): the set of
  tab indexes about to be removed, stored as a variant so that the common case of one index does
  not allocate.  The storage is modelled with its three alternatives and the three visitors; the
  locale \<open>removing_set\<close> is the contract its clients (the order controller and the
  serialization) rely on, and the storage is shown to satisfy it.
\<close>

section \<open>The storage and its visitors\<close>

abbreviation kInvalidIndex :: int where
  "kInvalidIndex \<equiv> -1"

datatype storage =
    StorageEmpty
  | StorageOne int
  | StorageVector "int list"

definition StorageFromVector :: "int list \<Rightarrow> storage" where
  "StorageFromVector indexes =
     (let indexes = remdups_adj (sort indexes)
      in case indexes of
           [] \<Rightarrow> StorageEmpty
         | [i] \<Rightarrow> StorageOne i
         | _ \<Rightarrow> StorageVector indexes)"

definition StorageFromInitializerList :: "int list \<Rightarrow> storage" where
  "StorageFromInitializerList indexes =
     (case indexes of
        [] \<Rightarrow> StorageEmpty
      | [i] \<Rightarrow> StorageOne i
      | _ \<Rightarrow> StorageFromVector indexes)"

text \<open>\<^verbatim>\<open>std::lower_bound\<close>: the position of the first element that is not less.\<close>

definition lower_bound :: "int list \<Rightarrow> int \<Rightarrow> nat" where
  "lower_bound xs v = length (takeWhile (\<lambda>x. x < v) xs)"

definition binary_search :: "int list \<Rightarrow> int \<Rightarrow> bool" where
  "binary_search xs v =
     (let p = lower_bound xs v in p < length xs \<and> \<not> v < xs ! p)"

fun removing_count :: "storage \<Rightarrow> int" where
  "removing_count StorageEmpty = 0"
| "removing_count (StorageOne index) = 1"
| "removing_count (StorageVector indexes) = int (length indexes)"

fun Contains :: "storage \<Rightarrow> int \<Rightarrow> bool" where
  "Contains StorageEmpty index' = False"
| "Contains (StorageOne index) index' = (index' = index)"
| "Contains (StorageVector indexes) index' = binary_search indexes index'"

fun IndexAfterRemoval :: "storage \<Rightarrow> int \<Rightarrow> int" where
  "IndexAfterRemoval StorageEmpty index' = index'"
| "IndexAfterRemoval (StorageOne index) index' =
     (if index' = index then kInvalidIndex
      else if index' > index then index' - 1
      else index')"
| "IndexAfterRemoval (StorageVector indexes) index' =
     (let p = lower_bound indexes index'
      in if p = length indexes \<or> indexes ! p \<noteq> index' then index' - int p
         else kInvalidIndex)"

section \<open>The contract\<close>

text \<open>
  What a client may assume: a removing set denotes a finite set of indexes; a removed index maps
  to \<open>kInvalidIndex\<close>, every other index is shifted down by the number of removed indexes
  below it.
\<close>

locale removing_set =
  fixes abs :: "'r \<Rightarrow> int set"
    and invar :: "'r \<Rightarrow> bool"
    and cnt :: "'r \<Rightarrow> int"
    and contains :: "'r \<Rightarrow> int \<Rightarrow> bool"
    and after :: "'r \<Rightarrow> int \<Rightarrow> int"
  assumes abs_finite: "invar r \<Longrightarrow> finite (abs r)"
    and cnt_abs: "invar r \<Longrightarrow> cnt r = int (card (abs r))"
    and contains_abs: "invar r \<Longrightarrow> contains r i \<longleftrightarrow> i \<in> abs r"
    and after_removed: "invar r \<Longrightarrow> i \<in> abs r \<Longrightarrow> after r i = -1"
    and after_kept: "invar r \<Longrightarrow> i \<notin> abs r \<Longrightarrow> after r i = i - int (card {j \<in> abs r. j < i})"
begin

lemma card_below_le:
  assumes "invar r" "abs r \<subseteq> {0..<n}" "0 \<le> i"
  shows "int (card {j \<in> abs r. j < i}) \<le> i"
proof -
  have "card {j \<in> abs r. j < i} \<le> card {0..<i}"
    using assms by (intro card_mono) auto
  then show ?thesis using assms(3) by simp
qed

lemma card_split:
  assumes "invar r" "i \<notin> abs r"
  shows "card (abs r) = card {j \<in> abs r. j < i} + card {j \<in> abs r. i < j}"
proof -
  have "abs r = {j \<in> abs r. j < i} \<union> {j \<in> abs r. i < j}"
    using assms(2) by (auto simp: not_less order.order_iff_strict)
  moreover have "card ({j \<in> abs r. j < i} \<union> {j \<in> abs r. i < j}) =
      card {j \<in> abs r. j < i} + card {j \<in> abs r. i < j}"
    using abs_finite [OF assms(1)] by (intro card_Un_disjoint) auto
  ultimately show ?thesis by simp
qed

lemma after_range:
  assumes "invar r" "abs r \<subseteq> {0..<n}" "0 \<le> i" "i < n" "i \<notin> abs r"
  shows "0 \<le> after r i" "after r i < n - cnt r"
proof -
  show "0 \<le> after r i"
    using card_below_le [OF assms(1-3)] after_kept [OF assms(1,5)] by simp
  have "card {j \<in> abs r. i < j} \<le> card {i <..< n}"
    using assms(2) by (intro card_mono) auto
  then have "int (card {j \<in> abs r. i < j}) \<le> n - i - 1"
    using assms(4) by simp
  then show "after r i < n - cnt r"
    using after_kept [OF assms(1,5)] cnt_abs [OF assms(1)] card_split [OF assms(1,5)] by simp
qed

lemma after_invalid_iff:
  assumes "invar r" "abs r \<subseteq> {0..<n}" "0 \<le> i"
  shows "after r i = -1 \<longleftrightarrow> i \<in> abs r"
proof (cases "i \<in> abs r")
  case True
  then show ?thesis using after_removed [OF assms(1)] by simp
next
  case False
  then show ?thesis
    using card_below_le [OF assms] after_kept [OF assms(1) False] by simp
qed

lemma after_eq:
  assumes "invar r" "abs r \<subseteq> {0..<n}" "0 \<le> i"
  shows "after r i = (if i \<in> abs r then -1 else i - int (card {j \<in> abs r. j < i}))"
  using after_removed [OF assms(1)] after_kept [OF assms(1)] by simp

lemma exists_kept:
  assumes "invar r" "abs r \<subseteq> {0..<n}" "cnt r \<noteq> n" "0 \<le> n"
  shows "\<exists>i. 0 \<le> i \<and> i < n \<and> i \<notin> abs r"
proof (rule ccontr)
  assume "\<not> ?thesis"
  then have "abs r = {0..<n}" using assms(2) by auto
  then have "cnt r = n" using cnt_abs [OF assms(1)] assms(4) by simp
  with assms(3) show False by simp
qed

lemma after_strict_mono:
  assumes "invar r" "i \<notin> abs r" "k \<notin> abs r" "i < k"
  shows "after r i < after r k"
proof -
  have fin: "finite (abs r)" by (rule abs_finite [OF assms(1)])
  have split: "{j \<in> abs r. j < k} = {j \<in> abs r. j < i} \<union> {j \<in> abs r. i < j \<and> j < k}"
    using assms(2,4) by (auto simp: not_less order.order_iff_strict)
  have "card {j \<in> abs r. j < k} \<le> card {j \<in> abs r. j < i} + card {j \<in> abs r. i < j \<and> j < k}"
    unfolding split by (rule card_Un_le)
  moreover have "card {j \<in> abs r. i < j \<and> j < k} \<le> card {i <..< k}"
    using fin by (intro card_mono) auto
  ultimately show ?thesis
    using after_kept [OF assms(1,2)] after_kept [OF assms(1,3)] assms(4) by simp
qed

end

section \<open>The storage implements the contract\<close>

fun storage_abs :: "storage \<Rightarrow> int set" where
  "storage_abs StorageEmpty = {}"
| "storage_abs (StorageOne i) = {i}"
| "storage_abs (StorageVector is) = set is"

fun storage_invar :: "storage \<Rightarrow> bool" where
  "storage_invar StorageEmpty = True"
| "storage_invar (StorageOne i) = True"
| "storage_invar (StorageVector is) = (sorted is \<and> distinct is)"

lemma takeWhile_less_sorted: "sorted xs \<Longrightarrow> takeWhile (\<lambda>x. x < v) xs = filter (\<lambda>x. x < v) xs"
  for v :: int
proof (induction xs)
  case (Cons a xs)
  then have "\<not> a < v \<Longrightarrow> filter (\<lambda>x. x < v) xs = []"
    by (auto simp: filter_empty_conv)
  with Cons show ?case by auto
qed simp

lemma lower_bound_card:
  assumes "sorted xs" "distinct xs"
  shows "lower_bound xs v = card {x \<in> set xs. x < v}"
  using assms
  by (simp add: lower_bound_def takeWhile_less_sorted distinct_length_filter Int_def conj_commute)

lemma lower_bound_le_length: "lower_bound xs v \<le> length xs"
  by (simp add: lower_bound_def length_takeWhile_le)

lemma lower_bound_hit:
  assumes "sorted xs"
  shows "lower_bound xs v < length xs \<and> xs ! lower_bound xs v = v \<longleftrightarrow> v \<in> set xs"
  using assms unfolding lower_bound_def
  by (induction xs) (auto simp: not_less)

lemma lower_bound_ge:
  assumes "sorted xs" "lower_bound xs v < length xs"
  shows "v \<le> xs ! lower_bound xs v"
  using assms unfolding lower_bound_def
  by (metis linorder_not_less nth_length_takeWhile)

lemma binary_search_iff: "sorted xs \<Longrightarrow> binary_search xs v \<longleftrightarrow> v \<in> set xs"
  using lower_bound_hit [of xs v] lower_bound_ge [of xs v]
  by (auto simp: binary_search_def Let_def)

lemma IndexAfterRemoval_vector:
  assumes "sorted xs" "distinct xs"
  shows "IndexAfterRemoval (StorageVector xs) i =
    (if i \<in> set xs then -1 else i - int (card {j \<in> set xs. j < i}))"
  using lower_bound_hit [OF assms(1), of i] lower_bound_card [OF assms, of i]
    lower_bound_le_length [of xs i]
  by (auto simp: Let_def)

interpretation storage: removing_set storage_abs storage_invar removing_count Contains IndexAfterRemoval
proof
  fix r i
  assume inv: "storage_invar r"
  show "finite (storage_abs r)" by (cases r) auto
  show "removing_count r = int (card (storage_abs r))"
    using inv by (cases r) (auto simp: distinct_card)
  show "Contains r i \<longleftrightarrow> i \<in> storage_abs r"
    using inv by (cases r) (auto simp: binary_search_iff)
  show "i \<in> storage_abs r \<Longrightarrow> IndexAfterRemoval r i = -1"
    using inv by (cases r) (auto simp: IndexAfterRemoval_vector simp del: IndexAfterRemoval.simps(3))
  show "IndexAfterRemoval r i = i - int (card {j \<in> storage_abs r. j < i})"
    if kept: "i \<notin> storage_abs r"
  proof (cases r)
    case (StorageOne k)
    have "{j. j = k \<and> j < i} = (if k < i then {k} else {})" by auto
    with StorageOne kept show ?thesis by simp
  next
    case (StorageVector xs)
    with inv kept show ?thesis
      by (simp add: IndexAfterRemoval_vector del: IndexAfterRemoval.simps(3))
  qed simp
qed

section \<open>The constructors\<close>

lemma StorageFromVector_abs [simp]: "storage_abs (StorageFromVector is) = set is"
proof -
  have "set (remdups_adj (sort is)) = set is" by simp
  then show ?thesis
    unfolding StorageFromVector_def Let_def
    by (cases "remdups_adj (sort is)" rule: remdups_adj.cases) auto
qed

lemma distinct_remdups_adj_sorted: "sorted xs \<Longrightarrow> distinct (remdups_adj xs)"
  by (induction xs rule: remdups_adj.induct) (auto simp: order.order_iff_strict)

lemma StorageFromVector_invar [simp]: "storage_invar (StorageFromVector is)"
proof -
  have "sorted (remdups_adj (sort is)) \<and> distinct (remdups_adj (sort is))"
    by (simp add: sorted_remdups_adj distinct_remdups_adj_sorted)
  then show ?thesis
    unfolding StorageFromVector_def Let_def
    by (cases "remdups_adj (sort is)" rule: remdups_adj.cases) auto
qed

lemma StorageFromInitializerList_abs [simp]: "storage_abs (StorageFromInitializerList is) = set is"
  by (cases "is" rule: remdups_adj.cases) (simp_all add: StorageFromInitializerList_def)

lemma StorageFromInitializerList_invar [simp]: "storage_invar (StorageFromInitializerList is)"
  by (cases "is" rule: remdups_adj.cases) (simp_all add: StorageFromInitializerList_def)

section \<open>Where a surviving element ends up\<close>

definition survivors :: "storage \<Rightarrow> 'a list \<Rightarrow> 'a list" where
  "survivors r xs = map (\<lambda>i. xs ! i) (filter (\<lambda>i. \<not> Contains r (int i)) [0..<length xs])"

lemma below_image_int:
  assumes "A \<subseteq> {0..}"
  shows "{j \<in> A. j < int n} = int ` {j. j < n \<and> int j \<in> A}"
proof
  show "{j \<in> A. j < int n} \<subseteq> int ` {j. j < n \<and> int j \<in> A}"
  proof
    fix j assume "j \<in> {j \<in> A. j < int n}"
    then have "nat j \<in> {j. j < n \<and> int j \<in> A}" and "j = int (nat j)"
      using assms by auto
    then show "j \<in> int ` {j. j < n \<and> int j \<in> A}" by (rule rev_image_eqI)
  qed
qed auto

lemma kept_below:
  assumes "storage_invar r" "storage_abs r \<subseteq> {0..}"
  shows "int (length (filter (\<lambda>j. \<not> Contains r (int j)) [0..<n])) =
    int n - int (card {j \<in> storage_abs r. j < int n})"
proof -
  have "length (filter (\<lambda>j. Contains r (int j)) [0..<n]) +
      length (filter (\<lambda>j. \<not> Contains r (int j)) [0..<n]) = n"
    using sum_length_filter_compl [of "\<lambda>j. Contains r (int j)" "[0..<n]"] by simp
  moreover have "length (filter (\<lambda>j. Contains r (int j)) [0..<n]) = card {j \<in> storage_abs r. j < int n}"
    by (simp add: length_filter_upt storage.contains_abs [OF assms(1)] below_image_int [OF assms(2)]
        card_image)
  ultimately show ?thesis by simp
qed

lemma survivors_length:
  assumes "storage_invar r" "storage_abs r \<subseteq> {0..<int (length xs)}"
  shows "int (length (survivors r xs)) = int (length xs) - removing_count r"
proof -
  have "{j \<in> storage_abs r. j < int (length xs)} = storage_abs r"
    using assms(2) by auto
  moreover have "storage_abs r \<subseteq> {0..}" using assms(2) by auto
  ultimately show ?thesis
    using kept_below [OF assms(1), of "length xs"] storage.cnt_abs [OF assms(1)]
    by (simp add: survivors_def)
qed

lemma survivors_nth:
  assumes "storage_invar r" "storage_abs r \<subseteq> {0..<int (length xs)}"
    and "0 \<le> i" "i < int (length xs)" "i \<notin> storage_abs r"
  shows "survivors r xs ! nat (IndexAfterRemoval r i) = xs ! nat i"
proof -
  let ?P = "\<lambda>j. \<not> Contains r (int j)"
  have P: "?P (nat i)" "nat i < length xs"
    using assms storage.contains_abs by auto
  have "storage_abs r \<subseteq> {0..}" using assms(2) by auto
  then have "nat (IndexAfterRemoval r i) = length (filter ?P [0..<nat i])"
    using storage.after_kept [OF assms(1,5)] kept_below [OF assms(1), of "nat i"] assms(3) by simp
  with filter_upt_nth [of ?P, OF P] show ?thesis
    by (simp add: survivors_def)
qed

end
