(* ===== verification/Web_State_List.thy ===== *)
theory Web_State_List
  imports Removing_Indexes
begin

text \<open>
  The data of \<^verbatim>\<open>WebStateList\<close> (the ordered list of tabs of a window), its queries, and
  \<^verbatim>\<open>WebStateListOrderController\<close>, which decides where a tab is inserted and which tab becomes
  active when others are removed
  (\<^verbatim>\<open>chrome/browser/web_state_list/{web_state_opener,web_state_list,web_state_list_observer,
  web_state_list_order_controller}.{h,mm}\<close>).  The mutating operations are in
  \<open>Web_State_List_Mutation\<close>.

  A \<^verbatim>\<open>WebState*\<close> is an identity (a natural number).  What the list reads of the object
  behind the pointer is looked up in a heap, since the same object is reachable from the list and
  from the opener of another tab.
\<close>

unbundle bit_operations_syntax

section \<open>Data\<close>

type_synonym web_state_id = nat

text \<open>What \<^verbatim>\<open>WebStateList\<close> and its serialization read of a \<^verbatim>\<open>web::WebState\<close>.\<close>

record web_state =
  visible_url :: string
  title :: string
  stable_identifier :: string
  is_realized :: bool
  restore_session_in_progress :: bool
  navigation_item_count :: int
  last_committed_item_index :: int

type_synonym heap = "web_state_id \<Rightarrow> web_state"

record web_state_opener =
  opener :: "web_state_id option"
  navigation_index :: int

definition NavigationIndexFromWebState :: "heap \<Rightarrow> web_state_id option \<Rightarrow> int" where
  "NavigationIndexFromWebState H web_state =
     (case web_state of None \<Rightarrow> -1 | Some w \<Rightarrow> last_committed_item_index (H w))"

definition WebStateOpener :: "heap \<Rightarrow> web_state_id option \<Rightarrow> web_state_opener" where
  "WebStateOpener H w = \<lparr>opener = w, navigation_index = NavigationIndexFromWebState H w\<rparr>"

definition WebStateOpenerNull :: web_state_opener where
  "WebStateOpenerNull = \<lparr>opener = None, navigation_index = -1\<rparr>"

record web_state_wrapper =
  wrapped :: web_state_id
  wrapper_opener :: web_state_opener
  should_reset_opener :: bool

definition WebStateWrapper :: "web_state_id \<Rightarrow> web_state_wrapper" where
  "WebStateWrapper w =
     \<lparr>wrapped = w, wrapper_opener = WebStateOpenerNull, should_reset_opener = False\<rparr>"

datatype change_reason = Replaced | Activated | Closed | Inserted

text \<open>The callbacks of \<^verbatim>\<open>WebStateListObserver\<close>, one constructor each.\<close>

datatype wsl_notification =
    WebStateInsertedAt web_state_id int bool
  | WebStateMoved web_state_id int int
  | WebStateReplacedAt web_state_id web_state_id int
  | WillDetachWebStateAt web_state_id int
  | WebStateDetachedAt web_state_id int
  | WillCloseWebStateAt web_state_id int bool
  | WebStateActivatedAt "web_state_id option" "web_state_id option" int change_reason
  | WillBeginBatchOperation
  | BatchOperationEnded

text \<open>
  Everything the list does to other objects, in order: a notification is sent to every registered
  observer, the two methods of \<^verbatim>\<open>WebStateListDelegate\<close>, and the realization of the newly
  active tab.
\<close>

datatype wsl_delegate_call =
    WillAddWebState web_state_id
  | WebStateDetached web_state_id

datatype wsl_effect =
    Notify "nat list" wsl_notification
  | Delegate wsl_delegate_call
  | IgnoreOverRealizationCheck
  | ForceRealized web_state_id

record web_state_list =
  web_state_wrappers :: "web_state_wrapper list"
  active_index :: int
  locked :: bool
  batch_operation_in_progress :: bool
  observers :: "nat list"
  effects :: "wsl_effect list"

definition INSERT_NO_FLAGS :: int where "INSERT_NO_FLAGS = 0"
definition INSERT_ACTIVATE :: int where "INSERT_ACTIVATE = 1"
definition INSERT_FORCE_INDEX :: int where "INSERT_FORCE_INDEX = 2"
definition INSERT_INHERIT_OPENER :: int where "INSERT_INHERIT_OPENER = 4"
definition CLOSE_NO_FLAGS :: int where "CLOSE_NO_FLAGS = 0"
definition CLOSE_USER_ACTION :: int where "CLOSE_USER_ACTION = 1"
definition INT_MAX :: int where "INT_MAX = 2147483647"

definition IsInsertionFlagSet :: "int \<Rightarrow> int \<Rightarrow> bool" where
  "IsInsertionFlagSet flagset flag \<longleftrightarrow> (flagset AND flag) = flag"

definition IsClosingFlagSet :: "int \<Rightarrow> int \<Rightarrow> bool" where
  "IsClosingFlagSet flagset flag \<longleftrightarrow> (flagset AND flag) = flag"

section \<open>The wrapper of a tab\<close>

definition SetOpener :: "web_state_opener \<Rightarrow> web_state_wrapper \<Rightarrow> web_state_wrapper res" where
  "SetOpener op w =
     dcheck (Some (wrapped w) \<noteq> opener op) ''web_state_.get() != opener.opener''
       (Inr (w\<lparr>should_reset_opener := False, wrapper_opener := op\<rparr>))"

definition ReleaseWebState :: "web_state_wrapper \<Rightarrow> web_state_id" where
  "ReleaseWebState w = wrapped w"

definition ReplaceWebState ::
  "web_state_id \<Rightarrow> web_state_wrapper \<Rightarrow> (web_state_wrapper \<times> web_state_id) res" where
  "ReplaceWebState new w =
     dcheck (new \<noteq> wrapped w) ''web_state.get() != web_state_.get()''
       (Inr (w\<lparr>wrapped := new, wrapper_opener := WebStateOpenerNull\<rparr>, wrapped w))"

definition WasOpenedBy :: "web_state_id \<Rightarrow> int \<Rightarrow> bool \<Rightarrow> web_state_wrapper \<Rightarrow> bool" where
  "WasOpenedBy op opener_navigation_index use_group w =
     (if opener (wrapper_opener w) \<noteq> Some op then False
      else if \<not> use_group then True
      else navigation_index (wrapper_opener w) = opener_navigation_index)"

section \<open>Queries\<close>

definition empty :: "web_state_list \<Rightarrow> bool" where
  "empty s \<longleftrightarrow> web_state_wrappers s = []"

definition count :: "web_state_list \<Rightarrow> int" where
  "count s = int (length (web_state_wrappers s))"

definition ContainsIndex :: "web_state_list \<Rightarrow> int \<Rightarrow> bool" where
  "ContainsIndex s index \<longleftrightarrow> 0 \<le> index \<and> index < count s"

definition GetWebStateWrapperAt :: "web_state_list \<Rightarrow> int \<Rightarrow> web_state_wrapper res" where
  "GetWebStateWrapperAt s index =
     dcheck (ContainsIndex s index) ''ContainsIndex(index)''
       (Inr (web_state_wrappers s ! nat index))"

definition GetActiveWebStateWrapper :: "web_state_list \<Rightarrow> web_state_wrapper option res" where
  "GetActiveWebStateWrapper s =
     (if active_index s \<noteq> kInvalidIndex
      then rbind (GetWebStateWrapperAt s (active_index s)) (\<lambda>w. Inr (Some w))
      else Inr None)"

definition GetActiveWebState :: "web_state_list \<Rightarrow> web_state_id option res" where
  "GetActiveWebState s =
     rbind (GetActiveWebStateWrapper s) (\<lambda>w. Inr (map_option wrapped w))"

definition GetWebStateAt :: "web_state_list \<Rightarrow> int \<Rightarrow> web_state_id res" where
  "GetWebStateAt s index = rbind (GetWebStateWrapperAt s index) (\<lambda>w. Inr (wrapped w))"

definition GetIndexOfWebState :: "web_state_list \<Rightarrow> web_state_id \<Rightarrow> int" where
  "GetIndexOfWebState s web_state =
     find_index (\<lambda>w. wrapped w = web_state) (web_state_wrappers s)"

definition GetIndexOfWebStateWithURL :: "heap \<Rightarrow> web_state_list \<Rightarrow> string \<Rightarrow> int" where
  "GetIndexOfWebStateWithURL H s url =
     find_index (\<lambda>w. visible_url (H (wrapped w)) = url) (web_state_wrappers s)"

definition GetIndexOfInactiveWebStateWithURL :: "heap \<Rightarrow> web_state_list \<Rightarrow> string \<Rightarrow> int" where
  "GetIndexOfInactiveWebStateWithURL H s url =
     find_index (\<lambda>(index, w). index \<noteq> active_index s \<and> visible_url (H (wrapped w)) = url)
       (zip (map int [0..<length (web_state_wrappers s)]) (web_state_wrappers s))"

definition GetOpenerOfWebStateAt :: "web_state_list \<Rightarrow> int \<Rightarrow> web_state_opener res" where
  "GetOpenerOfWebStateAt s index =
     dcheck (ContainsIndex s index) ''ContainsIndex(index)''
       (Inr (wrapper_opener (web_state_wrappers s ! nat index)))"

text \<open>
  \<^verbatim>\<open>GetIndexOfNthWebStateOpenedBy\<close>: a cyclic scan that starts after
  \<^verbatim>\<open>start_index\<close>.  The \<^verbatim>\<open>DCHECK_NE(index, start_index)\<close> of the loop body is
  lemma \<open>scan_index_neq\<close>; both callers pass a positive \<open>n\<close>.
\<close>

fun nth_opened_loop ::
  "(int \<Rightarrow> bool) \<Rightarrow> int \<Rightarrow> int \<Rightarrow> int list \<Rightarrow> int \<Rightarrow> int \<Rightarrow> int" where
  "nth_opened_loop opened start_index list_length [] n found_index = found_index"
| "nth_opened_loop opened start_index list_length (i # is) n found_index =
     (let index = (start_index + i) mod list_length
      in if \<not> opened index
         then nth_opened_loop opened start_index list_length is n found_index
         else if n - 1 = 0 then index
         else nth_opened_loop opened start_index list_length is (n - 1) index)"

definition GetIndexOfNthWebStateOpenedBy ::
  "heap \<Rightarrow> web_state_list \<Rightarrow> web_state_id option \<Rightarrow> int \<Rightarrow> bool \<Rightarrow> int \<Rightarrow> int" where
  "GetIndexOfNthWebStateOpenedBy H s op start_index use_group n =
     (case op of
        None \<Rightarrow> kInvalidIndex
      | Some op' \<Rightarrow>
          if \<not> ContainsIndex s start_index then kInvalidIndex
          else
            let opener_navigation_index =
                  (if use_group then last_committed_item_index (H op') else -1)
            in nth_opened_loop
                 (\<lambda>index. WasOpenedBy op' opener_navigation_index use_group
                            (web_state_wrappers s ! nat index))
                 start_index (count s) [1..count s - 1] n kInvalidIndex)"

definition GetIndexOfNextWebStateOpenedBy ::
  "heap \<Rightarrow> web_state_list \<Rightarrow> web_state_id option \<Rightarrow> int \<Rightarrow> bool \<Rightarrow> int" where
  "GetIndexOfNextWebStateOpenedBy H s op start_index use_group =
     GetIndexOfNthWebStateOpenedBy H s op start_index use_group 1"

definition GetIndexOfLastWebStateOpenedBy ::
  "heap \<Rightarrow> web_state_list \<Rightarrow> web_state_id option \<Rightarrow> int \<Rightarrow> bool \<Rightarrow> int" where
  "GetIndexOfLastWebStateOpenedBy H s op start_index use_group =
     GetIndexOfNthWebStateOpenedBy H s op start_index use_group INT_MAX"

subsection \<open>The cyclic scan\<close>

lemma scan_index_neq:
  fixes n :: int
  assumes "0 \<le> start" "start < n" "1 \<le> i" "i \<le> n - 1"
  shows "(start + i) mod n \<noteq> start"
proof
  assume "(start + i) mod n = start"
  then have "(start + i) mod n = start mod n" using assms by simp
  then have "n dvd i" by (simp add: mod_eq_dvd_iff)
  then show False using assms zdvd_imp_le by fastforce
qed

lemma nth_opened_loop_spec:
  assumes "1 \<le> n"
  shows "nth_opened_loop opened start len is n found =
    (let hits = filter opened (map (\<lambda>i. (start + i) mod len) is)
     in if hits = [] then found
        else if n \<le> int (length hits) then hits ! nat (n - 1)
        else last hits)"
  using assms
proof (induction "is" arbitrary: n found)
  case (Cons i "is")
  let ?h = "filter opened (map (\<lambda>i. (start + i) mod len) is)"
  show ?case
  proof (cases "opened ((start + i) mod len) \<and> n \<noteq> 1")
    case True
    then have "nat (n - 1) = Suc (nat (n - 2))" "1 \<le> n - 1" using Cons.prems by auto
    then show ?thesis
      using True Cons.IH [of "n - 1"] by (auto simp: Let_def simp del: length_filter_map)
  next
    case False
    then show ?thesis using Cons by (auto simp: Let_def)
  qed
qed simp

lemma GetIndexOfNth_spec:
  assumes "1 \<le> n" "ContainsIndex s start"
  shows "GetIndexOfNthWebStateOpenedBy H s (Some op) start grp n =
    (let hits = filter (\<lambda>i. WasOpenedBy op (if grp then last_committed_item_index (H op) else -1) grp
                                (web_state_wrappers s ! nat i))
                  (map (\<lambda>i. (start + i) mod count s) [1..count s - 1])
     in if hits = [] then -1
        else if n \<le> int (length hits) then hits ! nat (n - 1)
        else last hits)"
  using assms by (simp add: GetIndexOfNthWebStateOpenedBy_def nth_opened_loop_spec)

lemma GetIndexOfNth_cases:
  assumes "1 \<le> n"
    and "GetIndexOfNthWebStateOpenedBy H s (Some op) start grp n = r"
  shows "r = -1 \<or> (0 \<le> r \<and> r < count s \<and> r \<noteq> start \<and>
    opener (wrapper_opener (web_state_wrappers s ! nat r)) = Some op)"
proof (cases "ContainsIndex s start")
  case False
  with assms(2) show ?thesis by (simp add: GetIndexOfNthWebStateOpenedBy_def)
next
  case True
  let ?opened = "\<lambda>i. WasOpenedBy op (if grp then last_committed_item_index (H op) else -1) grp
    (web_state_wrappers s ! nat i)"
  let ?hits = "filter ?opened (map (\<lambda>i. (start + i) mod count s) [1..count s - 1])"
  show ?thesis
  proof (cases "?hits = []")
    case True
    then show ?thesis using assms GetIndexOfNth_spec [OF assms(1) \<open>ContainsIndex s start\<close>]
      by (simp add: Let_def)
  next
    case False
    have "r \<in> set ?hits"
    proof (cases "n \<le> int (length ?hits)")
      case True
      then have "r = ?hits ! nat (n - 1)" and "nat (n - 1) < length ?hits"
        using assms False GetIndexOfNth_spec [OF assms(1) \<open>ContainsIndex s start\<close>, of H op grp]
        by (simp_all add: Let_def del: length_filter_map)
      then show ?thesis by (simp only: nth_mem)
    next
      case nle: False
      then have "r = last ?hits"
        using assms(2) False GetIndexOfNth_spec [OF assms(1) True, of H op grp]
        by (simp add: Let_def del: length_filter_map)
      then show ?thesis using last_in_set [OF False] by (simp only:)
    qed
    then show ?thesis
      using True scan_index_neq [of start "count s"]
      by (auto simp: ContainsIndex_def WasOpenedBy_def split: if_splits)
  qed
qed

section \<open>The order controller\<close>

lemma GetIndexOfNext_range:
  assumes "GetIndexOfNextWebStateOpenedBy H s op start grp \<noteq> -1"
  shows "0 \<le> GetIndexOfNextWebStateOpenedBy H s op start grp \<and>
    GetIndexOfNextWebStateOpenedBy H s op start grp < count s"
proof (cases op)
  case None
  with assms show ?thesis
    by (simp add: GetIndexOfNextWebStateOpenedBy_def GetIndexOfNthWebStateOpenedBy_def)
next
  case (Some o')
  with assms GetIndexOfNth_cases [of 1 H s o' start grp] show ?thesis
    by (auto simp: GetIndexOfNextWebStateOpenedBy_def)
qed

lemma unvisited_decreases:
  assumes "c = GetIndexOfNextWebStateOpenedBy H s w i False" "c \<noteq> -1" "c \<notin> set children"
  shows "card ({0..<count s} - set (c # children)) < card ({0..<count s} - set children)"
proof -
  let ?A = "{0..<count s} - set children"
  have "0 \<le> c \<and> c < count s"
    using GetIndexOfNext_range [of H s w i False, folded assms(1), OF assms(2)] .
  then have "c \<in> ?A" using assms(3) by simp
  then have "card (?A - {c}) < card ?A" by (intro card_Diff1_less) auto
  moreover have "?A - {c} = {0..<count s} - set (c # children)"
    by (simp only: list.set Diff_insert [symmetric])
  ultimately show ?thesis by (simp only:)
qed

text \<open>
  \<^verbatim>\<open>FindIndexOfNextNonRemovedWebStateOpenedBy\<close>: the endless loop of the source stops because
  every iteration adds a new index of the list to the set of visited children.
\<close>

function FindIndexOfNextNonRemovedWebStateOpenedBy ::
  "storage \<Rightarrow> heap \<Rightarrow> web_state_list \<Rightarrow> web_state_id option \<Rightarrow> int \<Rightarrow> int list \<Rightarrow> int" where
  "FindIndexOfNextNonRemovedWebStateOpenedBy removing_indexes H s web_state starting_index children =
     (let child_index = GetIndexOfNextWebStateOpenedBy H s web_state starting_index False
      in if child_index = kInvalidIndex then kInvalidIndex
         else if child_index \<in> set children then kInvalidIndex
         else
           let child_index_after_removal = IndexAfterRemoval removing_indexes child_index
           in if child_index_after_removal \<noteq> kInvalidIndex then child_index_after_removal
              else FindIndexOfNextNonRemovedWebStateOpenedBy removing_indexes H s web_state
                     child_index (child_index # children))"
  by pat_completeness auto
termination
  by (relation "measure (\<lambda>(r, H, s, w, i, children). card ({0..<count s} - set children))")
     (rule wf_measure, simp only: in_measure case_prod_conv, blast intro: unvisited_decreases)

declare FindIndexOfNextNonRemovedWebStateOpenedBy.simps [simp del]

definition DetermineInsertionIndex :: "heap \<Rightarrow> web_state_list \<Rightarrow> web_state_id option \<Rightarrow> int res" where
  "DetermineInsertionIndex H s op =
     (case op of
        None \<Rightarrow> Inr (count s)
      | Some op' \<Rightarrow>
          let opener_index = GetIndexOfWebState s op'
          in dcheck (opener_index \<noteq> kInvalidIndex) ''kInvalidIndex != opener_index''
               (let list_child_index = GetIndexOfLastWebStateOpenedBy H s (Some op') opener_index True;
                    reference_index =
                      (if list_child_index \<noteq> kInvalidIndex then list_child_index else opener_index)
                in dcheck (reference_index < INT_MAX) ''reference_index < INT_MAX''
                     (Inr (reference_index + 1))))"

text \<open>The two final loops over the indexes after, then before, the active one.\<close>

fun first_after_removal :: "storage \<Rightarrow> int list \<Rightarrow> int" where
  "first_after_removal removing_indexes [] = kInvalidIndex"
| "first_after_removal removing_indexes (index # is) =
     (let index_after_removal = IndexAfterRemoval removing_indexes index
      in if index_after_removal \<noteq> kInvalidIndex then index_after_removal
         else first_after_removal removing_indexes is)"

definition closest_after_removal :: "storage \<Rightarrow> web_state_list \<Rightarrow> int \<Rightarrow> int res" where
  "closest_after_removal removing_indexes s active =
     (let up = first_after_removal removing_indexes [active + 1..count s - 1]
      in if up \<noteq> kInvalidIndex then Inr up
         else
           let down = first_after_removal removing_indexes (rev [0..active - 1])
           in if down \<noteq> kInvalidIndex then Inr down
              else Inl (NotReached ''No active WebState selected by WebStateList not empty''))"

definition DetermineNewActiveIndex :: "heap \<Rightarrow> web_state_list \<Rightarrow> int \<Rightarrow> storage \<Rightarrow> int res" where
  "DetermineNewActiveIndex H s active removing_indexes =
     (if active = kInvalidIndex then Inr kInvalidIndex
      else dcheck (ContainsIndex s active) ''web_state_list_.ContainsIndex(active_index)''
        (if count s = removing_count removing_indexes then Inr kInvalidIndex
         else
           let active_index_after_removal = IndexAfterRemoval removing_indexes active
           in if active_index_after_removal \<noteq> kInvalidIndex then Inr active_index_after_removal
              else rbind (GetWebStateAt s active) (\<lambda>active_web_state.
                let child_index_after_removal =
                      FindIndexOfNextNonRemovedWebStateOpenedBy removing_indexes H s
                        (Some active_web_state) active []
                in if child_index_after_removal \<noteq> kInvalidIndex then Inr child_index_after_removal
                   else rbind (GetOpenerOfWebStateAt s active) (\<lambda>op.
                     case opener op of
                       None \<Rightarrow> closest_after_removal removing_indexes s active
                     | Some op' \<Rightarrow>
                         let sibling_index_after_removal =
                               FindIndexOfNextNonRemovedWebStateOpenedBy removing_indexes H s
                                 (Some op') active []
                         in if sibling_index_after_removal \<noteq> kInvalidIndex
                            then Inr sibling_index_after_removal
                            else
                              let opener_index_after_removal =
                                    IndexAfterRemoval removing_indexes (GetIndexOfWebState s op')
                              in if opener_index_after_removal \<noteq> kInvalidIndex
                                 then Inr opener_index_after_removal
                                 else closest_after_removal removing_indexes s active))))"

subsection \<open>Correctness of the order controller\<close>

text \<open>Tab \<open>i\<close> has \<open>op\<close> as its opener.\<close>

definition opened_by :: "web_state_list \<Rightarrow> web_state_id \<Rightarrow> int \<Rightarrow> bool" where
  "opened_by s op i \<longleftrightarrow>
     0 \<le> i \<and> i < count s \<and> opener (wrapper_opener (web_state_wrappers s ! nat i)) = Some op"

lemma GetIndexOfNext_cases:
  "GetIndexOfNextWebStateOpenedBy H s (Some op) start grp = -1 \<or>
   (GetIndexOfNextWebStateOpenedBy H s (Some op) start grp \<noteq> start \<and>
    opened_by s op (GetIndexOfNextWebStateOpenedBy H s (Some op) start grp))"
  using GetIndexOfNth_cases [of 1 H s op start grp]
  by (auto simp: GetIndexOfNextWebStateOpenedBy_def opened_by_def)

lemma FindIndex_unfold:
  "FindIndexOfNextNonRemovedWebStateOpenedBy r H s w start children =
    (if GetIndexOfNextWebStateOpenedBy H s w start False = -1 \<or>
        GetIndexOfNextWebStateOpenedBy H s w start False \<in> set children then -1
     else if IndexAfterRemoval r (GetIndexOfNextWebStateOpenedBy H s w start False) \<noteq> -1
     then IndexAfterRemoval r (GetIndexOfNextWebStateOpenedBy H s w start False)
     else FindIndexOfNextNonRemovedWebStateOpenedBy r H s w
            (GetIndexOfNextWebStateOpenedBy H s w start False)
            (GetIndexOfNextWebStateOpenedBy H s w start False # children))"
  by (subst FindIndexOfNextNonRemovedWebStateOpenedBy.simps) (simp add: Let_def)

lemma FindIndex_sound:
  assumes "FindIndexOfNextNonRemovedWebStateOpenedBy r H s w start children = j" "j \<noteq> -1"
    and "w = Some op"
  shows "\<exists>c. opened_by s op c \<and> IndexAfterRemoval r c = j"
  using assms
proof (induction r H s w start children rule: FindIndexOfNextNonRemovedWebStateOpenedBy.induct)
  case (1 r H s w start children)
  let ?c = "GetIndexOfNextWebStateOpenedBy H s w start False"
  have unfold: "j = (if ?c = -1 \<or> ?c \<in> set children then -1
      else if IndexAfterRemoval r ?c \<noteq> -1 then IndexAfterRemoval r ?c
      else FindIndexOfNextNonRemovedWebStateOpenedBy r H s w ?c (?c # children))"
    using 1(2) FindIndex_unfold [of r H s w start children] by (simp only:)
  with 1(3) have new: "?c \<noteq> -1" "?c \<notin> set children" by (auto split: if_splits)
  show ?case
  proof (cases "IndexAfterRemoval r ?c = -1")
    case True
    then have "FindIndexOfNextNonRemovedWebStateOpenedBy r H s w ?c (?c # children) = j"
      using new unfold by simp
    then show ?thesis
      using 1(1) [of ?c "IndexAfterRemoval r ?c"] new True 1(3,4) by simp
  next
    case False
    then have "IndexAfterRemoval r ?c = j" using new unfold by simp
    moreover have "opened_by s op ?c"
      using GetIndexOfNext_cases [of H s op start False] new 1(4) by auto
    ultimately show ?thesis by blast
  qed
qed

text \<open>
  The traversal visits the children of \<open>op\<close> in cyclic order, so it reaches every child:
  its cyclic distance to a surviving child \<open>d\<close> strictly decreases.
\<close>

lemma cyclic_distance_step:
  fixes n :: int
  assumes "0 < n" "1 \<le> j" "j \<le> (d - start) mod n"
  shows "(d - (start + j) mod n) mod n = (d - start) mod n - j"
proof -
  have "(d - (start + j) mod n) mod n = ((d - start) mod n - j) mod n"
    by (simp add: mod_diff_right_eq mod_diff_left_eq algebra_simps)
  also have "\<dots> = (d - start) mod n - j"
    using assms pos_mod_bound [OF assms(1), of "d - start"] by (intro mod_pos_pos_trivial) auto
  finally show ?thesis .
qed

lemma GetIndexOfNext_nearest:
  assumes "opened_by s op d" "ContainsIndex s start" "d \<noteq> start"
  obtains j where "1 \<le> j" "j \<le> (d - start) mod count s"
    "GetIndexOfNextWebStateOpenedBy H s (Some op) start False = (start + j) mod count s"
proof -
  let ?n = "count s" and ?k = "(d - start) mod count s"
  let ?P = "\<lambda>i. WasOpenedBy op (if False then last_committed_item_index (H op) else -1) False
    (web_state_wrappers s ! nat i)"
  let ?f = "\<lambda>i. (start + i) mod ?n"
  have n: "0 < ?n" and d: "0 \<le> d" "d < ?n" and st: "0 \<le> start" "start < ?n"
    using assms by (auto simp: opened_by_def ContainsIndex_def)
  have fk: "?f ?k = d" using d by (simp add: mod_add_right_eq)
  have "?k \<noteq> 0" using fk assms(3) st by auto
  then have k: "1 \<le> ?k" "?k \<le> ?n - 1"
    using pos_mod_sign [OF n, of "d - start"] pos_mod_bound [OF n, of "d - start"] by linarith+
  have "?P d" using assms(1) by (simp add: WasOpenedBy_def opened_by_def)
  define A where "A = filter ?P (map ?f [1..?k])"
  define B where "B = filter ?P (map ?f [?k + 1..?n - 1])"
  have "[1..?n - 1] = [1..?k] @ [?k + 1..?n - 1]"
    using k by (intro upto_split2) auto
  then have hits: "filter ?P (map ?f [1..?n - 1]) = A @ B"
    unfolding A_def B_def by (simp only: map_append filter_append)
  have "d \<in> set A"
    using \<open>?P d\<close> k fk unfolding A_def by (auto intro!: image_eqI [of _ _ ?k] simp del: mod_add_right_eq)
  then have "A \<noteq> []" by auto
  then have "GetIndexOfNextWebStateOpenedBy H s (Some op) start False = hd A"
    unfolding GetIndexOfNextWebStateOpenedBy_def
    using GetIndexOfNth_spec [OF order_refl assms(2), of H op False]
    by (simp only: hits Let_def) (cases A, simp_all)
  moreover obtain j where "j \<in> {1..?k}" "hd A = ?f j"
    using hd_in_set [OF \<open>A \<noteq> []\<close>] unfolding A_def by auto
  ultimately show ?thesis using that by auto
qed

lemma FindIndex_complete:
  assumes "opened_by s op d" "IndexAfterRemoval r d \<noteq> -1"
    and "ContainsIndex s start" "d \<noteq> start"
    and "\<forall>x \<in> set children. (d - start) mod count s \<le> (d - x) mod count s"
  shows "FindIndexOfNextNonRemovedWebStateOpenedBy r H s (Some op) start children \<noteq> -1"
  using assms(3-)
proof (induction "nat ((d - start) mod count s)" arbitrary: start children rule: less_induct)
  case less
  let ?n = "count s"
  have n: "0 < ?n" using assms(1) by (auto simp: opened_by_def)
  obtain j where j: "1 \<le> j" "j \<le> (d - start) mod ?n"
    and c: "GetIndexOfNextWebStateOpenedBy H s (Some op) start False = (start + j) mod ?n"
    using GetIndexOfNext_nearest [OF assms(1) less.prems(1,2)] by blast
  let ?c = "(start + j) mod ?n"
  have dist: "(d - ?c) mod ?n = (d - start) mod ?n - j"
    by (rule cyclic_distance_step [OF n j])
  have c_range: "0 \<le> ?c" "?c < ?n" using n by simp_all
  then have c_valid: "?c \<noteq> -1" by linarith
  have c_new: "?c \<notin> set children" using less.prems(3) dist j(1) by fastforce
  show ?case
  proof (cases "IndexAfterRemoval r ?c = -1")
    case False
    then show ?thesis
      using c_valid c_new by (subst FindIndex_unfold) (simp add: c)
  next
    case True
    then have "d \<noteq> ?c" using assms(2) by auto
    moreover have "nat ((d - ?c) mod ?n) < nat ((d - start) mod ?n)"
      using dist j by simp
    moreover have "\<forall>x \<in> set (?c # children). (d - ?c) mod ?n \<le> (d - x) mod ?n"
      using less.prems(3) dist j(1) by force
    ultimately have "FindIndexOfNextNonRemovedWebStateOpenedBy r H s (Some op) ?c (?c # children) \<noteq> -1"
      using c_range by (intro less.hyps) (auto simp: ContainsIndex_def)
    then show ?thesis
      using True c_valid c_new by (subst FindIndex_unfold) (simp add: c)
  qed
qed

lemma first_after_removal_none:
  "first_after_removal r is = -1 \<longleftrightarrow> (\<forall>i \<in> set is. IndexAfterRemoval r i = -1)"
  by (induction "is") (auto simp: Let_def)

lemma first_after_removal_some:
  "first_after_removal r is \<noteq> -1 \<Longrightarrow> \<exists>i \<in> set is. first_after_removal r is = IndexAfterRemoval r i"
  by (induction "is") (auto simp: Let_def)

text \<open>
  A computed index that is the new position of a tab which survives the removal.
\<close>

definition picks_survivor :: "storage \<Rightarrow> web_state_list \<Rightarrow> int res \<Rightarrow> bool" where
  "picks_survivor r s m \<longleftrightarrow>
     (\<exists>i. 0 \<le> i \<and> i < count s \<and> i \<notin> storage_abs r \<and> m = Inr (IndexAfterRemoval r i))"

lemma picks_survivorI:
  assumes "storage_invar r" "storage_abs r \<subseteq> {0..<count s}"
    and "0 \<le> i" "i < count s" "IndexAfterRemoval r i \<noteq> -1"
  shows "picks_survivor r s (Inr (IndexAfterRemoval r i))"
  using assms storage.after_invalid_iff [OF assms(1,2,3)] by (auto simp: picks_survivor_def)

lemma first_after_removal_picks:
  assumes "storage_invar r" "storage_abs r \<subseteq> {0..<count s}"
    and "set is \<subseteq> {0..<count s}" "first_after_removal r is \<noteq> -1"
  shows "picks_survivor r s (Inr (first_after_removal r is))"
  using first_after_removal_some [OF assms(4)] assms picks_survivorI [OF assms(1,2)] by fastforce

lemma FindIndex_picks:
  assumes "storage_invar r" "storage_abs r \<subseteq> {0..<count s}"
    and "FindIndexOfNextNonRemovedWebStateOpenedBy r H s (Some op) start children \<noteq> -1"
  shows "picks_survivor r s (Inr (FindIndexOfNextNonRemovedWebStateOpenedBy r H s (Some op) start children))"
  using FindIndex_sound [OF refl assms(3) refl] assms picks_survivorI [OF assms(1,2)]
  by (fastforce simp: opened_by_def)

text \<open>Some tab survives, so one of the two closest-tab loops finds it.\<close>

lemma closest_after_removal_picks:
  assumes "storage_invar r" "storage_abs r \<subseteq> {0..<count s}" "removing_count r \<noteq> count s"
    and "0 \<le> active" "active < count s" "active \<in> storage_abs r"
  shows "picks_survivor r s (closest_after_removal r s active)"
proof -
  let ?up = "[active + 1..count s - 1]" and ?down = "rev [0..active - 1]"
  obtain k where k: "0 \<le> k" "k < count s" "k \<notin> storage_abs r"
    using storage.exists_kept [OF assms(1,2,3)] by (auto simp: count_def)
  then have "k \<noteq> active" and "IndexAfterRemoval r k \<noteq> -1"
    using storage.after_invalid_iff [OF assms(1,2), of k] assms(6) by auto
  moreover from this(1) k have "k \<in> set ?up \<union> set ?down" by auto
  ultimately have "first_after_removal r ?up \<noteq> -1 \<or> first_after_removal r ?down \<noteq> -1"
    by (auto simp only: first_after_removal_none)
  moreover have "set ?up \<subseteq> {0..<count s}" "set ?down \<subseteq> {0..<count s}"
    using assms(4,5) by auto
  ultimately show ?thesis
    using first_after_removal_picks [OF assms(1,2)]
    by (auto simp: closest_after_removal_def Let_def)
qed

lemma opener_picks:
  assumes "storage_invar r" "storage_abs r \<subseteq> {0..<count s}"
    and "IndexAfterRemoval r (GetIndexOfWebState s op) \<noteq> -1" "GetIndexOfWebState s op \<noteq> -1"
  shows "picks_survivor r s (Inr (IndexAfterRemoval r (GetIndexOfWebState s op)))"
  using assms picks_survivorI [OF assms(1,2), of "GetIndexOfWebState s op"]
    find_index_some [of "\<lambda>w. wrapped w = op" "web_state_wrappers s"]
  by (simp add: GetIndexOfWebState_def count_def)

lemma DetermineNewActiveIndex_picks:
  assumes inv: "storage_invar r" "storage_abs r \<subseteq> {0..<count s}"
    and rest: "removing_count r \<noteq> count s"
    and active: "0 \<le> active" "active < count s"
    and member: "\<forall>op. opener (wrapper_opener (web_state_wrappers s ! nat active)) = Some op \<longrightarrow>
          GetIndexOfWebState s op \<noteq> -1"
  shows "picks_survivor r s (DetermineNewActiveIndex H s active r)"
proof (cases "active \<in> storage_abs r")
  case False
  then show ?thesis
    using assms storage.after_invalid_iff [OF inv active(1)]
    by (auto simp: DetermineNewActiveIndex_def Let_def ContainsIndex_def intro: picks_survivorI)
next
  case removed: True
  then have "IndexAfterRemoval r active = -1"
    using storage.after_invalid_iff [OF inv active(1)] by simp
  then show ?thesis
    using rest active member
    by (auto simp: DetermineNewActiveIndex_def Let_def ContainsIndex_def GetWebStateAt_def
        GetWebStateWrapperAt_def GetOpenerOfWebStateAt_def
        intro!: FindIndex_picks [OF inv] opener_picks [OF inv]
          closest_after_removal_picks [OF inv rest active removed] split: option.split)
qed

lemma picks_survivor_range:
  assumes "storage_invar r" "storage_abs r \<subseteq> {0..<count s}" "picks_survivor r s m"
  obtains j where "m = Inr j" "0 \<le> j" "j < count s - removing_count r"
  using assms(3) storage.after_range [OF assms(1,2)] that by (auto simp: picks_survivor_def)

end
