(* ===== verification/Overlay.thy ===== *)
theory Overlay
  imports Web_State_List "HOL-Library.Word"
begin

text \<open>
  Overlays: dialogs, banners and infobar modals shown on top of a tab
  (\<^verbatim>\<open>chrome/browser/overlays\<close> and \<^verbatim>\<open>chrome/browser/ui/overlays\<close>).  Three objects
  cooperate, for one modality of one browser window:

    \<^item> every tab has an \<^verbatim>\<open>OverlayRequestQueueImpl\<close> of the overlays requested for it;
    \<^item> \<^verbatim>\<open>OverlayPresenterImpl\<close> decides which request is shown: the front request of the
      active tab.  It is the delegate of the queues and extends the life of a request that is
      removed while its UI is on screen;
    \<^item> \<^verbatim>\<open>OverlayPresentationContextImpl\<close> owns the UI.  It starts and stops the UIKit
      coordinators and reports, some time later, that a dismissal has finished.

  Requests are heap objects: \<open>requests\<close> maps the live ones to their contents, and following a
  pointer to a destroyed one is the failure \<open>DanglingPointer\<close>.  The UIKit coordinators are
  outside the model: starting and stopping them is recorded in \<open>overlay_log\<close>, and the end of a
  dismissal is an event of the environment.  A queue is created on first use in the source; here
  every tab has one, initially empty.
\<close>

section \<open>Data\<close>

type_synonym request = nat
type_synonym view_controller = nat

datatype OverlayModality = kTesting | kWebContentArea | kInfobarBanner | kInfobarModal

datatype OverlayDismissalReason = kUserInteraction | kHiding | kCancellation

type_synonym UIPresentationCapabilities = "32 word"

definition kNone :: UIPresentationCapabilities where "kNone = 0"
definition kContained :: UIPresentationCapabilities where "kContained = push_bit 0 1"
definition kPresented :: UIPresentationCapabilities where "kPresented = push_bit 1 1"

text \<open>A completion callback of a request: the presenter's \<^verbatim>\<open>OverlayWasCompleted\<close>, or a client's.\<close>

datatype completion_callback = CompletedForPresenter | CompletedForClient nat

record overlay_request =
  queue_web_state :: "web_state_id option"
  completion_callbacks :: "completion_callback list"

datatype cancel_handler = DefaultCancelHandler web_state_id | CustomCancelHandler nat

text \<open>The delegate or an observer of a queue: the presenter of this window, or another object.\<close>

datatype queue_party = ThisPresenter | OtherParty nat

record request_queue =
  queue_delegate :: "queue_party option"
  queue_observers :: "queue_party list"
  request_storages :: "(request \<times> cancel_handler) list"

definition empty_queue :: request_queue where
  "empty_queue = \<lparr>queue_delegate = None, queue_observers = [], request_storages = []\<rparr>"

text \<open>
  \<^verbatim>\<open>OverlayRequestUIState\<close>.  A coordinator is identified by its base view controller; the
  callbacks by what the presenter binds to them.
\<close>

record ui_state =
  coordinator :: "view_controller option option"
  has_ui_been_presented :: bool
  presentation_callback :: "request option"
  dismissal_reason :: OverlayDismissalReason
  dismissal_callback :: "(request \<times> web_state_id) option"

definition OverlayRequestUIState :: ui_state where
  "OverlayRequestUIState = \<lparr>coordinator = None, has_ui_been_presented = False,
     presentation_callback = None, dismissal_reason = kUserInteraction, dismissal_callback = None\<rparr>"

datatype overlay_effect =
    WillShowOverlay nat request bool
  | DidShowOverlay nat request
  | DidHideOverlay nat request
  | ClientCompleted nat request
  | RequestRemovedForOther nat web_state_id request bool
  | RequestAddedForOther nat web_state_id request nat
  | WillReplaceOther nat web_state_id
  | QueueDestroyedForOther nat web_state_id
  | StartCoordinator request bool
  | StopCoordinator request bool
  | UpdateForCapabilities UIPresentationCapabilities

text \<open>The presenter, the presentation context and the objects they share.\<close>

record overlay_world =
  requests :: "request \<Rightarrow> overlay_request option"
  queues :: "web_state_id \<Rightarrow> request_queue"
  destroyed_web_states :: "web_state_id list"
  browser_tabs :: "web_state_id list"
  overlay_log :: "overlay_effect list"
  presenting :: bool
  detached_queue_replaced_delegate :: bool
  detached_presenting_request_queue :: "web_state_id option"
  presented_request :: "request option"
  detaching_presenting_web_state :: bool
  removed_request_awaiting_dismissal :: "request option"
  previously_presented_requests :: "request list"
  active_web_state :: "web_state_id option"
  presentation_context :: bool
  presenter_observers :: "nat list"
  context_delegate :: "nat option"
  window :: "nat option"
  container_view_controller :: "view_controller option"
  presentation_context_view_controller :: "view_controller option"
  ui_disabled :: bool
  presentation_capabilities :: UIPresentationCapabilities
  context_request :: "request option"
  ui_states :: "request \<Rightarrow> ui_state option"
  context_observed :: bool

text \<open>
  What the model takes from code it does not contain: whether the coordinator class registered for a
  request uses a child view controller, and which requests an observer of the presenter supports.
\<close>

record overlay_env =
  uses_child_view_controller :: "request \<Rightarrow> bool"
  is_request_supported :: "nat \<Rightarrow> request \<Rightarrow> bool"

definition log_overlay :: "overlay_effect list \<Rightarrow> overlay_world \<Rightarrow> overlay_world" where
  "log_overlay es W = W\<lparr>overlay_log := overlay_log W @ es\<rparr>"

section \<open>Requests\<close>

definition deref_request :: "request \<Rightarrow> overlay_world \<Rightarrow> overlay_request res" where
  "deref_request r W =
     (case requests W r of None \<Rightarrow> Inl (DanglingPointer ''OverlayRequest'') | Some q \<Rightarrow> Inr q)"

definition GetQueueWebState :: "request \<Rightarrow> overlay_world \<Rightarrow> web_state_id option res" where
  "GetQueueWebState r W = rbind (deref_request r W) (\<lambda>q. Inr (queue_web_state q))"

definition AddCompletionCallback :: "request \<Rightarrow> completion_callback \<Rightarrow> overlay_world \<Rightarrow> overlay_world res" where
  "AddCompletionCallback r cb W = rbind (deref_request r W) (\<lambda>q.
     Inr (W\<lparr>requests := (requests W)
       (r \<mapsto> q\<lparr>completion_callbacks := completion_callbacks q @ [cb]\<rparr>)\<rparr>))"

definition OverlayWasCompleted :: "request \<Rightarrow> overlay_world \<Rightarrow> overlay_world" where
  "OverlayWasCompleted r W =
     W\<lparr>previously_presented_requests := removeAll r (previously_presented_requests W)\<rparr>"

fun run_completion :: "request \<Rightarrow> completion_callback \<Rightarrow> overlay_world \<Rightarrow> overlay_world" where
  "run_completion r CompletedForPresenter W = OverlayWasCompleted r W"
| "run_completion r (CompletedForClient n) W = log_overlay [ClientCompleted n r] W"

definition ExecuteCompletionCallbacks ::
    "request \<Rightarrow> completion_callback list \<Rightarrow> overlay_world \<Rightarrow> overlay_world" where
  "ExecuteCompletionCallbacks r cbs W = fold (run_completion r) cbs W"

text \<open>The destructor of a request, run when the pointer that owns it goes away.\<close>

definition destroy_request :: "request \<Rightarrow> overlay_world \<Rightarrow> overlay_world res" where
  "destroy_request r W = rbind (deref_request r W) (\<lambda>q.
     let W = ExecuteCompletionCallbacks r (completion_callbacks q) W
     in Inr (W\<lparr>requests := (requests W)(r := None)\<rparr>))"

definition destroy_optional :: "request option \<Rightarrow> overlay_world \<Rightarrow> overlay_world res" where
  "destroy_optional p W = (case p of None \<Rightarrow> Inr W | Some r \<Rightarrow> destroy_request r W)"

section \<open>Queues: accessors\<close>

definition GetQueueForWebState :: "web_state_id option \<Rightarrow> overlay_world \<Rightarrow> request_queue option res" where
  "GetQueueForWebState web_state W =
     (case web_state of None \<Rightarrow> Inr None
      | Some w \<Rightarrow> if w \<in> set (destroyed_web_states W) then Inl (DanglingPointer ''WebState'')
          else Inr (Some (queues W w)))"

definition queue_size :: "request_queue \<Rightarrow> nat" where
  "queue_size q = length (request_storages q)"

definition GetRequest :: "nat \<Rightarrow> request_queue \<Rightarrow> request res" where
  "GetRequest index q =
     dcheck (index < queue_size q) ''index < size()'' (Inr (fst (request_storages q ! index)))"

definition front_request :: "request_queue \<Rightarrow> request option" where
  "front_request q =
     (case request_storages q of [] \<Rightarrow> None | s # ss \<Rightarrow> Some (fst s))"

definition GetFrontRequestForWebState :: "web_state_id option \<Rightarrow> overlay_world \<Rightarrow> request option res" where
  "GetFrontRequestForWebState web_state W = rbind (GetQueueForWebState web_state W) (\<lambda>q.
     Inr (case q of None \<Rightarrow> None | Some q \<Rightarrow> front_request q))"

definition GetActiveRequest :: "overlay_world \<Rightarrow> request option res" where
  "GetActiveRequest W = GetFrontRequestForWebState (active_web_state W) W"

definition update_queue :: "web_state_id \<Rightarrow> (request_queue \<Rightarrow> request_queue) \<Rightarrow> overlay_world \<Rightarrow> overlay_world" where
  "update_queue w f W = W\<lparr>queues := (queues W)(w := f (queues W w))\<rparr>"

section \<open>The presentation context\<close>

definition GetRequiredPresentationCapabilities :: "overlay_env \<Rightarrow> request \<Rightarrow> UIPresentationCapabilities" where
  "GetRequiredPresentationCapabilities E r =
     (if uses_child_view_controller E r then kContained else kPresented)"

definition CanShowUIWith :: "overlay_env \<Rightarrow> request \<Rightarrow> UIPresentationCapabilities \<Rightarrow> bool" where
  "CanShowUIWith E r capabilities \<longleftrightarrow>
     capabilities AND GetRequiredPresentationCapabilities E r \<noteq> 0"

definition CanShowUIForRequest :: "overlay_env \<Rightarrow> request \<Rightarrow> overlay_world \<Rightarrow> bool" where
  "CanShowUIForRequest E r W = CanShowUIWith E r (presentation_capabilities W)"

definition GetBaseViewController :: "overlay_env \<Rightarrow> request \<Rightarrow> overlay_world \<Rightarrow> view_controller option" where
  "GetBaseViewController E r W =
     (if uses_child_view_controller E r then container_view_controller W
      else presentation_context_view_controller W)"

definition GetRequestUIState :: "request option \<Rightarrow> overlay_world \<Rightarrow> ui_state option" where
  "GetRequestUIState r W = (case r of None \<Rightarrow> None | Some r \<Rightarrow> ui_states W r)"

definition has_callback :: "ui_state \<Rightarrow> bool" where
  "has_callback st \<longleftrightarrow> dismissal_callback st \<noteq> None"

definition ContextIsShowingOverlayUI :: "overlay_world \<Rightarrow> bool" where
  "ContextIsShowingOverlayUI W =
     (case GetRequestUIState (context_request W) W of None \<Rightarrow> False | Some st \<Rightarrow> has_callback st)"

definition PrepareToShowOverlayUI :: "overlay_env \<Rightarrow> request \<Rightarrow> overlay_world \<Rightarrow> overlay_world" where
  "PrepareToShowOverlayUI E r W =
     (if CanShowUIForRequest E r W then W
      else log_overlay [UpdateForCapabilities (GetRequiredPresentationCapabilities E r)] W)"

text \<open>The observers of the presenter that support \<open>r\<close> are asked in the order of registration.\<close>

definition notify_presenter_observers ::
    "overlay_env \<Rightarrow> request \<Rightarrow> (nat \<Rightarrow> overlay_effect) \<Rightarrow> overlay_world \<Rightarrow> overlay_world res" where
  "notify_presenter_observers E r f W =
     (if presenter_observers W = [] then Inr W
      else rbind (deref_request r W) (\<lambda>_. Inr (log_overlay
        (map f (filter (\<lambda>ob. is_request_supported E ob r) (presenter_observers W))) W)))"

definition OverlayWasPresented :: "overlay_env \<Rightarrow> request \<Rightarrow> overlay_world \<Rightarrow> overlay_world res" where
  "OverlayWasPresented E r W =
     dcheck (presentation_context W) ''presentation_context_ == presentation_context''
       (dcheck (presented_request W = Some r) ''presented_request_ == request''
         (notify_presenter_observers E r (\<lambda>ob. DidShowOverlay ob r) W))"

definition set_ui_state :: "request \<Rightarrow> ui_state \<Rightarrow> overlay_world \<Rightarrow> overlay_world" where
  "set_ui_state r st W = W\<lparr>ui_states := (ui_states W)(r \<mapsto> st)\<rparr>"

definition OverlayPresentionRequested ::
    "request \<Rightarrow> web_state_id \<Rightarrow> ui_state \<Rightarrow> ui_state res" where
  "OverlayPresentionRequested r w st =
     dcheck (presentation_callback st = None) ''presentation_callback_.is_null()''
       (dcheck (dismissal_callback st = None) ''dismissal_callback_.is_null()''
         (Inr (st\<lparr>presentation_callback := Some r, dismissal_callback := Some (r, w),
                 dismissal_reason := kUserInteraction\<rparr>)))"

definition UIStateWasPresented :: "overlay_env \<Rightarrow> request \<Rightarrow> ui_state \<Rightarrow> overlay_world \<Rightarrow> overlay_world res" where
  "UIStateWasPresented E r st W =
     (case presentation_callback st of
        None \<Rightarrow> Inl (CheckFailed ''null callback'')
      | Some p \<Rightarrow> OverlayWasPresented E p
          (set_ui_state r (st\<lparr>has_ui_been_presented := True, presentation_callback := None\<rparr>) W))"

definition ShowUIForPresentedRequest :: "overlay_env \<Rightarrow> overlay_world \<Rightarrow> overlay_world res" where
  "ShowUIForPresentedRequest E W =
     (case context_request W of None \<Rightarrow> Inl (DCheckFailed ''request_'')
      | Some r \<Rightarrow>
         dcheck (CanShowUIForRequest E r W) ''CanShowUIForRequest(request_)''
           (case ui_states W r of None \<Rightarrow> Inl (DanglingPointer ''OverlayRequestUIState'')
            | Some st \<Rightarrow>
               let base = GetBaseViewController E r W;
                   st = (if coordinator st \<noteq> Some base then st\<lparr>coordinator := Some base\<rparr> else st)
               in UIStateWasPresented E r st
                    (log_overlay [StartCoordinator r (\<not> has_ui_been_presented st)] W)))"

definition SetRequest :: "overlay_env \<Rightarrow> request option \<Rightarrow> overlay_world \<Rightarrow> overlay_world res" where
  "SetRequest E r W =
     (if context_request W = r then Inr W
      else rbind
        (case context_request W of None \<Rightarrow> Inr W
         | Some p \<Rightarrow>
            (case ui_states W p of None \<Rightarrow> Inl (DCheckFailed ''state'')
             | Some st \<Rightarrow> dcheck (\<not> has_callback st) ''!state->has_callback()''
                 (Inr (if dismissal_reason st = kUserInteraction \<or> dismissal_reason st = kCancellation
                       then W\<lparr>ui_states := (ui_states W)(p := None)\<rparr> else W))))
        (\<lambda>W. let W = W\<lparr>context_request := r\<rparr> in
           case r of
             Some q \<Rightarrow> dcheck (ui_states W q \<noteq> None) ''GetRequestUIState(request_)''
                         (ShowUIForPresentedRequest E W)
           | None \<Rightarrow> Inr (log_overlay [UpdateForCapabilities kNone] W)))"

definition ShowOverlayUI :: "overlay_env \<Rightarrow> request \<Rightarrow> web_state_id \<Rightarrow> overlay_world \<Rightarrow> overlay_world res" where
  "ShowOverlayUI E r w W =
     dcheck (\<not> ContextIsShowingOverlayUI W) ''!IsShowingOverlayUI()''
       (dcheck (CanShowUIForRequest E r W) ''CanShowUIForRequest(request)''
         (let st = (case ui_states W r of None \<Rightarrow> OverlayRequestUIState | Some st \<Rightarrow> st)
          in rbind (OverlayPresentionRequested r w st) (\<lambda>st.
               SetRequest E (Some r) (set_ui_state r st W))))"

definition DismissPresentedUI :: "OverlayDismissalReason \<Rightarrow> overlay_world \<Rightarrow> overlay_world res" where
  "DismissPresentedUI reason W =
     (case context_request W of None \<Rightarrow> Inl (DCheckFailed ''state'')
      | Some r \<Rightarrow>
         (case ui_states W r of None \<Rightarrow> Inl (DCheckFailed ''state'')
          | Some st \<Rightarrow> dcheck (coordinator st \<noteq> None) ''state->coordinator()''
              (Inr (log_overlay [StopCoordinator r (reason = kUserInteraction)]
                 (set_ui_state r (st\<lparr>dismissal_reason := reason\<rparr>) W)))))"

definition HideOverlayUI :: "request \<Rightarrow> overlay_world \<Rightarrow> overlay_world res" where
  "HideOverlayUI r W =
     dcheck (context_request W = Some r) ''request_ == request''
       (case ui_states W r of None \<Rightarrow> Inl (DanglingPointer ''OverlayRequestUIState'')
        | Some st \<Rightarrow> dcheck (has_callback st) ''state->has_callback()'' (DismissPresentedUI kHiding W))"

definition CancelOverlayUI :: "request \<Rightarrow> overlay_world \<Rightarrow> overlay_world res" where
  "CancelOverlayUI r W =
     (case ui_states W r of None \<Rightarrow> Inr W
      | Some st \<Rightarrow> if \<not> has_callback st then Inr (W\<lparr>ui_states := (ui_states W)(r := None)\<rparr>)
          else DismissPresentedUI kCancellation W)"

section \<open>The presenter: presentation, cancellation\<close>

definition CancelOverlayUIForRequest :: "request option \<Rightarrow> overlay_world \<Rightarrow> overlay_world res" where
  "CancelOverlayUIForRequest r W =
     (case r of None \<Rightarrow> Inr W
      | Some r \<Rightarrow> if \<not> presentation_context W then Inr W else CancelOverlayUI r W)"

text \<open>Shows the front request of the active tab, if there is one and the context is able to.\<close>

definition PresentOverlayForActiveRequest :: "overlay_env \<Rightarrow> overlay_world \<Rightarrow> overlay_world res" where
  "PresentOverlayForActiveRequest E W =
     (if \<not> presentation_context W \<or> ContextIsShowingOverlayUI W then Inr W
      else rbind (GetActiveRequest W) (\<lambda>active.
        case active of None \<Rightarrow> Inr W
        | Some r \<Rightarrow>
           if \<not> CanShowUIForRequest E r W then Inr (PrepareToShowOverlayUI E r W)
           else dcheck (\<not> presenting W) ''!presenting_''
             (let W = W\<lparr>presenting := True, presented_request := Some r\<rparr>;
                  initial_presentation = (r \<notin> set (previously_presented_requests W))
              in rbind (notify_presenter_observers E r
                         (\<lambda>ob. WillShowOverlay ob r initial_presentation) W) (\<lambda>W.
                 rbind (AddCompletionCallback r CompletedForPresenter
                         (W\<lparr>previously_presented_requests :=
                              List.insert r (previously_presented_requests W)\<rparr>)) (\<lambda>W.
                 case active_web_state W of
                   None \<Rightarrow> Inl (DanglingPointer ''GetActiveQueue()'')
                 | Some w \<Rightarrow> ShowOverlayUI E r w W)))))"

fun CancelOverlayUIForTabs :: "web_state_id list \<Rightarrow> overlay_world \<Rightarrow> overlay_world res" where
  "CancelOverlayUIForTabs [] W = Inr W"
| "CancelOverlayUIForTabs (w # ws) W =
     rbind (GetFrontRequestForWebState (Some w) W) (\<lambda>front.
     rbind (CancelOverlayUIForRequest front W) (CancelOverlayUIForTabs ws))"

definition CancelAllOverlayUI :: "overlay_world \<Rightarrow> overlay_world res" where
  "CancelAllOverlayUI W = CancelOverlayUIForTabs (browser_tabs W) W"

definition SetPresentationContext :: "overlay_env \<Rightarrow> bool \<Rightarrow> overlay_world \<Rightarrow> overlay_world res" where
  "SetPresentationContext E context W = rbind
     (if presentation_context W
      then rbind (CancelAllOverlayUI W) (\<lambda>W. Inr (W\<lparr>context_observed := False\<rparr>)) else Inr W)
     (\<lambda>W. let W = W\<lparr>presentation_context := context, presenting := False, presented_request := None,
                    previously_presented_requests := []\<rparr>
          in if context then PresentOverlayForActiveRequest E (W\<lparr>context_observed := True\<rparr>)
             else Inr W)"

section \<open>The presenter: reactions to its queues\<close>

definition OverlayRequestQueueWillReplaceDelegate ::
    "overlay_env \<Rightarrow> web_state_id \<Rightarrow> overlay_world \<Rightarrow> overlay_world res" where
  "OverlayRequestQueueWillReplaceDelegate E w W =
     (case presented_request W of None \<Rightarrow> Inr W
      | Some r \<Rightarrow>
         if Some r \<noteq> front_request (queues W w) then Inr W
         else rbind (notify_presenter_observers E r (\<lambda>ob. DidHideOverlay ob r) W) (\<lambda>W.
           Inr (W\<lparr>presented_request := None, detached_presenting_request_queue := None,
                  detached_queue_replaced_delegate := True\<rparr>)))"

definition SetDelegate :: "overlay_env \<Rightarrow> web_state_id \<Rightarrow> queue_party option \<Rightarrow> overlay_world \<Rightarrow> overlay_world res" where
  "SetDelegate E w d W =
     (if queue_delegate (queues W w) = d then Inr W
      else rbind
        (case queue_delegate (queues W w) of None \<Rightarrow> Inr W
         | Some ThisPresenter \<Rightarrow> OverlayRequestQueueWillReplaceDelegate E w W
         | Some (OtherParty n) \<Rightarrow> Inr (log_overlay [WillReplaceOther n w] W))
        (\<lambda>W. Inr (update_queue w (\<lambda>q. q\<lparr>queue_delegate := d\<rparr>) W)))"

text \<open>
  The delegate method called when \<open>r\<close> has left the queue of \<open>w\<close>.  The request is owned by the
  parameter: unless it is kept as \<open>removed_request_awaiting_dismissal\<close> (which then gives up
  the one it held), it is destroyed when the method returns.
\<close>

definition OverlayRequestRemoved ::
    "overlay_env \<Rightarrow> web_state_id \<Rightarrow> request \<Rightarrow> bool \<Rightarrow> overlay_world \<Rightarrow> overlay_world res" where
  "OverlayRequestRemoved E w r cancelled W =
     (if presented_request W = Some r
      then rbind (destroy_optional (removed_request_awaiting_dismissal W) W) (\<lambda>W.
           let W = W\<lparr>removed_request_awaiting_dismissal := Some r\<rparr> in
           rbind (if detached_presenting_request_queue W \<noteq> None
                  then SetDelegate E w None (W\<lparr>detached_presenting_request_queue := None\<rparr>)
                  else Inr W) (\<lambda>W.
           if cancelled then CancelOverlayUIForRequest (Some r) W else Inr W))
      else rbind (if cancelled then CancelOverlayUIForRequest (Some r) W else Inr W)
             (destroy_request r))"

definition RemoveRequest :: "overlay_env \<Rightarrow> web_state_id \<Rightarrow> nat \<Rightarrow> bool \<Rightarrow> overlay_world \<Rightarrow> overlay_world res" where
  "RemoveRequest E w index cancelled W =
     dcheck (index < queue_size (queues W w)) ''index < size()''
       (let r = fst (request_storages (queues W w) ! index);
            W = update_queue w
                  (\<lambda>q. q\<lparr>request_storages := remove_at index (request_storages q)\<rparr>) W
        in case queue_delegate (queues W w) of
             None \<Rightarrow> destroy_request r W
           | Some ThisPresenter \<Rightarrow> OverlayRequestRemoved E w r cancelled W
           | Some (OtherParty n) \<Rightarrow>
               destroy_request r (log_overlay [RequestRemovedForOther n w r cancelled] W))"

definition PopFrontRequest :: "overlay_env \<Rightarrow> web_state_id \<Rightarrow> overlay_world \<Rightarrow> overlay_world res" where
  "PopFrontRequest E w W = RemoveRequest E w 0 False W"

definition RequestAddedToQueue ::
    "overlay_env \<Rightarrow> web_state_id \<Rightarrow> request \<Rightarrow> overlay_world \<Rightarrow> overlay_world res" where
  "RequestAddedToQueue E w r W = rbind (GetActiveRequest W) (\<lambda>active.
     if Some r \<noteq> active then Inr W
     else if \<not> presenting W then PresentOverlayForActiveRequest E W
     else case presented_request W of None \<Rightarrow> Inr W
       | Some p \<Rightarrow>
          if queue_size (queues W w) > 1
          then rbind (GetRequest 1 (queues W w)) (\<lambda>second.
            if second = p then HideOverlayUI p W else Inr W)
          else Inr W)"

fun notify_request_added ::
    "overlay_env \<Rightarrow> web_state_id \<Rightarrow> request \<Rightarrow> nat \<Rightarrow> queue_party list \<Rightarrow> overlay_world \<Rightarrow> overlay_world res" where
  "notify_request_added E w r index [] W = Inr W"
| "notify_request_added E w r index (ThisPresenter # ps) W =
     rbind (RequestAddedToQueue E w r W) (notify_request_added E w r index ps)"
| "notify_request_added E w r index (OtherParty n # ps) W =
     notify_request_added E w r index ps (log_overlay [RequestAddedForOther n w r index] W)"

definition InsertRequest ::
    "overlay_env \<Rightarrow> web_state_id \<Rightarrow> nat \<Rightarrow> request option \<Rightarrow> cancel_handler option \<Rightarrow> overlay_world \<Rightarrow>
     overlay_world res" where
  "InsertRequest E w index request handler W =
     dcheck (index \<le> queue_size (queues W w)) ''index <= size()''
       (case request of None \<Rightarrow> Inl (DCheckFailed ''request.get()'')
        | Some r \<Rightarrow>
           (let h = (case handler of None \<Rightarrow> DefaultCancelHandler w | Some h \<Rightarrow> h)
            in rbind (deref_request r W) (\<lambda>rq.
              let W = W\<lparr>requests := (requests W)(r \<mapsto> rq\<lparr>queue_web_state := Some w\<rparr>)\<rparr>;
                  W = update_queue w
                        (\<lambda>q. q\<lparr>request_storages := insert_at index (r, h) (request_storages q)\<rparr>) W
              in notify_request_added E w r index (queue_observers (queues W w)) W)))"

definition AddRequest ::
    "overlay_env \<Rightarrow> web_state_id \<Rightarrow> request option \<Rightarrow> cancel_handler option \<Rightarrow> overlay_world \<Rightarrow> overlay_world res" where
  "AddRequest E w request handler W =
     InsertRequest E w (queue_size (queues W w)) request handler W"

text \<open>
  The loop of \<^verbatim>\<open>CancelAllRequests\<close> runs while the queue is not empty; every turn removes one
  request, so as many turns as there are requests suffice (see \<open>CancelAllRequests_empties\<close>).
\<close>

fun cancel_all_loop :: "nat \<Rightarrow> overlay_env \<Rightarrow> web_state_id \<Rightarrow> overlay_world \<Rightarrow> overlay_world res" where
  "cancel_all_loop fuel E w W =
     (if queue_size (queues W w) = 0 then Inr W
      else case fuel of 0 \<Rightarrow> Inl (NotReached ''CancelAllRequests'')
        | Suc fuel \<Rightarrow>
           rbind (RemoveRequest E w (queue_size (queues W w) - 1) True W) (cancel_all_loop fuel E w))"

definition CancelAllRequests :: "overlay_env \<Rightarrow> web_state_id \<Rightarrow> overlay_world \<Rightarrow> overlay_world res" where
  "CancelAllRequests E w W = cancel_all_loop (queue_size (queues W w)) E w W"

definition CancelRequest :: "overlay_env \<Rightarrow> web_state_id \<Rightarrow> request \<Rightarrow> overlay_world \<Rightarrow> overlay_world res" where
  "CancelRequest E w r W =
     (let index = find_index (\<lambda>s. fst s = r) (request_storages (queues W w))
      in if index = -1 then Inr W else RemoveRequest E w (nat index) True W)"

fun notify_queue_destroyed :: "web_state_id \<Rightarrow> queue_party list \<Rightarrow> overlay_world \<Rightarrow> overlay_world" where
  "notify_queue_destroyed w [] W = W"
| "notify_queue_destroyed w (ThisPresenter # ps) W = notify_queue_destroyed w ps
     (update_queue w (\<lambda>q. q\<lparr>queue_observers := removeAll ThisPresenter (queue_observers q)\<rparr>) W)"
| "notify_queue_destroyed w (OtherParty n # ps) W = notify_queue_destroyed w ps
     (log_overlay [QueueDestroyedForOther n w] W)"

text \<open>The destructor of a queue, run when its tab is destroyed.\<close>

definition destroy_queue :: "overlay_env \<Rightarrow> web_state_id \<Rightarrow> overlay_world \<Rightarrow> overlay_world res" where
  "destroy_queue E w W =
     rbind (CancelAllRequests E w (notify_queue_destroyed w (queue_observers (queues W w)) W)) (\<lambda>W.
       Inr (W\<lparr>destroyed_web_states := w # destroyed_web_states W\<rparr>))"

section \<open>The presenter: reactions to the context\<close>

definition OverlayWasDismissed ::
    "overlay_env \<Rightarrow> request \<Rightarrow> web_state_id \<Rightarrow> OverlayDismissalReason \<Rightarrow> overlay_world \<Rightarrow> overlay_world res" where
  "OverlayWasDismissed E r w reason W =
     (if \<not> presentation_context W then Inr W
      else if detached_queue_replaced_delegate W
      then let W = W\<lparr>presenting := False, detached_queue_replaced_delegate := False\<rparr>
           in rbind (GetActiveRequest W) (\<lambda>active.
                if active \<noteq> None then PresentOverlayForActiveRequest E W else Inr W)
      else dcheck (presented_request W = Some r) ''presented_request_ == request''
        (rbind
          (if reason = kUserInteraction \<and> w \<notin> set (destroyed_web_states W) \<and>
              Some r \<noteq> removed_request_awaiting_dismissal W
           then rbind (PopFrontRequest E w W) (\<lambda>W.
                  dcheck (removed_request_awaiting_dismissal W = Some r)
                    ''removed_request_awaiting_dismissal_ == request'' (Inr W))
           else Inr W)
          (\<lambda>W. rbind (notify_presenter_observers E r (\<lambda>ob. DidHideOverlay ob r)
                  (W\<lparr>presenting := False, presented_request := None,
                     detached_presenting_request_queue := None\<rparr>)) (\<lambda>W.
               rbind (destroy_optional (removed_request_awaiting_dismissal W) W) (\<lambda>W.
               let W = W\<lparr>removed_request_awaiting_dismissal := None\<rparr>
               in rbind (GetActiveRequest W) (\<lambda>active.
                    if active \<noteq> Some r then PresentOverlayForActiveRequest E W else Inr W))))))"

text \<open>\<^verbatim>\<open>OverlayUIDidFinishDismissal\<close>: the coordinator of \<open>r\<close> reports that its UI is gone.\<close>

definition OverlayUIWasDismissed :: "overlay_env \<Rightarrow> overlay_world \<Rightarrow> overlay_world res" where
  "OverlayUIWasDismissed E W =
     (case context_request W of None \<Rightarrow> Inl (DCheckFailed ''request_'')
      | Some p \<Rightarrow>
         (case ui_states W p of None \<Rightarrow> Inl (DanglingPointer ''OverlayRequestUIState'')
          | Some st \<Rightarrow>
             (case dismissal_callback st of
                None \<Rightarrow> Inl (DCheckFailed ''GetRequestUIState(request_)->has_callback()'')
              | Some (r, w) \<Rightarrow>
                  rbind (OverlayWasDismissed E r w (dismissal_reason st)
                          (set_ui_state p (st\<lparr>dismissal_callback := None\<rparr>) W)) (\<lambda>W.
                    if context_request W = Some p then SetRequest E None W else Inr W))))"

definition OverlayUIDidFinishDismissal :: "overlay_env \<Rightarrow> request \<Rightarrow> overlay_world \<Rightarrow> overlay_world res" where
  "OverlayUIDidFinishDismissal E r W =
     dcheck (context_request W = Some r) ''presentation_context_->request_ == request''
       (OverlayUIWasDismissed E W)"

definition WillChangePresentationCapabilities ::
    "overlay_env \<Rightarrow> UIPresentationCapabilities \<Rightarrow> overlay_world \<Rightarrow> overlay_world res" where
  "WillChangePresentationCapabilities E capabilities W =
     dcheck (presentation_context W) ''presentation_context_ == presentation_context''
       (case presented_request W of None \<Rightarrow> Inr W
        | Some r \<Rightarrow> if CanShowUIWith E r capabilities then Inr W
            else dcheck (presenting W) ''presenting_'' (HideOverlayUI r W))"

definition DidChangePresentationCapabilities :: "overlay_env \<Rightarrow> overlay_world \<Rightarrow> overlay_world res" where
  "DidChangePresentationCapabilities E W =
     dcheck (presentation_context W) ''presentation_context_ == presentation_context''
       (if \<not> presenting W then PresentOverlayForActiveRequest E W else Inr W)"

definition ContextDidEnableUI :: "overlay_env \<Rightarrow> overlay_world \<Rightarrow> overlay_world res" where
  "ContextDidEnableUI E W =
     dcheck (presentation_context W) ''presentation_context_ == presentation_context''
       (if \<not> presenting W then PresentOverlayForActiveRequest E W else Inr W)"

definition ContextDidMoveToWindow :: "overlay_env \<Rightarrow> nat option \<Rightarrow> overlay_world \<Rightarrow> overlay_world res" where
  "ContextDidMoveToWindow E win W =
     dcheck (presentation_context W) ''presentation_context_ == presentation_context''
       (if \<not> presenting W \<and> win \<noteq> None then PresentOverlayForActiveRequest E W else Inr W)"

definition ConstructPresentationCapabilities :: "overlay_world \<Rightarrow> UIPresentationCapabilities" where
  "ConstructPresentationCapabilities W =
     (if ui_disabled W then kNone
      else kNone OR (if container_view_controller W \<noteq> None then kContained else 0)
                 OR (if presentation_context_view_controller W \<noteq> None then kPresented else 0))"

definition UpdatePresentationCapabilities :: "overlay_env \<Rightarrow> overlay_world \<Rightarrow> overlay_world res" where
  "UpdatePresentationCapabilities E W =
     (let capabilities = ConstructPresentationCapabilities W;
          changed = (presentation_capabilities W \<noteq> capabilities)
      in rbind (if changed \<and> context_observed W
                then WillChangePresentationCapabilities E capabilities W else Inr W) (\<lambda>W.
         let W = W\<lparr>presentation_capabilities := capabilities\<rparr>
         in if changed \<and> context_observed W then DidChangePresentationCapabilities E W else Inr W))"

definition SetContextDelegate :: "overlay_env \<Rightarrow> nat option \<Rightarrow> overlay_world \<Rightarrow> overlay_world res" where
  "SetContextDelegate E d W =
     (if context_delegate W = d then Inr W
      else rbind (UpdatePresentationCapabilities E
                    (W\<lparr>container_view_controller := None,
                       presentation_context_view_controller := None\<rparr>)) (\<lambda>W.
           SetPresentationContext E (d \<noteq> None) (W\<lparr>context_delegate := d\<rparr>)))"

definition SetWindow :: "overlay_env \<Rightarrow> nat option \<Rightarrow> overlay_world \<Rightarrow> overlay_world res" where
  "SetWindow E win W =
     (if window W = win then Inr W
      else if context_observed W then ContextDidMoveToWindow E win (W\<lparr>window := win\<rparr>)
      else Inr (W\<lparr>window := win\<rparr>))"

definition SetContainerViewController ::
    "overlay_env \<Rightarrow> view_controller option \<Rightarrow> overlay_world \<Rightarrow> overlay_world res" where
  "SetContainerViewController E vc W =
     (if container_view_controller W = vc then Inr W
      else UpdatePresentationCapabilities E (W\<lparr>container_view_controller := vc\<rparr>))"

definition SetPresentationContextViewController ::
    "overlay_env \<Rightarrow> view_controller option \<Rightarrow> overlay_world \<Rightarrow> overlay_world res" where
  "SetPresentationContextViewController E vc W =
     (if presentation_context_view_controller W = vc then Inr W
      else UpdatePresentationCapabilities E (W\<lparr>presentation_context_view_controller := vc\<rparr>))"

definition SetUIDisabled :: "overlay_env \<Rightarrow> bool \<Rightarrow> overlay_world \<Rightarrow> overlay_world res" where
  "SetUIDisabled E disabled W =
     (if ui_disabled W = disabled then Inr W
      else rbind (UpdatePresentationCapabilities E (W\<lparr>ui_disabled := disabled\<rparr>)) (\<lambda>W.
        if \<not> disabled \<and> context_observed W then ContextDidEnableUI E W else Inr W))"

section \<open>The presenter: reactions to the tab list\<close>

definition SetActiveWebState ::
    "overlay_env \<Rightarrow> web_state_id option \<Rightarrow> change_reason \<Rightarrow> overlay_world \<Rightarrow> overlay_world res" where
  "SetActiveWebState E web_state reason W =
     (if active_web_state W = web_state then Inr W
      else rbind
        (if removed_request_awaiting_dismissal W \<noteq> None then Inr (removed_request_awaiting_dismissal W)
         else GetActiveRequest W)
        (\<lambda>previously_active_request.
          let should_cancel_ui = (reason = Replaced \<or> detaching_presenting_web_state W);
              W = W\<lparr>active_web_state := web_state, detaching_presenting_web_state := False\<rparr>
          in if \<not> presentation_context W then Inr W
             else if \<not> presenting W then PresentOverlayForActiveRequest E W
             else case previously_active_request of None \<Rightarrow> Inr W
               | Some p \<Rightarrow>
                   if should_cancel_ui then CancelOverlayUIForRequest (Some p) W
                   else HideOverlayUI p W))"

definition AddQueueObserver :: "web_state_id \<Rightarrow> overlay_world \<Rightarrow> overlay_world res" where
  "AddQueueObserver w W =
     dcheck (ThisPresenter \<notin> set (queue_observers (queues W w))) ''Observers can only be added once!''
       (Inr (update_queue w (\<lambda>q. q\<lparr>queue_observers := queue_observers q @ [ThisPresenter]\<rparr>) W))"

definition RemoveQueueObserver :: "web_state_id \<Rightarrow> overlay_world \<Rightarrow> overlay_world" where
  "RemoveQueueObserver w W =
     update_queue w (\<lambda>q. q\<lparr>queue_observers := removeAll ThisPresenter (queue_observers q)\<rparr>) W"

definition WebStateAddedToBrowser :: "overlay_env \<Rightarrow> web_state_id \<Rightarrow> overlay_world \<Rightarrow> overlay_world res" where
  "WebStateAddedToBrowser E w W = rbind (GetQueueForWebState (Some w) W) (\<lambda>_.
     rbind (AddQueueObserver w W) (SetDelegate E w (Some ThisPresenter)))"

text \<open>Whether the request on screen belongs to the queue of \<open>w\<close>.\<close>

definition presented_request_is_from :: "web_state_id \<Rightarrow> overlay_world \<Rightarrow> bool res" where
  "presented_request_is_from w W =
     (case presented_request W of None \<Rightarrow> Inr False
      | Some r \<Rightarrow> rbind (GetQueueWebState r W) (\<lambda>q. Inr (q = Some w)))"

definition WebStateRemovedFromBrowser :: "overlay_env \<Rightarrow> web_state_id \<Rightarrow> overlay_world \<Rightarrow> overlay_world res" where
  "WebStateRemovedFromBrowser E w W = rbind (GetQueueForWebState (Some w) W) (\<lambda>_.
     let W = RemoveQueueObserver w W in
     rbind (presented_request_is_from w W) (\<lambda>from_w.
     rbind (if \<not> from_w then SetDelegate E w None W else Inr W) (\<lambda>W.
     if from_w then Inr (W\<lparr>detached_presenting_request_queue := Some w\<rparr>)
     else rbind (GetFrontRequestForWebState (Some w) W) (\<lambda>front.
            CancelOverlayUIForRequest front W))))"

text \<open>
  The notifications of \<^verbatim>\<open>WebStateList\<close>; \<open>browser_tabs\<close> follows the list as the mirror of
  \<open>Web_State_List_Mutation\<close> does.
\<close>

fun on_web_state_list :: "overlay_env \<Rightarrow> wsl_notification \<Rightarrow> overlay_world \<Rightarrow> overlay_world res" where
  "on_web_state_list E (WebStateInsertedAt w i activating) W =
     WebStateAddedToBrowser E w (W\<lparr>browser_tabs := insert_at (nat i) w (browser_tabs W)\<rparr>)"
| "on_web_state_list E (WebStateReplacedAt old new i) W =
     rbind (WebStateRemovedFromBrowser E old (W\<lparr>browser_tabs := (browser_tabs W)[nat i := new]\<rparr>))
       (WebStateAddedToBrowser E new)"
| "on_web_state_list E (WillDetachWebStateAt w i) W =
     rbind (presented_request_is_from w W) (\<lambda>b.
       WebStateRemovedFromBrowser E w (W\<lparr>detaching_presenting_web_state := b\<rparr>))"
| "on_web_state_list E (WebStateActivatedAt old new i reason) W = SetActiveWebState E new reason W"
| "on_web_state_list E (WebStateDetachedAt w i) W =
     Inr (W\<lparr>browser_tabs := remove_at (nat i) (browser_tabs W)\<rparr>)"
| "on_web_state_list E (WebStateMoved w i j) W =
     Inr (W\<lparr>browser_tabs := insert_at (nat j) w (remove_at (nat i) (browser_tabs W))\<rparr>)"
| "on_web_state_list E (WillCloseWebStateAt w i u) W = Inr W"
| "on_web_state_list E WillBeginBatchOperation W = Inr W"
| "on_web_state_list E BatchOperationEnded W = Inr W"

fun remove_all_tabs :: "overlay_env \<Rightarrow> web_state_id list \<Rightarrow> overlay_world \<Rightarrow> overlay_world res" where
  "remove_all_tabs E [] W = Inr W"
| "remove_all_tabs E (w # ws) W = rbind (WebStateRemovedFromBrowser E w W) (remove_all_tabs E ws)"

definition BrowserDestroyed :: "overlay_env \<Rightarrow> overlay_world \<Rightarrow> overlay_world res" where
  "BrowserDestroyed E W = rbind (SetPresentationContext E False W) (\<lambda>W.
     rbind (SetActiveWebState E None Closed W) (\<lambda>W.
     rbind (remove_all_tabs E (browser_tabs W) W) (\<lambda>W.
     dcheck (detached_presenting_request_queue W = None) ''!detached_presenting_request_queue_''
       (rbind (destroy_optional (removed_request_awaiting_dismissal W) W) (\<lambda>W.
        Inr (W\<lparr>removed_request_awaiting_dismissal := None, browser_tabs := []\<rparr>))))))"

text \<open>\<^verbatim>\<open>IsShowingOverlayUI\<close> of the presenter.\<close>

definition IsShowingOverlayUI :: "overlay_world \<Rightarrow> bool" where
  "IsShowingOverlayUI W = presenting W"

section \<open>Events\<close>

text \<open>
  What can happen to the three objects.  Each change of the tab list is one event, made of the
  notifications \<^verbatim>\<open>WebStateList\<close> sends for it in the order of \<open>Web_State_List_Mutation\<close>.
\<close>

datatype overlay_event =
    ClientAddsRequest web_state_id nat request "completion_callback list" "cancel_handler option"
  | ClientCancelsRequest web_state_id request
  | ClientCancelsAll web_state_id
  | TabInserted web_state_id nat bool
  | TabActivated web_state_id
  | TabReplaced nat web_state_id
  | TabDetached nat "web_state_id option"
  | TabMoved nat nat
  | NoTabActive
  | TabHandedOver web_state_id "queue_party option"
  | TabDestroyed web_state_id
  | UIDismissed request
  | ContainerChanged "view_controller option"
  | PresentationControllerChanged "view_controller option"
  | UIDisabledChanged bool
  | WindowChanged "nat option"
  | ContextDelegateChanged "nat option"

fun notify_all :: "overlay_env \<Rightarrow> wsl_notification list \<Rightarrow> overlay_world \<Rightarrow> overlay_world res" where
  "notify_all E [] W = Inr W"
| "notify_all E (n # ns) W = rbind (on_web_state_list E n W) (notify_all E ns)"

fun overlay_exec :: "overlay_env \<Rightarrow> overlay_event \<Rightarrow> overlay_world \<Rightarrow> overlay_world res" where
  "overlay_exec E (ClientAddsRequest w i r cbs h) W =
     InsertRequest E w i (Some r) h
       (W\<lparr>requests := (requests W)(r \<mapsto> \<lparr>queue_web_state = None, completion_callbacks = cbs\<rparr>)\<rparr>)"
| "overlay_exec E (ClientCancelsRequest w r) W = CancelRequest E w r W"
| "overlay_exec E (ClientCancelsAll w) W = CancelAllRequests E w W"
| "overlay_exec E (TabInserted w i activating) W =
     notify_all E (WebStateInsertedAt w (int i) activating #
       (if activating then [WebStateActivatedAt (active_web_state W) (Some w) (int i) Inserted]
        else [])) W"
| "overlay_exec E (TabActivated w) W =
     notify_all E [WebStateActivatedAt (active_web_state W) (Some w)
       (find_index (\<lambda>x. x = w) (browser_tabs W)) Activated] W"
| "overlay_exec E (TabReplaced i new) W =
     (let old = browser_tabs W ! i in
      notify_all E [WebStateReplacedAt old new (int i),
        WebStateActivatedAt (Some old)
          (if active_web_state W = Some old then Some new else active_web_state W) (int i) Replaced] W)"
| "overlay_exec E (TabDetached i new_active) W =
     (let w = browser_tabs W ! i in
      notify_all E ([WillDetachWebStateAt w (int i), WebStateDetachedAt w (int i)] @
        (if active_web_state W = Some w
         then [WebStateActivatedAt (Some w) new_active 0 Closed] else [])) W)"
| "overlay_exec E (TabMoved i j) W = notify_all E [WebStateMoved (browser_tabs W ! i) (int i) (int j)] W"
| "overlay_exec E NoTabActive W =
     notify_all E [WebStateActivatedAt (active_web_state W) None kInvalidIndex Closed] W"
| "overlay_exec E (TabHandedOver w d) W = SetDelegate E w d W"
| "overlay_exec E (TabDestroyed w) W = destroy_queue E w W"
| "overlay_exec E (UIDismissed r) W = OverlayUIDidFinishDismissal E r W"
| "overlay_exec E (ContainerChanged vc) W = SetContainerViewController E vc W"
| "overlay_exec E (PresentationControllerChanged vc) W = SetPresentationContextViewController E vc W"
| "overlay_exec E (UIDisabledChanged d) W = SetUIDisabled E d W"
| "overlay_exec E (WindowChanged win) W = SetWindow E win W"
| "overlay_exec E (ContextDelegateChanged d) W = SetContextDelegate E d W"

definition initial_overlay_world :: "nat list \<Rightarrow> overlay_world" where
  "initial_overlay_world obs =
    \<lparr>requests = Map.empty, queues = (\<lambda>_. empty_queue), destroyed_web_states = [], browser_tabs = [],
     overlay_log = [], presenting = False, detached_queue_replaced_delegate = False,
     detached_presenting_request_queue = None, presented_request = None,
     detaching_presenting_web_state = False, removed_request_awaiting_dismissal = None,
     previously_presented_requests = [], active_web_state = None, presentation_context = True,
     presenter_observers = obs, context_delegate = None, window = None,
     container_view_controller = None, presentation_context_view_controller = None,
     ui_disabled = False, presentation_capabilities = kNone, context_request = None,
     ui_states = Map.empty, context_observed = True\<rparr>"

end
