(* ===== verification/Overlay_Invariant.thy ===== *)
theory Overlay_Invariant
  imports Overlay
begin

text \<open>
  The invariant of the overlay system and its preservation by every event of \<open>overlay_exec\<close>.

    \<^item> \<open>mem_ok\<close>: ownership.  A live request is in the queue of exactly one tab or kept by the
      presenter; the request on screen is live, and while it is in a queue the presenter is the
      delegate of that queue.
    \<^item> \<open>ctx_ok\<close>: the context holds callbacks for the request on screen and for no other.
    \<^item> \<open>link_ok\<close>: presenter and context agree about what is on screen.
    \<^item> \<open>tabs_ok\<close>: the presenter is delegate and observer of the queues of the tabs of the window.
    \<^item> \<open>handed_ok\<close>: what holds of a request on screen whose tab has left the window.
    \<^item> \<open>reason_ok\<close>: UI that nobody asked to hide or cancel belongs to the front request of the
      active tab.
\<close>

named_theorems overlay_simps \<open>unfolding of the overlay operations\<close>

section \<open>The invariant\<close>

definition requests_of :: "overlay_world \<Rightarrow> web_state_id \<Rightarrow> request list" where
  "requests_of W w = map fst (request_storages (queues W w))"

definition owner :: "overlay_world \<Rightarrow> request \<Rightarrow> web_state_id option" where
  "owner W r = (case requests W r of None \<Rightarrow> None | Some q \<Rightarrow> queue_web_state q)"

definition queues_ok :: "overlay_world \<Rightarrow> bool" where
  "queues_ok W \<longleftrightarrow> (\<forall>w. distinct (requests_of W w)) \<and>
     (\<forall>w r. r \<in> set (requests_of W w) \<longrightarrow> owner W r = Some w) \<and>
     (\<forall>w \<in> set (destroyed_web_states W). requests_of W w = [])"

definition owned_ok :: "overlay_world \<Rightarrow> bool" where
  "owned_ok W \<longleftrightarrow>
     (\<forall>r. removed_request_awaiting_dismissal W = Some r \<longrightarrow>
        presented_request W = Some r \<and> requests W r \<noteq> None \<and> (\<forall>w. r \<notin> set (requests_of W w))) \<and>
     (\<forall>r. presented_request W = Some r \<longrightarrow>
        (\<exists>w. owner W r = Some w \<and>
          (removed_request_awaiting_dismissal W = Some r \<or>
           r \<in> set (requests_of W w) \<and> queue_delegate (queues W w) = Some ThisPresenter))) \<and>
     (\<forall>r. requests W r \<noteq> None \<longrightarrow>
        removed_request_awaiting_dismissal W = Some r \<or> (\<exists>w. r \<in> set (requests_of W w)))"

definition no_callback :: "ui_state \<Rightarrow> bool" where
  "no_callback st \<longleftrightarrow> presentation_callback st = None \<and> dismissal_callback st = None"

definition ctx_idle :: "overlay_world \<Rightarrow> bool" where
  "ctx_idle W \<longleftrightarrow> (\<forall>r st. ui_states W r = Some st \<longrightarrow> no_callback st) \<and>
     (\<forall>p. context_request W = Some p \<longrightarrow> ui_states W p \<noteq> None)"

text \<open>The request on screen, the tab its callback is bound to and why it will be dismissed.\<close>

definition shown :: "overlay_world \<Rightarrow> (request \<times> web_state_id \<times> OverlayDismissalReason) option" where
  "shown W = (case GetRequestUIState (context_request W) W of None \<Rightarrow> None
     | Some st \<Rightarrow> (case dismissal_callback st of None \<Rightarrow> None
         | Some (r, w) \<Rightarrow> Some (r, w, dismissal_reason st)))"

definition ctx_busy :: "overlay_world \<Rightarrow> bool" where
  "ctx_busy W \<longleftrightarrow> (\<exists>p st w. context_request W = Some p \<and> ui_states W p = Some st \<and>
     presentation_callback st = None \<and> dismissal_callback st = Some (p, w) \<and> coordinator st \<noteq> None \<and>
     (\<forall>r st. ui_states W r = Some st \<longrightarrow> r = p \<or> no_callback st))"

definition ctx_ok :: "overlay_world \<Rightarrow> bool" where
  "ctx_ok W \<longleftrightarrow> (if context_request W = None then ctx_idle W else ctx_busy W)"

definition link_ok :: "overlay_world \<Rightarrow> bool" where
  "link_ok W \<longleftrightarrow> context_observed W = presentation_context W \<and>
     (presenting W \<longrightarrow> presentation_context W) \<and>
     (presentation_context W \<longrightarrow> presenting W = (context_request W \<noteq> None)) \<and>
     (\<forall>r. presented_request W = Some r \<longrightarrow>
        context_request W = Some r \<and> presenting W \<and> \<not> detached_queue_replaced_delegate W) \<and>
     (presenting W \<and> \<not> detached_queue_replaced_delegate W \<longrightarrow> presented_request W \<noteq> None) \<and>
     (detached_queue_replaced_delegate W \<longrightarrow> presenting W)"

text \<open>\<open>T\<close> is the set of tabs of the window; it differs from \<open>browser_tabs\<close> inside an operation.\<close>

definition tabs_ok :: "web_state_id set \<Rightarrow> overlay_world \<Rightarrow> bool" where
  "tabs_ok T W \<longleftrightarrow> T \<inter> set (destroyed_web_states W) = {} \<and>
     (\<forall>w \<in> T. queue_delegate (queues W w) = Some ThisPresenter) \<and>
     (\<forall>w. filter (\<lambda>p. p = ThisPresenter) (queue_observers (queues W w)) = (if w \<in> T then [ThisPresenter] else [])) \<and>
     (\<forall>w. active_web_state W = Some w \<longrightarrow> w \<notin> set (destroyed_web_states W))"

definition handed_ok :: "web_state_id set \<Rightarrow> overlay_world \<Rightarrow> bool" where
  "handed_ok T W \<longleftrightarrow>
     (\<forall>p w. detached_queue_replaced_delegate W \<and> context_request W = Some p \<and> w \<in> T \<longrightarrow>
        p \<notin> set (requests_of W w)) \<and>
     (\<forall>w. detached_presenting_request_queue W = Some w \<longrightarrow> w \<notin> T \<and>
        (\<exists>r. presented_request W = Some r \<and> owner W r = Some w))"

definition reason_ok :: "overlay_world \<Rightarrow> bool" where
  "reason_ok W \<longleftrightarrow> (\<forall>r w d. presented_request W = Some r \<and> shown W = Some (r, w, d) \<longrightarrow>
     owner W r = Some w \<and>
     (d = kUserInteraction \<longrightarrow>
        active_web_state W = Some w \<and> front_request (queues W w) = Some r))"

definition core_inv :: "web_state_id set \<Rightarrow> overlay_world \<Rightarrow> bool" where
  "core_inv T W \<longleftrightarrow> queues_ok W \<and> owned_ok W \<and> ctx_ok W \<and> link_ok W \<and> tabs_ok T W \<and> handed_ok T W"

definition base_inv :: "web_state_id set \<Rightarrow> overlay_world \<Rightarrow> bool" where
  "base_inv T W \<longleftrightarrow> core_inv T W \<and> reason_ok W"

definition overlay_inv :: "overlay_world \<Rightarrow> bool" where
  "overlay_inv W \<longleftrightarrow> base_inv (set (browser_tabs W)) W \<and> distinct (browser_tabs W) \<and>
     (\<forall>w. active_web_state W = Some w \<longrightarrow> w \<in> set (browser_tabs W))"

lemmas inv_defs = queues_ok_def owned_ok_def ctx_ok_def link_ok_def tabs_ok_def handed_ok_def reason_ok_def

lemma base_invD:
  assumes "base_inv T W"
  shows "queues_ok W" "owned_ok W" "ctx_ok W" "link_ok W" "tabs_ok T W" "handed_ok T W" "reason_ok W"
  using assms by (simp_all add: base_inv_def core_inv_def)

lemma core_invD:
  assumes "core_inv T W"
  shows "queues_ok W" "owned_ok W" "ctx_ok W" "link_ok W" "tabs_ok T W" "handed_ok T W"
  using assms by (simp_all add: core_inv_def)

section \<open>Bookkeeping that no part of the invariant reads\<close>

lemma log_overlay_fields [simp]:
  "requests (log_overlay es W) = requests W" "queues (log_overlay es W) = queues W"
  "destroyed_web_states (log_overlay es W) = destroyed_web_states W"
  "browser_tabs (log_overlay es W) = browser_tabs W"
  "presenting (log_overlay es W) = presenting W"
  "detached_queue_replaced_delegate (log_overlay es W) = detached_queue_replaced_delegate W"
  "detached_presenting_request_queue (log_overlay es W) = detached_presenting_request_queue W"
  "presented_request (log_overlay es W) = presented_request W"
  "removed_request_awaiting_dismissal (log_overlay es W) = removed_request_awaiting_dismissal W"
  "active_web_state (log_overlay es W) = active_web_state W"
  "presentation_context (log_overlay es W) = presentation_context W"
  "presenter_observers (log_overlay es W) = presenter_observers W"
  "context_request (log_overlay es W) = context_request W"
  "ui_states (log_overlay es W) = ui_states W"
  "context_observed (log_overlay es W) = context_observed W"
  "presentation_capabilities (log_overlay es W) = presentation_capabilities W"
  "detaching_presenting_web_state (log_overlay es W) = detaching_presenting_web_state W"
  "previously_presented_requests (log_overlay es W) = previously_presented_requests W"
  by (simp_all add: log_overlay_def)

lemma ex_overlay_log [simp]: "\<exists>l. W = W\<lparr>overlay_log := l\<rparr>"
  by (rule exI [of _ "overlay_log W"]) simp

lemma shown_cong:
  "context_request W' = context_request W \<Longrightarrow> ui_states W' = ui_states W \<Longrightarrow> shown W' = shown W"
  by (simp add: shown_def GetRequestUIState_def cong: option.case_cong)

lemma ctx_ok_cong:
  "context_request W' = context_request W \<Longrightarrow> ui_states W' = ui_states W \<Longrightarrow> ctx_ok W' = ctx_ok W"
  by (simp add: ctx_ok_def ctx_idle_def ctx_busy_def)

lemma requests_of_cong: "queues W' = queues W \<Longrightarrow> requests_of W' = requests_of W"
  by (simp add: requests_of_def fun_eq_iff)

lemma owner_cong: "requests W' = requests W \<Longrightarrow> owner W' = owner W"
  by (simp add: owner_def fun_eq_iff)

text \<open>The fields that the invariant does read.\<close>

definition same_core :: "overlay_world \<Rightarrow> overlay_world \<Rightarrow> bool" where
  "same_core W W' \<longleftrightarrow> requests W' = requests W \<and> queues W' = queues W \<and>
     destroyed_web_states W' = destroyed_web_states W \<and> browser_tabs W' = browser_tabs W \<and>
     presenting W' = presenting W \<and>
     detached_queue_replaced_delegate W' = detached_queue_replaced_delegate W \<and>
     detached_presenting_request_queue W' = detached_presenting_request_queue W \<and>
     presented_request W' = presented_request W \<and>
     removed_request_awaiting_dismissal W' = removed_request_awaiting_dismissal W \<and>
     active_web_state W' = active_web_state W \<and> presentation_context W' = presentation_context W \<and>
     context_request W' = context_request W \<and> ui_states W' = ui_states W \<and>
     context_observed W' = context_observed W"

lemma base_inv_core: "same_core W W' \<Longrightarrow> base_inv T W' = base_inv T W"
  using shown_cong [of W' W] requests_of_cong [of W' W] owner_cong [of W' W]
  unfolding base_inv_def core_inv_def inv_defs ctx_idle_def ctx_busy_def same_core_def by simp

lemma same_core_log: "same_core W (log_overlay es W)"
  by (simp add: same_core_def)

lemma deref_alive: "requests W r = Some q \<Longrightarrow> deref_request r W = Inr q"
  by (simp add: deref_request_def)

lemma notify_alive:
  assumes "requests W r \<noteq> None"
  shows "\<exists>es. notify_presenter_observers E r f W = Inr (log_overlay es W)"
proof (cases "presenter_observers W = []")
  case True
  then have "notify_presenter_observers E r f W = Inr (log_overlay [] W)"
    by (simp add: notify_presenter_observers_def log_overlay_def)
  then show ?thesis by blast
next
  case False
  then show ?thesis using assms
    by (auto simp: notify_presenter_observers_def deref_request_def)
qed

lemma run_completions:
  "\<exists>l pp. ExecuteCompletionCallbacks r cbs W = W\<lparr>overlay_log := l, previously_presented_requests := pp\<rparr>"
proof (induction cbs arbitrary: W)
  case Nil
  have "W = W\<lparr>overlay_log := overlay_log W,
    previously_presented_requests := previously_presented_requests W\<rparr>" by simp
  then show ?case unfolding ExecuteCompletionCallbacks_def by (simp only: fold_simps) blast
next
  case (Cons cb cbs)
  from Cons.IH [of "run_completion r cb W"] show ?case
    by (cases cb) (auto simp: ExecuteCompletionCallbacks_def OverlayWasCompleted_def log_overlay_def)
qed

lemma destroy_alive:
  assumes "requests W r \<noteq> None"
  shows "\<exists>l pp. destroy_request r W = Inr (W\<lparr>overlay_log := l, previously_presented_requests := pp,
    requests := (requests W)(r := None)\<rparr>)"
proof -
  obtain q where q: "requests W r = Some q" using assms by blast
  obtain l pp where "ExecuteCompletionCallbacks r (completion_callbacks q) W =
      W\<lparr>overlay_log := l, previously_presented_requests := pp\<rparr>" using run_completions by blast
  then show ?thesis by (auto simp: destroy_request_def deref_request_def q Let_def)
qed

section \<open>The context\<close>

lemma ctx_ok_Some: "context_request W = Some p \<Longrightarrow> ctx_ok W \<longleftrightarrow>
    (\<exists>st w. ui_states W p = Some st \<and> presentation_callback st = None \<and>
       dismissal_callback st = Some (p, w) \<and> coordinator st \<noteq> None \<and>
       (\<forall>r st. ui_states W r = Some st \<longrightarrow> r = p \<or> no_callback st))"
  by (auto simp: ctx_ok_def ctx_busy_def)

lemma ctx_ok_None: "context_request W = None \<Longrightarrow>
    ctx_ok W \<longleftrightarrow> (\<forall>r st. ui_states W r = Some st \<longrightarrow> no_callback st)"
  by (simp add: ctx_ok_def ctx_idle_def)

lemma showing_iff: "ContextIsShowingOverlayUI W \<longleftrightarrow> shown W \<noteq> None"
  by (auto simp: ContextIsShowingOverlayUI_def shown_def has_callback_def split: option.splits)

lemma ctx_idle_not_showing: "ctx_idle W \<Longrightarrow> \<not> ContextIsShowingOverlayUI W"
  by (auto simp: ctx_idle_def ContextIsShowingOverlayUI_def GetRequestUIState_def no_callback_def
      has_callback_def split: option.splits)

lemma ctx_ok_showing: "ctx_ok W \<Longrightarrow> ContextIsShowingOverlayUI W \<longleftrightarrow> context_request W \<noteq> None"
  by (auto simp: ctx_ok_def ctx_busy_def ContextIsShowingOverlayUI_def GetRequestUIState_def
      has_callback_def split: option.splits if_splits)

lemma ctx_ok_shown:
  assumes "ctx_ok W" "context_request W = Some p"
  obtains w d where "shown W = Some (p, w, d)"
  using assms by (auto simp: ctx_ok_def ctx_busy_def shown_def GetRequestUIState_def)

text \<open>
  Hiding and cancelling only record a reason with the request on screen; cancelling another request
  forgets its hidden UI.
\<close>

definition redressed :: "overlay_world \<Rightarrow> OverlayDismissalReason \<Rightarrow> overlay_world \<Rightarrow> bool" where
  "redressed W d W' \<longleftrightarrow> (\<exists>us l. W' = W\<lparr>ui_states := us, overlay_log := l\<rparr>) \<and> ctx_ok W' \<and>
     (\<forall>p w d0. shown W = Some (p, w, d0) \<longrightarrow> shown W' = Some (p, w, d))"

lemma dismiss_presented:
  assumes "ctx_ok W" "context_request W = Some r"
  shows "\<exists>W'. DismissPresentedUI d W = Inr W' \<and> redressed W d W'"
proof -
  from assms obtain st w where st: "ui_states W r = Some st" "presentation_callback st = None"
    "dismissal_callback st = Some (r, w)" "coordinator st \<noteq> None"
    "\<forall>p st. ui_states W p = Some st \<longrightarrow> p = r \<or> no_callback st"
    by (auto simp: ctx_ok_def ctx_busy_def)
  let ?W = "log_overlay [StopCoordinator r (d = kUserInteraction)]
    (set_ui_state r (st\<lparr>dismissal_reason := d\<rparr>) W)"
  have "DismissPresentedUI d W = Inr ?W" using st assms(2) by (simp add: DismissPresentedUI_def)
  moreover have "\<exists>us l. ?W = W\<lparr>ui_states := us, overlay_log := l\<rparr>"
    by (auto simp: set_ui_state_def log_overlay_def)
  moreover have "ctx_ok ?W" using st assms(2)
    by (auto simp: ctx_ok_def ctx_busy_def set_ui_state_def)
  moreover have "shown ?W = Some (r, w, d)" "shown W = Some (r, w, dismissal_reason st)"
    using st assms(2) by (auto simp: shown_def GetRequestUIState_def set_ui_state_def)
  ultimately show ?thesis by (auto simp: redressed_def)
qed

lemma hide_shown:
  assumes "ctx_ok W" "context_request W = Some r"
  shows "\<exists>W'. HideOverlayUI r W = Inr W' \<and> redressed W kHiding W'"
proof -
  from assms obtain st w where "ui_states W r = Some st" "dismissal_callback st = Some (r, w)"
    by (auto simp: ctx_ok_def ctx_busy_def)
  then show ?thesis using dismiss_presented [OF assms, of kHiding] assms(2)
    by (simp add: HideOverlayUI_def has_callback_def)
qed

lemma cancel_ui:
  assumes "ctx_ok W"
  shows "\<exists>W'. CancelOverlayUI r W = Inr W' \<and>
    (if context_request W = Some r then redressed W kCancellation W'
     else (\<exists>us. W' = W\<lparr>ui_states := us\<rparr>) \<and> ctx_ok W' \<and> shown W' = shown W)"
proof (cases "context_request W = Some r")
  case True
  with assms obtain st w where "ui_states W r = Some st" "dismissal_callback st = Some (r, w)"
    by (auto simp: ctx_ok_def ctx_busy_def)
  then show ?thesis using dismiss_presented [OF assms True, of kCancellation] True
    by (simp add: CancelOverlayUI_def has_callback_def)
next
  case False
  have no: "no_callback st" if "ui_states W r = Some st" for st
    using assms False that by (auto simp: ctx_ok_def ctx_idle_def ctx_busy_def split: if_splits)
  let ?W = "W\<lparr>ui_states := (ui_states W)(r := None)\<rparr>"
  have id: "\<exists>us. W = W\<lparr>ui_states := us\<rparr>" by (rule exI [of _ "ui_states W"]) simp
  have "CancelOverlayUI r W = Inr W \<or> CancelOverlayUI r W = Inr ?W"
    using no by (auto simp: CancelOverlayUI_def has_callback_def no_callback_def split: option.splits)
  moreover have "ctx_ok ?W" using assms False
    by (cases "context_request W") (auto simp: ctx_ok_Some ctx_ok_None)
  moreover have "shown ?W = shown W"
    using False by (auto simp: shown_def GetRequestUIState_def split: option.splits)
  ultimately show ?thesis using False assms id by auto
qed

lemma present_coordinator:
  assumes "context_request W = Some r" "ui_states W r = Some st" "presentation_callback st = Some r"
    "CanShowUIForRequest E r W" "presentation_context W" "presented_request W = Some r"
    "requests W r \<noteq> None"
  shows "\<exists>es c. ShowUIForPresentedRequest E W = Inr (log_overlay es (set_ui_state r
    (st\<lparr>coordinator := Some c, has_ui_been_presented := True, presentation_callback := None\<rparr>) W))"
proof -
  let ?c = "GetBaseViewController E r W"
  let ?st = "st\<lparr>coordinator := Some ?c, has_ui_been_presented := True, presentation_callback := None\<rparr>"
  let ?s = "StartCoordinator r (\<not> has_ui_been_presented st)"
  let ?W = "set_ui_state r ?st (log_overlay [?s] W)"
  have c: "(if coordinator st \<noteq> Some ?c then st\<lparr>coordinator := Some ?c\<rparr> else st) = st\<lparr>coordinator := Some ?c\<rparr>"
    by (cases st) simp
  have "requests ?W r \<noteq> None" using assms(7) by (simp add: set_ui_state_def)
  then obtain es where es: "notify_presenter_observers E r (\<lambda>ob. DidShowOverlay ob r) ?W =
      Inr (log_overlay es ?W)" using notify_alive by blast
  have "presented_request ?W = Some r" "presentation_context ?W"
    using assms by (simp_all add: set_ui_state_def)
  then have "ShowUIForPresentedRequest E W = Inr (log_overlay es ?W)"
    using assms(1-4) es
    by (simp add: ShowUIForPresentedRequest_def c Let_def UIStateWasPresented_def OverlayWasPresented_def)
  also have "log_overlay es ?W = log_overlay (?s # es) (set_ui_state r ?st W)"
    by (simp add: log_overlay_def set_ui_state_def)
  finally show ?thesis by blast
qed

lemma show_idle:
  assumes "ctx_idle W" "CanShowUIForRequest E r W" "presentation_context W"
    "presented_request W = Some r" "requests W r \<noteq> None" "context_request W \<noteq> Some r"
  shows "\<exists>us l. let W' = W\<lparr>ui_states := us, context_request := Some r, overlay_log := l\<rparr> in
    ShowOverlayUI E r w W = Inr W' \<and> ctx_ok W' \<and> shown W' = Some (r, w, kUserInteraction)"
proof -
  define st0 where "st0 = (case ui_states W r of None \<Rightarrow> OverlayRequestUIState | Some st \<Rightarrow> st)"
  have no0: "no_callback st0"
    using assms(1) by (auto simp: st0_def ctx_idle_def OverlayRequestUIState_def no_callback_def split: option.splits)
  define st where "st = st0\<lparr>presentation_callback := Some r, dismissal_callback := Some (r, w),
    dismissal_reason := kUserInteraction\<rparr>"
  define us0 where "us0 = (case context_request W of None \<Rightarrow> ui_states W
    | Some p \<Rightarrow> (if dismissal_reason (the (ui_states W p)) \<noteq> kHiding then (ui_states W)(p := None) else ui_states W))"
  define V where "V = W\<lparr>ui_states := us0(r \<mapsto> st), context_request := Some r\<rparr>"
  have req: "OverlayPresentionRequested r w st0 = Inr st"
    using no0 by (simp add: OverlayPresentionRequested_def st_def no_callback_def)
  have keep: "ui_states W x = Some s \<Longrightarrow> no_callback s" for x s
    using assms(1) by (auto simp: ctx_idle_def)
  have user: "(d = kUserInteraction \<or> d = kCancellation) = (d \<noteq> kHiding)" for d by (cases d) auto
  have "SetRequest E (Some r) (set_ui_state r st W) = ShowUIForPresentedRequest E V"
  proof (cases "context_request W")
    case None
    then show ?thesis by (simp add: SetRequest_def set_ui_state_def V_def us0_def)
  next
    case (Some p)
    then have "p \<noteq> r" using assms(6) by simp
    obtain sp where sp: "ui_states W p = Some sp" using assms(1) Some by (auto simp: ctx_idle_def)
    then have "\<not> has_callback sp" using keep by (auto simp: no_callback_def has_callback_def)
    then show ?thesis using Some sp \<open>p \<noteq> r\<close>
      by (simp add: SetRequest_def set_ui_state_def V_def us0_def user fun_upd_twist)
  qed
  moreover obtain es c where "ShowUIForPresentedRequest E V = Inr (log_overlay es (set_ui_state r
      (st\<lparr>coordinator := Some c, has_ui_been_presented := True, presentation_callback := None\<rparr>) V))"
    using present_coordinator [of V r st E] assms
    by (auto simp: V_def st_def CanShowUIForRequest_def)
  moreover have "\<not> ContextIsShowingOverlayUI W" using ctx_idle_not_showing assms(1) by blast
  ultimately have "ShowOverlayUI E r w W = Inr (log_overlay es (set_ui_state r
      (st\<lparr>coordinator := Some c, has_ui_been_presented := True, presentation_callback := None\<rparr>) V))"
    using assms(2) req by (simp add: ShowOverlayUI_def st0_def)
  also have "log_overlay es (set_ui_state r
      (st\<lparr>coordinator := Some c, has_ui_been_presented := True, presentation_callback := None\<rparr>) V) =
     W\<lparr>ui_states := us0(r \<mapsto> st\<lparr>coordinator := Some c, has_ui_been_presented := True,
        presentation_callback := None\<rparr>), context_request := Some r, overlay_log := overlay_log W @ es\<rparr>"
    by (simp add: V_def set_ui_state_def log_overlay_def)
  finally have eq: "ShowOverlayUI E r w W = Inr (W\<lparr>ui_states := us0(r \<mapsto> st\<lparr>coordinator := Some c,
      has_ui_been_presented := True, presentation_callback := None\<rparr>), context_request := Some r,
      overlay_log := overlay_log W @ es\<rparr>)" .
  let ?W' = "W\<lparr>ui_states := us0(r \<mapsto> st\<lparr>coordinator := Some c, has_ui_been_presented := True,
    presentation_callback := None\<rparr>), context_request := Some r, overlay_log := overlay_log W @ es\<rparr>"
  have "no_callback s" if "us0 x = Some s" for x s
    using that keep by (auto simp: us0_def split: option.splits if_splits)
  then have "ctx_ok ?W'" by (auto simp: ctx_ok_Some st_def)
  moreover have "shown ?W' = Some (r, w, kUserInteraction)"
    by (simp add: shown_def GetRequestUIState_def st_def)
  ultimately show ?thesis using eq unfolding Let_def by blast
qed

section \<open>Presenting\<close>

lemma active_request:
  assumes "tabs_ok T W"
  shows "GetActiveRequest W = Inr (case active_web_state W of None \<Rightarrow> None | Some w \<Rightarrow> front_request (queues W w))"
  using assms by (auto simp: GetActiveRequest_def GetFrontRequestForWebState_def GetQueueForWebState_def
      tabs_ok_def split: option.splits)

lemma front_in_requests_of: "front_request (queues W w) = Some r \<Longrightarrow> r \<in> set (requests_of W w)"
  by (auto simp: front_request_def requests_of_def split: list.splits)

text \<open>
  \<open>PresentOverlayForActiveRequest\<close> called with nothing on screen: either it leaves everything
  as it was, or the front request of the active tab is on screen afterwards.
\<close>

definition presents :: "overlay_world \<Rightarrow> overlay_world \<Rightarrow> bool" where
  "presents W W' \<longleftrightarrow> (\<exists>r w us l pp rs. active_web_state W = Some w \<and> front_request (queues W w) = Some r \<and>
     W' = W\<lparr>presenting := True, presented_request := Some r, previously_presented_requests := pp,
       requests := rs, ui_states := us, context_request := Some r, overlay_log := l\<rparr> \<and>
     (\<forall>x. rs x = None \<longleftrightarrow> requests W x = None) \<and> owner W' = owner W \<and>
     ctx_ok W' \<and> shown W' = Some (r, w, kUserInteraction))"

lemma present_active:
  assumes "ctx_idle W" "queues_ok W" "tabs_ok T W" "\<not> presenting W"
    and "\<And>w r. active_web_state W = Some w \<Longrightarrow> front_request (queues W w) = Some r \<Longrightarrow> context_request W \<noteq> Some r"
  shows "\<exists>W'. PresentOverlayForActiveRequest E W = Inr W' \<and>
    ((\<exists>l. W' = W\<lparr>overlay_log := l\<rparr>) \<and>
       (presentation_context W \<longrightarrow> (\<forall>w r. active_web_state W = Some w \<longrightarrow>
          front_request (queues W w) = Some r \<longrightarrow> \<not> CanShowUIForRequest E r W))
     \<or> presentation_context W \<and> presents W W')"
proof -
  consider "\<not> presentation_context W"
    | "presentation_context W" "active_web_state W = None \<or> (\<exists>w. active_web_state W = Some w \<and> front_request (queues W w) = None)"
    | w r where "presentation_context W" "active_web_state W = Some w" "front_request (queues W w) = Some r"
    by (cases "active_web_state W"; cases "front_request (queues W (the (active_web_state W)))") auto
  then show ?thesis
  proof cases
    case 1
    then show ?thesis using 1 by (auto simp: PresentOverlayForActiveRequest_def)
  next
    case 2
    then show ?thesis using 2 ctx_idle_not_showing [OF assms(1)]
      by (auto simp: PresentOverlayForActiveRequest_def active_request [OF assms(3)])
  next
    case 3
    have act: "GetActiveRequest W = Inr (Some r)" using 3 by (simp add: active_request [OF assms(3)])
    have "owner W r = Some w" using assms(2) front_in_requests_of [OF 3(3)] by (auto simp: queues_ok_def)
    then obtain q where q: "requests W r = Some q" "queue_web_state q = Some w"
      by (auto simp: owner_def split: option.splits)
    show ?thesis
    proof (cases "CanShowUIForRequest E r W")
      case False
      then show ?thesis using 3 act ctx_idle_not_showing [OF assms(1)]
        by (auto simp: PresentOverlayForActiveRequest_def PrepareToShowOverlayUI_def log_overlay_def)
    next
      case True
      let ?W1 = "W\<lparr>presenting := True, presented_request := Some r\<rparr>"
      obtain es where es: "notify_presenter_observers E r
          (\<lambda>ob. WillShowOverlay ob r (r \<notin> set (previously_presented_requests ?W1))) ?W1 = Inr (log_overlay es ?W1)"
        using notify_alive [of ?W1 r] q by auto
      let ?pp = "List.insert r (previously_presented_requests W)"
      let ?rs = "(requests W)(r \<mapsto> q\<lparr>completion_callbacks := completion_callbacks q @ [CompletedForPresenter]\<rparr>)"
      let ?W2 = "W\<lparr>presenting := True, presented_request := Some r, overlay_log := overlay_log W @ es,
        previously_presented_requests := ?pp, requests := ?rs\<rparr>"
      have idle: "ctx_idle ?W2" using assms(1) by (simp add: ctx_idle_def)
      have "\<exists>us l. let W' = ?W2\<lparr>ui_states := us, context_request := Some r, overlay_log := l\<rparr> in
          ShowOverlayUI E r w ?W2 = Inr W' \<and> ctx_ok W' \<and> shown W' = Some (r, w, kUserInteraction)"
        by (rule show_idle [OF idle]) (use True 3 assms(5) in \<open>auto simp: CanShowUIForRequest_def\<close>)
      then obtain us l where shw: "ShowOverlayUI E r w ?W2 = Inr (?W2\<lparr>ui_states := us, context_request := Some r, overlay_log := l\<rparr>)"
        "ctx_ok (?W2\<lparr>ui_states := us, context_request := Some r, overlay_log := l\<rparr>)"
        "shown (?W2\<lparr>ui_states := us, context_request := Some r, overlay_log := l\<rparr>) = Some (r, w, kUserInteraction)"
        by (auto simp: Let_def)
      let ?W' = "W\<lparr>presenting := True, presented_request := Some r, previously_presented_requests := ?pp,
        requests := ?rs, ui_states := us, context_request := Some r, overlay_log := l\<rparr>"
      have same: "?W2\<lparr>ui_states := us, context_request := Some r, overlay_log := l\<rparr> = ?W'" by simp
      have "PresentOverlayForActiveRequest E W = Inr ?W'"
        using 3 act True assms(4) ctx_idle_not_showing [OF assms(1)] es shw(1) q(1)
        by (simp add: PresentOverlayForActiveRequest_def Let_def AddCompletionCallback_def deref_request_def
            log_overlay_def)
      moreover have "owner ?W' = owner W" using q by (auto simp: owner_def fun_eq_iff split: option.splits)
      moreover have "\<forall>x. ?rs x = None \<longleftrightarrow> requests W x = None" using q by auto
      ultimately have "presents W ?W'" using 3 shw(2,3) unfolding same presents_def by blast
      then show ?thesis using \<open>PresentOverlayForActiveRequest E W = Inr ?W'\<close> 3(1) by blast
    qed
  qed
qed


text \<open>Nothing is on screen, but the context may still remember the request shown last.\<close>

definition idle_ok :: "web_state_id set \<Rightarrow> overlay_world \<Rightarrow> bool" where
  "idle_ok T W \<longleftrightarrow> queues_ok W \<and> owned_ok W \<and> tabs_ok T W \<and> ctx_idle W \<and> \<not> presenting W \<and>
     \<not> detached_queue_replaced_delegate W \<and> presented_request W = None \<and>
     detached_presenting_request_queue W = None \<and> context_observed W = presentation_context W"

lemma idle_inv: "idle_ok T W \<Longrightarrow> context_request W = None \<Longrightarrow> base_inv T W"
  unfolding base_inv_def core_inv_def idle_ok_def link_ok_def handed_ok_def reason_ok_def ctx_ok_def by simp

lemma inv_idle: "base_inv T W \<Longrightarrow> \<not> presenting W \<Longrightarrow> context_request W = None \<Longrightarrow> idle_ok T W"
  unfolding base_inv_def core_inv_def idle_ok_def link_ok_def handed_ok_def ctx_ok_def by auto

lemma presents_inv:
  assumes "idle_ok T W" "presents W W'" "presentation_context W" "\<And>w. active_web_state W = Some w \<Longrightarrow> w \<in> T"
  shows "base_inv T W'"
proof -
  from assms(2) obtain r w us l pp rs where
    r: "active_web_state W = Some w" "front_request (queues W w) = Some r"
      "W' = W\<lparr>presenting := True, presented_request := Some r, previously_presented_requests := pp,
         requests := rs, ui_states := us, context_request := Some r, overlay_log := l\<rparr>"
      "\<forall>x. rs x = None \<longleftrightarrow> requests W x = None" "owner W' = owner W" "ctx_ok W'"
      "shown W' = Some (r, w, kUserInteraction)"
    unfolding presents_def by (elim exE conjE) (rule that; assumption)
  have ro: "requests_of W' = requests_of W" by (rule requests_of_cong) (simp add: r(3))
  have q: "queues_ok W" "owned_ok W" "tabs_ok T W" using assms(1) by (auto simp: idle_ok_def)
  have mem: "r \<in> set (requests_of W w)" using front_in_requests_of [OF r(2)] .
  have own: "owner W r = Some w" using q(1) mem by (auto simp: queues_ok_def)
  have del: "queue_delegate (queues W w) = Some ThisPresenter"
    using q(3) assms(4) [OF r(1)] by (auto simp: tabs_ok_def)
  have norem: "removed_request_awaiting_dismissal W = None"
    using assms(1) by (auto simp: idle_ok_def owned_ok_def)
  have "queues_ok W'" using q(1) unfolding queues_ok_def ro r(5) by (simp add: r(3))
  moreover have "owned_ok W'"
    using q(2) own mem del r(4) unfolding owned_ok_def ro r(5) by (simp add: r(3) norem)
  moreover have "link_ok W'" using assms(1,3) unfolding link_ok_def idle_ok_def by (simp add: r(3))
  moreover have "tabs_ok T W'" using q(3) unfolding tabs_ok_def by (simp add: r(3))
  moreover have "handed_ok T W'" using assms(1) unfolding handed_ok_def idle_ok_def by (simp add: r(3))
  moreover have "reason_ok W'"
    unfolding reason_ok_def r(5) r(7) using own r(1,2) by (simp add: r(3))
  ultimately show ?thesis using r(6) unfolding base_inv_def core_inv_def by blast
qed

text \<open>What an operation that only presents or redresses leaves alone.\<close>

definition same_tabs :: "overlay_world \<Rightarrow> overlay_world \<Rightarrow> bool" where
  "same_tabs W W' \<longleftrightarrow> browser_tabs W' = browser_tabs W \<and> active_web_state W' = active_web_state W \<and>
     destroyed_web_states W' = destroyed_web_states W"

lemma same_tabs_trans: "same_tabs W V \<Longrightarrow> same_tabs V U \<Longrightarrow> same_tabs W U"
  by (simp add: same_tabs_def)

lemma same_tabs_refl [simp]: "same_tabs W W" by (simp add: same_tabs_def)

lemma presents_frame: "presents W W' \<Longrightarrow> same_tabs W W' \<and> queues W' = queues W"
  by (auto simp: presents_def same_tabs_def)

lemma present_inv:
  assumes "base_inv T W" "\<not> presenting W" "\<And>w. active_web_state W = Some w \<Longrightarrow> w \<in> T"
  shows "\<exists>W'. PresentOverlayForActiveRequest E W = Inr W' \<and> base_inv T W' \<and> same_tabs W W' \<and>
    queues W' = queues W"
proof (cases "presentation_context W")
  case False
  then show ?thesis using assms(1) by (simp add: PresentOverlayForActiveRequest_def)
next
  case True
  then have none: "context_request W = None" using assms by (auto simp: base_inv_def core_inv_def link_ok_def)
  have idle: "idle_ok T W" using inv_idle [OF assms(1,2) none] .
  then obtain W' where W': "PresentOverlayForActiveRequest E W = Inr W'"
    "(\<exists>l. W' = W\<lparr>overlay_log := l\<rparr>) \<or> presentation_context W \<and> presents W W'"
    using present_active [of W T E] none by (auto simp: idle_ok_def)
  from W'(2) show ?thesis
  proof
    assume "\<exists>l. W' = W\<lparr>overlay_log := l\<rparr>"
    then have "same_core W W'" "same_tabs W W'" "queues W' = queues W"
      by (auto simp: same_core_def same_tabs_def)
    then show ?thesis using W'(1) base_inv_core assms(1) by blast
  next
    assume "presentation_context W \<and> presents W W'"
    then show ?thesis using W'(1) presents_inv [OF idle] assms(3) presents_frame by blast
  qed
qed

section \<open>Hiding and cancelling\<close>

definition only_ui :: "overlay_world \<Rightarrow> overlay_world \<Rightarrow> bool" where
  "only_ui W W' \<longleftrightarrow> (\<exists>us l. W' = W\<lparr>ui_states := us, overlay_log := l\<rparr>)"

lemma only_uiD:
  assumes "only_ui W W'"
  shows "same_tabs W W'" "queues W' = queues W" "requests W' = requests W" "presenting W' = presenting W"
    "presented_request W' = presented_request W" "context_request W' = context_request W"
    "presentation_context W' = presentation_context W"
    "removed_request_awaiting_dismissal W' = removed_request_awaiting_dismissal W"
    "detached_queue_replaced_delegate W' = detached_queue_replaced_delegate W"
    "detached_presenting_request_queue W' = detached_presenting_request_queue W"
    "context_observed W' = context_observed W" "presentation_capabilities W' = presentation_capabilities W"
    "detaching_presenting_web_state W' = detaching_presenting_web_state W"
  using assms by (auto simp: only_ui_def same_tabs_def)

lemma only_ui_refl [simp]: "only_ui W W"
  unfolding only_ui_def by (rule exI [of _ "ui_states W"], rule exI [of _ "overlay_log W"]) simp

lemma only_ui_states [simp]: "only_ui W (W\<lparr>ui_states := us\<rparr>)"
  unfolding only_ui_def by (rule exI [of _ us], rule exI [of _ "overlay_log W"]) simp

lemma redressed_ui: "redressed W d W' \<Longrightarrow> only_ui W W' \<and> ctx_ok W'"
  by (simp add: redressed_def only_ui_def)

lemma only_ui_trans:
  assumes "only_ui W V" "only_ui V U"
  shows "only_ui W U"
proof -
  from assms obtain us l us' l' where "V = W\<lparr>ui_states := us, overlay_log := l\<rparr>"
    "U = V\<lparr>ui_states := us', overlay_log := l'\<rparr>" unfolding only_ui_def by blast
  then have "U = W\<lparr>ui_states := us', overlay_log := l'\<rparr>" by simp
  then show ?thesis unfolding only_ui_def by blast
qed

text \<open>The part of the invariant that does not depend on the UI states.\<close>

lemma only_ui_core:
  assumes "core_inv T W" "only_ui W W'" "ctx_ok W'"
  shows "core_inv T W'"
proof -
  note eqs = only_uiD [OF assms(2)]
  have o: "owner W' = owner W" "requests_of W' = requests_of W"
    by (rule owner_cong, rule eqs) (rule requests_of_cong, rule eqs)
  have tabs: "browser_tabs W' = browser_tabs W" "active_web_state W' = active_web_state W"
    "destroyed_web_states W' = destroyed_web_states W" using eqs(1) by (simp_all add: same_tabs_def)
  note I = core_invD [OF assms(1)]
  have "queues_ok W'" using I(1) unfolding queues_ok_def o tabs eqs .
  moreover have "owned_ok W'" using I(2) unfolding owned_ok_def o eqs(2-) .
  moreover have "link_ok W'" using I(4) unfolding link_ok_def eqs(2-) .
  moreover have "tabs_ok T W'" using I(5) unfolding tabs_ok_def tabs eqs(2-) .
  moreover have "handed_ok T W'" using I(6) unfolding handed_ok_def o eqs(2-) .
  ultimately show ?thesis using assms(3) unfolding core_inv_def by blast
qed

lemma only_ui_inv:
  assumes "base_inv T W" "only_ui W W'" "ctx_ok W'"
    and "\<And>r w d. presented_request W = Some r \<Longrightarrow> shown W' = Some (r, w, d) \<Longrightarrow>
      (\<exists>d0. shown W = Some (r, w, d0)) \<and> (d = kUserInteraction \<longrightarrow> shown W = Some (r, w, d))"
  shows "base_inv T W'"
proof -
  note eqs = only_uiD [OF assms(2)]
  have o: "owner W' = owner W" by (rule owner_cong) (rule eqs)
  have "reason_ok W'" unfolding reason_ok_def o eqs(5)
  proof (intro allI impI)
    fix r w d
    assume "presented_request W = Some r \<and> shown W' = Some (r, w, d)"
    then have p: "presented_request W = Some r" and "shown W' = Some (r, w, d)" by auto
    from assms(4) [OF this] obtain d0 where "shown W = Some (r, w, d0)"
      "d = kUserInteraction \<longrightarrow> shown W = Some (r, w, d)" by blast
    then show "owner W r = Some w \<and> (d = kUserInteraction \<longrightarrow>
        active_web_state W' = Some w \<and> front_request (queues W' w) = Some r)"
      using base_invD(7) [OF assms(1)] p eqs(1,2) by (auto simp: reason_ok_def same_tabs_def)
  qed
  then show ?thesis using only_ui_core [OF _ assms(2,3)] assms(1) unfolding base_inv_def by blast
qed

lemma redressed_inv:
  assumes "base_inv T W" "redressed W d W'" "d \<noteq> kUserInteraction"
  shows "base_inv T W'" "only_ui W W'"
proof -
  show ui: "only_ui W W'" using assms(2) by (auto simp: redressed_def only_ui_def)
  have ctx: "ctx_ok W'" using assms(2) by (simp add: redressed_def)
  have "ctx_ok W" using base_invD [OF assms(1)] by simp
  show "base_inv T W'"
  proof (rule only_ui_inv [OF assms(1) ui ctx])
    fix r w e
    assume p: "presented_request W = Some r" and s: "shown W' = Some (r, w, e)"
    have "context_request W = Some r" using base_invD(4) [OF assms(1)] p by (auto simp: link_ok_def)
    then obtain w0 d0 where "shown W = Some (r, w0, d0)" using ctx_ok_shown [OF \<open>ctx_ok W\<close>] by blast
    then show "(\<exists>d0. shown W = Some (r, w, d0)) \<and> (e = kUserInteraction \<longrightarrow> shown W = Some (r, w, e))"
      using assms(2,3) s by (auto simp: redressed_def)
  qed
qed

lemma hide_inv:
  assumes "base_inv T W" "context_request W = Some r"
  shows "\<exists>W'. HideOverlayUI r W = Inr W' \<and> base_inv T W' \<and> only_ui W W'"
  using hide_shown [OF base_invD(3) [OF assms(1)] assms(2)] redressed_inv [OF assms(1)] by auto

lemma cancel_inv:
  assumes "base_inv T W"
  shows "\<exists>W'. CancelOverlayUIForRequest x W = Inr W' \<and> base_inv T W' \<and> only_ui W W'"
proof (cases "x = None \<or> \<not> presentation_context W")
  case True
  then show ?thesis using assms by (auto simp: CancelOverlayUIForRequest_def split: option.splits)
next
  case False
  then obtain r where r: "x = Some r" "CancelOverlayUIForRequest x W = CancelOverlayUI r W"
    by (auto simp: CancelOverlayUIForRequest_def)
  have ctx: "ctx_ok W" using base_invD(3) [OF assms] .
  obtain W' where W': "CancelOverlayUI r W = Inr W'"
    "if context_request W = Some r then redressed W kCancellation W'
     else (\<exists>us. W' = W\<lparr>ui_states := us\<rparr>) \<and> ctx_ok W' \<and> shown W' = shown W"
    using cancel_ui [OF ctx] by blast
  show ?thesis
  proof (cases "context_request W = Some r")
    case True
    then show ?thesis using W' r redressed_inv [OF assms, of kCancellation W'] by auto
  next
    case False
    then obtain us where us: "W' = W\<lparr>ui_states := us\<rparr>" "ctx_ok W'" "shown W' = shown W"
      using W'(2) by auto
    then have "only_ui W W'" by simp
    then show ?thesis using W'(1) r only_ui_inv [OF assms _ us(2)] us(3) by auto
  qed
qed

lemma cancel_shown_reason:
  assumes "base_inv T W" "CancelOverlayUIForRequest (Some r) W = Inr W'" "presentation_context W"
    "context_request W = Some r"
  shows "\<exists>w. shown W' = Some (r, w, kCancellation)"
proof -
  have ctx: "ctx_ok W" using base_invD(3) [OF assms(1)] .
  then obtain w d where "shown W = Some (r, w, d)" using ctx_ok_shown assms(4) by blast
  moreover have "redressed W kCancellation W'"
    using cancel_ui [OF ctx, of r] assms(2-4) by (auto simp: CancelOverlayUIForRequest_def)
  ultimately show ?thesis by (auto simp: redressed_def)
qed

lemma front_request_ok:
  "w \<notin> set (destroyed_web_states W) \<Longrightarrow> GetFrontRequestForWebState (Some w) W = Inr (front_request (queues W w))"
  by (simp add: GetFrontRequestForWebState_def GetQueueForWebState_def)

lemma cancel_tabs_inv:
  "base_inv T W \<Longrightarrow> set ws \<inter> set (destroyed_web_states W) = {} \<Longrightarrow>
    \<exists>W'. CancelOverlayUIForTabs ws W = Inr W' \<and> base_inv T W' \<and> only_ui W W'"
proof (induction ws arbitrary: W)
  case (Cons w ws)
  obtain V where V: "CancelOverlayUIForRequest (front_request (queues W w)) W = Inr V" "base_inv T V" "only_ui W V"
    using cancel_inv [OF Cons.prems(1)] by blast
  have "set ws \<inter> set (destroyed_web_states V) = {}"
    using Cons.prems(2) only_uiD(1) [OF V(3)] by (auto simp: same_tabs_def)
  then obtain U where "CancelOverlayUIForTabs ws V = Inr U" "base_inv T U" "only_ui V U"
    using Cons.IH [OF V(2)] by blast
  then show ?case using V Cons.prems(2) only_ui_trans by (auto simp: front_request_ok)
qed simp

section \<open>Changing the active tab\<close>

definition previously_active :: "overlay_world \<Rightarrow> request option" where
  "previously_active W =
     (if removed_request_awaiting_dismissal W \<noteq> None then removed_request_awaiting_dismissal W
      else case active_web_state W of None \<Rightarrow> None | Some w \<Rightarrow> front_request (queues W w))"

definition switch_ok :: "overlay_world \<Rightarrow> bool" where
  "switch_ok W \<longleftrightarrow> (presentation_context W \<and> presenting W \<longrightarrow>
     previously_active W = None \<or> previously_active W = context_request W)"

lemma previously_active_eq:
  "tabs_ok T W \<Longrightarrow>
   (if removed_request_awaiting_dismissal W \<noteq> None then Inr (removed_request_awaiting_dismissal W)
    else GetActiveRequest W) = Inr (previously_active W)"
  by (simp add: previously_active_def active_request)

text \<open>UI that is only up for the user is the one of the previously active request.\<close>

lemma user_shown_previous:
  assumes "base_inv T W" "presented_request W = Some r" "shown W = Some (r, w, kUserInteraction)"
  shows "previously_active W = Some r"
proof -
  have a: "active_web_state W = Some w" "front_request (queues W w) = Some r"
    using base_invD(7) [OF assms(1)] assms(2,3) by (auto simp: reason_ok_def)
  have "r \<in> set (requests_of W w)" using front_in_requests_of a(2) by blast
  then have "removed_request_awaiting_dismissal W \<noteq> Some x" for x
    using base_invD(2) [OF assms(1)] assms(2) by (auto simp: owned_ok_def)
  then show ?thesis using a by (simp add: previously_active_def)
qed

text \<open>Changing the active tab alone keeps everything but the relation to the active tab.\<close>

lemma core_inv_activate:
  assumes "core_inv T W" "\<And>w. new = Some w \<Longrightarrow> w \<in> T"
  shows "core_inv T (W\<lparr>active_web_state := new, detaching_presenting_web_state := d\<rparr>)" (is "core_inv T ?W")
proof -
  have o: "owner ?W = owner W" "requests_of ?W = requests_of W"
    by (rule owner_cong, simp) (rule requests_of_cong, simp)
  note I = core_invD [OF assms(1)]
  have "queues_ok ?W" using I(1) unfolding queues_ok_def o by simp
  moreover have "owned_ok ?W" using I(2) unfolding owned_ok_def o by simp
  moreover have "link_ok ?W = link_ok W" by (simp add: link_ok_def)
  moreover have "handed_ok T ?W" using I(6) unfolding handed_ok_def o by simp
  moreover have "ctx_ok ?W" using I(3) ctx_ok_cong [of ?W W] by simp
  moreover have "tabs_ok T ?W" using I(5) assms(2) unfolding tabs_ok_def by auto
  ultimately show ?thesis using I(4) unfolding core_inv_def by blast
qed

lemma reason_ok_not_user:
  assumes "base_inv T W" "presented_request W' = presented_request W" "owner W' = owner W"
    and "\<And>r w d. presented_request W = Some r \<Longrightarrow> shown W' = Some (r, w, d) \<Longrightarrow>
      (\<exists>d0. shown W = Some (r, w, d0)) \<and> d \<noteq> kUserInteraction"
  shows "reason_ok W'"
  using base_invD(7) [OF assms(1)] assms(2-4) unfolding reason_ok_def by metis

lemma set_active_inv:
  assumes inv: "base_inv T W" and new: "\<And>w. new = Some w \<Longrightarrow> w \<in> T"
    and sw: "switch_ok W \<or> reason = Replaced \<or> detaching_presenting_web_state W \<or> active_web_state W = new"
  shows "\<exists>W'. SetActiveWebState E new reason W = Inr W' \<and> base_inv T W' \<and> active_web_state W' = new \<and>
    browser_tabs W' = browser_tabs W \<and> queues W' = queues W"
proof (cases "active_web_state W = new")
  case True
  then show ?thesis using inv by (simp add: SetActiveWebState_def)
next
  case False
  note I = base_invD [OF inv]
  let ?cancel = "reason = Replaced \<or> detaching_presenting_web_state W"
  let ?V = "W\<lparr>active_web_state := new, detaching_presenting_web_state := False\<rparr>"
  have eq: "SetActiveWebState E new reason W =
    (if \<not> presentation_context W then Inr ?V
     else if \<not> presenting W then PresentOverlayForActiveRequest E ?V
     else case previously_active W of None \<Rightarrow> Inr ?V
       | Some p \<Rightarrow> if ?cancel then CancelOverlayUIForRequest (Some p) ?V else HideOverlayUI p ?V)"
    unfolding SetActiveWebState_def previously_active_eq [OF I(5)] using False by (simp add: Let_def)
  have core: "core_inv T ?V" using inv new by (intro core_inv_activate) (simp_all add: base_inv_def)
  have V: "owner ?V = owner W" "shown ?V = shown W" "presented_request ?V = presented_request W"
    by (rule owner_cong, simp) (rule shown_cong, simp_all)
  have keep: "base_inv T ?V" if "\<And>r w. presented_request W = Some r \<Longrightarrow> shown W \<noteq> Some (r, w, kUserInteraction)"
    unfolding base_inv_def using core reason_ok_not_user [OF inv V(3,1)] that V(2) by metis
  show ?thesis
  proof (cases "presentation_context W \<and> presenting W")
    case False
    then have np: "\<not> presenting W" using I(4) by (auto simp: link_ok_def)
    then have inv': "base_inv T ?V" using I(4) by (intro keep) (auto simp: link_ok_def)
    obtain W' where "PresentOverlayForActiveRequest E ?V = Inr W'" "base_inv T W'" "same_tabs ?V W'"
        "queues W' = queues ?V"
      using present_inv [OF inv'] np new by auto
    then show ?thesis using np eq inv' by (auto simp: same_tabs_def)
  next
    case True
    show ?thesis
    proof (cases "previously_active W")
      case None
      have "base_inv T ?V" by (rule keep) (use user_shown_previous [OF inv] None in auto)
      then show ?thesis using eq True None by simp
    next
      case (Some p)
      have ctxV: "ctx_ok ?V" using core_invD(3) [OF core] .
      have "\<exists>X. SetActiveWebState E new reason W = Inr X \<and> only_ui ?V X \<and> ctx_ok X \<and>
          (if context_request W = Some p then \<exists>d. d \<noteq> kUserInteraction \<and> redressed ?V d X else shown X = shown W)"
      proof (cases ?cancel)
        case c: True
        obtain X where X: "CancelOverlayUI p ?V = Inr X"
          "if context_request ?V = Some p then redressed ?V kCancellation X
           else (\<exists>us. X = ?V\<lparr>ui_states := us\<rparr>) \<and> ctx_ok X \<and> shown X = shown ?V"
          using cancel_ui [OF ctxV] by blast
        have "only_ui ?V X \<and> ctx_ok X"
          by (cases "context_request W = Some p") (use X(2) redressed_ui in auto)
        moreover have "SetActiveWebState E new reason W = Inr X"
          using eq True Some c X(1) by (simp add: CancelOverlayUIForRequest_def)
        ultimately show ?thesis using X(2) V(2) by auto
      next
        case c: False
        then have "context_request W = Some p" using sw True Some \<open>active_web_state W \<noteq> new\<close>
          by (auto simp: switch_ok_def)
        then obtain X where "HideOverlayUI p ?V = Inr X" "redressed ?V kHiding X"
          using hide_shown [OF ctxV] by auto
        then show ?thesis using eq True Some c \<open>context_request W = Some p\<close>
          by (auto simp: redressed_def only_ui_def)
      qed
      then obtain X where X: "SetActiveWebState E new reason W = Inr X" "only_ui ?V X" "ctx_ok X"
          "if context_request W = Some p then \<exists>d. d \<noteq> kUserInteraction \<and> redressed ?V d X else shown X = shown W"
        by blast
      note eqs = only_uiD [OF X(2)]
      have own: "owner X = owner W" by (rule owner_cong) (simp add: eqs)
      have "reason_ok X"
      proof (rule reason_ok_not_user [OF inv _ own])
        show "presented_request X = presented_request W" by (simp add: eqs)
        fix r w d
        assume p: "presented_request W = Some r" and s: "shown X = Some (r, w, d)"
        have cr: "context_request W = Some r" using I(4) p by (auto simp: link_ok_def)
        obtain w0 d0 where s0: "shown W = Some (r, w0, d0)" using ctx_ok_shown [OF I(3) cr] .
        show "(\<exists>d0. shown W = Some (r, w, d0)) \<and> d \<noteq> kUserInteraction"
        proof (cases "r = p")
          case True
          then obtain e where "e \<noteq> kUserInteraction" "redressed ?V e X" using X(4) cr by auto
          then show ?thesis using s0 s V(2) by (auto simp: redressed_def)
        next
          case False
          then have sW: "shown W = Some (r, w, d)" using X(4) cr s by auto
          then show ?thesis using user_shown_previous [OF inv p] Some False by auto
        qed
      qed
      then have "base_inv T X" using only_ui_core [OF core X(2,3)] unfolding base_inv_def by blast
      then show ?thesis using X(1) eqs by (auto simp: same_tabs_def)
    qed
  qed
qed

text \<open>The one way it fails: the presenter hides a request that is not on screen.\<close>

lemma set_active_early:
  assumes "base_inv T W" "\<not> switch_ok W" "reason \<noteq> Replaced" "\<not> detaching_presenting_web_state W" "active_web_state W \<noteq> new"
  shows "SetActiveWebState E new reason W = Inl (DCheckFailed ''request_ == request'')"
proof -
  obtain p where "presentation_context W" "presenting W" "previously_active W = Some p" "context_request W \<noteq> Some p"
    using assms(2) by (auto simp: switch_ok_def)
  then show ?thesis
    using assms(3-5) unfolding SetActiveWebState_def previously_active_eq [OF base_invD(5) [OF assms(1)]]
    by (simp add: Let_def HideOverlayUI_def dcheck_def)
qed

section \<open>Tabs joining and leaving the window\<close>

lemma core_inv_queues:
  assumes "core_inv T W" "\<And>v. requests_of W' v = requests_of W v"
    and W': "W' = W\<lparr>queues := Q, overlay_log := l\<rparr>"
    and "tabs_ok T' W'" "handed_ok T' W'"
    and "\<And>r w. presented_request W = Some r \<Longrightarrow> owner W r = Some w \<Longrightarrow> r \<in> set (requests_of W w) \<Longrightarrow>
      queue_delegate (queues W w) = Some ThisPresenter \<Longrightarrow> queue_delegate (Q w) = Some ThisPresenter"
  shows "core_inv T' W'"
proof -
  have o: "owner W' = owner W" by (rule owner_cong) (simp add: W')
  have r: "requests_of W' = requests_of W" using assms(2) by auto
  note I = core_invD [OF assms(1)]
  have "queues_ok W'" using I(1) unfolding queues_ok_def o r by (simp add: W')
  moreover have "owned_ok W'" using I(2) assms(6) unfolding owned_ok_def o r by (simp add: W') blast
  moreover have "link_ok W' = link_ok W" by (simp add: link_ok_def W')
  moreover have "ctx_ok W' = ctx_ok W" by (rule ctx_ok_cong) (simp_all add: W')
  ultimately show ?thesis using I assms(4,5) unfolding core_inv_def by blast
qed

definition only_queues :: "overlay_world \<Rightarrow> overlay_world \<Rightarrow> bool" where
  "only_queues W W' \<longleftrightarrow> requests W' = requests W \<and> presented_request W' = presented_request W \<and>
     presenting W' = presenting W \<and> context_request W' = context_request W \<and>
     presentation_context W' = presentation_context W \<and>
     removed_request_awaiting_dismissal W' = removed_request_awaiting_dismissal W \<and>
     detached_queue_replaced_delegate W' = detached_queue_replaced_delegate W \<and>
     detaching_presenting_web_state W' = detaching_presenting_web_state W \<and>
     requests_of W' = requests_of W"

lemma added_eq:
  assumes "w \<notin> set (destroyed_web_states W)" "ThisPresenter \<notin> set (queue_observers (queues W w))"
  shows "\<exists>l. WebStateAddedToBrowser E w W = Inr (W\<lparr>queues := (queues W)(w := (queues W w)
    \<lparr>queue_observers := queue_observers (queues W w) @ [ThisPresenter],
     queue_delegate := Some ThisPresenter\<rparr>), overlay_log := l\<rparr>)"
proof -
  let ?q = "(queues W w)\<lparr>queue_observers := queue_observers (queues W w) @ [ThisPresenter]\<rparr>"
  let ?V = "W\<lparr>queues := (queues W)(w := ?q)\<rparr>"
  have eq: "WebStateAddedToBrowser E w W = SetDelegate E w (Some ThisPresenter) ?V"
    using assms by (simp add: WebStateAddedToBrowser_def GetQueueForWebState_def AddQueueObserver_def update_queue_def)
  show ?thesis
  proof (cases "queue_delegate (queues W w)")
    case None
    then show ?thesis unfolding eq
      by (intro exI [of _ "overlay_log W"]) (simp add: SetDelegate_def update_queue_def)
  next
    case (Some d)
    show ?thesis
    proof (cases d)
      case ThisPresenter
      have same: "(queues W w)\<lparr>queue_observers := obs, queue_delegate := Some ThisPresenter\<rparr> =
          (queues W w)\<lparr>queue_observers := obs\<rparr>" for obs
        using Some ThisPresenter by (cases "queues W w") simp
      show ?thesis unfolding eq using Some ThisPresenter
        by (intro exI [of _ "overlay_log W"]) (simp add: SetDelegate_def same)
    next
      case (OtherParty n)
      then show ?thesis unfolding eq using Some
        by (intro exI [of _ "overlay_log W @ [WillReplaceOther n w]"])
          (simp add: SetDelegate_def update_queue_def log_overlay_def)
    qed
  qed
qed

lemma filter_this_empty: "filter (\<lambda>p. p = ThisPresenter) ps = [] \<longleftrightarrow> ThisPresenter \<notin> set ps"
  by (induction ps) auto

lemma added_inv:
  assumes inv: "base_inv T W" and w: "w \<notin> T" "w \<notin> set (destroyed_web_states W)"
    and "detached_presenting_request_queue W \<noteq> Some w"
    and "\<And>p. detached_queue_replaced_delegate W \<Longrightarrow> context_request W = Some p \<Longrightarrow> p \<notin> set (requests_of W w)"
  shows "\<exists>W'. WebStateAddedToBrowser E w W = Inr W' \<and> base_inv (insert w T) W' \<and> same_tabs W W' \<and>
    only_queues W W'"
proof -
  note I = base_invD [OF inv]
  have obs: "ThisPresenter \<notin> set (queue_observers (queues W w))"
    using I(5) w(1) unfolding tabs_ok_def by (metis filter_this_empty)
  let ?q = "(queues W w)\<lparr>queue_observers := queue_observers (queues W w) @ [ThisPresenter],
     queue_delegate := Some ThisPresenter\<rparr>"
  obtain l where l: "WebStateAddedToBrowser E w W = Inr (W\<lparr>queues := (queues W)(w := ?q), overlay_log := l\<rparr>)"
    using added_eq [OF w(2) obs] by blast
  let ?W = "W\<lparr>queues := (queues W)(w := ?q), overlay_log := l\<rparr>"
  have r: "requests_of ?W v = requests_of W v" for v by (simp add: requests_of_def)
  have o: "owner ?W = owner W" "shown ?W = shown W" by (rule owner_cong, simp) (rule shown_cong, simp_all)
  have "tabs_ok (insert w T) ?W" using I(5) w obs by (auto simp: tabs_ok_def filter_this_empty)
  moreover have "handed_ok (insert w T) ?W" using I(6) assms(4,5) unfolding handed_ok_def r o by auto
  ultimately have "core_inv (insert w T) ?W"
    using inv by (intro core_inv_queues [of T W ?W, OF _ r refl]) (auto simp: base_inv_def)
  moreover have "front_request (queues ?W v) = front_request (queues W v)" for v
    by (simp add: front_request_def)
  then have "reason_ok ?W" using I(7) unfolding reason_ok_def o by simp
  ultimately have "base_inv (insert w T) ?W" by (simp add: base_inv_def)
  then show ?thesis using l by (auto simp: same_tabs_def only_queues_def r fun_eq_iff)
qed


lemma presented_from:
  assumes "owned_ok W"
  shows "presented_request_is_from w W =
    Inr (case presented_request W of None \<Rightarrow> False | Some r \<Rightarrow> owner W r = Some w)"
  using assms by (auto simp: presented_request_is_from_def GetQueueWebState_def deref_request_def owner_def
      owned_ok_def split: option.splits)

lemma presented_from_cong:
  "presented_request V = presented_request W \<Longrightarrow> requests V = requests W \<Longrightarrow>
    presented_request_is_from w V = presented_request_is_from w W"
  by (simp add: presented_request_is_from_def GetQueueWebState_def deref_request_def cong: option.case_cong)

definition presented_from_tab :: "web_state_id \<Rightarrow> overlay_world \<Rightarrow> bool" where
  "presented_from_tab w W = (case presented_request W of None \<Rightarrow> False | Some r \<Rightarrow> owner W r = Some w)"

lemma tabs_ok_leave:
  assumes "tabs_ok T W" "same_tabs W W'" "\<And>v. v \<noteq> w \<Longrightarrow> queues W' v = queues W v"
    "filter (\<lambda>p. p = ThisPresenter) (queue_observers (queues W' w)) = []"
  shows "tabs_ok (T - {w}) W'"
proof -
  have f: "filter (\<lambda>p. p = ThisPresenter) (queue_observers (queues W' v)) =
      (if v \<in> T - {w} then [ThisPresenter] else [])" for v
    using assms by (cases "v = w") (simp_all add: tabs_ok_def)
  have d: "queue_delegate (queues W' v) = Some ThisPresenter" if "v \<in> T - {w}" for v
    using assms(1,3) that by (simp add: tabs_ok_def)
  have "(T - {w}) \<inter> set (destroyed_web_states W') = {}"
    "\<forall>v. active_web_state W' = Some v \<longrightarrow> v \<notin> set (destroyed_web_states W')"
    using assms(1,2) unfolding tabs_ok_def same_tabs_def by auto
  then show ?thesis unfolding tabs_ok_def using f d by (intro conjI ballI) blast+
qed

lemma will_replace_other:
  "(\<And>x. front_request (queues W w) = Some x \<Longrightarrow> presented_request W \<noteq> Some x) \<Longrightarrow>
    OverlayRequestQueueWillReplaceDelegate E w W = Inr W"
  by (cases "presented_request W"; cases "front_request (queues W w)")
    (auto simp: OverlayRequestQueueWillReplaceDelegate_def)

lemma removed_inv:
  assumes inv: "base_inv T W" and w: "w \<in> T"
  shows "\<exists>W'. WebStateRemovedFromBrowser E w W = Inr W' \<and> base_inv (T - {w}) W' \<and> same_tabs W W' \<and>
    only_queues W W' \<and> (\<forall>v. v \<noteq> w \<longrightarrow> detached_presenting_request_queue W' = Some v \<longrightarrow> detached_presenting_request_queue W = Some v)"
proof -
  note I = base_invD [OF inv]
  have live: "w \<notin> set (destroyed_web_states W)" "queue_delegate (queues W w) = Some ThisPresenter"
    using I(5) w by (auto simp: tabs_ok_def)
  let ?obs = "removeAll ThisPresenter (queue_observers (queues W w))"
  let ?V = "RemoveQueueObserver w W"
  have V: "?V = W\<lparr>queues := (queues W)(w := (queues W w)\<lparr>queue_observers := ?obs\<rparr>)\<rparr>"
    by (simp add: RemoveQueueObserver_def update_queue_def)
  have nof: "filter (\<lambda>p. p = ThisPresenter) ?obs = []" by (simp add: filter_this_empty)
  have from_V: "presented_request_is_from w ?V = Inr (presented_from_tab w W)"
    unfolding presented_from_tab_def presented_from [OF I(2), symmetric]
    by (rule presented_from_cong) (simp_all add: V)
  show ?thesis
  proof (cases "presented_from_tab w W")
    case True
    let ?W = "?V\<lparr>detached_presenting_request_queue := Some w\<rparr>"
    have eq: "WebStateRemovedFromBrowser E w W = Inr ?W"
      using live(1) True by (simp add: WebStateRemovedFromBrowser_def GetQueueForWebState_def from_V)
    have r: "requests_of ?W = requests_of W" by (simp add: requests_of_def V fun_eq_iff)
    have o: "owner ?W = owner W" "shown ?W = shown W" "ctx_ok ?W = ctx_ok W"
      by (rule owner_cong, simp add: V) (rule shown_cong, simp_all add: V ctx_ok_def ctx_idle_def ctx_busy_def)
    have d: "queue_delegate (queues ?W v) = queue_delegate (queues W v)"
      "front_request (queues ?W v) = front_request (queues W v)" for v by (simp_all add: V front_request_def)
    have "queues_ok ?W" using I(1) unfolding queues_ok_def r o by (simp add: V)
    moreover have "owned_ok ?W" using I(2) unfolding owned_ok_def r o d by (simp add: V)
    moreover have "link_ok ?W = link_ok W" by (simp add: link_ok_def V)
    moreover have "tabs_ok (T - {w}) ?W"
      by (rule tabs_ok_leave [OF I(5)]) (simp_all add: same_tabs_def V nof)
    moreover have "handed_ok (T - {w}) ?W" using I(6) True unfolding handed_ok_def r o
      by (auto simp: V presented_from_tab_def split: option.splits)
    moreover have "reason_ok ?W" using I(7) unfolding reason_ok_def o d by (simp add: V)
    ultimately have "base_inv (T - {w}) ?W" using I o unfolding base_inv_def core_inv_def by blast
    then show ?thesis using eq r by (auto simp: same_tabs_def only_queues_def V)
  next
    case False
    let ?q = "(queues W w)\<lparr>queue_observers := ?obs, queue_delegate := None\<rparr>"
    let ?W = "W\<lparr>queues := (queues W)(w := ?q)\<rparr>"
    have ownw: "x \<in> set (requests_of W w) \<Longrightarrow> owner W x = Some w" for x using I(1) by (auto simp: queues_ok_def)
    have "presented_request W \<noteq> Some x" if "front_request (queues W w) = Some x" for x
      using ownw [OF front_in_requests_of [OF that]] False by (auto simp: presented_from_tab_def)
    then have "OverlayRequestQueueWillReplaceDelegate E w ?V = Inr ?V"
      by (intro will_replace_other) (simp add: V front_request_def)
    then have del: "SetDelegate E w None ?V = Inr ?W"
      using live(2) by (simp add: SetDelegate_def V update_queue_def)
    have eq: "WebStateRemovedFromBrowser E w W = CancelOverlayUIForRequest (front_request (queues W w)) ?W"
      using live(1) False del
      by (simp add: WebStateRemovedFromBrowser_def GetQueueForWebState_def from_V front_request_ok)
        (simp add: front_request_def)
    have r: "requests_of ?W v = requests_of W v" for v by (simp add: requests_of_def)
    have o: "owner ?W = owner W" "shown ?W = shown W" by (rule owner_cong, simp) (rule shown_cong, simp_all)
    have "tabs_ok (T - {w}) ?W"
      by (rule tabs_ok_leave [OF I(5)]) (simp_all add: same_tabs_def nof)
    moreover have "handed_ok (T - {w}) ?W" using I(6) unfolding handed_ok_def r o by auto
    ultimately have core: "core_inv (T - {w}) ?W"
      using inv False by (intro core_inv_queues [of T W ?W "overlay_log W" "(queues W)(w := ?q)", OF _ r])
        (auto simp: base_inv_def presented_from_tab_def)
    have f: "front_request (queues ?W v) = front_request (queues W v)" for v by (simp add: front_request_def)
    have "reason_ok ?W" using I(7) unfolding reason_ok_def o f by simp
    then have "base_inv (T - {w}) ?W" using core by (simp add: base_inv_def)
    from cancel_inv [OF this] obtain W' where
      W': "CancelOverlayUIForRequest (front_request (queues W w)) ?W = Inr W'" "base_inv (T - {w}) W'" "only_ui ?W W'"
      by blast
    note eqs = only_uiD [OF W'(3)]
    have "requests_of W' = requests_of ?W" by (rule requests_of_cong) (rule eqs)
    then have "requests_of W' = requests_of W" using r by (simp add: fun_eq_iff)
    then have "only_queues W W'" using eqs(3-9,13) by (simp add: only_queues_def)
    moreover have "same_tabs W W'" using eqs(1) by (simp add: same_tabs_def)
    ultimately show ?thesis using eq W'(1,2) eqs(10) False by simp
  qed
qed

end
