(* ===== verification/Overlay_Events.thy ===== *)
theory Overlay_Events
  imports Overlay_Invariant
begin

text \<open>
  Every event of the overlay system keeps the invariant, and no assertion fails and no destroyed
  object is touched on the way, provided the environment keeps to \<open>overlay_pre\<close>.
\<close>

section \<open>Removing a request\<close>

lemma front_remove_at:
  assumes "front_request q = Some r" "i < queue_size q" "r \<noteq> fst (request_storages q ! i)"
  shows "front_request (q\<lparr>request_storages := remove_at i (request_storages q)\<rparr>) = Some r"
  using assms by (cases i; cases "request_storages q")
    (auto simp: front_request_def remove_at_def queue_size_def)

lemma in_remove_at:
  assumes "distinct xs" "i < length xs"
  shows "set (remove_at i xs) = set xs - {xs ! i}"
  using assms set_remove_at_distinct by blast

text \<open>The world after \<open>r\<close> has left its queue, before anybody is told.\<close>

lemma taken_out:
  fixes W w i
  defines "r \<equiv> fst (request_storages (queues W w) ! i)"
  defines "V \<equiv> update_queue w (\<lambda>q. q\<lparr>request_storages := remove_at i (request_storages q)\<rparr>) W"
  assumes inv: "base_inv T W" and i: "i < queue_size (queues W w)"
  shows "requests_of V = (requests_of W)(w := remove_at i (requests_of W w))"
    and "set (requests_of V v) = set (requests_of W v) - {r}"
    and "owner W r = Some w" "requests W r \<noteq> None" "r \<in> set (requests_of W w)"
proof -
  note I = base_invD [OF inv]
  have r: "r = requests_of W w ! i" using i by (simp add: requests_of_def queue_size_def r_def)
  have l: "i < length (requests_of W w)" using i by (simp add: requests_of_def queue_size_def)
  show eq: "requests_of V = (requests_of W)(w := remove_at i (requests_of W w))"
    by (auto simp: requests_of_def V_def update_queue_def fun_eq_iff map_remove_at)
  show mem: "r \<in> set (requests_of W w)" using l r by simp
  then show own: "owner W r = Some w" using I(1) by (auto simp: queues_ok_def)
  then show "requests W r \<noteq> None" by (auto simp: owner_def split: option.splits)
  have "distinct (requests_of W w)" using I(1) by (auto simp: queues_ok_def)
  then have "set (remove_at i (requests_of W w)) = set (requests_of W w) - {r}"
    using in_remove_at l r by blast
  moreover have "r \<notin> set (requests_of W v)" if "v \<noteq> w" for v
    using own I(1) that by (auto simp: queues_ok_def)
  ultimately show "set (requests_of V v) = set (requests_of W v) - {r}" unfolding eq by auto
qed

lemma queues_ok_taken:
  assumes "queues_ok W" "requests_of Y = (requests_of W)(w := remove_at i (requests_of W w))"
    "\<And>v. set (requests_of Y v) = set (requests_of W v) - {r}" "\<And>x. x \<noteq> r \<Longrightarrow> owner Y x = owner W x"
    "destroyed_web_states Y = destroyed_web_states W"
  shows "queues_ok Y"
  unfolding queues_ok_def
proof (intro conjI allI impI ballI)
  show "distinct (requests_of Y v)" for v
    using assms(1) unfolding assms(2) queues_ok_def by (simp add: distinct_remove_at)
  show "owner Y x = Some v" if "x \<in> set (requests_of Y v)" for v x
    using that assms(1,3,4) by (auto simp: queues_ok_def)
  show "requests_of Y v = []" if "v \<in> set (destroyed_web_states Y)" for v
  proof -
    have "set (requests_of Y v) = {}" using assms(3) that assms(1,5) by (simp add: queues_ok_def)
    then show ?thesis by simp
  qed
qed

lemma cancel_any:
  assumes "ctx_ok V"
  shows "\<exists>X. CancelOverlayUIForRequest (Some r) V = Inr X \<and> only_ui V X \<and> ctx_ok X \<and>
    (context_request V \<noteq> Some r \<longrightarrow> shown X = shown V)"
proof (cases "presentation_context V")
  case False
  then show ?thesis using assms by (simp add: CancelOverlayUIForRequest_def)
next
  case True
  then show ?thesis using cancel_ui [OF assms, of r] redressed_ui
    by (cases "context_request V = Some r") (auto simp: CancelOverlayUIForRequest_def)
qed

lemma drop_request_inv:
  fixes W w i
  defines "r \<equiv> fst (request_storages (queues W w) ! i)"
  defines "V \<equiv> update_queue w (\<lambda>q. q\<lparr>request_storages := remove_at i (request_storages q)\<rparr>) W"
  assumes inv: "base_inv T W" and i: "i < queue_size (queues W w)"
    and np: "presented_request W \<noteq> Some r"
    and X: "only_ui V X" "ctx_ok X" "context_request W \<noteq> Some r \<Longrightarrow> shown X = shown W"
    and W': "W' = X\<lparr>overlay_log := l, previously_presented_requests := pp, requests := (requests X)(r := None)\<rparr>"
  shows "base_inv T W'"
proof -
  note I = base_invD [OF inv]
  note t = taken_out [OF inv i, folded r_def V_def]
  note eqs = only_uiD [OF X(1)]
  have f: "requests W' = (requests W)(r := None)" "queues W' = queues V"
    "presented_request W' = presented_request W" "context_request W' = context_request W"
    "presentation_context W' = presentation_context W" "presenting W' = presenting W"
    "removed_request_awaiting_dismissal W' = removed_request_awaiting_dismissal W"
    "detached_queue_replaced_delegate W' = detached_queue_replaced_delegate W"
    "detached_presenting_request_queue W' = detached_presenting_request_queue W"
    "context_observed W' = context_observed W" "active_web_state W' = active_web_state W"
    "destroyed_web_states W' = destroyed_web_states W"
    using eqs by (simp_all add: W' V_def update_queue_def same_tabs_def)
  have ro: "set (requests_of W' v) = set (requests_of W v) - {r}" for v
    unfolding requests_of_cong [OF f(2)] by (rule t(2))
  have ow: "x \<noteq> r \<Longrightarrow> owner W' x = owner W x" for x by (simp add: owner_def f)
  have d: "queue_delegate (queues W' v) = queue_delegate (queues W v)"
    "queue_observers (queues W' v) = queue_observers (queues W v)" for v
    by (simp_all add: f(2) V_def update_queue_def)
  have "queues_ok W'"
    by (rule queues_ok_taken [OF I(1) _ ro ow f(12)]) (use t(1) requests_of_cong [OF f(2)] in simp)
  moreover have "owned_ok W'" unfolding owned_ok_def d f(1,3-)
  proof (intro conjI allI impI)
    fix x
    assume x: "removed_request_awaiting_dismissal W = Some x"
    then show "presented_request W = Some x" "\<And>v. x \<notin> set (requests_of W' v)"
      using I(2) ro by (auto simp: owned_ok_def)
    show "((requests W)(r := None)) x \<noteq> None" using x I(2) np by (auto simp: owned_ok_def)
  next
    fix x
    assume x: "presented_request W = Some x"
    then have "x \<noteq> r" using np by auto
    then show "\<exists>v. owner W' x = Some v \<and> (removed_request_awaiting_dismissal W = Some x \<or>
        x \<in> set (requests_of W' v) \<and> queue_delegate (queues W v) = Some ThisPresenter)"
      using I(2) x ro ow by (auto simp: owned_ok_def)
  next
    fix x
    assume "((requests W)(r := None)) x \<noteq> None"
    then show "removed_request_awaiting_dismissal W = Some x \<or> (\<exists>v. x \<in> set (requests_of W' v))"
      using I(2) ro by (auto simp: owned_ok_def split: if_splits)
  qed
  moreover have "ctx_ok W' = ctx_ok X" by (rule ctx_ok_cong) (simp_all add: W')
  moreover have "link_ok W' = link_ok W" by (simp add: link_ok_def f)
  moreover have "tabs_ok T W'" using I(5) unfolding tabs_ok_def d f(1,3-) .
  moreover have "handed_ok T W'" unfolding handed_ok_def f
  proof (intro conjI allI impI)
    show "p \<notin> set (requests_of W' v)"
      if "detached_queue_replaced_delegate W \<and> context_request W = Some p \<and> v \<in> T" for p v
      using that I(6) ro by (auto simp: handed_ok_def)
    fix v
    assume "detached_presenting_request_queue W = Some v"
    then obtain x where "v \<notin> T" "presented_request W = Some x" "owner W x = Some v"
      using I(6) by (auto simp: handed_ok_def)
    then show "v \<notin> T" "\<exists>x. presented_request W = Some x \<and> owner W' x = Some v" using ow np by auto
  qed
  moreover have "reason_ok W'" unfolding reason_ok_def f
  proof (intro allI impI)
    fix x v d
    assume "presented_request W = Some x \<and> shown W' = Some (x, v, d)"
    then have x: "presented_request W = Some x" "shown X = Some (x, v, d)" "x \<noteq> r"
      using np shown_cong [of W' X] by (auto simp: W')
    have "context_request W = Some x" using I(4) x(1) by (auto simp: link_ok_def)
    then have "shown W = Some (x, v, d)" using X(3) x by auto
    then have *: "owner W x = Some v" "d = kUserInteraction \<Longrightarrow>
        active_web_state W = Some v \<and> front_request (queues W v) = Some x"
      using I(7) x(1) by (auto simp: reason_ok_def)
    have "front_request (queues V v) = Some x" if "front_request (queues W v) = Some x"
      using that front_remove_at [OF _ i] x(3) by (auto simp: V_def update_queue_def r_def)
    then show "owner W' x = Some v \<and> (d = kUserInteraction \<longrightarrow>
        active_web_state W = Some v \<and> front_request (queues V v) = Some x)"
      using * ow x(3) by auto
  qed
  ultimately show ?thesis using I(4) X(2) unfolding base_inv_def core_inv_def by blast
qed

text \<open>The request on screen leaves its queue: the presenter keeps it until the dismissal.\<close>

lemma kept_request:
  fixes W w i
  defines "r \<equiv> fst (request_storages (queues W w) ! i)"
  defines "V \<equiv> update_queue w (\<lambda>q. q\<lparr>request_storages := remove_at i (request_storages q)\<rparr>) W"
  assumes inv: "base_inv T W" and i: "i < queue_size (queues W w)" and pr: "presented_request W = Some r"
  shows "\<exists>Y. OverlayRequestRemoved E w r cancelled V =
      (if cancelled then CancelOverlayUIForRequest (Some r) Y else Inr Y) \<and>
    core_inv T Y \<and> requests_of Y = requests_of V \<and> owner Y = owner W \<and> shown Y = shown W \<and>
    same_tabs W Y \<and> removed_request_awaiting_dismissal Y = Some r \<and> requests Y = requests W \<and>
    presented_request Y = Some r \<and> presentation_context Y = presentation_context W \<and>
    context_request Y = context_request W \<and> ui_states Y = ui_states W \<and>
    detached_queue_replaced_delegate Y = detached_queue_replaced_delegate W \<and>
    context_observed Y = context_observed W \<and> queue_delegate (queues W w) = Some ThisPresenter"
proof -
  note I = base_invD [OF inv]
  note t = taken_out [OF inv i, folded r_def V_def]
  have "removed_request_awaiting_dismissal W \<noteq> Some x" for x
    using I(2) pr t(5) by (auto simp: owned_ok_def)
  then have none: "removed_request_awaiting_dismissal W = None"
    by (cases "removed_request_awaiting_dismissal W") auto
  have del: "queue_delegate (queues W w) = Some ThisPresenter"
    using I(2) pr t(3) none by (auto simp: owned_ok_def)
  define reset where "reset = (detached_presenting_request_queue W \<noteq> None)"
  have out: "w \<notin> T" if reset using that I(6) pr t(3) by (auto simp: reset_def handed_ok_def)
  define Q where "Q = (if reset then (queues V)(w := (queues V w)\<lparr>queue_delegate := None\<rparr>) else queues V)"
  define Y where "Y = V\<lparr>removed_request_awaiting_dismissal := Some r, detached_presenting_request_queue := None, queues := Q\<rparr>"
  let ?V1 = "V\<lparr>removed_request_awaiting_dismissal := Some r\<rparr>"
  let ?V2 = "?V1\<lparr>detached_presenting_request_queue := None\<rparr>"
  have "presented_request ?V2 \<noteq> Some x" if "front_request (queues ?V2 w) = Some x" for x
    using that t(2) [of w] front_in_requests_of [of V w x] pr by (auto simp: V_def update_queue_def)
  then have "OverlayRequestQueueWillReplaceDelegate E w ?V2 = Inr ?V2" by (rule will_replace_other)
  then have sd: "SetDelegate E w None ?V2 = Inr (?V2\<lparr>queues := (queues V)(w := (queues V w)\<lparr>queue_delegate := None\<rparr>)\<rparr>)"
    using del by (simp add: SetDelegate_def V_def update_queue_def)
  have V: "removed_request_awaiting_dismissal V = None" "presented_request V = Some r"
    "detached_presenting_request_queue V = detached_presenting_request_queue W"
    using none pr by (simp_all add: V_def update_queue_def)
  have "(if detached_presenting_request_queue ?V1 \<noteq> None then SetDelegate E w None ?V2 else Inr ?V1) = Inr Y"
  proof (cases reset)
    case True
    then show ?thesis using sd V by (simp add: Y_def Q_def reset_def)
  next
    case False
    then have "detached_presenting_request_queue V = None" using V by (simp add: reset_def)
    then show ?thesis using False by (simp add: Y_def Q_def)
  qed
  then have eq: "OverlayRequestRemoved E w r cancelled V =
      (if cancelled then CancelOverlayUIForRequest (Some r) Y else Inr Y)"
    using V by (simp add: OverlayRequestRemoved_def destroy_optional_def Let_def)
  have f: "requests Y = requests W" "presented_request Y = Some r" "removed_request_awaiting_dismissal Y = Some r"
    "presentation_context Y = presentation_context W" "context_request Y = context_request W"
    "ui_states Y = ui_states W" "presenting Y = presenting W" "context_observed Y = context_observed W"
    "detached_queue_replaced_delegate Y = detached_queue_replaced_delegate W"
    "detached_presenting_request_queue Y = None"
    "active_web_state Y = active_web_state W" "destroyed_web_states Y = destroyed_web_states W"
    "browser_tabs Y = browser_tabs W"
    using pr by (simp_all add: Y_def V_def update_queue_def)
  have ro: "requests_of Y = requests_of V" by (auto simp: requests_of_def Y_def Q_def fun_eq_iff)
  have o: "owner Y = owner W" "shown Y = shown W" by (rule owner_cong, rule f) (rule shown_cong, (rule f)+)
  have ob: "queue_observers (queues Y v) = queue_observers (queues W v)" for v
    by (simp add: Y_def Q_def V_def update_queue_def)
  have dl: "v \<in> T \<Longrightarrow> queue_delegate (queues Y v) = queue_delegate (queues W v)" for v
    using out by (auto simp: Y_def Q_def V_def update_queue_def)
  have "queues_ok Y"
  proof (rule queues_ok_taken [OF I(1)])
    show "requests_of Y = (requests_of W)(w := remove_at i (requests_of W w))" unfolding ro by (rule t(1))
    show "set (requests_of Y v) = set (requests_of W v) - {r}" for v unfolding ro by (rule t(2))
  qed (simp_all add: o f)
  moreover have "owned_ok Y" unfolding owned_ok_def ro o f(1-3)
    using I(2) t(2,3,4) none by (auto simp: owned_ok_def)
  moreover have "ctx_ok Y = ctx_ok W" by (rule ctx_ok_cong) (rule f)+
  moreover have "link_ok Y" using I(4) pr unfolding link_ok_def f by simp
  moreover have "tabs_ok T Y" using I(5) dl unfolding tabs_ok_def ob f by simp
  moreover have "handed_ok T Y" using I(6) t(2) unfolding handed_ok_def ro f by auto
  ultimately have "core_inv T Y" using I(3) unfolding core_inv_def by blast
  then show ?thesis using eq ro o f del by (intro exI [of _ Y]) (simp add: same_tabs_def)
qed


lemma remove_request_inv:
  assumes inv: "base_inv T W" and i: "i < queue_size (queues W w)"
  shows "\<exists>W'. RemoveRequest E w i True W = Inr W' \<and> base_inv T W' \<and> same_tabs W W' \<and>
    requests_of W' = (requests_of W)(w := remove_at i (requests_of W w))"
proof -
  note I = base_invD [OF inv]
  define r where "r = fst (request_storages (queues W w) ! i)"
  define V where "V = update_queue w (\<lambda>q. q\<lparr>request_storages := remove_at i (request_storages q)\<rparr>) W"
  note t = taken_out [OF inv i, folded r_def V_def]
  have dV: "queue_delegate (queues V w) = queue_delegate (queues W w)" by (simp add: V_def update_queue_def)
  have eq: "RemoveRequest E w i True W = (case queue_delegate (queues W w) of
      None \<Rightarrow> destroy_request r V
    | Some ThisPresenter \<Rightarrow> OverlayRequestRemoved E w r True V
    | Some (OtherParty n) \<Rightarrow> destroy_request r (log_overlay [RequestRemovedForOther n w r True] V))"
    using i unfolding RemoveRequest_def Let_def r_def [symmetric] V_def [symmetric] dV by simp
  show ?thesis
  proof (cases "presented_request W = Some r")
    case True
    obtain Y where Y: "OverlayRequestRemoved E w r True V = CancelOverlayUIForRequest (Some r) Y"
      "core_inv T Y" "requests_of Y = requests_of V" "owner Y = owner W" "shown Y = shown W" "same_tabs W Y"
      "presented_request Y = Some r" "presentation_context Y = presentation_context W"
      "context_request Y = context_request W" "queue_delegate (queues W w) = Some ThisPresenter"
      using kept_request [OF inv i, folded r_def V_def, OF True, of E True] by auto
    have on: "presentation_context Y" "context_request Y = Some r"
      using I(4) True Y(8,9) by (auto simp: link_ok_def)
    obtain X where X: "CancelOverlayUI r Y = Inr X" "redressed Y kCancellation X"
      using cancel_ui [OF core_invD(3) [OF Y(2)], of r] on by auto
    note eqs = only_uiD [OF conjunct1 [OF redressed_ui [OF X(2)]]]
    have "reason_ok X"
    proof (rule reason_ok_not_user [OF inv])
      show "presented_request X = presented_request W" using eqs(5) Y(7) True by simp
      show "owner X = owner W" using owner_cong [OF eqs(3)] Y(4) by simp
      fix x v d
      assume "presented_request W = Some x" and s: "shown X = Some (x, v, d)"
      obtain v0 d0 where "shown W = Some (r, v0, d0)" using ctx_ok_shown [OF I(3)] on(2) Y(9) by auto
      then show "(\<exists>d0. shown W = Some (x, v, d0)) \<and> d \<noteq> kUserInteraction"
        using X(2) Y(5) s by (auto simp: redressed_def)
    qed
    then have "base_inv T X"
      using only_ui_core [OF Y(2)] redressed_ui [OF X(2)] unfolding base_inv_def by blast
    moreover have "RemoveRequest E w i True W = Inr X"
      using eq Y(1,10) X(1) on(1) by (simp add: CancelOverlayUIForRequest_def)
    moreover have "same_tabs W X" using same_tabs_trans [OF Y(6) eqs(1)] .
    moreover have "requests_of X = (requests_of W)(w := remove_at i (requests_of W w))"
      using requests_of_cong [OF eqs(2)] Y(3) t(1) by simp
    ultimately show ?thesis by blast
  next
    case False
    have ctxV: "ctx_ok V" using I(3) ctx_ok_cong [of V W] by (simp add: V_def update_queue_def)
    have sV: "shown V = shown W" by (rule shown_cong) (simp_all add: V_def update_queue_def)
    have "\<exists>X l pp. only_ui V X \<and> ctx_ok X \<and> (context_request W \<noteq> Some r \<longrightarrow> shown X = shown W) \<and>
       RemoveRequest E w i True W = Inr (X\<lparr>overlay_log := l, previously_presented_requests := pp,
         requests := (requests X)(r := None)\<rparr>)"
    proof -
      obtain X where X: "only_ui V X" "ctx_ok X" "context_request W \<noteq> Some r \<longrightarrow> shown X = shown W"
          "RemoveRequest E w i True W = destroy_request r X"
      proof (cases "queue_delegate (queues W w)")
        case None
        then show thesis using that [of V] eq ctxV sV by simp
      next
        case (Some d)
        show thesis
        proof (cases d)
          case ThisPresenter
          obtain X where "CancelOverlayUIForRequest (Some r) V = Inr X" "only_ui V X" "ctx_ok X"
              "context_request V \<noteq> Some r \<longrightarrow> shown X = shown V"
            using cancel_any [OF ctxV] by blast
          then show thesis using that [of X] eq Some ThisPresenter False sV
            by (simp add: OverlayRequestRemoved_def V_def update_queue_def)
        next
          case (OtherParty n)
          let ?X = "log_overlay [RequestRemovedForOther n w r True] V"
          have "only_ui V ?X" unfolding only_ui_def log_overlay_def
            by (intro exI [of _ "ui_states V"]) auto
          moreover have "ctx_ok ?X" "shown ?X = shown V"
            using ctxV ctx_ok_cong [of ?X V] shown_cong [of ?X V] by simp_all
          ultimately show thesis using that [of ?X] eq Some OtherParty sV by simp
        qed
      qed
      have "requests X r \<noteq> None" using t(4) only_uiD(3) [OF X(1)] by (simp add: V_def update_queue_def)
      then show ?thesis using destroy_alive [of X r] X by metis
    qed
    then obtain X l pp where X: "only_ui V X" "ctx_ok X" "context_request W \<noteq> Some r \<longrightarrow> shown X = shown W"
      "RemoveRequest E w i True W = Inr (X\<lparr>overlay_log := l, previously_presented_requests := pp,
         requests := (requests X)(r := None)\<rparr>)" (is "_ = Inr ?W") by blast
    have "base_inv T ?W"
      by (rule drop_request_inv [OF inv i, folded r_def V_def, OF False X(1,2) _ refl]) (use X(3) in simp)
    moreover have "same_tabs W ?W" using only_uiD(1) [OF X(1)] by (simp add: same_tabs_def V_def update_queue_def)
    moreover have "requests_of ?W = requests_of V"
      by (rule requests_of_cong) (simp add: only_uiD(2) [OF X(1)])
    ultimately show ?thesis using X(4) t(1) by simp
  qed
qed

lemma tabs_ok_same:
  assumes "tabs_ok T W" "same_tabs W W'" "\<And>v. v \<in> T \<Longrightarrow> queue_delegate (queues W' v) = queue_delegate (queues W v)"
    "\<And>v. queue_observers (queues W' v) = queue_observers (queues W v)"
  shows "tabs_ok T W'"
  using assms unfolding tabs_ok_def same_tabs_def by simp

section \<open>Cancelling requests and destroying queues\<close>

lemma cancel_request_inv:
  assumes "base_inv T W"
  shows "\<exists>W'. CancelRequest E w r W = Inr W' \<and> base_inv T W' \<and> same_tabs W W'"
proof -
  let ?i = "find_index (\<lambda>s. fst s = r) (request_storages (queues W w))"
  show ?thesis
  proof (cases "?i = -1")
    case True
    then show ?thesis using assms by (simp add: CancelRequest_def)
  next
    case False
    then have "nat ?i < queue_size (queues W w)"
      using find_index_some(1,2) [OF False] by (simp add: queue_size_def)
    from remove_request_inv [OF assms this] show ?thesis using False
      unfolding CancelRequest_def Let_def by fastforce
  qed
qed

lemma queue_size_requests_of: "queue_size (queues W w) = length (requests_of W w)"
  by (simp add: queue_size_def requests_of_def)

lemma cancel_all_loop_inv:
  "base_inv T W \<Longrightarrow> queue_size (queues W w) \<le> fuel \<Longrightarrow>
    \<exists>W'. cancel_all_loop fuel E w W = Inr W' \<and> base_inv T W' \<and> same_tabs W W' \<and>
      requests_of W' = (requests_of W)(w := [])"
proof (induction fuel arbitrary: W)
  case 0
  then show ?case by (simp add: queue_size_requests_of fun_eq_iff)
next
  case (Suc fuel)
  show ?case
  proof (cases "queue_size (queues W w) = 0")
    case True
    then show ?thesis using Suc.prems by (simp add: queue_size_requests_of fun_eq_iff)
  next
    case False
    let ?i = "queue_size (queues W w) - 1"
    obtain V where V: "RemoveRequest E w ?i True W = Inr V" "base_inv T V" "same_tabs W V"
      "requests_of V = (requests_of W)(w := remove_at ?i (requests_of W w))"
      using remove_request_inv [OF Suc.prems(1), of ?i w E] False by auto
    have "queue_size (queues V w) \<le> fuel"
      using Suc.prems(2) V(4) False by (simp add: queue_size_requests_of length_remove_at)
    then obtain W' where "cancel_all_loop fuel E w V = Inr W'" "base_inv T W'" "same_tabs V W'"
      "requests_of W' = (requests_of V)(w := [])" using Suc.IH V(2) by blast
    then show ?thesis using V False same_tabs_trans by auto
  qed
qed

lemma CancelAllRequests_empties:
  assumes "base_inv T W"
  shows "\<exists>W'. CancelAllRequests E w W = Inr W' \<and> base_inv T W' \<and> same_tabs W W' \<and>
    requests_of W' = (requests_of W)(w := [])"
  using cancel_all_loop_inv [OF assms order_refl] by (simp add: CancelAllRequests_def)

lemma notify_destroyed_eq:
  "ThisPresenter \<notin> set ps \<Longrightarrow> \<exists>es. notify_queue_destroyed w ps W = log_overlay es W"
proof (induction ps arbitrary: W)
  case Nil
  have "W = log_overlay [] W" by (simp add: log_overlay_def)
  then show ?case by auto
next
  case (Cons p ps)
  then obtain n where n: "p = OtherParty n" by (cases p) auto
  from Cons obtain es where "notify_queue_destroyed w ps (log_overlay [QueueDestroyedForOther n w] W) =
      log_overlay es (log_overlay [QueueDestroyedForOther n w] W)" by auto
  then have "notify_queue_destroyed w (p # ps) W = log_overlay (QueueDestroyedForOther n w # es) W"
    by (simp add: n log_overlay_def)
  then show ?case by blast
qed

lemma destroy_queue_inv:
  assumes inv: "base_inv T W" and w: "w \<notin> T" "active_web_state W \<noteq> Some w"
  shows "\<exists>W'. destroy_queue E w W = Inr W' \<and> base_inv T W' \<and> browser_tabs W' = browser_tabs W \<and>
    active_web_state W' = active_web_state W"
proof -
  have "ThisPresenter \<notin> set (queue_observers (queues W w))"
    using base_invD(5) [OF inv] w(1) unfolding tabs_ok_def by (metis filter_this_empty)
  then obtain es where es: "notify_queue_destroyed w (queue_observers (queues W w)) W = log_overlay es W"
    using notify_destroyed_eq by blast
  have inv1: "base_inv T (log_overlay es W)" using inv base_inv_core [OF same_core_log] by blast
  obtain V where V: "CancelAllRequests E w (log_overlay es W) = Inr V" "base_inv T V" "same_tabs (log_overlay es W) V"
    "requests_of V = (requests_of (log_overlay es W))(w := [])"
    using CancelAllRequests_empties [OF inv1] by blast
  let ?W = "V\<lparr>destroyed_web_states := w # destroyed_web_states V\<rparr>"
  note I = base_invD [OF V(2)]
  have o: "owner ?W = owner V" "requests_of ?W = requests_of V" "shown ?W = shown V"
    by (rule owner_cong, simp) (rule requests_of_cong, simp, rule shown_cong, simp_all)
  have act: "active_web_state V = active_web_state W" "browser_tabs V = browser_tabs W"
    using V(3) by (simp_all add: same_tabs_def)
  have "queues_ok ?W" using I(1) V(4) unfolding queues_ok_def o by simp
  moreover have "owned_ok ?W" using I(2) unfolding owned_ok_def o by simp
  moreover have "link_ok ?W = link_ok V" by (simp add: link_ok_def)
  moreover have "ctx_ok ?W = ctx_ok V" by (rule ctx_ok_cong) simp_all
  moreover have "\<forall>v. active_web_state V = Some v \<longrightarrow> v \<notin> set (w # destroyed_web_states V)"
    using I(5) w act by (auto simp: tabs_ok_def)
  then have "tabs_ok T ?W" using I(5) w(1) unfolding tabs_ok_def by simp
  moreover have "handed_ok T ?W" using I(6) unfolding handed_ok_def o by simp
  moreover have "reason_ok ?W" using I(7) unfolding reason_ok_def o by simp
  ultimately have "base_inv T ?W" using I unfolding base_inv_def core_inv_def by blast
  then show ?thesis using V(1) es act by (simp add: destroy_queue_def)
qed

section \<open>A tab taken over by another window\<close>

lemma will_replace_inv:
  assumes inv: "base_inv T W" and w: "w \<notin> T"
    and front: "\<And>r. presented_request W = Some r \<Longrightarrow> r \<in> set (requests_of W w) \<Longrightarrow> front_request (queues W w) = Some r"
  shows "\<exists>V. OverlayRequestQueueWillReplaceDelegate E w W = Inr V \<and> base_inv T V \<and> same_tabs W V \<and>
    (\<forall>r. presented_request V = Some r \<longrightarrow> r \<notin> set (requests_of V w))"
proof (cases "\<exists>r. presented_request W = Some r \<and> r \<in> set (requests_of W w)")
  case False
  then have "OverlayRequestQueueWillReplaceDelegate E w W = Inr W"
    using front_in_requests_of by (intro will_replace_other) blast
  then show ?thesis using inv False by auto
next
  case True
  then obtain r where r: "presented_request W = Some r" "r \<in> set (requests_of W w)" by blast
  note I = base_invD [OF inv]
  have own: "owner W r = Some w" using I(1) r(2) by (auto simp: queues_ok_def)
  then have "requests W r \<noteq> None" by (auto simp: owner_def split: option.splits)
  then obtain es where es: "notify_presenter_observers E r (\<lambda>ob. DidHideOverlay ob r) W = Inr (log_overlay es W)"
    using notify_alive by blast
  let ?V = "(log_overlay es W)\<lparr>presented_request := None, detached_presenting_request_queue := None,
    detached_queue_replaced_delegate := True\<rparr>"
  have eq: "OverlayRequestQueueWillReplaceDelegate E w W = Inr ?V"
    using r(1) front [OF r] es by (simp add: OverlayRequestQueueWillReplaceDelegate_def)
  have "removed_request_awaiting_dismissal W \<noteq> Some x" for x using I(2) r by (auto simp: owned_ok_def)
  then have norem: "removed_request_awaiting_dismissal W = None"
    by (cases "removed_request_awaiting_dismissal W") auto
  have link: "context_request W = Some r" "presenting W" "presentation_context W" "context_observed W"
    using I(4) r(1) by (auto simp: link_ok_def)
  have o: "owner ?V = owner W" "requests_of ?V = requests_of W"
    by (rule owner_cong, simp) (rule requests_of_cong, simp)
  have "queues_ok ?V" using I(1) unfolding queues_ok_def o by simp
  moreover have "owned_ok ?V" using I(2) unfolding owned_ok_def o by (simp add: norem)
  moreover have "ctx_ok ?V = ctx_ok W" by (rule ctx_ok_cong) simp_all
  moreover have "link_ok ?V" using link by (simp add: link_ok_def)
  moreover have "tabs_ok T ?V" using I(5) unfolding tabs_ok_def by simp
  moreover have "handed_ok T ?V"
    using link(1) own w I(1) unfolding handed_ok_def o queues_ok_def by auto
  moreover have "reason_ok ?V" by (simp add: reason_ok_def)
  ultimately have "base_inv T ?V" using I(3) unfolding base_inv_def core_inv_def by blast
  then show ?thesis using eq by (auto simp: same_tabs_def)
qed

lemma handed_over_inv:
  assumes inv: "base_inv T W" and w: "w \<notin> T" "w \<notin> set (destroyed_web_states W)" and d: "d \<noteq> Some ThisPresenter"
    and front: "\<And>r. presented_request W = Some r \<Longrightarrow> r \<in> set (requests_of W w) \<Longrightarrow> front_request (queues W w) = Some r"
  shows "\<exists>W'. SetDelegate E w d W = Inr W' \<and> base_inv T W' \<and> same_tabs W W'"
proof (cases "queue_delegate (queues W w) = d")
  case True
  then show ?thesis using inv by (simp add: SetDelegate_def)
next
  case False
  note I = base_invD [OF inv]
  have step: "base_inv T (update_queue w (\<lambda>q. q\<lparr>queue_delegate := d\<rparr>) V)"
    if V: "base_inv T V" "\<And>r. presented_request V = Some r \<Longrightarrow> r \<notin> set (requests_of V w)" for V
  proof -
    let ?V = "update_queue w (\<lambda>q. q\<lparr>queue_delegate := d\<rparr>) V"
    let ?Q = "(queues V)(w := (queues V w)\<lparr>queue_delegate := d\<rparr>)"
    have r: "requests_of ?V v = requests_of V v" for v by (simp add: requests_of_def update_queue_def)
    have o: "owner ?V = owner V" "shown ?V = shown V"
      by (rule owner_cong, simp add: update_queue_def) (rule shown_cong, simp_all add: update_queue_def)
    note J = base_invD [OF V(1)]
    have eq: "?V = V\<lparr>queues := ?Q, overlay_log := overlay_log V\<rparr>" by (simp add: update_queue_def)
    have "tabs_ok T ?V"
      by (rule tabs_ok_same [OF J(5)]) (use w(1) in \<open>auto simp: same_tabs_def update_queue_def\<close>)
    moreover have "handed_ok T ?V" using J(6) unfolding handed_ok_def r o by (simp add: update_queue_def)
    moreover have "queue_delegate (?Q v) = Some ThisPresenter"
      if "presented_request V = Some x" "x \<in> set (requests_of V v)" "queue_delegate (queues V v) = Some ThisPresenter" for x v
      using that V(2) by auto
    ultimately have "core_inv T ?V"
      using V(1) by (intro core_inv_queues [of T V ?V "overlay_log V" ?Q T, OF _ r eq])
        (simp_all only: base_inv_def)
    moreover have "front_request (queues ?V v) = front_request (queues V v)" for v
      by (simp add: update_queue_def front_request_def)
    then have "reason_ok ?V" using J(7) unfolding reason_ok_def o by (simp add: update_queue_def)
    ultimately show ?thesis by (simp add: base_inv_def)
  qed
  have upd: "same_tabs W (update_queue w (\<lambda>q. q\<lparr>queue_delegate := d\<rparr>) V)" if "same_tabs W V" for V
    using that by (simp add: same_tabs_def update_queue_def)
  have notin: "r \<notin> set (requests_of W w)"
    if pr: "presented_request W = Some r" and nd: "queue_delegate (queues W w) \<noteq> Some ThisPresenter" for r
  proof
    assume r: "r \<in> set (requests_of W w)"
    have "owner W r = Some w" using r I(1) by (simp add: queues_ok_def)
    moreover have "removed_request_awaiting_dismissal W \<noteq> Some r"
      using r I(2) unfolding owned_ok_def by blast
    moreover obtain v where "owner W r = Some v"
        "removed_request_awaiting_dismissal W = Some r \<or> queue_delegate (queues W v) = Some ThisPresenter"
      using I(2) pr unfolding owned_ok_def by blast
    ultimately show False using nd by simp
  qed
  have "\<exists>V. SetDelegate E w d W = Inr (update_queue w (\<lambda>q. q\<lparr>queue_delegate := d\<rparr>) V) \<and> base_inv T V \<and>
      same_tabs W V \<and> (\<forall>r. presented_request V = Some r \<longrightarrow> r \<notin> set (requests_of V w))"
  proof (cases "queue_delegate (queues W w)")
    case None
    then show ?thesis using False inv notin by (intro exI [of _ W]) (simp add: SetDelegate_def)
  next
    case (Some p)
    show ?thesis
    proof (cases p)
      case (OtherParty n)
      let ?V = "log_overlay [WillReplaceOther n w] W"
      have "base_inv T ?V" using inv base_inv_core [OF same_core_log] by blast
      moreover have "requests_of ?V = requests_of W" by (rule requests_of_cong) simp
      ultimately show ?thesis using False Some OtherParty notin
        by (intro exI [of _ ?V]) (simp add: SetDelegate_def same_tabs_def)
    next
      case ThisPresenter
      obtain V where "OverlayRequestQueueWillReplaceDelegate E w W = Inr V" "base_inv T V" "same_tabs W V"
          "\<forall>r. presented_request V = Some r \<longrightarrow> r \<notin> set (requests_of V w)"
        using will_replace_inv [OF inv w(1) front] by blast
      then show ?thesis using False Some ThisPresenter
        by (intro exI [of _ V]) (simp add: SetDelegate_def)
    qed
  qed
  then show ?thesis using step upd by blast
qed

section \<open>Adding a request\<close>

text \<open>The world with the new request in its queue, before the observers of the queue are told.\<close>

definition with_request :: "web_state_id \<Rightarrow> nat \<Rightarrow> request \<Rightarrow> cancel_handler \<Rightarrow> completion_callback list \<Rightarrow>
    overlay_world \<Rightarrow> overlay_world" where
  "with_request w i r h cbs W = update_queue w
     (\<lambda>q. q\<lparr>request_storages := insert_at i (r, h) (request_storages q)\<rparr>)
     (W\<lparr>requests := (requests W)(r \<mapsto> \<lparr>queue_web_state = Some w, completion_callbacks = cbs\<rparr>)\<rparr>)"

lemma with_request_core:
  assumes core: "core_inv T W" and i: "i \<le> queue_size (queues W w)" and w: "w \<notin> set (destroyed_web_states W)"
    and fresh: "requests W r = None" and nc: "context_request W \<noteq> Some r"
  shows "core_inv T (with_request w i r h cbs W)" (is "core_inv T ?V")
    and "set (requests_of (with_request w i r h cbs W) v) = (if v = w then insert r (set (requests_of W v)) else set (requests_of W v))"
    and "x \<noteq> r \<Longrightarrow> owner (with_request w i r h cbs W) x = owner W x"
    and "shown (with_request w i r h cbs W) = shown W"
proof -
  note I = core_invD [OF core]
  have ro: "requests_of ?V = (requests_of W)(w := insert_at i r (requests_of W w))"
    by (auto simp: requests_of_def with_request_def update_queue_def fun_eq_iff map_insert_at)
  have li: "i \<le> length (requests_of W w)" using i by (simp add: requests_of_def queue_size_def)
  show s: "set (requests_of ?V v) = (if v = w then insert r (set (requests_of W v)) else set (requests_of W v))" for v
    using li unfolding ro by (simp add: set_insert_at)
  show ow: "x \<noteq> r \<Longrightarrow> owner ?V x = owner W x" for x
    by (simp add: owner_def with_request_def update_queue_def)
  show "shown ?V = shown W" by (rule shown_cong) (simp_all add: with_request_def update_queue_def)
  have own: "owner ?V r = Some w" by (simp add: owner_def with_request_def update_queue_def)
  have no: "owner W r = None" using fresh by (simp add: owner_def)
  then have nowhere: "r \<notin> set (requests_of W v)" for v using I(1) by (auto simp: queues_ok_def)
  have f: "presented_request ?V = presented_request W" "context_request ?V = context_request W"
    "removed_request_awaiting_dismissal ?V = removed_request_awaiting_dismissal W"
    "presentation_context ?V = presentation_context W" "presenting ?V = presenting W"
    "detached_queue_replaced_delegate ?V = detached_queue_replaced_delegate W"
    "detached_presenting_request_queue ?V = detached_presenting_request_queue W"
    "context_observed ?V = context_observed W" "destroyed_web_states ?V = destroyed_web_states W"
    "same_tabs W ?V" "\<And>x. requests ?V x \<noteq> None \<longleftrightarrow> x = r \<or> requests W x \<noteq> None"
    by (simp_all add: with_request_def update_queue_def same_tabs_def)
  have d: "queue_delegate (queues ?V v) = queue_delegate (queues W v)"
    "queue_observers (queues ?V v) = queue_observers (queues W v)" for v
    by (simp_all add: with_request_def update_queue_def)
  have nr: "presented_request W \<noteq> Some r" "removed_request_awaiting_dismissal W \<noteq> Some r"
    using I(2) fresh no by (auto simp: owned_ok_def)
  have "queues_ok ?V" unfolding queues_ok_def f(9)
  proof (intro conjI allI impI ballI)
    show "distinct (requests_of ?V v)" for v
      using I(1) nowhere li unfolding ro queues_ok_def by (simp add: distinct_insert_at)
    show "owner ?V x = Some v" if "x \<in> set (requests_of ?V v)" for v x
      using that s own ow nowhere I(1) by (cases "x = r") (auto simp: queues_ok_def split: if_splits)
    show "requests_of ?V v = []" if "v \<in> set (destroyed_web_states W)" for v
      using that I(1) w unfolding ro queues_ok_def by auto
  qed
  moreover have "owned_ok ?V" unfolding owned_ok_def f d
  proof (intro conjI allI impI)
    fix x
    assume x: "removed_request_awaiting_dismissal W = Some x"
    then show "presented_request W = Some x" "x = r \<or> requests W x \<noteq> None" "\<And>v. x \<notin> set (requests_of ?V v)"
      using I(2) s nr(2) by (auto simp: owned_ok_def)
  next
    fix x
    assume x: "presented_request W = Some x"
    then have "x \<noteq> r" using nr by auto
    obtain v where "owner W x = Some v" "removed_request_awaiting_dismissal W = Some x \<or>
        x \<in> set (requests_of W v) \<and> queue_delegate (queues W v) = Some ThisPresenter"
      using I(2) x unfolding owned_ok_def by blast
    then show "\<exists>v. owner ?V x = Some v \<and> (removed_request_awaiting_dismissal W = Some x \<or>
        x \<in> set (requests_of ?V v) \<and> queue_delegate (queues W v) = Some ThisPresenter)"
      using s ow [OF \<open>x \<noteq> r\<close>] by auto
  next
    fix x
    assume "x = r \<or> requests W x \<noteq> None"
    then show "removed_request_awaiting_dismissal W = Some x \<or> (\<exists>v. x \<in> set (requests_of ?V v))"
    proof
      assume "requests W x \<noteq> None"
      then have "removed_request_awaiting_dismissal W = Some x \<or> (\<exists>v. x \<in> set (requests_of W v))"
        using I(2) unfolding owned_ok_def by blast
      moreover have "set (requests_of W v) \<subseteq> set (requests_of ?V v)" for v using s by auto
      ultimately show ?thesis by blast
    next
      assume "x = r"
      then have "x \<in> set (requests_of ?V w)" using s [of w] by simp
      then show ?thesis by blast
    qed
  qed
  moreover have "ctx_ok ?V = ctx_ok W" by (rule ctx_ok_cong) (simp_all add: with_request_def update_queue_def)
  moreover have "link_ok ?V = link_ok W" by (simp add: link_ok_def f)
  moreover have "tabs_ok T ?V" by (rule tabs_ok_same [OF I(5) f(10)]) (simp_all add: d)
  moreover have "handed_ok T ?V" unfolding handed_ok_def f
  proof (intro conjI allI impI)
    show "p \<notin> set (requests_of ?V v)"
      if "detached_queue_replaced_delegate W \<and> context_request W = Some p \<and> v \<in> T" for p v
      using that I(6) s nc by (auto simp: handed_ok_def)
    fix v
    assume "detached_presenting_request_queue W = Some v"
    then obtain x where "v \<notin> T" "presented_request W = Some x" "owner W x = Some v"
      using I(6) by (auto simp: handed_ok_def)
    then show "v \<notin> T" "\<exists>x. presented_request W = Some x \<and> owner ?V x = Some v" using ow nr by auto
  qed
  ultimately show "core_inv T ?V" using I unfolding core_inv_def by blast
qed

lemma notify_added_others:
  "filter (\<lambda>p. p = ThisPresenter) ps = [] \<Longrightarrow> \<exists>es. notify_request_added E w r i ps W = Inr (log_overlay es W)"
proof (induction ps arbitrary: W)
  case Nil
  have "W = log_overlay [] W" by (simp add: log_overlay_def)
  then show ?case by auto
next
  case (Cons p ps)
  then obtain n where n: "p = OtherParty n" by (cases p) auto
  from Cons obtain es where "notify_request_added E w r i ps (log_overlay [RequestAddedForOther n w r i] W) =
      Inr (log_overlay es (log_overlay [RequestAddedForOther n w r i] W))" by (auto split: if_splits)
  then have "notify_request_added E w r i (p # ps) W = Inr (log_overlay (RequestAddedForOther n w r i # es) W)"
    by (simp add: n log_overlay_def)
  then show ?case by blast
qed

lemma notify_added_once:
  "filter (\<lambda>p. p = ThisPresenter) ps = [ThisPresenter] \<Longrightarrow>
    \<exists>es. notify_request_added E w r i ps W = rbind (RequestAddedToQueue E w r (log_overlay es W))
      (\<lambda>V. notify_request_added E w r i (tl (dropWhile (\<lambda>p. p \<noteq> ThisPresenter) ps)) V) \<and>
    filter (\<lambda>p. p = ThisPresenter) (tl (dropWhile (\<lambda>p. p \<noteq> ThisPresenter) ps)) = []"
proof (induction ps arbitrary: W)
  case (Cons p ps)
  show ?case
  proof (cases p)
    case ThisPresenter
    moreover have "W = log_overlay [] W" by (simp add: log_overlay_def)
    ultimately show ?thesis using Cons.prems by (intro exI [of _ "[]"]) simp
  next
    case (OtherParty n)
    then have "filter (\<lambda>p. p = ThisPresenter) ps = [ThisPresenter]" using Cons.prems by simp
    from Cons.IH [OF this, of "log_overlay [RequestAddedForOther n w r i] W"] obtain es where
      "notify_request_added E w r i ps (log_overlay [RequestAddedForOther n w r i] W) =
        rbind (RequestAddedToQueue E w r (log_overlay es (log_overlay [RequestAddedForOther n w r i] W)))
         (\<lambda>V. notify_request_added E w r i (tl (dropWhile (\<lambda>p. p \<noteq> ThisPresenter) ps)) V)"
      "filter (\<lambda>p. p = ThisPresenter) (tl (dropWhile (\<lambda>p. p \<noteq> ThisPresenter) ps)) = []" by blast
    moreover have "log_overlay es (log_overlay [e] W) = log_overlay (e # es) W" for e
      by (simp add: log_overlay_def)
    ultimately show ?thesis using OtherParty
      by (intro exI [of _ "RequestAddedForOther n w r i # es"]) simp
  qed
qed simp


lemma front_insert_at:
  assumes "front_request q = Some p" "i \<le> queue_size q"
  shows "front_request (q\<lparr>request_storages := insert_at i (r, h) (request_storages q)\<rparr>) =
    Some (if i = 0 then r else p)"
  using assms by (cases "request_storages q"; cases i)
    (auto simp: front_request_def insert_at_def queue_size_def)

text \<open>
  If the new request does not come to the front of the active queue, what is on screen is still for the
  user; if it does and the UI was for the user, that UI belongs to the second request.
\<close>

lemma with_request_front:
  assumes inv: "base_inv T W" and i: "i \<le> queue_size (queues W w)" and fresh: "requests W r = None"
    and p: "presented_request W = Some p" "shown W = Some (p, v, kUserInteraction)"
  shows "front_request (queues (with_request w i r h cbs W) v) = Some p \<or>
    v = w \<and> i = 0 \<and> queue_size (queues (with_request w i r h cbs W) w) > 1 \<and>
    GetRequest 1 (queues (with_request w i r h cbs W) w) = Inr p"
proof -
  have f: "front_request (queues W v) = Some p" using base_invD(7) [OF inv] p by (auto simp: reason_ok_def)
  show ?thesis
  proof (cases "v = w \<and> i = 0")
    case False
    then show ?thesis using f front_insert_at [of "queues W w" p i r h] i
      by (cases "v = w") (auto simp: with_request_def update_queue_def)
  next
    case True
    then obtain s ss where "request_storages (queues W w) = s # ss" "fst s = p"
      using f by (auto simp: front_request_def split: list.splits)
    then show ?thesis using True
      by (simp add: with_request_def update_queue_def insert_at_def queue_size_def GetRequest_def)
  qed
qed

lemma request_added_inv:
  assumes inv: "base_inv T W" and i: "i \<le> queue_size (queues W w)" and w: "w \<in> T"
    and act: "\<And>v. active_web_state W = Some v \<Longrightarrow> v \<in> T"
    and fresh: "requests W r = None" "context_request W \<noteq> Some r"
    and V: "V = log_overlay es (with_request w i r h cbs W)"
  shows "\<exists>W'. RequestAddedToQueue E w r V = Inr W' \<and> base_inv T W' \<and> same_tabs W W'"
proof -
  note I = base_invD [OF inv]
  have alive: "w \<notin> set (destroyed_web_states W)" using I(5) w by (auto simp: tabs_ok_def)
  let ?X = "with_request w i r h cbs W"
  have cW: "core_inv T W" using inv by (simp add: base_inv_def)
  note wr = with_request_core [OF cW i alive fresh, where h = h and cbs = cbs]
  have core: "core_inv T V"
  proof -
    have "same_core ?X V" by (simp add: V same_core_log)
    then have "core_inv T V = core_inv T ?X"
      using shown_cong [of V ?X] requests_of_cong [of V ?X] owner_cong [of V ?X]
      unfolding core_inv_def inv_defs ctx_idle_def ctx_busy_def same_core_def by simp
    then show ?thesis using wr(1) by simp
  qed
  note J = core_invD [OF core]
  have s: "shown V = shown W" using shown_cong [of V ?X] wr(4) by (simp add: V)
  have ow: "x \<noteq> r \<Longrightarrow> owner V x = owner W x" for x using owner_cong [of V ?X] wr(3) by (simp add: V)
  have f: "presented_request V = presented_request W" "context_request V = context_request W"
    "presenting V = presenting W" "active_web_state V = active_web_state W" "queues V = queues ?X"
    "same_tabs W V"
    by (simp_all add: V with_request_def update_queue_def same_tabs_def)
  have nr: "presented_request W \<noteq> Some r" using I(4) fresh(2) by (auto simp: link_ok_def)
  have own: "presented_request W = Some p \<Longrightarrow> shown W = Some (p, v, d) \<Longrightarrow> owner V p = Some v" for p v d
    using I(7) ow nr unfolding reason_ok_def by metis
  have actV: "GetActiveRequest V = Inr (case active_web_state W of None \<Rightarrow> None
      | Some v \<Rightarrow> front_request (queues V v))" using active_request [OF J(5)] f(4) by simp
  show ?thesis
  proof (cases "GetActiveRequest V = Inr (Some r)")
    case False
    have "reason_ok V" unfolding reason_ok_def f(1,4) s
    proof (intro allI impI)
      fix p v d
      assume "presented_request W = Some p \<and> shown W = Some (p, v, d)"
      then have p: "presented_request W = Some p" "shown W = Some (p, v, d)" by auto
      have "active_web_state W = Some v \<and> front_request (queues V v) = Some p" if "d = kUserInteraction"
      proof -
        have a: "active_web_state W = Some v" "front_request (queues W v) = Some p"
          using I(7) p that by (auto simp: reason_ok_def)
        have "front_request (queues V v) = Some p \<or> v = w \<and> i = 0"
          using with_request_front [OF inv i fresh(1) p(1)] p(2) that f(5) by auto
        moreover have "front_request (queues V v) = Some r" if "v = w \<and> i = 0"
          using that front_insert_at [OF a(2), of i r h] f(5) by (simp add: with_request_def update_queue_def)
        ultimately show ?thesis using a False actV by auto
      qed
      then show "owner V p = Some v \<and> (d = kUserInteraction \<longrightarrow>
          active_web_state W = Some v \<and> front_request (queues V v) = Some p)" using own [OF p] by blast
    qed
    then have "base_inv T V" using core by (simp add: base_inv_def)
    then show ?thesis using False actV f(6) by (auto simp: RequestAddedToQueue_def)
  next
    case True
    show ?thesis
    proof (cases "presented_request W")
      case None
      then have "base_inv T V" using core f(1) by (simp add: base_inv_def reason_ok_def)
      show ?thesis
      proof (cases "presenting W")
        case False
        then obtain W' where "PresentOverlayForActiveRequest E V = Inr W'" "base_inv T W'" "same_tabs V W'"
          using present_inv [OF \<open>base_inv T V\<close>] f(3,4) act by metis
        then show ?thesis using True False f(3,6) same_tabs_trans by (auto simp: RequestAddedToQueue_def)
      next
        case True
        then show ?thesis using \<open>GetActiveRequest V = Inr (Some r)\<close> None f \<open>base_inv T V\<close>
          by (auto simp: RequestAddedToQueue_def)
      qed
    next
      case (Some p)
      have on: "context_request W = Some p" "presenting W" using I(4) Some by (auto simp: link_ok_def)
      obtain v d where vd: "shown W = Some (p, v, d)" using ctx_ok_shown [OF I(3) on(1)] .
      show ?thesis
      proof (cases "queue_size (queues V w) > 1 \<and> GetRequest 1 (queues V w) = Inr p")
        case second: True
        obtain X where X: "HideOverlayUI p V = Inr X" "redressed V kHiding X"
          using hide_shown [OF J(3)] on(1) f(2) by auto
        note eqs = only_uiD [OF conjunct1 [OF redressed_ui [OF X(2)]]]
        have "reason_ok X" unfolding reason_ok_def
        proof (intro allI impI)
          fix q u e
          assume "presented_request X = Some q \<and> shown X = Some (q, u, e)"
          then have "q = p" "u = v" "e = kHiding"
            using Some eqs(5) f(1) X(2) vd s by (auto simp: redressed_def)
          moreover have "owner X = owner V" by (rule owner_cong) (rule eqs)
          ultimately show "owner X q = Some u \<and> (e = kUserInteraction \<longrightarrow>
              active_web_state X = Some u \<and> front_request (queues X u) = Some q)"
            using own [OF Some vd] by simp
        qed
        then have "base_inv T X" using only_ui_core [OF core] redressed_ui [OF X(2)] by (simp add: base_inv_def)
        moreover have "RequestAddedToQueue E w r V = Inr X"
          using True on(2) Some f(1,3) second X(1) by (simp add: RequestAddedToQueue_def)
        ultimately show ?thesis using same_tabs_trans [OF f(6) eqs(1)] by blast
      next
        case second: False
        have "RequestAddedToQueue E w r V = Inr V"
        proof (cases "queue_size (queues V w) > 1")
          case big: True
          then obtain q where "GetRequest 1 (queues V w) = Inr q" by (simp add: GetRequest_def)
          then show ?thesis using True on(2) Some f(1,3) second big by (simp add: RequestAddedToQueue_def)
        next
          case small: False
          then show ?thesis using True on(2) Some f(1,3) by (simp add: RequestAddedToQueue_def)
        qed
        moreover have "d \<noteq> kUserInteraction"
        proof
          assume "d = kUserInteraction"
          then have a: "active_web_state W = Some v" "front_request (queues V v) = Some p"
            using I(7) Some vd with_request_front [OF inv i fresh(1) Some] second f(5)
            unfolding reason_ok_def by fastforce+
          then have "p = r" using True actV by simp
          then show False using nr Some by simp
        qed
        then have "reason_ok V" unfolding reason_ok_def f(1) s using Some vd own by auto
        ultimately show ?thesis using core f(6) by (auto simp: base_inv_def)
      qed
    qed
  qed
qed

lemma add_request_inv:
  assumes inv: "base_inv T W" and i: "i \<le> queue_size (queues W w)" and w: "w \<notin> set (destroyed_web_states W)"
    and act: "\<And>v. active_web_state W = Some v \<Longrightarrow> v \<in> T"
    and fresh: "requests W r = None" "context_request W \<noteq> Some r"
  shows "\<exists>W'. overlay_exec E (ClientAddsRequest w i r cbs h) W = Inr W' \<and> base_inv T W' \<and> same_tabs W W'"
proof -
  note I = base_invD [OF inv]
  define handler where "handler = (case h of None \<Rightarrow> DefaultCancelHandler w | Some h \<Rightarrow> h)"
  let ?X = "with_request w i r handler cbs W"
  let ?ps = "queue_observers (queues W w)"
  have "overlay_exec E (ClientAddsRequest w i r cbs h) W = notify_request_added E w r i ?ps ?X"
    using i by (simp add: InsertRequest_def handler_def Let_def deref_request_def with_request_def update_queue_def
        fun_upd_idem_iff)
  moreover have "\<exists>W'. notify_request_added E w r i ?ps ?X = Inr W' \<and> base_inv T W' \<and> same_tabs W W'"
  proof (cases "w \<in> T")
    case True
    then have "filter (\<lambda>p. p = ThisPresenter) ?ps = [ThisPresenter]" using I(5) by (simp add: tabs_ok_def)
    from notify_added_once [OF this, of E w r i ?X] obtain es ps' where
      es: "notify_request_added E w r i ?ps ?X = rbind (RequestAddedToQueue E w r (log_overlay es ?X))
        (\<lambda>V. notify_request_added E w r i ps' V)" "filter (\<lambda>p. p = ThisPresenter) ps' = []" by blast
    obtain V where V: "RequestAddedToQueue E w r (log_overlay es ?X) = Inr V" "base_inv T V" "same_tabs W V"
      using request_added_inv [OF inv i True act fresh refl] by metis
    obtain fs where "notify_request_added E w r i ps' V = Inr (log_overlay fs V)"
      using notify_added_others [OF es(2)] by blast
    then show ?thesis using es(1) V base_inv_core [OF same_core_log] by (auto simp: same_tabs_def)
  next
    case False
    then have "filter (\<lambda>p. p = ThisPresenter) ?ps = []" using I(5) by (simp add: tabs_ok_def)
    then obtain es where es: "notify_request_added E w r i ?ps ?X = Inr (log_overlay es ?X)"
      using notify_added_others by blast
    have cW: "core_inv T W" using inv by (simp add: base_inv_def)
    note wr = with_request_core [OF cW i w fresh, where h = handler and cbs = cbs]
    have nr: "presented_request W \<noteq> Some r" using I(4) fresh(2) by (auto simp: link_ok_def)
    have "front_request (queues ?X v) = front_request (queues W v)" if "active_web_state W = Some v" for v
      using that act False by (auto simp: with_request_def update_queue_def)
    then have "reason_ok ?X" using I(7) nr wr(3) unfolding reason_ok_def wr(4)
      by (auto simp: with_request_def update_queue_def)
    then have "base_inv T ?X" using wr(1) by (simp add: base_inv_def)
    then have "base_inv T (log_overlay es ?X)" using base_inv_core [OF same_core_log] by blast
    then show ?thesis using es by (auto simp: same_tabs_def with_request_def update_queue_def)
  qed
  ultimately show ?thesis by simp
qed

end
