(* ===== verification/Event_System.thy ===== *)
theory Event_System
  imports Prelude
begin

text \<open>
  Several components are driven by events: a state, a partial function that handles an event, and
  a condition on what the environment may do.  This theory has what they share: sequences of
  events, the states they lead to, and the locales \<open>event_invariant\<close> and \<open>event_system\<close>, the
  contracts of a component with an invariant.  Each component interprets one of them with its own
  definitions.
\<close>

fun run_events :: "('e \<Rightarrow> 's \<Rightarrow> 's res) \<Rightarrow> 'e list \<Rightarrow> 's \<Rightarrow> 's res" where
  "run_events exec [] s = Inr s"
| "run_events exec (e # es) s = rbind (exec e s) (run_events exec es)"

fun allowed_events :: "('e \<Rightarrow> 's \<Rightarrow> bool) \<Rightarrow> ('e \<Rightarrow> 's \<Rightarrow> 's res) \<Rightarrow> 'e list \<Rightarrow> 's \<Rightarrow> bool" where
  "allowed_events pre exec [] s \<longleftrightarrow> True"
| "allowed_events pre exec (e # es) s \<longleftrightarrow> pre e s \<and>
     (case exec e s of Inl _ \<Rightarrow> False | Inr s' \<Rightarrow> allowed_events pre exec es s')"

inductive reachable_from :: "('s \<Rightarrow> bool) \<Rightarrow> ('e \<Rightarrow> 's \<Rightarrow> bool) \<Rightarrow> ('e \<Rightarrow> 's \<Rightarrow> 's res) \<Rightarrow> 's \<Rightarrow> bool"
    for init pre exec where
  start: "init s \<Longrightarrow> reachable_from init pre exec s"
| step: "reachable_from init pre exec s \<Longrightarrow> pre e s \<Longrightarrow> exec e s = Inr s' \<Longrightarrow> reachable_from init pre exec s'"

inductive_cases reachable_fromE: "reachable_from init pre exec s"

lemma run_events_append:
  "run_events exec (es @ fs) s = rbind (run_events exec es s) (run_events exec fs)"
proof (induction es arbitrary: s)
  case (Cons e es)
  then show ?case by (cases "exec e s") simp_all
qed simp

lemma allowed_events_append:
  "allowed_events pre exec (es @ fs) s \<longleftrightarrow> allowed_events pre exec es s \<and>
     (case run_events exec es s of Inl _ \<Rightarrow> True | Inr s' \<Rightarrow> allowed_events pre exec fs s')"
proof (induction es arbitrary: s)
  case (Cons e es)
  then show ?case by (cases "exec e s") simp_all
qed simp

text \<open>Allowed events are handled and lead from reachable to reachable states.\<close>

lemma allowed_events_reachable:
  "allowed_events pre exec es s \<Longrightarrow> reachable_from init pre exec s \<Longrightarrow>
     \<exists>s'. run_events exec es s = Inr s' \<and> reachable_from init pre exec s'"
proof (induction es arbitrary: s)
  case (Cons e es)
  then show ?case by (cases "exec e s") (auto intro: reachable_from.step)
qed simp

corollary run_events_reachable:
  "allowed_events pre exec es s \<Longrightarrow> reachable_from init pre exec s \<Longrightarrow>
     reachable_from init pre exec (projr (run_events exec es s))"
  using allowed_events_reachable [of pre exec es s init] by auto

text \<open>
  The contract of a component with an invariant, for operations that may fail: what they return
  satisfies the invariant again.
\<close>

locale event_invariant =
  fixes init :: "'s \<Rightarrow> bool" and pre :: "'e \<Rightarrow> 's \<Rightarrow> bool" and exec :: "'e \<Rightarrow> 's \<Rightarrow> 's res" and inv :: "'s \<Rightarrow> bool"
  assumes init_inv: "init s \<Longrightarrow> inv s"
    and exec_keeps: "inv s \<Longrightarrow> pre e s \<Longrightarrow> exec e s = Inr s' \<Longrightarrow> inv s'"
begin

lemma reachable_inv: "reachable_from init pre exec s \<Longrightarrow> inv s"
  by (induction rule: reachable_from.induct) (blast intro: init_inv exec_keeps)+

lemma allowed_events_inv: "allowed_events pre exec es s \<Longrightarrow> inv s \<Longrightarrow> \<exists>s'. run_events exec es s = Inr s' \<and> inv s'"
proof (induction es arbitrary: s)
  case (Cons e es)
  then obtain t where "exec e s = Inr t" "inv t" using exec_keeps by (auto split: sum.splits)
  then show ?case using Cons by auto
qed simp

end

text \<open>In an event system the operations return as well.\<close>

locale event_system =
  fixes init :: "'s \<Rightarrow> bool" and pre :: "'e \<Rightarrow> 's \<Rightarrow> bool" and exec :: "'e \<Rightarrow> 's \<Rightarrow> 's res" and inv :: "'s \<Rightarrow> bool"
  assumes start_inv: "init s \<Longrightarrow> inv s"
    and exec_inv: "inv s \<Longrightarrow> pre e s \<Longrightarrow> \<exists>s'. exec e s = Inr s' \<and> inv s'"

sublocale event_system \<subseteq> event_invariant init pre exec inv
  using start_inv exec_inv by unfold_locales fastforce+

context event_system begin

lemma exec_safe:
  assumes "reachable_from init pre exec s" "pre e s"
  obtains s' where "exec e s = Inr s'" "reachable_from init pre exec s'" "inv s'"
proof -
  obtain s' where "exec e s = Inr s'" "inv s'" using exec_inv [OF reachable_inv [OF assms(1)] assms(2)] by blast
  then show ?thesis using that reachable_from.step [OF assms] by blast
qed

end

text \<open>
  A component built on another one: every event \<open>x\<close> of the system made of both that returns is, for the
  part \<open>part\<close> of its state, a sequence of events of that part.  Then reachable states have reachable
  parts, so what holds of the part alone holds of it in the system.
\<close>

locale event_simulation = abstract: event_invariant init pre exec inv
  for init :: "'s \<Rightarrow> bool" and pre :: "'e \<Rightarrow> 's \<Rightarrow> bool" and exec :: "'e \<Rightarrow> 's \<Rightarrow> 's res" and inv :: "'s \<Rightarrow> bool" +
  fixes cinit :: "'c \<Rightarrow> bool" and cpre :: "'x \<Rightarrow> 'c \<Rightarrow> bool" and cexec :: "'x \<Rightarrow> 'c \<Rightarrow> 'c res"
    and part :: "'c \<Rightarrow> 's" and link :: "'c \<Rightarrow> bool"
  assumes cinit_link: "cinit c \<Longrightarrow> init (part c) \<and> link c"
    and cexec_simulates: "link c \<Longrightarrow> inv (part c) \<Longrightarrow> cpre x c \<Longrightarrow> cexec x c = Inr c' \<Longrightarrow>
      \<exists>es. allowed_events pre exec es (part c) \<and> run_events exec es (part c) = Inr (part c') \<and> link c'"
begin

lemma simulation_step:
  assumes "link c" "inv (part c)" "cpre x c" "cexec x c = Inr c'"
  shows "inv (part c') \<and> link c'"
proof -
  obtain es where es: "allowed_events pre exec es (part c)" "run_events exec es (part c) = Inr (part c')" "link c'"
    using cexec_simulates [OF assms] by blast
  then show ?thesis using abstract.allowed_events_inv [OF es(1) assms(2)] by auto
qed

end

sublocale event_simulation \<subseteq> concrete: event_invariant cinit cpre cexec "\<lambda>c. inv (part c) \<and> link c"
  using cinit_link abstract.init_inv simulation_step by unfold_locales blast+

context event_simulation begin

lemma reachable_part:
  assumes "reachable_from cinit cpre cexec c"
  shows "reachable_from init pre exec (part c)"
  using assms
proof (induction rule: reachable_from.induct)
  case (start c)
  then show ?case using cinit_link by (blast intro: reachable_from.start)
next
  case (step c x c')
  have "inv (part c)" "link c" using concrete.reachable_inv [OF step.hyps(1)] by simp_all
  then obtain es where "allowed_events pre exec es (part c)" "run_events exec es (part c) = Inr (part c')"
    using cexec_simulates [of c x] step.hyps(2,3) by blast
  then show ?case using allowed_events_reachable [OF _ step.IH] by fastforce
qed

end

end
