(* ===== verification/Overlay_Safety.thy ===== *)
theory Overlay_Safety
  imports Overlay_Events Event_System
begin

text \<open>
  The end of a dismissal, the reactions to the context, and the theorem that every event keeps
  \<open>overlay_inv\<close> when the environment keeps to \<open>overlay_pre\<close>.
\<close>

section \<open>The end of a dismissal\<close>

lemma idle_okD:
  assumes "idle_ok T X"
  shows "queues_ok X" "owned_ok X" "tabs_ok T X" "ctx_idle X" "\<not> presenting X"
    "\<not> detached_queue_replaced_delegate X" "presented_request X = None"
    "detached_presenting_request_queue X = None" "context_observed X = presentation_context X"
  using assms by (simp_all add: idle_ok_def)

lemma idle_ok_ui:
  assumes "idle_ok T X" "ctx_idle (X\<lparr>ui_states := us, context_request := c, overlay_log := l\<rparr>)"
  shows "idle_ok T (X\<lparr>ui_states := us, context_request := c, overlay_log := l\<rparr>)" (is "idle_ok T ?Y")
proof -
  note I = idle_okD [OF assms(1)]
  have o: "owner ?Y = owner X" "requests_of ?Y = requests_of X"
    by (rule owner_cong, simp) (rule requests_of_cong, simp)
  have "queues_ok ?Y" using I(1) unfolding queues_ok_def o by simp
  moreover have "owned_ok ?Y" using I(2) unfolding owned_ok_def o by simp
  moreover have "tabs_ok T ?Y" using I(3) unfolding tabs_ok_def by simp
  ultimately show ?thesis using assms I by (simp add: idle_ok_def)
qed

lemma clear_context:
  assumes "idle_ok T X" "context_request X = Some p"
  shows "\<exists>Y. SetRequest E None X = Inr Y \<and> base_inv T Y \<and> same_tabs X Y \<and> queues Y = queues X \<and>
    requests Y = requests X \<and> presentation_context Y = presentation_context X \<and>
    context_request Y = None \<and> presented_request Y = None \<and> presentation_capabilities Y = presentation_capabilities X"
proof -
  have ctx: "ctx_idle X" using assms(1) by (simp add: idle_ok_def)
  then obtain st where st: "ui_states X p = Some st" "no_callback st" using assms(2) by (auto simp: ctx_idle_def)
  define us where "us = (if dismissal_reason st = kUserInteraction \<or> dismissal_reason st = kCancellation
    then (ui_states X)(p := None) else ui_states X)"
  let ?Y = "X\<lparr>ui_states := us, context_request := None, overlay_log := overlay_log X @ [UpdateForCapabilities kNone]\<rparr>"
  have eq: "SetRequest E None X = Inr ?Y"
    using st assms(2) by (simp add: SetRequest_def has_callback_def no_callback_def us_def Let_def log_overlay_def)
  have "ctx_idle ?Y" using ctx by (auto simp: ctx_idle_def us_def)
  then have "idle_ok T ?Y" by (rule idle_ok_ui [OF assms(1)])
  then have "base_inv T ?Y" by (rule idle_inv) simp
  then show ?thesis using eq assms(1) by (auto simp: same_tabs_def idle_ok_def)
qed

lemma present_after_dismissal:
  assumes idle: "idle_ok T X" and p: "context_request X = Some p"
    and other: "\<And>w r. active_web_state X = Some w \<Longrightarrow> front_request (queues X w) = Some r \<Longrightarrow> r \<noteq> p"
    and act: "\<And>w. active_web_state X = Some w \<Longrightarrow> w \<in> T"
  shows "\<exists>Y. PresentOverlayForActiveRequest E X = Inr Y \<and> same_tabs X Y \<and> queues Y = queues X \<and>
    (idle_ok T Y \<and> context_request Y = Some p \<and> (\<exists>l. Y = X\<lparr>overlay_log := l\<rparr>) \<and>
       (presentation_context X \<longrightarrow> (\<forall>w r. active_web_state X = Some w \<longrightarrow>
          front_request (queues X w) = Some r \<longrightarrow> \<not> CanShowUIForRequest E r X))
     \<or> base_inv T Y \<and> context_request Y \<noteq> Some p \<and> presentation_context X \<and> presents X Y)"
proof -
  have ne: "context_request X \<noteq> Some r" if "active_web_state X = Some w" "front_request (queues X w) = Some r" for w r
    using other [OF that] p by simp
  have "\<exists>Y. PresentOverlayForActiveRequest E X = Inr Y \<and> ((\<exists>l. Y = X\<lparr>overlay_log := l\<rparr>) \<and>
       (presentation_context X \<longrightarrow> (\<forall>w r. active_web_state X = Some w \<longrightarrow>
          front_request (queues X w) = Some r \<longrightarrow> \<not> CanShowUIForRequest E r X))
     \<or> presentation_context X \<and> presents X Y)"
    by (rule present_active [OF idle_okD(4,1,3,5) [OF idle]]) (rule ne)
  then obtain Y where Y: "PresentOverlayForActiveRequest E X = Inr Y"
    "(\<exists>l. Y = X\<lparr>overlay_log := l\<rparr>) \<and>
       (presentation_context X \<longrightarrow> (\<forall>w r. active_web_state X = Some w \<longrightarrow>
          front_request (queues X w) = Some r \<longrightarrow> \<not> CanShowUIForRequest E r X))
     \<or> presentation_context X \<and> presents X Y" by blast
  from Y(2) show ?thesis
  proof
    assume a: "(\<exists>l. Y = X\<lparr>overlay_log := l\<rparr>) \<and>
       (presentation_context X \<longrightarrow> (\<forall>w r. active_web_state X = Some w \<longrightarrow>
          front_request (queues X w) = Some r \<longrightarrow> \<not> CanShowUIForRequest E r X))"
    then obtain l where l: "Y = X\<lparr>overlay_log := l\<rparr>" by blast
    have "Y = X\<lparr>ui_states := ui_states X, context_request := context_request X, overlay_log := l\<rparr>"
      by (simp add: l)
    moreover have "ctx_idle Y" using idle_okD(4) [OF idle] by (simp add: l ctx_idle_def)
    ultimately have "idle_ok T Y" using idle_ok_ui [OF idle] by metis
    moreover have "same_tabs X Y" "queues Y = queues X" "context_request Y = Some p"
      using p by (simp_all add: l same_tabs_def)
    ultimately show ?thesis using Y(1) a by blast
  next
    assume a: "presentation_context X \<and> presents X Y"
    then have "base_inv T Y" using presents_inv [OF idle] act by blast
    moreover have "context_request Y \<noteq> Some p" using a other by (auto simp: presents_def)
    ultimately show ?thesis using Y(1) a presents_frame by blast
  qed
qed

lemma dismissed_idle:
  assumes inv: "base_inv T W" and st: "context_request W = Some p" "ui_states W p = Some st"
    and X: "ui_states X = (ui_states W)(p \<mapsto> st\<lparr>dismissal_callback := None\<rparr>)" "context_request X = Some p"
      "\<not> presenting X" "\<not> detached_queue_replaced_delegate X" "presented_request X = None"
      "detached_presenting_request_queue X = None" "removed_request_awaiting_dismissal X = None"
      "context_observed X = context_observed W" "presentation_context X = presentation_context W" "same_tabs W X"
    and q: "queues_ok X" "\<And>x. requests X x \<noteq> None \<Longrightarrow> \<exists>v. x \<in> set (requests_of X v)"
      "\<And>v. queue_delegate (queues X v) = queue_delegate (queues W v)"
      "\<And>v. queue_observers (queues X v) = queue_observers (queues W v)"
  shows "idle_ok T X"
proof -
  note I = base_invD [OF inv]
  have "ctx_idle X" using I(3) st X(1,2) unfolding ctx_ok_Some [OF st(1)] ctx_idle_def
    by (auto simp: no_callback_def split: if_splits)
  moreover have "owned_ok X" using X(5,7) q(2) unfolding owned_ok_def by simp
  moreover have "tabs_ok T X" by (rule tabs_ok_same [OF I(5) X(10)]) (simp_all add: q)
  ultimately show ?thesis using X q(1) I(4) by (simp add: idle_ok_def link_ok_def)
qed


text \<open>
  The presenter's part of the end of a dismissal: afterwards nothing is on screen, or the front request
  of the active tab is.  A request dismissed by the user or kept after its removal is destroyed.
\<close>

definition dismissed_world :: "overlay_world \<Rightarrow> request \<Rightarrow> ui_state \<Rightarrow> overlay_world" where
  "dismissed_world W p st = set_ui_state p (st\<lparr>dismissal_callback := None\<rparr>) W"

text \<open>What \<open>OverlayWasDismissed\<close> does once the request has been popped, or need not be.\<close>

definition finish_dismissal :: "overlay_env \<Rightarrow> request \<Rightarrow> overlay_world \<Rightarrow> overlay_world res" where
  "finish_dismissal E r U = rbind (notify_presenter_observers E r (\<lambda>ob. DidHideOverlay ob r)
      (U\<lparr>presenting := False, presented_request := None, detached_presenting_request_queue := None\<rparr>)) (\<lambda>W.
    rbind (destroy_optional (removed_request_awaiting_dismissal W) W) (\<lambda>W.
    let W = W\<lparr>removed_request_awaiting_dismissal := None\<rparr>
    in rbind (GetActiveRequest W) (\<lambda>active.
         if active \<noteq> Some r then PresentOverlayForActiveRequest E W else Inr W)))"

definition finished :: "request \<Rightarrow> overlay_world \<Rightarrow> overlay_effect list \<Rightarrow> request list \<Rightarrow> overlay_world" where
  "finished p U l pp = U\<lparr>presenting := False, presented_request := None,
     detached_presenting_request_queue := None, overlay_log := l, previously_presented_requests := pp,
     requests := (if removed_request_awaiting_dismissal U = Some p then (requests U)(p := None) else requests U),
     removed_request_awaiting_dismissal := None\<rparr>"

lemma finish_dismissal_eq:
  assumes "requests U p \<noteq> None" "removed_request_awaiting_dismissal U = None \<or> removed_request_awaiting_dismissal U = Some p"
  shows "\<exists>l pp. finish_dismissal E p U = rbind (GetActiveRequest (finished p U l pp))
    (\<lambda>a. if a \<noteq> Some p then PresentOverlayForActiveRequest E (finished p U l pp) else Inr (finished p U l pp))"
proof -
  let ?U1 = "U\<lparr>presenting := False, presented_request := None, detached_presenting_request_queue := None\<rparr>"
  obtain es where es: "notify_presenter_observers E p (\<lambda>ob. DidHideOverlay ob p) ?U1 = Inr (log_overlay es ?U1)"
    using notify_alive [of ?U1 p E] assms(1) by auto
  show ?thesis
  proof (cases "removed_request_awaiting_dismissal U")
    case None
    have "(log_overlay es ?U1)\<lparr>removed_request_awaiting_dismissal := None\<rparr> =
        finished p U (overlay_log U @ es) (previously_presented_requests U)"
      using None by (simp add: finished_def log_overlay_def)
    then have "finish_dismissal E p U = rbind (GetActiveRequest (finished p U (overlay_log U @ es) (previously_presented_requests U)))
      (\<lambda>a. if a \<noteq> Some p then PresentOverlayForActiveRequest E (finished p U (overlay_log U @ es) (previously_presented_requests U))
        else Inr (finished p U (overlay_log U @ es) (previously_presented_requests U)))"
      using None es by (simp add: finish_dismissal_def destroy_optional_def Let_def cong: if_cong)
    then show ?thesis by blast
  next
    case (Some x)
    then have x: "removed_request_awaiting_dismissal U = Some p" using assms(2) by auto
    obtain l pp where "destroy_request p (log_overlay es ?U1) = Inr ((log_overlay es ?U1)\<lparr>overlay_log := l,
        previously_presented_requests := pp, requests := (requests (log_overlay es ?U1))(p := None)\<rparr>)"
      using destroy_alive [of "log_overlay es ?U1" p] assms(1) by auto
    moreover have "(log_overlay es ?U1)\<lparr>overlay_log := l, previously_presented_requests := pp,
        requests := (requests (log_overlay es ?U1))(p := None), removed_request_awaiting_dismissal := None\<rparr> =
        finished p U l pp"
      using x by (simp add: finished_def log_overlay_def)
    ultimately have "finish_dismissal E p U = rbind (GetActiveRequest (finished p U l pp))
      (\<lambda>a. if a \<noteq> Some p then PresentOverlayForActiveRequest E (finished p U l pp) else Inr (finished p U l pp))"
      using x es by (simp add: finish_dismissal_def destroy_optional_def Let_def cong: if_cong)
    then show ?thesis by blast
  qed
qed

lemma OverlayWasDismissed_eq:
  assumes "presentation_context W" "\<not> detached_queue_replaced_delegate W" "presented_request W = Some r"
  shows "OverlayWasDismissed E r w reason W =
    (if reason = kUserInteraction \<and> w \<notin> set (destroyed_web_states W) \<and> Some r \<noteq> removed_request_awaiting_dismissal W
     then rbind (PopFrontRequest E w W) (\<lambda>W.
       dcheck (removed_request_awaiting_dismissal W = Some r)
         ''removed_request_awaiting_dismissal_ == request'' (finish_dismissal E r W))
     else finish_dismissal E r W)"
proof -
  have b: "rbind (dcheck c m (Inr x)) f = dcheck c m (f x)" for c m and x :: overlay_world and f :: "overlay_world \<Rightarrow> overlay_world res"
    by (simp add: dcheck_def)
  have a: "rbind (rbind m f) g = rbind m (\<lambda>x. rbind (f x) g)" for m :: "overlay_world res" and f g :: "overlay_world \<Rightarrow> overlay_world res"
    by (cases m) simp_all
  show ?thesis
    unfolding OverlayWasDismissed_def finish_dismissal_def [symmetric] using assms by (simp add: a b)
qed


lemma pop_shown:
  assumes inv: "base_inv T W" and act: "\<And>v. active_web_state W = Some v \<Longrightarrow> v \<in> T"
    and pr: "presented_request W = Some p" and sh: "shown W = Some (p, w, kUserInteraction)"
    and W0: "queues W0 = queues W" "presented_request W0 = presented_request W"
      "removed_request_awaiting_dismissal W0 = removed_request_awaiting_dismissal W"
      "detached_presenting_request_queue W0 = detached_presenting_request_queue W"
  shows "PopFrontRequest E w W0 = Inr (update_queue w
      (\<lambda>q. q\<lparr>request_storages := remove_at 0 (request_storages q)\<rparr>) W0\<lparr>removed_request_awaiting_dismissal := Some p\<rparr>)"
    and "0 < queue_size (queues W w)" "fst (request_storages (queues W w) ! 0) = p"
    and "removed_request_awaiting_dismissal W = None" "w \<notin> set (destroyed_web_states W)"
proof -
  note I = base_invD [OF inv]
  have a: "active_web_state W = Some w" "front_request (queues W w) = Some p"
    using I(7) pr sh by (auto simp: reason_ok_def)
  have wT: "w \<in> T" using act a by blast
  show q: "0 < queue_size (queues W w)" "fst (request_storages (queues W w) ! 0) = p"
    using a(2) by (auto simp: front_request_def queue_size_def split: list.splits)
  show rem: "removed_request_awaiting_dismissal W = None"
    using pr I(2) front_in_requests_of [OF a(2)]
    by (cases "removed_request_awaiting_dismissal W") (auto simp: owned_ok_def)
  show "w \<notin> set (destroyed_web_states W)" using I(5) wT by (auto simp: tabs_ok_def)
  have own: "owner W p = Some w" using I(1) front_in_requests_of [OF a(2)] by (auto simp: queues_ok_def)
  have det: "detached_presenting_request_queue W = None"
    using I(6) wT pr own by (cases "detached_presenting_request_queue W") (auto simp: handed_ok_def)
  have del: "queue_delegate (queues W w) = Some ThisPresenter" using I(5) wT by (auto simp: tabs_ok_def)
  show "PopFrontRequest E w W0 = Inr (update_queue w
      (\<lambda>q. q\<lparr>request_storages := remove_at 0 (request_storages q)\<rparr>) W0\<lparr>removed_request_awaiting_dismissal := Some p\<rparr>)"
    using q W0 del rem det pr
    by (simp add: PopFrontRequest_def RemoveRequest_def Let_def update_queue_def OverlayRequestRemoved_def
        destroy_optional_def)
qed

lemma dismissal_bookkeeping:
  assumes inv: "base_inv T W" and act: "\<And>v. active_web_state W = Some v \<Longrightarrow> v \<in> T"
    and st: "context_request W = Some p" "ui_states W p = Some st" "dismissal_callback st = Some (p, w)"
    and pr: "presented_request W = Some p"
  shows "\<exists>X. OverlayWasDismissed E p w (dismissal_reason st) (dismissed_world W p st) =
      rbind (GetActiveRequest X) (\<lambda>a. if a \<noteq> Some p then PresentOverlayForActiveRequest E X else Inr X) \<and>
    idle_ok T X \<and> context_request X = Some p \<and> same_tabs W X \<and>
    presentation_context X \<and> presentation_capabilities X = presentation_capabilities W \<and>
    (if dismissal_reason st = kUserInteraction
     then requests_of X = (requests_of W)(w := tl (requests_of W w)) \<and> requests X = (requests W)(p := None)
     else requests_of X = requests_of W \<and>
       requests X = (if removed_request_awaiting_dismissal W = Some p then (requests W)(p := None) else requests W))"
proof -
  note I = base_invD [OF inv]
  let ?W0 = "dismissed_world W p st"
  have on: "presentation_context W" "\<not> detached_queue_replaced_delegate W" using I(4) pr by (auto simp: link_ok_def)
  have W0: "presentation_context ?W0" "\<not> detached_queue_replaced_delegate ?W0" "presented_request ?W0 = Some p"
    "queues ?W0 = queues W" "presented_request ?W0 = presented_request W" "requests ?W0 = requests W"
    "removed_request_awaiting_dismissal ?W0 = removed_request_awaiting_dismissal W"
    "detached_presenting_request_queue ?W0 = detached_presenting_request_queue W"
    "destroyed_web_states ?W0 = destroyed_web_states W"
    using on pr by (simp_all add: dismissed_world_def set_ui_state_def)
  note eq = OverlayWasDismissed_eq [OF W0(1,2,3), where E = E and w = w and reason = "dismissal_reason st"]
  have sh: "shown W = Some (p, w, dismissal_reason st)" using st by (simp add: shown_def GetRequestUIState_def)
  obtain v where own: "owner W p = Some v" using I(2) pr unfolding owned_ok_def by blast
  then have alive: "requests W p \<noteq> None" by (auto simp: owner_def split: option.splits)
  have rem: "removed_request_awaiting_dismissal W = None \<or> removed_request_awaiting_dismissal W = Some p"
    using I(2) pr by (cases "removed_request_awaiting_dismissal W") (auto simp: owned_ok_def)
  have live: "\<exists>v. x \<in> set (requests_of W v)" if "requests W x \<noteq> None" "removed_request_awaiting_dismissal W \<noteq> Some x" for x
    using I(2) that unfolding owned_ok_def by blast
  show ?thesis
  proof (cases "dismissal_reason st = kUserInteraction")
    case True
    then have shT: "shown W = Some (p, w, kUserInteraction)" using sh by simp
    have pop: "PopFrontRequest E w ?W0 = Inr (update_queue w
        (\<lambda>q. q\<lparr>request_storages := remove_at 0 (request_storages q)\<rparr>) ?W0\<lparr>removed_request_awaiting_dismissal := Some p\<rparr>)"
      "0 < queue_size (queues W w)" "fst (request_storages (queues W w) ! 0) = p"
      "removed_request_awaiting_dismissal W = None" "w \<notin> set (destroyed_web_states W)"
      by (rule pop_shown [OF inv act pr shT W0(4,5,7,8)]; assumption)+
    define U where "U = update_queue w (\<lambda>q. q\<lparr>request_storages := remove_at 0 (request_storages q)\<rparr>) ?W0
      \<lparr>removed_request_awaiting_dismissal := Some p\<rparr>"
    have U: "requests U p \<noteq> None" "removed_request_awaiting_dismissal U = Some p"
      using alive W0(6) by (simp_all add: U_def update_queue_def)
    obtain l pp where l: "finish_dismissal E p U = rbind (GetActiveRequest (finished p U l pp))
      (\<lambda>a. if a \<noteq> Some p then PresentOverlayForActiveRequest E (finished p U l pp) else Inr (finished p U l pp))"
      using finish_dismissal_eq [OF U(1)] U(2) by blast
    let ?X = "finished p U l pp"
    note t = taken_out [OF inv pop(2), unfolded pop(3)]
    have ro: "requests_of ?X = (requests_of W)(w := remove_at 0 (requests_of W w))"
      unfolding t(1) [symmetric] by (rule requests_of_cong)
        (simp add: finished_def U_def update_queue_def W0(4))
    have sro: "set (requests_of ?X v) = set (requests_of W v) - {p}" for v
      using t(2) [of v] unfolding t(1) ro .
    have rq: "requests ?X = (requests W)(p := None)" using W0(6) by (simp add: finished_def U_def update_queue_def)
    have "idle_ok T ?X"
    proof (rule dismissed_idle [OF inv st(1,2)])
      show "queues_ok ?X"
        by (rule queues_ok_taken [OF I(1) ro sro])
          (simp_all add: owner_def rq, simp add: finished_def U_def update_queue_def W0(9))
      show "\<exists>v. x \<in> set (requests_of ?X v)" if "requests ?X x \<noteq> None" for x
        using that live [of x] pop(4) sro unfolding rq by (auto split: if_splits)
    qed (use on st W0(9) in \<open>simp_all add: finished_def U_def update_queue_def dismissed_world_def set_ui_state_def same_tabs_def\<close>)
    moreover have "OverlayWasDismissed E p w (dismissal_reason st) ?W0 = finish_dismissal E p U"
      using eq True pop W0(7,9) U(2) by (simp add: U_def)
    moreover have "remove_at 0 (requests_of W w) = tl (requests_of W w)" by (simp add: remove_at_def drop_Suc)
    ultimately show ?thesis using l True rq ro on st(1)
      by (intro exI [of _ ?X])
        (simp add: finished_def U_def update_queue_def dismissed_world_def set_ui_state_def same_tabs_def)
  next
    case False
    obtain l pp where l: "finish_dismissal E p ?W0 = rbind (GetActiveRequest (finished p ?W0 l pp))
      (\<lambda>a. if a \<noteq> Some p then PresentOverlayForActiveRequest E (finished p ?W0 l pp) else Inr (finished p ?W0 l pp))"
      using finish_dismissal_eq [of ?W0 p E] alive rem W0(6,7) by auto
    let ?X = "finished p ?W0 l pp"
    have ro: "requests_of ?X = requests_of W"
      by (rule requests_of_cong) (simp add: finished_def dismissed_world_def set_ui_state_def)
    have rq: "requests ?X = (if removed_request_awaiting_dismissal W = Some p then (requests W)(p := None) else requests W)"
      using W0(6,7) by (simp add: finished_def)
    have notin: "removed_request_awaiting_dismissal W = Some p \<Longrightarrow> p \<notin> set (requests_of W v)" for v
      using I(2) unfolding owned_ok_def by blast
    have "idle_ok T ?X"
    proof (rule dismissed_idle [OF inv st(1,2)])
      have ow: "owner ?X x = owner W x" if "x \<noteq> p \<or> removed_request_awaiting_dismissal W \<noteq> Some p" for x
        using that by (auto simp: owner_def rq)
      have dX: "destroyed_web_states ?X = destroyed_web_states W" by (simp add: finished_def W0(9))
      have "owner ?X x = Some v" if "x \<in> set (requests_of W v)" for x v
        using that ow [of x] notin [of v] I(1) unfolding queues_ok_def by metis
      then show "queues_ok ?X" using I(1) unfolding queues_ok_def ro dX by simp
      show "\<exists>v. x \<in> set (requests_of ?X v)" if "requests ?X x \<noteq> None" for x
        using that live [of x] rem unfolding rq ro by (auto split: if_splits)
    qed (use on st W0(9) in \<open>simp_all add: finished_def dismissed_world_def set_ui_state_def same_tabs_def\<close>)
    then show ?thesis using eq l False rq ro on st(1)
      by (intro exI [of _ ?X]) (simp add: finished_def dismissed_world_def set_ui_state_def same_tabs_def)
  qed
qed

lemma finish_presenting:
  assumes idle: "idle_ok T X" and p: "context_request X = Some p" and act: "\<And>v. active_web_state X = Some v \<Longrightarrow> v \<in> T"
    and m: "m = Inr X \<or> m = PresentOverlayForActiveRequest E X \<and>
      (\<forall>w r. active_web_state X = Some w \<longrightarrow> front_request (queues X w) = Some r \<longrightarrow> r \<noteq> p)"
  shows "\<exists>W'. rbind m (\<lambda>W. if context_request W = Some p then SetRequest E None W else Inr W) = Inr W' \<and>
    base_inv T W' \<and> same_tabs X W' \<and> queues W' = queues X"
proof -
  obtain Y where Y: "m = Inr Y" "same_tabs X Y" "queues Y = queues X"
    "idle_ok T Y \<and> context_request Y = Some p \<or> base_inv T Y \<and> context_request Y \<noteq> Some p"
  proof (cases "m = Inr X")
    case True
    then show thesis using that [of X] idle p by simp
  next
    case False
    then have m': "m = PresentOverlayForActiveRequest E X"
      "\<And>w r. active_web_state X = Some w \<Longrightarrow> front_request (queues X w) = Some r \<Longrightarrow> r \<noteq> p" using m by auto
    have "\<exists>Y. PresentOverlayForActiveRequest E X = Inr Y \<and> same_tabs X Y \<and> queues Y = queues X \<and>
        (idle_ok T Y \<and> context_request Y = Some p \<or> base_inv T Y \<and> context_request Y \<noteq> Some p)"
      using present_after_dismissal [OF idle p, where E = E] m'(2) act by blast
    then show thesis using that m'(1) by blast
  qed
  from Y(4) show ?thesis
  proof
    assume "idle_ok T Y \<and> context_request Y = Some p"
    then obtain Z where "SetRequest E None Y = Inr Z" "base_inv T Z" "same_tabs Y Z" "queues Z = queues Y"
      using clear_context by blast
    then show ?thesis using Y \<open>idle_ok T Y \<and> context_request Y = Some p\<close> same_tabs_trans by auto
  next
    assume "base_inv T Y \<and> context_request Y \<noteq> Some p"
    then show ?thesis using Y by auto
  qed
qed

lemma ui_dismissed_inv:
  assumes inv: "base_inv T W" and act: "\<And>v. active_web_state W = Some v \<Longrightarrow> v \<in> T"
    and p: "context_request W = Some p"
  shows "\<exists>W'. OverlayUIDidFinishDismissal E p W = Inr W' \<and> base_inv T W' \<and> same_tabs W W'"
proof -
  note I = base_invD [OF inv]
  obtain st w where st: "ui_states W p = Some st" "dismissal_callback st = Some (p, w)"
    using I(3) unfolding ctx_ok_Some [OF p] by blast
  let ?W0 = "dismissed_world W p st"
  have eq: "OverlayUIDidFinishDismissal E p W = rbind (OverlayWasDismissed E p w (dismissal_reason st) ?W0)
      (\<lambda>W. if context_request W = Some p then SetRequest E None W else Inr W)"
    using p st by (simp add: OverlayUIDidFinishDismissal_def OverlayUIWasDismissed_def dismissed_world_def cong: if_cong)
  have idle: "idle_ok T X" if "X = ?W0\<lparr>presenting := False, detached_queue_replaced_delegate := False\<rparr>"
    and "presented_request W = None" for X
  proof (rule dismissed_idle [OF inv p st(1)])
    have o: "owner X = owner W" "requests_of X = requests_of W"
      by (rule owner_cong, simp add: that dismissed_world_def set_ui_state_def)
        (rule requests_of_cong, simp add: that dismissed_world_def set_ui_state_def)
    have norem: "removed_request_awaiting_dismissal W = None"
      using I(2) that(2) by (cases "removed_request_awaiting_dismissal W") (auto simp: owned_ok_def)
    show "queues_ok X" using I(1) unfolding queues_ok_def o by (simp add: that dismissed_world_def set_ui_state_def)
    show "\<exists>v. x \<in> set (requests_of X v)" if "requests X x \<noteq> None" for x
      using that I(2) norem unfolding o owned_ok_def
      by (simp add: \<open>X = _\<close> dismissed_world_def set_ui_state_def)
    show "detached_presenting_request_queue X = None"
      using I(6) that(2) by (cases "detached_presenting_request_queue W")
        (auto simp: handed_ok_def \<open>X = _\<close> dismissed_world_def set_ui_state_def)
    show "removed_request_awaiting_dismissal X = None"
      using norem by (simp add: that dismissed_world_def set_ui_state_def)
  qed (simp_all add: that p st dismissed_world_def set_ui_state_def same_tabs_def)
  have pp: "presented_request W = None \<or> presented_request W = Some p"
    using I(4) p unfolding link_ok_def by (metis option.exhaust option.inject)
  have fl: "presented_request W = None \<Longrightarrow> presentation_context W \<Longrightarrow> detached_queue_replaced_delegate W"
    using I(4) p unfolding link_ok_def by simp
  consider (off) "\<not> presentation_context W" "presented_request W = None"
    | (handed) "presentation_context W" "detached_queue_replaced_delegate W" "presented_request W = None"
    | (shown) "presented_request W = Some p" using pp fl by (cases "presentation_context W") auto
  then show ?thesis
  proof cases
    case off
    then have "\<not> presenting W" "\<not> detached_queue_replaced_delegate W" using I(4) by (auto simp: link_ok_def)
    then have "?W0 = ?W0\<lparr>presenting := False, detached_queue_replaced_delegate := False\<rparr>"
      by (cases W) (simp add: dismissed_world_def set_ui_state_def)
    then have "idle_ok T ?W0" using idle off by blast
    moreover have "OverlayWasDismissed E p w (dismissal_reason st) ?W0 = Inr ?W0"
      using off by (simp add: OverlayWasDismissed_def dismissed_world_def set_ui_state_def)
    moreover have "context_request ?W0 = Some p" "same_tabs W ?W0"
      using p by (simp_all add: dismissed_world_def set_ui_state_def same_tabs_def)
    ultimately show ?thesis
      using finish_presenting [of T ?W0 p "Inr ?W0" E] act unfolding eq by (auto simp: same_tabs_def)
  next
    case handed
    let ?X = "?W0\<lparr>presenting := False, detached_queue_replaced_delegate := False\<rparr>"
    have idleX: "idle_ok T ?X" using idle handed by blast
    have X: "active_web_state ?X = active_web_state W" "queues ?X = queues W" "context_request ?X = Some p"
      "same_tabs W ?X" using p by (simp_all add: dismissed_world_def set_ui_state_def same_tabs_def)
    have front: "r \<noteq> p" if "active_web_state ?X = Some v" "front_request (queues ?X v) = Some r" for v r
      using I(6) handed(2) p act that front_in_requests_of [of W v r] unfolding X by (auto simp: handed_ok_def)
    have a: "GetActiveRequest ?X = Inr (case active_web_state ?X of None \<Rightarrow> None | Some v \<Rightarrow> front_request (queues ?X v))"
      by (rule active_request [OF idle_okD(3) [OF idleX]])
    define m where "m = OverlayWasDismissed E p w (dismissal_reason st) ?W0"
    have "m = Inr ?X \<or> m = PresentOverlayForActiveRequest E ?X"
      using handed a unfolding m_def
      by (auto simp: OverlayWasDismissed_def dismissed_world_def set_ui_state_def Let_def)
    then have "\<exists>W'. rbind m (\<lambda>W. if context_request W = Some p then SetRequest E None W else Inr W) = Inr W' \<and>
        base_inv T W' \<and> same_tabs ?X W' \<and> queues W' = queues ?X"
      using front act X(1) by (intro finish_presenting [OF idleX X(3)]) auto
    then show ?thesis unfolding eq m_def [symmetric] using same_tabs_trans [OF X(4)] by blast
  next
    case shown
    obtain X where X: "OverlayWasDismissed E p w (dismissal_reason st) ?W0 =
        rbind (GetActiveRequest X) (\<lambda>a. if a \<noteq> Some p then PresentOverlayForActiveRequest E X else Inr X)"
      "idle_ok T X" "context_request X = Some p" "same_tabs W X"
      using dismissal_bookkeeping [OF inv act p st shown, where E = E] by blast
    have actX: "active_web_state X = active_web_state W" using X(4) by (simp add: same_tabs_def)
    note a = active_request [OF idle_okD(3) [OF X(2)]]
    define m where "m = OverlayWasDismissed E p w (dismissal_reason st) ?W0"
    have "m = Inr X \<or> m = PresentOverlayForActiveRequest E X \<and>
        (\<forall>w r. active_web_state X = Some w \<longrightarrow> front_request (queues X w) = Some r \<longrightarrow> r \<noteq> p)"
      using X(1) a unfolding m_def by (auto split: option.splits)
    then have "\<exists>W'. rbind m (\<lambda>W. if context_request W = Some p then SetRequest E None W else Inr W) = Inr W' \<and>
        base_inv T W' \<and> same_tabs X W' \<and> queues W' = queues X"
      using act actX by (intro finish_presenting [OF X(2,3)]) auto
    then show ?thesis unfolding eq m_def [symmetric] using same_tabs_trans [OF X(4)] by blast
  qed
qed

section \<open>Changes of the presentation context\<close>

text \<open>What presenting, hiding and cancelling leave alone.\<close>

definition same_pending :: "overlay_world \<Rightarrow> overlay_world \<Rightarrow> bool" where
  "same_pending W W' \<longleftrightarrow> same_tabs W W' \<and> presentation_context W' = presentation_context W \<and>
     context_observed W' = context_observed W \<and>
     removed_request_awaiting_dismissal W' = removed_request_awaiting_dismissal W \<and>
     detached_queue_replaced_delegate W' = detached_queue_replaced_delegate W \<and>
     detached_presenting_request_queue W' = detached_presenting_request_queue W \<and>
     context_delegate W' = context_delegate W"

lemma same_pending_trans: "same_pending W V \<Longrightarrow> same_pending V U \<Longrightarrow> same_pending W U"
  by (simp add: same_pending_def same_tabs_def)

lemma same_pending_refl [simp]: "same_pending W W"
  by (simp add: same_pending_def)

lemma only_ui_pending: "only_ui W W' \<Longrightarrow> same_pending W W'"
  by (auto simp: only_ui_def same_pending_def same_tabs_def)

lemma present_pending:
  assumes "base_inv T W" "\<not> presenting W" "\<And>w. active_web_state W = Some w \<Longrightarrow> w \<in> T"
  shows "\<exists>W'. PresentOverlayForActiveRequest E W = Inr W' \<and> base_inv T W' \<and> same_pending W W' \<and>
    (presentation_capabilities W = kNone \<longrightarrow> context_request W' = context_request W)"
proof (cases "presentation_context W")
  case False
  then show ?thesis using assms(1) by (simp add: PresentOverlayForActiveRequest_def)
next
  case True
  then have none: "context_request W = None" using assms base_invD(4) [OF assms(1)] by (auto simp: link_ok_def)
  note idle = inv_idle [OF assms(1,2) none]
  obtain W' where W': "PresentOverlayForActiveRequest E W = Inr W'"
    "(\<exists>l. W' = W\<lparr>overlay_log := l\<rparr>) \<or> presents W W'"
    using present_active [OF idle_okD(4,1,3,5) [OF idle], where E = E] none by auto
  obtain V where "PresentOverlayForActiveRequest E W = Inr V" "base_inv T V"
    using present_inv [OF assms, where E = E] by blast
  then have "base_inv T W'" using W'(1) by simp
  moreover have "same_pending W W'" using W'(2) by (auto simp: presents_def same_pending_def same_tabs_def)
  moreover have "context_request W' = context_request W" if "presentation_capabilities W = kNone"
  proof -
    have "\<not> CanShowUIForRequest E r W" for r
      using that by (simp add: CanShowUIForRequest_def CanShowUIWith_def kNone_def)
    then have "\<exists>l. PresentOverlayForActiveRequest E W = Inr (W\<lparr>overlay_log := l\<rparr>)"
      using True ctx_idle_not_showing [OF idle_okD(4) [OF idle]] active_request [OF idle_okD(3) [OF idle]]
      by (cases "case active_web_state W of None \<Rightarrow> None | Some v \<Rightarrow> front_request (queues W v)")
        (auto simp: PresentOverlayForActiveRequest_def PrepareToShowOverlayUI_def log_overlay_def)
    then show ?thesis using W'(1) by auto
  qed
  ultimately show ?thesis using W'(1) by blast
qed

lemma capabilities_core: "same_core W (W\<lparr>presentation_capabilities := c\<rparr>)"
  by (simp add: same_core_def)

lemma update_capabilities_inv:
  assumes inv: "base_inv T W" and act: "\<And>v. active_web_state W = Some v \<Longrightarrow> v \<in> T"
  shows "\<exists>W'. UpdatePresentationCapabilities E W = Inr W' \<and> base_inv T W' \<and> same_pending W W' \<and>
    (ConstructPresentationCapabilities W = kNone \<and> context_request W = None \<longrightarrow> context_request W' = None)"
proof -
  note I = base_invD [OF inv]
  let ?c = "ConstructPresentationCapabilities W"
  obtain V where V: "(if presentation_capabilities W \<noteq> ?c \<and> context_observed W
      then WillChangePresentationCapabilities E ?c W else Inr W) = Inr V" "base_inv T V" "only_ui W V"
  proof (cases "presentation_capabilities W \<noteq> ?c \<and> context_observed W \<and>
      (\<exists>r. presented_request W = Some r \<and> \<not> CanShowUIWith E r ?c)")
    case False
    then have "(if presentation_capabilities W \<noteq> ?c \<and> context_observed W
        then WillChangePresentationCapabilities E ?c W else Inr W) = Inr W"
      using I(4) by (auto simp: WillChangePresentationCapabilities_def link_ok_def split: option.splits)
    then show thesis using that [of W] inv by simp
  next
    case True
    then obtain r where r: "presented_request W = Some r" "\<not> CanShowUIWith E r ?c" by blast
    then have on: "context_request W = Some r" "presenting W" "presentation_context W"
      using I(4) by (auto simp: link_ok_def)
    obtain V where "HideOverlayUI r W = Inr V" "base_inv T V" "only_ui W V" using hide_inv [OF inv on(1)] by blast
    then show thesis using that [of V] True r on by (simp add: WillChangePresentationCapabilities_def)
  qed
  let ?V = "V\<lparr>presentation_capabilities := ?c\<rparr>"
  have inv': "base_inv T ?V" using V(2) base_inv_core [OF capabilities_core] by blast
  have pend: "same_pending W ?V" using only_ui_pending [OF V(3)] by (simp add: same_pending_def same_tabs_def)
  have cr: "context_request ?V = context_request W" using only_uiD(6) [OF V(3)] by simp
  have eq: "UpdatePresentationCapabilities E W =
      (if presentation_capabilities W \<noteq> ?c \<and> context_observed W then DidChangePresentationCapabilities E ?V else Inr ?V)"
    using V(1) only_uiD(11) [OF V(3)] by (simp add: UpdatePresentationCapabilities_def Let_def)
  show ?thesis
  proof (cases "presentation_capabilities W \<noteq> ?c \<and> context_observed W \<and> \<not> presenting V")
    case False
    then have "UpdatePresentationCapabilities E W = Inr ?V"
      using base_invD(4) [OF inv'] only_uiD(11) [OF V(3)] unfolding eq
      by (auto simp: DidChangePresentationCapabilities_def link_ok_def)
    then show ?thesis using inv' pend cr by auto
  next
    case True
    have "\<exists>W'. PresentOverlayForActiveRequest E ?V = Inr W' \<and> base_inv T W' \<and> same_pending ?V W' \<and>
        (presentation_capabilities ?V = kNone \<longrightarrow> context_request W' = context_request ?V)"
      by (rule present_pending [OF inv']) (use True act pend in \<open>auto simp: same_pending_def same_tabs_def\<close>)
    then obtain W' where W': "PresentOverlayForActiveRequest E ?V = Inr W'" "base_inv T W'" "same_pending ?V W'"
        "presentation_capabilities ?V = kNone \<longrightarrow> context_request W' = context_request ?V" by blast
    have "UpdatePresentationCapabilities E W = Inr W'"
      using True W'(1) base_invD(4) [OF V(2)] only_uiD(11) [OF V(3)] unfolding eq
      by (simp add: DidChangePresentationCapabilities_def link_ok_def)
    then show ?thesis using W' same_pending_trans [OF pend W'(3)] cr by auto
  qed
qed

lemma set_context_inv:
  assumes inv: "base_inv T W" and act: "\<And>v. active_web_state W = Some v \<Longrightarrow> v \<in> T"
    and tabs: "set (browser_tabs W) \<subseteq> T"
    and no: "removed_request_awaiting_dismissal W = None" "\<not> detached_queue_replaced_delegate W"
      "detached_presenting_request_queue W = None" "c \<Longrightarrow> context_request W = None"
  shows "\<exists>W'. SetPresentationContext E c W = Inr W' \<and> base_inv T W' \<and> same_tabs W W'"
proof -
  obtain V where V: "(if presentation_context W
      then rbind (CancelAllOverlayUI W) (\<lambda>W. Inr (W\<lparr>context_observed := False\<rparr>)) else Inr W) = Inr V"
      "\<exists>U. base_inv T U \<and> only_ui W U \<and> V = U\<lparr>context_observed := False\<rparr>"
  proof (cases "presentation_context W")
    case False
    then have same: "W = W\<lparr>context_observed := False\<rparr>"
      using base_invD(4) [OF inv] by (cases W) (simp add: link_ok_def)
    show thesis by (rule that [of W]) (use False in simp, intro exI [of _ W] conjI inv only_ui_refl same)
  next
    case True
    have "set (browser_tabs W) \<inter> set (destroyed_web_states W) = {}"
      using tabs base_invD(5) [OF inv] by (auto simp: tabs_ok_def)
    then obtain U where "CancelOverlayUIForTabs (browser_tabs W) W = Inr U" "base_inv T U" "only_ui W U"
      using cancel_tabs_inv [OF inv] by blast
    then show thesis using that [of "U\<lparr>context_observed := False\<rparr>"] True by (auto simp: CancelAllOverlayUI_def)
  qed
  then obtain U where U: "base_inv T U" "only_ui W U" "V = U\<lparr>context_observed := False\<rparr>" by blast
  let ?X = "V\<lparr>presentation_context := c, presenting := False, presented_request := None,
    previously_presented_requests := [], context_observed := c\<rparr>"
  note I = base_invD [OF U(1)] and eqs = only_uiD [OF U(2)]
  have o: "owner ?X = owner U" "requests_of ?X = requests_of U"
    by (rule owner_cong, simp add: U(3)) (rule requests_of_cong, simp add: U(3))
  have U': "removed_request_awaiting_dismissal U = None" "\<not> detached_queue_replaced_delegate U"
    "detached_presenting_request_queue U = None" "c \<Longrightarrow> context_request U = None" using no eqs by auto
  have "queues_ok ?X" using I(1) unfolding queues_ok_def o by (simp add: U(3))
  moreover have "owned_ok ?X" using I(2) U'(1) unfolding owned_ok_def o by (simp add: U(3))
  moreover have "ctx_ok ?X = ctx_ok U" by (rule ctx_ok_cong) (simp_all add: U(3))
  moreover have "link_ok ?X" using U' by (simp add: link_ok_def U(3))
  moreover have "tabs_ok T ?X" using I(5) unfolding tabs_ok_def by (simp add: U(3))
  moreover have "handed_ok T ?X" using U' unfolding handed_ok_def by (simp add: U(3))
  moreover have "reason_ok ?X" by (simp add: reason_ok_def)
  ultimately have inv': "base_inv T ?X" using I(3) unfolding base_inv_def core_inv_def by blast
  have st: "same_tabs W ?X" using eqs(1) by (simp add: U(3) same_tabs_def)
  show ?thesis
  proof (cases c)
    case True
    have "\<exists>W'. PresentOverlayForActiveRequest E ?X = Inr W' \<and> base_inv T W' \<and> same_tabs ?X W' \<and> queues W' = queues ?X"
      by (rule present_inv [OF inv']) (use act st in \<open>auto simp: same_tabs_def\<close>)
    then show ?thesis using V(1) True st same_tabs_trans [of W ?X]
      by (auto simp: SetPresentationContext_def Let_def)
  next
    case False
    have "?X = V\<lparr>presentation_context := c, presenting := False, presented_request := None,
        previously_presented_requests := []\<rparr>" using False by (simp add: U(3))
    then show ?thesis using V(1) False inv' st by (simp add: SetPresentationContext_def Let_def)
  qed
qed

section \<open>The environment\<close>

text \<open>
  What an event asks of the environment.  Clients use live tabs and fresh requests; the tab list names its
  tabs; UI is dismissed if it is there.  Two conditions are not ensured by the other components; each is
  a situation the presenter does not handle:

    \<^item> a tab does not come back to the window, nor goes to another one with an overlay in front of the
      one on screen, while the dismissal of its UI is pending;
    \<^item> the context is neither replaced nor set again while a dismissal is pending.
\<close>

definition comes_fresh :: "web_state_id \<Rightarrow> overlay_world \<Rightarrow> bool" where
  "comes_fresh w W \<longleftrightarrow> w \<notin> set (browser_tabs W) \<and> w \<notin> set (destroyed_web_states W) \<and>
     detached_presenting_request_queue W \<noteq> Some w \<and>
     (detached_queue_replaced_delegate W \<longrightarrow> context_request W \<notin> Some ` set (requests_of W w))"

fun overlay_asked :: "overlay_event \<Rightarrow> overlay_world \<Rightarrow> bool" where
  "overlay_asked (ClientAddsRequest w i r cbs h) W \<longleftrightarrow> w \<notin> set (destroyed_web_states W) \<and>
     i \<le> queue_size (queues W w) \<and> requests W r = None \<and> context_request W \<noteq> Some r"
| "overlay_asked (ClientCancelsRequest w r) W \<longleftrightarrow> w \<notin> set (destroyed_web_states W)"
| "overlay_asked (ClientCancelsAll w) W \<longleftrightarrow> w \<notin> set (destroyed_web_states W)"
| "overlay_asked (TabInserted w i activating) W \<longleftrightarrow> comes_fresh w W \<and> i \<le> length (browser_tabs W)"
| "overlay_asked (TabActivated w) W \<longleftrightarrow> w \<in> set (browser_tabs W)"
| "overlay_asked (TabReplaced i new) W \<longleftrightarrow> i < length (browser_tabs W) \<and> comes_fresh new W"
| "overlay_asked (TabDetached i new_active) W \<longleftrightarrow> i < length (browser_tabs W) \<and>
     (active_web_state W = Some (browser_tabs W ! i) \<longrightarrow>
        (case new_active of None \<Rightarrow> True
         | Some v \<Rightarrow> v \<in> set (browser_tabs W) \<and> v \<noteq> browser_tabs W ! i))"
| "overlay_asked (TabMoved i j) W \<longleftrightarrow> i < length (browser_tabs W) \<and> j < length (browser_tabs W)"
| "overlay_asked NoTabActive W \<longleftrightarrow> True"
| "overlay_asked (TabHandedOver w d) W \<longleftrightarrow> w \<notin> set (browser_tabs W) \<and> w \<notin> set (destroyed_web_states W) \<and>
     d \<noteq> Some ThisPresenter \<and>
     (case presented_request W of None \<Rightarrow> True
      | Some r \<Rightarrow> r \<in> set (requests_of W w) \<longrightarrow> front_request (queues W w) = Some r)"
| "overlay_asked (TabDestroyed w) W \<longleftrightarrow> w \<notin> set (browser_tabs W) \<and> w \<notin> set (destroyed_web_states W)"
| "overlay_asked (UIDismissed r) W \<longleftrightarrow> context_request W = Some r"
| "overlay_asked (ContextDelegateChanged d) W \<longleftrightarrow> context_delegate W = d \<or>
     removed_request_awaiting_dismissal W = None \<and> \<not> detached_queue_replaced_delegate W \<and>
     detached_presenting_request_queue W = None \<and> (d \<noteq> None \<longrightarrow> context_request W = None)"
| "overlay_asked (ContainerChanged vc) W \<longleftrightarrow> True"
| "overlay_asked (PresentationControllerChanged vc) W \<longleftrightarrow> True"
| "overlay_asked (UIDisabledChanged d) W \<longleftrightarrow> True"
| "overlay_asked (WindowChanged win) W \<longleftrightarrow> True"

text \<open>
  The active tab may change again while UI is still being dismissed.  \<^verbatim>\<open>SetActiveWebState\<close> then hides
  the request it takes for the one on screen: the removed one that waits for its dismissal, or else the
  front request of the tab active so far.  \<open>switch_ok\<close> says that there is no such request or that it is
  the one on screen, and \<open>switches_too_early\<close> that an event changes the active tab while this is not so.
  The presenter cancels instead of hiding if the tab of the UI is leaving the window, of which it keeps
  a note until the next change of the active tab.
\<close>

fun changes_active_tab :: "overlay_event \<Rightarrow> overlay_world \<Rightarrow> bool" where
  "changes_active_tab (TabInserted w i activating) W \<longleftrightarrow> activating"
| "changes_active_tab (TabActivated w) W \<longleftrightarrow> active_web_state W \<noteq> Some w"
| "changes_active_tab (TabDetached i new_active) W \<longleftrightarrow> active_web_state W = Some (browser_tabs W ! i)"
| "changes_active_tab NoTabActive W \<longleftrightarrow> active_web_state W \<noteq> None"
| "changes_active_tab _ W \<longleftrightarrow> False"

fun tab_of_ui_leaves :: "overlay_event \<Rightarrow> overlay_world \<Rightarrow> bool" where
  "tab_of_ui_leaves (TabDetached i new_active) W \<longleftrightarrow> presented_from_tab (browser_tabs W ! i) W"
| "tab_of_ui_leaves _ W \<longleftrightarrow> detaching_presenting_web_state W"

definition switches_too_early :: "overlay_event \<Rightarrow> overlay_world \<Rightarrow> bool" where
  "switches_too_early e W \<longleftrightarrow> changes_active_tab e W \<and> \<not> switch_ok W \<and> \<not> tab_of_ui_leaves e W"

text \<open>The events that are handled.\<close>

definition overlay_pre :: "overlay_event \<Rightarrow> overlay_world \<Rightarrow> bool" where
  "overlay_pre e W \<longleftrightarrow> overlay_asked e W \<and> \<not> switches_too_early e W"

lemma overlay_pre_switch [simp]:
  "overlay_pre (TabInserted w i activating) W \<longleftrightarrow> overlay_asked (TabInserted w i activating) W \<and>
     (activating \<longrightarrow> switch_ok W \<or> detaching_presenting_web_state W)"
  "overlay_pre (TabActivated w) W \<longleftrightarrow> overlay_asked (TabActivated w) W \<and>
     (active_web_state W = Some w \<or> switch_ok W \<or> detaching_presenting_web_state W)"
  "overlay_pre (TabDetached i new_active) W \<longleftrightarrow> overlay_asked (TabDetached i new_active) W \<and>
     (active_web_state W = Some (browser_tabs W ! i) \<longrightarrow> switch_ok W \<or> presented_from_tab (browser_tabs W ! i) W)"
  "overlay_pre NoTabActive W \<longleftrightarrow> active_web_state W = None \<or> switch_ok W \<or> detaching_presenting_web_state W"
  by (auto simp: overlay_pre_def switches_too_early_def)

lemma overlay_pre_other [simp]:
  "\<not> changes_active_tab e W \<Longrightarrow> overlay_pre e W = overlay_asked e W"
  by (simp add: overlay_pre_def switches_too_early_def)

text \<open>Fields the invariant does not read.\<close>

lemma base_inv_other:
  "base_inv T (W\<lparr>browser_tabs := ts\<rparr>) = base_inv T W"
  "base_inv T (W\<lparr>detaching_presenting_web_state := b\<rparr>) = base_inv T W"
  by (simp_all add: base_inv_def core_inv_def inv_defs ctx_idle_def ctx_busy_def requests_of_def owner_def
      shown_def GetRequestUIState_def cong: option.case_cong)

lemma comes_freshD:
  assumes "comes_fresh w W"
  shows "w \<notin> set (browser_tabs W)" "w \<notin> set (destroyed_web_states W)" "detached_presenting_request_queue W \<noteq> Some w"
    "\<And>p. detached_queue_replaced_delegate W \<Longrightarrow> context_request W = Some p \<Longrightarrow> p \<notin> set (requests_of W w)"
  using assms by (auto simp: comes_fresh_def)

lemma front_request_requests_of: "front_request (queues W w) = (case requests_of W w of [] \<Rightarrow> None | r # rs \<Rightarrow> Some r)"
  by (cases "request_storages (queues W w)") (simp_all add: front_request_def requests_of_def)

lemma switch_ok_frame:
  assumes "same_tabs W V" "only_queues W V"
  shows "switch_ok V = switch_ok W"
proof -
  have "front_request (queues V w) = front_request (queues W w)" for w
    using assms(2) by (simp add: front_request_requests_of only_queues_def)
  then have "previously_active V = previously_active W"
    using assms by (simp add: previously_active_def same_tabs_def only_queues_def cong: option.case_cong)
  then show ?thesis using assms(2) by (simp add: switch_ok_def only_queues_def)
qed

section \<open>Changes of the tab list\<close>

lemma tab_inserted_inv:
  assumes inv: "overlay_inv W" and pre: "overlay_pre (TabInserted w i activating) W"
  shows "\<exists>W'. overlay_exec E (TabInserted w i activating) W = Inr W' \<and> overlay_inv W'"
proof -
  let ?T = "set (browser_tabs W)"
  let ?V = "W\<lparr>browser_tabs := insert_at i w (browser_tabs W)\<rparr>"
  have i: "i \<le> length (browser_tabs W)" and fresh: "comes_fresh w W" using pre by auto
  have base: "base_inv ?T ?V" using inv by (simp add: base_inv_other overlay_inv_def)
  have "comes_fresh w W \<Longrightarrow> \<exists>W'. WebStateAddedToBrowser E w ?V = Inr W' \<and> base_inv (insert w ?T) W' \<and>
      same_tabs ?V W' \<and> only_queues ?V W'"
    by (rule added_inv [OF base]) (use comes_freshD [of w W] requests_of_cong [of ?V W] in auto)
  then obtain V where V: "WebStateAddedToBrowser E w ?V = Inr V" "base_inv (insert w ?T) V" "same_tabs ?V V"
    "only_queues ?V V" using fresh by blast
  have tabs: "browser_tabs V = insert_at i w (browser_tabs W)" "active_web_state V = active_web_state W"
    using V(3) by (simp_all add: same_tabs_def)
  have T: "set (browser_tabs V) = insert w ?T" "distinct (browser_tabs V)"
    using tabs i comes_freshD(1) [OF fresh] inv
    by (simp_all add: set_insert_at distinct_insert_at overlay_inv_def)
  have act: "active_web_state W = Some v \<Longrightarrow> v \<in> ?T" for v using inv by (simp add: overlay_inv_def)
  show ?thesis
  proof (cases activating)
    case False
    then show ?thesis using V(1,2) T tabs act by (simp add: overlay_inv_def)
  next
    case True
    have "switch_ok ?V = switch_ok W" by (simp add: switch_ok_def previously_active_def cong: option.case_cong)
    then have "switch_ok V \<or> detaching_presenting_web_state V"
      using switch_ok_frame [OF V(3,4)] V(4) pre True by (auto simp: only_queues_def)
    then obtain W' where "SetActiveWebState E (Some w) Inserted V = Inr W'" "base_inv (insert w ?T) W'"
        "active_web_state W' = Some w" "browser_tabs W' = browser_tabs V"
      using set_active_inv [OF V(2), of "Some w" Inserted E] by auto
    then show ?thesis using True V(1) T by (simp add: overlay_inv_def)
  qed
qed

lemma tab_activated_inv:
  assumes inv: "overlay_inv W" and pre: "overlay_pre (TabActivated w) W"
  shows "\<exists>W'. overlay_exec E (TabActivated w) W = Inr W' \<and> overlay_inv W'"
proof -
  have b: "base_inv (set (browser_tabs W)) W" using inv by (simp add: overlay_inv_def)
  obtain W' where "SetActiveWebState E (Some w) Activated W = Inr W'" "base_inv (set (browser_tabs W)) W'"
      "active_web_state W' = Some w" "browser_tabs W' = browser_tabs W"
    using set_active_inv [OF b, of "Some w" Activated E] pre by auto
  then show ?thesis using inv pre by (simp add: overlay_inv_def)
qed

lemma no_tab_active_inv:
  assumes inv: "overlay_inv W" and pre: "overlay_pre NoTabActive W"
  shows "\<exists>W'. overlay_exec E NoTabActive W = Inr W' \<and> overlay_inv W'"
proof -
  have b: "base_inv (set (browser_tabs W)) W" using inv by (simp add: overlay_inv_def)
  obtain W' where "SetActiveWebState E None Closed W = Inr W'" "base_inv (set (browser_tabs W)) W'"
      "active_web_state W' = None" "browser_tabs W' = browser_tabs W"
    using set_active_inv [OF b, of None Closed E] pre by auto
  then show ?thesis using inv by (simp add: overlay_inv_def)
qed

lemma tab_moved_inv:
  assumes inv: "overlay_inv W" and pre: "overlay_pre (TabMoved i j) W"
  shows "\<exists>W'. overlay_exec E (TabMoved i j) W = Inr W' \<and> overlay_inv W'"
  using assms set_move [of "browser_tabs W" i j] distinct_move [of "browser_tabs W" i j]
  by (simp add: overlay_inv_def base_inv_other)

lemma tab_replaced_inv:
  assumes inv: "overlay_inv W" and pre: "overlay_pre (TabReplaced i new) W"
  shows "\<exists>W'. overlay_exec E (TabReplaced i new) W = Inr W' \<and> overlay_inv W'"
proof -
  let ?T = "set (browser_tabs W)"
  let ?old = "browser_tabs W ! i"
  let ?V = "W\<lparr>browser_tabs := (browser_tabs W)[i := new]\<rparr>"
  have i: "i < length (browser_tabs W)" and fresh: "comes_fresh new W" using pre by auto
  have base: "base_inv ?T ?V" using inv by (simp add: base_inv_other overlay_inv_def)
  have ne: "new \<noteq> ?old" using comes_freshD(1) [OF fresh] i by auto
  obtain V where V: "WebStateRemovedFromBrowser E ?old ?V = Inr V" "base_inv (?T - {?old}) V" "same_tabs ?V V"
    "only_queues ?V V"
    "\<And>v. v \<noteq> ?old \<Longrightarrow> detached_presenting_request_queue V = Some v \<Longrightarrow> detached_presenting_request_queue ?V = Some v"
    using removed_inv [OF base, of ?old E] i by auto
  have ro: "requests_of ?V = requests_of W" by (rule requests_of_cong) simp
  have "\<exists>U. WebStateAddedToBrowser E new V = Inr U \<and> base_inv (insert new (?T - {?old})) U \<and> same_tabs V U \<and> only_queues V U"
    by (rule added_inv [OF V(2)])
      (use comes_freshD [OF fresh] V(3-5) ne ro in \<open>auto simp: same_tabs_def only_queues_def\<close>)
  then obtain U where U: "WebStateAddedToBrowser E new V = Inr U" "base_inv (insert new (?T - {?old})) U"
    "same_tabs V U" by blast
  have dist: "distinct (browser_tabs W)" using inv by (simp add: overlay_inv_def)
  have tabs: "browser_tabs U = (browser_tabs W)[i := new]" "active_web_state U = active_web_state W"
    using V(3) U(3) by (simp_all add: same_tabs_def)
  have T: "set (browser_tabs U) = insert new (?T - {?old})" "distinct (browser_tabs U)"
    using tabs dist i comes_freshD(1) [OF fresh] set_list_update_distinct [OF dist i]
    by (simp_all add: distinct_list_update)
  let ?new = "if active_web_state W = Some ?old then Some new else active_web_state W"
  have newT: "v \<in> insert new (?T - {?old})" if "?new = Some v" for v
    using that inv by (auto simp: overlay_inv_def split: if_splits)
  obtain W' where W': "SetActiveWebState E ?new Replaced U = Inr W'" "base_inv (insert new (?T - {?old})) W'"
      "active_web_state W' = ?new" "browser_tabs W' = browser_tabs U"
    using set_active_inv [OF U(2) newT, where reason = Replaced and E = E] by blast
  have "overlay_exec E (TabReplaced i new) W = Inr W'" using V(1) U(1) W'(1) by (simp add: Let_def)
  moreover have "overlay_inv W'" unfolding overlay_inv_def W'(4) T(1) using W'(2,3) T(2) newT by simp
  ultimately show ?thesis by blast
qed

lemma tab_detached_inv:
  assumes inv: "overlay_inv W" and pre: "overlay_pre (TabDetached i new) W"
  shows "\<exists>W'. overlay_exec E (TabDetached i new) W = Inr W' \<and> overlay_inv W'"
proof -
  let ?T = "set (browser_tabs W)"
  let ?w = "browser_tabs W ! i"
  have i: "i < length (browser_tabs W)" using pre by simp
  let ?b = "presented_from_tab ?w W"
  let ?V = "W\<lparr>detaching_presenting_web_state := ?b\<rparr>"
  have base: "base_inv ?T ?V" using inv by (simp add: base_inv_other overlay_inv_def)
  have frm: "presented_request_is_from ?w W = Inr ?b"
    using presented_from base_invD(2) inv unfolding presented_from_tab_def overlay_inv_def by blast
  have fromV: "presented_from_tab ?w ?V = ?b" by (simp add: presented_from_tab_def owner_def cong: option.case_cong)
  obtain V where V: "WebStateRemovedFromBrowser E ?w ?V = Inr V" "base_inv (?T - {?w}) V" "same_tabs ?V V"
    "only_queues ?V V"
    using removed_inv [OF base, of ?w E] i fromV by auto
  let ?U = "V\<lparr>browser_tabs := remove_at i (browser_tabs V)\<rparr>"
  have dist: "distinct (browser_tabs W)" using inv by (simp add: overlay_inv_def)
  have tabs: "browser_tabs ?U = remove_at i (browser_tabs W)" "active_web_state ?U = active_web_state W"
    using V(3) by (simp_all add: same_tabs_def)
  have T: "set (browser_tabs ?U) = ?T - {?w}" "distinct (browser_tabs ?U)"
    using tabs(1) set_remove_at_distinct [OF dist i] dist by (simp_all add: distinct_remove_at)
  have U: "base_inv (?T - {?w}) ?U" using V(2) by (simp add: base_inv_other)
  show ?thesis
  proof (cases "active_web_state W = Some ?w")
    case False
    then have "overlay_exec E (TabDetached i new) W = Inr ?U" using frm V(1) by (simp add: Let_def)
    moreover have "active_web_state ?U = Some v \<Longrightarrow> v \<in> set (browser_tabs ?U)" for v
      using False inv tabs(2) T(1) by (auto simp: overlay_inv_def)
    ultimately show ?thesis using U T unfolding overlay_inv_def by (metis T)
  next
    case True
    have newT: "new = Some v \<Longrightarrow> v \<in> ?T - {?w}" for v using pre True by auto
    have "switch_ok ?U = switch_ok V" by (simp add: switch_ok_def previously_active_def cong: option.case_cong)
    moreover have "switch_ok ?V = switch_ok W" by (simp add: switch_ok_def previously_active_def cong: option.case_cong)
    ultimately have "switch_ok ?U = switch_ok W" using switch_ok_frame [OF V(3,4)] by simp
    then have sw: "switch_ok ?U \<or> Closed = Replaced \<or> detaching_presenting_web_state ?U \<or> active_web_state ?U = new"
      using pre True V(4) by (auto simp: only_queues_def)
    obtain W' where W': "SetActiveWebState E new Closed ?U = Inr W'" "base_inv (?T - {?w}) W'"
        "active_web_state W' = new" "browser_tabs W' = browser_tabs ?U"
      using set_active_inv [OF U newT sw, where E = E] by blast
    have "overlay_exec E (TabDetached i new) W = Inr W'" using True frm V(1) W'(1) by (simp add: Let_def)
    moreover have "overlay_inv W'" unfolding overlay_inv_def W'(4) T(1) using W'(2,3) T(2) newT by simp
    ultimately show ?thesis by blast
  qed
qed

section \<open>Every event\<close>

lemma overlay_inv_same_tabs: "base_inv (set (browser_tabs W)) W' \<Longrightarrow> overlay_inv W \<Longrightarrow> same_tabs W W' \<Longrightarrow> overlay_inv W'"
  by (simp add: overlay_inv_def same_tabs_def)

lemma view_controllers_core:
  "same_core W (W\<lparr>container_view_controller := c\<rparr>)"
  "same_core W (W\<lparr>presentation_context_view_controller := c\<rparr>)" "same_core W (W\<lparr>ui_disabled := d\<rparr>)"
  "same_core W (W\<lparr>window := win\<rparr>)" "same_core W (W\<lparr>context_delegate := cd\<rparr>)"
  "same_core W (W\<lparr>container_view_controller := c, presentation_context_view_controller := c'\<rparr>)"
  by (simp_all add: same_core_def)

lemma context_event_inv:
  assumes inv: "overlay_inv W" and core: "same_core W V"
  shows "\<exists>W'. UpdatePresentationCapabilities E V = Inr W' \<and> overlay_inv W' \<and> same_pending V W' \<and>
    (ConstructPresentationCapabilities V = kNone \<and> context_request V = None \<longrightarrow> context_request W' = None)"
proof -
  let ?T = "set (browser_tabs W)"
  have b: "base_inv ?T V" using inv base_inv_core [OF core] by (simp add: overlay_inv_def)
  have "active_web_state V = Some v \<Longrightarrow> v \<in> ?T" for v using inv core by (simp add: overlay_inv_def same_core_def)
  from update_capabilities_inv [OF b this] obtain W' where W': "UpdatePresentationCapabilities E V = Inr W'"
    "base_inv ?T W'" "same_pending V W'"
    "ConstructPresentationCapabilities V = kNone \<and> context_request V = None \<longrightarrow> context_request W' = None" by blast
  have "same_tabs W W'" using W'(3) core by (simp add: same_pending_def same_tabs_def same_core_def)
  then show ?thesis using W' overlay_inv_same_tabs [OF W'(2) inv] by blast
qed

lemma reset_context_inv:
  assumes inv: "overlay_inv W" and pre: "overlay_pre (ContextDelegateChanged d) W"
  shows "\<exists>W'. SetContextDelegate E d W = Inr W' \<and> overlay_inv W'"
proof (cases "context_delegate W = d")
  case True
  then show ?thesis using inv by (simp add: SetContextDelegate_def)
next
  case False
  let ?V = "W\<lparr>container_view_controller := None, presentation_context_view_controller := None\<rparr>"
  have c: "ConstructPresentationCapabilities ?V = kNone" by (simp add: ConstructPresentationCapabilities_def kNone_def)
  obtain U where U: "UpdatePresentationCapabilities E ?V = Inr U" "overlay_inv U" "same_pending ?V U"
    "context_request ?V = None \<longrightarrow> context_request U = None"
    using context_event_inv [OF inv view_controllers_core(6), where E = E] c by blast
  let ?X = "U\<lparr>context_delegate := d\<rparr>"
  let ?T = "set (browser_tabs U)"
  have b: "base_inv ?T ?X" using U(2) base_inv_core [OF view_controllers_core(5)] by (simp add: overlay_inv_def)
  have "\<exists>W'. SetPresentationContext E (d \<noteq> None) ?X = Inr W' \<and> base_inv ?T W' \<and> same_tabs ?X W'"
    by (rule set_context_inv [OF b]) (use U(2-4) pre False in \<open>auto simp: overlay_inv_def same_pending_def\<close>)
  then obtain W' where W': "SetPresentationContext E (d \<noteq> None) ?X = Inr W'" "base_inv ?T W'" "same_tabs ?X W'" by blast
  have "SetContextDelegate E d W = Inr W'" using False U(1) W'(1) by (simp add: SetContextDelegate_def)
  moreover have "same_tabs U W'" using W'(3) by (simp add: same_tabs_def)
  ultimately show ?thesis using overlay_inv_same_tabs [OF W'(2) U(2)] by blast
qed

lemma present_overlay_inv:
  assumes "overlay_inv W" "\<not> presenting W"
  shows "\<exists>W'. PresentOverlayForActiveRequest E W = Inr W' \<and> overlay_inv W'"
  using present_inv [of "set (browser_tabs W)" W E] assms overlay_inv_same_tabs
  unfolding overlay_inv_def by metis

lemma overlay_inv_core: "overlay_inv W \<Longrightarrow> same_core W V \<Longrightarrow> overlay_inv V"
  using base_inv_core [of W V] by (simp add: overlay_inv_def same_core_def)

lemma ui_disabled_inv:
  assumes "overlay_inv W"
  shows "\<exists>W'. SetUIDisabled E d W = Inr W' \<and> overlay_inv W'"
proof (cases "ui_disabled W = d")
  case True
  then show ?thesis using assms by (simp add: SetUIDisabled_def)
next
  case False
  obtain U where U: "UpdatePresentationCapabilities E (W\<lparr>ui_disabled := d\<rparr>) = Inr U" "overlay_inv U"
    using context_event_inv [OF assms view_controllers_core(3), where E = E] by blast
  have link: "context_observed U = presentation_context U"
    using base_invD(4) [of _ U] U(2) by (auto simp: overlay_inv_def link_ok_def)
  obtain W' where "PresentOverlayForActiveRequest E U = Inr W' \<and> overlay_inv W' \<or> presenting U"
    using present_overlay_inv [OF U(2), where E = E] by blast
  then show ?thesis using False U link by (auto simp: SetUIDisabled_def ContextDidEnableUI_def)
qed

lemma window_inv:
  assumes "overlay_inv W"
  shows "\<exists>W'. SetWindow E win W = Inr W' \<and> overlay_inv W'"
proof -
  let ?V = "W\<lparr>window := win\<rparr>"
  have V: "overlay_inv ?V" using overlay_inv_core [OF assms view_controllers_core(4)] .
  have link: "context_observed W = presentation_context W"
    using base_invD(4) [of _ W] assms by (auto simp: overlay_inv_def link_ok_def)
  obtain W' where "PresentOverlayForActiveRequest E ?V = Inr W' \<and> overlay_inv W' \<or> presenting W"
    using present_overlay_inv [OF V, where E = E] by auto
  then show ?thesis using assms V link by (auto simp: SetWindow_def ContextDidMoveToWindow_def)
qed

lemma overlay_exec_inv:
  assumes inv: "overlay_inv W" and pre: "overlay_pre e W"
  shows "\<exists>W'. overlay_exec E e W = Inr W' \<and> overlay_inv W'"
proof -
  let ?T = "set (browser_tabs W)"
  have b: "base_inv ?T W" and act: "\<And>v. active_web_state W = Some v \<Longrightarrow> v \<in> ?T"
    using inv by (simp_all add: overlay_inv_def)
  have fin: "\<exists>W'. m = Inr W' \<and> overlay_inv W'" if "\<exists>W'. m = Inr W' \<and> base_inv ?T W' \<and> same_tabs W W'" for m
    using that overlay_inv_same_tabs [OF _ inv] by blast
  show ?thesis
  proof (cases e)
    case (ClientAddsRequest w i r cbs h)
    have "\<exists>W'. overlay_exec E e W = Inr W' \<and> base_inv ?T W' \<and> same_tabs W W'"
      unfolding ClientAddsRequest by (rule add_request_inv [OF b _ _ act]) (use pre ClientAddsRequest in auto)
    then show ?thesis by (rule fin)
  next
    case (ClientCancelsRequest w r)
    then show ?thesis using fin [OF cancel_request_inv [OF b, of E w r]] by simp
  next
    case (ClientCancelsAll w)
    have "\<exists>W'. CancelAllRequests E w W = Inr W' \<and> base_inv ?T W' \<and> same_tabs W W'"
      using CancelAllRequests_empties [OF b] by blast
    from fin [OF this] show ?thesis using ClientCancelsAll by simp
  next
    case (TabHandedOver w d)
    have "\<exists>W'. SetDelegate E w d W = Inr W' \<and> base_inv ?T W' \<and> same_tabs W W'"
      by (rule handed_over_inv [OF b]) (use pre TabHandedOver in auto)
    from fin [OF this] show ?thesis using TabHandedOver by simp
  next
    case (TabDestroyed w)
    have "active_web_state W \<noteq> Some w" using pre TabDestroyed act by auto
    then obtain W' where "destroy_queue E w W = Inr W'" "base_inv ?T W'" "browser_tabs W' = browser_tabs W"
      "active_web_state W' = active_web_state W" using destroy_queue_inv [OF b, of w E] pre TabDestroyed by auto
    then show ?thesis using TabDestroyed inv by (simp add: overlay_inv_def)
  next
    case (UIDismissed r)
    then have "\<exists>W'. overlay_exec E e W = Inr W' \<and> base_inv ?T W' \<and> same_tabs W W'"
      using ui_dismissed_inv [OF b act, of r E] pre by simp
    then show ?thesis by (rule fin)
  next
    case (ContainerChanged vc)
    then show ?thesis using inv context_event_inv [OF inv view_controllers_core(1), where E = E]
      by (auto simp: SetContainerViewController_def)
  next
    case (PresentationControllerChanged vc)
    then show ?thesis using inv context_event_inv [OF inv view_controllers_core(2), where E = E]
      by (auto simp: SetPresentationContextViewController_def)
  next
    case (UIDisabledChanged d)
    then show ?thesis using ui_disabled_inv [OF inv] by simp
  next
    case (WindowChanged win)
    then show ?thesis using window_inv [OF inv] by simp
  next
    case (ContextDelegateChanged d)
    then show ?thesis using reset_context_inv [OF inv] pre by simp
  next
    case (TabInserted w i activating)
    show ?thesis unfolding TabInserted by (rule tab_inserted_inv [OF inv pre [unfolded TabInserted]])
  next
    case (TabActivated w)
    show ?thesis unfolding TabActivated by (rule tab_activated_inv [OF inv pre [unfolded TabActivated]])
  next
    case (TabReplaced i new)
    show ?thesis unfolding TabReplaced by (rule tab_replaced_inv [OF inv pre [unfolded TabReplaced]])
  next
    case (TabDetached i new_active)
    show ?thesis unfolding TabDetached by (rule tab_detached_inv [OF inv pre [unfolded TabDetached]])
  next
    case (TabMoved i j)
    show ?thesis unfolding TabMoved by (rule tab_moved_inv [OF inv pre [unfolded TabMoved]])
  next
    case NoTabActive
    show ?thesis unfolding NoTabActive by (rule no_tab_active_inv [OF inv pre [unfolded NoTabActive]])
  qed
qed

text \<open>The events that come too early are the others that are asked for.\<close>

lemma added_steps:
  assumes "overlay_inv W" "comes_fresh w W"
  shows "\<exists>V. WebStateAddedToBrowser E w (W\<lparr>browser_tabs := insert_at i w (browser_tabs W)\<rparr>) = Inr V \<and>
    base_inv (insert w (set (browser_tabs W))) V \<and> active_web_state V = active_web_state W \<and>
    switch_ok V = switch_ok W \<and> detaching_presenting_web_state V = detaching_presenting_web_state W"
proof -
  let ?V = "W\<lparr>browser_tabs := insert_at i w (browser_tabs W)\<rparr>"
  have base: "base_inv (set (browser_tabs W)) ?V" using assms(1) by (simp add: base_inv_other overlay_inv_def)
  obtain V where V: "WebStateAddedToBrowser E w ?V = Inr V" "base_inv (insert w (set (browser_tabs W))) V" "same_tabs ?V V"
      "only_queues ?V V"
    using added_inv [OF base, of w E] comes_freshD [OF assms(2)] requests_of_cong [of ?V W] by auto
  have "switch_ok ?V = switch_ok W" by (simp add: switch_ok_def previously_active_def cong: option.case_cong)
  then show ?thesis using V switch_ok_frame [OF V(3,4)] by (auto simp: same_tabs_def only_queues_def)
qed

lemma detached_steps:
  assumes "overlay_inv W" "i < length (browser_tabs W)"
  defines "w \<equiv> browser_tabs W ! i"
  shows "\<exists>V. on_web_state_list E (WillDetachWebStateAt w (int i)) W = Inr V \<and> base_inv (set (browser_tabs W) - {w}) V \<and>
    active_web_state V = active_web_state W \<and> browser_tabs V = browser_tabs W \<and> switch_ok V = switch_ok W \<and>
    detaching_presenting_web_state V = presented_from_tab w W"
proof -
  let ?b = "presented_from_tab w W" and ?T = "set (browser_tabs W)"
  let ?V = "W\<lparr>detaching_presenting_web_state := ?b\<rparr>"
  have base: "base_inv ?T ?V" using assms(1) by (simp add: base_inv_other overlay_inv_def)
  have "presented_request_is_from w W = Inr ?b"
    using presented_from base_invD(2) assms(1) unfolding presented_from_tab_def overlay_inv_def by blast
  moreover obtain V where V: "WebStateRemovedFromBrowser E w ?V = Inr V" "base_inv (?T - {w}) V" "same_tabs ?V V" "only_queues ?V V"
    using removed_inv [OF base, of w E] assms(2) by (auto simp: w_def)
  moreover have "switch_ok ?V = switch_ok W" by (simp add: switch_ok_def previously_active_def cong: option.case_cong)
  ultimately show ?thesis using switch_ok_frame [OF V(3,4)] by (auto simp: same_tabs_def only_queues_def)
qed

lemma early_switch_fails:
  assumes inv: "overlay_inv W" and asked: "overlay_asked e W" and early: "switches_too_early e W"
  shows "overlay_exec E e W = Inl (DCheckFailed ''request_ == request'')"
proof -
  have b: "base_inv (set (browser_tabs W)) W" using inv by (simp add: overlay_inv_def)
  have sw: "changes_active_tab e W" "\<not> switch_ok W" "\<not> tab_of_ui_leaves e W"
    using early by (simp_all add: switches_too_early_def)
  show ?thesis
  proof (cases e)
    case (TabInserted w i activating)
    then obtain V where V: "WebStateAddedToBrowser E w (W\<lparr>browser_tabs := insert_at i w (browser_tabs W)\<rparr>) = Inr V"
      "base_inv (insert w (set (browser_tabs W))) V" "active_web_state V = active_web_state W" "switch_ok V = switch_ok W"
      "detaching_presenting_web_state V = detaching_presenting_web_state W"
      using added_steps [OF inv, of w E i] asked by auto
    have "active_web_state W \<noteq> Some w" using asked TabInserted inv by (auto simp: comes_fresh_def overlay_inv_def)
    then have "SetActiveWebState E (Some w) Inserted V = Inl (DCheckFailed ''request_ == request'')"
      using set_active_early [OF V(2), of Inserted "Some w" E] V sw TabInserted by simp
    then show ?thesis using TabInserted sw(1) V(1) by simp
  next
    case (TabActivated w)
    then show ?thesis using set_active_early [OF b sw(2), of Activated "Some w" E] sw by simp
  next
    case (TabDetached i new)
    let ?w = "browser_tabs W ! i"
    obtain V where V: "on_web_state_list E (WillDetachWebStateAt ?w (int i)) W = Inr V" "base_inv (set (browser_tabs W) - {?w}) V"
      "active_web_state V = active_web_state W" "browser_tabs V = browser_tabs W" "switch_ok V = switch_ok W"
      "detaching_presenting_web_state V = presented_from_tab ?w W"
      using detached_steps [OF inv, of i E] asked TabDetached by auto
    let ?U = "V\<lparr>browser_tabs := remove_at i (browser_tabs V)\<rparr>"
    have u: "switch_ok ?U = switch_ok V" by (simp add: switch_ok_def previously_active_def cong: option.case_cong)
    have "active_web_state W \<noteq> new" using asked TabDetached sw(1) by (auto split: option.splits)
    then have "SetActiveWebState E new Closed ?U = Inl (DCheckFailed ''request_ == request'')"
      using set_active_early [of "set (browser_tabs W) - {?w}" ?U Closed new E] V u sw TabDetached by (simp add: base_inv_other)
    then show ?thesis using TabDetached sw(1) V(1) by (simp add: Let_def)
  next
    case NoTabActive
    then show ?thesis using set_active_early [OF b sw(2), of Closed None E] sw by simp
  qed (use sw in simp_all)
qed

text \<open>The worlds the events can lead to.\<close>

abbreviation overlay_start :: "overlay_world \<Rightarrow> bool" where
  "overlay_start W \<equiv> \<exists>obs. W = initial_overlay_world obs"

abbreviation overlay_run :: "overlay_env \<Rightarrow> overlay_event list \<Rightarrow> overlay_world \<Rightarrow> overlay_world res" where
  "overlay_run E \<equiv> run_events (overlay_exec E)"

abbreviation overlay_allowed :: "overlay_env \<Rightarrow> overlay_event list \<Rightarrow> overlay_world \<Rightarrow> bool" where
  "overlay_allowed E \<equiv> allowed_events overlay_pre (overlay_exec E)"

abbreviation overlay_reachable :: "overlay_env \<Rightarrow> overlay_world \<Rightarrow> bool" where
  "overlay_reachable E \<equiv> reachable_from overlay_start overlay_pre (overlay_exec E)"

lemma overlay_inv_initial: "overlay_inv (initial_overlay_world obs)"
  by (simp add: overlay_inv_def base_inv_def core_inv_def inv_defs ctx_idle_def requests_of_def
      initial_overlay_world_def empty_queue_def)

interpretation overlays: event_system overlay_start overlay_pre "overlay_exec E" overlay_inv for E
  by unfold_locales (use overlay_inv_initial overlay_exec_inv in blast)+

interpretation asked: event_invariant overlay_start overlay_asked "overlay_exec E" overlay_inv for E
proof unfold_locales
  show "overlay_inv W" if "overlay_start W" for W using that overlay_inv_initial by blast
next
  fix W e W'
  assume a: "overlay_inv W" "overlay_asked e W" "overlay_exec E e W = Inr W'"
  then have "overlay_pre e W" using early_switch_fails [OF a(1,2), of E] by (auto simp: overlay_pre_def)
  then show "overlay_inv W'" using overlay_exec_inv [OF a(1), of e E] a(3) by auto
qed

text \<open>Events that are not handled lead nowhere, so the same worlds are reached.\<close>

lemma asked_reachable: "reachable_from overlay_start overlay_asked (overlay_exec E) W \<longleftrightarrow> overlay_reachable E W"
proof
  show "overlay_reachable E W" if "reachable_from overlay_start overlay_asked (overlay_exec E) W"
    using that
  proof (induction rule: reachable_from.induct)
    case (step W e W')
    then have "overlay_pre e W" using early_switch_fails [OF asked.reachable_inv [OF step.hyps(1)]] by (fastforce simp: overlay_pre_def)
    then show ?case using reachable_from.step [OF step.IH] step.hyps(3) by blast
  qed (rule reachable_from.start)
  show "reachable_from overlay_start overlay_asked (overlay_exec E) W" if "overlay_reachable E W"
    using that
  proof (induction rule: reachable_from.induct)
    case (step W e W')
    then show ?case using reachable_from.step [OF step.IH] by (auto simp: overlay_pre_def)
  qed (rule reachable_from.start)
qed

end
