(* ===== verification/Overlay_Properties.thy ===== *)
theory Overlay_Properties
  imports Overlay_Safety
begin

text \<open>
  The properties of the overlay system: safety of every event, validity of what is on screen, the end of
  a dismissal by the user, cancellation, the search helper of
  \<^verbatim>\<open>overlay_request_queue_util.cc\<close>, and two sequences of events the presenter does not handle.
\<close>

section \<open>Searching a queue through its interface\<close>

text \<open>
  \<^verbatim>\<open>GetIndexOfMatchingRequest\<close> only uses \<^verbatim>\<open>size()\<close> and \<^verbatim>\<open>GetRequest(i)\<close> of the
  abstract \<^verbatim>\<open>OverlayRequestQueue\<close>; the out-parameter is the result \<open>Some index\<close>.
\<close>

function matching_request_from ::
    "('q \<Rightarrow> nat) \<Rightarrow> (nat \<Rightarrow> 'q \<Rightarrow> request res) \<Rightarrow> (request \<Rightarrow> bool) \<Rightarrow> 'q \<Rightarrow> nat \<Rightarrow> nat option res" where
  "matching_request_from qsize get matcher q i =
     (if i < qsize q
      then rbind (get i q) (\<lambda>r. if matcher r then Inr (Some i)
             else matching_request_from qsize get matcher q (Suc i))
      else Inr None)"
  by pat_completeness auto
termination by (relation "measure (\<lambda>(qsize, get, matcher, q, i). qsize q - i)") auto

declare matching_request_from.simps [simp del]

definition GetIndexOfMatchingRequest :: "request_queue \<Rightarrow> (request \<Rightarrow> bool) \<Rightarrow> nat option res" where
  "GetIndexOfMatchingRequest q matcher = matching_request_from queue_size GetRequest matcher q 0"

locale overlay_request_queue =
  fixes qsize :: "'q \<Rightarrow> nat" and get :: "nat \<Rightarrow> 'q \<Rightarrow> request res" and front :: "'q \<Rightarrow> request option"
  assumes get_in_range: "i < qsize q \<Longrightarrow> is_ok (get i q)"
    and front_empty: "qsize q = 0 \<Longrightarrow> front q = None"
    and front_get: "0 < qsize q \<Longrightarrow> get 0 q = Inr r \<Longrightarrow> front q = Some r"
begin

lemma matching_from:
  "\<exists>res. matching_request_from qsize get matcher q i = Inr res \<and>
     (case res of
        None \<Rightarrow> \<forall>j r. i \<le> j \<longrightarrow> j < qsize q \<longrightarrow> get j q = Inr r \<longrightarrow> \<not> matcher r
      | Some k \<Rightarrow> i \<le> k \<and> k < qsize q \<and> (\<exists>r. get k q = Inr r \<and> matcher r) \<and>
          (\<forall>j r. i \<le> j \<longrightarrow> j < k \<longrightarrow> get j q = Inr r \<longrightarrow> \<not> matcher r))"
proof (induction "qsize q - i" arbitrary: i)
  case 0
  then have "matching_request_from qsize get matcher q i = Inr None"
    by (subst matching_request_from.simps) simp
  then show ?case using 0 by auto
next
  case (Suc n)
  then have i: "i < qsize q" by simp
  then obtain r where r: "get i q = Inr r" using get_in_range by (auto simp: is_ok_iff)
  show ?case
  proof (cases "matcher r")
    case True
    then have "matching_request_from qsize get matcher q i = Inr (Some i)"
      using i r by (subst matching_request_from.simps) simp
    then show ?thesis using i r True by auto
  next
    case False
    have eq: "matching_request_from qsize get matcher q i = matching_request_from qsize get matcher q (Suc i)"
      using i r False by (subst matching_request_from.simps) simp
    have n: "n = qsize q - Suc i" using Suc.hyps(2) by simp
    have split: "i \<le> j \<longleftrightarrow> j = i \<or> Suc i \<le> j" for j by auto
    obtain res where res: "matching_request_from qsize get matcher q (Suc i) = Inr res"
      "case res of None \<Rightarrow> \<forall>j r. Suc i \<le> j \<longrightarrow> j < qsize q \<longrightarrow> get j q = Inr r \<longrightarrow> \<not> matcher r
       | Some k \<Rightarrow> Suc i \<le> k \<and> k < qsize q \<and> (\<exists>r. get k q = Inr r \<and> matcher r) \<and>
          (\<forall>j r. Suc i \<le> j \<longrightarrow> j < k \<longrightarrow> get j q = Inr r \<longrightarrow> \<not> matcher r)"
      using Suc.hyps(1) [of "Suc i"] n by blast
    then show ?thesis unfolding eq split using r False by (cases res) auto
  qed
qed

lemma front_matches:
  assumes "front q = Some r" "matcher r"
  shows "matching_request_from qsize get matcher q 0 = Inr (Some 0)"
proof -
  have pos: "0 < qsize q" using assms(1) front_empty by (cases "qsize q") auto
  then obtain r' where "get 0 q = Inr r'" using get_in_range by (auto simp: is_ok_iff)
  moreover have "r' = r" using front_get [OF pos calculation] assms(1) by simp
  ultimately show ?thesis using pos assms(2) by (subst matching_request_from.simps) simp
qed

end

interpretation queue: overlay_request_queue queue_size GetRequest front_request
  by unfold_locales
    (auto simp: GetRequest_def queue_size_def front_request_def split: list.splits)

text \<open>
  \<^verbatim>\<open>GetIndexOfMatchingRequest\<close> always returns; it finds the first request of the
  queue that satisfies the matcher, and reports failure only if there is none.
\<close>

lemma matching_request_first:
  "\<exists>res. GetIndexOfMatchingRequest q matcher = Inr res \<and>
     (case res of None \<Rightarrow> list_all (\<lambda>s. \<not> matcher (fst s)) (request_storages q)
      | Some k \<Rightarrow> k < queue_size q \<and> matcher (fst (request_storages q ! k)) \<and>
          list_all (\<lambda>s. \<not> matcher (fst s)) (take k (request_storages q)))"
proof -
  have get: "j < queue_size q \<Longrightarrow> GetRequest j q = Inr (fst (request_storages q ! j))" for j
    by (simp add: GetRequest_def)
  obtain res where res: "GetIndexOfMatchingRequest q matcher = Inr res"
    "case res of None \<Rightarrow> \<forall>j r. 0 \<le> j \<longrightarrow> j < queue_size q \<longrightarrow> GetRequest j q = Inr r \<longrightarrow> \<not> matcher r
      | Some k \<Rightarrow> 0 \<le> k \<and> k < queue_size q \<and> (\<exists>r. GetRequest k q = Inr r \<and> matcher r) \<and>
          (\<forall>j r. 0 \<le> j \<longrightarrow> j < k \<longrightarrow> GetRequest j q = Inr r \<longrightarrow> \<not> matcher r)"
    using queue.matching_from [of matcher q 0] unfolding GetIndexOfMatchingRequest_def by blast
  show ?thesis
  proof (cases res)
    case None
    then show ?thesis using res get by (auto simp: list_all_length queue_size_def)
  next
    case (Some k)
    then show ?thesis using res get by (auto simp: list_all_length queue_size_def)
  qed
qed

section \<open>Safety\<close>

text \<open>An environment, and a window with two tabs of which the first shows an overlay.\<close>

definition demo_env :: overlay_env where
  "demo_env = \<lparr>uses_child_view_controller = (\<lambda>_. True), is_request_supported = (\<lambda>_ _. True)\<rparr>"

definition demo_events :: "overlay_event list" where
  "demo_events = [ContainerChanged (Some 5), TabInserted 1 0 True, TabInserted 2 1 False,
     ClientAddsRequest 1 0 100 [CompletedForClient 3] None, ClientAddsRequest 1 1 101 [] None]"

definition demo_world :: overlay_world where
  "demo_world = (case overlay_run demo_env demo_events (initial_overlay_world [7]) of
     Inl _ \<Rightarrow> initial_overlay_world [] | Inr W \<Rightarrow> W)"

lemmas run_simps = demo_env_def demo_events_def demo_world_def initial_overlay_world_def

lemma demo_run: "overlay_allowed demo_env demo_events (initial_overlay_world [7])"
  by code_simp

lemma demo_reachable: "overlay_reachable demo_env demo_world"
proof -
  have "overlay_reachable demo_env (initial_overlay_world [7])" by (rule reachable_from.start) blast
  then show ?thesis using allowed_events_reachable [OF demo_run] by (fastforce simp: demo_world_def)
qed

text \<open>Then the second tab has an overlay too, a third has none, and the second becomes active.\<close>

definition demo_both :: overlay_world where
  "demo_both = (case overlay_run demo_env [ClientAddsRequest 2 0 200 [] None, TabInserted 3 2 False] demo_world of
     Inl _ \<Rightarrow> initial_overlay_world [] | Inr W \<Rightarrow> W)"

definition demo_switched :: overlay_world where
  "demo_switched = (case overlay_exec demo_env (TabActivated 2) demo_both of Inl _ \<Rightarrow> initial_overlay_world [] | Inr W \<Rightarrow> W)"

lemma demo_both_reachable: "overlay_reachable demo_env demo_both"
proof -
  have "overlay_allowed demo_env [ClientAddsRequest 2 0 200 [] None, TabInserted 3 2 False] demo_world" by code_simp
  from allowed_events_reachable [OF this demo_reachable] show ?thesis by (fastforce simp: demo_both_def)
qed

lemma demo_switched_reachable: "overlay_reachable demo_env demo_switched"
proof -
  have "overlay_allowed demo_env [TabActivated 2] demo_both" by code_simp
  from allowed_events_reachable [OF this demo_both_reachable] show ?thesis
    by (cases "overlay_exec demo_env (TabActivated 2) demo_both") (simp_all add: demo_switched_def)
qed



section \<open>What is on screen\<close>

text \<open>
  Property C10.  Presenter and presentation context agree about what is on screen: UI is up exactly while
  the presenter believes it is presenting, and the request it is up for is alive.  Every live request
  has exactly one owner: the queue of one tab, or the presenter, which then keeps it for the dismissal
  of its UI.
\<close>

theorem overlay_ownership:
  assumes "overlay_reachable E W"
  shows "(presentation_context W \<longrightarrow> presenting W = ContextIsShowingOverlayUI W) \<and>
    (\<forall>r. presented_request W = Some r \<longrightarrow> requests W r \<noteq> None \<and> context_request W = Some r) \<and>
    (\<forall>r. requests W r \<noteq> None \<longleftrightarrow>
       removed_request_awaiting_dismissal W = Some r \<or> (\<exists>w. r \<in> set (requests_of W w))) \<and>
    (\<forall>r v w. r \<in> set (requests_of W v) \<and> r \<in> set (requests_of W w) \<longrightarrow> v = w) \<and>
    (\<forall>r. removed_request_awaiting_dismissal W = Some r \<longrightarrow>
       presented_request W = Some r \<and> (\<forall>w. r \<notin> set (requests_of W w)))"
proof -
  have "base_inv (set (browser_tabs W)) W" using overlays.reachable_inv [OF assms] by (simp add: overlay_inv_def)
  note I = base_invD [OF this]
  have own: "r \<in> set (requests_of W w) \<Longrightarrow> owner W r = Some w" for r w using I(1) by (simp add: queues_ok_def)
  have live: "owner W r \<noteq> None \<Longrightarrow> requests W r \<noteq> None" for r by (cases "requests W r") (simp_all add: owner_def)
  have "presentation_context W \<longrightarrow> presenting W = ContextIsShowingOverlayUI W"
    using I(4) ctx_ok_showing [OF I(3)] by (simp add: link_ok_def)
  moreover have "requests W r \<noteq> None \<and> context_request W = Some r" if "presented_request W = Some r" for r
  proof -
    have "\<exists>w. owner W r = Some w" using I(2) that unfolding owned_ok_def by blast
    then have "owner W r \<noteq> None" by auto
    moreover have "context_request W = Some r" using I(4) that unfolding link_ok_def by blast
    ultimately show ?thesis using live by blast
  qed
  moreover have "requests W r \<noteq> None \<longleftrightarrow>
      removed_request_awaiting_dismissal W = Some r \<or> (\<exists>w. r \<in> set (requests_of W w))" for r
  proof
    assume "requests W r \<noteq> None"
    then show "removed_request_awaiting_dismissal W = Some r \<or> (\<exists>w. r \<in> set (requests_of W w))"
      using I(2) unfolding owned_ok_def by blast
  next
    assume "removed_request_awaiting_dismissal W = Some r \<or> (\<exists>w. r \<in> set (requests_of W w))"
    then show "requests W r \<noteq> None"
    proof
      assume "removed_request_awaiting_dismissal W = Some r"
      then show ?thesis using I(2) unfolding owned_ok_def by blast
    next
      assume "\<exists>w. r \<in> set (requests_of W w)"
      then show ?thesis using own live by (metis option.distinct(1))
    qed
  qed
  moreover have "v = w" if "r \<in> set (requests_of W v)" "r \<in> set (requests_of W w)" for r v w
    using own [OF that(1)] own [OF that(2)] by simp
  moreover have "presented_request W = Some r \<and> (\<forall>w. r \<notin> set (requests_of W w))"
    if "removed_request_awaiting_dismissal W = Some r" for r
    using I(2) that unfolding owned_ok_def by blast
  ultimately show ?thesis by blast
qed

theorem overlay_ownership_witness:
  "presenting demo_world \<and> ContextIsShowingOverlayUI demo_world \<and> presented_request demo_world = Some 100 \<and>
   requests demo_world 100 \<noteq> None"
proof -
  have "presenting demo_world" "presentation_context demo_world" "presented_request demo_world = Some 100"
    by code_simp+
  then show ?thesis using overlay_ownership [OF demo_reachable] by blast
qed

section \<open>A dismissal by the user\<close>

lemma presents_can_show:
  assumes "PresentOverlayForActiveRequest E X = Inr Y" "presents X Y" "\<not> presenting X" "tabs_ok T X"
    "active_web_state X = Some w" "front_request (queues X w) = Some r"
  shows "CanShowUIForRequest E r X \<and> presented_request Y = Some r"
proof -
  have Y: "presenting Y" "presented_request Y = Some r" using assms(2,5,6) by (auto simp: presents_def)
  have "GetActiveRequest X = Inr (Some r)" using active_request [OF assms(4)] assms(5,6) by simp
  then have "CanShowUIForRequest E r X"
    using assms(1,3) Y(1)
    by (cases "CanShowUIForRequest E r X")
      (auto simp: PresentOverlayForActiveRequest_def PrepareToShowOverlayUI_def split: if_splits)
  then show ?thesis using Y(2) by blast
qed

text \<open>The world in which the presenter looks for the next request after a dismissal by the user.\<close>

definition next_shown :: "overlay_env \<Rightarrow> request list \<Rightarrow> overlay_world \<Rightarrow> request option" where
  "next_shown E rs W = (case rs of [] \<Rightarrow> None | r # _ \<Rightarrow> if CanShowUIForRequest E r W then Some r else None)"

lemma user_dismissed_active:
  assumes "overlay_reachable E W" "presented_request W = Some p" "ui_states W p = Some st"
    "dismissal_reason st = kUserInteraction"
  obtains w where "dismissal_callback st = Some (p, w)" "active_web_state W = Some w" "context_request W = Some p"
    "requests_of W w = p # tl (requests_of W w)" "p \<notin> set (tl (requests_of W w))"
proof -
  have inv: "base_inv (set (browser_tabs W)) W"
    using overlays.reachable_inv [OF assms(1)] by (simp add: overlay_inv_def)
  note I = base_invD [OF inv]
  have p: "context_request W = Some p" using I(4) assms(2) by (auto simp: link_ok_def)
  obtain w where w: "dismissal_callback st = Some (p, w)"
    using I(3) assms(3) unfolding ctx_ok_Some [OF p] by auto
  have "shown W = Some (p, w, kUserInteraction)" using p assms(3,4) w by (simp add: shown_def GetRequestUIState_def)
  then have a: "active_web_state W = Some w" "front_request (queues W w) = Some p"
    using I(7) assms(2) by (auto simp: reason_ok_def)
  then have hd: "requests_of W w = p # tl (requests_of W w)"
    by (auto simp: front_request_requests_of split: list.splits)
  have "distinct (requests_of W w)" using I(1) by (simp add: queues_ok_def)
  then have "p \<notin> set (tl (requests_of W w))" by (subst (asm) hd) simp
  with w a(1) p hd show ?thesis by (rule that)
qed

lemma user_dismissal_world:
  assumes "overlay_reachable E W" "presented_request W = Some p" "ui_states W p = Some st"
    "dismissal_reason st = kUserInteraction" "dismissal_callback st = Some (p, w)" "active_web_state W = Some w"
    "context_request W = Some p" "p \<notin> set (tl (requests_of W w))"
  obtains X where "overlay_exec E (UIDismissed p) W = rbind (PresentOverlayForActiveRequest E X)
      (\<lambda>W. if context_request W = Some p then SetRequest E None W else Inr W)"
    "idle_ok (set (browser_tabs W)) X" "context_request X = Some p" "presentation_context X" "active_web_state X = Some w"
    "requests_of X = (requests_of W)(w := tl (requests_of W w))" "requests X p = None"
    "front_request (queues X w) = (case tl (requests_of W w) of [] \<Rightarrow> None | r # rs \<Rightarrow> Some r)"
    "\<forall>r. CanShowUIForRequest E r X = CanShowUIForRequest E r W" "front_request (queues X w) \<noteq> Some p"
proof -
  let ?T = "set (browser_tabs W)"
  have inv: "base_inv ?T W" and act: "\<And>v. active_web_state W = Some v \<Longrightarrow> v \<in> ?T"
    using overlays.reachable_inv [OF assms(1)] by (simp_all add: overlay_inv_def)
  obtain X where X: "OverlayWasDismissed E p w (dismissal_reason st) (dismissed_world W p st) =
      rbind (GetActiveRequest X) (\<lambda>a. if a \<noteq> Some p then PresentOverlayForActiveRequest E X else Inr X)"
    "idle_ok ?T X" "context_request X = Some p" "same_tabs W X" "presentation_context X"
    "presentation_capabilities X = presentation_capabilities W"
    "requests_of X = (requests_of W)(w := tl (requests_of W w))" "requests X = (requests W)(p := None)"
    using dismissal_bookkeeping [OF inv act assms(7,3,5,2), where E = E] assms(4) by auto
  have aX: "active_web_state X = Some w" using X(4) assms(6) by (simp add: same_tabs_def)
  have fX: "front_request (queues X w) = (case tl (requests_of W w) of [] \<Rightarrow> None | r # rs \<Rightarrow> Some r)"
    using front_request_requests_of [of X w] X(7) by simp
  then have other: "front_request (queues X w) \<noteq> Some p" using assms(8) by (auto split: list.splits)
  have "GetActiveRequest X = Inr (front_request (queues X w))"
    using active_request [OF idle_okD(3) [OF X(2)]] aX by simp
  then have "OverlayWasDismissed E p w (dismissal_reason st) (dismissed_world W p st) = PresentOverlayForActiveRequest E X"
    using X(1) other by auto
  then have "overlay_exec E (UIDismissed p) W = rbind (PresentOverlayForActiveRequest E X)
      (\<lambda>W. if context_request W = Some p then SetRequest E None W else Inr W)"
    using assms(3,5,7)
    by (simp add: OverlayUIDidFinishDismissal_def OverlayUIWasDismissed_def dismissed_world_def cong: if_cong)
  moreover have "CanShowUIForRequest E r X = CanShowUIForRequest E r W" for r
    using X(6) by (simp add: CanShowUIForRequest_def)
  ultimately show ?thesis using that X(2,3,5,7,8) aX fX other by auto
qed

lemma next_request_presented:
  assumes "idle_ok T X" "context_request X = Some p" "presentation_context X" "active_web_state X = Some w"
    "front_request (queues X w) \<noteq> Some p" "w \<in> T" "requests X p = None"
    "front_request (queues X w) = (case rs of [] \<Rightarrow> None | r # _ \<Rightarrow> Some r)"
  shows "\<exists>Z. rbind (PresentOverlayForActiveRequest E X)
      (\<lambda>W. if context_request W = Some p then SetRequest E None W else Inr W) = Inr Z \<and>
    requests_of Z = requests_of X \<and> requests Z p = None \<and> presented_request Z = next_shown E rs X"
proof -
  have "\<exists>Y. PresentOverlayForActiveRequest E X = Inr Y \<and> same_tabs X Y \<and> queues Y = queues X \<and>
    (idle_ok T Y \<and> context_request Y = Some p \<and> (\<exists>l. Y = X\<lparr>overlay_log := l\<rparr>) \<and>
       (presentation_context X \<longrightarrow> (\<forall>w r. active_web_state X = Some w \<longrightarrow>
          front_request (queues X w) = Some r \<longrightarrow> \<not> CanShowUIForRequest E r X))
     \<or> base_inv T Y \<and> context_request Y \<noteq> Some p \<and> presentation_context X \<and> presents X Y)"
    by (rule present_after_dismissal [OF assms(1,2)]) (use assms(4,5,6) in auto)
  then obtain Y where Y: "PresentOverlayForActiveRequest E X = Inr Y" "queues Y = queues X"
    "idle_ok T Y \<and> context_request Y = Some p \<and> (\<exists>l. Y = X\<lparr>overlay_log := l\<rparr>) \<and>
       (\<forall>r. front_request (queues X w) = Some r \<longrightarrow> \<not> CanShowUIForRequest E r X)
     \<or> context_request Y \<noteq> Some p \<and> presents X Y"
    using assms(3,4) by blast
  from Y(3) show ?thesis
  proof
    assume y: "idle_ok T Y \<and> context_request Y = Some p \<and> (\<exists>l. Y = X\<lparr>overlay_log := l\<rparr>) \<and>
       (\<forall>r. front_request (queues X w) = Some r \<longrightarrow> \<not> CanShowUIForRequest E r X)"
    then obtain Z where Z: "SetRequest E None Y = Inr Z" "queues Z = queues Y" "requests Z = requests Y"
      "presented_request Z = None" using clear_context [of T Y p E] by blast
    have "requests_of Z = requests_of X" using requests_of_cong [of Z X] Z(2) Y(2) by simp
    moreover have "requests Z p = None" using Z(3) y assms(7) by auto
    ultimately show ?thesis using Y(1) y Z(1,4) assms(8) by (auto simp: next_shown_def split: list.splits)
  next
    assume y: "context_request Y \<noteq> Some p \<and> presents X Y"
    then obtain r where r: "front_request (queues X w) = Some r" using assms(4) by (auto simp: presents_def)
    have "CanShowUIForRequest E r X \<and> presented_request Y = Some r"
      using presents_can_show [OF Y(1) _ idle_okD(5,3) [OF assms(1)] assms(4) r] y by blast
    moreover have "requests Y p = None" using y assms(7) by (auto simp: presents_def)
    moreover have "requests_of Y = requests_of X" by (rule requests_of_cong) (rule Y(2))
    ultimately show ?thesis using Y(1) y r assms(8) by (auto simp: next_shown_def split: list.splits)
  qed
qed

text \<open>
  Property C21.  When the user dismisses the overlay on screen, its request leaves the queue of the active
  tab and is destroyed (its completion callbacks run), every other request stays where it is, and the
  next request of the tab, if there is one and the context is able to show it, is on screen at once.
\<close>

theorem user_dismissal_completes:
  assumes "overlay_reachable E W" "presented_request W = Some p" "ui_states W p = Some st"
    "dismissal_reason st = kUserInteraction"
  shows "\<exists>W' w. overlay_exec E (UIDismissed p) W = Inr W' \<and> active_web_state W = Some w \<and>
    requests_of W w = p # tl (requests_of W w) \<and> requests W' p = None \<and>
    requests_of W' = (requests_of W)(w := tl (requests_of W w)) \<and>
    presented_request W' = (case tl (requests_of W w) of [] \<Rightarrow> None
      | r # rs \<Rightarrow> if CanShowUIForRequest E r W then Some r else None)"
proof -
  obtain w where w: "dismissal_callback st = Some (p, w)" "active_web_state W = Some w" "context_request W = Some p"
    "requests_of W w = p # tl (requests_of W w)" "p \<notin> set (tl (requests_of W w))"
    by (rule user_dismissed_active [OF assms])
  obtain X where X: "overlay_exec E (UIDismissed p) W = rbind (PresentOverlayForActiveRequest E X)
      (\<lambda>W. if context_request W = Some p then SetRequest E None W else Inr W)"
    "idle_ok (set (browser_tabs W)) X" "context_request X = Some p" "presentation_context X" "active_web_state X = Some w"
    "requests_of X = (requests_of W)(w := tl (requests_of W w))" "requests X p = None"
    "front_request (queues X w) = (case tl (requests_of W w) of [] \<Rightarrow> None | r # rs \<Rightarrow> Some r)"
    "\<forall>r. CanShowUIForRequest E r X = CanShowUIForRequest E r W" "front_request (queues X w) \<noteq> Some p"
    by (rule user_dismissal_world [OF assms w(1,2,3,5)])
  have "w \<in> set (browser_tabs W)" using overlays.reachable_inv [OF assms(1)] w(2) by (simp add: overlay_inv_def)
  from next_request_presented [OF X(2,3,4,5,10) this X(7,8), of E] obtain Z where
    "overlay_exec E (UIDismissed p) W = Inr Z" "requests_of Z = (requests_of W)(w := tl (requests_of W w))"
    "requests Z p = None" "presented_request Z = next_shown E (tl (requests_of W w)) X"
    unfolding X(1,6) by blast
  then show ?thesis using w(2,4) unfolding next_shown_def X(9) [rule_format] by blast
qed

theorem user_dismissal_completes_witness:
  "\<exists>W'. overlay_exec demo_env (UIDismissed 100) demo_world = Inr W' \<and> requests W' 100 = None \<and>
     requests_of W' 1 = [101] \<and> presented_request W' = Some 101"
proof -
  have "case ui_states demo_world 100 of None \<Rightarrow> False | Some st \<Rightarrow> dismissal_reason st = kUserInteraction"
    by code_simp
  then obtain st where "ui_states demo_world 100 = Some st" "dismissal_reason st = kUserInteraction"
    by (cases "ui_states demo_world 100") auto
  moreover have pr: "presented_request demo_world = Some 100" by code_simp
  moreover have "active_web_state demo_world = Some 1" "tl (requests_of demo_world 1) = [101]"
    "CanShowUIForRequest demo_env 101 demo_world" by code_simp+
  ultimately show ?thesis
    using user_dismissal_completes [OF demo_reachable, of 100 st] by auto
qed

section \<open>Cancellation\<close>

text \<open>
  Property C22.  \<^verbatim>\<open>CancelAllRequests\<close> terminates and leaves the queue of the tab empty and the
  queues of all other tabs unchanged; the cancelled requests are destroyed, except one that is on
  screen, which the presenter keeps until its UI is gone.
\<close>

theorem cancel_all_requests_correct:
  assumes "overlay_reachable E W" "r \<in> set (requests_of W w)"
  shows "\<exists>W'. CancelAllRequests E w W = Inr W' \<and> requests_of W' = (requests_of W)(w := []) \<and>
    (requests W' r = None \<or> removed_request_awaiting_dismissal W' = Some r \<and> presented_request W' = Some r)"
proof -
  let ?T = "set (browser_tabs W)"
  have inv: "base_inv ?T W" using overlays.reachable_inv [OF assms(1)] by (simp add: overlay_inv_def)
  obtain W' where W': "CancelAllRequests E w W = Inr W'" "base_inv ?T W'"
    "requests_of W' = (requests_of W)(w := [])" using CancelAllRequests_empties [OF inv] by blast
  have own: "owner W r = Some w" using base_invD(1) [OF inv] assms(2) by (simp add: queues_ok_def)
  have "r \<notin> set (requests_of W' v)" for v
    using base_invD(1) [OF inv] own unfolding W'(3) queues_ok_def by auto
  then have "requests W' r \<noteq> None \<Longrightarrow> removed_request_awaiting_dismissal W' = Some r"
    using base_invD(2) [OF W'(2)] unfolding owned_ok_def by blast
  moreover have "removed_request_awaiting_dismissal W' = Some r \<Longrightarrow> presented_request W' = Some r"
    using base_invD(2) [OF W'(2)] unfolding owned_ok_def by blast
  ultimately have "requests W' r = None \<or> removed_request_awaiting_dismissal W' = Some r \<and> presented_request W' = Some r"
    by (cases "requests W' r") auto
  then show ?thesis using W'(1,3) by blast
qed

theorem cancel_all_requests_correct_witness:
  "\<exists>W'. CancelAllRequests demo_env 1 demo_world = Inr W' \<and> requests_of W' 1 = []"
proof -
  have "100 \<in> set (requests_of demo_world 1)" by code_simp
  from cancel_all_requests_correct [OF demo_reachable this] show ?thesis by auto
qed

section \<open>Sequences the presenter does not handle\<close>

text \<open>The first switch hides the overlay on screen, which stays the one the presenter waits for.\<close>

lemma first_switch_hides:
  assumes "overlay_reachable E W" "presented_request W = Some p" "shown W = Some (p, a, kUserInteraction)"
    and "b \<in> set (browser_tabs W)" "b \<noteq> a"
  obtains V where "overlay_exec E (TabActivated b) W = Inr V" "overlay_inv V" "active_web_state V = Some b"
    "browser_tabs V = browser_tabs W" "presented_request V = Some p" "presenting V" "presentation_context V"
    "context_request V = Some p" "queues V = queues W" "owner V = owner W"
    "removed_request_awaiting_dismissal V = None" "\<not> detaching_presenting_web_state V"
proof -
  let ?T = "set (browser_tabs W)" and ?V = "W\<lparr>active_web_state := Some b, detaching_presenting_web_state := False\<rparr>"
  have inv: "overlay_inv W" using overlays.reachable_inv [OF assms(1)] .
  then have base: "base_inv ?T W" by (simp add: overlay_inv_def)
  note I = base_invD [OF base]
  have link: "context_request W = Some p" "presenting W" "presentation_context W" using I(4) assms(2) by (auto simp: link_ok_def)
  have act: "active_web_state W = Some a" "front_request (queues W a) = Some p"
    using I(7) assms(2,3) by (auto simp: reason_ok_def)
  have prev: "previously_active W = Some p" by (rule user_shown_previous [OF base assms(2,3)])
  have rem: "removed_request_awaiting_dismissal W = None"
    using front_in_requests_of [OF act(2)] I(2) prev
    by (cases "removed_request_awaiting_dismissal W") (auto simp: owned_ok_def previously_active_def)
  have pre: "overlay_pre (TabActivated b) W" using assms(4) link prev by (simp add: switch_ok_def)
  obtain V where V: "overlay_exec E (TabActivated b) W = Inr V" "overlay_inv V" using overlay_exec_inv [OF inv pre] by blast
  have set: "SetActiveWebState E (Some b) Activated W =
      (if detaching_presenting_web_state W then CancelOverlayUIForRequest (Some p) ?V else HideOverlayUI p ?V)"
    using act assms(5) link prev active_request [OF I(5)] by (simp add: SetActiveWebState_def rem Let_def)
  moreover have "SetActiveWebState E (Some b) Activated W = Inr V"
    using V(1) by (cases "SetActiveWebState E (Some b) Activated W") simp_all
  moreover have ctx: "ctx_ok ?V" using I(3) ctx_ok_cong [of ?V W] by simp
  ultimately have "only_ui ?V V"
    using cancel_ui [OF ctx, of p] hide_shown [OF ctx, of p] link
    by (auto simp: CancelOverlayUIForRequest_def redressed_ui split: if_splits)
  note eqs = only_uiD [OF this]
  have "owner V = owner W" by (rule owner_cong) (simp add: eqs)
  then show ?thesis using that [OF V] eqs assms(2) link rem by (auto simp: same_tabs_def)
qed

text \<open>
  Property C23.  While the overlay \<open>p\<close> of the active tab is on screen for the user, another tab
  \<open>b\<close> is made active and then, before the dismissal of \<open>p\<close> has ended, a third one \<open>c\<close>.  If
  \<open>b\<close> has an overlay of its own, the second switch fails: the presenter hides the request of \<open>b\<close>,
  which is not the one on screen.  If \<open>b\<close> has none, both switches are handled.
\<close>

theorem second_switch_hides_wrong_request:
  assumes "overlay_reachable E W" "presented_request W = Some p" "shown W = Some (p, a, kUserInteraction)"
    and "b \<in> set (browser_tabs W)" "b \<noteq> a" "c \<in> set (browser_tabs W)" "c \<noteq> b"
  shows "if requests_of W b \<noteq> []
    then overlay_run E [TabActivated b, TabActivated c] W = Inl (DCheckFailed ''request_ == request'')
    else \<exists>W'. overlay_run E [TabActivated b, TabActivated c] W = Inr W' \<and> active_web_state W' = Some c"
proof -
  obtain V where V: "overlay_exec E (TabActivated b) W = Inr V" "overlay_inv V" "active_web_state V = Some b"
    "browser_tabs V = browser_tabs W" "presented_request V = Some p" "presenting V" "presentation_context V"
    "context_request V = Some p" "queues V = queues W" "owner V = owner W"
    "removed_request_awaiting_dismissal V = None" "\<not> detaching_presenting_web_state V"
    by (rule first_switch_hides [OF assms(1-5)])
  have base: "base_inv (set (browser_tabs W)) W" using overlays.reachable_inv [OF assms(1)] by (simp add: overlay_inv_def)
  have "front_request (queues W a) = Some p" using base_invD(7) [OF base] assms(2,3) by (auto simp: reason_ok_def)
  then have own: "owner W p = Some a" using base_invD(1) [OF base] front_in_requests_of by (auto simp: queues_ok_def)
  have front: "front_request (queues W b) \<noteq> Some p"
    using own assms(5) base_invD(1) [OF base] front_in_requests_of [of W b p] by (auto simp: queues_ok_def)
  have prev: "previously_active V = front_request (queues W b)" using V(3,9,11) by (simp add: previously_active_def)
  have asked: "overlay_asked (TabActivated c) V" using V(4) assms(6) by simp
  show ?thesis
  proof (cases "requests_of W b")
    case Nil
    then have "switch_ok V" using prev by (simp add: switch_ok_def front_request_requests_of)
    then obtain W' where "SetActiveWebState E (Some c) Activated V = Inr W'" "active_web_state W' = Some c"
      using set_active_inv [of "set (browser_tabs V)" V "Some c" Activated E] V(2,4) assms(6) by (auto simp: overlay_inv_def)
    then show ?thesis using Nil V(1) by simp
  next
    case (Cons r rs)
    then have "switches_too_early (TabActivated c) V"
      using prev front V(3,6-8,12) assms(7) by (simp add: switches_too_early_def switch_ok_def front_request_requests_of)
    then show ?thesis using early_switch_fails [OF V(2) asked] V(1) Cons by (simp del: overlay_exec.simps)
  qed
qed

theorem second_switch_hides_wrong_request_witness:
  "overlay_run demo_env [TabActivated 2, TabActivated 3] demo_both = Inl (DCheckFailed ''request_ == request'') \<and>
   (\<exists>W'. overlay_run demo_env [TabActivated 3, TabActivated 2] demo_both = Inr W')"
proof -
  have "presented_request demo_both = Some 100" "shown demo_both = Some (100, 1, kUserInteraction)"
    "2 \<in> set (browser_tabs demo_both)" "3 \<in> set (browser_tabs demo_both)"
    "requests_of demo_both 2 \<noteq> []" "requests_of demo_both 3 = []" by code_simp+
  then show ?thesis
    using second_switch_hides_wrong_request [OF demo_both_reachable, of 100 1 2 3]
      second_switch_hides_wrong_request [OF demo_both_reachable, of 100 1 3 2] by auto
qed

text \<open>
  Switching to another tab and back while the overlay is being hidden loses it: when the
  dismissal ends, the overlay is the front request of the active tab and the context could show it, but
  nothing is presented, because the active request has not changed.
\<close>

theorem switch_back_loses_overlay:
  "\<exists>W. overlay_run demo_env [ContainerChanged (Some 5), TabInserted 1 0 True, TabInserted 2 1 False,
      ClientAddsRequest 1 0 100 [] None, TabActivated 2, TabActivated 1, UIDismissed 100]
      (initial_overlay_world [7]) = Inr W \<and>
    GetActiveRequest W = Inr (Some 100) \<and> CanShowUIForRequest demo_env 100 W \<and>
    presentation_context W \<and> \<not> ContextIsShowingOverlayUI W \<and> \<not> presenting W"
proof -
  let ?es = "[ContainerChanged (Some 5), TabInserted 1 0 True, TabInserted 2 1 False,
      ClientAddsRequest 1 0 100 [] None, TabActivated 2, TabActivated 1, UIDismissed 100]"
  have "case overlay_run demo_env ?es (initial_overlay_world [7]) of Inl _ \<Rightarrow> False
    | Inr W \<Rightarrow> GetActiveRequest W = Inr (Some 100) \<and> CanShowUIForRequest demo_env 100 W \<and>
        presentation_context W \<and> \<not> ContextIsShowingOverlayUI W \<and> \<not> presenting W"
    by code_simp
  then show ?thesis by (cases "overlay_run demo_env ?es (initial_overlay_world [7])") auto
qed

end
