(* ===== verification/Web_State_List_Mutation.thy ===== *)
theory Web_State_List_Mutation
  imports Web_State_List
begin

text \<open>
  The mutating operations of \<^verbatim>\<open>WebStateList\<close>
  (\<^verbatim>\<open>chrome/browser/web_state_list/web_state_list.mm\<close>).  Each public operation takes the lock,
  runs the corresponding \<^verbatim>\<open>...Impl\<close> and releases the lock.  Observers, the delegate and the
  tabs only receive calls, which are recorded in order in the field \<open>effects\<close>; they cannot
  mutate the list meanwhile, because \<^verbatim>\<open>LockForMutation\<close> aborts.
\<close>

section \<open>Effects\<close>

definition emit :: "wsl_effect \<Rightarrow> web_state_list \<Rightarrow> web_state_list" where
  "emit e s = s\<lparr>effects := effects s @ [e]\<rparr>"

definition notify :: "wsl_notification \<Rightarrow> web_state_list \<Rightarrow> web_state_list" where
  "notify n s = emit (Notify (observers s) n) s"

definition AddObserver :: "nat \<Rightarrow> web_state_list \<Rightarrow> web_state_list res" where
  "AddObserver ob s = dcheck (ob \<notin> set (observers s)) ''Observers can only be added once!''
     (Inr (s\<lparr>observers := observers s @ [ob]\<rparr>))"

definition RemoveObserver :: "nat \<Rightarrow> web_state_list \<Rightarrow> web_state_list" where
  "RemoveObserver ob s = s\<lparr>observers := removeAll ob (observers s)\<rparr>"

definition empty_web_state_list :: web_state_list where
  "empty_web_state_list =
     \<lparr>web_state_wrappers = [], active_index = kInvalidIndex, locked = False,
      batch_operation_in_progress = False, observers = [], effects = []\<rparr>"

section \<open>Internal operations\<close>

definition SetOpenerOfWebStateAt ::
  "int \<Rightarrow> web_state_opener \<Rightarrow> web_state_list \<Rightarrow> web_state_list res" where
  "SetOpenerOfWebStateAt index op s =
     dcheck (ContainsIndex s index) ''ContainsIndex(index)''
     (dcheck (case opener op of None \<Rightarrow> False | Some op' \<Rightarrow> ContainsIndex s (GetIndexOfWebState s op'))
        ''ContainsIndex(GetIndexOfWebState(opener.opener))''
     (rbind (SetOpener op (web_state_wrappers s ! nat index)) (\<lambda>w.
        Inr (s\<lparr>web_state_wrappers := (web_state_wrappers s)[nat index := w]\<rparr>))))"

definition ClearOpenersReferencing :: "int \<Rightarrow> web_state_list \<Rightarrow> web_state_list res" where
  "ClearOpenersReferencing index s =
     (let old_web_state = wrapped (web_state_wrappers s ! nat index)
      in rbind (rmap (\<lambda>w. if opener (wrapper_opener w) = Some old_web_state
                          then SetOpener WebStateOpenerNull w else Inr w)
                     (web_state_wrappers s)) (\<lambda>ws.
         Inr (s\<lparr>web_state_wrappers := ws\<rparr>)))"

definition NotifyIfActiveWebStateChanged ::
  "web_state_id option \<Rightarrow> change_reason \<Rightarrow> web_state_list \<Rightarrow> web_state_list res" where
  "NotifyIfActiveWebStateChanged old_web_state reason s =
     rbind (GetActiveWebState s) (\<lambda>new_web_state.
       if old_web_state = new_web_state then Inr s
       else
         let s = (case new_web_state of
                    None \<Rightarrow> s
                  | Some w \<Rightarrow> emit (ForceRealized w) (emit IgnoreOverRealizationCheck s))
         in Inr (notify (WebStateActivatedAt old_web_state new_web_state (active_index s) reason) s))"

definition ActivateWebStateAtImpl ::
  "int \<Rightarrow> change_reason \<Rightarrow> web_state_list \<Rightarrow> web_state_list res" where
  "ActivateWebStateAtImpl index reason s =
     dcheck (locked s) ''locked_''
     (dcheck (ContainsIndex s index \<or> index = kInvalidIndex)
        ''ContainsIndex(index) || index == kInvalidIndex''
     (rbind (GetActiveWebStateWrapper s) (\<lambda>old_wrapper.
        rbind (case old_wrapper of
                 None \<Rightarrow> Inr s
               | Some w \<Rightarrow>
                   if should_reset_opener w
                   then rbind (SetOpener WebStateOpenerNull w) (\<lambda>w'.
                          Inr (s\<lparr>web_state_wrappers :=
                                   (web_state_wrappers s)[nat (active_index s) := w']\<rparr>))
                   else Inr s) (\<lambda>s.
        NotifyIfActiveWebStateChanged (map_option wrapped old_wrapper) reason
          (s\<lparr>active_index := index\<rparr>)))))"

text \<open>The opener and index a new tab is inserted with, before the insertion itself.\<close>

definition inherit_opener ::
  "heap \<Rightarrow> web_state_list \<Rightarrow> (web_state_list \<times> web_state_opener) res" where
  "inherit_opener H s =
     rbind (rmap (SetOpener WebStateOpenerNull) (web_state_wrappers s)) (\<lambda>ws.
       let s = s\<lparr>web_state_wrappers := ws\<rparr>
       in rbind (GetActiveWebState s) (\<lambda>active. Inr (s, WebStateOpener H active)))"

definition insertion_index ::
  "heap \<Rightarrow> web_state_list \<Rightarrow> int \<Rightarrow> int \<Rightarrow> web_state_opener \<Rightarrow> int res" where
  "insertion_index H s index insertion_flags op =
     (if \<not> IsInsertionFlagSet insertion_flags INSERT_FORCE_INDEX
      then rbind (DetermineInsertionIndex H s (opener op)) (\<lambda>index.
             Inr (if index < 0 \<or> count s < index then count s else index))
      else Inr index)"

definition insert_wrapper ::
  "int \<Rightarrow> web_state_id \<Rightarrow> bool \<Rightarrow> bool \<Rightarrow> web_state_list \<Rightarrow> web_state_list" where
  "insert_wrapper index web_state inherit activating s =
     (let s = emit (Delegate (WillAddWebState web_state)) s;
          s = s\<lparr>web_state_wrappers :=
                 insert_at (nat index) (WebStateWrapper web_state) (web_state_wrappers s)\<rparr>;
          s = (if active_index s \<ge> index then s\<lparr>active_index := active_index s + 1\<rparr> else s);
          s = (if inherit
               then s\<lparr>web_state_wrappers := (web_state_wrappers s)[nat index :=
                      (web_state_wrappers s ! nat index)\<lparr>should_reset_opener := True\<rparr>]\<rparr>
               else s)
      in notify (WebStateInsertedAt web_state index activating) s)"

definition InsertWebStateImpl ::
  "heap \<Rightarrow> int \<Rightarrow> web_state_id \<Rightarrow> int \<Rightarrow> web_state_opener \<Rightarrow> web_state_list \<Rightarrow>
     (web_state_list \<times> int) res" where
  "InsertWebStateImpl H index web_state insertion_flags op s =
     dcheck (locked s) ''locked_''
     (let activating = IsInsertionFlagSet insertion_flags INSERT_ACTIVATE;
          inherit = IsInsertionFlagSet insertion_flags INSERT_INHERIT_OPENER
      in rbind (if inherit then inherit_opener H s else Inr (s, op)) (\<lambda>(s, op).
         rbind (insertion_index H s index insertion_flags op) (\<lambda>index.
         dcheck (ContainsIndex s index \<or> index = count s)
           ''ContainsIndex(index) || index == count()''
         (let s = insert_wrapper index web_state inherit activating s
          in rbind (if opener op \<noteq> None then SetOpenerOfWebStateAt index op s else Inr s) (\<lambda>s.
             rbind (if activating then ActivateWebStateAtImpl index Inserted s else Inr s) (\<lambda>s.
             Inr (s, index)))))))"

definition MoveWebStateAtImpl :: "int \<Rightarrow> int \<Rightarrow> web_state_list \<Rightarrow> web_state_list res" where
  "MoveWebStateAtImpl from_index to_index s =
     dcheck (locked s) ''locked_''
     (dcheck (ContainsIndex s from_index) ''ContainsIndex(from_index)''
     (dcheck (ContainsIndex s to_index) ''ContainsIndex(to_index)''
     (if from_index = to_index then Inr s
      else
        let wrapper = web_state_wrappers s ! nat from_index;
            s = s\<lparr>web_state_wrappers :=
                   insert_at (nat to_index) wrapper
                     (remove_at (nat from_index) (web_state_wrappers s))\<rparr>;
            s = (if active_index s = from_index then s\<lparr>active_index := to_index\<rparr>
                 else
                   let mn = min from_index to_index;
                       mx = max from_index to_index;
                       delta = (if from_index < to_index then -1 else 1)
                   in if mn \<le> active_index s \<and> active_index s \<le> mx
                      then s\<lparr>active_index := active_index s + delta\<rparr> else s)
        in Inr (notify (WebStateMoved (wrapped wrapper) from_index to_index) s))))"

definition ReplaceWebStateAtImpl ::
  "int \<Rightarrow> web_state_id \<Rightarrow> web_state_list \<Rightarrow> (web_state_list \<times> web_state_id) res" where
  "ReplaceWebStateAtImpl index web_state s =
     dcheck (locked s) ''locked_''
     (dcheck (ContainsIndex s index) ''ContainsIndex(index)''
     (rbind (ClearOpenersReferencing index (emit (Delegate (WillAddWebState web_state)) s)) (\<lambda>s.
      rbind (ReplaceWebState web_state (web_state_wrappers s ! nat index)) (\<lambda>(w, old_web_state).
      let s = s\<lparr>web_state_wrappers := (web_state_wrappers s)[nat index := w]\<rparr>;
          s = notify (WebStateReplacedAt old_web_state web_state index) s
      in rbind (NotifyIfActiveWebStateChanged (Some old_web_state) Replaced s) (\<lambda>s.
         Inr (emit (Delegate (WebStateDetached old_web_state)) s, old_web_state))))))"

definition DetachWebStateAtImpl ::
  "heap \<Rightarrow> int \<Rightarrow> web_state_list \<Rightarrow> (web_state_list \<times> web_state_id) res" where
  "DetachWebStateAtImpl H index s =
     dcheck (locked s) ''locked_''
     (dcheck (ContainsIndex s index) ''ContainsIndex(index)''
     (let web_state = wrapped (web_state_wrappers s ! nat index);
          s = notify (WillDetachWebStateAt web_state index) s;
          active_web_state_was_closed = (index = active_index s)
      in rbind (DetermineNewActiveIndex H s (active_index s) (StorageFromInitializerList [index])) (\<lambda>new_active.
         rbind (ClearOpenersReferencing index (s\<lparr>active_index := new_active\<rparr>)) (\<lambda>s.
         let detached_web_state = ReleaseWebState (web_state_wrappers s ! nat index);
             s = s\<lparr>web_state_wrappers := remove_at (nat index) (web_state_wrappers s)\<rparr>
         in dcheck (active_index s = kInvalidIndex \<or> ContainsIndex s (active_index s))
              ''active_index_ == kInvalidIndex || ContainsIndex(active_index_)''
            (let s = notify (WebStateDetachedAt web_state index) s
             in rbind (if active_web_state_was_closed
                       then NotifyIfActiveWebStateChanged (Some web_state) Closed s
                       else Inr s) (\<lambda>s.
                Inr (emit (Delegate (WebStateDetached web_state)) s, detached_web_state)))))))"

definition CloseWebStateAtImpl :: "heap \<Rightarrow> int \<Rightarrow> int \<Rightarrow> web_state_list \<Rightarrow> web_state_list res" where
  "CloseWebStateAtImpl H index close_flags s =
     dcheck (locked s) ''locked_''
     (rbind (DetachWebStateAtImpl H index s) (\<lambda>(s, detached_web_state).
        Inr (notify (WillCloseWebStateAt detached_web_state index
                       (IsClosingFlagSet close_flags CLOSE_USER_ACTION)) s)))"

definition PerformBatchOperation ::
  "(web_state_list \<Rightarrow> web_state_list res) option \<Rightarrow> web_state_list \<Rightarrow> web_state_list res" where
  "PerformBatchOperation operation s =
     dcheck (\<not> batch_operation_in_progress s) ''!batch_operation_in_progress_''
     (let s = notify WillBeginBatchOperation (s\<lparr>batch_operation_in_progress := True\<rparr>)
      in rbind (case operation of None \<Rightarrow> Inr s | Some op \<Rightarrow> op s) (\<lambda>s.
         Inr ((notify BatchOperationEnded s)\<lparr>batch_operation_in_progress := False\<rparr>)))"

section \<open>The list as its observers see it\<close>

text \<open>The identities of the tabs in order, and the identity of the active one.\<close>

definition tabs :: "web_state_list \<Rightarrow> web_state_id list" where
  "tabs s = map wrapped (web_state_wrappers s)"

definition active_tab :: "web_state_list \<Rightarrow> web_state_id option" where
  "active_tab s = (if active_index s = kInvalidIndex then None else Some (tabs s ! nat (active_index s)))"

text \<open>
  An observer that keeps its own copy of the list: it applies every notification to the copy and
  looks at nothing else.
\<close>

type_synonym mirror = "web_state_id list \<times> web_state_id option"

fun mirror_notification :: "wsl_notification \<Rightarrow> mirror \<Rightarrow> mirror" where
  "mirror_notification (WebStateInsertedAt w i activating) (ts, a) = (insert_at (nat i) w ts, a)"
| "mirror_notification (WebStateMoved w i j) (ts, a) =
     (insert_at (nat j) w (remove_at (nat i) ts), a)"
| "mirror_notification (WebStateReplacedAt old new i) (ts, a) = (ts[nat i := new], a)"
| "mirror_notification (WebStateDetachedAt w i) (ts, a) = (remove_at (nat i) ts, a)"
| "mirror_notification (WebStateActivatedAt old new i r) (ts, a) = (ts, new)"
| "mirror_notification n m = m"

fun mirror_effect :: "wsl_effect \<Rightarrow> mirror \<Rightarrow> mirror" where
  "mirror_effect (Notify obs n) m = mirror_notification n m"
| "mirror_effect e m = m"

definition mirror_of :: "wsl_effect list \<Rightarrow> mirror" where
  "mirror_of es = fold mirror_effect es ([], None)"

lemma mirror_of_append [simp]: "mirror_of (es @ fs) = fold mirror_effect fs (mirror_of es)"
  by (simp add: mirror_of_def)

section \<open>Well-formedness\<close>

definition active_ok :: "web_state_list \<Rightarrow> bool" where
  "active_ok s \<longleftrightarrow> active_index s = kInvalidIndex \<or> ContainsIndex s (active_index s)"

definition openers_ok :: "web_state_list \<Rightarrow> bool" where
  "openers_ok s \<longleftrightarrow>
     (\<forall>w \<in> set (web_state_wrappers s). \<forall>op. opener (wrapper_opener w) = Some op \<longrightarrow>
        op \<in> set (tabs s) \<and> op \<noteq> wrapped w)"

definition resets_ok :: "web_state_list \<Rightarrow> bool" where
  "resets_ok s \<longleftrightarrow>
     (\<forall>w \<in> set (web_state_wrappers s). should_reset_opener w \<longrightarrow> opener (wrapper_opener w) = None)"

definition wsl_inv :: "web_state_list \<Rightarrow> bool" where
  "wsl_inv s \<longleftrightarrow> distinct (tabs s) \<and> active_ok s \<and> openers_ok s \<and> resets_ok s \<and>
     mirror_of (effects s) = (tabs s, active_tab s)"

named_theorems wsl_simps \<open>fields, queries and effects of a list after an update\<close>

lemma emit_fields [simp]:
  "web_state_wrappers (emit e s) = web_state_wrappers s"
  "active_index (emit e s) = active_index s"
  "locked (emit e s) = locked s"
  "batch_operation_in_progress (emit e s) = batch_operation_in_progress s"
  "observers (emit e s) = observers s"
  "effects (emit e s) = effects s @ [e]"
  by (simp_all add: emit_def)

lemma notify_fields [simp]:
  "web_state_wrappers (notify n s) = web_state_wrappers s"
  "active_index (notify n s) = active_index s"
  "locked (notify n s) = locked s"
  "batch_operation_in_progress (notify n s) = batch_operation_in_progress s"
  "observers (notify n s) = observers s"
  "effects (notify n s) = effects s @ [Notify (observers s) n]"
  by (simp_all add: notify_def)

lemma tabs_cong: "web_state_wrappers s = web_state_wrappers s' \<Longrightarrow> tabs s = tabs s'"
  by (simp add: tabs_def)

lemma count_tabs [wsl_simps]: "count s = int (length (tabs s))"
  by (simp add: count_def tabs_def)

lemma GetActiveWebStateWrapper_eq:
  "active_ok s \<Longrightarrow> GetActiveWebStateWrapper s =
     Inr (if active_index s = -1 then None else Some (web_state_wrappers s ! nat (active_index s)))"
  by (auto simp: GetActiveWebStateWrapper_def GetWebStateWrapperAt_def active_ok_def)

lemma active_tab_wrapper:
  "active_ok s \<Longrightarrow> active_tab s =
     (if active_index s = -1 then None
      else Some (wrapped (web_state_wrappers s ! nat (active_index s))))"
  by (auto simp: active_tab_def tabs_def active_ok_def ContainsIndex_def count_def)

lemma GetActiveWebState_eq: "active_ok s \<Longrightarrow> GetActiveWebState s = Inr (active_tab s)"
  by (simp add: GetActiveWebState_def GetActiveWebStateWrapper_eq active_tab_wrapper)

lemma GetIndexOfWebState_member: "GetIndexOfWebState s w \<noteq> -1 \<longleftrightarrow> w \<in> set (tabs s)"
  by (auto simp: GetIndexOfWebState_def tabs_def)

lemma GetIndexOfWebState_range:
  "w \<in> set (tabs s) \<Longrightarrow> ContainsIndex s (GetIndexOfWebState s w)"
  using find_index_some [of "\<lambda>x. wrapped x = w" "web_state_wrappers s"] GetIndexOfWebState_member [of s w]
  by (simp add: GetIndexOfWebState_def ContainsIndex_def count_def)

subsection \<open>Announcing a change of the active tab\<close>

definition announce :: "web_state_id option \<Rightarrow> change_reason \<Rightarrow> web_state_list \<Rightarrow> web_state_list" where
  "announce old reason s =
     (if old = active_tab s then s
      else notify (WebStateActivatedAt old (active_tab s) (active_index s) reason)
             (case active_tab s of
                None \<Rightarrow> s
              | Some w \<Rightarrow> emit (ForceRealized w) (emit IgnoreOverRealizationCheck s)))"

lemma NotifyIfActiveWebStateChanged_eq:
  "active_ok s \<Longrightarrow> NotifyIfActiveWebStateChanged old reason s = Inr (announce old reason s)"
  by (auto simp: NotifyIfActiveWebStateChanged_def GetActiveWebState_eq announce_def Let_def
      split: option.split)

lemma announce_fields [simp]:
  "web_state_wrappers (announce old reason s) = web_state_wrappers s"
  "active_index (announce old reason s) = active_index s"
  "locked (announce old reason s) = locked s"
  "batch_operation_in_progress (announce old reason s) = batch_operation_in_progress s"
  "observers (announce old reason s) = observers s"
  by (auto simp: announce_def split: option.split)

lemma mirror_announce [wsl_simps]:
  "mirror_of (effects (announce old reason s)) =
     (fst (mirror_of (effects s)),
      if old = active_tab s then snd (mirror_of (effects s)) else active_tab s)"
  by (cases "mirror_of (effects s)") (auto simp: announce_def split: option.split)

subsection \<open>Clearing openers\<close>

definition clear_opener :: "web_state_id \<Rightarrow> web_state_wrapper \<Rightarrow> web_state_wrapper" where
  "clear_opener old w =
     (if opener (wrapper_opener w) = Some old
      then w\<lparr>should_reset_opener := False, wrapper_opener := WebStateOpenerNull\<rparr> else w)"

lemma SetOpener_null [simp]:
  "SetOpener WebStateOpenerNull w =
     Inr (w\<lparr>should_reset_opener := False, wrapper_opener := WebStateOpenerNull\<rparr>)"
  by (simp add: SetOpener_def WebStateOpenerNull_def)

lemma ClearOpenersReferencing_eq:
  "ClearOpenersReferencing index s =
     Inr (s\<lparr>web_state_wrappers :=
            map (clear_opener (wrapped (web_state_wrappers s ! nat index))) (web_state_wrappers s)\<rparr>)"
  unfolding ClearOpenersReferencing_def Let_def
  by (subst rmap_pure [where g = "clear_opener (wrapped (web_state_wrappers s ! nat index))"])
     (auto simp: clear_opener_def)

lemma clear_opener_simps [simp]:
  "wrapped (clear_opener old w) = wrapped w"
  "opener (wrapper_opener (clear_opener old w)) =
     (if opener (wrapper_opener w) = Some old then None else opener (wrapper_opener w))"
  "should_reset_opener (clear_opener old w) \<longleftrightarrow>
     should_reset_opener w \<and> opener (wrapper_opener w) \<noteq> Some old"
  by (auto simp: clear_opener_def WebStateOpenerNull_def)

lemma map_wrapped_clear_opener [simp]: "map (wrapped \<circ> clear_opener old) ws = map wrapped ws"
  by simp

section \<open>Every operation keeps the list well formed\<close>

text \<open>What no operation but the batch wrapper and the lock touches.\<close>

definition same_frame :: "web_state_list \<Rightarrow> web_state_list \<Rightarrow> bool" where
  "same_frame s s' \<longleftrightarrow> locked s' = locked s \<and>
     batch_operation_in_progress s' = batch_operation_in_progress s \<and> observers s' = observers s"

lemma same_frame_trans [trans]: "same_frame s t \<Longrightarrow> same_frame t u \<Longrightarrow> same_frame s u"
  by (simp add: same_frame_def)

lemma wsl_invD:
  assumes "wsl_inv s"
  shows "distinct (tabs s)" "active_ok s" "openers_ok s" "resets_ok s"
    "mirror_of (effects s) = (tabs s, active_tab s)"
  using assms by (simp_all add: wsl_inv_def)

text \<open>
  A change of the wrappers that keeps the identities and only forgets openers keeps everything else.
\<close>

lemma wsl_inv_forget:
  assumes "wsl_inv s" "map wrapped ws = tabs s" "length ws = length (web_state_wrappers s)"
    and "\<And>i. i < length ws \<Longrightarrow> opener (wrapper_opener (ws ! i)) = None \<or>
      ws ! i = web_state_wrappers s ! i"
  shows "wsl_inv (s\<lparr>web_state_wrappers := ws\<rparr>)"
proof -
  have tabs: "tabs (s\<lparr>web_state_wrappers := ws\<rparr>) = tabs s"
    using assms(2) by (simp add: tabs_def)
  then have "active_tab (s\<lparr>web_state_wrappers := ws\<rparr>) = active_tab s"
    by (simp add: active_tab_def)
  moreover have "active_ok (s\<lparr>web_state_wrappers := ws\<rparr>)"
    using wsl_invD(2) [OF assms(1)] assms(3) by (simp add: active_ok_def ContainsIndex_def count_def)
  moreover have "openers_ok (s\<lparr>web_state_wrappers := ws\<rparr>)"
    unfolding openers_ok_def tabs
  proof (intro ballI allI impI)
    fix w op
    assume "w \<in> set (web_state_wrappers (s\<lparr>web_state_wrappers := ws\<rparr>))"
      and op: "opener (wrapper_opener w) = Some op"
    then obtain i where "i < length ws" "w = ws ! i" by (auto simp: in_set_conv_nth)
    then have "w \<in> set (web_state_wrappers s)" using assms(3,4) op by fastforce
    then show "op \<in> set (tabs s) \<and> op \<noteq> wrapped w"
      using wsl_invD(3) [OF assms(1)] op by (simp add: openers_ok_def)
  qed
  moreover have "resets_ok (s\<lparr>web_state_wrappers := ws\<rparr>)"
    using wsl_invD(4) [OF assms(1)] assms(3,4) by (fastforce simp: resets_ok_def in_set_conv_nth)
  ultimately show ?thesis
    using wsl_invD [OF assms(1)] tabs by (simp add: wsl_inv_def)
qed

subsection \<open>Activation\<close>

definition reset_active :: "web_state_list \<Rightarrow> web_state_wrapper list" where
  "reset_active s =
     (if active_index s = -1 \<or> \<not> should_reset_opener (web_state_wrappers s ! nat (active_index s))
      then web_state_wrappers s
      else (web_state_wrappers s)[nat (active_index s) :=
             (web_state_wrappers s ! nat (active_index s))
               \<lparr>should_reset_opener := False, wrapper_opener := WebStateOpenerNull\<rparr>])"

lemma map_wrapped_reset_active [simp]: "map wrapped (reset_active s) = tabs s"
  by (simp add: reset_active_def tabs_def map_update list_update_id [of "map wrapped _", symmetric])
     (metis list_update_beyond list_update_id length_map linorder_not_less nth_map)

lemma length_reset_active [simp]: "length (reset_active s) = length (web_state_wrappers s)"
  by (simp add: reset_active_def)

lemma reset_active_nth:
  "i < length (web_state_wrappers s) \<Longrightarrow>
     opener (wrapper_opener (reset_active s ! i)) = None \<or> reset_active s ! i = web_state_wrappers s ! i"
  by (cases "i = nat (active_index s)") (auto simp: reset_active_def WebStateOpenerNull_def)

lemma ActivateWebStateAtImpl_eq:
  assumes "locked s" "active_ok s" "ContainsIndex s index \<or> index = -1"
  shows "ActivateWebStateAtImpl index reason s =
    Inr (announce (active_tab s) reason
           (s\<lparr>web_state_wrappers := reset_active s, active_index := index\<rparr>))"
proof -
  have "active_ok (s\<lparr>web_state_wrappers := reset_active s, active_index := index\<rparr>)"
    using assms(3) by (auto simp: active_ok_def ContainsIndex_def count_def)
  then show ?thesis
    using assms unfolding ActivateWebStateAtImpl_def
    by (auto simp: GetActiveWebStateWrapper_eq active_tab_wrapper reset_active_def
        NotifyIfActiveWebStateChanged_eq split: if_splits)
qed

lemma wsl_inv_announce_active:
  assumes "wsl_inv s" "index = -1 \<or> ContainsIndex s index"
  shows "wsl_inv (announce (active_tab s) reason (s\<lparr>active_index := index\<rparr>))"
    (is "wsl_inv ?s'")
proof -
  have "tabs ?s' = tabs s" "tabs (s\<lparr>active_index := index\<rparr>) = tabs s"
    by (simp_all add: tabs_def)
  moreover from this have "active_tab ?s' = active_tab (s\<lparr>active_index := index\<rparr>)"
    by (simp add: active_tab_def)
  ultimately show ?thesis
    using assms by (auto simp: wsl_inv_def active_ok_def openers_ok_def resets_ok_def ContainsIndex_def
        count_def mirror_announce)
qed

lemma ActivateWebStateAtImpl_ok:
  assumes "wsl_inv s" "locked s" "ContainsIndex s index \<or> index = -1"
  obtains s' where "ActivateWebStateAtImpl index reason s = Inr s'" "wsl_inv s'" "same_frame s s'"
    "tabs s' = tabs s" "active_index s' = index"
proof -
  let ?t = "s\<lparr>web_state_wrappers := reset_active s\<rparr>"
  have t: "wsl_inv ?t"
    by (rule wsl_inv_forget [OF assms(1)]) (simp_all add: reset_active_nth)
  have "active_tab ?t = active_tab s" "tabs ?t = tabs s"
    by (simp_all add: active_tab_def tabs_def [of ?t])
  moreover define u where "u = announce (active_tab ?t) reason (?t\<lparr>active_index := index\<rparr>)"
  ultimately have "ActivateWebStateAtImpl index reason s = Inr u"
    using ActivateWebStateAtImpl_eq [OF assms(2) wsl_invD(2) [OF assms(1)] assms(3)] by simp
  moreover have "wsl_inv u"
    unfolding u_def
    using assms(3) by (intro wsl_inv_announce_active [OF t]) (auto simp: ContainsIndex_def count_def)
  ultimately show ?thesis
    by (rule that) (simp_all add: u_def same_frame_def tabs_def [of "announce _ _ _"])
qed

subsection \<open>Insertion\<close>

lemma inherit_opener_ok:
  assumes "wsl_inv s"
  obtains s' where "inherit_opener H s = Inr (s', WebStateOpener H (active_tab s))"
    "wsl_inv s'" "same_frame s s'" "tabs s' = tabs s" "active_index s' = active_index s"
proof -
  let ?clear = "\<lambda>w :: web_state_wrapper. w\<lparr>should_reset_opener := False, wrapper_opener := WebStateOpenerNull\<rparr>"
  define u where "u = s\<lparr>web_state_wrappers := map ?clear (web_state_wrappers s)\<rparr>"
  have tabs: "tabs u = tabs s" by (simp add: u_def tabs_def comp_def)
  have inv: "wsl_inv u"
    unfolding u_def
    by (rule wsl_inv_forget [OF assms]) (simp_all add: comp_def tabs_def WebStateOpenerNull_def)
  have "active_tab u = active_tab s" using tabs by (simp add: active_tab_def u_def)
  then have "inherit_opener H s = Inr (u, WebStateOpener H (active_tab s))"
    using GetActiveWebState_eq [OF wsl_invD(2) [OF inv]] rmap_pure [of "web_state_wrappers s" "SetOpener WebStateOpenerNull" ?clear]
    by (simp add: inherit_opener_def Let_def u_def)
  then show ?thesis
    using inv _ tabs by (rule that) (simp_all add: u_def same_frame_def)
qed

lemma active_tab_member: "active_ok s \<Longrightarrow> active_tab s = Some w \<Longrightarrow> w \<in> set (tabs s)"
  by (auto simp: active_tab_def active_ok_def ContainsIndex_def count_tabs split: if_splits)

lemma DetermineInsertionIndex_ok:
  assumes "\<forall>op'. op = Some op' \<longrightarrow> op' \<in> set (tabs s)" "count s \<le> INT_MAX"
  obtains i where "DetermineInsertionIndex H s op = Inr i" "0 \<le> i" "i \<le> count s"
proof (cases op)
  case None
  then show ?thesis
    by (intro that [of "count s"]) (simp_all add: DetermineInsertionIndex_def count_def)
next
  case (Some op')
  let ?o = "GetIndexOfWebState s op'"
  let ?c = "GetIndexOfLastWebStateOpenedBy H s (Some op') ?o True"
  let ?r = "if ?c \<noteq> -1 then ?c else ?o"
  have o: "?o \<noteq> -1" "0 \<le> ?o" "?o < count s"
    using GetIndexOfWebState_range [of op' s] GetIndexOfWebState_member [of s op'] assms(1) Some
    by (auto simp: ContainsIndex_def)
  have "?c \<noteq> -1 \<Longrightarrow> 0 \<le> ?c \<and> ?c < count s"
    using GetIndexOfNth_cases [of INT_MAX H s op' ?o True]
    by (auto simp: GetIndexOfLastWebStateOpenedBy_def INT_MAX_def)
  with o have "0 \<le> ?r" "?r < count s" by auto
  moreover from this have "DetermineInsertionIndex H s op = Inr (?r + 1)"
    using o Some assms(2) by (simp add: DetermineInsertionIndex_def Let_def)
  ultimately show ?thesis by (intro that [of "?r + 1"]) auto
qed

lemma insertion_index_ok:
  assumes "\<forall>op'. opener op = Some op' \<longrightarrow> op' \<in> set (tabs s)" "count s \<le> INT_MAX"
    and "IsInsertionFlagSet flags INSERT_FORCE_INDEX \<longrightarrow> 0 \<le> index \<and> index \<le> count s"
  obtains i where "insertion_index H s index flags op = Inr i" "0 \<le> i" "i \<le> count s"
    "IsInsertionFlagSet flags INSERT_FORCE_INDEX \<longrightarrow> i = index"
proof (cases "IsInsertionFlagSet flags INSERT_FORCE_INDEX")
  case True
  with assms(3) show ?thesis by (intro that [of index]) (simp_all add: insertion_index_def)
next
  case False
  obtain i where "DetermineInsertionIndex H s (opener op) = Inr i" "0 \<le> i" "i \<le> count s"
    using DetermineInsertionIndex_ok [OF assms(1,2)] .
  with False show ?thesis by (intro that [of i]) (simp_all add: insertion_index_def)
qed

lemma insert_wrapper_fields:
  assumes "0 \<le> index" "index \<le> count s"
  shows "web_state_wrappers (insert_wrapper index w inherit act s) =
      insert_at (nat index) (WebStateWrapper w\<lparr>should_reset_opener := inherit\<rparr>) (web_state_wrappers s)"
    and "active_index (insert_wrapper index w inherit act s) =
      (if index \<le> active_index s then active_index s + 1 else active_index s)"
    and "effects (insert_wrapper index w inherit act s) =
      effects s @ [Delegate (WillAddWebState w), Notify (observers s) (WebStateInsertedAt w index act)]"
    and "same_frame s (insert_wrapper index w inherit act s)"
  using assms
  by (auto simp: insert_wrapper_def Let_def count_def insert_at_def list_update_append nth_append
      min_def WebStateWrapper_def same_frame_def)

lemma insert_wrapper_ok:
  fixes inherit act
  assumes "wsl_inv s" "0 \<le> index" "index \<le> count s" "w \<notin> set (tabs s)"
  defines "u \<equiv> insert_wrapper index w inherit act s"
  shows "wsl_inv u" "tabs u = insert_at (nat index) w (tabs s)" "active_tab u = active_tab s"
    "ContainsIndex u index" "tabs u ! nat index = w"
proof -
  note fields = insert_wrapper_fields [OF assms(2,3), of w inherit act, folded u_def]
  note inv = wsl_invD [OF assms(1)]
  have len: "nat index \<le> length (tabs s)" using assms(3) by (simp add: count_tabs)
  show tabs: "tabs u = insert_at (nat index) w (tabs s)"
    by (simp add: tabs_def fields map_insert_at WebStateWrapper_def)
  show "ContainsIndex u index"
    using assms(2,3) by (simp add: ContainsIndex_def count_tabs tabs)
  show nth: "tabs u ! nat index = w" using len by (simp add: tabs nth_insert_at)
  show active: "active_tab u = active_tab s"
  proof (cases "active_index s = -1")
    case True
    then show ?thesis using assms(2) by (simp add: active_tab_def fields)
  next
    case False
    then have "0 \<le> active_index s" "active_index s < int (length (tabs s))"
      using inv(2) by (auto simp: active_ok_def ContainsIndex_def count_tabs)
    then show ?thesis
      using assms(2) len by (auto simp: active_tab_def fields tabs nth_insert_at nat_add_distrib)
  qed
  have "active_ok u"
    using inv(2) assms(2) by (auto simp: active_ok_def ContainsIndex_def count_tabs tabs fields)
  moreover have "openers_ok u"
    using inv(3) by (auto simp: openers_ok_def fields tabs WebStateWrapper_def WebStateOpenerNull_def)
  moreover have "resets_ok u"
    using inv(4) by (auto simp: resets_ok_def fields WebStateWrapper_def WebStateOpenerNull_def)
  ultimately show "wsl_inv u"
    using inv assms(4) active by (simp add: wsl_inv_def tabs fields)
qed

lemma SetOpenerOfWebStateAt_ok:
  assumes "wsl_inv s" "ContainsIndex s index" "opener op = Some op'" "op' \<in> set (tabs s)"
    and "op' \<noteq> tabs s ! nat index"
  obtains s' where "SetOpenerOfWebStateAt index op s = Inr s'" "wsl_inv s'" "same_frame s s'"
    "tabs s' = tabs s" "active_index s' = active_index s"
    "web_state_wrappers s' = (web_state_wrappers s)[nat index := (web_state_wrappers s ! nat index)
       \<lparr>should_reset_opener := False, wrapper_opener := op\<rparr>]"
proof -
  let ?w = "web_state_wrappers s ! nat index"
  define u where "u = s\<lparr>web_state_wrappers := (web_state_wrappers s)[nat index :=
     ?w\<lparr>should_reset_opener := False, wrapper_opener := op\<rparr>]\<rparr>"
  note inv = wsl_invD [OF assms(1)]
  have len: "nat index < length (web_state_wrappers s)"
    using assms(2) by (auto simp: ContainsIndex_def count_def)
  then have wr: "wrapped ?w = tabs s ! nat index" by (simp add: tabs_def)
  have tabs: "tabs u = tabs s"
    using len by (simp add: u_def tabs_def map_update) (metis length_map list_update_id nth_map)
  then have active: "active_tab u = active_tab s" by (simp add: active_tab_def u_def)
  have "active_ok u" using inv(2) by (simp add: active_ok_def ContainsIndex_def count_def u_def)
  moreover have "openers_ok u"
    using inv(3) assms(3-5) wr unfolding openers_ok_def tabs
    by (auto simp: u_def dest!: set_update_subset_insert [THEN subsetD])
  moreover have "resets_ok u"
    using inv(4) by (auto simp: resets_ok_def u_def dest!: set_update_subset_insert [THEN subsetD])
  ultimately have "wsl_inv u"
    using inv active by (simp add: wsl_inv_def tabs) (simp add: u_def)
  moreover have "SetOpenerOfWebStateAt index op s = Inr u"
    using assms(2-5) wr GetIndexOfWebState_range [OF assms(4)]
    by (simp add: SetOpenerOfWebStateAt_def SetOpener_def u_def)
  ultimately show ?thesis
    using tabs by (intro that [of u]) (simp_all add: u_def same_frame_def)
qed

text \<open>What a caller of \<^verbatim>\<open>InsertWebState\<close> has to guarantee.\<close>

definition insert_pre :: "int \<Rightarrow> web_state_id \<Rightarrow> int \<Rightarrow> web_state_opener \<Rightarrow> web_state_list \<Rightarrow> bool" where
  "insert_pre index w flags op s \<longleftrightarrow>
     w \<notin> set (tabs s) \<and> count s < INT_MAX \<and>
     (\<forall>op'. opener op = Some op' \<longrightarrow> op' \<in> set (tabs s)) \<and>
     (IsInsertionFlagSet flags INSERT_FORCE_INDEX \<longrightarrow> 0 \<le> index \<and> index \<le> count s)"

lemma active_tab_cong:
  "tabs s = tabs t \<Longrightarrow> active_index s = active_index t \<Longrightarrow> active_tab s = active_tab t"
  by (simp add: active_tab_def)

lemma insert_prepare_ok:
  assumes "wsl_inv s" "insert_pre index w flags op s"
  obtains s1 op1 where
    "(if IsInsertionFlagSet flags INSERT_INHERIT_OPENER then inherit_opener H s else Inr (s, op)) =
       Inr (s1, op1)"
    "wsl_inv s1" "same_frame s s1" "tabs s1 = tabs s" "active_tab s1 = active_tab s"
    "insert_pre index w flags op1 s1"
proof (cases "IsInsertionFlagSet flags INSERT_INHERIT_OPENER")
  case True
  obtain s1 where s1: "inherit_opener H s = Inr (s1, WebStateOpener H (active_tab s))" "wsl_inv s1"
    "same_frame s s1" "tabs s1 = tabs s" "active_index s1 = active_index s"
    using inherit_opener_ok [OF assms(1)] .
  then show ?thesis
    using True assms(2) active_tab_member [OF wsl_invD(2) [OF assms(1)]]
    by (intro that [of s1]) (auto simp: WebStateOpener_def insert_pre_def count_tabs intro: active_tab_cong)
next
  case False
  with assms show ?thesis by (intro that [of s op]) (auto simp: same_frame_def)
qed

lemma insert_set_opener_ok:
  assumes "wsl_inv u" "ContainsIndex u i"
    and "\<forall>op'. opener op = Some op' \<longrightarrow> op' \<in> set (tabs u) \<and> op' \<noteq> tabs u ! nat i"
  obtains s2 where "(if opener op \<noteq> None then SetOpenerOfWebStateAt i op u else Inr u) = Inr s2"
    "wsl_inv s2" "same_frame u s2" "tabs s2 = tabs u" "active_tab s2 = active_tab u"
proof (cases "opener op")
  case None
  then show ?thesis using assms(1) by (intro that [of u]) (simp_all add: same_frame_def)
next
  case (Some op')
  then obtain s2 where "SetOpenerOfWebStateAt i op u = Inr s2" "wsl_inv s2" "same_frame u s2"
    "tabs s2 = tabs u" "active_index s2 = active_index u"
    using SetOpenerOfWebStateAt_ok [OF assms(1,2) Some] assms(3) by metis
  then show ?thesis using Some by (intro that [of s2]) (auto intro: active_tab_cong)
qed

lemma insert_activate_ok:
  assumes "wsl_inv s" "locked s" "ContainsIndex s i" "0 \<le> i"
  obtains s' where "(if act then ActivateWebStateAtImpl i Inserted s else Inr s) = Inr s'"
    "wsl_inv s'" "same_frame s s'" "tabs s' = tabs s"
    "active_tab s' = (if act then Some (tabs s ! nat i) else active_tab s)"
proof (cases act)
  case True
  obtain s' where "ActivateWebStateAtImpl i Inserted s = Inr s'" "wsl_inv s'" "same_frame s s'"
    "tabs s' = tabs s" "active_index s' = i"
    using ActivateWebStateAtImpl_ok [OF assms(1,2)] assms(3) by metis
  then show ?thesis using True assms(4) by (intro that [of s']) (simp_all add: active_tab_def)
next
  case False
  with assms show ?thesis by (intro that [of s]) (simp_all add: same_frame_def)
qed

lemma InsertWebStateImpl_ok:
  assumes "wsl_inv s" "locked s" "insert_pre index w flags op s"
  obtains s' i where "InsertWebStateImpl H index w flags op s = Inr (s', i)" "wsl_inv s'"
    "same_frame s s'" "0 \<le> i" "i \<le> count s" "tabs s' = insert_at (nat i) w (tabs s)"
    "active_tab s' = (if IsInsertionFlagSet flags INSERT_ACTIVATE then Some w else active_tab s)"
    "IsInsertionFlagSet flags INSERT_FORCE_INDEX \<longrightarrow> i = index"
proof -
  let ?inherit = "IsInsertionFlagSet flags INSERT_INHERIT_OPENER"
  let ?act = "IsInsertionFlagSet flags INSERT_ACTIVATE"
  obtain s1 op1 where s1: "(if ?inherit then inherit_opener H s else Inr (s, op)) = Inr (s1, op1)"
    "wsl_inv s1" "same_frame s s1" "tabs s1 = tabs s" "active_tab s1 = active_tab s"
    "insert_pre index w flags op1 s1"
    using insert_prepare_ok [OF assms(1,3)] .
  note pre = s1(6) [unfolded insert_pre_def]
  obtain i where i: "insertion_index H s1 index flags op1 = Inr i" "0 \<le> i" "i \<le> count s1"
    "IsInsertionFlagSet flags INSERT_FORCE_INDEX \<longrightarrow> i = index"
    using insertion_index_ok [of op1 s1 flags index H] pre by auto
  let ?u = "insert_wrapper i w ?inherit ?act s1"
  have w1: "w \<notin> set (tabs s1)" using pre by simp
  note u = insert_wrapper_ok [OF s1(2) i(2,3) w1, of ?inherit ?act]
  have "\<forall>op'. opener op1 = Some op' \<longrightarrow> op' \<in> set (tabs ?u) \<and> op' \<noteq> tabs ?u ! nat i"
    using pre u(2,5) by auto
  then obtain s2 where s2: "(if opener op1 \<noteq> None then SetOpenerOfWebStateAt i op1 ?u else Inr ?u) = Inr s2"
    "wsl_inv s2" "same_frame ?u s2" "tabs s2 = tabs ?u" "active_tab s2 = active_tab ?u"
    using insert_set_opener_ok [OF u(1,4)] by metis
  have frame: "same_frame s s2"
    using s1(3) insert_wrapper_fields(4) [OF i(2,3)] s2(3) by (blast intro: same_frame_trans)
  then have "locked s2" "ContainsIndex s2 i"
    using assms(2) u(4) s2(4) by (simp_all add: same_frame_def ContainsIndex_def count_tabs)
  then obtain s3 where s3: "(if ?act then ActivateWebStateAtImpl i Inserted s2 else Inr s2) = Inr s3"
    "wsl_inv s3" "same_frame s2 s3" "tabs s3 = tabs s2"
    "active_tab s3 = (if ?act then Some (tabs s2 ! nat i) else active_tab s2)"
    using insert_activate_ok [OF s2(2)] i(2) by metis
  have "InsertWebStateImpl H index w flags op s = Inr (s3, i)"
    using assms(2) s1(1) i(1-3) s2(1) s3(1)
    by (simp add: InsertWebStateImpl_def Let_def ContainsIndex_def order_le_less)
  then show ?thesis
    using that same_frame_trans [OF frame s3(3)] s3 s2(4,5) u(2,3,5) s1(4,5) i(2,3,4)
    by (simp add: count_tabs)
qed

subsection \<open>Moving a tab\<close>

definition moved_active :: "int \<Rightarrow> int \<Rightarrow> int \<Rightarrow> int" where
  "moved_active i j a =
     (if a = i then j
      else if min i j \<le> a \<and> a \<le> max i j then a + (if i < j then -1 else 1) else a)"

lemma moved_active_nat:
  "moved_active (int i) (int j) (int a) =
     int (if a = i then j else if i < a \<and> a \<le> j then a - 1
          else if j \<le> a \<and> a < i then a + 1 else a)"
  by (auto simp: moved_active_def)

lemma moved_active_nth:
  assumes "i < length xs" "j < length xs" "a < length xs"
  shows "moved_active (int i) (int j) (int a) \<in> {0..<int (length xs)}"
    and "insert_at j (xs ! i) (remove_at i xs) ! nat (moved_active (int i) (int j) (int a)) = xs ! a"
  using assms unfolding moved_active_nat by (auto simp: nth_move)

lemma MoveWebStateAtImpl_eq:
  assumes "locked s" "ContainsIndex s i" "ContainsIndex s j" "i \<noteq> j"
  shows "MoveWebStateAtImpl i j s =
    Inr (notify (WebStateMoved (wrapped (web_state_wrappers s ! nat i)) i j)
      (s\<lparr>web_state_wrappers :=
           insert_at (nat j) (web_state_wrappers s ! nat i) (remove_at (nat i) (web_state_wrappers s)),
         active_index := moved_active i j (active_index s)\<rparr>))"
  using assms by (auto simp: MoveWebStateAtImpl_def Let_def moved_active_def notify_def emit_def)

lemma MoveWebStateAtImpl_ok:
  assumes "wsl_inv s" "locked s" "ContainsIndex s i" "ContainsIndex s j"
  obtains s' where "MoveWebStateAtImpl i j s = Inr s'" "wsl_inv s'" "same_frame s s'"
    "tabs s' = insert_at (nat j) (tabs s ! nat i) (remove_at (nat i) (tabs s))"
    "active_tab s' = active_tab s"
proof (cases "i = j")
  case True
  have "insert_at (nat i) (tabs s ! nat i) (remove_at (nat i) (tabs s)) = tabs s"
    using assms(3) by (intro insert_remove_at) (auto simp: ContainsIndex_def count_tabs)
  then show ?thesis
    using assms True by (intro that [of s]) (auto simp: MoveWebStateAtImpl_def same_frame_def)
next
  case False
  note inv = wsl_invD [OF assms(1)]
  let ?ws = "web_state_wrappers s"
  have ij: "0 \<le> i" "nat i < length (tabs s)" "0 \<le> j" "nat j < length (tabs s)"
    using assms(3,4) by (auto simp: ContainsIndex_def count_tabs)
  define s' where "s' = notify (WebStateMoved (wrapped (?ws ! nat i)) i j)
      (s\<lparr>web_state_wrappers := insert_at (nat j) (?ws ! nat i) (remove_at (nat i) ?ws),
         active_index := moved_active i j (active_index s)\<rparr>)"
  have s': "MoveWebStateAtImpl i j s = Inr s'"
    "web_state_wrappers s' = insert_at (nat j) (?ws ! nat i) (remove_at (nat i) ?ws)"
    "active_index s' = moved_active i j (active_index s)"
    "effects s' = effects s @ [Notify (observers s) (WebStateMoved (wrapped (?ws ! nat i)) i j)]"
    "same_frame s s'"
    using MoveWebStateAtImpl_eq [OF assms(2-4) False] by (simp_all add: s'_def same_frame_def)
  have nth: "wrapped (?ws ! nat i) = tabs s ! nat i" using ij by (simp add: tabs_def)
  have tabs: "tabs s' = insert_at (nat j) (tabs s ! nat i) (remove_at (nat i) (tabs s))"
    by (simp add: tabs_def s'(2) map_insert_at map_remove_at nth [unfolded tabs_def])
  have set: "set (tabs s') = set (tabs s)"
    unfolding tabs using inv(1) ij by (intro set_move)
  have ws: "set (web_state_wrappers s') = set ?ws"
    unfolding s'(2) using ij inv(1) by (intro set_move) (auto simp: tabs_def distinct_map)
  have active: "active_tab s' = active_tab s \<and> active_ok s'"
  proof (cases "active_index s = -1")
    case True
    then show ?thesis using ij by (simp add: active_tab_def active_ok_def s'(3) moved_active_def)
  next
    case False
    then have a: "0 \<le> active_index s" "nat (active_index s) < length (tabs s)"
      using inv(2) by (auto simp: active_ok_def ContainsIndex_def count_tabs)
    note m = moved_active_nth [OF ij(2,4) a(2), unfolded int_nat_eq, simplified ij(1,3) a(1) if_True]
    have "length (tabs s') = length (tabs s)" unfolding tabs using ij(2) by (rule length_move)
    then show ?thesis
      using m False unfolding active_tab_def active_ok_def ContainsIndex_def count_tabs tabs s'(3)
      by (auto simp del: length_insert_at)
  qed
  have "wsl_inv s'"
    using inv active set ws tabs nth distinct_move [OF inv(1) ij(2)]
    by (simp add: wsl_inv_def openers_ok_def resets_ok_def s'(4))
  then show ?thesis using that s'(1,5) tabs active by simp
qed

subsection \<open>Removing and replacing a tab\<close>

text \<open>
  After \<^verbatim>\<open>ClearOpenersReferencing\<close> no opener refers to the tab that leaves.
\<close>

lemma cleared_openers:
  assumes "wsl_inv s" "w \<in> set (map (clear_opener old) (web_state_wrappers s))"
    and "opener (wrapper_opener w) = Some op"
  shows "op \<in> set (tabs s) - {old}" "op \<noteq> wrapped w"
  using assms(2,3) wsl_invD(3) [OF assms(1)] by (auto simp: openers_ok_def split: if_splits)

lemma cleared_resets:
  assumes "wsl_inv s" "w \<in> set (map (clear_opener old) (web_state_wrappers s))" "should_reset_opener w"
  shows "opener (wrapper_opener w) = None"
  using assms(2,3) wsl_invD(4) [OF assms(1)] by (auto simp: resets_ok_def)

definition replaced_list :: "int \<Rightarrow> web_state_id \<Rightarrow> web_state_list \<Rightarrow> web_state_list" where
  "replaced_list i new s =
     (let old = wrapped (web_state_wrappers s ! nat i);
          ws = map (clear_opener old) (web_state_wrappers s)
      in notify (WebStateReplacedAt old new i)
           ((emit (Delegate (WillAddWebState new)) s)
              \<lparr>web_state_wrappers :=
                 ws[nat i := (ws ! nat i)\<lparr>wrapped := new, wrapper_opener := WebStateOpenerNull\<rparr>]\<rparr>))"

lemma ReplaceWebStateAtImpl_eq:
  assumes "locked s" "ContainsIndex s i" "active_ok s" "new \<noteq> wrapped (web_state_wrappers s ! nat i)"
  defines "old \<equiv> wrapped (web_state_wrappers s ! nat i)"
  shows "ReplaceWebStateAtImpl i new s =
    Inr (emit (Delegate (WebStateDetached old)) (announce (Some old) Replaced (replaced_list i new s)), old)"
proof -
  have "nat i < length (web_state_wrappers s)"
    using assms(2) by (auto simp: ContainsIndex_def count_def)
  moreover have "active_ok (replaced_list i new s)"
    using assms(3) by (simp add: active_ok_def ContainsIndex_def count_def replaced_list_def Let_def)
  ultimately show ?thesis
    using assms by (simp add: ReplaceWebStateAtImpl_def ClearOpenersReferencing_eq ReplaceWebState_def
        NotifyIfActiveWebStateChanged_eq replaced_list_def Let_def)
qed

lemma replaced_list_fields:
  assumes "ContainsIndex s i"
  shows "tabs (replaced_list i new s) = (tabs s)[nat i := new]"
    and "active_index (replaced_list i new s) = active_index s"
    and "same_frame s (replaced_list i new s)"
    and "mirror_of (effects (replaced_list i new s)) =
      ((fst (mirror_of (effects s)))[nat i := new], snd (mirror_of (effects s)))"
proof -
  have "nat i < length (web_state_wrappers s)"
    using assms by (auto simp: ContainsIndex_def count_def)
  then show "tabs (replaced_list i new s) = (tabs s)[nat i := new]"
    by (simp add: replaced_list_def Let_def tabs_def map_update)
  show "mirror_of (effects (replaced_list i new s)) =
      ((fst (mirror_of (effects s)))[nat i := new], snd (mirror_of (effects s)))"
    by (cases "mirror_of (effects s)") (simp add: replaced_list_def Let_def)
qed (simp_all add: replaced_list_def Let_def same_frame_def)

lemma replaced_list_wf:
  assumes "wsl_inv s" "ContainsIndex s i" "new \<notin> set (tabs s)"
  shows "distinct (tabs (replaced_list i new s))" "active_ok (replaced_list i new s)"
    "openers_ok (replaced_list i new s)" "resets_ok (replaced_list i new s)"
proof -
  note inv = wsl_invD [OF assms(1)] and tabs = replaced_list_fields(1) [OF assms(2), of new]
  let ?old = "wrapped (web_state_wrappers s ! nat i)"
  let ?ws = "map (clear_opener ?old) (web_state_wrappers s)"
  have i: "nat i < length (web_state_wrappers s)"
    using assms(2) by (auto simp: ContainsIndex_def count_def)
  then have old: "?old = tabs s ! nat i" by (simp add: tabs_def)
  have set: "set (tabs (replaced_list i new s)) = insert new (set (tabs s) - {?old})"
    unfolding tabs old using inv(1) i by (intro set_list_update_distinct) (simp_all add: tabs_def)
  show "distinct (tabs (replaced_list i new s))"
    unfolding tabs using inv(1) assms(3) by (intro distinct_list_update) auto
  show "active_ok (replaced_list i new s)"
    using inv(2) by (simp add: active_ok_def ContainsIndex_def count_tabs tabs
        replaced_list_fields(2) [OF assms(2)])
  have members: "w \<in> set ?ws \<or> opener (wrapper_opener w) = None"
    if "w \<in> set (web_state_wrappers (replaced_list i new s))" for w
    using that by (auto simp: replaced_list_def Let_def WebStateOpenerNull_def
        dest!: set_update_subset_insert [THEN subsetD])
  show "openers_ok (replaced_list i new s)"
    unfolding openers_ok_def set
  proof (intro ballI allI impI)
    fix w op
    assume w: "w \<in> set (web_state_wrappers (replaced_list i new s))"
      and op: "opener (wrapper_opener w) = Some op"
    from members [OF w] op have "w \<in> set ?ws" by simp
    from cleared_openers [OF assms(1) this op] show "op \<in> insert new (set (tabs s) - {?old}) \<and> op \<noteq> wrapped w"
      by blast
  qed
  show "resets_ok (replaced_list i new s)"
    unfolding resets_ok_def
    using members cleared_resets [OF assms(1)] by blast
qed

lemma ReplaceWebStateAtImpl_ok:
  assumes "wsl_inv s" "locked s" "ContainsIndex s i" "new \<notin> set (tabs s)"
  obtains s' where "ReplaceWebStateAtImpl i new s = Inr (s', tabs s ! nat i)" "wsl_inv s'"
    "same_frame s s'" "tabs s' = (tabs s)[nat i := new]" "active_index s' = active_index s"
proof -
  let ?old = "wrapped (web_state_wrappers s ! nat i)" and ?r = "replaced_list i new s"
  define s' where "s' = emit (Delegate (WebStateDetached ?old)) (announce (Some ?old) Replaced ?r)"
  note inv = wsl_invD [OF assms(1)] and r = replaced_list_fields [OF assms(3), of new]
  have old: "?old = tabs s ! nat i" "nat i < length (tabs s)"
    using assms(3) by (auto simp: ContainsIndex_def count_def tabs_def)
  then have "new \<noteq> ?old" using assms(4) by force
  then have eq: "ReplaceWebStateAtImpl i new s = Inr (s', tabs s ! nat i)"
    using ReplaceWebStateAtImpl_eq [OF assms(2,3) inv(2)] old(1) by (simp add: s'_def)
  have tabs: "tabs s' = tabs ?r" "active_index s' = active_index s"
    using r(2) by (simp_all add: s'_def tabs_def)
  then have act: "active_tab s' = active_tab ?r" using r(2) by (simp add: active_tab_def)
  have "?old \<notin> set (tabs ?r)"
    unfolding r(1) using old \<open>new \<noteq> ?old\<close> inv(1) by (auto simp: set_list_update_distinct)
  then have "Some ?old \<noteq> active_tab ?r"
    using active_tab_member [OF replaced_list_wf(2) [OF assms(1,3,4)]] by metis
  then have "mirror_of (effects s') = (tabs s', active_tab s')"
    using r(1,4) inv(5) tabs act by (simp add: s'_def mirror_announce)
  then have "wsl_inv s'"
    using replaced_list_wf [OF assms(1,3,4)] tabs
    by (simp add: wsl_inv_def active_ok_def openers_ok_def resets_ok_def ContainsIndex_def count_tabs)
       (simp add: s'_def)
  then show ?thesis
    using that [OF eq] tabs r(1,3) by (simp add: s'_def same_frame_def)
qed

text \<open>The active index that \<^verbatim>\<open>DetachWebStateAtImpl\<close> computes.\<close>

lemma detach_new_active:
  assumes "wsl_inv s" "ContainsIndex s i" "web_state_wrappers t = web_state_wrappers s"
  obtains na where
    "DetermineNewActiveIndex H t (active_index s) (StorageFromInitializerList [i]) = Inr na"
    "na = -1 \<or> 0 \<le> na \<and> na < count s - 1"
    "active_index s \<noteq> i \<Longrightarrow> na = (if active_index s > i then active_index s - 1 else active_index s)"
    "active_index s = i \<Longrightarrow> na = -1 \<longleftrightarrow> count s = 1"
proof -
  let ?a = "active_index s" and ?r = "StorageFromInitializerList [i]"
  have r: "?r = StorageOne i" by (simp add: StorageFromInitializerList_def)
  have ct: "count t = count s" using assms(3) by (simp add: count_def)
  have i: "0 \<le> i" "i < count s" using assms(2) by (auto simp: ContainsIndex_def)
  consider (none) "?a = -1" | (sole) "?a \<noteq> -1" "count s = 1" | (other) "?a \<noteq> -1" "count s \<noteq> 1"
    by blast
  then show ?thesis
  proof cases
    case none
    with i show ?thesis by (intro that [of "-1"]) (simp_all add: DetermineNewActiveIndex_def)
  next
    case sole
    then have "?a = i"
      using i wsl_invD(2) [OF assms(1)] by (auto simp: active_ok_def ContainsIndex_def)
    with sole i ct show ?thesis
      by (intro that [of "-1"]) (simp_all add: DetermineNewActiveIndex_def r ContainsIndex_def)
  next
    case other
    then have a: "0 \<le> ?a" "?a < count s"
      using wsl_invD(2) [OF assms(1)] by (auto simp: active_ok_def ContainsIndex_def)
    have "web_state_wrappers s ! nat ?a \<in> set (web_state_wrappers s)"
      using a by (simp add: count_def)
    then have "\<forall>op. opener (wrapper_opener (web_state_wrappers t ! nat ?a)) = Some op \<longrightarrow>
        GetIndexOfWebState t op \<noteq> -1"
      using wsl_invD(3) [OF assms(1)] assms(3)
      unfolding GetIndexOfWebState_member openers_ok_def by (simp add: tabs_def)
    then have "picks_survivor ?r t (DetermineNewActiveIndex H t ?a ?r)"
      using i a ct other(2) by (intro DetermineNewActiveIndex_picks) (simp_all add: r)
    then obtain na where na: "DetermineNewActiveIndex H t ?a ?r = Inr na" "0 \<le> na" "na < count t - 1"
      using picks_survivor_range [of ?r t] i ct by (auto simp: r)
    moreover have "?a \<noteq> i \<Longrightarrow> na = (if ?a > i then ?a - 1 else ?a)"
      using na(1) other a i ct by (auto simp: DetermineNewActiveIndex_def r ContainsIndex_def Let_def split: if_splits)
    ultimately show ?thesis
      using that other(2) ct by auto
  qed
qed

definition detached_list :: "int \<Rightarrow> int \<Rightarrow> web_state_list \<Rightarrow> web_state_list" where
  "detached_list i na s =
     (let w = wrapped (web_state_wrappers s ! nat i)
      in notify (WebStateDetachedAt w i)
           ((notify (WillDetachWebStateAt w i) s)
              \<lparr>active_index := na,
               web_state_wrappers := remove_at (nat i) (map (clear_opener w) (web_state_wrappers s))\<rparr>))"

lemma detached_list_fields:
  "tabs (detached_list i na s) = remove_at (nat i) (tabs s)"
  "active_index (detached_list i na s) = na"
  "same_frame s (detached_list i na s)"
  "mirror_of (effects (detached_list i na s)) =
     (remove_at (nat i) (fst (mirror_of (effects s))), snd (mirror_of (effects s)))"
  by (simp_all add: detached_list_def Let_def tabs_def map_remove_at same_frame_def)
     (cases "mirror_of (effects s)", simp)

lemma DetachWebStateAtImpl_eq:
  assumes "locked s" "ContainsIndex s i" "na = -1 \<or> 0 \<le> na \<and> na < count s - 1"
  defines "w \<equiv> wrapped (web_state_wrappers s ! nat i)"
  assumes "DetermineNewActiveIndex H (notify (WillDetachWebStateAt w i) s) (active_index s)
      (StorageFromInitializerList [i]) = Inr na"
  shows "DetachWebStateAtImpl H i s =
    Inr (emit (Delegate (WebStateDetached w))
          (if i = active_index s then announce (Some w) Closed (detached_list i na s)
           else detached_list i na s), w)"
proof -
  have i: "nat i < length (web_state_wrappers s)"
    using assms(2) by (auto simp: ContainsIndex_def count_def)
  then have ok: "active_ok (detached_list i na s)"
    using assms(3) by (auto simp: active_ok_def ContainsIndex_def count_def detached_list_def Let_def)
  from ok have "na = -1 \<or> 0 \<le> na \<and> na < int (length (remove_at (nat i) (map (clear_opener w) (web_state_wrappers s))))"
    by (auto simp: active_ok_def ContainsIndex_def count_def detached_list_def Let_def w_def)
  then show ?thesis
    using assms(1,2) assms(5) i NotifyIfActiveWebStateChanged_eq [OF ok]
    unfolding w_def
    by (auto simp: DetachWebStateAtImpl_def ClearOpenersReferencing_eq ReleaseWebState_def Let_def
        ContainsIndex_def count_def detached_list_def)
qed

lemma detached_list_wf:
  assumes "wsl_inv s" "ContainsIndex s i" "na = -1 \<or> 0 \<le> na \<and> na < count s - 1"
  shows "distinct (tabs (detached_list i na s))" "active_ok (detached_list i na s)"
    "openers_ok (detached_list i na s)" "resets_ok (detached_list i na s)"
proof -
  note inv = wsl_invD [OF assms(1)] and f = detached_list_fields [where i = i and na = na and s = s]
  let ?w = "wrapped (web_state_wrappers s ! nat i)"
  let ?ws = "map (clear_opener ?w) (web_state_wrappers s)"
  have i: "nat i < length (tabs s)" using assms(2) by (auto simp: ContainsIndex_def count_tabs)
  then have w: "?w = tabs s ! nat i" by (simp add: tabs_def)
  have sub: "w \<in> set ?ws" if "w \<in> set (web_state_wrappers (detached_list i na s))" for w
    using that set_remove_at_subset by (fastforce simp: detached_list_def Let_def)
  have set: "set (tabs (detached_list i na s)) = set (tabs s) - {?w}"
    unfolding f w using inv(1) i by (rule set_remove_at_distinct)
  show "distinct (tabs (detached_list i na s))" unfolding f using inv(1) by (rule distinct_remove_at)
  show "active_ok (detached_list i na s)"
    using assms(3) i by (auto simp: active_ok_def ContainsIndex_def count_tabs f)
  show "openers_ok (detached_list i na s)"
    unfolding openers_ok_def set
  proof (intro ballI allI impI)
    fix w op
    assume "w \<in> set (web_state_wrappers (detached_list i na s))" "opener (wrapper_opener w) = Some op"
    from cleared_openers [OF assms(1) sub [OF this(1)] this(2)]
    show "op \<in> set (tabs s) - {?w} \<and> op \<noteq> wrapped w" by blast
  qed
  show "resets_ok (detached_list i na s)"
    unfolding resets_ok_def using sub cleared_resets [OF assms(1)] by blast
qed

lemma detached_list_active_tab:
  assumes "wsl_inv s" "ContainsIndex s i" "active_index s \<noteq> i"
    and "na = (if active_index s > i then active_index s - 1 else active_index s)"
  shows "active_tab (detached_list i na s) = active_tab s"
proof (cases "active_index s = -1")
  case True
  with assms show ?thesis by (simp add: active_tab_def detached_list_fields ContainsIndex_def)
next
  case False
  then have a: "0 \<le> active_index s" "active_index s < int (length (tabs s))"
    using wsl_invD(2) [OF assms(1)] by (auto simp: active_ok_def ContainsIndex_def count_tabs)
  have i: "0 \<le> i" "nat i < length (tabs s)"
    using assms(2) by (auto simp: ContainsIndex_def count_tabs)
  have "na \<noteq> -1" using a i assms(4) by auto
  moreover have "remove_at (nat i) (tabs s) ! nat na = tabs s ! nat (active_index s)"
    using a i assms(3,4) by (auto simp: nth_remove_at Suc_nat_eq_nat_zadd1)
  ultimately show ?thesis
    using False by (simp add: active_tab_def detached_list_fields)
qed

lemma DetachWebStateAtImpl_ok:
  assumes "wsl_inv s" "locked s" "ContainsIndex s i"
  obtains s' where "DetachWebStateAtImpl H i s = Inr (s', tabs s ! nat i)" "wsl_inv s'"
    "same_frame s s'" "tabs s' = remove_at (nat i) (tabs s)"
    "active_index s \<noteq> i \<Longrightarrow> active_tab s' = active_tab s"
    "active_index s = i \<Longrightarrow> active_tab s' = None \<longleftrightarrow> tabs s' = []"
proof -
  let ?w = "wrapped (web_state_wrappers s ! nat i)"
  note inv = wsl_invD [OF assms(1)]
  obtain na where na:
    "DetermineNewActiveIndex H (notify (WillDetachWebStateAt ?w i) s) (active_index s)
       (StorageFromInitializerList [i]) = Inr na"
    "na = -1 \<or> 0 \<le> na \<and> na < count s - 1"
    "active_index s \<noteq> i \<Longrightarrow> na = (if active_index s > i then active_index s - 1 else active_index s)"
    "active_index s = i \<Longrightarrow> na = -1 \<longleftrightarrow> count s = 1"
    using detach_new_active [OF assms(1,3), of "notify (WillDetachWebStateAt ?w i) s" H] by auto
  let ?d = "detached_list i na s"
  note f = detached_list_fields [where i = i and na = na and s = s] and wf = detached_list_wf [OF assms(1,3) na(2)]
  have i: "nat i < length (tabs s)" "?w = tabs s ! nat i"
    using assms(3) by (auto simp: ContainsIndex_def count_def tabs_def)
  define s' where "s' = emit (Delegate (WebStateDetached ?w))
    (if i = active_index s then announce (Some ?w) Closed ?d else ?d)"
  have eq: "DetachWebStateAtImpl H i s = Inr (s', tabs s ! nat i)"
    using DetachWebStateAtImpl_eq [OF assms(2,3) na(2,1)] i(2) by (simp add: s'_def)
  have s': "tabs s' = tabs ?d" "active_index s' = na" "web_state_wrappers s' = web_state_wrappers ?d"
    by (simp_all add: s'_def tabs_def detached_list_fields(2))
  then have act: "active_tab s' = active_tab ?d" using f(2) by (simp add: active_tab_def)
  have "?w \<notin> set (tabs ?d)" unfolding f i(2) using inv(1) i(1) by (simp add: set_remove_at_distinct)
  then have "Some ?w \<noteq> active_tab ?d" using active_tab_member [OF wf(2)] by metis
  then have "mirror_of (effects s') = (tabs s', active_tab s')"
    using f(1,4) inv(5) s'(1) act detached_list_active_tab [OF assms(1,3) _ na(3)]
    by (auto simp: s'_def mirror_announce)
  then have "wsl_inv s'"
    using wf s' f(2) by (simp add: wsl_inv_def active_ok_def openers_ok_def resets_ok_def ContainsIndex_def count_tabs)
  moreover have "active_tab s' = None \<longleftrightarrow> tabs s' = []" if "active_index s = i"
    using na(4) [OF that] i(1) s'(1,2) f(1) by (auto simp: active_tab_def count_tabs simp flip: length_0_conv)
  moreover have "same_frame s s'" using f(3) by (auto simp: s'_def same_frame_def)
  moreover have "active_tab s' = active_tab s" if "active_index s \<noteq> i"
    using act detached_list_active_tab [OF assms(1,3) that na(3) [OF that]] by simp
  ultimately show ?thesis using that [OF eq] s'(1) f(1) by simp
qed

subsection \<open>Closing\<close>

lemma CloseWebStateAtImpl_ok:
  assumes "wsl_inv s" "locked s" "ContainsIndex s i"
  obtains s' where "CloseWebStateAtImpl H i flags s = Inr s'" "wsl_inv s'" "same_frame s s'"
    "tabs s' = remove_at (nat i) (tabs s)"
    "active_index s \<noteq> i \<Longrightarrow> active_tab s' = active_tab s"
    "active_index s = i \<Longrightarrow> active_tab s' = None \<longleftrightarrow> tabs s' = []"
proof -
  obtain d where d: "DetachWebStateAtImpl H i s = Inr (d, tabs s ! nat i)" "wsl_inv d"
    "same_frame s d" "tabs d = remove_at (nat i) (tabs s)"
    "active_index s \<noteq> i \<Longrightarrow> active_tab d = active_tab s"
    "active_index s = i \<Longrightarrow> active_tab d = None \<longleftrightarrow> tabs d = []"
    using DetachWebStateAtImpl_ok [OF assms] by metis
  let ?n = "WillCloseWebStateAt (tabs s ! nat i) i (IsClosingFlagSet flags CLOSE_USER_ACTION)"
  have view: "tabs (notify ?n d) = tabs d" "active_tab (notify ?n d) = active_tab d"
    by (simp_all add: tabs_def active_tab_def)
  then have "wsl_inv (notify ?n d)"
    using d(2) by (simp add: wsl_inv_def active_ok_def openers_ok_def resets_ok_def ContainsIndex_def count_tabs)
  then show ?thesis
    using that [of "notify ?n d"] assms(2) d view
    by (simp add: CloseWebStateAtImpl_def same_frame_def)
qed

text \<open>
  \<^verbatim>\<open>CloseAllWebStatesImpl\<close>: the loop closes tabs from last to first while the list is not
  empty.  Each round removes one wrapper, which is the termination argument.
\<close>

lemma NotifyIfActiveWebStateChanged_wrappers:
  "NotifyIfActiveWebStateChanged old reason s = Inr s' \<Longrightarrow> web_state_wrappers s' = web_state_wrappers s"
  by (auto simp: NotifyIfActiveWebStateChanged_def res_simps Let_def split: if_splits option.splits)

lemma CloseWebStateAtImpl_shrinks:
  assumes "CloseWebStateAtImpl H i flags s = Inr s'"
  shows "length (web_state_wrappers s') < length (web_state_wrappers s)"
proof -
  obtain d w where d: "DetachWebStateAtImpl H i s = Inr (d, w)"
    and s': "web_state_wrappers s' = web_state_wrappers d"
    using assms by (auto simp: CloseWebStateAtImpl_def res_simps)
  from d have "0 \<le> i" "i < int (length (web_state_wrappers s))"
    by (auto simp: DetachWebStateAtImpl_def res_simps ContainsIndex_def count_def)
  moreover from d have "length (web_state_wrappers d) =
      length (remove_at (nat i) (map (clear_opener (wrapped (web_state_wrappers s ! nat i))) (web_state_wrappers s)))"
    by (auto simp: DetachWebStateAtImpl_def res_simps ClearOpenersReferencing_eq Let_def
        dest: NotifyIfActiveWebStateChanged_wrappers split: if_splits)
  ultimately show ?thesis unfolding s' by simp
qed

function close_all_loop :: "heap \<Rightarrow> int \<Rightarrow> web_state_list \<Rightarrow> web_state_list res" where
  "close_all_loop H close_flags s =
     (if empty s then Inr s
      else case CloseWebStateAtImpl H (count s - 1) close_flags s of
             Inl e \<Rightarrow> Inl e
           | Inr s' \<Rightarrow> close_all_loop H close_flags s')"
  by pat_completeness auto
termination
  by (relation "measure (\<lambda>(H, f, s). length (web_state_wrappers s))")
     (auto intro: CloseWebStateAtImpl_shrinks)

declare close_all_loop.simps [simp del]

definition CloseAllWebStatesImpl :: "heap \<Rightarrow> int \<Rightarrow> web_state_list \<Rightarrow> web_state_list res" where
  "CloseAllWebStatesImpl H close_flags s =
     dcheck (locked s) ''locked_''
     (PerformBatchOperation
        (Some (\<lambda>s. rbind (ActivateWebStateAtImpl kInvalidIndex Closed s) (close_all_loop H close_flags)))
        s)"

lemma close_all_loop_ok:
  assumes "wsl_inv s" "locked s" "active_index s = -1"
  obtains s' where "close_all_loop H flags s = Inr s'" "wsl_inv s'" "same_frame s s'"
    "tabs s' = []" "active_index s' = -1"
  using assms
proof (induction "length (tabs s)" arbitrary: s thesis)
  case 0
  then show ?case
    by (intro "0.prems"(1) [of s])
       (simp_all add: close_all_loop.simps empty_def tabs_def same_frame_def)
next
  case (Suc n)
  have last: "ContainsIndex s (count s - 1)" "\<not> empty s" "count s - 1 = int n"
    using Suc.hyps(2) by (auto simp: ContainsIndex_def count_tabs empty_def tabs_def)
  then obtain t where t: "CloseWebStateAtImpl H (count s - 1) flags s = Inr t" "wsl_inv t"
    "same_frame s t" "tabs t = remove_at n (tabs s)"
    "active_index s \<noteq> count s - 1 \<Longrightarrow> active_tab t = active_tab s"
    using CloseWebStateAtImpl_ok [OF Suc.prems(2,3)] by (metis nat_int)
  have "n = length (tabs t)" using t(4) Suc.hyps(2) by simp
  moreover have "active_index t = -1"
    using t(5) Suc.prems(4) last(3) by (simp add: active_tab_def split: if_splits)
  moreover have "locked t" using t(3) Suc.prems(3) by (simp add: same_frame_def)
  ultimately obtain s' where "close_all_loop H flags t = Inr s'" "wsl_inv s'" "same_frame t s'"
    "tabs s' = []" "active_index s' = -1"
    using Suc.hyps(1) t(2) by metis
  then show ?case
    using t(1,3) last(2) by (intro Suc.prems(1) [of s']) (auto simp: close_all_loop.simps [of H flags s] intro: same_frame_trans)
qed

lemma wsl_inv_frame:
  assumes "wsl_inv s" "web_state_wrappers t = web_state_wrappers s" "active_index t = active_index s"
    and "mirror_of (effects t) = mirror_of (effects s)"
  shows "wsl_inv t" "tabs t = tabs s" "active_tab t = active_tab s"
  using assms
  by (simp_all add: wsl_inv_def tabs_def active_tab_def active_ok_def openers_ok_def resets_ok_def
      ContainsIndex_def count_def)

lemma CloseAllWebStatesImpl_ok:
  assumes "wsl_inv s" "locked s" "\<not> batch_operation_in_progress s"
  obtains s' where "CloseAllWebStatesImpl H flags s = Inr s'" "wsl_inv s'" "same_frame s s'"
    "tabs s' = []" "active_index s' = -1"
proof -
  define b where "b = notify WillBeginBatchOperation (s\<lparr>batch_operation_in_progress := True\<rparr>)"
  have "wsl_inv b" "locked b"
    using wsl_inv_frame(1) [OF assms(1), of b] assms(2) by (simp_all add: b_def)
  then obtain a where a: "ActivateWebStateAtImpl (-1) Closed b = Inr a" "wsl_inv a" "same_frame b a"
    "active_index a = -1"
    using ActivateWebStateAtImpl_ok by metis
  moreover have "locked a" using a(3) \<open>locked b\<close> by (simp add: same_frame_def)
  ultimately obtain c where c: "close_all_loop H flags a = Inr c" "wsl_inv c" "same_frame a c"
    "tabs c = []" "active_index c = -1"
    using close_all_loop_ok by metis
  let ?s' = "(notify BatchOperationEnded c)\<lparr>batch_operation_in_progress := False\<rparr>"
  have "wsl_inv ?s'" "tabs ?s' = tabs c"
    using wsl_inv_frame [OF c(2), of ?s'] by simp_all
  then show ?thesis
    using that [of ?s'] assms(2,3) a c
    by (simp add: CloseAllWebStatesImpl_def PerformBatchOperation_def b_def same_frame_def)
qed

section \<open>The public operations\<close>

definition LockForMutation :: "web_state_list \<Rightarrow> web_state_list res" where
  "LockForMutation s = ccheck (\<not> locked s) ''WebStateList is not re-entrant'' (Inr (s\<lparr>locked := True\<rparr>))"

definition InsertWebState ::
  "heap \<Rightarrow> int \<Rightarrow> web_state_id \<Rightarrow> int \<Rightarrow> web_state_opener \<Rightarrow> web_state_list \<Rightarrow> (web_state_list \<times> int) res" where
  "InsertWebState H index web_state insertion_flags op s =
     rbind (LockForMutation s) (\<lambda>s.
     rbind (InsertWebStateImpl H index web_state insertion_flags op s) (\<lambda>(s, i).
     Inr (s\<lparr>locked := False\<rparr>, i)))"

definition MoveWebStateAt :: "int \<Rightarrow> int \<Rightarrow> web_state_list \<Rightarrow> web_state_list res" where
  "MoveWebStateAt from_index to_index s =
     rbind (LockForMutation s) (\<lambda>s.
     rbind (MoveWebStateAtImpl from_index to_index s) (\<lambda>s. Inr (s\<lparr>locked := False\<rparr>)))"

definition ReplaceWebStateAt ::
  "int \<Rightarrow> web_state_id \<Rightarrow> web_state_list \<Rightarrow> (web_state_list \<times> web_state_id) res" where
  "ReplaceWebStateAt index web_state s =
     rbind (LockForMutation s) (\<lambda>s.
     rbind (ReplaceWebStateAtImpl index web_state s) (\<lambda>(s, old). Inr (s\<lparr>locked := False\<rparr>, old)))"

definition DetachWebStateAt :: "heap \<Rightarrow> int \<Rightarrow> web_state_list \<Rightarrow> (web_state_list \<times> web_state_id) res" where
  "DetachWebStateAt H index s =
     rbind (LockForMutation s) (\<lambda>s.
     rbind (DetachWebStateAtImpl H index s) (\<lambda>(s, w). Inr (s\<lparr>locked := False\<rparr>, w)))"

definition CloseWebStateAt :: "heap \<Rightarrow> int \<Rightarrow> int \<Rightarrow> web_state_list \<Rightarrow> web_state_list res" where
  "CloseWebStateAt H index close_flags s =
     rbind (LockForMutation s) (\<lambda>s.
     rbind (CloseWebStateAtImpl H index close_flags s) (\<lambda>s. Inr (s\<lparr>locked := False\<rparr>)))"

definition CloseAllWebStates :: "heap \<Rightarrow> int \<Rightarrow> web_state_list \<Rightarrow> web_state_list res" where
  "CloseAllWebStates H close_flags s =
     rbind (LockForMutation s) (\<lambda>s.
     rbind (CloseAllWebStatesImpl H close_flags s) (\<lambda>s. Inr (s\<lparr>locked := False\<rparr>)))"

definition ActivateWebStateAt :: "int \<Rightarrow> web_state_list \<Rightarrow> web_state_list res" where
  "ActivateWebStateAt index s =
     dcheck (ContainsIndex s index) ''ContainsIndex(index)''
     (rbind (LockForMutation s) (\<lambda>s.
      rbind (ActivateWebStateAtImpl index Activated s) (\<lambda>s. Inr (s\<lparr>locked := False\<rparr>))))"

text \<open>The public interface as commands, with what each requires of its caller.\<close>

datatype wsl_op =
    OpInsert int web_state_id int web_state_opener
  | OpMove int int
  | OpReplace int web_state_id
  | OpDetach int
  | OpClose int int
  | OpCloseAll int
  | OpActivate int
  | OpSetOpener int web_state_opener
  | OpAddObserver nat
  | OpRemoveObserver nat
  | OpBeginBatch
  | OpEndBatch

text \<open>
  \<^verbatim>\<open>PerformBatchOperation\<close> runs its callback between two steps, which are commands of their own, so
  that the operations the callback calls are commands in between.
\<close>

definition BeginBatch :: "web_state_list \<Rightarrow> web_state_list res" where
  "BeginBatch s = dcheck (\<not> batch_operation_in_progress s) ''!batch_operation_in_progress_''
     (Inr (notify WillBeginBatchOperation (s\<lparr>batch_operation_in_progress := True\<rparr>)))"

definition EndBatch :: "web_state_list \<Rightarrow> web_state_list" where
  "EndBatch s = (notify BatchOperationEnded s)\<lparr>batch_operation_in_progress := False\<rparr>"

lemma PerformBatchOperation_steps:
  "PerformBatchOperation operation s = rbind (BeginBatch s) (\<lambda>s.
     rbind (case operation of None \<Rightarrow> Inr s | Some op \<Rightarrow> op s) (\<lambda>s. Inr (EndBatch s)))"
  by (cases "batch_operation_in_progress s") (simp_all add: PerformBatchOperation_def BeginBatch_def EndBatch_def Let_def)

fun wsl_exec :: "heap \<Rightarrow> wsl_op \<Rightarrow> web_state_list \<Rightarrow> web_state_list res" where
  "wsl_exec H (OpInsert i w flags op) s = rbind (InsertWebState H i w flags op s) (\<lambda>(s, _). Inr s)"
| "wsl_exec H (OpMove i j) s = MoveWebStateAt i j s"
| "wsl_exec H (OpReplace i w) s = rbind (ReplaceWebStateAt i w s) (\<lambda>(s, _). Inr s)"
| "wsl_exec H (OpDetach i) s = rbind (DetachWebStateAt H i s) (\<lambda>(s, _). Inr s)"
| "wsl_exec H (OpClose i flags) s = CloseWebStateAt H i flags s"
| "wsl_exec H (OpCloseAll flags) s = CloseAllWebStates H flags s"
| "wsl_exec H (OpActivate i) s = ActivateWebStateAt i s"
| "wsl_exec H (OpSetOpener i op) s = SetOpenerOfWebStateAt i op s"
| "wsl_exec H (OpAddObserver ob) s = AddObserver ob s"
| "wsl_exec H (OpRemoveObserver ob) s = Inr (RemoveObserver ob s)"
| "wsl_exec H OpBeginBatch s = BeginBatch s"
| "wsl_exec H OpEndBatch s = Inr (EndBatch s)"

fun wsl_op_pre :: "wsl_op \<Rightarrow> web_state_list \<Rightarrow> bool" where
  "wsl_op_pre (OpInsert i w flags op) s = insert_pre i w flags op s"
| "wsl_op_pre (OpMove i j) s = (ContainsIndex s i \<and> ContainsIndex s j)"
| "wsl_op_pre (OpReplace i w) s = (ContainsIndex s i \<and> w \<notin> set (tabs s))"
| "wsl_op_pre (OpDetach i) s = ContainsIndex s i"
| "wsl_op_pre (OpClose i flags) s = ContainsIndex s i"
| "wsl_op_pre (OpCloseAll flags) s = (\<not> batch_operation_in_progress s)"
| "wsl_op_pre (OpActivate i) s = ContainsIndex s i"
| "wsl_op_pre (OpSetOpener i op) s =
     (ContainsIndex s i \<and>
      (case opener op of None \<Rightarrow> False | Some w \<Rightarrow> w \<in> set (tabs s) \<and> w \<noteq> tabs s ! nat i))"
| "wsl_op_pre (OpAddObserver ob) s = (ob \<notin> set (observers s))"
| "wsl_op_pre (OpRemoveObserver ob) s = True"
| "wsl_op_pre OpBeginBatch s = (\<not> batch_operation_in_progress s)"
| "wsl_op_pre OpEndBatch s = batch_operation_in_progress s"

text \<open>The requirement of an insertion, in a form that can be evaluated.\<close>

lemma insert_pre_code [code]:
  "insert_pre index w flags op s \<longleftrightarrow> w \<notin> set (tabs s) \<and> count s < INT_MAX \<and>
     (case opener op of None \<Rightarrow> True | Some op' \<Rightarrow> op' \<in> set (tabs s)) \<and>
     (IsInsertionFlagSet flags INSERT_FORCE_INDEX \<longrightarrow> 0 \<le> index \<and> index \<le> count s)"
  by (auto simp: insert_pre_def split: option.splits)

text \<open>
  Between two public calls the list is well formed and not locked; it may be within a batch operation
  (\<open>wsl_open True\<close>) or idle.
\<close>

definition wsl_between :: "web_state_list \<Rightarrow> bool" where
  "wsl_between s \<longleftrightarrow> wsl_inv s \<and> \<not> locked s"

definition wsl_open :: "bool \<Rightarrow> web_state_list \<Rightarrow> bool" where
  "wsl_open b s \<longleftrightarrow> wsl_inv s \<and> \<not> locked s \<and> batch_operation_in_progress s = b"

definition wsl_idle :: "web_state_list \<Rightarrow> bool" where
  "wsl_idle s \<longleftrightarrow> wsl_inv s \<and> \<not> locked s \<and> \<not> batch_operation_in_progress s"

lemma wsl_idle_open: "wsl_idle s \<longleftrightarrow> wsl_open False s"
  by (simp add: wsl_idle_def wsl_open_def)

lemma wsl_between_open: "wsl_between s \<longleftrightarrow> wsl_open (batch_operation_in_progress s) s"
  by (simp add: wsl_between_def wsl_open_def)

lemma wsl_open_locked:
  assumes "wsl_open b s"
  shows "wsl_inv (s\<lparr>locked := True\<rparr>)" "locked (s\<lparr>locked := True\<rparr>)"
    "batch_operation_in_progress (s\<lparr>locked := True\<rparr>) = b"
    "LockForMutation s = Inr (s\<lparr>locked := True\<rparr>)"
    "tabs (s\<lparr>locked := True\<rparr>) = tabs s" "active_tab (s\<lparr>locked := True\<rparr>) = active_tab s"
    "ContainsIndex (s\<lparr>locked := True\<rparr>) i = ContainsIndex s i" "count (s\<lparr>locked := True\<rparr>) = count s"
    "insert_pre j w flags op (s\<lparr>locked := True\<rparr>) = insert_pre j w flags op s"
    "active_index (s\<lparr>locked := True\<rparr>) = active_index s" "wsl_inv s"
  using assms wsl_inv_frame [of s "s\<lparr>locked := True\<rparr>"]
  by (simp_all add: wsl_open_def LockForMutation_def ContainsIndex_def count_def insert_pre_def)

lemma wsl_open_unlocked:
  assumes "wsl_open b s" "same_frame (s\<lparr>locked := True\<rparr>) t" "wsl_inv t"
  shows "wsl_open b (t\<lparr>locked := False\<rparr>)" "tabs (t\<lparr>locked := False\<rparr>) = tabs t"
    "active_tab (t\<lparr>locked := False\<rparr>) = active_tab t"
  using assms wsl_inv_frame [OF assms(3), of "t\<lparr>locked := False\<rparr>"]
  by (simp_all add: wsl_open_def same_frame_def)

lemma wsl_open_batch:
  "wsl_open False s \<Longrightarrow> \<exists>s'. BeginBatch s = Inr s' \<and> wsl_open True s' \<and> tabs s' = tabs s \<and> active_tab s' = active_tab s"
  "wsl_open b s \<Longrightarrow> wsl_open False (EndBatch s) \<and> tabs (EndBatch s) = tabs s \<and> active_tab (EndBatch s) = active_tab s"
  using wsl_inv_frame [of s "notify WillBeginBatchOperation (s\<lparr>batch_operation_in_progress := True\<rparr>)"]
    wsl_inv_frame [of s "EndBatch s"]
  by (simp_all add: wsl_open_def BeginBatch_def EndBatch_def)

end
