(* ===== verification/Web_State_List_Properties.thy ===== *)
theory Web_State_List_Properties
  imports Web_State_List_Mutation Event_System
begin

text \<open>
  What \<^verbatim>\<open>WebStateList\<close> promises to its clients, stated over the public operations.
\<close>

section \<open>Each public operation, between operations\<close>

lemma InsertWebState_ok:
  assumes "wsl_open b s" "insert_pre index w flags op s"
  shows "\<exists>s' i. InsertWebState H index w flags op s = Inr (s', i) \<and> wsl_open b s' \<and>
    0 \<le> i \<and> i \<le> count s \<and> tabs s' = insert_at (nat i) w (tabs s) \<and>
    active_tab s' = (if IsInsertionFlagSet flags INSERT_ACTIVATE then Some w else active_tab s) \<and>
    (IsInsertionFlagSet flags INSERT_FORCE_INDEX \<longrightarrow> i = index)"
proof -
  note l = wsl_open_locked [OF assms(1)]
  obtain t i where t: "InsertWebStateImpl H index w flags op (s\<lparr>locked := True\<rparr>) = Inr (t, i)"
    "wsl_inv t" "same_frame (s\<lparr>locked := True\<rparr>) t" "0 \<le> i" "i \<le> count s"
    "tabs t = insert_at (nat i) w (tabs s)"
    "active_tab t = (if IsInsertionFlagSet flags INSERT_ACTIVATE then Some w else active_tab s)"
    "IsInsertionFlagSet flags INSERT_FORCE_INDEX \<longrightarrow> i = index"
    using InsertWebStateImpl_ok [OF l(1,2), of index w flags op H] assms(2) unfolding l by metis
  then show ?thesis
    using wsl_open_unlocked [OF assms(1) t(3,2)] l(4)
    by (intro exI [of _ "t\<lparr>locked := False\<rparr>"] exI [of _ i]) (simp add: InsertWebState_def)
qed

lemma MoveWebStateAt_ok:
  assumes "wsl_open b s" "ContainsIndex s i" "ContainsIndex s j"
  shows "\<exists>s'. MoveWebStateAt i j s = Inr s' \<and> wsl_open b s' \<and>
    tabs s' = insert_at (nat j) (tabs s ! nat i) (remove_at (nat i) (tabs s)) \<and>
    active_tab s' = active_tab s"
proof -
  note l = wsl_open_locked [OF assms(1)]
  obtain t where t: "MoveWebStateAtImpl i j (s\<lparr>locked := True\<rparr>) = Inr t" "wsl_inv t"
    "same_frame (s\<lparr>locked := True\<rparr>) t"
    "tabs t = insert_at (nat j) (tabs s ! nat i) (remove_at (nat i) (tabs s))" "active_tab t = active_tab s"
    using MoveWebStateAtImpl_ok [OF l(1,2), of i j] assms(2,3) unfolding l by metis
  then show ?thesis
    using wsl_open_unlocked [OF assms(1) t(3,2)] l(4)
    by (intro exI [of _ "t\<lparr>locked := False\<rparr>"]) (simp add: MoveWebStateAt_def)
qed

lemma ReplaceWebStateAt_ok:
  assumes "wsl_open b s" "ContainsIndex s i" "w \<notin> set (tabs s)"
  shows "\<exists>s'. ReplaceWebStateAt i w s = Inr (s', tabs s ! nat i) \<and> wsl_open b s' \<and>
    tabs s' = (tabs s)[nat i := w]"
proof -
  note l = wsl_open_locked [OF assms(1)]
  obtain t where t: "ReplaceWebStateAtImpl i w (s\<lparr>locked := True\<rparr>) = Inr (t, tabs s ! nat i)"
    "wsl_inv t" "same_frame (s\<lparr>locked := True\<rparr>) t" "tabs t = (tabs s)[nat i := w]"
    using ReplaceWebStateAtImpl_ok [OF l(1,2), of i w] assms(2,3) unfolding l by metis
  then show ?thesis
    using wsl_open_unlocked [OF assms(1) t(3,2)] l(4)
    by (intro exI [of _ "t\<lparr>locked := False\<rparr>"]) (simp add: ReplaceWebStateAt_def)
qed

lemma DetachWebStateAt_ok:
  assumes "wsl_open b s" "ContainsIndex s i"
  shows "\<exists>s'. DetachWebStateAt H i s = Inr (s', tabs s ! nat i) \<and> wsl_open b s' \<and>
    tabs s' = remove_at (nat i) (tabs s) \<and>
    (active_index s \<noteq> i \<longrightarrow> active_tab s' = active_tab s) \<and>
    (active_index s = i \<longrightarrow> (active_tab s' = None \<longleftrightarrow> tabs s' = []))"
proof -
  note l = wsl_open_locked [OF assms(1)]
  obtain t where t: "DetachWebStateAtImpl H i (s\<lparr>locked := True\<rparr>) = Inr (t, tabs s ! nat i)"
    "wsl_inv t" "same_frame (s\<lparr>locked := True\<rparr>) t" "tabs t = remove_at (nat i) (tabs s)"
    "active_index s \<noteq> i \<Longrightarrow> active_tab t = active_tab s"
    "active_index s = i \<Longrightarrow> active_tab t = None \<longleftrightarrow> tabs t = []"
    using DetachWebStateAtImpl_ok [OF l(1,2), of i H] assms(2) unfolding l by metis
  then show ?thesis
    using wsl_open_unlocked [OF assms(1) t(3,2)] l(4)
    by (intro exI [of _ "t\<lparr>locked := False\<rparr>"]) (simp add: DetachWebStateAt_def)
qed

lemma CloseWebStateAt_ok:
  assumes "wsl_open b s" "ContainsIndex s i"
  shows "\<exists>s'. CloseWebStateAt H i flags s = Inr s' \<and> wsl_open b s' \<and>
    tabs s' = remove_at (nat i) (tabs s) \<and>
    (active_index s \<noteq> i \<longrightarrow> active_tab s' = active_tab s) \<and>
    (active_index s = i \<longrightarrow> (active_tab s' = None \<longleftrightarrow> tabs s' = []))"
proof -
  note l = wsl_open_locked [OF assms(1)]
  obtain t where t: "CloseWebStateAtImpl H i flags (s\<lparr>locked := True\<rparr>) = Inr t"
    "wsl_inv t" "same_frame (s\<lparr>locked := True\<rparr>) t" "tabs t = remove_at (nat i) (tabs s)"
    "active_index s \<noteq> i \<Longrightarrow> active_tab t = active_tab s"
    "active_index s = i \<Longrightarrow> active_tab t = None \<longleftrightarrow> tabs t = []"
    using CloseWebStateAtImpl_ok [OF l(1,2), of i H flags] assms(2) unfolding l by metis
  then show ?thesis
    using wsl_open_unlocked [OF assms(1) t(3,2)] l(4)
    by (intro exI [of _ "t\<lparr>locked := False\<rparr>"]) (simp add: CloseWebStateAt_def)
qed

lemma CloseAllWebStates_ok:
  assumes "wsl_open False s"
  shows "\<exists>s'. CloseAllWebStates H flags s = Inr s' \<and> wsl_open False s' \<and> tabs s' = [] \<and> active_tab s' = None"
proof -
  note l = wsl_open_locked [OF assms(1)]
  obtain t where t: "CloseAllWebStatesImpl H flags (s\<lparr>locked := True\<rparr>) = Inr t"
    "wsl_inv t" "same_frame (s\<lparr>locked := True\<rparr>) t" "tabs t = []" "active_index t = -1"
    using CloseAllWebStatesImpl_ok [OF l(1,2), of H flags] l(3) by metis
  then show ?thesis
    using wsl_open_unlocked [OF assms(1) t(3,2)] l(4)
    by (intro exI [of _ "t\<lparr>locked := False\<rparr>"]) (simp add: CloseAllWebStates_def active_tab_def)
qed

lemma ActivateWebStateAt_ok:
  assumes "wsl_open b s" "ContainsIndex s i"
  shows "\<exists>s'. ActivateWebStateAt i s = Inr s' \<and> wsl_open b s' \<and> tabs s' = tabs s \<and>
    active_tab s' = Some (tabs s ! nat i)"
proof -
  note l = wsl_open_locked [OF assms(1)]
  obtain t where t: "ActivateWebStateAtImpl i Activated (s\<lparr>locked := True\<rparr>) = Inr t"
    "wsl_inv t" "same_frame (s\<lparr>locked := True\<rparr>) t" "tabs t = tabs s" "active_index t = i"
    using ActivateWebStateAtImpl_ok [OF l(1,2), of i Activated] assms(2) unfolding l by metis
  moreover have "i \<noteq> -1" using assms(2) by (auto simp: ContainsIndex_def)
  ultimately show ?thesis
    using wsl_open_unlocked [OF assms(1) t(3,2)] l(4) assms(2)
    by (intro exI [of _ "t\<lparr>locked := False\<rparr>"]) (simp add: ActivateWebStateAt_def active_tab_def)
qed

lemma SetOpener_open:
  assumes "wsl_open b s" "wsl_op_pre (OpSetOpener i op) s"
  shows "\<exists>s'. SetOpenerOfWebStateAt i op s = Inr s' \<and> wsl_open b s'"
proof -
  obtain w where w: "opener op = Some w" "w \<in> set (tabs s)" "w \<noteq> tabs s ! nat i" "ContainsIndex s i"
    using assms(2) by (auto split: option.splits)
  have "wsl_inv s" using assms(1) by (simp add: wsl_open_def)
  then obtain s' where "SetOpenerOfWebStateAt i op s = Inr s'" "wsl_inv s'" "same_frame s s'"
    using SetOpenerOfWebStateAt_ok [OF _ w(4,1,2,3)] by metis
  then show ?thesis using assms(1) by (auto simp: wsl_open_def same_frame_def)
qed

lemma observer_open:
  assumes "wsl_open b s"
  shows "ob \<notin> set (observers s) \<Longrightarrow> \<exists>s'. AddObserver ob s = Inr s' \<and> wsl_open b s'" "wsl_open b (RemoveObserver ob s)"
  using assms wsl_inv_frame(1) [of s "s\<lparr>observers := observers s @ [ob]\<rparr>"] wsl_inv_frame(1) [of s "RemoveObserver ob s"]
  by (simp_all add: wsl_open_def AddObserver_def RemoveObserver_def)

text \<open>Only the two steps of \<^verbatim>\<open>PerformBatchOperation\<close> change whether a batch operation is running.\<close>

definition batch_after :: "wsl_op \<Rightarrow> web_state_list \<Rightarrow> bool" where
  "batch_after op s \<longleftrightarrow> op = OpBeginBatch \<or> batch_operation_in_progress s \<and> op \<noteq> OpEndBatch"

lemma wsl_exec_open:
  assumes "wsl_open b s" "wsl_op_pre op s"
  shows "\<exists>s'. wsl_exec H op s = Inr s' \<and> wsl_open (batch_after op s) s'"
proof -
  have b: "batch_operation_in_progress s = b" using assms(1) by (simp add: wsl_open_def)
  show ?thesis
  proof (cases op)
    case (OpInsert i w flags op')
    then show ?thesis using InsertWebState_ok [OF assms(1), of i w flags op' H] assms(2) b by (auto simp: batch_after_def)
  next
    case (OpMove i j)
    then show ?thesis using MoveWebStateAt_ok [OF assms(1), of i j] assms(2) b by (auto simp: batch_after_def)
  next
    case (OpReplace i w)
    then show ?thesis using ReplaceWebStateAt_ok [OF assms(1), of i w] assms(2) b by (auto simp: batch_after_def)
  next
    case (OpDetach i)
    then show ?thesis using DetachWebStateAt_ok [OF assms(1), of i H] assms(2) b by (auto simp: batch_after_def)
  next
    case (OpClose i flags)
    then show ?thesis using CloseWebStateAt_ok [OF assms(1), of i H flags] assms(2) b by (auto simp: batch_after_def)
  next
    case (OpCloseAll flags)
    then show ?thesis using CloseAllWebStates_ok [of s H flags] assms b by (auto simp: batch_after_def)
  next
    case (OpActivate i)
    then show ?thesis using ActivateWebStateAt_ok [OF assms(1), of i] assms(2) b by (auto simp: batch_after_def)
  next
    case (OpSetOpener i op')
    then show ?thesis using SetOpener_open [OF assms(1)] assms(2) b by (simp add: batch_after_def)
  next
    case OpBeginBatch
    then show ?thesis using wsl_open_batch(1) [of s] assms b by (auto simp: batch_after_def)
  next
    case OpEndBatch
    then show ?thesis using wsl_open_batch(2) [OF assms(1)] by (simp add: batch_after_def)
  qed (use observer_open [OF assms(1)] assms(2) b in \<open>auto simp: batch_after_def\<close>)
qed

lemma wsl_exec_ok:
  assumes "wsl_between s" "wsl_op_pre op s"
  shows "\<exists>s'. wsl_exec H op s = Inr s' \<and> wsl_between s'"
  using wsl_exec_open [OF assms(1) [unfolded wsl_between_open] assms(2)] by (auto simp: wsl_open_def wsl_between_def)

section \<open>Reachable lists\<close>

text \<open>The lists a program can build: start empty, call operations whose requirements hold.\<close>

type_synonym wsl_event = "heap \<times> wsl_op"

abbreviation wsl_event_pre :: "wsl_event \<Rightarrow> web_state_list \<Rightarrow> bool" where
  "wsl_event_pre e \<equiv> wsl_op_pre (snd e)"

abbreviation wsl_event_exec :: "wsl_event \<Rightarrow> web_state_list \<Rightarrow> web_state_list res" where
  "wsl_event_exec e \<equiv> wsl_exec (fst e) (snd e)"

abbreviation wsl_reachable :: "web_state_list \<Rightarrow> bool" where
  "wsl_reachable \<equiv> reachable_from (\<lambda>s. s = empty_web_state_list) wsl_event_pre wsl_event_exec"

lemma wsl_idle_empty: "wsl_idle empty_web_state_list"
  by (simp add: wsl_idle_def wsl_inv_def empty_web_state_list_def tabs_def active_tab_def active_ok_def
      openers_ok_def resets_ok_def mirror_of_def)

interpretation tab_lists: event_system "\<lambda>s. s = empty_web_state_list" wsl_event_pre wsl_event_exec wsl_between
proof unfold_locales
  show "wsl_between s" if "s = empty_web_state_list" for s
    using that wsl_idle_empty by (simp add: wsl_idle_def wsl_between_def)
qed (rule wsl_exec_ok)

lemma wsl_reachable_empty: "wsl_reachable empty_web_state_list"
  by (rule reachable_from.start) (rule refl)

section \<open>Properties\<close>

text \<open>A concrete window with three tabs: 20 was opened from 10, 30 from 20, and 20 is active.\<close>

definition demo_heap :: heap where
  "demo_heap = (\<lambda>w. \<lparr>visible_url = ''about:blank'', title = [], stable_identifier = [],
     is_realized = True, restore_session_in_progress = False, navigation_item_count = 1,
     last_committed_item_index = 0\<rparr>)"

definition demo_list :: web_state_list where
  "demo_list =
     \<lparr>web_state_wrappers =
        [\<lparr>wrapped = 10, wrapper_opener = WebStateOpenerNull, should_reset_opener = False\<rparr>,
         \<lparr>wrapped = 20, wrapper_opener = \<lparr>opener = Some 10, navigation_index = 0\<rparr>, should_reset_opener = False\<rparr>,
         \<lparr>wrapped = 30, wrapper_opener = \<lparr>opener = Some 20, navigation_index = 0\<rparr>, should_reset_opener = False\<rparr>],
      active_index = 1, locked = False, batch_operation_in_progress = False, observers = [],
      effects = [Notify [] (WebStateInsertedAt 10 0 False), Notify [] (WebStateInsertedAt 20 1 True),
                 Notify [] (WebStateActivatedAt None (Some 20) 1 Inserted),
                 Notify [] (WebStateInsertedAt 30 2 False)]\<rparr>"

lemma demo_tabs: "tabs demo_list = [10, 20, 30]"
  by (simp add: demo_list_def tabs_def)

lemma demo_contains: "ContainsIndex demo_list i \<longleftrightarrow> 0 \<le> i \<and> i < 3"
  by (simp add: demo_list_def ContainsIndex_def count_def)

lemma demo_idle: "wsl_idle demo_list"
  by (simp add: wsl_idle_def wsl_inv_def demo_list_def tabs_def active_tab_def active_ok_def
      ContainsIndex_def count_def openers_ok_def resets_ok_def mirror_of_def WebStateOpenerNull_def
      insert_at_def)

text \<open>A reachable list: one tab was inserted with \<^verbatim>\<open>INSERT_INHERIT_OPENER\<close>, and a batch operation is running.\<close>

definition inherit_demo :: web_state_list where
  "inherit_demo =
     \<lparr>web_state_wrappers =
        [\<lparr>wrapped = 7, wrapper_opener = WebStateOpenerNull, should_reset_opener = True\<rparr>],
      active_index = -1, locked = False, batch_operation_in_progress = True, observers = [3],
      effects = [Notify [3] WillBeginBatchOperation, Delegate (WillAddWebState 7), Notify [3] (WebStateInsertedAt 7 0 False)]\<rparr>"

lemma inherit_demo_reachable: "wsl_reachable inherit_demo"
proof -
  let ?es = "[(demo_heap, OpAddObserver 3), (demo_heap, OpBeginBatch), (demo_heap, OpInsert 0 7 4 WebStateOpenerNull)]"
  have "allowed_events wsl_event_pre wsl_event_exec ?es empty_web_state_list" by code_simp
  moreover have "run_events wsl_event_exec ?es empty_web_state_list = Inr inherit_demo" by code_simp
  ultimately show ?thesis using allowed_events_reachable [OF _ wsl_reachable_empty] by fastforce
qed

text \<open>
  Property C2.  On every list a program can reach, within a batch operation or not, a call of any public
  operation that changes the list, and of either half of \<^verbatim>\<open>PerformBatchOperation\<close>, returns when
  its requirements hold: none of the assertions of \<^verbatim>\<open>web_state_list.mm\<close> and of the order controller
  fires, and the list is well formed and unlocked again.  The requirements are that indexes are in range,
  a tab that comes is not in the list, an opener is another tab of it, an observer is added once, and,
  for closing all tabs and beginning a batch operation, that no batch operation is running.
\<close>

theorem tab_list_operations_safe:
  assumes "wsl_reachable s" "wsl_op_pre op s"
  shows "\<exists>s'. wsl_exec H op s = Inr s' \<and> wsl_inv s' \<and> \<not> locked s' \<and>
    (batch_operation_in_progress s' \<longleftrightarrow> op = OpBeginBatch \<or> batch_operation_in_progress s \<and> op \<noteq> OpEndBatch)"
  using wsl_exec_open [OF tab_lists.reachable_inv [OF assms(1), unfolded wsl_between_open] assms(2)]
  by (auto simp: wsl_open_def batch_after_def)

theorem tab_list_operations_safe_witness:
  "\<exists>s'. wsl_exec demo_heap (OpInsert 1 8 3 WebStateOpenerNull) inherit_demo = Inr s' \<and> wsl_inv s' \<and>
     \<not> locked s' \<and> batch_operation_in_progress s'"
proof -
  have "wsl_op_pre (OpInsert 1 8 3 WebStateOpenerNull) inherit_demo" by code_simp
  moreover have "batch_operation_in_progress inherit_demo" by (simp add: inherit_demo_def)
  ultimately show ?thesis using tab_list_operations_safe [OF inherit_demo_reachable, of _ demo_heap] by fastforce
qed



text \<open>
  Property C6.  Observers can rely on the notifications alone: in every reachable list, replaying the
  notifications sent so far on an empty list gives exactly the tabs in order and the active tab.
\<close>

theorem tab_list_observer_mirror:
  assumes "wsl_reachable s"
  shows "mirror_of (effects s) = (tabs s, active_tab s)"
  using tab_lists.reachable_inv [OF assms] by (simp add: wsl_between_def wsl_inv_def)

theorem tab_list_observer_mirror_witness:
  "mirror_of (effects inherit_demo) = (tabs inherit_demo, active_tab inherit_demo) \<and> tabs inherit_demo = [7]"
  using tab_list_observer_mirror [OF inherit_demo_reachable] by (simp add: inherit_demo_def tabs_def)

text \<open>
  Property C18.  \<^verbatim>\<open>InsertWebState\<close> puts the tab at one position of the list, shifts the later
  ones, uses the given index when it is forced, and changes the active tab only when asked to.
\<close>

theorem insert_web_state_correct:
  assumes "wsl_idle s" "insert_pre index w flags op s"
  shows "\<exists>s' i. InsertWebState H index w flags op s = Inr (s', i) \<and> wsl_idle s' \<and>
    0 \<le> i \<and> i \<le> count s \<and> tabs s' = insert_at (nat i) w (tabs s) \<and>
    active_tab s' = (if IsInsertionFlagSet flags INSERT_ACTIVATE then Some w else active_tab s) \<and>
    (IsInsertionFlagSet flags INSERT_FORCE_INDEX \<longrightarrow> i = index)"
  using InsertWebState_ok [of False] assms unfolding wsl_idle_open by blast

theorem insert_web_state_correct_witness:
  "\<exists>s'. InsertWebState demo_heap 2 40 3 WebStateOpenerNull demo_list = Inr (s', 2) \<and>
     tabs s' = [10, 20, 40, 30] \<and> active_tab s' = Some 40"
proof -
  have pre: "insert_pre 2 40 3 WebStateOpenerNull demo_list"
    by (simp add: insert_pre_def demo_tabs count_tabs INT_MAX_def WebStateOpenerNull_def)
  have flags: "IsInsertionFlagSet 3 INSERT_ACTIVATE" "IsInsertionFlagSet 3 INSERT_FORCE_INDEX"
    by (simp_all add: IsInsertionFlagSet_def INSERT_ACTIVATE_def INSERT_FORCE_INDEX_def)
  show ?thesis
    using insert_web_state_correct [OF demo_idle pre, of demo_heap] flags
    by (auto simp: demo_tabs insert_at_def numeral_2_eq_2)
qed

text \<open>
  \<^verbatim>\<open>MoveWebStateAt\<close> permutes the tabs as an erasure followed by an insertion
  and never changes which tab is active, whatever the two indexes.
\<close>

theorem move_web_state_correct:
  assumes "wsl_idle s" "ContainsIndex s i" "ContainsIndex s j"
  shows "\<exists>s'. MoveWebStateAt i j s = Inr s' \<and> wsl_idle s' \<and>
    tabs s' = insert_at (nat j) (tabs s ! nat i) (remove_at (nat i) (tabs s)) \<and>
    active_tab s' = active_tab s"
  using MoveWebStateAt_ok [of False] assms unfolding wsl_idle_open by blast

theorem move_web_state_correct_witness:
  "\<exists>s'. MoveWebStateAt 0 2 demo_list = Inr s' \<and> tabs s' = [20, 30, 10] \<and> active_tab s' = Some 20"
proof -
  have "active_tab demo_list = Some 20" by (simp add: active_tab_def demo_tabs) (simp add: demo_list_def)
  then show ?thesis
    using move_web_state_correct [OF demo_idle, of 0 2]
    by (auto simp: demo_contains demo_tabs insert_at_def remove_at_def numeral_2_eq_2)
qed

text \<open>
  Closing a tab removes exactly that tab.  If another tab was active it stays active;
  if the closed tab was active another tab becomes active, unless none is left.
\<close>

theorem close_web_state_correct:
  assumes "wsl_idle s" "ContainsIndex s i"
  shows "\<exists>s'. CloseWebStateAt H i flags s = Inr s' \<and> wsl_idle s' \<and>
    tabs s' = remove_at (nat i) (tabs s) \<and>
    (active_index s \<noteq> i \<longrightarrow> active_tab s' = active_tab s) \<and>
    (active_index s = i \<longrightarrow> (active_tab s' = None \<longleftrightarrow> tabs s' = []))"
  using CloseWebStateAt_ok [of False] assms unfolding wsl_idle_open by blast

theorem close_web_state_correct_witness:
  "\<exists>s'. CloseWebStateAt demo_heap 1 CLOSE_USER_ACTION demo_list = Inr s' \<and> tabs s' = [10, 30] \<and>
     active_tab s' \<noteq> None"
  using close_web_state_correct [OF demo_idle, of 1 demo_heap CLOSE_USER_ACTION]
  by (auto simp: demo_contains demo_tabs remove_at_def) (simp add: demo_list_def)

text \<open>
  Property C19.  \<^verbatim>\<open>CloseAllWebStates\<close> terminates on every idle list and leaves it empty, with no
  active tab and with both locks released.
\<close>

theorem close_all_web_states_correct:
  assumes "wsl_idle s"
  shows "\<exists>s'. CloseAllWebStates H flags s = Inr s' \<and> wsl_idle s' \<and> tabs s' = [] \<and> active_tab s' = None"
  using CloseAllWebStates_ok assms unfolding wsl_idle_open by blast

theorem close_all_web_states_correct_witness:
  "\<exists>s'. CloseAllWebStates demo_heap CLOSE_NO_FLAGS demo_list = Inr s' \<and> wsl_idle s' \<and> tabs s' = [] \<and>
     active_tab s' = None"
  by (rule close_all_web_states_correct [OF demo_idle])

text \<open>
  The list is not re-entrant: while an operation holds the lock (that is, from within
  any observer or delegate call), every further mutation through the public interface aborts and
  changes nothing; only the activation of an index outside the list fails on its own check first.
\<close>

theorem mutation_while_locked_aborts:
  assumes "locked s"
  shows "InsertWebState H index w flags op s = Inl (CheckFailed ''WebStateList is not re-entrant'') \<and>
    MoveWebStateAt i j s = Inl (CheckFailed ''WebStateList is not re-entrant'') \<and>
    ReplaceWebStateAt i w s = Inl (CheckFailed ''WebStateList is not re-entrant'') \<and>
    DetachWebStateAt H i s = Inl (CheckFailed ''WebStateList is not re-entrant'') \<and>
    CloseWebStateAt H i cflags s = Inl (CheckFailed ''WebStateList is not re-entrant'') \<and>
    CloseAllWebStates H cflags s = Inl (CheckFailed ''WebStateList is not re-entrant'') \<and>
    \<not> is_ok (ActivateWebStateAt i s)"
  using assms
  by (simp add: InsertWebState_def MoveWebStateAt_def ReplaceWebStateAt_def DetachWebStateAt_def
      CloseWebStateAt_def CloseAllWebStates_def ActivateWebStateAt_def LockForMutation_def dcheck_def)

theorem mutation_while_locked_aborts_witness:
  "MoveWebStateAt 0 1 (demo_list\<lparr>locked := True\<rparr>) =
     Inl (CheckFailed ''WebStateList is not re-entrant'')"
  using mutation_while_locked_aborts [of "demo_list\<lparr>locked := True\<rparr>" _ _ _ _ _ 0 1] by simp

lemma new_active_survivor:
  assumes "wsl_inv s" "storage_invar r" "storage_abs r \<subseteq> {0..<count s}" "ContainsIndex s a"
    and "removing_count r \<noteq> count s"
  shows "\<exists>i j. DetermineNewActiveIndex H s a r = Inr j \<and> ContainsIndex s i \<and> \<not> Contains r i \<and>
    0 \<le> j \<and> j < int (length (survivors r (tabs s))) \<and>
    survivors r (tabs s) ! nat j = tabs s ! nat i \<and> (\<not> Contains r a \<longrightarrow> i = a)"
proof -
  have a: "0 \<le> a" "a < count s" "a \<noteq> -1" using assms(4) by (auto simp: ContainsIndex_def)
  have sub: "storage_abs r \<subseteq> {0..<int (length (tabs s))}" using assms(3) by (simp add: count_tabs)
  have "picks_survivor r s (DetermineNewActiveIndex H s a r)"
  proof (rule DetermineNewActiveIndex_picks [OF assms(2,3,5) a(1,2)], intro allI impI)
    fix op
    assume "opener (wrapper_opener (web_state_wrappers s ! nat a)) = Some op"
    moreover have "web_state_wrappers s ! nat a \<in> set (web_state_wrappers s)"
      using a by (simp add: count_def)
    ultimately show "GetIndexOfWebState s op \<noteq> -1"
      using wsl_invD(3) [OF assms(1)] by (auto simp: openers_ok_def GetIndexOfWebState_member)
  qed
  then obtain i where i: "0 \<le> i" "i < count s" "i \<notin> storage_abs r"
    "DetermineNewActiveIndex H s a r = Inr (IndexAfterRemoval r i)"
    "a \<notin> storage_abs r \<longrightarrow> i = a"
  proof (cases "a \<in> storage_abs r")
    case False
    then have "IndexAfterRemoval r a \<noteq> -1"
      using storage.after_invalid_iff [OF assms(2,3) a(1)] by simp
    then show ?thesis
      using that [of a] False a assms(4,5) by (simp add: DetermineNewActiveIndex_def Let_def)
  qed (auto simp: picks_survivor_def)
  have "survivors r (tabs s) ! nat (IndexAfterRemoval r i) = tabs s ! nat i"
    using i by (intro survivors_nth [OF assms(2) sub]) (simp_all add: count_tabs)
  moreover have "0 \<le> IndexAfterRemoval r i" "IndexAfterRemoval r i < int (length (survivors r (tabs s)))"
    using storage.after_range [OF assms(2,3) i(1-3)] survivors_length [OF assms(2) sub]
    by (simp_all add: count_tabs)
  ultimately show ?thesis
    using i storage.contains_abs [OF assms(2)] by (auto simp: ContainsIndex_def)
qed

text \<open>
  Property C17.  \<^verbatim>\<open>DetermineNewActiveIndex\<close> for any set of removed indexes: with no active tab or
  with every tab removed the answer is \<open>kInvalidIndex\<close>; otherwise it is the position, in the
  list after the removal, of a tab that was not removed, and it is the active tab itself if that one
  stays.  In particular the \<^verbatim>\<open>NOTREACHED\<close> at its end is unreachable.
\<close>

theorem new_active_index_correct:
  assumes "wsl_inv s" "storage_invar r" "storage_abs r \<subseteq> {0..<count s}" "ContainsIndex s a"
    and "removing_count r \<noteq> count s"
  shows "\<exists>i j. DetermineNewActiveIndex H s a r = Inr j \<and> ContainsIndex s i \<and> \<not> Contains r i \<and>
    0 \<le> j \<and> j < int (length (survivors r (tabs s))) \<and>
    survivors r (tabs s) ! nat j = tabs s ! nat i \<and> (\<not> Contains r a \<longrightarrow> i = a)"
  by (rule new_active_survivor [OF assms])

theorem new_active_index_correct_witness:
  "\<exists>i j. DetermineNewActiveIndex demo_heap demo_list 1 (StorageFromVector [1, 2, 1]) = Inr j \<and>
     ContainsIndex demo_list i \<and> \<not> Contains (StorageFromVector [1, 2, 1]) i \<and>
     0 \<le> j \<and> j < int (length (survivors (StorageFromVector [1, 2, 1]) (tabs demo_list))) \<and>
     survivors (StorageFromVector [1, 2, 1]) (tabs demo_list) ! nat j = tabs demo_list ! nat i \<and>
     (\<not> Contains (StorageFromVector [1, 2, 1]) 1 \<longrightarrow> i = 1)"
proof -
  have "removing_count (StorageFromVector [1, 2, 1]) \<noteq> count demo_list"
    by (simp add: StorageFromVector_def Let_def demo_tabs count_tabs)
  then show ?thesis
    using demo_idle
    by (intro new_active_index_correct) (auto simp: wsl_idle_def demo_contains demo_tabs count_tabs)
qed

text \<open>
  When the active tab is among the removed ones and some tab that was opened from it
  survives, the new active tab is such a tab: the search over the children is complete, although it
  walks the list cyclically and stops at the first repetition.
\<close>

lemma new_active_prefers_child:
  assumes "storage_invar r" "storage_abs r \<subseteq> {0..<count s}" "ContainsIndex s a" "Contains r a"
    and "opened_by s (tabs s ! nat a) d" "\<not> Contains r d"
  shows "\<exists>c. opened_by s (tabs s ! nat a) c \<and> \<not> Contains r c \<and>
    DetermineNewActiveIndex H s a r = Inr (IndexAfterRemoval r c)"
proof -
  note con = storage.contains_abs [OF assms(1)] and inval = storage.after_invalid_iff [OF assms(1,2)]
  have a: "0 \<le> a" "a < count s" "a \<noteq> -1" using assms(3) by (auto simp: ContainsIndex_def)
  have d: "0 \<le> d" "d < count s" "d \<notin> storage_abs r" "d \<noteq> a"
    using assms(4-6) con by (auto simp: opened_by_def)
  have w: "wrapped (web_state_wrappers s ! nat a) = tabs s ! nat a"
    using a by (simp add: tabs_def count_def)
  let ?f = "FindIndexOfNextNonRemovedWebStateOpenedBy r H s (Some (tabs s ! nat a)) a []"
  have f: "?f \<noteq> -1"
    using assms(3,5) d inval [of d] by (intro FindIndex_complete) auto
  then obtain c where c: "opened_by s (tabs s ! nat a) c" "IndexAfterRemoval r c = ?f"
    using FindIndex_sound by blast
  have "\<not> Contains r c" using c f inval [of c] con by (auto simp: opened_by_def)
  moreover have "removing_count r \<noteq> count s"
    using storage.after_range(2) [OF assms(1,2) d(1-3)] storage.after_range(1) [OF assms(1,2) d(1-3)] by simp
  moreover have "IndexAfterRemoval r a = -1" using assms(4) con inval [of a] a by simp
  ultimately show ?thesis
    using c f a assms(3) w
    by (auto simp: DetermineNewActiveIndex_def Let_def GetWebStateAt_def GetWebStateWrapperAt_def)
qed

lemma new_active_prefers_child_example:
  "\<exists>c. opened_by demo_list (tabs demo_list ! nat 1) c \<and> \<not> Contains (StorageOne 1) c \<and>
     DetermineNewActiveIndex demo_heap demo_list 1 (StorageOne 1) = Inr (IndexAfterRemoval (StorageOne 1) c)"
proof (rule new_active_prefers_child)
  show "opened_by demo_list (tabs demo_list ! nat 1) 2"
    by (simp add: opened_by_def demo_tabs count_tabs) (simp add: demo_list_def)
qed (simp_all add: demo_contains demo_tabs count_tabs)

text \<open>
  Property C20.  The flag that \<^verbatim>\<open>INSERT_INHERIT_OPENER\<close> sets to have the opener forgotten at the
  next activation never survives together with an opener: \<^verbatim>\<open>SetOpener\<close>, which runs right after
  it, clears the flag.  So in every reachable list a tab that is due for a reset has no opener, and
  the reset in \<^verbatim>\<open>ActivateWebStateAtImpl\<close> never forgets one.
\<close>

theorem reset_flag_never_with_opener:
  assumes "wsl_reachable s" "x \<in> set (web_state_wrappers s)" "should_reset_opener x"
  shows "opener (wrapper_opener x) = None"
  using tab_lists.reachable_inv [OF assms(1)] assms(2,3)
  by (simp add: wsl_between_def wsl_inv_def resets_ok_def)

theorem reset_flag_never_with_opener_witness:
  "opener (wrapper_opener (hd (web_state_wrappers inherit_demo))) = None"
  by (rule reset_flag_never_with_opener [OF inherit_demo_reachable]) (simp_all add: inherit_demo_def)

text \<open>
  Replacing a tab always tells the observers that the active tab changed, even when
  a background tab is replaced: the notification then names the replaced background tab as the
  previously active one.
\<close>

theorem replace_always_announces_activation:
  assumes "wsl_idle s" "ContainsIndex s i" "w \<notin> set (tabs s)"
  shows "\<exists>s'. ReplaceWebStateAt i w s = Inr (s', tabs s ! nat i) \<and>
    (\<exists>reported. Notify (observers s)
       (WebStateActivatedAt (Some (tabs s ! nat i)) reported (active_index s) Replaced) \<in> set (effects s'))"
proof -
  let ?l = "s\<lparr>locked := True\<rparr>" and ?old = "wrapped (web_state_wrappers s ! nat i)"
  note l = wsl_open_locked [OF assms(1) [unfolded wsl_idle_open]]
  have old: "?old = tabs s ! nat i" "nat i < length (tabs s)"
    using assms(2) by (auto simp: ContainsIndex_def count_def tabs_def)
  then have ne: "w \<noteq> ?old" using assms(3) by force
  let ?r = "replaced_list i w ?l"
  have ci: "ContainsIndex ?l i" using assms(2) l(7) by simp
  note r = replaced_list_fields [OF ci, of w]
  have "?old \<notin> set (tabs ?r)"
    unfolding r(1) l(5) using old ne wsl_invD(1) [OF l(1)] l(5) by (auto simp: set_list_update_distinct)
  then have "Some ?old \<noteq> active_tab ?r"
    using active_tab_member [OF replaced_list_wf(2) [OF l(1) ci]] assms(3) l(5) by metis
  then have "Notify (observers s) (WebStateActivatedAt (Some ?old) (active_tab ?r) (active_index s) Replaced)
      \<in> set (effects (announce (Some ?old) Replaced ?r))"
    using r(2,3) by (auto simp: announce_def same_frame_def split: option.split)
  then show ?thesis
    using ReplaceWebStateAtImpl_eq [OF l(2) ci wsl_invD(2) [OF l(1)], of w] ne old(1) l(4)
    by (auto simp: ReplaceWebStateAt_def)
qed

theorem replace_always_announces_activation_witness:
  "\<exists>s'. ReplaceWebStateAt 0 99 demo_list = Inr (s', 10) \<and>
     (\<exists>reported. Notify [] (WebStateActivatedAt (Some 10) reported 1 Replaced) \<in> set (effects s'))"
  using replace_always_announces_activation [OF demo_idle, of 0 99]
  by (auto simp: demo_contains demo_tabs) (auto simp: demo_list_def)

end
