(* ===== verification/Overlay_View.thy ===== *)
theory Overlay_View
  imports Overlay_Properties Web_State_List_Properties
begin

text \<open>
  What the presenter knows of the tab list: \<open>tabs_view\<close>.  Only the notifications of
  \<^verbatim>\<open>WebStateList\<close> change it, and they change it the way \<open>mirror_notification\<close> says; every other
  operation of the overlay system leaves it alone (\<open>keeps_view\<close>).
\<close>

section \<open>What the presenter knows of the tab list\<close>

definition tabs_view :: "overlay_world \<Rightarrow> mirror" where
  "tabs_view W = (browser_tabs W, active_web_state W)"

definition keeps_view :: "overlay_world \<Rightarrow> overlay_world res \<Rightarrow> bool" where
  "keeps_view W m \<longleftrightarrow> (\<forall>W'. m = Inr W' \<longrightarrow> tabs_view W' = tabs_view W)"

named_theorems view_intros \<open>computations that leave the view of the tab list alone\<close>

lemma keeps_viewD: "keeps_view W m \<Longrightarrow> m = Inr W' \<Longrightarrow> tabs_view W' = tabs_view W"
  by (simp add: keeps_view_def)

lemma keeps_view_basic [view_intros]:
  "tabs_view V = tabs_view W \<Longrightarrow> keeps_view W (Inr V)"
  "keeps_view W (Inl e)"
  by (simp_all add: keeps_view_def)

lemma keeps_view_start: "keeps_view V m \<Longrightarrow> tabs_view V = tabs_view W \<Longrightarrow> keeps_view W m"
  by (simp add: keeps_view_def)

lemma keeps_view_check [view_intros]: "(c \<Longrightarrow> keeps_view W m) \<Longrightarrow> keeps_view W (dcheck c msg m)"
  by (simp add: keeps_view_def dcheck_def)

lemma keeps_view_value: "(\<And>x. keeps_view W (f x)) \<Longrightarrow> keeps_view W (rbind m f)"
  by (cases m) (simp_all add: keeps_view_def)

lemmas keeps_view_values [view_intros] =
  keeps_view_value [where m = "m :: request option res" for m]
  keeps_view_value [where m = "m :: request res" for m]
  keeps_view_value [where m = "m :: bool res" for m]
  keeps_view_value [where m = "m :: request_queue option res" for m]
  keeps_view_value [where m = "m :: overlay_request res" for m]
  keeps_view_value [where m = "m :: ui_state res" for m]

lemma keeps_view_bind [view_intros]:
  assumes "keeps_view W m" "\<And>V. tabs_view V = tabs_view W \<Longrightarrow> keeps_view W (f V)"
  shows "keeps_view W (rbind m f)"
proof (cases m)
  case (Inr V)
  then have "tabs_view V = tabs_view W" using assms(1) by (rule keeps_viewD [rotated])
  then show ?thesis using Inr assms(2) by simp
qed (simp add: keeps_view_def)

lemma tabs_view_updates [simp]:
  "tabs_view (log_overlay es W) = tabs_view W"
  "tabs_view (update_queue w f W) = tabs_view W"
  "tabs_view (set_ui_state r st W) = tabs_view W"
  "tabs_view (W\<lparr>requests := a\<rparr>) = tabs_view W"
  "tabs_view (W\<lparr>queues := b\<rparr>) = tabs_view W"
  "tabs_view (W\<lparr>presenting := c\<rparr>) = tabs_view W"
  "tabs_view (W\<lparr>presented_request := d\<rparr>) = tabs_view W"
  "tabs_view (W\<lparr>previously_presented_requests := e\<rparr>) = tabs_view W"
  "tabs_view (W\<lparr>context_observed := g\<rparr>) = tabs_view W"
  "tabs_view (W\<lparr>presentation_context := h\<rparr>) = tabs_view W"
  "tabs_view (W\<lparr>detached_queue_replaced_delegate := i\<rparr>) = tabs_view W"
  "tabs_view (W\<lparr>detached_presenting_request_queue := j\<rparr>) = tabs_view W"
  "tabs_view (W\<lparr>removed_request_awaiting_dismissal := k\<rparr>) = tabs_view W"
  "tabs_view (W\<lparr>detaching_presenting_web_state := l\<rparr>) = tabs_view W"
  "tabs_view (W\<lparr>context_request := m\<rparr>) = tabs_view W"
  "tabs_view (W\<lparr>ui_states := n\<rparr>) = tabs_view W"
  "tabs_view (W\<lparr>presentation_capabilities := p\<rparr>) = tabs_view W"
  "tabs_view (W\<lparr>container_view_controller := q\<rparr>) = tabs_view W"
  "tabs_view (W\<lparr>presentation_context_view_controller := r'\<rparr>) = tabs_view W"
  "tabs_view (W\<lparr>context_delegate := s\<rparr>) = tabs_view W"
  "tabs_view (W\<lparr>window := t\<rparr>) = tabs_view W"
  "tabs_view (W\<lparr>ui_disabled := u\<rparr>) = tabs_view W"
  "tabs_view (W\<lparr>destroyed_web_states := v\<rparr>) = tabs_view W"
  by (simp_all add: tabs_view_def log_overlay_def update_queue_def set_ui_state_def)

lemma tabs_view_completion [simp]: "tabs_view (ExecuteCompletionCallbacks r cbs W) = tabs_view W"
proof -
  have "tabs_view (run_completion r cb V) = tabs_view V" for cb V
    by (cases cb) (simp_all add: OverlayWasCompleted_def)
  then show ?thesis
    unfolding ExecuteCompletionCallbacks_def by (induction cbs arbitrary: W) simp_all
qed

lemmas view_leaf = deref_request_def keeps_view_def res_simps Let_def

lemma view_AddCompletionCallback [view_intros]: "tabs_view V = tabs_view W \<Longrightarrow> keeps_view W (AddCompletionCallback r cb V)"
  by (auto simp: AddCompletionCallback_def view_leaf)

lemma view_destroy_request [view_intros]: "tabs_view V = tabs_view W \<Longrightarrow> keeps_view W (destroy_request r V)"
  by (auto simp: destroy_request_def view_leaf)

lemma view_destroy_optional [view_intros]: "tabs_view V = tabs_view W \<Longrightarrow> keeps_view W (destroy_optional p V)"
  by (auto simp: destroy_optional_def intro: view_intros split: option.split)

lemma view_notify_presenter_observers [view_intros]:
  "tabs_view V = tabs_view W \<Longrightarrow> keeps_view W (notify_presenter_observers E r f V)"
  by (auto simp: notify_presenter_observers_def view_leaf split: if_splits)

lemma view_UIStateWasPresented [view_intros]: "tabs_view V = tabs_view W \<Longrightarrow> keeps_view W (UIStateWasPresented E r st V)"
  by (auto simp: UIStateWasPresented_def OverlayWasPresented_def intro!: view_intros split: option.split)

lemma view_ShowUI [view_intros]: "tabs_view V = tabs_view W \<Longrightarrow> keeps_view W (ShowUIForPresentedRequest E V)"
  by (auto simp: ShowUIForPresentedRequest_def Let_def intro!: view_intros split: option.split)

lemma view_SetRequest [view_intros]: "tabs_view V = tabs_view W \<Longrightarrow> keeps_view W (SetRequest E r V)"
  unfolding SetRequest_def Let_def
  by (auto intro!: view_intros split: option.split)

lemma view_ShowOverlayUI [view_intros]: "tabs_view V = tabs_view W \<Longrightarrow> keeps_view W (ShowOverlayUI E r w V)"
  by (auto simp: ShowOverlayUI_def Let_def intro!: view_intros split: option.split)

lemma view_DismissPresentedUI [view_intros]: "tabs_view V = tabs_view W \<Longrightarrow> keeps_view W (DismissPresentedUI reason V)"
  by (auto simp: DismissPresentedUI_def Let_def intro!: view_intros split: option.split)

lemma view_HideOverlayUI [view_intros]: "tabs_view V = tabs_view W \<Longrightarrow> keeps_view W (HideOverlayUI r V)"
  by (auto simp: HideOverlayUI_def Let_def intro!: view_intros split: option.split)

lemma view_CancelOverlayUI [view_intros]: "tabs_view V = tabs_view W \<Longrightarrow> keeps_view W (CancelOverlayUI r V)"
  by (auto simp: CancelOverlayUI_def Let_def intro!: view_intros split: option.split)

lemma view_CancelOverlayUIForRequest [view_intros]: "tabs_view V = tabs_view W \<Longrightarrow> keeps_view W (CancelOverlayUIForRequest p V)"
  by (auto simp: CancelOverlayUIForRequest_def Let_def intro!: view_intros split: option.split)

lemma view_PresentOverlay [view_intros]: "tabs_view V = tabs_view W \<Longrightarrow> keeps_view W (PresentOverlayForActiveRequest E V)"
  by (auto simp: PresentOverlayForActiveRequest_def PrepareToShowOverlayUI_def Let_def intro!: view_intros split: option.split)

lemma view_CancelOverlayUIForTabs [view_intros]:
  "tabs_view V = tabs_view W \<Longrightarrow> keeps_view W (CancelOverlayUIForTabs ws V)"
  by (induction ws arbitrary: V) (auto intro!: view_intros)

lemma view_SetPresentationContext [view_intros]: "tabs_view V = tabs_view W \<Longrightarrow> keeps_view W (SetPresentationContext E c V)"
  by (auto simp: SetPresentationContext_def CancelAllOverlayUI_def Let_def intro!: view_intros split: option.split)

lemma view_WillReplaceDelegate [view_intros]: "tabs_view V = tabs_view W \<Longrightarrow> keeps_view W (OverlayRequestQueueWillReplaceDelegate E w V)"
  by (auto simp: OverlayRequestQueueWillReplaceDelegate_def Let_def intro!: view_intros split: option.split)

lemma view_SetDelegate [view_intros]: "tabs_view V = tabs_view W \<Longrightarrow> keeps_view W (SetDelegate E w d V)"
  by (auto simp: SetDelegate_def Let_def intro!: view_intros split: option.split queue_party.split)

lemma view_OverlayRequestRemoved [view_intros]: "tabs_view V = tabs_view W \<Longrightarrow> keeps_view W (OverlayRequestRemoved E w r c V)"
  by (auto simp: OverlayRequestRemoved_def Let_def intro!: view_intros split: option.split)

lemma view_RemoveRequest [view_intros]: "tabs_view V = tabs_view W \<Longrightarrow> keeps_view W (RemoveRequest E w i c V)"
  by (auto simp: RemoveRequest_def Let_def intro!: view_intros split: option.split queue_party.split)

lemma view_RequestAddedToQueue [view_intros]: "tabs_view V = tabs_view W \<Longrightarrow> keeps_view W (RequestAddedToQueue E w r V)"
  by (auto simp: RequestAddedToQueue_def Let_def intro!: view_intros split: option.split)

lemma view_notify_request_added [view_intros]:
  "tabs_view V = tabs_view W \<Longrightarrow> keeps_view W (notify_request_added E w r i ps V)"
  by (induction E w r i ps V rule: notify_request_added.induct) (auto intro!: view_intros)

lemma view_InsertRequest [view_intros]: "tabs_view V = tabs_view W \<Longrightarrow> keeps_view W (InsertRequest E w i p h V)"
  by (auto simp: InsertRequest_def Let_def intro!: view_intros split: option.split)

lemma view_cancel_all_loop [view_intros]:
  "tabs_view V = tabs_view W \<Longrightarrow> keeps_view W (cancel_all_loop fuel E w V)"
  by (induction fuel arbitrary: V; subst cancel_all_loop.simps) (auto intro!: view_intros)

lemma tabs_view_queue_destroyed [simp]: "tabs_view (notify_queue_destroyed w ps V) = tabs_view V"
  by (induction w ps V rule: notify_queue_destroyed.induct) simp_all

lemma view_CancelAllRequests [view_intros]: "tabs_view V = tabs_view W \<Longrightarrow> keeps_view W (CancelAllRequests E w V)"
  unfolding CancelAllRequests_def by (rule view_cancel_all_loop)

lemma view_CancelRequest [view_intros]: "tabs_view V = tabs_view W \<Longrightarrow> keeps_view W (CancelRequest E w r V)"
  by (auto simp: CancelRequest_def Let_def intro!: view_intros split: option.split)

lemma view_destroy_queue [view_intros]: "tabs_view V = tabs_view W \<Longrightarrow> keeps_view W (destroy_queue E w V)"
  by (auto simp: destroy_queue_def Let_def intro!: view_intros split: option.split)

lemma view_OverlayWasDismissed [view_intros]: "tabs_view V = tabs_view W \<Longrightarrow> keeps_view W (OverlayWasDismissed E r w reason V)"
  by (auto simp: OverlayWasDismissed_def PopFrontRequest_def Let_def intro!: view_intros split: option.split)

lemma view_OverlayUIDidFinishDismissal [view_intros]: "tabs_view V = tabs_view W \<Longrightarrow> keeps_view W (OverlayUIDidFinishDismissal E r V)"
  by (auto simp: OverlayUIDidFinishDismissal_def OverlayUIWasDismissed_def Let_def intro!: view_intros split: option.split)

lemma view_UpdatePresentationCapabilities [view_intros]: "tabs_view V = tabs_view W \<Longrightarrow> keeps_view W (UpdatePresentationCapabilities E V)"
  by (auto simp: UpdatePresentationCapabilities_def WillChangePresentationCapabilities_def
      DidChangePresentationCapabilities_def Let_def intro!: view_intros split: option.split)

lemma view_SetContextDelegate [view_intros]: "tabs_view V = tabs_view W \<Longrightarrow> keeps_view W (SetContextDelegate E d V)"
  by (auto simp: SetContextDelegate_def Let_def intro!: view_intros split: option.split)

lemma view_SetWindow [view_intros]: "tabs_view V = tabs_view W \<Longrightarrow> keeps_view W (SetWindow E win V)"
  by (auto simp: SetWindow_def ContextDidMoveToWindow_def Let_def intro!: view_intros split: option.split)

lemma view_SetContainerViewController [view_intros]: "tabs_view V = tabs_view W \<Longrightarrow> keeps_view W (SetContainerViewController E vc V)"
  by (auto simp: SetContainerViewController_def Let_def intro!: view_intros split: option.split)

lemma view_SetPresentationContextViewController [view_intros]: "tabs_view V = tabs_view W \<Longrightarrow> keeps_view W (SetPresentationContextViewController E vc V)"
  by (auto simp: SetPresentationContextViewController_def Let_def intro!: view_intros split: option.split)

lemma view_SetUIDisabled [view_intros]: "tabs_view V = tabs_view W \<Longrightarrow> keeps_view W (SetUIDisabled E b V)"
  by (auto simp: SetUIDisabled_def ContextDidEnableUI_def Let_def intro!: view_intros split: option.split)

lemma view_WebStateAddedToBrowser [view_intros]: "tabs_view V = tabs_view W \<Longrightarrow> keeps_view W (WebStateAddedToBrowser E w V)"
  by (auto simp: WebStateAddedToBrowser_def AddQueueObserver_def Let_def intro!: view_intros split: option.split)

lemma view_WebStateRemovedFromBrowser [view_intros]: "tabs_view V = tabs_view W \<Longrightarrow> keeps_view W (WebStateRemovedFromBrowser E w V)"
  by (auto simp: WebStateRemovedFromBrowser_def RemoveQueueObserver_def Let_def intro!: view_intros split: option.split)


text \<open>The presenter's view after a notification is what \<open>mirror_notification\<close> says.\<close>

lemma SetActiveWebState_view:
  assumes "SetActiveWebState E new reason W = Inr W'"
  shows "tabs_view W' = (browser_tabs W, new)"
proof (cases "active_web_state W = new")
  case True
  then show ?thesis using assms by (auto simp: SetActiveWebState_def tabs_view_def)
next
  case False
  let ?V = "W\<lparr>active_web_state := new, detaching_presenting_web_state := False\<rparr>"
  have "keeps_view ?V (SetActiveWebState E new reason W)"
    unfolding SetActiveWebState_def Let_def using False by (auto intro!: view_intros split: option.split)
  then show ?thesis using keeps_viewD [OF _ assms] by (fastforce simp: tabs_view_def)
qed

lemma on_web_state_list_view:
  assumes "on_web_state_list E n W = Inr W'"
  shows "tabs_view W' = mirror_notification n (tabs_view W)"
proof (cases n)
  case (WebStateInsertedAt w i activating)
  let ?V = "W\<lparr>browser_tabs := insert_at (nat i) w (browser_tabs W)\<rparr>"
  have "keeps_view ?V (on_web_state_list E n W)" unfolding WebStateInsertedAt by (auto intro!: view_intros)
  then show ?thesis using keeps_viewD [OF _ assms] WebStateInsertedAt by (simp add: tabs_view_def)
next
  case (WebStateReplacedAt old new i)
  let ?V = "W\<lparr>browser_tabs := (browser_tabs W)[nat i := new]\<rparr>"
  have "keeps_view ?V (on_web_state_list E n W)" unfolding WebStateReplacedAt by (auto intro!: view_intros)
  then show ?thesis using keeps_viewD [OF _ assms] WebStateReplacedAt by (simp add: tabs_view_def)
next
  case (WillDetachWebStateAt w i)
  have "keeps_view W (on_web_state_list E n W)" unfolding WillDetachWebStateAt by (auto intro!: view_intros)
  then show ?thesis using keeps_viewD [OF _ assms] WillDetachWebStateAt by (simp add: tabs_view_def)
next
  case (WebStateActivatedAt old new i reason)
  then show ?thesis using SetActiveWebState_view assms by (fastforce simp: tabs_view_def)
qed (use assms in \<open>auto simp: tabs_view_def\<close>)

lemma notify_all_view: "notify_all E ns W = Inr W' \<Longrightarrow> tabs_view W' = fold mirror_notification ns (tabs_view W)"
  by (induction ns arbitrary: W) (auto simp: res_simps dest: on_web_state_list_view)

lemma notify_all_append: "notify_all E (ns @ ms) W = rbind (notify_all E ns W) (notify_all E ms)"
proof (induction ns arbitrary: W)
  case (Cons n ns)
  then show ?case by (cases "on_web_state_list E n W") simp_all
qed simp

fun changes_tabs :: "overlay_event \<Rightarrow> bool" where
  "changes_tabs (TabInserted w i activating) = True"
| "changes_tabs (TabActivated w) = True"
| "changes_tabs (TabReplaced i new) = True"
| "changes_tabs (TabDetached i new_active) = True"
| "changes_tabs (TabMoved i j) = True"
| "changes_tabs NoTabActive = True"
| "changes_tabs _ = False"

lemma other_event_view:
  assumes "\<not> changes_tabs e" "overlay_exec E e W = Inr W'"
  shows "tabs_view W' = tabs_view W"
proof -
  have "keeps_view W (overlay_exec E e W)" using assms(1) by (cases e) (auto intro!: view_intros)
  then show ?thesis using assms(2) by (rule keeps_viewD)
qed

end
