(* ===== verification/Web_State_List_Sent.thy ===== *)
theory Web_State_List_Sent
  imports Web_State_List_Properties
begin

text \<open>
  What each operation of the tab list sends to the observers of the list, in order.  The observers that are
  modelled (the overlay presenter in \<open>Tabs_And_Overlays\<close>, the agent that saves the session in
  \<open>Session_Restoration\<close>) are given these notifications.
\<close>

section \<open>What the tab list sends\<close>

fun notification_of :: "wsl_effect \<Rightarrow> wsl_notification list" where
  "notification_of (Notify obs n) = [n]"
| "notification_of _ = []"

definition notifications :: "wsl_effect list \<Rightarrow> wsl_notification list" where
  "notifications es = concat (map notification_of es)"

definition sent :: "web_state_list \<Rightarrow> web_state_list \<Rightarrow> wsl_notification list" where
  "sent s s' = notifications (drop (length (effects s)) (effects s'))"

definition sends :: "web_state_list \<Rightarrow> wsl_notification list \<Rightarrow> web_state_list \<Rightarrow> bool" where
  "sends s ns s' \<longleftrightarrow> (\<exists>es. effects s' = effects s @ es \<and> notifications es = ns)"

lemma sends_sent: "sends s ns s' \<Longrightarrow> sent s s' = ns"
  by (auto simp: sends_def sent_def)

lemma sends_trans [trans]: "sends s ns t \<Longrightarrow> sends t ms u \<Longrightarrow> sends s (ns @ ms) u"
  unfolding sends_def notifications_def by fastforce

lemma sends_same: "effects s' = effects s \<Longrightarrow> sends s [] s'"
  by (simp add: sends_def notifications_def)

lemma sends_basic:
  "sends s [n] (notify n s)"
  "sends s [] (emit (Delegate d) s)"
  by (simp_all add: sends_def notifications_def)

lemma sends_frame: "sends s ns s' \<Longrightarrow> effects t = effects s \<Longrightarrow> effects t' = effects s' \<Longrightarrow> sends t ns t'"
  by (simp add: sends_def)

lemma sends_announce:
  "sends s (if old = active_tab s then []
     else [WebStateActivatedAt old (active_tab s) (active_index s) reason]) (announce old reason s)"
  by (auto simp: sends_def notifications_def announce_def split: option.split)

lemma fold_notifications: "fold mirror_notification (notifications es) m = fold mirror_effect es m"
proof (induction es arbitrary: m)
  case (Cons e es)
  then show ?case by (cases e) (simp_all add: notifications_def)
qed (simp add: notifications_def)

lemma sends_mirror: "sends s ns s' \<Longrightarrow> mirror_of (effects s') = fold mirror_notification ns (mirror_of (effects s))"
  by (auto simp: sends_def fold_notifications)

text \<open>A change of the active tab is announced by at most one notification.\<close>

definition activation :: "change_reason \<Rightarrow> wsl_notification list \<Rightarrow> bool" where
  "activation reason ns \<longleftrightarrow> ns = [] \<or> (\<exists>old new i. ns = [WebStateActivatedAt old new i reason])"

lemma NotifyIfActiveWebStateChanged_sends:
  assumes "NotifyIfActiveWebStateChanged old reason s = Inr s'"
  shows "active_index s' = active_index s \<and> (\<exists>ns. sends s ns s' \<and> activation reason ns)"
proof -
  obtain new where "GetActiveWebState s = Inr new" using assms by (auto simp: NotifyIfActiveWebStateChanged_def res_simps)
  then have s': "s' = (if old = new then s else notify (WebStateActivatedAt old new (active_index s) reason)
      (case new of None \<Rightarrow> s | Some w \<Rightarrow> emit (ForceRealized w) (emit IgnoreOverRealizationCheck s)))"
    using assms by (auto simp: NotifyIfActiveWebStateChanged_def Let_def split: option.split)
  have "sends s (if old = new then [] else [WebStateActivatedAt old new (active_index s) reason]) s'"
    by (auto simp: s' sends_def notifications_def split: option.split)
  moreover have "active_index s' = active_index s" by (simp add: s' split: option.split)
  ultimately show ?thesis by (auto simp: activation_def split: if_splits)
qed

lemma ActivateWebStateAtImpl_sends:
  assumes "ActivateWebStateAtImpl i reason s = Inr s'"
  shows "\<exists>ns. sends s ns s' \<and> activation reason ns"
proof -
  obtain old t where t: "NotifyIfActiveWebStateChanged old reason (t\<lparr>active_index := i\<rparr>) = Inr s'"
    "effects t = effects s"
    using assms by (auto simp: ActivateWebStateAtImpl_def res_simps split: option.splits if_splits)
  obtain ns where "sends (t\<lparr>active_index := i\<rparr>) ns s'" "activation reason ns"
    using NotifyIfActiveWebStateChanged_sends [OF t(1)] by blast
  then show ?thesis using sends_frame [of "t\<lparr>active_index := i\<rparr>" ns s' s s'] t(2) by auto
qed

lemma SetOpenerOfWebStateAt_sends: "SetOpenerOfWebStateAt i op s = Inr s' \<Longrightarrow> sends s [] s'"
  by (intro sends_same) (auto simp: SetOpenerOfWebStateAt_def res_simps Let_def split: option.splits if_splits)

lemma inherit_opener_sends: "inherit_opener H s = Inr (s', op) \<Longrightarrow> sends s [] s'"
  by (intro sends_same) (auto simp: inherit_opener_def res_simps Let_def)

lemma insert_wrapper_sends: "sends s [WebStateInsertedAt w i act] (insert_wrapper i w inherit act s)"
  by (auto simp: sends_def notifications_def insert_wrapper_def Let_def)

lemma InsertWebStateImpl_sends:
  assumes "InsertWebStateImpl H index w flags op s = Inr (s', i)"
  defines "act \<equiv> IsInsertionFlagSet flags INSERT_ACTIVATE"
  shows "\<exists>ms. sends s (WebStateInsertedAt w i act # ms) s' \<and> (if act then activation Inserted ms else ms = [])"
proof -
  let ?inherit = "IsInsertionFlagSet flags INSERT_INHERIT_OPENER"
  obtain t op' u where t: "(if ?inherit then inherit_opener H s else Inr (s, op)) = Inr (t, op')"
    and u: "(if opener op' \<noteq> None then SetOpenerOfWebStateAt i op' (insert_wrapper i w ?inherit act t)
       else Inr (insert_wrapper i w ?inherit act t)) = Inr u"
    and s': "(if act then ActivateWebStateAtImpl i Inserted u else Inr u) = Inr s'"
    using assms by (auto simp: InsertWebStateImpl_def res_simps Let_def)
  have "sends s [] t" using t inherit_opener_sends by (auto simp: sends_same split: if_splits)
  also note insert_wrapper_sends [of t w i act ?inherit]
  also have "sends (insert_wrapper i w ?inherit act t) [] u"
    using u SetOpenerOfWebStateAt_sends by (auto simp: sends_same split: if_splits)
  finally have u: "sends s [WebStateInsertedAt w i act] u" by simp
  show ?thesis
  proof (cases act)
    case True
    then obtain ms where "sends u ms s'" "activation Inserted ms"
      using ActivateWebStateAtImpl_sends s' by fastforce
    then show ?thesis using sends_trans [OF u] True by auto
  next
    case False
    then show ?thesis using s' u by auto
  qed
qed

lemma MoveWebStateAtImpl_sends:
  "MoveWebStateAtImpl i j s = Inr s' \<Longrightarrow>
     sends s (if i = j then [] else [WebStateMoved (wrapped (web_state_wrappers s ! nat i)) i j]) s'"
  by (auto simp: MoveWebStateAtImpl_def res_simps Let_def sends_def notifications_def split: if_splits)

lemma ReplaceWebStateAtImpl_sends:
  assumes "ReplaceWebStateAtImpl i w s = Inr (s', old)"
  shows "active_index s' = active_index s \<and>
    (\<exists>ms. sends s (WebStateReplacedAt old w i # ms) s' \<and> activation Replaced ms)"
proof -
  obtain t u where t: "NotifyIfActiveWebStateChanged (Some old) Replaced (notify (WebStateReplacedAt old w i) u) = Inr t"
    and s': "s' = emit (Delegate (WebStateDetached old)) t" and u: "sends s [] u" "active_index u = active_index s"
    using assms by (auto simp: ReplaceWebStateAtImpl_def ClearOpenersReferencing_eq res_simps Let_def sends_def notifications_def)
  from NotifyIfActiveWebStateChanged_sends [OF t] obtain ms
    where ms: "sends (notify (WebStateReplacedAt old w i) u) ms t" "activation Replaced ms" by blast
  note u(1)
  also note sends_basic(1) [of u "WebStateReplacedAt old w i"]
  also note ms(1)
  also note sends_basic(2) [of t "WebStateDetached old"]
  finally show ?thesis using NotifyIfActiveWebStateChanged_sends [OF t] ms(2) u(2) by (auto simp: s')
qed

lemma DetachWebStateAtImpl_sends:
  assumes "DetachWebStateAtImpl H i s = Inr (s', old)"
  defines "w \<equiv> wrapped (web_state_wrappers s ! nat i)"
  shows "\<exists>ms. sends s (WillDetachWebStateAt w i # WebStateDetachedAt w i # ms) s' \<and>
    (if active_index s = i then activation Closed ms else ms = [])"
proof -
  let ?a = "notify (WillDetachWebStateAt w i) s"
  obtain na where na: "DetermineNewActiveIndex H ?a (active_index s) (StorageFromInitializerList [i]) = Inr na"
    using assms by (auto simp: DetachWebStateAtImpl_def res_simps Let_def)
  define u where "u = ?a\<lparr>active_index := na,
    web_state_wrappers := remove_at (nat i) (map (clear_opener w) (web_state_wrappers s))\<rparr>"
  have "\<exists>t. (if i = active_index s
      then NotifyIfActiveWebStateChanged (Some w) Closed (notify (WebStateDetachedAt w i) u)
      else Inr (notify (WebStateDetachedAt w i) u)) = Inr t \<and> s' = emit (Delegate (WebStateDetached w)) t"
    using assms na by (auto simp: DetachWebStateAtImpl_def ClearOpenersReferencing_eq res_simps Let_def u_def notify_def emit_def)
  then obtain t where t: "(if i = active_index s
      then NotifyIfActiveWebStateChanged (Some w) Closed (notify (WebStateDetachedAt w i) u)
      else Inr (notify (WebStateDetachedAt w i) u)) = Inr t"
    and s': "s' = emit (Delegate (WebStateDetached w)) t" by blast
  have u: "sends ?a [] u" by (rule sends_same) (simp add: u_def)
  obtain ms where ms: "sends (notify (WebStateDetachedAt w i) u) ms t"
    "if active_index s = i then activation Closed ms else ms = []"
    using t NotifyIfActiveWebStateChanged_sends by (fastforce simp: sends_same split: if_splits)
  note sends_basic(1) [of s "WillDetachWebStateAt w i"]
  also note u
  also note sends_basic(1) [of u "WebStateDetachedAt w i"]
  also note ms(1)
  also note sends_basic(2) [of t "WebStateDetached w"]
  finally show ?thesis using ms(2) by (auto simp: s')
qed

lemma CloseWebStateAtImpl_sends:
  assumes "CloseWebStateAtImpl H i flags s = Inr s'"
  defines "w \<equiv> wrapped (web_state_wrappers s ! nat i)"
  shows "\<exists>ms v b. sends s ((WillDetachWebStateAt w i # WebStateDetachedAt w i # ms) @ [WillCloseWebStateAt v i b]) s' \<and>
    (if active_index s = i then activation Closed ms else ms = [])"
proof -
  obtain d v where d: "DetachWebStateAtImpl H i s = Inr (d, v)"
    and s': "s' = notify (WillCloseWebStateAt v i (IsClosingFlagSet flags CLOSE_USER_ACTION)) d"
    using assms by (auto simp: CloseWebStateAtImpl_def res_simps)
  show ?thesis unfolding s' using DetachWebStateAtImpl_sends [OF d] sends_trans [OF _ sends_basic(1)] assms(2) by blast
qed

end
