(* ===== verification/Tabs_And_Overlays.thy ===== *)
theory Tabs_And_Overlays
  imports Overlay_View Web_State_List_Sent
begin

text \<open>
  The window: a tab list and the overlay presenter that observes it.  An operation of the list
  changes the list and sends its notifications, which the presenter handles one after the other;
  between them come the events of the overlay system that do not concern the tabs.  For the
  presenter every operation is a sequence of the events of \<open>Overlay\<close> that it can handle, so the
  window simulates the overlay system (locale \<open>event_simulation\<close>) and the properties of the two
  components hold together.  The handlers of the presenter do not call the list, so it makes no
  difference that the model delivers the notifications after the operation.
\<close>

section \<open>Activations\<close>

lemma notify_all_single: "notify_all E [n] W = on_web_state_list E n W"
  by (cases "on_web_state_list E n W") simp_all

lemma notify_activation:
  assumes "activation reason ns"
  shows "notify_all E ns W = SetActiveWebState E (snd (fold mirror_notification ns (tabs_view W))) reason W"
proof (cases "ns = []")
  case True
  then show ?thesis by (simp add: tabs_view_def SetActiveWebState_def)
next
  case False
  then show ?thesis using assms by (auto simp: activation_def tabs_view_def notify_all_single simp del: notify_all.simps(2))
qed

lemma notify_then_activate:
  assumes "activation reason ms" "snd (fold mirror_notification (ns @ ms) (tabs_view W)) = new"
  shows "notify_all E (ns @ ms) W = rbind (notify_all E ns W) (SetActiveWebState E new reason)"
proof (cases "notify_all E ns W")
  case (Inr V)
  then show ?thesis
    using notify_all_view [OF Inr] notify_activation [OF assms(1), of E V] assms(2) by (simp add: notify_all_append)
qed (simp add: notify_all_append)

lemma notify_then_activated:
  "notify_all E (ns @ [WebStateActivatedAt old new i reason]) W =
     rbind (notify_all E ns W) (SetActiveWebState E new reason)"
  by (cases "notify_all E ns W") (simp_all add: notify_all_append notify_all_single del: notify_all.simps(2))

section \<open>Notifications as events\<close>

text \<open>What an operation asks of the presenter's state: a tab that comes is new to it.\<close>

fun tab_op_asked :: "wsl_op \<Rightarrow> overlay_world \<Rightarrow> bool" where
  "tab_op_asked (OpInsert i w flags op) W \<longleftrightarrow> comes_fresh w W"
| "tab_op_asked (OpReplace i w) W \<longleftrightarrow> comes_fresh w W"
| "tab_op_asked _ W \<longleftrightarrow> True"

definition in_step :: "web_state_list \<Rightarrow> overlay_world \<Rightarrow> bool" where
  "in_step s W \<longleftrightarrow> tabs_view W = (tabs s, active_tab s)"

lemma in_stepD: "in_step s W \<Longrightarrow> browser_tabs W = tabs s \<and> active_web_state W = active_tab s"
  by (simp add: in_step_def tabs_view_def)

text \<open>
  A list of notifications the presenter treats like a sequence of allowed events, except that the active
  tab may change too early on the way.
\<close>

abbreviation early_switch :: failure where
  "early_switch \<equiv> DCheckFailed ''request_ == request''"

definition fails_early :: "overlay_env \<Rightarrow> overlay_event list \<Rightarrow> overlay_world \<Rightarrow> failure \<Rightarrow> bool" where
  "fails_early E es W er \<longleftrightarrow> er = early_switch \<and>
     (\<exists>V e. overlay_run E es W = Inr V \<and> overlay_asked e V \<and> switches_too_early e V)"

definition as_events :: "overlay_env \<Rightarrow> wsl_notification list \<Rightarrow> overlay_world \<Rightarrow> bool" where
  "as_events E ns W \<longleftrightarrow> (\<exists>es. overlay_allowed E es W \<and>
     (case notify_all E ns W of Inr W' \<Rightarrow> overlay_run E es W = Inr W' | Inl er \<Rightarrow> fails_early E es W er))"

lemma as_events_none: "notify_all E ns W = Inr W \<Longrightarrow> as_events E ns W"
  unfolding as_events_def by (intro exI [of _ "[]"]) simp

lemma as_events_one:
  assumes "overlay_inv W" "overlay_asked e W" "notify_all E ns W = overlay_exec E e W"
  shows "as_events E ns W"
proof (cases "switches_too_early e W")
  case True
  then have "notify_all E ns W = Inl early_switch" using early_switch_fails [OF assms(1,2)] assms(3) by simp
  then show ?thesis
    unfolding as_events_def fails_early_def using True assms(2) by (intro exI [of _ "[]"]) auto
next
  case False
  then have pre: "overlay_pre e W" using assms(2) by (simp add: overlay_pre_def)
  then obtain V where "overlay_exec E e W = Inr V" using overlay_exec_inv assms(1) by blast
  then show ?thesis unfolding as_events_def using assms(3) pre by (intro exI [of _ "[e]"]) simp
qed

lemma as_events_inv:
  "overlay_inv W \<Longrightarrow> as_events E ns W \<Longrightarrow> notify_all E ns W = Inr V \<Longrightarrow> overlay_inv V"
  using overlays.allowed_events_inv by (fastforce simp: as_events_def)

lemma as_events_append:
  assumes "overlay_inv W" "as_events E ns W" "\<And>V. overlay_inv V \<Longrightarrow> notify_all E ns W = Inr V \<Longrightarrow> as_events E ms V"
  shows "as_events E (ns @ ms) W"
proof (cases "notify_all E ns W")
  case (Inl er)
  then show ?thesis using assms(2) by (auto simp: as_events_def notify_all_append)
next
  case (Inr V)
  then obtain es where es: "overlay_allowed E es W" "overlay_run E es W = Inr V"
    using assms(2) by (auto simp: as_events_def)
  obtain fs where fs: "overlay_allowed E fs V"
      "case notify_all E ms V of Inr W' \<Rightarrow> overlay_run E fs V = Inr W' | Inl er \<Rightarrow> fails_early E fs V er"
    using assms(3) [OF as_events_inv [OF assms(1,2) Inr] Inr] by (auto simp: as_events_def)
  have run: "overlay_run E (es @ fs) W = overlay_run E fs V" by (simp add: run_events_append es(2))
  have "overlay_allowed E (es @ fs) W" using es fs(1) by (simp add: allowed_events_append)
  moreover have "case notify_all E (ns @ ms) W of Inr W' \<Rightarrow> overlay_run E (es @ fs) W = Inr W' | Inl er \<Rightarrow> fails_early E (es @ fs) W er"
    using fs(2) Inr unfolding run fails_early_def by (simp add: notify_all_append)
  ultimately show ?thesis unfolding as_events_def by blast
qed

text \<open>What the list has sent leads from its view to its view.\<close>

lemma sends_view:
  assumes "sends s ns s'" "wsl_inv s" "wsl_inv s'"
  shows "fold mirror_notification ns (tabs s, active_tab s) = (tabs s', active_tab s')"
  using sends_mirror [OF assms(1)] assms(2,3) by (simp add: wsl_inv_def)

lemma in_step_after:
  assumes "in_step s W" "sends s ns s'" "wsl_inv s" "wsl_inv s'" "notify_all E ns W = Inr W'"
  shows "in_step s' W'"
  using notify_all_view [OF assms(5)] sends_view [OF assms(2-4)] assms(1) by (simp add: in_step_def)

lemma active_index_tab:
  assumes "wsl_inv s" "ContainsIndex s i"
  shows "active_index s = i \<longleftrightarrow> active_tab s = Some (tabs s ! nat i)"
proof -
  have "distinct (tabs s)" "active_ok s" using assms(1) by (simp_all add: wsl_inv_def)
  then show ?thesis
    using assms(2) by (auto simp: active_tab_def active_ok_def ContainsIndex_def count_tabs nth_eq_iff_index_eq)
qed

lemma tab_at: "ContainsIndex s i \<Longrightarrow> wrapped (web_state_wrappers s ! nat i) = tabs s ! nat i"
  by (auto simp: tabs_def ContainsIndex_def count_def)

lemma in_range: "ContainsIndex s i \<Longrightarrow> nat i < length (tabs s) \<and> int (nat i) = i"
  by (auto simp: ContainsIndex_def count_tabs)

section \<open>Each operation as events\<close>

lemma notify_as_event:
  assumes "activation reason ms" "snd (fold mirror_notification (ns @ ms) (tabs_view W)) = new"
    and "overlay_exec E e W = notify_all E (ns @ [WebStateActivatedAt old new j reason]) W"
  shows "notify_all E (ns @ ms) W = overlay_exec E e W"
  unfolding assms(3) notify_then_activated by (rule notify_then_activate [OF assms(1,2)])

lemma activation_events:
  assumes "overlay_inv W" "in_step s W" "sends s ns s'" "activation reason ns" "wsl_inv s" "wsl_inv s'"
    and "overlay_asked e W" "overlay_exec E e W = SetActiveWebState E (active_tab s') reason W"
  shows "as_events E ns W"
  using assms notify_activation [OF assms(4), of E W] sends_view [OF assms(3,5,6)]
  by (intro as_events_one [OF assms(1,7)]) (simp add: in_step_def)

lemma detach_events:
  assumes inv: "overlay_inv W" and step: "in_step s W" and wf: "wsl_inv s" "wsl_inv d" "ContainsIndex s i"
    and d: "tabs d = remove_at (nat i) (tabs s)"
    and sent: "sends s (WillDetachWebStateAt w i # WebStateDetachedAt w i # ms) d" "w = tabs s ! nat i"
      "if active_index s = i then activation Closed ms else ms = []"
  shows "overlay_asked (TabDetached (nat i) (active_tab d)) W"
    and "notify_all E (WillDetachWebStateAt w i # WebStateDetachedAt w i # ms) W =
      overlay_exec E (TabDetached (nat i) (active_tab d)) W"
proof -
  note W = in_stepD [OF step] and i = in_range [OF wf(3)]
  have "v \<in> set (tabs s) - {w}" if "active_tab d = Some v" for v
    using active_tab_member [OF _ that] wf(1,2) d sent(2) i by (simp add: wsl_inv_def set_remove_at_distinct)
  then show "overlay_asked (TabDetached (nat i) (active_tab d)) W"
    using W i sent(2) active_index_tab [OF wf(1,3)] by (auto split: option.split)
  let ?ns = "[WillDetachWebStateAt w i, WebStateDetachedAt w i]"
  show "notify_all E (WillDetachWebStateAt w i # WebStateDetachedAt w i # ms) W =
      overlay_exec E (TabDetached (nat i) (active_tab d)) W"
  proof (cases "active_index s = i")
    case True
    then have "activation Closed ms" using sent(3) by simp
    moreover have "snd (fold mirror_notification (?ns @ ms) (tabs_view W)) = active_tab d"
      using sends_view [OF sent(1) wf(1,2)] step by (simp add: in_step_def)
    moreover have "active_web_state W = Some w" using True active_index_tab [OF wf(1,3)] W sent(2) by simp
    then have "overlay_exec E (TabDetached (nat i) (active_tab d)) W =
        notify_all E (?ns @ [WebStateActivatedAt (Some w) (active_tab d) 0 Closed]) W"
      using W i sent(2) by (simp add: Let_def)
    ultimately have "notify_all E (?ns @ ms) W = overlay_exec E (TabDetached (nat i) (active_tab d)) W"
      by (rule notify_as_event)
    then show ?thesis by simp
  next
    case False
    then have "active_web_state W \<noteq> Some w" "ms = []" using active_index_tab [OF wf(1,3)] W sent(2,3) by simp_all
    then show ?thesis using W i sent(2) by (simp add: Let_def)
  qed
qed


lemma insert_events:
  assumes inv: "overlay_inv W" and step: "in_step s W" and wf: "wsl_inv s" "wsl_inv s'"
    and i: "0 \<le> i" "i \<le> count s"
    and act: "active_tab s' = (if act then Some w else active_tab s)"
    and sent: "sends s (WebStateInsertedAt w i act # ms) s'" "if act then activation Inserted ms else ms = []"
    and ok: "comes_fresh w W"
  shows "as_events E (WebStateInsertedAt w i act # ms) W"
proof (rule as_events_one [OF inv])
  note W = in_stepD [OF step]
  show "overlay_asked (TabInserted w (nat i) act) W" using ok i W by (auto simp: count_tabs)
  let ?n = "WebStateInsertedAt w i act"
  show "notify_all E (?n # ms) W = overlay_exec E (TabInserted w (nat i) act) W"
  proof (cases act)
    case True
    then have "activation Inserted ms" using sent(2) by simp
    moreover have "snd (fold mirror_notification ([?n] @ ms) (tabs_view W)) = Some w"
      using sends_view [OF sent(1) wf] step True act by (simp add: in_step_def)
    moreover have "overlay_exec E (TabInserted w (nat i) act) W =
        notify_all E ([?n] @ [WebStateActivatedAt (active_web_state W) (Some w) i Inserted]) W"
      using True i by simp
    ultimately have "notify_all E ([?n] @ ms) W = overlay_exec E (TabInserted w (nat i) act) W" by (rule notify_as_event)
    then show ?thesis by simp
  next
    case False
    then show ?thesis using sent(2) i by simp
  qed
qed

lemma replace_events:
  assumes inv: "overlay_inv W" and step: "in_step s W" and wf: "wsl_inv s" "wsl_inv s'" "ContainsIndex s i"
    and tabs: "tabs s' = (tabs s)[nat i := w]" "active_index s' = active_index s"
    and sent: "sends s (WebStateReplacedAt old w i # ms) s'" "old = tabs s ! nat i" "activation Replaced ms"
    and ok: "comes_fresh w W"
  shows "as_events E (WebStateReplacedAt old w i # ms) W"
proof (rule as_events_one [OF inv])
  note W = in_stepD [OF step] and i = in_range [OF wf(3)]
  show "overlay_asked (TabReplaced (nat i) w) W" using ok i W by simp
  let ?n = "WebStateReplacedAt old w i"
  have a: "active_tab s' = (if active_web_state W = Some old then Some w else active_web_state W)"
  proof (cases "active_index s = i")
    case True
    then show ?thesis using i tabs active_index_tab [OF wf(1,3)] sent(2) W wf(3) by (auto simp: active_tab_def ContainsIndex_def)
  next
    case False
    then have "active_index s \<noteq> -1 \<longrightarrow> nat (active_index s) \<noteq> nat i"
      using wf(1,3) by (auto simp: wsl_inv_def active_ok_def ContainsIndex_def)
    then show ?thesis using False tabs active_index_tab [OF wf(1,3)] sent(2) W by (auto simp: active_tab_def)
  qed
  have "snd (fold mirror_notification ([?n] @ ms) (tabs_view W)) = active_tab s'"
    using sends_view [OF sent(1) wf(1,2)] step by (simp add: in_step_def)
  moreover have "overlay_exec E (TabReplaced (nat i) w) W =
      notify_all E ([?n] @ [WebStateActivatedAt (Some old) (active_tab s') i Replaced]) W"
    unfolding a using W i sent(2) by (simp add: Let_def)
  ultimately have "notify_all E ([?n] @ ms) W = overlay_exec E (TabReplaced (nat i) w) W"
    by (rule notify_as_event [OF sent(3)])
  then show "notify_all E (?n # ms) W = overlay_exec E (TabReplaced (nat i) w) W" by simp
qed

lemma move_events:
  assumes "overlay_inv W" "in_step s W" "ContainsIndex s i" "ContainsIndex s j"
  shows "as_events E [WebStateMoved (tabs s ! nat i) i j] W"
  using in_stepD [OF assms(2)] in_range [OF assms(3)] in_range [OF assms(4)]
  by (intro as_events_one [OF assms(1), of "TabMoved (nat i) (nat j)"]) simp_all

lemma detach_op_events:
  assumes "overlay_inv W" "in_step s W" "wsl_inv s" "locked s" "ContainsIndex s i" "DetachWebStateAtImpl H i s = Inr (d, v)"
  obtains e ns where "sends s ns d" "overlay_asked e W" "notify_all E ns W = overlay_exec E e W"
proof -
  let ?w = "tabs s ! nat i"
  have d: "wsl_inv d" "tabs d = remove_at (nat i) (tabs s)"
    using DetachWebStateAtImpl_ok [OF assms(3-5), of H] assms(6) by auto
  obtain ms where ms: "sends s (WillDetachWebStateAt ?w i # WebStateDetachedAt ?w i # ms) d"
      "if active_index s = i then activation Closed ms else ms = []"
    using DetachWebStateAtImpl_sends [OF assms(6)] unfolding tab_at [OF assms(5)] by blast
  note ev = detach_events [OF assms(1-3) d(1) assms(5) d(2) ms(1) refl ms(2)]
  show ?thesis using that [OF ms(1) ev] .
qed

lemma close_op_events:
  assumes "overlay_inv W" "in_step s W" "wsl_inv s" "locked s" "ContainsIndex s i" "CloseWebStateAtImpl H i flags s = Inr s'"
  shows "\<exists>ns. sends s ns s' \<and> as_events E ns W"
proof -
  obtain d v where d: "DetachWebStateAtImpl H i s = Inr (d, v)"
    and s': "s' = notify (WillCloseWebStateAt v i (IsClosingFlagSet flags CLOSE_USER_ACTION)) d"
    using assms(6) by (auto simp: CloseWebStateAtImpl_def res_simps)
  obtain e ns where ns: "sends s ns d" "overlay_asked e W" "notify_all E ns W = overlay_exec E e W"
    using detach_op_events [OF assms(1-5) d] .
  let ?n = "WillCloseWebStateAt v i (IsClosingFlagSet flags CLOSE_USER_ACTION)"
  have "as_events E (ns @ [?n]) W" by (rule as_events_append [OF assms(1) as_events_one [OF assms(1) ns(2,3)]]) (simp add: as_events_none)
  then show ?thesis using sends_trans [OF ns(1) sends_basic(1)] s' by blast
qed

lemma close_all_loop_events:
  assumes "wsl_inv s" "locked s" "active_index s = -1" "close_all_loop H flags s = Inr s'"
  shows "\<exists>ns. sends s ns s' \<and> (\<forall>W. overlay_inv W \<longrightarrow> in_step s W \<longrightarrow> as_events E ns W)"
  using assms
proof (induction "length (tabs s)" arbitrary: s)
  case 0
  then have "s' = s" by (simp add: close_all_loop.simps empty_def tabs_def)
  then show ?case by (intro exI [of _ "[]"]) (simp add: sends_same as_events_none)
next
  case (Suc n)
  have last: "ContainsIndex s (count s - 1)" "\<not> empty s" "active_index s \<noteq> count s - 1"
    using Suc.hyps(2) Suc.prems(3) by (auto simp: ContainsIndex_def count_tabs empty_def tabs_def)
  obtain t where t: "CloseWebStateAtImpl H (count s - 1) flags s = Inr t" "wsl_inv t"
    "same_frame s t" "tabs t = remove_at (nat (count s - 1)) (tabs s)" "active_tab t = active_tab s"
    using CloseWebStateAtImpl_ok [OF Suc.prems(1,2) last(1)] last(3) by metis
  have s': "close_all_loop H flags t = Inr s'" using Suc.prems(4) t(1) last(2) by (simp add: close_all_loop.simps [of H flags s])
  have "n = length (tabs t)" using t(4) Suc.hyps(2) by (simp add: count_tabs)
  moreover have "active_index t = -1" using t(5) Suc.prems(3) by (simp add: active_tab_def split: if_splits)
  moreover have "locked t" using t(3) Suc.prems(2) by (simp add: same_frame_def)
  ultimately obtain ms where ms: "sends t ms s'" "\<And>V. overlay_inv V \<Longrightarrow> in_step t V \<Longrightarrow> as_events E ms V"
    using Suc.hyps(1) t(2) s' by blast
  obtain ns where ns: "sends s ns t" using CloseWebStateAtImpl_sends [OF t(1)] by blast
  have "as_events E (ns @ ms) W" if W: "overlay_inv W" "in_step s W" for W
  proof (rule as_events_append [OF W(1)])
    obtain ns' where "sends s ns' t" "as_events E ns' W"
      using close_op_events [OF W Suc.prems(1,2) last(1) t(1)] by blast
    then show "as_events E ns W" using sends_sent ns by metis
    show "as_events E ms V" if "overlay_inv V" "notify_all E ns W = Inr V" for V
      using that ms(2) in_step_after [OF W(2) ns Suc.prems(1) t(2)] by blast
  qed
  then show ?case using sends_trans [OF ns ms(1)] by blast
qed

lemma close_all_events:
  assumes inv: "overlay_inv W" and step: "in_step s W" and wf: "wsl_inv s" "locked s" "\<not> batch_operation_in_progress s"
    and exec: "CloseAllWebStatesImpl H flags s = Inr s'"
  shows "\<exists>ns. sends s ns s' \<and> as_events E ns W"
proof -
  define b where "b = notify WillBeginBatchOperation (s\<lparr>batch_operation_in_progress := True\<rparr>)"
  obtain a c where a: "ActivateWebStateAtImpl (-1) Closed b = Inr a" and c: "close_all_loop H flags a = Inr c"
    and s': "s' = (notify BatchOperationEnded c)\<lparr>batch_operation_in_progress := False\<rparr>"
    using exec by (auto simp: CloseAllWebStatesImpl_def PerformBatchOperation_def res_simps Let_def b_def)
  have b: "wsl_inv b" "locked b" "tabs b = tabs s" "active_tab b = active_tab s"
    using wsl_inv_frame [OF wf(1), of b] wf(2) by (simp_all add: b_def)
  obtain a' where "ActivateWebStateAtImpl (-1) Closed b = Inr a'" "wsl_inv a'" "same_frame b a'" "active_index a' = -1"
    using ActivateWebStateAtImpl_ok [OF b(1,2)] by metis
  with a b(2) have a': "wsl_inv a" "locked a" "active_index a = -1" by (simp_all add: same_frame_def)
  have sb: "sends s [WillBeginBatchOperation] b"
    unfolding b_def by (rule sends_frame [OF sends_basic(1)]) simp_all
  have stepb: "in_step b W" using step b(3,4) by (simp add: in_step_def)
  obtain ns where ns: "sends b ns a" "activation Closed ns" using ActivateWebStateAtImpl_sends [OF a] by blast
  have ev: "as_events E ns W"
  proof (rule activation_events [OF inv stepb ns b(1) a'(1)])
    show "overlay_asked NoTabActive W" by simp
    show "overlay_exec E NoTabActive W = SetActiveWebState E (active_tab a) Closed W"
      using a'(3) by (simp add: notify_all_single active_tab_def del: notify_all.simps(2))
  qed
  obtain ms where ms: "sends a ms c" "\<And>V. overlay_inv V \<Longrightarrow> in_step a V \<Longrightarrow> as_events E ms V"
    using close_all_loop_events [OF a' c] by blast
  have "as_events E (ns @ ms) W"
    using in_step_after [OF stepb ns(1) b(1) a'(1)] ms(2) by (intro as_events_append [OF inv ev]) blast
  then have "as_events E ((ns @ ms) @ [BatchOperationEnded]) W"
    by (rule as_events_append [OF inv]) (simp add: as_events_none)
  moreover have "notify_all E (WillBeginBatchOperation # ks) W = notify_all E ks W" for ks by simp
  ultimately have "as_events E (WillBeginBatchOperation # ns @ ms @ [BatchOperationEnded]) W"
    unfolding as_events_def by simp
  moreover have "sends c [BatchOperationEnded] s'" unfolding s' by (rule sends_frame [OF sends_basic(1)]) simp_all
  then have "sends s (WillBeginBatchOperation # ns @ ms @ [BatchOperationEnded]) s'"
    using sends_trans [OF sb sends_trans [OF ns(1) sends_trans [OF ms(1)]]] by simp
  ultimately show ?thesis by blast
qed

text \<open>The public operations lock the list first; the lock is invisible to the presenter.\<close>

definition announces :: "overlay_env \<Rightarrow> web_state_list \<Rightarrow> web_state_list \<Rightarrow> overlay_world \<Rightarrow> bool" where
  "announces E s s' W \<longleftrightarrow> (\<exists>ns. sends s ns s' \<and> as_events E ns W)"

lemma announcesI:
  assumes "sends (s\<lparr>locked := True\<rparr>) ns t" "as_events E ns W"
  shows "announces E s (t\<lparr>locked := False\<rparr>) W"
  using sends_frame [OF assms(1), of s "t\<lparr>locked := False\<rparr>"] assms(2) by (auto simp: announces_def)

lemma announces_nothing: "sends s [] s' \<Longrightarrow> announces E s s' W"
  unfolding announces_def using as_events_none [of E "[]" W] by auto

lemma in_step_locked: "in_step s W \<Longrightarrow> wsl_open b s \<Longrightarrow> in_step (s\<lparr>locked := True\<rparr>) W"
  using wsl_open_locked(5,6) by (simp add: in_step_def)

lemma InsertWebState_announces:
  assumes "wsl_open b s" "overlay_inv W" "in_step s W" "insert_pre j w flags op s" "InsertWebState H j w flags op s = Inr (s', i)"
    and "comes_fresh w W"
  shows "announces E s s' W"
proof -
  note l = wsl_open_locked [OF assms(1)] and step = in_step_locked [OF assms(3,1)]
  let ?l = "s\<lparr>locked := True\<rparr>" and ?act = "IsInsertionFlagSet flags INSERT_ACTIVATE"
  obtain t where t: "InsertWebStateImpl H j w flags op ?l = Inr (t, i)" "s' = t\<lparr>locked := False\<rparr>"
    using assms(5) l(4) by (auto simp: InsertWebState_def res_simps)
  have "insert_pre j w flags op ?l" using assms(4) l(9) by simp
  then have r: "wsl_inv t" "0 \<le> i" "i \<le> count ?l" "active_tab t = (if ?act then Some w else active_tab ?l)"
    using InsertWebStateImpl_ok [OF l(1,2), of j w flags op H] t(1) by (metis Inr_inject prod.inject)+
  obtain ms where ms: "sends ?l (WebStateInsertedAt w i ?act # ms) t" "if ?act then activation Inserted ms else ms = []"
    using InsertWebStateImpl_sends [OF t(1)] by blast
  have "as_events E (WebStateInsertedAt w i ?act # ms) W"
    by (rule insert_events [OF assms(2) step l(1) r ms assms(6)])
  then show ?thesis unfolding t(2) by (rule announcesI [OF ms(1)])
qed

lemma MoveWebStateAt_announces:
  assumes "wsl_open b s" "overlay_inv W" "in_step s W" "ContainsIndex s i" "ContainsIndex s j" "MoveWebStateAt i j s = Inr s'"
  shows "announces E s s' W"
proof -
  note l = wsl_open_locked [OF assms(1)] and step = in_step_locked [OF assms(3,1)]
  let ?l = "s\<lparr>locked := True\<rparr>"
  obtain t where t: "MoveWebStateAtImpl i j ?l = Inr t" "s' = t\<lparr>locked := False\<rparr>"
    using assms(6) l(4) by (auto simp: MoveWebStateAt_def res_simps)
  have c: "ContainsIndex ?l i" "ContainsIndex ?l j" using assms(4,5) l(7) by simp_all
  have "as_events E (if i = j then [] else [WebStateMoved (tabs ?l ! nat i) i j]) W"
    using move_events [OF assms(2) step c] as_events_none [of E "[]"] by simp
  then show ?thesis
    unfolding t(2) by (rule announcesI [OF MoveWebStateAtImpl_sends [OF t(1), unfolded tab_at [OF c(1)]]])
qed

lemma ReplaceWebStateAt_announces:
  assumes "wsl_open b s" "overlay_inv W" "in_step s W" "ContainsIndex s i" "w \<notin> set (tabs s)"
    and "ReplaceWebStateAt i w s = Inr (s', old)" "comes_fresh w W"
  shows "announces E s s' W"
proof -
  note l = wsl_open_locked [OF assms(1)] and step = in_step_locked [OF assms(3,1)]
  let ?l = "s\<lparr>locked := True\<rparr>"
  obtain t where t: "ReplaceWebStateAtImpl i w ?l = Inr (t, old)" "s' = t\<lparr>locked := False\<rparr>"
    using assms(6) l(4) by (auto simp: ReplaceWebStateAt_def res_simps)
  have c: "ContainsIndex ?l i" "w \<notin> set (tabs ?l)" using assms(4,5) l(5,7) by simp_all
  have r: "wsl_inv t" "tabs t = (tabs ?l)[nat i := w]" "old = tabs ?l ! nat i"
    using ReplaceWebStateAtImpl_ok [OF l(1,2) c] t(1) by auto
  obtain ms where ms: "sends ?l (WebStateReplacedAt old w i # ms) t" "activation Replaced ms"
      "active_index t = active_index ?l"
    using ReplaceWebStateAtImpl_sends [OF t(1)] by blast
  have "as_events E (WebStateReplacedAt old w i # ms) W"
    by (rule replace_events [OF assms(2) step l(1) r(1) c(1) r(2) ms(3,1) r(3) ms(2) assms(7)])
  then show ?thesis unfolding t(2) by (rule announcesI [OF ms(1)])
qed

lemma removal_announces:
  assumes "wsl_open b s" "overlay_inv W" "in_step s W" "ContainsIndex s i"
  shows "DetachWebStateAt H i s = Inr (s', v) \<Longrightarrow> announces E s s' W"
    and "CloseWebStateAt H i flags s = Inr s' \<Longrightarrow> announces E s s' W"
proof -
  note l = wsl_open_locked [OF assms(1)] and step = in_step_locked [OF assms(3,1)]
  let ?l = "s\<lparr>locked := True\<rparr>"
  have c: "ContainsIndex ?l i" using assms(4) l(7) by simp
  show "announces E s s' W" if exec: "DetachWebStateAt H i s = Inr (s', v)"
  proof -
    obtain t where t: "DetachWebStateAtImpl H i ?l = Inr (t, v)" "s' = t\<lparr>locked := False\<rparr>"
      using exec l(4) by (auto simp: DetachWebStateAt_def res_simps)
    obtain e ns where ns: "sends ?l ns t" "overlay_asked e W" "notify_all E ns W = overlay_exec E e W"
      using detach_op_events [OF assms(2) step l(1,2) c t(1)] .
    show ?thesis unfolding t(2) by (rule announcesI [OF ns(1) as_events_one [OF assms(2) ns(2,3)]])
  qed
  show "announces E s s' W" if exec: "CloseWebStateAt H i flags s = Inr s'"
  proof -
    obtain t where t: "CloseWebStateAtImpl H i flags ?l = Inr t" "s' = t\<lparr>locked := False\<rparr>"
      using exec l(4) by (auto simp: CloseWebStateAt_def res_simps)
    show ?thesis
      unfolding t(2) using close_op_events [OF assms(2) step l(1,2) c t(1)] announcesI by blast
  qed
qed

lemma CloseAllWebStates_announces:
  assumes "wsl_open False s" "overlay_inv W" "in_step s W" "CloseAllWebStates H flags s = Inr s'"
  shows "announces E s s' W"
proof -
  note l = wsl_open_locked [OF assms(1)] and step = in_step_locked [OF assms(3,1)]
  let ?l = "s\<lparr>locked := True\<rparr>"
  obtain t where t: "CloseAllWebStatesImpl H flags ?l = Inr t" "s' = t\<lparr>locked := False\<rparr>"
    using assms(4) l(4) by (auto simp: CloseAllWebStates_def res_simps)
  have "\<not> batch_operation_in_progress ?l" using l(3) by simp
  from close_all_events [OF assms(2) step l(1,2) this t(1)] show ?thesis unfolding t(2) using announcesI by blast
qed

lemma ActivateWebStateAt_announces:
  assumes "wsl_open b s" "overlay_inv W" "in_step s W" "ContainsIndex s i" "ActivateWebStateAt i s = Inr s'"
  shows "announces E s s' W"
proof -
  note l = wsl_open_locked [OF assms(1)] and step = in_step_locked [OF assms(3,1)]
  let ?l = "s\<lparr>locked := True\<rparr>" and ?w = "tabs s ! nat i"
  obtain t where t: "ActivateWebStateAtImpl i Activated ?l = Inr t" "s' = t\<lparr>locked := False\<rparr>"
    using assms(4,5) l(4) by (auto simp: ActivateWebStateAt_def res_simps)
  have r: "wsl_inv t" "active_tab t = Some ?w"
    using ActivateWebStateAt_ok [OF assms(1,4)] assms(5) wsl_inv_frame(1) [of s' t] wsl_inv_frame(3) [of s' t] t(2) by (auto simp: wsl_open_def)
  obtain ns where ns: "sends ?l ns t" "activation Activated ns" using ActivateWebStateAtImpl_sends [OF t(1)] by blast
  have "as_events E ns W"
  proof (rule activation_events [OF assms(2) step ns l(1) r(1)])
    show "overlay_asked (TabActivated ?w) W" using in_stepD [OF assms(3)] in_range [OF assms(4)] by simp
    show "overlay_exec E (TabActivated ?w) W = SetActiveWebState E (active_tab t) Activated W"
      by (simp add: r(2) notify_all_single del: notify_all.simps(2))
  qed
  then show ?thesis unfolding t(2) by (rule announcesI [OF ns(1)])
qed

lemma batch_announces: "BeginBatch s = Inr s' \<Longrightarrow> announces E s s' W" "announces E s (EndBatch s) W"
proof -
  have e: "as_events E [WillBeginBatchOperation] W" "as_events E [BatchOperationEnded] W" by (simp_all add: as_events_none)
  have "sends s [WillBeginBatchOperation] (notify WillBeginBatchOperation (s\<lparr>batch_operation_in_progress := True\<rparr>))"
    by (rule sends_frame [OF sends_basic(1)]) simp_all
  then show "announces E s s' W" if "BeginBatch s = Inr s'"
    using that e(1) by (auto simp: announces_def BeginBatch_def res_simps)
  have "sends s [BatchOperationEnded] (EndBatch s)"
    unfolding EndBatch_def by (rule sends_frame [OF sends_basic(1)]) simp_all
  then show "announces E s (EndBatch s) W" using e(2) by (auto simp: announces_def)
qed

lemma operation_announces:
  assumes "wsl_between s" "overlay_inv W" "in_step s W" "wsl_op_pre op s" "tab_op_asked op W" "wsl_exec H op s = Inr s'"
  shows "announces E s s' W"
proof -
  note o = assms(1) [unfolded wsl_between_open]
  show ?thesis
  proof (cases op)
    case (OpInsert j w flags opn)
    then show ?thesis using assms o by (auto simp: res_simps intro: InsertWebState_announces)
  next
    case (OpMove i j)
    then show ?thesis using assms o by (auto intro: MoveWebStateAt_announces)
  next
    case (OpReplace i w)
    then show ?thesis using assms o by (auto simp: res_simps intro: ReplaceWebStateAt_announces)
  next
    case (OpDetach i)
    then obtain v where "DetachWebStateAt H i s = Inr (s', v)" using assms(6) by (auto simp: res_simps)
    then show ?thesis using removal_announces(1) [OF o assms(2,3)] assms(4) OpDetach by simp
  next
    case (OpClose i flags)
    then show ?thesis using removal_announces(2) [OF o assms(2,3)] assms(4,6) by simp
  next
    case (OpCloseAll flags)
    then show ?thesis using CloseAllWebStates_announces [of s W H flags] assms o by simp
  next
    case (OpActivate i)
    then show ?thesis using ActivateWebStateAt_announces [OF o assms(2,3)] assms by simp
  next
    case (OpSetOpener i opn)
    then show ?thesis using assms(6) SetOpenerOfWebStateAt_sends announces_nothing by simp
  next
    case (OpAddObserver ob)
    then show ?thesis using assms(6) by (auto simp: AddObserver_def res_simps intro!: announces_nothing sends_same)
  next
    case (OpRemoveObserver ob)
    then show ?thesis using assms(6) by (auto simp: RemoveObserver_def intro!: announces_nothing sends_same)
  qed (use assms(6) batch_announces in auto)
qed

section \<open>The window: a tab list with an overlay presenter\<close>

type_synonym browser = "web_state_list \<times> overlay_world"

datatype browser_event = TabOperation heap wsl_op | OverlayEvent overlay_event

fun browser_exec :: "overlay_env \<Rightarrow> browser_event \<Rightarrow> browser \<Rightarrow> browser res" where
  "browser_exec E (TabOperation H op) (s, W) = rbind (wsl_exec H op s) (\<lambda>s'.
     rbind (notify_all E (sent s s') W) (\<lambda>W'. Inr (s', W')))"
| "browser_exec E (OverlayEvent e) (s, W) = rbind (overlay_exec E e W) (\<lambda>W'. Inr (s, W'))"

fun browser_asked :: "browser_event \<Rightarrow> browser \<Rightarrow> bool" where
  "browser_asked (TabOperation H op) (s, W) \<longleftrightarrow> wsl_op_pre op s \<and> tab_op_asked op W"
| "browser_asked (OverlayEvent e) (s, W) \<longleftrightarrow> \<not> changes_tabs e \<and> overlay_asked e W"

definition new_browser :: "browser \<Rightarrow> bool" where
  "new_browser B \<longleftrightarrow> fst B = empty_web_state_list \<and> overlay_start (snd B)"

definition browser_link :: "browser \<Rightarrow> bool" where
  "browser_link B \<longleftrightarrow> wsl_between (fst B) \<and> in_step (fst B) (snd B)"

abbreviation browser_reachable :: "overlay_env \<Rightarrow> browser \<Rightarrow> bool" where
  "browser_reachable E \<equiv> reachable_from new_browser browser_asked (browser_exec E)"

text \<open>
  What a step of the window is for the presenter: a sequence of allowed events, after which the window is
  in step again, or at the end of which the active tab would change too early.
\<close>

definition browser_step :: "overlay_env \<Rightarrow> browser \<Rightarrow> browser res \<Rightarrow> bool" where
  "browser_step E B result \<longleftrightarrow> (\<exists>es. overlay_allowed E es (snd B) \<and>
     (case result of Inr B' \<Rightarrow> overlay_run E es (snd B) = Inr (snd B') \<and> browser_link B'
      | Inl er \<Rightarrow> fails_early E es (snd B) er))"

lemma tab_operation_simulates:
  assumes "browser_link (s, W)" "overlay_inv W" "browser_asked (TabOperation H op) (s, W)"
  shows "browser_step E (s, W) (browser_exec E (TabOperation H op) (s, W))"
proof -
  have a: "wsl_between s" "in_step s W" "wsl_op_pre op s" "tab_op_asked op W"
    using assms(1,3) by (simp_all add: browser_link_def)
  obtain s' where s': "wsl_exec H op s = Inr s'" "wsl_between s'" using wsl_exec_ok [OF a(1,3)] by blast
  obtain ns where ns: "sends s ns s'" "as_events E ns W"
    using operation_announces [OF a(1) assms(2) a(2-4) s'(1)] by (auto simp: announces_def)
  have "browser_link (s', W')" if "notify_all E ns W = Inr W'" for W'
    using in_step_after [OF a(2) ns(1) _ _ that] a(1) s'(2) by (simp add: wsl_between_def browser_link_def)
  then show ?thesis
    using s' ns(2) sends_sent [OF ns(1)] by (cases "notify_all E ns W") (auto simp: as_events_def browser_step_def)
qed

lemma overlay_event_simulates:
  assumes "browser_link (s, W)" "overlay_inv W" "browser_asked (OverlayEvent e) (s, W)"
  shows "browser_step E (s, W) (browser_exec E (OverlayEvent e) (s, W))"
proof -
  have a: "\<not> changes_tabs e" "overlay_asked e W" using assms(3) by simp_all
  have "\<not> changes_active_tab e W" using a(1) by (cases e) simp_all
  then have pre: "overlay_pre e W" using a(2) by simp
  then obtain W' where W': "overlay_exec E e W = Inr W'" using overlay_exec_inv [OF assms(2)] by blast
  then have "browser_link (s, W')"
    using assms(1) other_event_view [OF a(1) W'] by (simp add: browser_link_def in_step_def)
  then show ?thesis unfolding browser_step_def using W' pre by (intro exI [of _ "[e]"]) simp
qed

lemma browser_steps:
  assumes "browser_link B" "overlay_inv (snd B)" "browser_asked x B"
  shows "browser_step E B (browser_exec E x B)"
  using assms tab_operation_simulates overlay_event_simulates by (cases B; cases x) auto

interpretation browser: event_simulation overlay_start overlay_pre "overlay_exec E" overlay_inv
    new_browser browser_asked "browser_exec E" snd browser_link for E
proof unfold_locales
  fix B :: browser and x B'
  show "overlay_start (snd B) \<and> browser_link B" if "new_browser B"
    using that wsl_idle_empty
    by (auto simp: new_browser_def browser_link_def in_step_def tabs_view_def initial_overlay_world_def
        empty_web_state_list_def tabs_def active_tab_def wsl_idle_def wsl_between_def)
  show "\<exists>es. overlay_allowed E es (snd B) \<and> overlay_run E es (snd B) = Inr (snd B') \<and> browser_link B'"
    if "browser_link B" "overlay_inv (snd B)" "browser_asked x B" "browser_exec E x B = Inr B'"
    using browser_steps [OF that(1-3), of E] that(4) by (auto simp: browser_step_def)
qed

end
