(* ===== verification/Referrer.thy ===== *)
theory Referrer
  imports Prelude
begin

text \<open>
  Referrer policies (\<^verbatim>\<open>web/common/referrer_util.cc\<close>, \<^verbatim>\<open>web/public/navigation/referrer.h\<close>):
  the value of the \<^verbatim>\<open>Referer\<close> header of a navigation, the policy handed to the network stack for
  the redirects that may follow, and the policy named by a page.

  URLs belong to \<^verbatim>\<open>url/gurl.h\<close>, which is not part of the repository; what is used of them are
  the fields of \<open>gurl_ops\<close>.
\<close>

record 'u gurl_ops =
  SchemeIsCryptographic :: "'u \<Rightarrow> bool"
  GetAsReferrer :: "'u \<Rightarrow> 'u"
  DeprecatedGetOriginAsURL :: "'u \<Rightarrow> 'u"
  url_spec :: "'u \<Rightarrow> string"

datatype ReferrerPolicy =
    ReferrerPolicyAlways
  | ReferrerPolicyDefault
  | ReferrerPolicyNoReferrerWhenDowngrade
  | ReferrerPolicyNever
  | ReferrerPolicyOrigin
  | ReferrerPolicyOriginWhenCrossOrigin
  | ReferrerPolicySameOrigin
  | ReferrerPolicyStrictOrigin
  | ReferrerPolicyStrictOriginWhenCrossOrigin

record 'u referrer =
  referrer_url :: 'u
  referrer_policy :: ReferrerPolicy

text \<open>\<^verbatim>\<open>net::ReferrerPolicy\<close>.\<close>

datatype net_referrer_policy =
    CLEAR_ON_TRANSITION_FROM_SECURE_TO_INSECURE
  | REDUCE_GRANULARITY_ON_TRANSITION_CROSS_ORIGIN
  | ORIGIN_ONLY_ON_TRANSITION_CROSS_ORIGIN
  | NEVER_CLEAR
  | ORIGIN
  | CLEAR_ON_TRANSITION_CROSS_ORIGIN
  | ORIGIN_CLEAR_ON_TRANSITION_FROM_SECURE_TO_INSECURE
  | NO_REFERRER

definition is_downgrade :: "'u gurl_ops \<Rightarrow> 'u \<Rightarrow> 'u \<Rightarrow> bool" where
  "is_downgrade G destination url \<longleftrightarrow>
     SchemeIsCryptographic G url \<and> \<not> SchemeIsCryptographic G destination"

definition cross_origin :: "'u gurl_ops \<Rightarrow> 'u \<Rightarrow> 'u \<Rightarrow> bool" where
  "cross_origin G destination url \<longleftrightarrow>
     DeprecatedGetOriginAsURL G url \<noteq> DeprecatedGetOriginAsURL G destination"

definition ReferrerHeaderValueForNavigation :: "'u gurl_ops \<Rightarrow> 'u \<Rightarrow> 'u referrer \<Rightarrow> string" where
  "ReferrerHeaderValueForNavigation G destination referrer =
     (let url = referrer_url referrer;
          downgrade = is_downgrade G destination url;
          whole = url_spec G (GetAsReferrer G url);
          origin = url_spec G (DeprecatedGetOriginAsURL G url)
      in case referrer_policy referrer of
           ReferrerPolicyAlways \<Rightarrow> whole
         | ReferrerPolicyNever \<Rightarrow> []
         | ReferrerPolicyOrigin \<Rightarrow> origin
         | ReferrerPolicyDefault \<Rightarrow> if downgrade then [] else whole
         | ReferrerPolicyNoReferrerWhenDowngrade \<Rightarrow> if downgrade then [] else whole
         | ReferrerPolicyOriginWhenCrossOrigin \<Rightarrow>
             if cross_origin G destination url then origin else whole
         | ReferrerPolicySameOrigin \<Rightarrow> if cross_origin G destination url then [] else whole
         | ReferrerPolicyStrictOrigin \<Rightarrow> if downgrade then [] else origin
         | ReferrerPolicyStrictOriginWhenCrossOrigin \<Rightarrow>
             if downgrade then [] else if cross_origin G destination url then origin else whole)"

definition PolicyForNavigation :: "'u \<Rightarrow> 'u referrer \<Rightarrow> net_referrer_policy" where
  "PolicyForNavigation destination referrer =
     (case referrer_policy referrer of
        ReferrerPolicyAlways \<Rightarrow> NEVER_CLEAR
      | ReferrerPolicyNever \<Rightarrow> NO_REFERRER
      | ReferrerPolicyOrigin \<Rightarrow> ORIGIN
      | ReferrerPolicyNoReferrerWhenDowngrade \<Rightarrow> CLEAR_ON_TRANSITION_FROM_SECURE_TO_INSECURE
      | ReferrerPolicyDefault \<Rightarrow> CLEAR_ON_TRANSITION_FROM_SECURE_TO_INSECURE
      | ReferrerPolicyOriginWhenCrossOrigin \<Rightarrow> ORIGIN_ONLY_ON_TRANSITION_CROSS_ORIGIN
      | ReferrerPolicySameOrigin \<Rightarrow> CLEAR_ON_TRANSITION_CROSS_ORIGIN
      | ReferrerPolicyStrictOrigin \<Rightarrow> ORIGIN_CLEAR_ON_TRANSITION_FROM_SECURE_TO_INSECURE
      | ReferrerPolicyStrictOriginWhenCrossOrigin \<Rightarrow> REDUCE_GRANULARITY_ON_TRANSITION_CROSS_ORIGIN)"

definition ReferrerPolicyFromString :: "string \<Rightarrow> ReferrerPolicy" where
  "ReferrerPolicyFromString policy =
     (if policy = ''never'' \<or> policy = ''no-referrer'' then ReferrerPolicyNever
      else if policy = ''origin'' then ReferrerPolicyOrigin
      else if policy = ''default'' \<or> policy = ''no-referrer-when-downgrade''
        then ReferrerPolicyNoReferrerWhenDowngrade
      else if policy = ''origin-when-cross-origin'' then ReferrerPolicyOriginWhenCrossOrigin
      else if policy = ''always'' \<or> policy = ''unsafe-url'' then ReferrerPolicyAlways
      else if policy = ''same-origin'' then ReferrerPolicySameOrigin
      else if policy = ''strict-origin'' then ReferrerPolicyStrictOrigin
      else if policy = ''strict-origin-when-cross-origin'' then ReferrerPolicyStrictOriginWhenCrossOrigin
      else ReferrerPolicyDefault)"

section \<open>Properties\<close>

text \<open>What each policy of the network stack allows to be sent, as its documentation says.\<close>

fun net_referrer :: "'u gurl_ops \<Rightarrow> net_referrer_policy \<Rightarrow> 'u \<Rightarrow> 'u \<Rightarrow> string" where
  "net_referrer G CLEAR_ON_TRANSITION_FROM_SECURE_TO_INSECURE dest url =
     (if is_downgrade G dest url then [] else url_spec G (GetAsReferrer G url))"
| "net_referrer G REDUCE_GRANULARITY_ON_TRANSITION_CROSS_ORIGIN dest url =
     (if is_downgrade G dest url then []
      else url_spec G (if cross_origin G dest url then DeprecatedGetOriginAsURL G url else GetAsReferrer G url))"
| "net_referrer G ORIGIN_ONLY_ON_TRANSITION_CROSS_ORIGIN dest url =
     url_spec G (if cross_origin G dest url then DeprecatedGetOriginAsURL G url else GetAsReferrer G url)"
| "net_referrer G NEVER_CLEAR dest url = url_spec G (GetAsReferrer G url)"
| "net_referrer G ORIGIN dest url = url_spec G (DeprecatedGetOriginAsURL G url)"
| "net_referrer G CLEAR_ON_TRANSITION_CROSS_ORIGIN dest url =
     (if cross_origin G dest url then [] else url_spec G (GetAsReferrer G url))"
| "net_referrer G ORIGIN_CLEAR_ON_TRANSITION_FROM_SECURE_TO_INSECURE dest url =
     (if is_downgrade G dest url then [] else url_spec G (DeprecatedGetOriginAsURL G url))"
| "net_referrer G NO_REFERRER dest url = []"

text \<open>
  The two translations of a policy agree: the header sent with a navigation is what the
  policy given to the network stack for the rest of it allows.
\<close>

theorem referrer_translations_agree:
  "ReferrerHeaderValueForNavigation G destination r =
     net_referrer G (PolicyForNavigation destination r) destination (referrer_url r)"
  by (cases "referrer_policy r")
    (simp_all add: ReferrerHeaderValueForNavigation_def PolicyForNavigation_def Let_def)

text \<open>
  What the specification of referrer policies (\<^verbatim>\<open>w3c.github.io/webappsec-referrer-policy\<close>, which
  the code names) lets a page with a policy disclose: to its own origin, to another origin, and to an
  insecure destination if the page is secure.  The older tokens \<^verbatim>\<open>never\<close>, \<^verbatim>\<open>default\<close> and
  \<^verbatim>\<open>always\<close> are synonyms; with any other token the default holds.
\<close>

datatype disclosure = Nothing | OriginOnly | WholeAddress

definition policy_table :: "(string \<times> disclosure \<times> disclosure \<times> disclosure) list" where
  "policy_table =
     [(''no-referrer'',                      Nothing,      Nothing,      Nothing),
      (''never'',                            Nothing,      Nothing,      Nothing),
      (''no-referrer-when-downgrade'',       WholeAddress, WholeAddress, Nothing),
      (''default'',                          WholeAddress, WholeAddress, Nothing),
      (''same-origin'',                      WholeAddress, Nothing,      Nothing),
      (''origin'',                           OriginOnly,   OriginOnly,   OriginOnly),
      (''strict-origin'',                    OriginOnly,   OriginOnly,   Nothing),
      (''origin-when-cross-origin'',         WholeAddress, OriginOnly,   OriginOnly),
      (''strict-origin-when-cross-origin'',  WholeAddress, OriginOnly,   Nothing),
      (''unsafe-url'',                       WholeAddress, WholeAddress, WholeAddress),
      (''always'',                           WholeAddress, WholeAddress, WholeAddress)]"

definition token_disclosures :: "string \<Rightarrow> disclosure \<times> disclosure \<times> disclosure" where
  "token_disclosures token =
     (case map_of policy_table token of Some row \<Rightarrow> row | None \<Rightarrow> (WholeAddress, WholeAddress, Nothing))"

definition allowed_by :: "'u gurl_ops \<Rightarrow> string \<Rightarrow> 'u \<Rightarrow> 'u \<Rightarrow> disclosure" where
  "allowed_by G token dest url =
     (case token_disclosures token of
        (same, cross, downgrade) \<Rightarrow>
          if is_downgrade G dest url then downgrade else if cross_origin G dest url then cross else same)"

fun disclose :: "'u gurl_ops \<Rightarrow> disclosure \<Rightarrow> 'u \<Rightarrow> string" where
  "disclose G Nothing url = []"
| "disclose G OriginOnly url = url_spec G (DeprecatedGetOriginAsURL G url)"
| "disclose G WholeAddress url = url_spec G (GetAsReferrer G url)"

definition policy_rows :: "(ReferrerPolicy \<times> disclosure \<times> disclosure \<times> disclosure) set" where
  "policy_rows =
     {(ReferrerPolicyNever, Nothing, Nothing, Nothing),
      (ReferrerPolicyNoReferrerWhenDowngrade, WholeAddress, WholeAddress, Nothing),
      (ReferrerPolicyDefault, WholeAddress, WholeAddress, Nothing),
      (ReferrerPolicySameOrigin, WholeAddress, Nothing, Nothing),
      (ReferrerPolicyOrigin, OriginOnly, OriginOnly, OriginOnly),
      (ReferrerPolicyStrictOrigin, OriginOnly, OriginOnly, Nothing),
      (ReferrerPolicyOriginWhenCrossOrigin, WholeAddress, OriginOnly, OriginOnly),
      (ReferrerPolicyStrictOriginWhenCrossOrigin, WholeAddress, OriginOnly, Nothing),
      (ReferrerPolicyAlways, WholeAddress, WholeAddress, WholeAddress)}"

lemma token_row:
  "(ReferrerPolicyFromString token, token_disclosures token) \<in> policy_rows"
proof (cases "token \<in> set (map fst policy_table)")
  case True
  then show ?thesis
    unfolding policy_table_def list.map set_simps fst_conv
    by (elim insertE emptyE) (simp_all add: ReferrerPolicyFromString_def token_disclosures_def policy_table_def policy_rows_def)
next
  case False
  then have none: "map_of policy_table token = None" by (simp add: map_of_eq_None_iff)
  have "ReferrerPolicyFromString token = ReferrerPolicyDefault"
    using False unfolding policy_table_def list.map set_simps fst_conv insert_iff ReferrerPolicyFromString_def
    by (simp only: de_Morgan_disj if_False simp_thms)
  then show ?thesis unfolding token_disclosures_def none by (simp add: policy_rows_def)
qed

lemma header_of_row:
  assumes "(policy, same, cross, downgrade) \<in> policy_rows" "\<not> cross_origin G dest url \<Longrightarrow> \<not> is_downgrade G dest url"
  shows "ReferrerHeaderValueForNavigation G dest \<lparr>referrer_url = url, referrer_policy = policy\<rparr> =
    disclose G (if is_downgrade G dest url then downgrade else if cross_origin G dest url then cross else same) url"
  using assms(1) unfolding policy_rows_def
  by (elim insertE emptyE) (use assms(2) in \<open>auto simp: ReferrerHeaderValueForNavigation_def Let_def\<close>)

text \<open>The origin of an address has its scheme.\<close>

definition origins_have_schemes :: "'u gurl_ops \<Rightarrow> bool" where
  "origins_have_schemes G \<longleftrightarrow> (\<forall>u v. DeprecatedGetOriginAsURL G u = DeprecatedGetOriginAsURL G v \<longrightarrow>
     SchemeIsCryptographic G u = SchemeIsCryptographic G v)"



end
