(* ===== verification/Navigation_Item.thy ===== *)
theory Navigation_Item
  imports Referrer "HOL-Library.Word" "HOL-Library.AList"
begin

unbundle bit_operations_syntax

text \<open>
  The parts the navigation manager is built on: the addresses it uses
  (\<^verbatim>\<open>web/navigation/wk_navigation_util.mm\<close>, \<^verbatim>\<open>web/browser_url_rewriter_impl.mm\<close>), the entries of the
  session history (\<^verbatim>\<open>web/navigation/navigation_item_impl.h\<close> and \<^verbatim>\<open>.mm\<close>) and their time stamps
  (\<^verbatim>\<open>web/navigation/time_smoother.cc\<close>).

  The record \<open>web_env\<close> has what belongs to other projects: the operations of \<^verbatim>\<open>GURL\<close>, escaping, JSON,
  formatting of titles, the constants of \<^verbatim>\<open>ui::PageTransition\<close>, and the embedder's
  \<^verbatim>\<open>IsAppSpecificURL\<close>.
\<close>

section \<open>The environment\<close>

type_synonym page_transition = "32 word"

record 'u web_env =
  gurl_empty :: 'u
  gurl_is_empty :: "'u \<Rightarrow> bool"
  gurl_is_valid :: "'u \<Rightarrow> bool"
  gurl_scheme :: "'u \<Rightarrow> string"
  gurl_path :: "'u \<Rightarrow> string"
  gurl_ref :: "'u \<Rightarrow> string"
  gurl_origin :: "'u \<Rightarrow> 'u"
  gurl_spec :: "'u \<Rightarrow> string"
  gurl_of_spec :: "string \<Rightarrow> 'u"
  gurl_with_ref :: "'u \<Rightarrow> string \<Rightarrow> 'u"
  gurl_equals_ignoring_ref :: "'u \<Rightarrow> 'u \<Rightarrow> bool"
  gurl_content :: "'u \<Rightarrow> string"
  escape_query_param :: "string \<Rightarrow> string"
  unescape_component :: "string \<Rightarrow> string"
  session_json :: "int \<Rightarrow> string list \<Rightarrow> string list \<Rightarrow> string"
  truncate_string :: "string \<Rightarrow> nat \<Rightarrow> string"
  format_url :: "'u \<Rightarrow> string"
  elide_string :: "string \<Rightarrow> nat \<Rightarrow> string"
  restore_session_base_url :: 'u
  is_app_specific_url :: "'u \<Rightarrow> bool"
  gurl_query_value :: "'u \<Rightarrow> string \<Rightarrow> string option"
  unescape_for_html :: "string \<Rightarrow> string"
  loaded_error_page_file_path :: string
  client_url_rewriters :: "('u \<Rightarrow> 'u option) list"
  PAGE_TRANSITION_LINK :: page_transition
  PAGE_TRANSITION_RELOAD :: page_transition
  PAGE_TRANSITION_FORM_SUBMIT :: page_transition
  PAGE_TRANSITION_FORWARD_BACK :: page_transition
  transition_core_type_is :: "page_transition \<Rightarrow> page_transition \<Rightarrow> bool"
  transition_is_redirect :: "page_transition \<Rightarrow> bool"

definition kFileScheme :: string where "kFileScheme = ''file''"
definition kAboutScheme :: string where "kAboutScheme = ''about''"
definition kViewSourceScheme :: string where "kViewSourceScheme = ''view-source''"

definition SchemeIs :: "'u web_env \<Rightarrow> 'u \<Rightarrow> string \<Rightarrow> bool" where
  "SchemeIs G url scheme \<longleftrightarrow> gurl_scheme G url = scheme"

section \<open>Time stamps\<close>

record time_smoother =
  low_water_mark :: int
  high_water_mark :: int

definition GetSmoothedTime :: "int \<Rightarrow> time_smoother \<Rightarrow> int \<times> time_smoother" where
  "GetSmoothedTime t s =
     (if low_water_mark s \<le> t \<and> t \<le> high_water_mark s
      then (high_water_mark s + 1, s\<lparr>high_water_mark := high_water_mark s + 1\<rparr>)
      else (t, s\<lparr>low_water_mark := t, high_water_mark := t\<rparr>))"

fun smoothed_times :: "int list \<Rightarrow> time_smoother \<Rightarrow> int list" where
  "smoothed_times [] s = []"
| "smoothed_times (t # ts) s = (let (u, s') = GetSmoothedTime t s in u # smoothed_times ts s')"

section \<open>Addresses\<close>

text \<open>\<^verbatim>\<open>BrowserURLRewriter\<close>: the first rewriter that knows the address decides.\<close>

fun RewriteURLWithWriters :: "('u \<Rightarrow> 'u option) list \<Rightarrow> 'u \<Rightarrow> 'u option" where
  "RewriteURLWithWriters [] url = None"
| "RewriteURLWithWriters (r # rs) url =
     (case r url of Some u \<Rightarrow> Some u | None \<Rightarrow> RewriteURLWithWriters rs url)"

definition HandleViewSource :: "'u web_env \<Rightarrow> 'u \<Rightarrow> 'u option" where
  "HandleViewSource G url =
     (if SchemeIs G url kViewSourceScheme then Some (gurl_of_spec G (gurl_content G url)) else None)"

definition RewriteURLIfNecessary :: "'u web_env \<Rightarrow> 'u \<Rightarrow> 'u option" where
  "RewriteURLIfNecessary G url = RewriteURLWithWriters (client_url_rewriters G @ [HandleViewSource G]) url"

definition kMaxSessionSize :: int where "kMaxSessionSize = 75"

definition kRestoreSessionSessionHashPrefix :: string where
  "kRestoreSessionSessionHashPrefix = ''session=''"

definition kRestoreSessionTargetUrlHashPrefix :: string where
  "kRestoreSessionTargetUrlHashPrefix = ''targetUrl=''"

text \<open>Returns the new last committed index, the offset and the size.\<close>

definition GetSafeItemRange :: "int \<Rightarrow> int \<Rightarrow> int \<times> int \<times> int" where
  "GetSafeItemRange last_committed_item_index item_count =
     (let size = min kMaxSessionSize item_count;
          offset = min (last_committed_item_index - kMaxSessionSize div 2) (item_count - kMaxSessionSize);
          offset = max offset 0
      in (last_committed_item_index - offset, offset, size))"

definition IsRestoreSessionUrl :: "'u web_env \<Rightarrow> 'u \<Rightarrow> bool" where
  "IsRestoreSessionUrl G url \<longleftrightarrow>
     SchemeIs G url kFileScheme \<and> gurl_path G url = gurl_path G (restore_session_base_url G)"

definition IsWKInternalUrl :: "'u web_env \<Rightarrow> 'u \<Rightarrow> bool" where
  "IsWKInternalUrl G url = IsRestoreSessionUrl G url"

text \<open>\<^verbatim>\<open>CRWErrorPageHelper\<close>: the address whose load failed, taken from the address of an error page.\<close>

definition kOriginalUrlKey :: string where "kOriginalUrlKey = ''url''"

definition failedNavigationURLFromErrorPageFileURL :: "'u web_env \<Rightarrow> 'u \<Rightarrow> 'u" where
  "failedNavigationURLFromErrorPageFileURL G url =
     (if \<not> gurl_is_valid G url then gurl_empty G
      else if SchemeIs G url kFileScheme \<and> gurl_path G url = loaded_error_page_file_path G
      then (case gurl_query_value G url kOriginalUrlKey of
              Some value \<Rightarrow> gurl_of_spec G (unescape_for_html G value)
            | None \<Rightarrow> gurl_empty G)
      else gurl_empty G)"

definition isErrorPageFileURL :: "'u web_env \<Rightarrow> 'u \<Rightarrow> bool" where
  "isErrorPageFileURL G url \<longleftrightarrow> gurl_is_valid G (failedNavigationURLFromErrorPageFileURL G url)"

definition URLNeedsUserAgentType :: "'u web_env \<Rightarrow> 'u \<Rightarrow> bool" where
  "URLNeedsUserAgentType G url =
     (if is_app_specific_url G url then False
      else if SchemeIs G url kAboutScheme then False
      else if SchemeIs G url kFileScheme \<and> IsRestoreSessionUrl G url then True
      else if SchemeIs G url kFileScheme \<and> isErrorPageFileURL G url then True
      else if SchemeIs G url kFileScheme then False
      else True)"

definition CreateRedirectUrl :: "'u web_env \<Rightarrow> 'u \<Rightarrow> 'u" where
  "CreateRedirectUrl G target_url =
     gurl_with_ref G (restore_session_base_url G)
       (kRestoreSessionTargetUrlHashPrefix @ escape_query_param G (gurl_spec G target_url))"

definition ExtractTargetURL :: "'u web_env \<Rightarrow> 'u \<Rightarrow> 'u option res" where
  "ExtractTargetURL G url =
     dcheck (IsRestoreSessionUrl G url) ''IsRestoreSessionUrl(restore_session_url)''
       (let n = length kRestoreSessionTargetUrlHashPrefix
        in Inr (if take n (gurl_ref G url) = kRestoreSessionTargetUrlHashPrefix
                then Some (gurl_of_spec G (unescape_component G (drop n (gurl_ref G url)))) else None))"

section \<open>Entries\<close>

datatype UserAgentType = UserAgentNONE | UserAgentAUTOMATIC | UserAgentMOBILE | UserAgentDESKTOP

datatype NavigationInitiationType = InitiationNONE | BROWSER_INITIATED | RENDERER_INITIATED

datatype HttpsUpgradeType = HttpsUpgradeNone | kHttpsOnlyMode | kOmnibox

type_synonym http_headers = "(string \<times> string) list"

record 'u nav_item =
  unique_id :: int
  original_request_url :: 'u
  item_url :: 'u
  item_referrer :: "'u referrer"
  virtual_url :: 'u
  item_title :: string
  page_display_state :: nat
  transition_type :: page_transition
  favicon_status :: nat
  ssl_status :: nat
  timestamp :: int
  user_agent_type :: UserAgentType
  http_request_headers :: "http_headers option"
  serialized_state_object :: "string option"
  is_created_from_hash_change :: bool
  should_skip_repost_form_confirmation :: bool
  should_skip_serialization :: bool
  post_data :: "string option"
  navigation_initiation_type :: NavigationInitiationType
  is_untrusted :: bool
  cached_display_title :: string
  https_upgrade_type :: HttpsUpgradeType

definition kMaxTitleLength :: nat where "kMaxTitleLength = 50"

definition EmptyReferrer :: "'u web_env \<Rightarrow> 'u referrer" where
  "EmptyReferrer G = \<lparr>referrer_url = gurl_empty G, referrer_policy = ReferrerPolicyDefault\<rparr>"

definition NavigationItemImpl :: "'u web_env \<Rightarrow> int \<Rightarrow> 'u nav_item" where
  "NavigationItemImpl G new_id =
     \<lparr>unique_id = new_id, original_request_url = gurl_empty G, item_url = gurl_empty G,
      item_referrer = EmptyReferrer G, virtual_url = gurl_empty G, item_title = [],
      page_display_state = 0, transition_type = PAGE_TRANSITION_LINK G, favicon_status = 0,
      ssl_status = 0, timestamp = 0, user_agent_type = UserAgentNONE, http_request_headers = None,
      serialized_state_object = None, is_created_from_hash_change = False,
      should_skip_repost_form_confirmation = False, should_skip_serialization = False,
      post_data = None, navigation_initiation_type = InitiationNONE, is_untrusted = False,
      cached_display_title = [], https_upgrade_type = HttpsUpgradeNone\<rparr>"

definition SetOriginalRequestURL :: "'u \<Rightarrow> 'u nav_item \<Rightarrow> 'u nav_item" where
  "SetOriginalRequestURL url item = item\<lparr>original_request_url := url\<rparr>"

definition SetURL :: "'u \<Rightarrow> 'u nav_item \<Rightarrow> 'u nav_item" where
  "SetURL url item = item\<lparr>item_url := url, cached_display_title := []\<rparr>"

definition SetVirtualURL :: "'u web_env \<Rightarrow> 'u \<Rightarrow> 'u nav_item \<Rightarrow> 'u nav_item" where
  "SetVirtualURL G url item =
     item\<lparr>virtual_url := (if url = item_url item then gurl_empty G else url), cached_display_title := []\<rparr>"

definition GetVirtualURL :: "'u web_env \<Rightarrow> 'u nav_item \<Rightarrow> 'u" where
  "GetVirtualURL G item = (if gurl_is_empty G (virtual_url item) then item_url item else virtual_url item)"

definition SetTitle :: "'u web_env \<Rightarrow> string \<Rightarrow> 'u nav_item \<Rightarrow> 'u nav_item" where
  "SetTitle G title item =
     (if item_title item = title then item
      else item\<lparr>item_title := (if length title > kMaxTitleLength
                               then truncate_string G title kMaxTitleLength else title),
                cached_display_title := []\<rparr>)"

text \<open>\<^verbatim>\<open>title.rfind('/')\<close>, and the file name after it.\<close>

definition after_last_slash :: "string \<Rightarrow> string" where
  "after_last_slash title =
     (let name = rev (takeWhile (\<lambda>c. c \<noteq> CHR ''/'') (rev title))
      in if CHR ''/'' \<in> set title \<and> name \<noteq> [] then name else title)"

definition GetDisplayTitleForURL :: "'u web_env \<Rightarrow> 'u \<Rightarrow> string" where
  "GetDisplayTitleForURL G url =
     (if gurl_is_empty G url then []
      else let title = format_url G url;
               title = (if SchemeIs G url kFileScheme then after_last_slash title else title)
           in elide_string G title (4 * 1024))"

definition GetTitleForDisplay :: "'u web_env \<Rightarrow> 'u nav_item \<Rightarrow> string \<times> 'u nav_item" where
  "GetTitleForDisplay G item =
     (if item_title item \<noteq> [] then (item_title item, item)
      else if cached_display_title item \<noteq> [] then (cached_display_title item, item)
      else let t = GetDisplayTitleForURL G
                     (if SchemeIs G (item_url item) kFileScheme then item_url item else GetVirtualURL G item)
           in (t, item\<lparr>cached_display_title := t\<rparr>))"

definition SetUserAgentType :: "'u web_env \<Rightarrow> UserAgentType \<Rightarrow> 'u nav_item \<Rightarrow> 'u nav_item res" where
  "SetUserAgentType G type item =
     dcheck ((\<not> URLNeedsUserAgentType G (item_url item)) = (type = UserAgentNONE))
       ''!URLNeedsUserAgentType(GetURL()) == (user_agent_type_ == UserAgentType::NONE)''
       (Inr (item\<lparr>user_agent_type := type\<rparr>))"

definition HasPostData :: "'u nav_item \<Rightarrow> bool" where
  "HasPostData item \<longleftrightarrow> post_data item \<noteq> None"

definition AddHttpRequestHeaders :: "http_headers option \<Rightarrow> 'u nav_item \<Rightarrow> 'u nav_item" where
  "AddHttpRequestHeaders additional item =
     (case additional of None \<Rightarrow> item
      | Some a \<Rightarrow> item\<lparr>http_request_headers := Some
          (case http_request_headers item of None \<Rightarrow> a | Some h \<Rightarrow> AList.merge h a)\<rparr>)"

definition RemoveHttpRequestHeaderForKey :: "string \<Rightarrow> 'u nav_item \<Rightarrow> 'u nav_item" where
  "RemoveHttpRequestHeaderForKey key item =
     (case http_request_headers item of None \<Rightarrow> item
      | Some h \<Rightarrow> item\<lparr>http_request_headers := (if AList.delete key h = [] then None else Some (AList.delete key h))\<rparr>)"

definition ResetForCommit :: "'u nav_item \<Rightarrow> 'u nav_item" where
  "ResetForCommit item = item\<lparr>navigation_initiation_type := InitiationNONE\<rparr>"

definition RestoreStateFromItem :: "'u web_env \<Rightarrow> 'u nav_item \<Rightarrow> 'u nav_item \<Rightarrow> 'u nav_item res" where
  "RestoreStateFromItem G other item =
     rbind (if user_agent_type other \<noteq> UserAgentNONE then SetUserAgentType G (user_agent_type other) item
            else Inr item) (\<lambda>item.
       Inr (if item_url item = item_url other
            then SetVirtualURL G (GetVirtualURL G other) (item\<lparr>page_display_state := page_display_state other\<rparr>)
            else item))"

text \<open>\<^verbatim>\<open>CreateRestoreSessionUrl\<close>: the address that replays a session, and the first entry it has.\<close>

definition CreateRestoreSessionUrl :: "'u web_env \<Rightarrow> int \<Rightarrow> 'u nav_item list \<Rightarrow> ('u \<times> int) res" where
  "CreateRestoreSessionUrl G last_committed_item_index items =
     dcheck (last_committed_item_index \<ge> 0 \<and> last_committed_item_index < int (length items))
       ''last_committed_item_index >= 0 && last_committed_item_index < items.size()''
       (let (new_last, offset, new_size) = GetSafeItemRange last_committed_item_index (int (length items));
            restored = take (nat new_size) (drop (nat offset) items);
            json = session_json G (new_last + 1 - new_size)
                     (map (\<lambda>i. gurl_spec G (item_url i)) restored) (map item_title restored)
        in Inr (gurl_with_ref G (restore_session_base_url G)
                  (kRestoreSessionSessionHashPrefix @ escape_query_param G json), offset))"

section \<open>Lemmas\<close>

lemma GetSmoothedTime_increases:
  assumes "low_water_mark s \<le> high_water_mark s" "low_water_mark s \<le> t"
  shows "case GetSmoothedTime t s of (u, s') \<Rightarrow> high_water_mark s < u \<and> t \<le> u \<and> high_water_mark s' = u \<and>
    low_water_mark s' \<le> t \<and> low_water_mark s' \<le> high_water_mark s'"
  using assms by (auto simp: GetSmoothedTime_def)

lemma smoothed_times_above:
  assumes "low_water_mark s \<le> high_water_mark s" "\<forall>t \<in> set ts. low_water_mark s \<le> t" "sorted ts"
  shows "sorted_wrt (<) (smoothed_times ts s) \<and> (\<forall>u \<in> set (smoothed_times ts s). high_water_mark s < u)"
  using assms
proof (induction ts arbitrary: s)
  case (Cons t ts)
  obtain u s' where g: "GetSmoothedTime t s = (u, s')" by fastforce
  then have u: "high_water_mark s < u" "high_water_mark s' = u" "low_water_mark s' \<le> t"
      "low_water_mark s' \<le> high_water_mark s'"
    using GetSmoothedTime_increases [of s t] Cons.prems by auto
  have "\<forall>t' \<in> set ts. low_water_mark s' \<le> t'" using Cons.prems(3) u(3) by auto
  then have "sorted_wrt (<) (smoothed_times ts s') \<and> (\<forall>v \<in> set (smoothed_times ts s'). u < v)"
    using Cons.IH [of s'] Cons.prems(3) u by simp
  then show ?case using u(1) g by auto
qed simp

lemma GetSafeItemRange_bounds:
  assumes "0 \<le> l" "l < n" "GetSafeItemRange l n = (l', offset, len)"
  shows "0 \<le> offset" "offset + len \<le> n" "len \<le> kMaxSessionSize" "0 \<le> l'" "l' < len" "l' + offset = l"
    "n \<le> kMaxSessionSize \<Longrightarrow> offset = 0 \<and> len = n"
  using assms by (auto simp: GetSafeItemRange_def kMaxSessionSize_def Let_def min_def max_def split: if_splits)

lemma GetSafeItemRange_nearest:
  assumes "0 \<le> l" "l < n" "GetSafeItemRange l n = (l', offset, len)" "0 \<le> j" "j < n" "\<bar>j - l\<bar> \<le> kMaxSessionSize div 2"
  shows "offset \<le> j" "j < offset + len"
  using assms by (auto simp: GetSafeItemRange_def kMaxSessionSize_def Let_def min_def max_def split: if_splits)

lemma RewriteURLWithWriters_first:
  "RewriteURLWithWriters rs url = (case filter (\<lambda>r. r url \<noteq> None) rs of [] \<Rightarrow> None | r # _ \<Rightarrow> r url)"
  by (induction rs) (auto split: option.split)

end
