(* ===== verification/Navigation_Manager.thy ===== *)
theory Navigation_Manager
  imports Navigation_Item
begin

unbundle bit_operations_syntax

text \<open>
  \<^verbatim>\<open>web/navigation/navigation_manager_impl.h\<close> and \<^verbatim>\<open>.mm\<close>: the session history of a tab.  The back-forward
  list is kept by \<^verbatim>\<open>WKWebView\<close>; the manager hangs its own entries on it, keeps the entry of the
  navigation that is under way, caches the entries while there is no web view, and restores saved
  sessions.

  Entries are objects on a heap (\<open>item_store\<close>); pointers to them are numbers, and the pointer-valued
  fields of the class are options.  Entries are never reused, so the destruction of an entry nobody
  points to is not modelled.  The web view and what the delegate reports are part of the state
  (\<open>web_view\<close>, \<open>is_loading\<close>, \<open>document_url\<close>, \<open>delegate_pending_item\<close>, \<open>now\<close>) and change between calls;
  what the manager asks of its delegate is written to \<open>nav_log\<close>, except \<^verbatim>\<open>RemoveWebView\<close>, which calls
  back (\<^verbatim>\<open>removeWebView\<close> of \<^verbatim>\<open>web_state/ui/crw_web_controller.mm\<close>).  Getters create missing entries, so
  they return a new state as well.

  The class does not initialise \<^verbatim>\<open>cached_current_item_index_\<close>; the model starts it with -1.  It is
  read only while the manager is detached, and detaching sets it.
\<close>

section \<open>State\<close>

type_synonym item_ref = nat

record 'u wk_item =
  wk_url :: 'u
  wk_title :: string
  wk_navigation_item :: "item_ref option"

record 'u web_view =
  web_view_url :: 'u
  back_list :: "'u wk_item list"
  current_item :: "'u wk_item option"
  forward_list :: "'u wk_item list"

record 'u load_params =
  load_url :: 'u
  load_virtual_url :: 'u
  load_referrer :: "'u referrer"
  load_transition_type :: page_transition
  is_renderer_initiated :: bool
  extra_headers :: "http_headers option"
  load_post_data :: "string option"
  load_https_upgrade_type :: HttpsUpgradeType

datatype RestoreItemListType = kBackList | kForwardList

datatype ReloadType = NORMAL | ORIGINAL_REQUEST_URL

datatype 'u restore_callback =
    RestoreItemsCallback RestoreItemListType "item_ref option list"
  | LoadCallback "'u load_params"
  | ClientCallback nat

datatype nav_effect =
    ClearDialogs
  | RecordPageStateInNavigationItem
  | LoadCurrentItem NavigationInitiationType
  | DelegateLoadIfNecessary
  | DelegateReload
  | DelegateOnNavigationItemCommitted item_ref
  | GoToBackForwardListItem nat item_ref NavigationInitiationType bool
  | SetWebStateUserAgent UserAgentType
  | RecordRestoreNavigationItemCount nat
  | RecordRestoreNavigationTime
  | RunClientCallback nat

record 'u nav_manager =
  item_store :: "item_ref \<Rightarrow> 'u nav_item"
  next_ref :: item_ref
  unique_id_counter :: int
  transient_url_rewriters :: "('u \<Rightarrow> 'u option) list"
  pending_item :: "item_ref option"
  pending_item_index :: int
  last_committed_item_index :: int
  empty_window_open_item :: "item_ref option"
  last_committed_web_view_item :: "item_ref option"
  smoother :: time_smoother
  attached_to_web_view :: bool
  cached_items :: "item_ref option list"
  cached_current_item_index :: int
  is_restore_session_in_progress :: bool
  going_to_back_forward_list_item :: bool
  next_pending_url_should_skip_serialization :: 'u
  restoration_timer :: bool
  restored_visible_item :: "item_ref option"
  restore_session_completion_callbacks :: "'u restore_callback list"
  web_view :: "'u web_view option"
  has_web_state :: bool
  is_loading :: bool
  document_url :: 'u
  delegate_pending_item :: "item_ref option"
  now :: int
  nav_log :: "nav_effect list"

definition nav_emit :: "nav_effect list \<Rightarrow> 'u nav_manager \<Rightarrow> 'u nav_manager" where
  "nav_emit es M = M\<lparr>nav_log := nav_log M @ es\<rparr>"

definition item_at :: "item_ref \<Rightarrow> 'u nav_manager \<Rightarrow> 'u nav_item" where
  "item_at r M = item_store M r"

definition update_item :: "item_ref \<Rightarrow> ('u nav_item \<Rightarrow> 'u nav_item) \<Rightarrow> 'u nav_manager \<Rightarrow> 'u nav_manager" where
  "update_item r f M = M\<lparr>item_store := (item_store M)(r := f (item_store M r))\<rparr>"

definition try_update_item ::
    "item_ref \<Rightarrow> ('u nav_item \<Rightarrow> 'u nav_item res) \<Rightarrow> 'u nav_manager \<Rightarrow> 'u nav_manager res" where
  "try_update_item r f M = rbind (f (item_at r M)) (\<lambda>i. Inr (update_item r (\<lambda>_. i) M))"

definition new_item :: "'u nav_item \<Rightarrow> 'u nav_manager \<Rightarrow> item_ref \<times> 'u nav_manager" where
  "new_item i M = (next_ref M, M\<lparr>item_store := (item_store M)(next_ref M := i), next_ref := next_ref M + 1\<rparr>)"

text \<open>\<^verbatim>\<open>static_cast<size_t>\<close> of an \<^verbatim>\<open>int\<close>.\<close>

definition size_t_of :: "int \<Rightarrow> nat" where
  "size_t_of i = nat (i mod 2 ^ 64)"

definition smoothed_now :: "'u nav_manager \<Rightarrow> int \<times> 'u nav_manager" where
  "smoothed_now M = (let (t, s) = GetSmoothedTime (now M) (smoother M) in (t, M\<lparr>smoother := s\<rparr>))"

definition NavigationManagerImpl :: "'u web_env \<Rightarrow> 'u nav_manager" where
  "NavigationManagerImpl G =
     \<lparr>item_store = (\<lambda>_. NavigationItemImpl G 0), next_ref = 0, unique_id_counter = 0,
      transient_url_rewriters = [], pending_item = None, pending_item_index = -1,
      last_committed_item_index = -1, empty_window_open_item = None, last_committed_web_view_item = None,
      smoother = \<lparr>low_water_mark = 0, high_water_mark = 0\<rparr>, attached_to_web_view = True,
      cached_items = [], cached_current_item_index = -1, is_restore_session_in_progress = False,
      going_to_back_forward_list_item = False, next_pending_url_should_skip_serialization = gurl_empty G,
      restoration_timer = False, restored_visible_item = None,
      restore_session_completion_callbacks = [], web_view = None, has_web_state = True,
      is_loading = False, document_url = gurl_empty G, delegate_pending_item = None, now = 0,
      nav_log = []\<rparr>"

section \<open>The back-forward list of the web view\<close>

text \<open>\<^verbatim>\<open>itemAtIndex:\<close> counts from the current item.\<close>

definition itemAtIndex :: "int \<Rightarrow> 'u web_view \<Rightarrow> 'u wk_item option" where
  "itemAtIndex offset v =
     (if offset = 0 then current_item v
      else if offset < 0
      then (if nat (- offset) \<le> length (back_list v)
            then Some (back_list v ! (length (back_list v) - nat (- offset))) else None)
      else (if nat offset \<le> length (forward_list v) then Some (forward_list v ! (nat offset - 1)) else None))"

text \<open>Hangs an entry on the item at an offset.\<close>

definition attach_item :: "int \<Rightarrow> item_ref \<Rightarrow> 'u web_view \<Rightarrow> 'u web_view" where
  "attach_item offset r v =
     (let set = (\<lambda>w. w\<lparr>wk_navigation_item := Some r\<rparr>) in
      if offset = 0 then v\<lparr>current_item := map_option set (current_item v)\<rparr>
      else if offset < 0
      then (let k = length (back_list v) - nat (- offset)
            in v\<lparr>back_list := (back_list v)[k := set (back_list v ! k)]\<rparr>)
      else (let k = nat offset - 1 in v\<lparr>forward_list := (forward_list v)[k := set (forward_list v ! k)]\<rparr>))"

definition SetNavigationItemInWKItem :: "int \<Rightarrow> item_ref \<Rightarrow> 'u nav_manager \<Rightarrow> 'u nav_manager res" where
  "SetNavigationItemInWKItem offset r M =
     (case web_view M of None \<Rightarrow> Inl (DCheckFailed ''wk_item'')
      | Some v \<Rightarrow> dcheck (itemAtIndex offset v \<noteq> None) ''wk_item''
          (Inr (M\<lparr>web_view := Some (attach_item offset r v)\<rparr>)))"

section \<open>The cache of the web view\<close>

definition GetBackForwardListItemCount :: "'u nav_manager \<Rightarrow> nat" where
  "GetBackForwardListItemCount M =
     (if \<not> attached_to_web_view M then length (cached_items M)
      else case web_view M of None \<Rightarrow> 0
        | Some v \<Rightarrow> length (back_list v) + (if current_item v \<noteq> None then 1 else 0) + length (forward_list v))"

definition GetCurrentItemIndex :: "'u nav_manager \<Rightarrow> int" where
  "GetCurrentItemIndex M =
     (if \<not> attached_to_web_view M then cached_current_item_index M
      else case web_view M of None \<Rightarrow> -1
        | Some v \<Rightarrow> if current_item v \<noteq> None then int (length (back_list v)) else -1)"

definition GetVisibleWebViewURL :: "'u web_env \<Rightarrow> 'u nav_manager \<Rightarrow> 'u" where
  "GetVisibleWebViewURL G M =
     (if \<not> attached_to_web_view M then gurl_empty G
      else case web_view M of None \<Rightarrow> gurl_empty G | Some v \<Rightarrow> web_view_url v)"

definition GetWKItemAtIndex :: "nat \<Rightarrow> 'u nav_manager \<Rightarrow> 'u wk_item option res" where
  "GetWKItemAtIndex index M =
     dcheck (attached_to_web_view M) ''IsAttachedToWebView()''
       (Inr (if index \<ge> GetBackForwardListItemCount M then None
             else case web_view M of None \<Rightarrow> None
               | Some v \<Rightarrow> itemAtIndex (int index - GetCurrentItemIndex M) v))"

text \<open>
  The address an entry loads: rewriters given for this navigation come first, then those of the
  application; a page must not reach an application page this way.
\<close>

definition rewritten_url :: "'u web_env \<Rightarrow> ('u \<Rightarrow> 'u option) list \<Rightarrow> 'u \<Rightarrow> 'u" where
  "rewritten_url G additional url =
     (case (if additional \<noteq> [] then RewriteURLWithWriters additional url else None) of
        Some u \<Rightarrow> u
      | None \<Rightarrow> (case RewriteURLIfNecessary G url of Some u \<Rightarrow> u | None \<Rightarrow> url))"

definition loaded_url ::
    "'u web_env \<Rightarrow> ('u \<Rightarrow> 'u option) list \<Rightarrow> 'u \<Rightarrow> page_transition \<Rightarrow> NavigationInitiationType \<Rightarrow> 'u \<Rightarrow> 'u" where
  "loaded_url G additional url transition initiation_type previous_url =
     (let loaded = rewritten_url G additional url
      in if (initiation_type = RENDERER_INITIATED \<or>
             transition_core_type_is G transition (PAGE_TRANSITION_RELOAD G)) \<and>
            loaded \<noteq> url \<and> is_app_specific_url G loaded \<and> \<not> is_app_specific_url G previous_url
         then url else loaded)"

text \<open>
  \<^verbatim>\<open>CreateNavigationItemWithRewriters\<close>.  The address of the last committed entry is needed for redirects
  only and is an argument; an entry created for the list has the type \<^verbatim>\<open>LINK\<close>, which is no redirect.
\<close>

definition create_item ::
    "'u web_env \<Rightarrow> 'u \<Rightarrow> 'u referrer \<Rightarrow> page_transition \<Rightarrow> NavigationInitiationType \<Rightarrow> HttpsUpgradeType \<Rightarrow>
     'u \<Rightarrow> ('u \<Rightarrow> 'u option) list \<Rightarrow> 'u option \<Rightarrow> 'u nav_manager \<Rightarrow> item_ref \<times> 'u nav_manager" where
  "create_item G url referrer transition initiation_type upgrade previous_url additional redirected_from M =
     (let loaded = loaded_url G additional url transition initiation_type previous_url;
          original = (if transition_is_redirect G transition
                      then (case redirected_from of Some u \<Rightarrow> u | None \<Rightarrow> loaded) else loaded);
          M = M\<lparr>unique_id_counter := unique_id_counter M + 1\<rparr>
      in new_item ((SetURL loaded (SetOriginalRequestURL original (NavigationItemImpl G (unique_id_counter M))))
           \<lparr>item_referrer := referrer, transition_type := transition,
            navigation_initiation_type := initiation_type, https_upgrade_type := upgrade\<rparr>) M)"

text \<open>The entry for an item of the list that has none yet; the item before it is the referrer.\<close>

definition create_wk_item ::
    "'u web_env \<Rightarrow> nat \<Rightarrow> 'u wk_item \<Rightarrow> 'u nav_manager \<Rightarrow> (item_ref option \<times> 'u nav_manager) res" where
  "create_wk_item G index w M =
     rbind (if index = 0 then Inr None else GetWKItemAtIndex (index - 1) M) (\<lambda>prev.
       let prev_url = (case prev of None \<Rightarrow> gurl_empty G | Some p \<Rightarrow> wk_url p);
           referrer = (case prev of None \<Rightarrow> EmptyReferrer G
             | Some p \<Rightarrow> \<lparr>referrer_url = wk_url p, referrer_policy = ReferrerPolicyAlways\<rparr>);
           (r, M) = create_item G (wk_url w) referrer (PAGE_TRANSITION_LINK G) RENDERER_INITIATED
                      HttpsUpgradeNone prev_url [] None M;
           (t, M) = smoothed_now M;
           M = update_item r (\<lambda>i. SetTitle G (wk_title w) (i\<lparr>timestamp := t\<rparr>)) M
       in rbind (if IsRestoreSessionUrl G (item_url (item_at r M))
                 then rbind (ExtractTargetURL G (item_url (item_at r M))) (\<lambda>target.
                   Inr (case target of None \<Rightarrow> M | Some u \<Rightarrow> update_item r (SetVirtualURL G u) M))
                 else Inr M) (\<lambda>M.
          rbind (SetNavigationItemInWKItem (int index - GetCurrentItemIndex M) r M) (\<lambda>M. Inr (Some r, M))))"

definition cache_GetNavigationItemImplAtIndex ::
    "'u web_env \<Rightarrow> nat \<Rightarrow> bool \<Rightarrow> 'u nav_manager \<Rightarrow> (item_ref option \<times> 'u nav_manager) res" where
  "cache_GetNavigationItemImplAtIndex G index create_if_missing M =
     (if index \<ge> GetBackForwardListItemCount M then Inr (None, M)
      else if \<not> attached_to_web_view M then Inr (cached_items M ! index, M)
      else rbind (GetWKItemAtIndex index M) (\<lambda>wk_item.
        case wk_item of None \<Rightarrow> Inr (None, M)
        | Some w \<Rightarrow> if wk_navigation_item w \<noteq> None \<or> \<not> create_if_missing then Inr (wk_navigation_item w, M)
            else create_wk_item G index w M))"

section \<open>Accessors\<close>

definition GetItemCount :: "'u nav_manager \<Rightarrow> nat" where
  "GetItemCount M = (if empty_window_open_item M \<noteq> None then 1 else GetBackForwardListItemCount M)"

definition GetNavigationItemImplAtIndex ::
    "'u web_env \<Rightarrow> nat \<Rightarrow> 'u nav_manager \<Rightarrow> (item_ref option \<times> 'u nav_manager) res" where
  "GetNavigationItemImplAtIndex G index M =
     (if empty_window_open_item M \<noteq> None
      then Inr (if index = 0 then empty_window_open_item M else None, M)
      else cache_GetNavigationItemImplAtIndex G index True M)"

definition GetLastCommittedItemIndexInCurrentOrRestoredSession :: "'u nav_manager \<Rightarrow> int" where
  "GetLastCommittedItemIndexInCurrentOrRestoredSession M =
     (if pending_item_index M \<ge> 0 \<or> empty_window_open_item M \<noteq> None then last_committed_item_index M
      else GetCurrentItemIndex M)"

definition CanTrustLastCommittedItem :: "'u web_env \<Rightarrow> item_ref \<Rightarrow> 'u nav_manager \<Rightarrow> bool" where
  "CanTrustLastCommittedItem G r M =
     (if \<not> attached_to_web_view M then True
      else let web_view_url = GetVisibleWebViewURL G M; last_committed_url = item_url (item_at r M) in
        if gurl_origin G web_view_url = gurl_origin G last_committed_url then True
        else if going_to_back_forward_list_item M then True
        else SchemeIs G web_view_url kAboutScheme \<or> SchemeIs G last_committed_url kAboutScheme \<or>
             SchemeIs G web_view_url kFileScheme \<or> SchemeIs G last_committed_url kFileScheme \<or>
             is_app_specific_url G web_view_url \<or> is_app_specific_url G last_committed_url)"

text \<open>The entry shown instead of one that does not fit the page.\<close>

definition untrusted_item :: "'u web_env \<Rightarrow> 'u nav_manager \<Rightarrow> item_ref \<times> 'u nav_manager" where
  "untrusted_item G M =
     (case last_committed_web_view_item M of Some r \<Rightarrow> (r, M)
      | None \<Rightarrow>
          let (r, M) = create_item G (gurl_empty G) (EmptyReferrer G) (PAGE_TRANSITION_LINK G)
                         RENDERER_INITIATED HttpsUpgradeNone (gurl_empty G) [] None M
          in (r, update_item r (\<lambda>i. i\<lparr>is_untrusted := True\<rparr>) (M\<lparr>last_committed_web_view_item := Some r\<rparr>)))"

definition web_view_item :: "'u web_env \<Rightarrow> 'u nav_manager \<Rightarrow> (item_ref \<times> 'u nav_manager) res" where
  "web_view_item G M =
     (let (r, M) = untrusted_item G M;
          url = document_url M;
          M = update_item r (SetURL url) M
      in rbind (if IsRestoreSessionUrl G url then ExtractTargetURL G url else Inr None) (\<lambda>target.
         let M = update_item r (SetVirtualURL G (case target of Some u \<Rightarrow> u | None \<Rightarrow> url)) M;
             (t, M) = smoothed_now M
         in Inr (r, update_item r (\<lambda>i. i\<lparr>timestamp := t\<rparr>) M)))"

definition GetLastCommittedItemInCurrentOrRestoredSession ::
    "'u web_env \<Rightarrow> 'u nav_manager \<Rightarrow> (item_ref option \<times> 'u nav_manager) res" where
  "GetLastCommittedItemInCurrentOrRestoredSession G M =
     (if empty_window_open_item M \<noteq> None then Inr (empty_window_open_item M, M)
      else let index = GetLastCommittedItemIndexInCurrentOrRestoredSession M in
        if index = -1 then dcheck (GetItemCount M = 0) ''0 == GetItemCount()'' (Inr (None, M))
        else rbind (GetNavigationItemImplAtIndex G (size_t_of index) M) (\<lambda>(last, M).
          case last of None \<Rightarrow> Inr (None, M)
          | Some r \<Rightarrow>
              if has_web_state M \<and> \<not> CanTrustLastCommittedItem G r M
              then rbind (web_view_item G M) (\<lambda>(v, M). Inr (Some v, M))
              else Inr (Some r, M)))"

definition GetLastCommittedItemImpl :: "'u web_env \<Rightarrow> 'u nav_manager \<Rightarrow> (item_ref option \<times> 'u nav_manager) res" where
  "GetLastCommittedItemImpl G M =
     (if is_restore_session_in_progress M then Inr (None, M)
      else rbind (GetLastCommittedItemInCurrentOrRestoredSession G M) (\<lambda>(result, M).
        Inr (case result of None \<Rightarrow> None
             | Some r \<Rightarrow> if IsRestoreSessionUrl G (item_url (item_at r M)) then None else Some r, M)))"

definition GetLastCommittedItemIndex :: "'u web_env \<Rightarrow> 'u nav_manager \<Rightarrow> (int \<times> 'u nav_manager) res" where
  "GetLastCommittedItemIndex G M =
     (if is_restore_session_in_progress M then Inr (-1, M)
      else rbind (GetLastCommittedItemInCurrentOrRestoredSession G M) (\<lambda>(result, M).
        Inr (case result of None \<Rightarrow> -1
             | Some r \<Rightarrow> if IsRestoreSessionUrl G (item_url (item_at r M)) then -1
                 else GetLastCommittedItemIndexInCurrentOrRestoredSession M, M)))"

definition GetPendingItemInCurrentOrRestoredSession ::
    "'u web_env \<Rightarrow> 'u nav_manager \<Rightarrow> (item_ref option \<times> 'u nav_manager) res" where
  "GetPendingItemInCurrentOrRestoredSession G M =
     (if pending_item_index M = -1
      then Inr (if pending_item M = None then delegate_pending_item M else pending_item M, M)
      else GetNavigationItemImplAtIndex G (size_t_of (pending_item_index M)) M)"

definition GetPendingItem :: "'u web_env \<Rightarrow> 'u nav_manager \<Rightarrow> (item_ref option \<times> 'u nav_manager) res" where
  "GetPendingItem G M =
     (if is_restore_session_in_progress M then Inr (None, M) else GetPendingItemInCurrentOrRestoredSession G M)"

definition GetCurrentItemImpl :: "'u web_env \<Rightarrow> 'u nav_manager \<Rightarrow> (item_ref option \<times> 'u nav_manager) res" where
  "GetCurrentItemImpl G M =
     rbind (GetPendingItemInCurrentOrRestoredSession G M) (\<lambda>(pending, M).
       if pending \<noteq> None then Inr (pending, M) else GetLastCommittedItemInCurrentOrRestoredSession G M)"

text \<open>Whether the pending entry may be shown: a new navigation of the user that is loading.\<close>

definition safe_to_show_pending :: "item_ref \<Rightarrow> 'u nav_manager \<Rightarrow> bool" where
  "safe_to_show_pending r M \<longleftrightarrow>
     navigation_initiation_type (item_at r M) = BROWSER_INITIATED \<and> pending_item_index M = -1 \<and> is_loading M"

definition GetVisibleItem :: "'u web_env \<Rightarrow> 'u nav_manager \<Rightarrow> (item_ref option \<times> 'u nav_manager) res" where
  "GetVisibleItem G M =
     (if is_restore_session_in_progress M \<or> restored_visible_item M \<noteq> None then Inr (restored_visible_item M, M)
      else rbind (GetPendingItemInCurrentOrRestoredSession G M) (\<lambda>(pending, M).
        if (case pending of None \<Rightarrow> False | Some p \<Rightarrow> safe_to_show_pending p M) then Inr (pending, M)
        else rbind (GetLastCommittedItemImpl G M) (\<lambda>(last, M).
          if last \<noteq> None then Inr (last, M)
          else rbind (GetLastCommittedItemInCurrentOrRestoredSession G M) (\<lambda>(result, M).
            Inr (case result of None \<Rightarrow> None
                 | Some r \<Rightarrow> if IsRestoreSessionUrl G (item_url (item_at r M)) then Some r else None, M)))))"

definition GetIndexForOffset :: "int \<Rightarrow> 'u nav_manager \<Rightarrow> int" where
  "GetIndexForOffset offset M =
     (let current = (if pending_item_index M = -1
                     then (if empty_window_open_item M \<noteq> None then 0 else GetCurrentItemIndex M)
                     else pending_item_index M);
          index = current + offset
      in if index < - (2 ^ 31) \<or> 2 ^ 31 \<le> index then -1 else index)"

definition CanGoToOffset :: "int \<Rightarrow> 'u nav_manager \<Rightarrow> bool" where
  "CanGoToOffset offset M =
     (if is_restore_session_in_progress M then False
      else if empty_window_open_item M \<noteq> None then offset = 0
      else let index = GetIndexForOffset offset M in 0 \<le> index \<and> index < int (GetItemCount M))"

definition CanGoBack :: "'u nav_manager \<Rightarrow> bool" where
  "CanGoBack M = CanGoToOffset (-1) M"

definition CanGoForward :: "'u nav_manager \<Rightarrow> bool" where
  "CanGoForward M = CanGoToOffset 1 M"

definition GetPendingItemIndex :: "'u nav_manager \<Rightarrow> int" where
  "GetPendingItemIndex M = (if is_restore_session_in_progress M then -1 else pending_item_index M)"

fun find_item_index ::
    "'u web_env \<Rightarrow> item_ref option \<Rightarrow> nat list \<Rightarrow> 'u nav_manager \<Rightarrow> (int \<times> 'u nav_manager) res" where
  "find_item_index G item [] M = Inr (-1, M)"
| "find_item_index G item (index # is) M =
     rbind (cache_GetNavigationItemImplAtIndex G index False M) (\<lambda>(r, M).
       if r = item then Inr (int index, M) else find_item_index G item is M)"

definition GetIndexOfItem :: "'u web_env \<Rightarrow> item_ref option \<Rightarrow> 'u nav_manager \<Rightarrow> (int \<times> 'u nav_manager) res" where
  "GetIndexOfItem G item M =
     (if item = empty_window_open_item M then Inr (0, M)
      else find_item_index G item [0..<GetBackForwardListItemCount M] M)"

fun items_at ::
    "'u web_env \<Rightarrow> nat list \<Rightarrow> 'u nav_manager \<Rightarrow> (item_ref option list \<times> 'u nav_manager) res" where
  "items_at G [] M = Inr ([], M)"
| "items_at G (index # is) M =
     rbind (GetNavigationItemImplAtIndex G index M) (\<lambda>(r, M).
     rbind (items_at G is M) (\<lambda>(rs, M). Inr (r # rs, M)))"

definition GetBackwardItems :: "'u web_env \<Rightarrow> 'u nav_manager \<Rightarrow> (item_ref option list \<times> 'u nav_manager) res" where
  "GetBackwardItems G M =
     (if is_restore_session_in_progress M then Inr ([], M)
      else items_at G (rev [0..<nat (GetCurrentItemIndex M)]) M)"

definition GetForwardItems :: "'u web_env \<Rightarrow> 'u nav_manager \<Rightarrow> (item_ref option list \<times> 'u nav_manager) res" where
  "GetForwardItems G M =
     (if is_restore_session_in_progress M then Inr ([], M)
      else items_at G [nat (GetCurrentItemIndex M + 1)..<GetItemCount M] M)"

fun last_item_with_user_agent ::
    "'u web_env \<Rightarrow> nat list \<Rightarrow> 'u nav_manager \<Rightarrow> (item_ref option \<times> 'u nav_manager) res" where
  "last_item_with_user_agent G [] M = Inr (None, M)"
| "last_item_with_user_agent G (index # is) M =
     rbind (GetNavigationItemImplAtIndex G index M) (\<lambda>(item, M).
       case item of None \<Rightarrow> Inl (DanglingPointer ''item'')
       | Some r \<Rightarrow>
           if URLNeedsUserAgentType G (item_url (item_at r M))
           then dcheck (user_agent_type (item_at r M) \<noteq> UserAgentNONE) ''UserAgentType::NONE'' (Inr (Some r, M))
           else last_item_with_user_agent G is M)"

definition GetLastCommittedItemWithUserAgentType ::
    "'u web_env \<Rightarrow> 'u nav_manager \<Rightarrow> (item_ref option \<times> 'u nav_manager) res" where
  "GetLastCommittedItemWithUserAgentType G M =
     last_item_with_user_agent G
       (rev [0..<nat (GetLastCommittedItemIndexInCurrentOrRestoredSession M + 1)]) M"

section \<open>Detaching from the web view\<close>

text \<open>\<^verbatim>\<open>WKWebViewCache::DetachFromWebView\<close>: copies of the entries, with the addresses behind restore pages.\<close>

fun cache_entries ::
    "'u web_env \<Rightarrow> nat list \<Rightarrow> 'u nav_manager \<Rightarrow> (item_ref option list \<times> 'u nav_manager) res" where
  "cache_entries G [] M = Inr ([], M)"
| "cache_entries G (index # is) M =
     rbind (cache_GetNavigationItemImplAtIndex G index True M) (\<lambda>(item, M).
       case item of None \<Rightarrow> Inl (DanglingPointer ''GetNavigationItemImplAtIndex'')
       | Some r \<Rightarrow>
           let (c, M) = new_item (item_at r M) M; url = item_url (item_at c M)
           in rbind (if IsRestoreSessionUrl G url
                     then rbind (ExtractTargetURL G url) (\<lambda>target.
                       Inr (case target of None \<Rightarrow> M | Some u \<Rightarrow> update_item c (SetURL u) M))
                     else Inr M) (\<lambda>M.
              rbind (cache_entries G is M) (\<lambda>(cs, M). Inr (Some c # cs, M))))"

definition cache_DetachFromWebView :: "'u web_env \<Rightarrow> 'u nav_manager \<Rightarrow> 'u nav_manager res" where
  "cache_DetachFromWebView G M =
     rbind (if attached_to_web_view M
            then rbind (cache_entries G [0..<GetBackForwardListItemCount M]
                         (M\<lparr>cached_current_item_index := GetCurrentItemIndex M\<rparr>)) (\<lambda>(cs, M).
                   Inr (M\<lparr>cached_items := cs\<rparr>))
            else Inr M) (\<lambda>M. Inr (M\<lparr>attached_to_web_view := False\<rparr>))"

definition DetachFromWebView :: "'u web_env \<Rightarrow> 'u nav_manager \<Rightarrow> 'u nav_manager res" where
  "DetachFromWebView G M =
     rbind (cache_DetachFromWebView G M) (\<lambda>M. Inr (M\<lparr>is_restore_session_in_progress := False\<rparr>))"

definition ResetToAttached :: "'u nav_manager \<Rightarrow> 'u nav_manager" where
  "ResetToAttached M = M\<lparr>cached_items := [], cached_current_item_index := -1, attached_to_web_view := True\<rparr>"

definition ReleaseCachedItems :: "'u nav_manager \<Rightarrow> (item_ref option list \<times> 'u nav_manager) res" where
  "ReleaseCachedItems M =
     dcheck (\<not> attached_to_web_view M) ''!IsAttachedToWebView()'' (Inr (cached_items M, M\<lparr>cached_items := []\<rparr>))"

text \<open>\<^verbatim>\<open>removeWebView\<close> of the web controller.\<close>

definition RemoveWebView :: "'u web_env \<Rightarrow> 'u nav_manager \<Rightarrow> 'u nav_manager res" where
  "RemoveWebView G M =
     (if web_view M = None then Inr M
      else rbind (DetachFromWebView G M) (\<lambda>M. Inr (M\<lparr>web_view := None\<rparr>)))"

section \<open>The pending entry\<close>

definition DiscardNonCommittedItems :: "'u nav_manager \<Rightarrow> 'u nav_manager" where
  "DiscardNonCommittedItems M = M\<lparr>pending_item := None, pending_item_index := -1\<rparr>"

definition has_flag :: "page_transition \<Rightarrow> page_transition \<Rightarrow> bool" where
  "has_flag transition flag \<longleftrightarrow> transition AND flag \<noteq> 0"

text \<open>The address of the last committed entry for a redirect.\<close>

definition redirect_source ::
    "'u web_env \<Rightarrow> page_transition \<Rightarrow> 'u nav_manager \<Rightarrow> ('u option \<times> 'u nav_manager) res" where
  "redirect_source G transition M =
     (if transition_is_redirect G transition
      then rbind (GetLastCommittedItemImpl G M) (\<lambda>(last, M).
        if last = None then Inr (None, M)
        else rbind (GetLastCommittedItemImpl G M) (\<lambda>(last, M).
          case last of None \<Rightarrow> Inl (DanglingPointer ''GetLastCommittedItem()'')
          | Some r \<Rightarrow> Inr (Some (item_url (item_at r M)), M)))
      else Inr (None, M))"

definition create_pending_item ::
    "'u web_env \<Rightarrow> 'u \<Rightarrow> 'u referrer \<Rightarrow> page_transition \<Rightarrow> NavigationInitiationType \<Rightarrow> HttpsUpgradeType \<Rightarrow>
     'u nav_manager \<Rightarrow> (item_ref \<times> 'u nav_manager) res" where
  "create_pending_item G url referrer navigation_type initiation_type upgrade M =
     rbind (GetLastCommittedItemInCurrentOrRestoredSession G M) (\<lambda>(last, M).
     let previous_url = (case last of None \<Rightarrow> gurl_empty G | Some l \<Rightarrow> item_url (item_at l M)) in
     rbind (redirect_source G navigation_type M) (\<lambda>(source, M).
       let (r, M) = create_item G url referrer navigation_type initiation_type upgrade previous_url
                      (transient_url_rewriters M) source M;
           M = M\<lparr>pending_item := Some r, transient_url_rewriters := []\<rparr>;
           skip = (\<not> gurl_is_empty G (next_pending_url_should_skip_serialization M) \<and>
                   url = next_pending_url_should_skip_serialization M);
           M = (if skip then update_item r (\<lambda>i. i\<lparr>should_skip_serialization := True\<rparr>) M else M)
       in Inr (r, M\<lparr>next_pending_url_should_skip_serialization := gurl_empty G\<rparr>)))"

text \<open>The second half of \<^verbatim>\<open>AddPendingItem\<close>: a navigation to the current item of the list reuses its entry.\<close>

definition match_current_item ::
    "'u web_env \<Rightarrow> page_transition \<Rightarrow> NavigationInitiationType \<Rightarrow> bool \<Rightarrow> item_ref \<Rightarrow> 'u nav_manager \<Rightarrow>
     'u nav_manager res" where
  "match_current_item G navigation_type initiation_type is_post_navigation r M =
     (let wk = Option.bind (web_view M) current_item;
          current_url = (case wk of None \<Rightarrow> gurl_empty G | Some w \<Rightarrow> wk_url w);
          view_url = (case web_view M of None \<Rightarrow> gurl_empty G | Some v \<Rightarrow> web_view_url v);
          entry = Option.bind wk wk_navigation_item;
          reload = (has_flag navigation_type (PAGE_TRANSITION_RELOAD G) \<and>
                    \<not> has_flag navigation_type (PAGE_TRANSITION_FORWARD_BACK G))
      in rbind (if reload \<and> initiation_type = BROWSER_INITIATED \<and> IsRestoreSessionUrl G current_url
                then rbind (ExtractTargetURL G current_url) (\<lambda>t.
                  Inr (case t of None \<Rightarrow> current_url | Some u \<Rightarrow> u))
                else Inr current_url) (\<lambda>current_url.
         rbind (case entry of
                  Some e \<Rightarrow>
                    if reload \<and> IsRestoreSessionUrl G current_url \<and>
                       user_agent_type (item_at e M) \<noteq> UserAgentNONE \<and>
                       URLNeedsUserAgentType G (item_url (item_at r M))
                    then try_update_item r (SetUserAgentType G (user_agent_type (item_at e M))) M
                    else Inr M
                | None \<Rightarrow> Inr M) (\<lambda>M.
         let same = (current_url = item_url (item_at r M) \<and> current_url = view_url);
             is_form_post = (is_post_navigation \<and> has_flag navigation_type (PAGE_TRANSITION_FORM_SUBMIT G))
         in if wk \<noteq> None \<and> same \<and> \<not> is_form_post
            then let M = M\<lparr>pending_item_index := GetCurrentItemIndex M\<rparr>;
                     transition = transition_type (item_at r M)
                 in rbind (if entry = None then SetNavigationItemInWKItem 0 r M else Inr M) (\<lambda>M.
                    Inr ((update_item (case entry of None \<Rightarrow> r | Some e \<Rightarrow> e)
                            (\<lambda>i. i\<lparr>transition_type := transition\<rparr>) M)\<lparr>pending_item := None\<rparr>))
            else Inr M)))"

definition AddPendingItem ::
    "'u web_env \<Rightarrow> 'u \<Rightarrow> 'u referrer \<Rightarrow> page_transition \<Rightarrow> NavigationInitiationType \<Rightarrow> bool \<Rightarrow> HttpsUpgradeType \<Rightarrow>
     'u nav_manager \<Rightarrow> 'u nav_manager res" where
  "AddPendingItem G url referrer navigation_type initiation_type is_post_navigation upgrade M =
     rbind (create_pending_item G url referrer navigation_type initiation_type upgrade
              (DiscardNonCommittedItems M)) (\<lambda>(r, M).
       if \<not> attached_to_web_view M then Inr M
       else match_current_item G navigation_type initiation_type is_post_navigation r M)"

definition ReleasePendingItem :: "'u nav_manager \<Rightarrow> item_ref option \<times> 'u nav_manager" where
  "ReleasePendingItem M = (pending_item M, M\<lparr>pending_item := None\<rparr>)"

definition SetPendingItem :: "item_ref option \<Rightarrow> 'u nav_manager \<Rightarrow> 'u nav_manager" where
  "SetPendingItem item M = M\<lparr>pending_item := item\<rparr>"

definition SetPendingItemIndex :: "int \<Rightarrow> 'u nav_manager \<Rightarrow> 'u nav_manager" where
  "SetPendingItemIndex index M = M\<lparr>pending_item_index := index\<rparr>"

definition SetWKWebViewNextPendingUrlNotSerializable :: "'u \<Rightarrow> 'u nav_manager \<Rightarrow> 'u nav_manager" where
  "SetWKWebViewNextPendingUrlNotSerializable url M = M\<lparr>next_pending_url_should_skip_serialization := url\<rparr>"

definition RemoveTransientURLRewriters :: "'u nav_manager \<Rightarrow> 'u nav_manager" where
  "RemoveTransientURLRewriters M = M\<lparr>transient_url_rewriters := []\<rparr>"

definition AddTransientURLRewriter :: "('u \<Rightarrow> 'u option) option \<Rightarrow> 'u nav_manager \<Rightarrow> 'u nav_manager res" where
  "AddTransientURLRewriter rewriter M =
     (case rewriter of None \<Rightarrow> Inl (DCheckFailed ''rewriter'')
      | Some r \<Rightarrow> Inr (M\<lparr>transient_url_rewriters := transient_url_rewriters M @ [r]\<rparr>))"

definition UpdatePendingItemUrl :: "'u web_env \<Rightarrow> 'u \<Rightarrow> 'u nav_manager \<Rightarrow> 'u nav_manager res" where
  "UpdatePendingItemUrl G url M =
     rbind (GetPendingItemInCurrentOrRestoredSession G M) (\<lambda>(pending, M).
       case pending of None \<Rightarrow> Inr M
       | Some p \<Rightarrow> if url = item_url (item_at p M) then Inr M
           else Inr (update_item p (\<lambda>i. (SetVirtualURL G url (SetURL url i))
                       \<lparr>post_data := None, http_request_headers := None\<rparr>) M))"

definition UpdateCurrentItemForReplaceState ::
    "'u web_env \<Rightarrow> 'u \<Rightarrow> string option \<Rightarrow> 'u nav_manager \<Rightarrow> 'u nav_manager res" where
  "UpdateCurrentItemForReplaceState G url state_object M =
     rbind (GetCurrentItemImpl G M) (\<lambda>(current, M).
       case current of None \<Rightarrow> Inl (DanglingPointer ''current_item'')
       | Some c \<Rightarrow> Inr (update_item c (\<lambda>i. (SetURL url i)
                     \<lparr>serialized_state_object := state_object, post_data := None\<rparr>) M))"

section \<open>Loading and restoring\<close>

text \<open>\<^verbatim>\<open>AddRestoreCompletionCallback\<close> while a session is being restored.\<close>

definition push_restore_callback :: "'u restore_callback \<Rightarrow> 'u nav_manager \<Rightarrow> 'u nav_manager" where
  "push_restore_callback callback M =
     M\<lparr>restore_session_completion_callbacks := restore_session_completion_callbacks M @ [callback]\<rparr>"

definition RewriteItemURLIfNecessary :: "'u web_env \<Rightarrow> item_ref \<Rightarrow> 'u nav_manager \<Rightarrow> 'u nav_manager" where
  "RewriteItemURLIfNecessary G r M =
     (case RewriteURLIfNecessary G (item_url (item_at r M)) of None \<Rightarrow> M
      | Some u \<Rightarrow> update_item r (\<lambda>i. SetVirtualURL G (item_url i) (SetURL u i)) M)"

definition deref_all :: "item_ref option list \<Rightarrow> item_ref list res" where
  "deref_all items = rmap (\<lambda>i. case i of None \<Rightarrow> Inl (DanglingPointer ''items'') | Some r \<Rightarrow> Inr r) items"

definition WebLoadParams :: "'u web_env \<Rightarrow> 'u \<Rightarrow> 'u load_params" where
  "WebLoadParams G url =
     \<lparr>load_url = url, load_virtual_url = gurl_empty G, load_referrer = EmptyReferrer G,
      load_transition_type = PAGE_TRANSITION_LINK G, is_renderer_initiated = False, extra_headers = None,
      load_post_data = None, load_https_upgrade_type = HttpsUpgradeNone\<rparr>"

text \<open>
  Restoring a session loads a page that replays it, with \<^verbatim>\<open>LoadURLWithParams\<close>, which in turn restores
  the session first when there is no web view: the two functions get the loading as an argument.
\<close>

definition start_restore :: "int \<Rightarrow> item_ref option list \<Rightarrow> item_ref list \<Rightarrow> 'u nav_manager \<Rightarrow> 'u nav_manager" where
  "start_restore last_index items refs M =
     (let M = M\<lparr>is_restore_session_in_progress := True\<rparr>;
          M = (if last_index > -1 then M\<lparr>restored_visible_item := Some (refs ! nat last_index)\<rparr> else M);
          back_items = take (nat last_index) items;
          forward_items = drop (nat (last_index + 1)) items
      in push_restore_callback (RestoreItemsCallback kForwardList forward_items)
           (push_restore_callback (RestoreItemsCallback kBackList back_items) M))"

definition UnsafeRestore ::
    "'u web_env \<Rightarrow> ('u load_params \<Rightarrow> 'u nav_manager \<Rightarrow> 'u nav_manager res) \<Rightarrow> int \<Rightarrow> item_ref option list \<Rightarrow>
     'u nav_manager \<Rightarrow> 'u nav_manager res" where
  "UnsafeRestore G load last_index items M =
     rbind (deref_all items) (\<lambda>refs.
       let M = fold (RewriteItemURLIfNecessary G) refs M
       in rbind (CreateRestoreSessionUrl G last_index (map (\<lambda>r. item_at r M) refs))
          (\<lambda>(url, first_index).
         dcheck (first_index \<ge> 0) ''first_index >= 0''
         (dcheck (nat first_index < length refs) ''first_index < items.size()''
         (dcheck (gurl_is_valid G url) ''url.is_valid()''
           (let first = item_at (refs ! nat first_index) M;
                params = (WebLoadParams G url)
                  \<lparr>load_transition_type := PAGE_TRANSITION_RELOAD G, load_virtual_url := GetVirtualURL G first\<rparr>
            in rbind (load params (start_restore last_index items refs M)) (\<lambda>M.
               rbind (GetPendingItemInCurrentOrRestoredSession G M) (\<lambda>(pending, M).
               Inr (case pending of None \<Rightarrow> M | Some p \<Rightarrow> update_item p (SetTitle G (item_title first)) M))))))))"

definition Restore ::
    "'u web_env \<Rightarrow> ('u load_params \<Rightarrow> 'u nav_manager \<Rightarrow> 'u nav_manager res) \<Rightarrow> int \<Rightarrow> item_ref option list \<Rightarrow>
     'u nav_manager \<Rightarrow> 'u nav_manager res" where
  "Restore G load last_index items M =
     dcheck (\<not> is_restore_session_in_progress M) ''!is_restore_session_in_progress_''
     (let M = nav_emit [RecordRestoreNavigationItemCount (length items)] M
      in dcheck (last_index < int (length items)) ''last_committed_item_index < items.size()''
         (dcheck (items = [] \<or> last_index \<ge> 0) ''items.empty() || last_committed_item_index >= 0''
          (let M = (if \<not> attached_to_web_view M then ResetToAttached M else M)
           in if items = [] then Inr M
              else let M = DiscardNonCommittedItems M
                   in rbind (if GetItemCount M > 0 then RemoveWebView G M else Inr M) (\<lambda>M.
                      dcheck (GetItemCount M = 0) ''0 == GetItemCount()''
                      (dcheck (pending_item_index M = -1) ''-1 == pending_item_index_''
                        (UnsafeRestore G load last_index items
                          (M\<lparr>last_committed_item_index := -1\<rparr>)))))))"

text \<open>\<^verbatim>\<open>std::vector::resize\<close> of a vector of pointers.\<close>

definition resize :: "nat \<Rightarrow> 'a option list \<Rightarrow> 'a option list" where
  "resize n xs = take n xs @ replicate (n - length xs) None"

text \<open>What \<^verbatim>\<open>LoadURLWithParams\<close> does to the entries before it loads.\<close>

definition describe_pending ::
    "'u web_env \<Rightarrow> 'u load_params \<Rightarrow> 'u nav_manager \<Rightarrow> 'u nav_manager res" where
  "describe_pending G params M =
     rbind (GetPendingItemInCurrentOrRestoredSession G M) (\<lambda>(pending, M).
     rbind (case pending of None \<Rightarrow> Inr M
       | Some p \<Rightarrow> rbind (GetLastCommittedItemInCurrentOrRestoredSession G M) (\<lambda>(last, M).
           let last_url = (case last of None \<Rightarrow> gurl_empty G | Some l \<Rightarrow> GetVirtualURL G (item_at l M));
               pending_url = item_url (item_at p M);
               M = (if last_url \<noteq> pending_url \<and> gurl_equals_ignoring_ref G last_url pending_url
                    then update_item p (\<lambda>i. i\<lparr>is_created_from_hash_change := True\<rparr>) M else M);
               M = (if gurl_is_valid G (load_virtual_url params)
                    then update_item p (SetVirtualURL G (load_virtual_url params)) M else M)
           in Inr (update_item p (\<lambda>i. i\<lparr>https_upgrade_type := load_https_upgrade_type params\<rparr>) M))) (\<lambda>M.
     rbind (if pending \<noteq> None then Inr (pending, M) else GetLastCommittedItemInCurrentOrRestoredSession G M)
       (\<lambda>(added, M).
       case added of None \<Rightarrow> Inl (DCheckFailed ''added_item'')
       | Some a \<Rightarrow>
           let M = update_item a (\<lambda>i. (AddHttpRequestHeaders (extra_headers params) i)
                     \<lparr>https_upgrade_type := load_https_upgrade_type params\<rparr>) M
           in case load_post_data params of None \<Rightarrow> Inr M
              | Some data \<Rightarrow>
                  dcheck (case http_request_headers (item_at a M) of None \<Rightarrow> False
                          | Some h \<Rightarrow> map_of h ''Content-Type'' \<noteq> None)
                    ''Post data should have an associated content type''
                    (Inr (update_item a (\<lambda>i. i\<lparr>post_data := Some data,
                            should_skip_repost_form_confirmation := True\<rparr>) M)))))"

definition initiation_of :: "'u load_params \<Rightarrow> NavigationInitiationType" where
  "initiation_of params = (if is_renderer_initiated params then RENDERER_INITIATED else BROWSER_INITIATED)"

text \<open>The first argument bounds how often loading and restoring call each other.\<close>

fun LoadURLWithParams ::
    "nat \<Rightarrow> 'u web_env \<Rightarrow> 'u load_params \<Rightarrow> 'u nav_manager \<Rightarrow> 'u nav_manager res" where
  "LoadURLWithParams 0 G params M = Inl (NotReached ''LoadURLWithParams'')"
| "LoadURLWithParams (Suc n) G params M =
     (if is_restore_session_in_progress M \<and> \<not> IsRestoreSessionUrl G (load_url params)
      then Inr (push_restore_callback (LoadCallback params) M)
      else dcheck (\<not> has_flag (load_transition_type params) (PAGE_TRANSITION_FORWARD_BACK G))
             ''!(params.transition_type & ui::PAGE_TRANSITION_FORWARD_BACK)''
        (rbind (AddPendingItem G (load_url params) (load_referrer params) (load_transition_type params)
                 (initiation_of params) False (load_https_upgrade_type params)
                 (nav_emit [ClearDialogs, RecordPageStateInNavigationItem] M)) (\<lambda>M.
         rbind (describe_pending G params M) (\<lambda>M.
         if attached_to_web_view M then Inr (nav_emit [LoadCurrentItem (initiation_of params)] M)
         else dcheck (pending_item_index M = -1) ''pending_item_index_ == -1''
           (if pending_item M \<noteq> None \<and> GetBackForwardListItemCount M > 0
            then rbind (ReleaseCachedItems M) (\<lambda>(cached, M).
              let next = GetCurrentItemIndex M + 1 in
              dcheck (next > 0) ''next_item_index > 0''
               (rbind (Restore G (LoadURLWithParams n G) next
                        ((resize (nat next + 1) cached)[nat next := pending_item M])
                        (M\<lparr>pending_item := None\<rparr>)) (\<lambda>M.
                dcheck (attached_to_web_view M) ''web_view_cache_.IsAttachedToWebView()'' (Inr M))))
            else Inr (nav_emit [LoadCurrentItem (initiation_of params)] (ResetToAttached M)))))))"

text \<open>Two rounds are enough: see \<open>load_fuel\<close>.\<close>

definition load_rounds :: nat where "load_rounds = 2"

abbreviation load_with_params :: "'u web_env \<Rightarrow> 'u load_params \<Rightarrow> 'u nav_manager \<Rightarrow> 'u nav_manager res" where
  "load_with_params \<equiv> LoadURLWithParams load_rounds"

abbreviation restore_session :: "'u web_env \<Rightarrow> int \<Rightarrow> item_ref option list \<Rightarrow> 'u nav_manager \<Rightarrow> 'u nav_manager res" where
  "restore_session G \<equiv> Restore G (load_with_params G)"

definition restore_cached :: "'u web_env \<Rightarrow> int \<Rightarrow> 'u nav_manager \<Rightarrow> 'u nav_manager res" where
  "restore_cached G index M = rbind (ReleaseCachedItems M) (\<lambda>(cached, M).
     rbind (restore_session G index cached M) (\<lambda>M.
     dcheck (attached_to_web_view M) ''web_view_cache_.IsAttachedToWebView()'' (Inr M)))"

definition LoadIfNecessary :: "'u web_env \<Rightarrow> 'u nav_manager \<Rightarrow> 'u nav_manager res" where
  "LoadIfNecessary G M =
     (if \<not> attached_to_web_view M then restore_cached G (GetCurrentItemIndex M) M
      else Inr (nav_emit [DelegateLoadIfNecessary] M))"

text \<open>\<^verbatim>\<open>RestoreItemsState\<close>, with the arithmetic of \<^verbatim>\<open>size_t\<close>.\<close>

fun restore_items_loop ::
    "'u web_env \<Rightarrow> nat \<Rightarrow> nat \<Rightarrow> item_ref option list \<Rightarrow> 'u nav_manager \<Rightarrow> 'u nav_manager res" where
  "restore_items_loop G cache_index cache_limit [] M = Inr M"
| "restore_items_loop G cache_index cache_limit (restore_item # rest) M =
     (if cache_index \<ge> cache_limit then Inr M
      else rbind (cache_GetNavigationItemImplAtIndex G cache_index True M) (\<lambda>(cached, M).
        rbind (case (cached, restore_item) of
            (Some c, Some r) \<Rightarrow>
              rbind (if IsRestoreSessionUrl G (item_url (item_at c M))
                     then rbind (ExtractTargetURL G (item_url (item_at c M))) (\<lambda>t.
                       Inr (case t of Some u \<Rightarrow> u = item_url (item_at r M)
                            | None \<Rightarrow> item_url (item_at c M) = item_url (item_at r M)))
                     else Inr (item_url (item_at c M) = item_url (item_at r M))) (\<lambda>is_same_url.
              if is_same_url then try_update_item c (RestoreStateFromItem G (item_at r M)) M else Inr M)
          | _ \<Rightarrow> Inr M)
        (restore_items_loop G (cache_index + 1) cache_limit rest)))"

definition RestoreItemsState ::
    "'u web_env \<Rightarrow> RestoreItemListType \<Rightarrow> item_ref option list \<Rightarrow> 'u nav_manager \<Rightarrow> 'u nav_manager res" where
  "RestoreItemsState G list_type items_restored M =
     (let current = size_t_of (GetCurrentItemIndex M);
          offset = (if list_type = kBackList then 0 else (current + 1) mod 2 ^ 64);
          limit = (if list_type = kBackList then current else GetBackForwardListItemCount M)
      in restore_items_loop G offset limit items_restored M)"

fun run_restore_callback :: "'u web_env \<Rightarrow> 'u restore_callback \<Rightarrow> 'u nav_manager \<Rightarrow> 'u nav_manager res" where
  "run_restore_callback G (RestoreItemsCallback t items) M = RestoreItemsState G t items M"
| "run_restore_callback G (LoadCallback params) M = load_with_params G params M"
| "run_restore_callback G (ClientCallback n) M = Inr (nav_emit [RunClientCallback n] M)"

definition AddRestoreCompletionCallback ::
    "'u web_env \<Rightarrow> 'u restore_callback \<Rightarrow> 'u nav_manager \<Rightarrow> 'u nav_manager res" where
  "AddRestoreCompletionCallback G callback M =
     (if \<not> is_restore_session_in_progress M then run_restore_callback G callback M
      else Inr (push_restore_callback callback M))"

text \<open>The loop goes over the vector itself; a callback that adds to it invalidates the loop.\<close>

fun run_restore_callbacks :: "'u web_env \<Rightarrow> 'u restore_callback list \<Rightarrow> 'u nav_manager \<Rightarrow> 'u nav_manager res" where
  "run_restore_callbacks G [] M = Inr M"
| "run_restore_callbacks G (c # cs) M =
     rbind (run_restore_callback G c M) (\<lambda>M'.
       if length (restore_session_completion_callbacks M') \<noteq> length (restore_session_completion_callbacks M)
       then Inl (DanglingPointer ''restore_session_completion_callbacks_'')
       else run_restore_callbacks G cs M')"

definition FinalizeSessionRestore :: "'u web_env \<Rightarrow> 'u nav_manager \<Rightarrow> 'u nav_manager res" where
  "FinalizeSessionRestore G M =
     rbind (run_restore_callbacks G (restore_session_completion_callbacks M)
              (M\<lparr>is_restore_session_in_progress := False\<rparr>)) (\<lambda>M.
     LoadIfNecessary G (M\<lparr>restore_session_completion_callbacks := []\<rparr>))"

section \<open>Commits and the progress of a navigation\<close>

definition OnNavigationItemCommitted :: "'u web_env \<Rightarrow> 'u nav_manager \<Rightarrow> 'u nav_manager res" where
  "OnNavigationItemCommitted G M =
     rbind (GetLastCommittedItemInCurrentOrRestoredSession G M) (\<lambda>(item, M).
       case item of None \<Rightarrow> Inl (DCheckFailed ''item'')
       | Some r \<Rightarrow>
           let M = nav_emit [DelegateOnNavigationItemCommitted r] M
           in if IsRestoreSessionUrl G (item_url (item_at r M)) then Inr M
              else let M = M\<lparr>restored_visible_item := None\<rparr>
                   in if is_restore_session_in_progress M then FinalizeSessionRestore G M else Inr M)"

definition committed_index :: "'u nav_manager \<Rightarrow> int" where
  "committed_index M = (if empty_window_open_item M \<noteq> None then 0 else GetCurrentItemIndex M)"

definition no_history :: "'u web_view \<Rightarrow> bool" where
  "no_history v \<longleftrightarrow> back_list v = [] \<and> forward_list v = []"

definition kAboutBlankURL :: string where "kAboutBlankURL = ''about:blank''"

definition prepare_commit :: "item_ref \<Rightarrow> 'u nav_manager \<Rightarrow> 'u nav_manager" where
  "prepare_commit r M =
     (let (t, M) = smoothed_now M in update_item r (\<lambda>i. (ResetForCommit i)\<lparr>timestamp := t\<rparr>) M)"

definition CommitPendingItem :: "'u web_env \<Rightarrow> 'u nav_manager \<Rightarrow> 'u nav_manager res" where
  "CommitPendingItem G M =
     dcheck (attached_to_web_view M) ''web_view_cache_.IsAttachedToWebView()''
       (if pending_item_index M = -1 \<and> pending_item M = None then Inr (M\<lparr>empty_window_open_item := None\<rparr>)
        else rbind
          (case pending_item M of
             Some r \<Rightarrow>
               if pending_item_index M \<noteq> -1 then Inr M
               else let M = prepare_commit r M in
                 (case web_view M of
                    Some v \<Rightarrow>
                      if current_item v = None
                      then dcheck (take (length kAboutBlankURL) (gurl_spec G (web_view_url v)) = kAboutBlankURL)
                             ''base::StartsWith(GURLWithNSURL(proxy.URL).spec(), url::kAboutBlankURL)''
                           (dcheck (no_history v) ''0 == backList.count && 0 == forwardList.count''
                             (Inr (M\<lparr>empty_window_open_item := Some r\<rparr>)))
                      else SetNavigationItemInWKItem 0 r (M\<lparr>empty_window_open_item := None\<rparr>)
                  | None \<Rightarrow> SetNavigationItemInWKItem 0 r (M\<lparr>empty_window_open_item := None\<rparr>))
           | None \<Rightarrow> Inr M)
          (\<lambda>M. let M = M\<lparr>pending_item_index := -1, pending_item := None\<rparr>
               in OnNavigationItemCommitted G (M\<lparr>last_committed_item_index := committed_index M\<rparr>)))"

text \<open>Where an entry kept outside of the manager is hung on the list.\<close>

definition commit_offset :: "'u \<Rightarrow> 'u web_view \<Rightarrow> int" where
  "commit_offset url v =
     (let url_at = (\<lambda>offset. map_option wk_url (itemAtIndex offset v)) in
      if url_at 0 = Some url then 0
      else if url_at (-1) = Some url then -1
      else if url_at 1 = Some url then 1
      else 0)"

definition CommitPendingItemFrom :: "'u web_env \<Rightarrow> item_ref option \<Rightarrow> 'u nav_manager \<Rightarrow> 'u nav_manager res" where
  "CommitPendingItemFrom G item M =
     (case item of None \<Rightarrow> CommitPendingItem G M
      | Some r \<Rightarrow>
          dcheck (attached_to_web_view M) ''web_view_cache_.IsAttachedToWebView()''
            (let M = prepare_commit r M in
             rbind (case web_view M of
                      Some v \<Rightarrow>
                        if current_item v = None
                        then dcheck (no_history v) ''0 == backList.count && 0 == forwardList.count''
                               (Inr (M\<lparr>empty_window_open_item := Some r\<rparr>))
                        else SetNavigationItemInWKItem (commit_offset (item_url (item_at r M)) v) r
                               (M\<lparr>empty_window_open_item := None\<rparr>)
                    | None \<Rightarrow> SetNavigationItemInWKItem 0 r (M\<lparr>empty_window_open_item := None\<rparr>)) (\<lambda>M.
             OnNavigationItemCommitted G (M\<lparr>last_committed_item_index := committed_index M\<rparr>))))"

text \<open>The user agent of the restored session goes to the last committed entry.\<close>

definition restored_user_agent :: "'u nav_manager \<Rightarrow> UserAgentType" where
  "restored_user_agent M =
     (case restored_visible_item M of None \<Rightarrow> UserAgentNONE | Some r \<Rightarrow> user_agent_type (item_at r M))"

definition OnNavigationStarted :: "'u web_env \<Rightarrow> 'u \<Rightarrow> 'u nav_manager \<Rightarrow> 'u nav_manager res" where
  "OnNavigationStarted G url M =
     (if \<not> is_restore_session_in_progress M then Inr M
      else if IsRestoreSessionUrl G url
      then rbind (ExtractTargetURL G url) (\<lambda>t. Inr (if t = None then M\<lparr>restoration_timer := True\<rparr> else M))
      else let M = (if restoration_timer M
                    then (nav_emit [RecordRestoreNavigationTime] M)\<lparr>restoration_timer := False\<rparr> else M);
               index = GetLastCommittedItemIndexInCurrentOrRestoredSession M
           in dcheck (index \<noteq> -1 \<or> GetItemCount M = 0) ''index != -1 || 0 == GetItemCount()''
              (rbind (if index \<noteq> -1 \<and> restored_user_agent M \<noteq> UserAgentNONE
                      then rbind (GetNavigationItemImplAtIndex G (size_t_of index) M) (\<lambda>(last, M).
                        case last of None \<Rightarrow> Inl (DanglingPointer ''last_committed_item'')
                        | Some l \<Rightarrow> try_update_item l (SetUserAgentType G (restored_user_agent M)) M)
                      else Inr M)
                (FinalizeSessionRestore G)))"

text \<open>The web view is asked to restore the session itself; \<open>native\<close> is the view it has then.\<close>

definition RestoreNativeSession ::
    "'u web_env \<Rightarrow> 'u \<Rightarrow> 'u web_view option \<Rightarrow> 'u nav_manager \<Rightarrow> (bool \<times> 'u nav_manager) res" where
  "RestoreNativeSession G url native M =
     dcheck (is_restore_session_in_progress M) ''is_restore_session_in_progress_''
       (rbind (if IsRestoreSessionUrl G url then rbind (ExtractTargetURL G url) (\<lambda>t. Inr (t \<noteq> None))
               else Inr True) (\<lambda>other_page.
        case native of
          None \<Rightarrow> Inr (False, M)
        | Some v \<Rightarrow>
            if other_page then Inr (False, M)
            else let M = DiscardNonCommittedItems (M\<lparr>web_view := Some v\<rparr>);
                     M = M\<lparr>last_committed_item_index := GetCurrentItemIndex M\<rparr>
                 in rbind (if restored_user_agent M \<noteq> UserAgentNONE
                           then rbind (GetLastCommittedItemInCurrentOrRestoredSession G M) (\<lambda>(last, M).
                             case last of None \<Rightarrow> Inr M
                             | Some l \<Rightarrow> try_update_item l (SetUserAgentType G (restored_user_agent M)) M)
                           else Inr M) (\<lambda>M.
                    rbind (FinalizeSessionRestore G (M\<lparr>restored_visible_item := None\<rparr>)) (\<lambda>M. Inr (True, M)))))"

section \<open>Moving in the history\<close>

definition GoToIndexFrom ::
    "'u web_env \<Rightarrow> int \<Rightarrow> NavigationInitiationType \<Rightarrow> bool \<Rightarrow> 'u nav_manager \<Rightarrow> 'u nav_manager res" where
  "GoToIndexFrom G index initiation_type has_user_gesture M =
     (if index < 0 \<or> index \<ge> int (GetItemCount M) then Inl (NotReached ''GoToIndex'')
      else let M = nav_emit [RecordPageStateInNavigationItem, ClearDialogs] M
           in if \<not> attached_to_web_view M then restore_cached G index M
              else rbind (GetNavigationItemImplAtIndex G (nat index) (DiscardNonCommittedItems M)) (\<lambda>(item, M).
                case item of None \<Rightarrow> Inl (DanglingPointer ''item'')
                | Some r \<Rightarrow>
                    let M = update_item r (\<lambda>i. i\<lparr>transition_type :=
                              transition_type i OR PAGE_TRANSITION_FORWARD_BACK G\<rparr>) M
                    in rbind (GetWKItemAtIndex (nat index) M) (\<lambda>wk_item.
                       if wk_item \<noteq> None
                       then Inr (nav_emit [GoToBackForwardListItem (nat index) r initiation_type has_user_gesture] M)
                       else dcheck (index = 0 \<and> empty_window_open_item M \<noteq> None)
                              ''wk_item should not be nullptr'' (Inr M))))"

definition GoToIndex :: "'u web_env \<Rightarrow> int \<Rightarrow> 'u nav_manager \<Rightarrow> 'u nav_manager res" where
  "GoToIndex G index M =
     rbind (GetLastCommittedItemInCurrentOrRestoredSession G M) (\<lambda>(item, M).
       if (case item of None \<Rightarrow> False | Some r \<Rightarrow> IsRestoreSessionUrl G (item_url (item_at r M))) then Inr M
       else GoToIndexFrom G index BROWSER_INITIATED True M)"

definition GoBack :: "'u web_env \<Rightarrow> 'u nav_manager \<Rightarrow> 'u nav_manager res" where
  "GoBack G M = GoToIndex G (GetIndexForOffset (-1) M) M"

definition GoForward :: "'u web_env \<Rightarrow> 'u nav_manager \<Rightarrow> 'u nav_manager res" where
  "GoForward G M = GoToIndex G (GetIndexForOffset 1 M) M"

text \<open>The entry to reload gets the address that was asked for first.\<close>

definition reset_to_original_url :: "'u web_env \<Rightarrow> 'u nav_manager \<Rightarrow> 'u nav_manager res" where
  "reset_to_original_url G M =
     rbind (GetPendingItem G M) (\<lambda>(pending, M).
     rbind (if pending \<noteq> None then GetPendingItem G M else GetLastCommittedItemInCurrentOrRestoredSession G M)
       (\<lambda>(reload_item, M).
       case reload_item of None \<Rightarrow> Inl (DCheckFailed ''reload_item'')
       | Some r \<Rightarrow> Inr (update_item r (\<lambda>i. SetURL (original_request_url i) i) M)))"

definition Reload :: "'u web_env \<Rightarrow> ReloadType \<Rightarrow> 'u nav_manager \<Rightarrow> 'u nav_manager res" where
  "Reload G reload_type M =
     (if is_restore_session_in_progress M then Inr M
      else rbind (GetPendingItem G M) (\<lambda>(pending, M).
        rbind (if pending \<noteq> None then Inr (pending, M) else GetLastCommittedItemInCurrentOrRestoredSession G M)
          (\<lambda>(item, M).
          if item = None then Inr M
          else rbind (if reload_type = ORIGINAL_REQUEST_URL then reset_to_original_url G (nav_emit [ClearDialogs] M)
                      else Inr (nav_emit [ClearDialogs] M)) (\<lambda>M.
            if \<not> attached_to_web_view M then restore_cached G (GetCurrentItemIndex M) M
            else Inr (nav_emit [DelegateReload] M)))))"

definition ReloadWithUserAgentType :: "'u web_env \<Rightarrow> UserAgentType \<Rightarrow> 'u nav_manager \<Rightarrow> 'u nav_manager res" where
  "ReloadWithUserAgentType G user_agent M =
     dcheck (user_agent \<noteq> UserAgentNONE) ''user_agent_type != UserAgentType::NONE''
       (rbind (GetVisibleItem G M) (\<lambda>(visible, M).
        rbind (if visible \<noteq> None then Inr (visible, M) else GetLastCommittedItemImpl G M) (\<lambda>(item, M).
        case item of None \<Rightarrow> Inr M
        | Some r \<Rightarrow>
            let i = item_at r M;
                reload_url = (if gurl_is_empty G (original_request_url i) then GetVirtualURL G i
                              else original_request_url i);
                params = (WebLoadParams G reload_url)
                  \<lparr>load_virtual_url := (if GetVirtualURL G i \<noteq> reload_url then GetVirtualURL G i else gurl_empty G),
                   load_referrer := item_referrer i, load_transition_type := PAGE_TRANSITION_RELOAD G\<rparr>
            in rbind (try_update_item r (SetUserAgentType G user_agent) (nav_emit [SetWebStateUserAgent user_agent] M))
                 (load_with_params G params))))"

end
