(* ===== verification/Navigation_Heap.thy ===== *)
theory Navigation_Heap
  imports Navigation_Manager Event_System
begin

text \<open>
  Pointers of the navigation manager.  Its entries live on a heap, and pointers to them are held by
  the manager itself, by the cache of the web view, by the items of the web view's back-forward list
  and by callbacks that wait for the end of a restoration.  Every operation keeps all of them
  allocated, and what a getter returns is allocated too.  Getters create entries on demand, but
  change nothing else (\<open>same_shape\<close>).
\<close>

section \<open>Pointers\<close>

definition wk_items :: "'u web_view \<Rightarrow> 'u wk_item set" where
  "wk_items v = set (back_list v) \<union> set_option (current_item v) \<union> set (forward_list v)"

fun callback_refs :: "'u restore_callback \<Rightarrow> item_ref set" where
  "callback_refs (RestoreItemsCallback t items) = {r. Some r \<in> set items}"
| "callback_refs (LoadCallback params) = {}"
| "callback_refs (ClientCallback n) = {}"

definition nav_refs :: "'u nav_manager \<Rightarrow> item_ref set" where
  "nav_refs M = set_option (pending_item M) \<union> set_option (empty_window_open_item M) \<union>
     set_option (last_committed_web_view_item M) \<union> set_option (restored_visible_item M) \<union>
     set_option (delegate_pending_item M) \<union> {r. Some r \<in> set (cached_items M)} \<union>
     (\<Union>w \<in> (case web_view M of None \<Rightarrow> {} | Some v \<Rightarrow> wk_items v). set_option (wk_navigation_item w)) \<union>
     (\<Union>c \<in> set (restore_session_completion_callbacks M). callback_refs c)"

definition refs_ok :: "'u nav_manager \<Rightarrow> bool" where
  "refs_ok M \<longleftrightarrow> nav_refs M \<subseteq> {..<next_ref M}"

text \<open>\<open>later\<close>: the heap has grown and all pointers are allocated.\<close>

definition later :: "'u nav_manager \<Rightarrow> 'u nav_manager \<Rightarrow> bool" where
  "later M M' \<longleftrightarrow> next_ref M \<le> next_ref M' \<and> refs_ok M'"

lemma later_refl: "refs_ok M \<Longrightarrow> later M M"
  by (simp add: later_def)

lemma later_trans: "later M M' \<Longrightarrow> later M' M'' \<Longrightarrow> later M M''"
  by (simp add: later_def)

lemma later_ok: "later M M' \<Longrightarrow> refs_ok M'"
  by (simp add: later_def)

section \<open>What getters leave alone\<close>

definition bare :: "'u wk_item \<Rightarrow> 'u wk_item" where
  "bare w = w\<lparr>wk_navigation_item := None\<rparr>"

definition bare_view :: "'u web_view \<Rightarrow> 'u web_view" where
  "bare_view v = v\<lparr>back_list := map bare (back_list v), current_item := map_option bare (current_item v),
     forward_list := map bare (forward_list v)\<rparr>"

definition same_shape :: "'u nav_manager \<Rightarrow> 'u nav_manager \<Rightarrow> bool" where
  "same_shape M M' \<longleftrightarrow>
     transient_url_rewriters M' = transient_url_rewriters M \<and> pending_item M' = pending_item M \<and>
     pending_item_index M' = pending_item_index M \<and> last_committed_item_index M' = last_committed_item_index M \<and>
     empty_window_open_item M' = empty_window_open_item M \<and> attached_to_web_view M' = attached_to_web_view M \<and>
     cached_items M' = cached_items M \<and> cached_current_item_index M' = cached_current_item_index M \<and>
     is_restore_session_in_progress M' = is_restore_session_in_progress M \<and>
     going_to_back_forward_list_item M' = going_to_back_forward_list_item M \<and>
     next_pending_url_should_skip_serialization M' = next_pending_url_should_skip_serialization M \<and>
     restoration_timer M' = restoration_timer M \<and> restored_visible_item M' = restored_visible_item M \<and>
     restore_session_completion_callbacks M' = restore_session_completion_callbacks M \<and>
     has_web_state M' = has_web_state M \<and> is_loading M' = is_loading M \<and> document_url M' = document_url M \<and>
     delegate_pending_item M' = delegate_pending_item M \<and> now M' = now M \<and> nav_log M' = nav_log M \<and>
     map_option bare_view (web_view M') = map_option bare_view (web_view M)"

lemma same_shape_refl: "same_shape M M"
  by (simp add: same_shape_def)

lemma same_shape_trans: "same_shape M M' \<Longrightarrow> same_shape M' M'' \<Longrightarrow> same_shape M M''"
  by (simp add: same_shape_def)

lemma same_shape_view:
  assumes "same_shape M M'" "web_view M' = Some v'"
  obtains v where "web_view M = Some v" "bare_view v' = bare_view v"
proof -
  have "map_option bare_view (web_view M') = map_option bare_view (web_view M)" using assms(1) by (simp add: same_shape_def)
  then show thesis using assms(2) that by (cases "web_view M") auto
qed

lemma same_shape_fields:
  assumes "same_shape M M'"
  shows "pending_item M' = pending_item M" "pending_item_index M' = pending_item_index M"
    "empty_window_open_item M' = empty_window_open_item M" "attached_to_web_view M' = attached_to_web_view M"
    "going_to_back_forward_list_item M' = going_to_back_forward_list_item M" "has_web_state M' = has_web_state M"
    "is_loading M' = is_loading M" "document_url M' = document_url M" "delegate_pending_item M' = delegate_pending_item M"
    "is_restore_session_in_progress M' = is_restore_session_in_progress M" "nav_log M' = nav_log M"
    "restored_visible_item M' = restored_visible_item M"
  using assms by (simp_all add: same_shape_def)

lemma bare_view_eqD:
  assumes "bare_view v' = bare_view v"
  shows "web_view_url v' = web_view_url v" "length (back_list v') = length (back_list v)"
    "length (forward_list v') = length (forward_list v)" "(current_item v' = None) = (current_item v = None)"
    "map_option bare (itemAtIndex k v') = map_option bare (itemAtIndex k v)"
proof -
  have eqs: "web_view_url v' = web_view_url v" "map bare (back_list v') = map bare (back_list v)"
      "map_option bare (current_item v') = map_option bare (current_item v)"
      "map bare (forward_list v') = map bare (forward_list v)"
    using assms by (cases v; cases v'; simp add: bare_view_def)+
  show "web_view_url v' = web_view_url v" by (rule eqs(1))
  show b: "length (back_list v') = length (back_list v)" using arg_cong [OF eqs(2), of length] by simp
  show f: "length (forward_list v') = length (forward_list v)" using arg_cong [OF eqs(4), of length] by simp
  show "(current_item v' = None) = (current_item v = None)" using eqs(3) by (cases "current_item v") auto
  have "bare (back_list v' ! i) = bare (back_list v ! i)" if "i < length (back_list v)" for i
    using arg_cong [OF eqs(2), of "\<lambda>xs. xs ! i"] b that by simp
  moreover have "bare (forward_list v' ! i) = bare (forward_list v ! i)" if "i < length (forward_list v)" for i
    using arg_cong [OF eqs(4), of "\<lambda>xs. xs ! i"] f that by simp
  ultimately show "map_option bare (itemAtIndex k v') = map_option bare (itemAtIndex k v)"
    using eqs(3) b f by (auto simp: itemAtIndex_def)
qed

lemma bare_view_eq:
  "bare_view v' = bare_view v \<Longrightarrow> web_view_url v' = web_view_url v \<and> length (back_list v') = length (back_list v) \<and>
     length (forward_list v') = length (forward_list v) \<and> (current_item v' = None) = (current_item v = None)"
  using bare_view_eqD [of v' v] by blast

lemma same_shape_simps:
  assumes "same_shape M M'"
  shows "GetBackForwardListItemCount M' = GetBackForwardListItemCount M"
    "GetCurrentItemIndex M' = GetCurrentItemIndex M" "GetVisibleWebViewURL G M' = GetVisibleWebViewURL G M"
    "GetItemCount M' = GetItemCount M"
    "GetLastCommittedItemIndexInCurrentOrRestoredSession M' = GetLastCommittedItemIndexInCurrentOrRestoredSession M"
proof -
  have v: "map_option bare_view (web_view M') = map_option bare_view (web_view M)"
    using assms by (simp add: same_shape_def)
  have eq: "attached_to_web_view M' = attached_to_web_view M" "cached_items M' = cached_items M"
      "cached_current_item_index M' = cached_current_item_index M"
      "empty_window_open_item M' = empty_window_open_item M" "pending_item_index M' = pending_item_index M"
      "last_committed_item_index M' = last_committed_item_index M"
    using assms by (simp_all add: same_shape_def)
  show c: "GetBackForwardListItemCount M' = GetBackForwardListItemCount M"
    and i: "GetCurrentItemIndex M' = GetCurrentItemIndex M" and "GetVisibleWebViewURL G M' = GetVisibleWebViewURL G M"
    using v eq by (auto simp: GetBackForwardListItemCount_def GetCurrentItemIndex_def GetVisibleWebViewURL_def
        split: option.splits dest!: bare_view_eq)
  show "GetItemCount M' = GetItemCount M"
    "GetLastCommittedItemIndexInCurrentOrRestoredSession M' = GetLastCommittedItemIndexInCurrentOrRestoredSession M"
    using c i eq by (simp_all add: GetItemCount_def GetLastCommittedItemIndexInCurrentOrRestoredSession_def)
qed

text \<open>What a getter promises: \<open>got M x M'\<close> for the result \<open>x\<close> and the state \<open>M'\<close> afterwards.\<close>

definition got :: "'u nav_manager \<Rightarrow> item_ref option \<Rightarrow> 'u nav_manager \<Rightarrow> bool" where
  "got M x M' \<longleftrightarrow> later M M' \<and> same_shape M M' \<and> (\<forall>r. x = Some r \<longrightarrow> r < next_ref M')"

lemma got_None: "refs_ok M \<Longrightarrow> got M None M"
  by (simp add: got_def later_refl same_shape_refl)

lemma got_Some: "refs_ok M \<Longrightarrow> r \<in> nav_refs M \<Longrightarrow> got M (Some r) M"
  by (auto simp: got_def later_refl same_shape_refl refs_ok_def)

lemma got_trans: "got M x M' \<Longrightarrow> got M' y M'' \<Longrightarrow> got M y M''"
  by (auto simp: got_def intro: later_trans same_shape_trans)

lemma gotD:
  assumes "got M x M'"
  shows "later M M'" "refs_ok M'" "same_shape M M'" "x = Some r \<Longrightarrow> r < next_ref M'"
  using assms by (auto simp: got_def later_def)

section \<open>The operations on the heap and on the list\<close>

lemma laterI:
  "refs_ok M \<Longrightarrow> next_ref M \<le> next_ref M' \<Longrightarrow> nav_refs M' \<subseteq> nav_refs M \<union> {..<next_ref M'} \<Longrightarrow> later M M'"
  by (fastforce simp: later_def refs_ok_def)

lemma update_item_heap [simp]:
  "nav_refs (update_item r f M) = nav_refs M" "next_ref (update_item r f M) = next_ref M"
  "same_shape M' (update_item r f M) = same_shape M' M" "refs_ok (update_item r f M) = refs_ok M"
  "later M' (update_item r f M) = later M' M" "later (update_item r f M) M' = later M M'"
  "same_shape (update_item r f M) M' = same_shape M M'"
  by (simp_all add: update_item_def nav_refs_def refs_ok_def later_def same_shape_def)

lemma got_update_item [simp]: "got M' x (update_item r f M) = got M' x M" "got (update_item r f M) x M' = got M x M'"
  by (simp_all add: got_def)

lemma smoothed_now_heap:
  assumes "smoothed_now M = (t, M')"
  shows "nav_refs M' = nav_refs M" "next_ref M' = next_ref M" "same_shape M M'" "item_store M' = item_store M"
    "web_view M' = web_view M" "last_committed_web_view_item M' = last_committed_web_view_item M"
  using assms by (auto simp: smoothed_now_def nav_refs_def same_shape_def split: prod.splits)

lemma got_smoothed_now:
  "smoothed_now M = (t, M') \<Longrightarrow> got M0 x M \<Longrightarrow> got M0 x M'"
  using smoothed_now_heap [of M t M'] same_shape_trans [of M0 M M'] by (auto simp: got_def later_def refs_ok_def)

lemma new_item_heap:
  assumes "new_item i M = (r, M')"
  shows "nav_refs M' = nav_refs M" "next_ref M' = Suc r" "r = next_ref M" "same_shape M M'" "web_view M' = web_view M"
    "item_store M' = (item_store M)(r := i)"
  using assms by (auto simp: new_item_def nav_refs_def same_shape_def)

lemma got_new_item:
  assumes "new_item i M = (r, M')" "refs_ok M"
  shows "got M (Some r) M'"
  using new_item_heap [OF assms(1)] assms(2) by (auto simp: got_def later_def refs_ok_def)

lemma create_item_got:
  assumes "create_item G url ref tr init up prev add src M = (r, M')" "refs_ok M"
  shows "got M (Some r) M'" "nav_refs M' = nav_refs M" "web_view M' = web_view M" "r = next_ref M"
    "item_url (item_at r M') = loaded_url G add url tr init prev" "r' \<noteq> r \<Longrightarrow> item_at r' M' = item_at r' M"
proof -
  let ?M = "M\<lparr>unique_id_counter := unique_id_counter M + 1\<rparr>"
  obtain i where n: "new_item i ?M = (r, M')" "item_url i = loaded_url G add url tr init prev"
    using assms(1) by (auto simp: create_item_def Let_def SetURL_def)
  have M: "nav_refs ?M = nav_refs M" "refs_ok ?M = refs_ok M" "later ?M M' = later M M'"
      "same_shape ?M M' = same_shape M M'"
    by (simp_all add: nav_refs_def refs_ok_def later_def same_shape_def)
  show "got M (Some r) M'" using got_new_item [OF n(1)] assms(2) M by (simp add: got_def)
  show "nav_refs M' = nav_refs M" "web_view M' = web_view M" "r = next_ref M"
      "item_url (item_at r M') = loaded_url G add url tr init prev" "r' \<noteq> r \<Longrightarrow> item_at r' M' = item_at r' M"
    using new_item_heap [OF n(1)] M n(2) by (simp_all add: item_at_def)
qed

lemma attach_item_items:
  "itemAtIndex k v \<noteq> None \<Longrightarrow> w \<in> wk_items (attach_item k r v) \<Longrightarrow> w \<in> wk_items v \<or> wk_navigation_item w = Some r"
  by (auto simp: attach_item_def wk_items_def Let_def itemAtIndex_def split: if_splits
    dest!: subsetD [OF set_update_subset_insert])

lemma attach_item_bare: "bare_view (attach_item k r v) = bare_view v"
proof -
  have "map bare (xs[i := (xs ! i)\<lparr>wk_navigation_item := Some r\<rparr>]) = map bare xs" for i and xs :: "'a wk_item list"
    by (cases "i < length xs") (auto simp: nth_list_update bare_def intro!: nth_equalityI)
  then show ?thesis
    by (cases "current_item v") (auto simp: bare_view_def attach_item_def Let_def bare_def)
qed

lemma SetNavigationItemInWKItem_got:
  assumes "SetNavigationItemInWKItem k r M = Inr M'" "refs_ok M" "r < next_ref M"
  shows "got M (Some r) M'"
proof -
  obtain v where v: "web_view M = Some v" "itemAtIndex k v \<noteq> None" "M' = M\<lparr>web_view := Some (attach_item k r v)\<rparr>"
    using assms(1) by (auto simp: SetNavigationItemInWKItem_def res_simps split: option.splits)
  then have "nav_refs M' \<subseteq> insert r (nav_refs M)"
    using attach_item_items [OF v(2), of _ r] by (fastforce simp: nav_refs_def)
  then show ?thesis
    using v assms(2,3) by (auto simp: got_def same_shape_def attach_item_bare intro!: laterI)
qed

section \<open>Getters\<close>

lemma itemAtIndex_in: "itemAtIndex k v = Some w \<Longrightarrow> w \<in> wk_items v"
  by (auto simp: itemAtIndex_def wk_items_def split: if_splits)

lemma GetWKItemAtIndex_in:
  "GetWKItemAtIndex i M = Inr (Some w) \<Longrightarrow> \<exists>v. web_view M = Some v \<and> w \<in> wk_items v"
  by (auto simp: GetWKItemAtIndex_def res_simps split: if_splits option.splits intro: itemAtIndex_in)

lemma wk_item_ref:
  "GetWKItemAtIndex i M = Inr (Some w) \<Longrightarrow> wk_navigation_item w = Some r \<Longrightarrow> r \<in> nav_refs M"
  using GetWKItemAtIndex_in by (fastforce simp: nav_refs_def)

lemma yields_extract: "(\<And>x. Q x) \<Longrightarrow> yields (ExtractTargetURL G url) Q"
  by (rule yields_any)

lemma got_opt: "refs_ok M \<Longrightarrow> (\<And>r. x = Some r \<Longrightarrow> r \<in> nav_refs M) \<Longrightarrow> got M x M"
  by (cases x) (auto intro: got_None got_Some)

lemma SetNavigationItemInWKItem_yields:
  "got M (Some r) M' \<Longrightarrow> yields (SetNavigationItemInWKItem k r M') (\<lambda>M''. got M (Some r) M'')"
  using SetNavigationItemInWKItem_got [of k r M'] gotD [of M "Some r" M'] by (auto simp: yields_def intro: got_trans)

lemma create_wk_item_got:
  assumes "refs_ok M"
  shows "yields (create_wk_item G index w M) (\<lambda>(x, M'). got M x M')"
  unfolding create_wk_item_def using assms
  by (auto simp: yields_simps Let_def split: prod.split option.split
    intro!: yields_any SetNavigationItemInWKItem_yields dest!: create_item_got(1) dest: got_smoothed_now)

lemma cached_item_in:
  "\<not> GetBackForwardListItemCount M \<le> index \<Longrightarrow> \<not> attached_to_web_view M \<Longrightarrow> cached_items M ! index = Some r \<Longrightarrow> r \<in> nav_refs M"
  by (force simp: nav_refs_def GetBackForwardListItemCount_def in_set_conv_nth)

lemma cache_item_got:
  assumes "refs_ok M"
  shows "yields (cache_GetNavigationItemImplAtIndex G index create M) (\<lambda>(x, M'). got M x M')"
  unfolding cache_GetNavigationItemImplAtIndex_def using assms
  by (auto simp: yields_simps yields_def [of "GetWKItemAtIndex index M"] split: option.split
    intro!: create_wk_item_got got_opt intro: cached_item_in wk_item_ref)

text \<open>A getter followed by the rest of an operation.\<close>

abbreviation gets :: "'u nav_manager \<Rightarrow> (item_ref option \<times> 'u nav_manager) res \<Rightarrow> bool" where
  "gets M m \<equiv> yields m (\<lambda>(x, M'). got M x M')"

named_theorems nav_gets \<open>getters keep the pointers allocated and the rest as it is\<close>

lemma gets_cont:
  assumes "gets M m" "\<And>x M'. got M x M' \<Longrightarrow> Q (x, M')"
  shows "yields m Q"
  using assms by (auto simp: yields_def)

lemma gets_trans: "got M x M' \<Longrightarrow> gets M' m \<Longrightarrow> gets M m"
  by (auto elim!: yields_weaken intro: got_trans)

lemma gets_after: "got M x M' \<Longrightarrow> (refs_ok M' \<Longrightarrow> gets M' m) \<Longrightarrow> gets M m"
  using gets_trans gotD(2) by blast

lemma got_forget: "got M x M' \<Longrightarrow> got M None M'"
  by (simp add: got_def)

lemma got_same: "got M x M' \<Longrightarrow> got M y M' \<longleftrightarrow> (\<forall>r. y = Some r \<longrightarrow> r < next_ref M')"
  by (simp add: got_def)

lemma field_refs:
  "pending_item M = Some r \<Longrightarrow> r \<in> nav_refs M" "empty_window_open_item M = Some r \<Longrightarrow> r \<in> nav_refs M"
  "last_committed_web_view_item M = Some r \<Longrightarrow> r \<in> nav_refs M" "restored_visible_item M = Some r \<Longrightarrow> r \<in> nav_refs M"
  "delegate_pending_item M = Some r \<Longrightarrow> r \<in> nav_refs M" "Some r \<in> set (cached_items M) \<Longrightarrow> r \<in> nav_refs M"
  by (simp_all add: nav_refs_def)

lemma GetNavigationItemImplAtIndex_gets [nav_gets]:
  "refs_ok M \<Longrightarrow> gets M (GetNavigationItemImplAtIndex G index M)"
  by (auto simp: GetNavigationItemImplAtIndex_def yields_simps intro!: got_opt cache_item_got intro: field_refs)

lemma got_view_field:
  assumes "got M (Some r) M'"
  shows "got M (Some r) (M'\<lparr>last_committed_web_view_item := Some r\<rparr>)"
proof -
  have "nav_refs (M'\<lparr>last_committed_web_view_item := Some r\<rparr>) \<subseteq> insert r (nav_refs M')" by (auto simp: nav_refs_def)
  then show ?thesis using assms by (auto simp: got_def same_shape_def later_def refs_ok_def)
qed

lemma untrusted_item_got: "refs_ok M \<Longrightarrow> untrusted_item G M = (r, M') \<Longrightarrow> got M (Some r) M'"
  by (auto simp: untrusted_item_def Let_def split: option.splits prod.splits intro!: got_view_field
    dest: create_item_got(1) intro: got_Some field_refs)

lemma web_view_item_gets:
  "refs_ok M \<Longrightarrow> yields (web_view_item G M) (\<lambda>(r, M'). got M (Some r) M')"
  by (auto simp: web_view_item_def yields_simps Let_def split: prod.split intro!: yields_any
    dest!: untrusted_item_got dest: got_smoothed_now)

lemma GetLastCommitted_gets [nav_gets]:
  assumes "refs_ok M"
  shows "gets M (GetLastCommittedItemInCurrentOrRestoredSession G M)"
proof -
  have "yields (web_view_item G M') (\<lambda>x. gets M (case x of (v, M) \<Rightarrow> Inr (Some v, M)))" if "got M (Some r) M'" for r M'
    using web_view_item_gets [OF gotD(2) [OF that], of G]
    by (auto elim!: yields_weaken simp: yields_Inr intro: got_trans [OF that])
  then show ?thesis
    using assms
    by (auto simp: GetLastCommittedItemInCurrentOrRestoredSession_def Let_def yields_simps
      split: option.split intro!: got_opt gets_cont [OF GetNavigationItemImplAtIndex_gets]
      elim!: yields_weaken dest: gotD(1) intro: field_refs got_None)
qed

lemma GetLastCommittedItemImpl_gets [nav_gets]: "refs_ok M \<Longrightarrow> gets M (GetLastCommittedItemImpl G M)"
  by (auto simp: GetLastCommittedItemImpl_def yields_simps got_None got_same split: option.split
    intro!: gets_cont [OF GetLastCommitted_gets] dest: gotD(4))

lemma GetPendingInCurrent_gets [nav_gets]: "refs_ok M \<Longrightarrow> gets M (GetPendingItemInCurrentOrRestoredSession G M)"
  by (auto simp: GetPendingItemInCurrentOrRestoredSession_def yields_simps intro!: nav_gets got_opt
    intro: field_refs split: if_splits)

lemma GetPendingItem_gets [nav_gets]: "refs_ok M \<Longrightarrow> gets M (GetPendingItem G M)"
  by (simp add: GetPendingItem_def yields_simps got_None nav_gets)

lemma GetCurrentItemImpl_gets [nav_gets]:
  assumes "refs_ok M"
  shows "gets M (GetCurrentItemImpl G M)"
  unfolding GetCurrentItemImpl_def yields_rbind
  by (rule gets_cont [OF GetPendingInCurrent_gets [OF assms]])
    (auto simp: yields_Inr elim!: gets_after [OF _ GetLastCommitted_gets])

lemma visible_committed_gets:
  "refs_ok M \<Longrightarrow> gets M (rbind (GetLastCommittedItemInCurrentOrRestoredSession G M) (\<lambda>(result, M).
     Inr (case result of None \<Rightarrow> None
          | Some r \<Rightarrow> if IsRestoreSessionUrl G (item_url (item_at r M)) then Some r else None, M)))"
  by (auto simp: yields_simps got_same split: option.split intro!: gets_cont [OF GetLastCommitted_gets] dest: gotD(4))

lemma GetVisibleItem_gets [nav_gets]:
  assumes "refs_ok M"
  shows "gets M (GetVisibleItem G M)"
proof -
  let ?rest = "\<lambda>M. rbind (GetLastCommittedItemImpl G M) (\<lambda>(last, M).
    if last \<noteq> None then Inr (last, M)
    else rbind (GetLastCommittedItemInCurrentOrRestoredSession G M) (\<lambda>(result, M).
      Inr (case result of None \<Rightarrow> None
           | Some r \<Rightarrow> if IsRestoreSessionUrl G (item_url (item_at r M)) then Some r else None, M)))"
  have "gets M (?rest M)" if "refs_ok M" for M :: "'a nav_manager"
    unfolding yields_rbind [of "GetLastCommittedItemImpl G M"]
    by (rule gets_cont [OF GetLastCommittedItemImpl_gets [OF that]])
      (auto simp: yields_Inr simp del: not_None_eq elim!: gets_after intro!: visible_committed_gets)
  note rest = this
  show ?thesis
  proof (cases "is_restore_session_in_progress M \<or> restored_visible_item M \<noteq> None")
    case True
    then show ?thesis using assms by (auto simp: GetVisibleItem_def yields_Inr intro: got_opt field_refs)
  next
    case False
    show ?thesis
      unfolding GetVisibleItem_def if_not_P [OF False] yields_rbind [of "GetPendingItemInCurrentOrRestoredSession G M"]
      by (rule gets_cont [OF GetPendingInCurrent_gets [OF assms]])
        (auto simp: yields_Inr simp del: not_None_eq elim!: gets_after intro!: rest)
  qed
qed

text \<open>Getters of indices, and searches.\<close>

lemma GetLastCommittedItemIndex_got:
  "refs_ok M \<Longrightarrow> yields (GetLastCommittedItemIndex G M) (\<lambda>(i, M'). got M None M')"
  by (auto simp: GetLastCommittedItemIndex_def yields_simps got_None split: option.split
    intro!: gets_cont [OF GetLastCommitted_gets] intro: got_forget)

lemma find_item_index_got:
  "refs_ok M \<Longrightarrow> yields (find_item_index G item is M) (\<lambda>(i, M'). got M None M')"
proof (induction "is" arbitrary: M)
  case (Cons i "is")
  have "yields (find_item_index G item is M') (\<lambda>(i, M'). got M None M')" if "got M x M'" for x M'
    using Cons.IH [OF gotD(2) [OF that]] by (auto elim!: yields_weaken intro: got_trans [OF that])
  then show ?case
    using Cons.prems by (auto simp: yields_simps got_same intro!: gets_cont [OF cache_item_got])
qed (simp add: yields_simps got_None)

lemma GetIndexOfItem_got: "refs_ok M \<Longrightarrow> yields (GetIndexOfItem G item M) (\<lambda>(i, M'). got M None M')"
  by (simp add: GetIndexOfItem_def yields_simps got_None find_item_index_got)

lemma items_at_got:
  "refs_ok M \<Longrightarrow> yields (items_at G is M) (\<lambda>(rs, M'). got M None M' \<and> (\<forall>r. Some r \<in> set rs \<longrightarrow> r < next_ref M'))"
proof (induction "is" arbitrary: M)
  case (Cons i "is")
  have "yields (items_at G is M') (\<lambda>(rs, M''). got M None M'' \<and> (\<forall>r. Some r \<in> set (x # rs) \<longrightarrow> r < next_ref M''))"
    if "got M x M'" for x M'
    using Cons.IH [OF gotD(2) [OF that]] that
    by (auto elim!: yields_weaken intro: got_trans) (auto simp: got_def later_def)
  then show ?case
    using Cons.prems
    by (auto simp: yields_simps case_prod_unfold intro!: gets_cont [OF GetNavigationItemImplAtIndex_gets])
qed (simp add: yields_simps got_None)

lemma last_item_with_user_agent_gets:
  "refs_ok M \<Longrightarrow> gets M (last_item_with_user_agent G is M)"
proof (induction "is" arbitrary: M)
  case (Cons i "is")
  show ?case
    using Cons.prems
    by (auto simp: yields_simps split: option.split intro!: gets_cont [OF GetNavigationItemImplAtIndex_gets]
      elim!: gets_after [OF _ Cons.IH])
qed (simp add: yields_simps got_None)

lemma GetLastCommittedItemWithUserAgentType_gets [nav_gets]:
  "refs_ok M \<Longrightarrow> gets M (GetLastCommittedItemWithUserAgentType G M)"
  by (simp add: GetLastCommittedItemWithUserAgentType_def last_item_with_user_agent_gets)

section \<open>Operations\<close>

abbreviation steps :: "'u nav_manager \<Rightarrow> 'u nav_manager res \<Rightarrow> bool" where
  "steps M m \<equiv> yields m (later M)"

definition refs_in :: "item_ref option list \<Rightarrow> 'u nav_manager \<Rightarrow> bool" where
  "refs_in items M \<longleftrightarrow> (\<forall>r. Some r \<in> set items \<longrightarrow> r < next_ref M)"

lemma refs_in_later: "refs_in items M \<Longrightarrow> later M M' \<Longrightarrow> refs_in items M'"
  by (fastforce simp: refs_in_def later_def)

lemma steps_after: "later M M' \<Longrightarrow> (refs_ok M' \<Longrightarrow> steps M' m) \<Longrightarrow> steps M m"
  by (auto simp: yields_def dest: later_ok intro: later_trans)

lemma later_nonref [simp]:
  "later M0 (M\<lparr>pending_item_index := i\<rparr>) = later M0 M" "later M0 (M\<lparr>last_committed_item_index := i\<rparr>) = later M0 M"
  "later M0 (M\<lparr>is_restore_session_in_progress := b\<rparr>) = later M0 M" "later M0 (M\<lparr>transient_url_rewriters := ws\<rparr>) = later M0 M"
  "later M0 (M\<lparr>next_pending_url_should_skip_serialization := u\<rparr>) = later M0 M"
  "later M0 (M\<lparr>restoration_timer := b\<rparr>) = later M0 M" "later M0 (nav_emit es M) = later M0 M"
  "later M0 (M\<lparr>cached_current_item_index := i\<rparr>) = later M0 M" "later (M\<lparr>cached_current_item_index := i\<rparr>) M0 = later M M0"
  "later M0 (M\<lparr>attached_to_web_view := b\<rparr>) = later M0 M"
  by (simp_all add: later_def refs_ok_def nav_refs_def nav_emit_def)

lemma later_ref:
  assumes "later M0 M"
  shows "\<forall>r. x = Some r \<longrightarrow> r < next_ref M \<Longrightarrow> later M0 (M\<lparr>pending_item := x\<rparr>)"
    "\<forall>r. x = Some r \<longrightarrow> r < next_ref M \<Longrightarrow> later M0 (M\<lparr>empty_window_open_item := x\<rparr>)"
    "\<forall>r. x = Some r \<longrightarrow> r < next_ref M \<Longrightarrow> later M0 (M\<lparr>restored_visible_item := x\<rparr>)"
    "refs_in cs M \<Longrightarrow> later M0 (M\<lparr>cached_items := cs\<rparr>)"
    "\<forall>c \<in> set ks. callback_refs c \<subseteq> {..<next_ref M} \<Longrightarrow> later M0 (M\<lparr>restore_session_completion_callbacks := ks\<rparr>)"
    "\<forall>w \<in> (case v of None \<Rightarrow> {} | Some v \<Rightarrow> wk_items v). \<forall>r. wk_navigation_item w = Some r \<longrightarrow> r < next_ref M \<Longrightarrow>
       later M0 (M\<lparr>web_view := v\<rparr>)"
  using assms unfolding later_def refs_ok_def refs_in_def by (auto simp: nav_refs_def)

lemma later_got: "got M x M' \<Longrightarrow> later M M'"
  by (rule gotD(1))

lemma refs_ok_later: "refs_ok M \<longleftrightarrow> later M M"
  by (simp add: later_def)

lemma cache_entries_got:
  "refs_ok M \<Longrightarrow> yields (cache_entries G is M) (\<lambda>(cs, M'). got M None M' \<and> refs_in cs M')"
proof (induction "is" arbitrary: M)
  case Nil
  then show ?case by (simp add: yields_simps got_None refs_in_def)
next
  case (Cons i "is")
  have "yields (cache_entries G is M') (\<lambda>x. \<forall>cs M''. x = (cs, M'') \<longrightarrow> got M None M'' \<and> refs_in (Some c # cs) M'')"
    if "got M (Some c) M'" for M' c
    using Cons.IH [OF gotD(2) [OF that]] that
    by (auto simp: yields_simps refs_in_def elim!: yields_weaken intro: got_trans) (auto simp: got_def later_def)
  moreover have "got M (Some c) M2" if "got M x M1" "new_item i M1 = (c, M2)" for x M1 i c M2
    using got_trans [OF that(1) got_new_item [OF that(2) gotD(2) [OF that(1)]]] .
  ultimately show ?case
    using Cons.prems
    by (auto simp: yields_simps Let_def split: option.split prod.split intro!: gets_cont [OF cache_item_got] yields_extract)
qed

lemma DetachFromWebView_steps: "refs_ok M \<Longrightarrow> steps M (DetachFromWebView G M)"
proof -
  assume "refs_ok M"
  then have "refs_ok (M\<lparr>cached_current_item_index := GetCurrentItemIndex M\<rparr>)" by (simp add: refs_ok_def nav_refs_def)
  from cache_entries_got [OF this, of G "[0..<GetBackForwardListItemCount M]"] \<open>refs_ok M\<close> show ?thesis
    by (auto simp: DetachFromWebView_def cache_DetachFromWebView_def yields_simps later_refl elim!: yields_weaken
      dest!: gotD(1) intro!: later_ref(4))
qed

lemma RemoveWebView_steps: "refs_ok M \<Longrightarrow> steps M (RemoveWebView G M)"
  using DetachFromWebView_steps [of M G]
  by (auto simp: RemoveWebView_def yields_simps later_refl elim!: yields_weaken intro!: later_ref)

lemma ResetToAttached_later: "later M0 M \<Longrightarrow> later M0 (ResetToAttached M)"
  using later_ref(4) [of M0 M "[]"] by (simp add: ResetToAttached_def refs_in_def)

lemma Discard_later: "later M0 M \<Longrightarrow> later M0 (DiscardNonCommittedItems M)"
  using later_ref(1) [of M0 M None] by (simp add: DiscardNonCommittedItems_def)

text \<open>A getter inside an operation that started in \<open>M0\<close>.\<close>

lemma gets_later:
  assumes "refs_ok M \<Longrightarrow> gets M m" "later M0 M"
    "\<And>x M'. later M0 M' \<Longrightarrow> same_shape M M' \<Longrightarrow> \<forall>r. x = Some r \<longrightarrow> r < next_ref M' \<Longrightarrow> Q (x, M')"
  shows "yields m Q"
  by (rule gets_cont [OF assms(1)]) (use assms(2,3) in \<open>auto simp: got_def intro: later_ok later_trans\<close>)

lemmas nav_conts =
  gets_later [OF cache_item_got] gets_later [OF GetNavigationItemImplAtIndex_gets]
  gets_later [OF GetLastCommitted_gets] gets_later [OF GetLastCommittedItemImpl_gets]
  gets_later [OF GetPendingInCurrent_gets] gets_later [OF GetPendingItem_gets]
  gets_later [OF GetCurrentItemImpl_gets] gets_later [OF GetVisibleItem_gets]

lemma yields_try_update: "(\<And>i. Q (update_item r (\<lambda>_. i) M)) \<Longrightarrow> yields (try_update_item r f M) Q"
  by (auto simp: try_update_item_def yields_simps intro: yields_any)

lemma SetNavigationItemInWKItem_cont:
  assumes "later M0 M" "r < next_ref M" "\<And>M'. later M0 M' \<Longrightarrow> same_shape M M' \<Longrightarrow> Q M'"
  shows "yields (SetNavigationItemInWKItem k r M) Q"
  unfolding yields_def
proof (intro allI impI)
  fix M' assume "SetNavigationItemInWKItem k r M = Inr M'"
  from SetNavigationItemInWKItem_got [OF this later_ok [OF assms(1)] assms(2)] show "Q M'"
    using assms(1) by (auto simp: got_def intro: later_trans assms(3))
qed

lemma redirect_source_cont:
  assumes "later M0 M" "\<And>x M'. later M0 M' \<Longrightarrow> same_shape M M' \<Longrightarrow> Q (x, M')"
  shows "yields (redirect_source G tr M) Q"
  using assms(1) same_shape_refl [of M]
  by (auto simp: redirect_source_def yields_simps split: option.split
    intro!: nav_conts [where ?M0.0 = M0] assms(2)) (metis same_shape_trans)

lemma create_item_later:
  assumes "create_item G url ref tr init up prev add src M = (r, M')" "later M0 M"
  shows "later M0 M'" "r < next_ref M'"
  using create_item_got(1) [OF assms(1) later_ok [OF assms(2)]] assms(2) by (auto simp: got_def intro: later_trans)

lemma create_pending_item_later:
  assumes "later M0 M"
  shows "yields (create_pending_item G url ref tr init up M) (\<lambda>(r, M'). later M0 M' \<and> r < next_ref M')"
  unfolding create_pending_item_def using assms
  by (auto simp: yields_simps Let_def split: prod.split
    intro!: nav_conts [where ?M0.0 = M0] redirect_source_cont [where ?M0.0 = M0] later_ref(1) dest: create_item_later)

lemma match_current_item_steps:
  assumes "later M0 M" "r < next_ref M"
  shows "steps M0 (match_current_item G tr init post r M)"
  unfolding match_current_item_def using assms
  by (auto simp: yields_simps Let_def split: option.split
    intro!: yields_extract yields_try_update SetNavigationItemInWKItem_cont [where ?M0.0 = M0] later_ref(1))

lemma AddPendingItem_cont:
  assumes "later M0 M"
  shows "steps M0 (AddPendingItem G url ref tr init post up M)"
  unfolding AddPendingItem_def
  by (auto simp: yields_simps intro!: yields_weaken [OF create_pending_item_later [OF Discard_later [OF assms]]]
    match_current_item_steps)

lemma UpdatePendingItemUrl_steps: "refs_ok M \<Longrightarrow> steps M (UpdatePendingItemUrl G url M)"
  by (auto simp: UpdatePendingItemUrl_def yields_simps later_refl split: option.split intro!: nav_conts [where ?M0.0 = M])

lemma UpdateCurrentItemForReplaceState_steps:
  "refs_ok M \<Longrightarrow> steps M (UpdateCurrentItemForReplaceState G url st M)"
  by (auto simp: UpdateCurrentItemForReplaceState_def yields_simps later_refl split: option.split
    intro!: nav_conts [where ?M0.0 = M])

text \<open>Loading and restoring, for every number of rounds.\<close>

lemma rewrite_items_later: "later M0 (fold (RewriteItemURLIfNecessary G) rs M) = later M0 M"
  by (induction rs arbitrary: M) (auto simp: RewriteItemURLIfNecessary_def split: option.split)

lemma rewrite_items_next: "next_ref (fold (RewriteItemURLIfNecessary G) rs M) = next_ref M"
  by (induction rs arbitrary: M) (auto simp: RewriteItemURLIfNecessary_def split: option.split)

lemma push_restore_callback_later:
  "later M0 M \<Longrightarrow> callback_refs c \<subseteq> {..<next_ref M} \<Longrightarrow> later M0 (push_restore_callback c M)"
  unfolding push_restore_callback_def
  by (rule later_ref(5)) (auto simp: later_def refs_ok_def nav_refs_def)

lemma deref_all_refs: "deref_all items = Inr refs \<Longrightarrow> items = map Some refs"
proof (induction items arbitrary: refs)
  case (Cons i "is")
  then show ?case by (auto simp: deref_all_def res_simps split: option.splits)
qed (simp add: deref_all_def)

lemma next_ref_simps [simp]:
  "next_ref (push_restore_callback c M) = next_ref M" "next_ref (nav_emit es M) = next_ref M"
  "next_ref (ResetToAttached M) = next_ref M" "next_ref (DiscardNonCommittedItems M) = next_ref M"
  by (simp_all add: push_restore_callback_def nav_emit_def ResetToAttached_def DiscardNonCommittedItems_def)

lemma start_restore_later:
  assumes "later M0 M" "refs_in items M" "items = map Some refs" "k < int (length items)"
  shows "later M0 (start_restore k items refs M)"
proof -
  have part: "Some r \<in> set items \<Longrightarrow> r < next_ref M" "Some r \<in> set (take n items) \<Longrightarrow> r < next_ref M"
      "Some r \<in> set (drop n items) \<Longrightarrow> r < next_ref M" for r n
    using assms(2) by (auto simp: refs_in_def dest: in_set_takeD in_set_dropD)
  have "refs ! nat k < next_ref M" if "k > -1" using that assms(2-4) by (auto simp: refs_in_def)
  then show ?thesis
    unfolding start_restore_def Let_def using assms(1)
    by (auto intro!: push_restore_callback_later later_ref(3) intro: part)
qed

lemma load_and_title_steps:
  assumes "steps M0 (load p M)"
  shows "steps M0 (rbind (load p M) (\<lambda>M. rbind (GetPendingItemInCurrentOrRestoredSession G M) (\<lambda>(pending, M).
      Inr (case pending of None \<Rightarrow> M | Some p \<Rightarrow> update_item p f M))))"
  using assms by (auto simp: yields_simps split: option.split elim!: yields_weaken intro!: nav_conts [where ?M0.0 = M0])

lemma UnsafeRestore_steps:
  assumes load: "\<And>p M. later M0 M \<Longrightarrow> steps M0 (load p M)" and "later M0 M" "refs_in items M" "k < int (length items)"
  shows "steps M0 (UnsafeRestore G load k items M)"
proof -
  have "steps M0 (load p (start_restore k items refs (fold (RewriteItemURLIfNecessary G) refs M)))"
    if "deref_all items = Inr refs" for refs p
    using assms deref_all_refs [OF that]
    by (intro load start_restore_later) (auto simp: rewrite_items_later rewrite_items_next refs_in_def)
  then show ?thesis
    by (auto simp: UnsafeRestore_def yields_rbind [of "deref_all items"] yields_rbind [of "CreateRestoreSessionUrl _ _ _"]
      yields_def [of "deref_all items"] yields_dcheck Let_def
      intro!: yields_any [of _ "CreateRestoreSessionUrl _ _ _"] load_and_title_steps)
qed

lemma Restore_steps:
  assumes load: "\<And>p M. later M0 M \<Longrightarrow> steps M0 (load p M)" and M: "later M0 M" "refs_in items M"
  shows "steps M0 (Restore G load k items M)"
proof -
  have unsafe: "steps M0 (UnsafeRestore G load k items (D\<lparr>last_committed_item_index := -1\<rparr>))"
    if "later M0 D" "refs_in items D" "k < int (length items)" for D
    using that by (auto simp: refs_in_def intro!: UnsafeRestore_steps load)
  have remove: "yields (RemoveWebView G D) (\<lambda>D. later M0 D \<and> refs_in items D)" if "later M0 D" "refs_in items D" for D
    using RemoveWebView_steps [OF later_ok [OF that(1)], of G] that
    by (auto elim!: yields_weaken intro: later_trans refs_in_later)
  have rest: "steps M0 (rbind (if GetItemCount D > 0 then RemoveWebView G D else Inr D) (\<lambda>D.
      dcheck (GetItemCount D = 0) s (dcheck (pending_item_index D = -1) s'
        (UnsafeRestore G load k items (D\<lparr>last_committed_item_index := -1\<rparr>)))))"
    if "later M0 D" "refs_in items D" "k < int (length items)" for D s s'
    using that unsafe [OF _ _ that(3)]
    by (auto simp: yields_rbind yields_Inr yields_dcheck intro!: yields_weaken [OF remove])
  let ?N = "nav_emit [RecordRestoreNavigationItemCount (length items)] M"
  let ?R = "if \<not> attached_to_web_view ?N then ResetToAttached ?N else ?N"
  have R: "later M0 ?R" using M(1) by (auto intro!: ResetToAttached_later)
  moreover have "refs_in items (DiscardNonCommittedItems ?R)" using M(2) by (simp add: refs_in_def)
  ultimately show ?thesis
    unfolding Restore_def Let_def yields_dcheck
    by (intro impI) (cases "items = []", simp_all only: if_True if_False yields_Inr simp_thms rest Discard_later)
qed

lemma describe_pending_steps: "later M0 M \<Longrightarrow> steps M0 (describe_pending G params M)"
  unfolding describe_pending_def
  by (auto simp: yields_simps Let_def split: option.split intro!: nav_conts [where ?M0.0 = M0])

lemma ReleaseCachedItems_later:
  assumes "later M0 M"
  shows "yields (ReleaseCachedItems M) (\<lambda>(cs, M'). later M0 M' \<and> refs_in cs M')"
proof -
  have "refs_in (cached_items M) M" using assms by (auto simp: refs_in_def later_def refs_ok_def nav_refs_def)
  moreover have "later M0 (M\<lparr>cached_items := []\<rparr>)" using later_ref(4) [OF assms, of "[]"] by (simp add: refs_in_def)
  ultimately show ?thesis by (auto simp: ReleaseCachedItems_def yields_simps refs_in_def)
qed

text \<open>The session with the pending entry behind the current one.\<close>

lemma pending_slot:
  assumes "later M0 M" "refs_in cs M"
  shows "later M0 (M\<lparr>pending_item := None\<rparr>)" "refs_in ((resize m cs)[j := pending_item M]) (M\<lparr>pending_item := None\<rparr>)"
proof -
  show "later M0 (M\<lparr>pending_item := None\<rparr>)" by (rule later_ref(1) [OF assms(1)]) simp
  show "refs_in ((resize m cs)[j := pending_item M]) (M\<lparr>pending_item := None\<rparr>)"
    using assms by (auto simp: refs_in_def resize_def later_def refs_ok_def
      dest!: subsetD [OF set_update_subset_insert] sym [of "Some _"] in_set_takeD dest: field_refs(1))
qed

lemma LoadURLWithParams_steps: "later M0 M \<Longrightarrow> steps M0 (LoadURLWithParams n G params M)"
proof (induction n arbitrary: params M)
  case (Suc n)
  have restore: "steps M0 (Restore G (LoadURLWithParams n G) k ((resize m cs)[j := pending_item M]) (M\<lparr>pending_item := None\<rparr>))"
    if "later M0 M" "refs_in cs M" for k m cs j M
    by (rule Restore_steps [OF Suc.IH pending_slot [OF that]])
  have cached: "steps M0 (rbind (ReleaseCachedItems M) (\<lambda>(cached, M).
      let next = GetCurrentItemIndex M + 1 in
      dcheck (next > 0) s
       (rbind (Restore G (LoadURLWithParams n G) next ((resize (nat next + 1) cached)[nat next := pending_item M])
                (M\<lparr>pending_item := None\<rparr>)) (\<lambda>M. dcheck (attached_to_web_view M) s' (Inr M)))))"
    if "later M0 M" for M s s'
    using ReleaseCachedItems_later [OF that]
    by (auto simp: yields_rbind yields_simps(1) yields_dcheck Let_def yields_Inr elim!: yields_weaken
      intro!: yields_weaken [OF restore])
  have final: "steps M0 (if attached_to_web_view M then Inr (nav_emit es M)
      else dcheck c s (if d then rbind (ReleaseCachedItems M) (\<lambda>(cached, M).
        let next = GetCurrentItemIndex M + 1 in
        dcheck (next > 0) s'
         (rbind (Restore G (LoadURLWithParams n G) next ((resize (nat next + 1) cached)[nat next := pending_item M])
                  (M\<lparr>pending_item := None\<rparr>)) (\<lambda>M. dcheck (attached_to_web_view M) s'' (Inr M))))
        else Inr (nav_emit es (ResetToAttached M))))"
    if "later M0 M" for M es c s d s' s''
    using that cached [OF that] by (simp add: yields_simps(1) yields_dcheck yields_Inr ResetToAttached_later)
  show ?case
  proof (cases "is_restore_session_in_progress M \<and> \<not> IsRestoreSessionUrl G (load_url params)")
    case True
    then show ?thesis using Suc.prems by (simp add: yields_Inr push_restore_callback_later)
  next
    case False
    have "steps M0 (AddPendingItem G (load_url params) (load_referrer params) (load_transition_type params)
        (initiation_of params) False (load_https_upgrade_type params)
        (nav_emit [ClearDialogs, RecordPageStateInNavigationItem] M))"
      using Suc.prems by (intro AddPendingItem_cont) simp
    then show ?thesis
      unfolding LoadURLWithParams.simps if_not_P [OF False] yields_dcheck yields_rbind
      by (intro impI) (erule yields_weaken, rule yields_weaken [OF describe_pending_steps], assumption, rule final)
  qed
qed (simp add: yields_simps)

lemma restore_cached_steps: "later M0 M \<Longrightarrow> steps M0 (restore_cached G k M)"
  using ReleaseCachedItems_later [of M0 M]
  by (auto simp: restore_cached_def yields_rbind yields_dcheck yields_Inr elim!: yields_weaken
    intro!: yields_weaken [OF Restore_steps [OF LoadURLWithParams_steps]])

lemma LoadIfNecessary_steps: "later M0 M \<Longrightarrow> steps M0 (LoadIfNecessary G M)"
  by (simp add: LoadIfNecessary_def restore_cached_steps yields_Inr)

lemma restore_items_loop_steps:
  "later M0 M \<Longrightarrow> steps M0 (restore_items_loop G i n items M)"
proof (induction items arbitrary: i M)
  case (Cons r rs)
  then show ?case
    by (auto simp: yields_simps split: option.split intro!: nav_conts [where ?M0.0 = M0] yields_extract yields_try_update)
qed (simp add: yields_Inr)

lemma run_restore_callback_steps: "later M0 M \<Longrightarrow> steps M0 (run_restore_callback G c M)"
  by (cases c) (simp_all add: RestoreItemsState_def Let_def restore_items_loop_steps LoadURLWithParams_steps yields_Inr)

lemma run_restore_callbacks_steps: "later M0 M \<Longrightarrow> steps M0 (run_restore_callbacks G cs M)"
proof (induction cs arbitrary: M)
  case (Cons c cs)
  then show ?case by (auto simp: yields_rbind yields_Inl intro!: yields_weaken [OF run_restore_callback_steps])
qed (simp add: yields_Inr)

lemma FinalizeSessionRestore_steps: "later M0 M \<Longrightarrow> steps M0 (FinalizeSessionRestore G M)"
  by (auto simp: FinalizeSessionRestore_def yields_rbind
    intro!: yields_weaken [OF run_restore_callbacks_steps] LoadIfNecessary_steps later_ref(5))

lemma OnNavigationItemCommitted_steps: "later M0 M \<Longrightarrow> steps M0 (OnNavigationItemCommitted G M)"
  unfolding OnNavigationItemCommitted_def
  by (auto simp: yields_simps Let_def split: option.split intro!: nav_conts [where ?M0.0 = M0]
    FinalizeSessionRestore_steps later_ref(3))

lemma prepare_commit_later:
  "later M0 M \<Longrightarrow> later M0 (prepare_commit r M)" "next_ref (prepare_commit r M) = next_ref M"
  using smoothed_now_heap(1,2) [of M]
  by (auto simp: prepare_commit_def later_def refs_ok_def split: prod.split)

lemma CommitPendingItem_steps:
  assumes "refs_ok M"
  shows "steps M (CommitPendingItem G M)"
proof -
  have M: "later M M" using assms by (rule later_refl)
  have p: "pending_item M = Some r \<Longrightarrow> r < next_ref M" for r using assms field_refs(1) by (auto simp: refs_ok_def)
  note prep = prepare_commit_later(1) [OF M] prepare_commit_later(2)
  show ?thesis
    unfolding CommitPendingItem_def
    by (auto simp: yields_simps Let_def M p prep split: option.split
      intro!: SetNavigationItemInWKItem_cont [where ?M0.0 = M] OnNavigationItemCommitted_steps later_ref(1,2))
qed

lemma CommitPendingItemFrom_steps:
  assumes "refs_ok M" "\<forall>r. item = Some r \<longrightarrow> r < next_ref M"
  shows "steps M (CommitPendingItemFrom G item M)"
proof -
  note prep = prepare_commit_later(1) [OF later_refl [OF assms(1)]] prepare_commit_later(2)
  show ?thesis
    unfolding CommitPendingItemFrom_def
    using assms CommitPendingItem_steps [OF assms(1)]
    by (auto simp: yields_simps Let_def prep split: option.split
      intro!: SetNavigationItemInWKItem_cont [where ?M0.0 = M] OnNavigationItemCommitted_steps later_ref(2))
qed

lemma OnNavigationStarted_steps: "refs_ok M \<Longrightarrow> steps M (OnNavigationStarted G url M)"
  unfolding OnNavigationStarted_def
  by (auto simp: yields_simps Let_def later_refl split: option.split
    intro!: nav_conts [where ?M0.0 = M] yields_extract yields_try_update FinalizeSessionRestore_steps)

lemma RestoreNativeSession_steps:
  assumes "refs_ok M" "\<forall>w \<in> (case native of None \<Rightarrow> {} | Some v \<Rightarrow> wk_items v). \<forall>r. wk_navigation_item w = Some r \<longrightarrow> r < next_ref M"
  shows "yields (RestoreNativeSession G url native M) (\<lambda>(b, M'). later M M')"
proof -
  have fin: "steps M (FinalizeSessionRestore G (M'\<lparr>restored_visible_item := None\<rparr>))" if "later M M'" for M'
    using FinalizeSessionRestore_steps [of M "M'\<lparr>restored_visible_item := None\<rparr>" G] later_ref(3) [OF that, of None] by simp
  have "later M (M\<lparr>web_view := native\<rparr>)" using later_ref(6) [OF later_refl [OF assms(1)] assms(2)] .
  then have D: "native = Some v \<Longrightarrow> later M (DiscardNonCommittedItems (M\<lparr>web_view := Some v\<rparr>))" for v
    by (simp add: Discard_later)
  show ?thesis
    unfolding RestoreNativeSession_def
    by (auto simp: yields_simps(2,3,4) yields_Inr Let_def D later_refl assms(1) split: option.split
      intro!: nav_conts [where ?M0.0 = M] yields_extract yields_try_update fin)
qed

lemma GoToIndexFrom_steps: "later M0 M \<Longrightarrow> steps M0 (GoToIndexFrom G k init gesture M)"
  unfolding GoToIndexFrom_def
  by (auto simp: yields_simps Let_def split: option.split
    intro!: nav_conts [where ?M0.0 = M0] restore_cached_steps Discard_later yields_any [of _ "GetWKItemAtIndex _ _"])

lemma GoToIndex_steps: "refs_ok M \<Longrightarrow> steps M (GoToIndex G k M)"
  unfolding GoToIndex_def
  by (auto simp: yields_simps later_refl split: option.split intro!: nav_conts [where ?M0.0 = M] GoToIndexFrom_steps)

lemma reset_to_original_url_steps: "later M0 M \<Longrightarrow> steps M0 (reset_to_original_url G M)"
  unfolding reset_to_original_url_def
  by (auto simp: yields_simps split: option.split intro!: nav_conts [where ?M0.0 = M0])

lemma Reload_steps: "refs_ok M \<Longrightarrow> steps M (Reload G type M)"
  unfolding Reload_def
  by (auto simp: yields_simps Let_def later_refl split: option.split
    intro!: nav_conts [where ?M0.0 = M] restore_cached_steps yields_weaken [OF reset_to_original_url_steps])

lemma ReloadWithUserAgentType_steps: "refs_ok M \<Longrightarrow> steps M (ReloadWithUserAgentType G ua M)"
  unfolding ReloadWithUserAgentType_def
  by (auto simp: yields_simps Let_def later_refl split: option.split
    intro!: nav_conts [where ?M0.0 = M] yields_try_update LoadURLWithParams_steps)

lemma AddRestoreCompletionCallback_steps:
  "refs_ok M \<Longrightarrow> callback_refs c \<subseteq> {..<next_ref M} \<Longrightarrow> steps M (AddRestoreCompletionCallback G c M)"
  by (simp add: AddRestoreCompletionCallback_def yields_Inr later_refl run_restore_callback_steps push_restore_callback_later)

section \<open>The operations of the manager as events\<close>

text \<open>
  \<open>NavEnvironment\<close> is what happens outside: the web view navigates, loading starts or ends, the delegate
  takes or drops an entry, time passes.  \<open>NavNewItem\<close> is an entry a client creates.
\<close>

datatype 'u nav_op =
    NavEnvironment "'u web_view option" bool 'u "item_ref option" bool int
  | NavNewItem "'u nav_item"
  | NavDetachFromWebView
  | NavAddPendingItem 'u "'u referrer" page_transition NavigationInitiationType bool HttpsUpgradeType
  | NavReleasePendingItem
  | NavSetPendingItem "item_ref option"
  | NavSetPendingItemIndex int
  | NavCommitPendingItem
  | NavCommitPendingItemFrom "item_ref option"
  | NavDiscardNonCommittedItems
  | NavUpdatePendingItemUrl 'u
  | NavUpdateCurrentItemForReplaceState 'u "string option"
  | NavOnNavigationStarted 'u
  | NavRestoreNativeSession 'u "'u web_view option"
  | NavSkipSerialization 'u
  | NavAddTransientURLRewriter "('u \<Rightarrow> 'u option) option"
  | NavRemoveTransientURLRewriters
  | NavLoadURLWithParams "'u load_params"
  | NavLoadIfNecessary
  | NavRestore int "item_ref option list"
  | NavAddRestoreCompletionCallback "'u restore_callback"
  | NavGoToIndex int
  | NavGoBack
  | NavGoForward
  | NavReload ReloadType
  | NavReloadWithUserAgentType UserAgentType
  | NavGetVisibleItem
  | NavGetLastCommittedItem
  | NavGetPendingItem
  | NavGetItemAtIndex nat
  | NavGetBackwardItems
  | NavGetForwardItems

fun nav_exec :: "'u web_env \<Rightarrow> 'u nav_op \<Rightarrow> 'u nav_manager \<Rightarrow> 'u nav_manager res" where
  "nav_exec G (NavEnvironment v loading url d back_forward t) M =
     Inr (M\<lparr>web_view := v, is_loading := loading, document_url := url, delegate_pending_item := d,
            going_to_back_forward_list_item := back_forward, now := t\<rparr>)"
| "nav_exec G (NavNewItem i) M = Inr (snd (new_item i M))"
| "nav_exec G NavDetachFromWebView M = DetachFromWebView G M"
| "nav_exec G (NavAddPendingItem url ref tr init post up) M = AddPendingItem G url ref tr init post up M"
| "nav_exec G NavReleasePendingItem M = Inr (snd (ReleasePendingItem M))"
| "nav_exec G (NavSetPendingItem item) M = Inr (SetPendingItem item M)"
| "nav_exec G (NavSetPendingItemIndex k) M = Inr (SetPendingItemIndex k M)"
| "nav_exec G NavCommitPendingItem M = CommitPendingItem G M"
| "nav_exec G (NavCommitPendingItemFrom item) M = CommitPendingItemFrom G item M"
| "nav_exec G NavDiscardNonCommittedItems M = Inr (DiscardNonCommittedItems M)"
| "nav_exec G (NavUpdatePendingItemUrl url) M = UpdatePendingItemUrl G url M"
| "nav_exec G (NavUpdateCurrentItemForReplaceState url st) M = UpdateCurrentItemForReplaceState G url st M"
| "nav_exec G (NavOnNavigationStarted url) M = OnNavigationStarted G url M"
| "nav_exec G (NavRestoreNativeSession url v) M = rbind (RestoreNativeSession G url v M) (\<lambda>(b, M). Inr M)"
| "nav_exec G (NavSkipSerialization url) M = Inr (SetWKWebViewNextPendingUrlNotSerializable url M)"
| "nav_exec G (NavAddTransientURLRewriter w) M = AddTransientURLRewriter w M"
| "nav_exec G NavRemoveTransientURLRewriters M = Inr (RemoveTransientURLRewriters M)"
| "nav_exec G (NavLoadURLWithParams params) M = load_with_params G params M"
| "nav_exec G NavLoadIfNecessary M = LoadIfNecessary G M"
| "nav_exec G (NavRestore k items) M = restore_session G k items M"
| "nav_exec G (NavAddRestoreCompletionCallback c) M = AddRestoreCompletionCallback G c M"
| "nav_exec G (NavGoToIndex k) M = GoToIndex G k M"
| "nav_exec G NavGoBack M = GoBack G M"
| "nav_exec G NavGoForward M = GoForward G M"
| "nav_exec G (NavReload type) M = Reload G type M"
| "nav_exec G (NavReloadWithUserAgentType ua) M = ReloadWithUserAgentType G ua M"
| "nav_exec G NavGetVisibleItem M = rbind (GetVisibleItem G M) (\<lambda>(r, M). Inr M)"
| "nav_exec G NavGetLastCommittedItem M = rbind (GetLastCommittedItemImpl G M) (\<lambda>(r, M). Inr M)"
| "nav_exec G NavGetPendingItem M = rbind (GetPendingItem G M) (\<lambda>(r, M). Inr M)"
| "nav_exec G (NavGetItemAtIndex i) M = rbind (GetNavigationItemImplAtIndex G i M) (\<lambda>(r, M). Inr M)"
| "nav_exec G NavGetBackwardItems M = rbind (GetBackwardItems G M) (\<lambda>(rs, M). Inr M)"
| "nav_exec G NavGetForwardItems M = rbind (GetForwardItems G M) (\<lambda>(rs, M). Inr M)"

text \<open>What comes from outside is allocated.\<close>

fun nav_args_ok :: "'u nav_op \<Rightarrow> 'u nav_manager \<Rightarrow> bool" where
  "nav_args_ok (NavEnvironment v loading url d back_forward t) M \<longleftrightarrow>
     (\<forall>w \<in> (case v of None \<Rightarrow> {} | Some v \<Rightarrow> wk_items v). \<forall>r. wk_navigation_item w = Some r \<longrightarrow> r < next_ref M) \<and>
     (\<forall>r. d = Some r \<longrightarrow> r < next_ref M)"
| "nav_args_ok (NavSetPendingItem item) M \<longleftrightarrow> (\<forall>r. item = Some r \<longrightarrow> r < next_ref M)"
| "nav_args_ok (NavCommitPendingItemFrom item) M \<longleftrightarrow> (\<forall>r. item = Some r \<longrightarrow> r < next_ref M)"
| "nav_args_ok (NavRestoreNativeSession url v) M \<longleftrightarrow>
     (\<forall>w \<in> (case v of None \<Rightarrow> {} | Some v \<Rightarrow> wk_items v). \<forall>r. wk_navigation_item w = Some r \<longrightarrow> r < next_ref M)"
| "nav_args_ok (NavRestore k items) M \<longleftrightarrow> refs_in items M"
| "nav_args_ok (NavAddRestoreCompletionCallback c) M \<longleftrightarrow> callback_refs c \<subseteq> {..<next_ref M}"
| "nav_args_ok _ M \<longleftrightarrow> True"

lemma nav_environment_later:
  assumes "refs_ok M" "nav_args_ok (NavEnvironment v loading url d back_forward t) M"
  shows "later M (M\<lparr>web_view := v, is_loading := loading, document_url := url, delegate_pending_item := d,
    going_to_back_forward_list_item := back_forward, now := t\<rparr>)"
  using assms unfolding later_def refs_ok_def by (auto simp: nav_refs_def)

lemma gets_steps: "gets M m \<Longrightarrow> steps M (rbind m (\<lambda>(r, M). Inr M))"
  by (auto simp: yields_rbind yields_Inr elim!: yields_weaken dest: gotD(1))

lemma small_steps:
  assumes "refs_ok M"
  shows "\<forall>r. x = Some r \<longrightarrow> r < next_ref M \<Longrightarrow> later M (SetPendingItem x M)" "later M (snd (ReleasePendingItem M))"
    "later M (SetPendingItemIndex k M)" "later M (SetWKWebViewNextPendingUrlNotSerializable url M)"
    "steps M (AddTransientURLRewriter w M)" "later M (RemoveTransientURLRewriters M)"
  using later_refl [OF assms]
  by (auto simp: SetPendingItem_def ReleasePendingItem_def SetPendingItemIndex_def AddTransientURLRewriter_def
    SetWKWebViewNextPendingUrlNotSerializable_def RemoveTransientURLRewriters_def yields_simps split: option.split
    intro!: later_ref(1))

lemma list_steps:
  assumes "refs_ok M"
  shows "steps M (rbind (GetBackwardItems G M) (\<lambda>(rs, M). Inr M))" "steps M (rbind (GetForwardItems G M) (\<lambda>(rs, M). Inr M))"
proof -
  have "steps M (rbind (items_at G is M) (\<lambda>(rs, M). Inr M))" for "is"
    using items_at_got [OF assms, of G "is"] by (auto simp: yields_rbind yields_Inr elim!: yields_weaken dest: gotD(1))
  then show "steps M (rbind (GetBackwardItems G M) (\<lambda>(rs, M). Inr M))" "steps M (rbind (GetForwardItems G M) (\<lambda>(rs, M). Inr M))"
    using later_refl [OF assms] by (simp_all add: GetBackwardItems_def GetForwardItems_def yields_Inr)
qed

lemmas nav_steps = small_steps list_steps later_refl Discard_later DetachFromWebView_steps AddPendingItem_cont
  CommitPendingItem_steps CommitPendingItemFrom_steps UpdatePendingItemUrl_steps UpdateCurrentItemForReplaceState_steps
  OnNavigationStarted_steps LoadURLWithParams_steps LoadIfNecessary_steps Restore_steps [OF LoadURLWithParams_steps]
  AddRestoreCompletionCallback_steps GoToIndex_steps Reload_steps ReloadWithUserAgentType_steps
  gets_steps [OF GetVisibleItem_gets] gets_steps [OF GetLastCommittedItemImpl_gets] gets_steps [OF GetPendingItem_gets]
  gets_steps [OF GetNavigationItemImplAtIndex_gets]

lemma nav_exec_steps:
  assumes ok: "refs_ok M" and args: "nav_args_ok e M"
  shows "steps M (nav_exec G e M)"
proof (cases e)
  case NavEnvironment
  then show ?thesis using nav_environment_later assms by (simp add: yields_Inr)
next
  case (NavNewItem i)
  then show ?thesis
    using got_new_item [of i M] ok by (cases "new_item i M") (auto simp: yields_Inr dest: gotD(1))
next
  case (NavRestoreNativeSession url v)
  have "steps M (rbind (RestoreNativeSession G url v M) (\<lambda>(b, M). Inr M))"
    using RestoreNativeSession_steps [OF ok, of v G url] args NavRestoreNativeSession
    by (auto simp: yields_rbind yields_Inr elim!: yields_weaken)
  then show ?thesis using NavRestoreNativeSession by simp
qed (use assms in \<open>simp_all add: yields_Inr GoBack_def GoForward_def nav_steps\<close>)

abbreviation nav_reachable :: "'u web_env \<Rightarrow> 'u nav_manager \<Rightarrow> bool" where
  "nav_reachable G \<equiv> reachable_from (\<lambda>M. M = NavigationManagerImpl G) nav_args_ok (nav_exec G)"

interpretation nav_heap: event_invariant "\<lambda>M. M = NavigationManagerImpl G" nav_args_ok "nav_exec G" refs_ok for G
proof
  show "M = NavigationManagerImpl G \<Longrightarrow> refs_ok M" for M
    by (simp add: refs_ok_def nav_refs_def NavigationManagerImpl_def)
  show "refs_ok M \<Longrightarrow> nav_args_ok e M \<Longrightarrow> nav_exec G e M = Inr M' \<Longrightarrow> refs_ok M'" for M e M'
    by (rule later_ok [OF yieldsD [OF nav_exec_steps]])
qed

end
