(* ===== verification/Navigation_Lemmas.thy ===== *)
theory Navigation_Lemmas
  imports Navigation_Heap
begin

text \<open>
  Lemmas for the properties of the navigation manager: when its getters return, what the cache has of
  the entries, how often loading and restoring call each other, and which entry is shown to the user.
\<close>

section \<open>Getters return\<close>

definition view_ok :: "'u web_view \<Rightarrow> bool" where
  "view_ok v \<longleftrightarrow> (current_item v = None \<longrightarrow> back_list v = [] \<and> forward_list v = [])"

text \<open>The web view has a current item as soon as it has any.\<close>

definition history_ok :: "'u nav_manager \<Rightarrow> bool" where
  "history_ok M \<longleftrightarrow> (\<forall>v. web_view M = Some v \<longrightarrow> view_ok v)"

lemma history_ok_shape:
  assumes "same_shape M M'" "history_ok M"
  shows "history_ok M'"
  unfolding history_ok_def view_ok_def
proof (intro allI impI)
  fix v' assume v': "web_view M' = Some v'" "current_item v' = None"
  obtain v where "web_view M = Some v" "bare_view v' = bare_view v" by (rule same_shape_view [OF assms(1) v'(1)])
  then show "back_list v' = [] \<and> forward_list v' = []"
    using assms(2) v'(2) bare_view_eq [of v' v] by (auto simp: history_ok_def view_ok_def)
qed

lemma wk_item_exists:
  assumes "history_ok M" "attached_to_web_view M" "i < GetBackForwardListItemCount M"
  obtains v w where "web_view M = Some v" "itemAtIndex (int i - GetCurrentItemIndex M) v = Some w"
    "GetWKItemAtIndex i M = Inr (Some w)"
proof -
  obtain v where v: "web_view M = Some v" using assms(2,3) by (auto simp: GetBackForwardListItemCount_def split: option.splits)
  then have "current_item v \<noteq> None"
    using assms by (auto simp: history_ok_def view_ok_def GetBackForwardListItemCount_def split: if_splits)
  then have "itemAtIndex (int i - GetCurrentItemIndex M) v \<noteq> None"
    using v assms(2,3) by (auto simp: itemAtIndex_def GetCurrentItemIndex_def GetBackForwardListItemCount_def)
  then obtain w where "itemAtIndex (int i - GetCurrentItemIndex M) v = Some w" by blast
  then show ?thesis using that v assms(2,3) by (simp add: GetWKItemAtIndex_def)
qed

lemma ExtractTargetURL_returns: "IsRestoreSessionUrl G url \<Longrightarrow> \<exists>t. ExtractTargetURL G url = Inr t"
  by (simp add: ExtractTargetURL_def Let_def)

lemma GetWKItemAtIndex_returns: "attached_to_web_view M \<Longrightarrow> \<exists>w. GetWKItemAtIndex i M = Inr w"
  by (simp add: GetWKItemAtIndex_def)

lemma update_item_view [simp]:
  "web_view (update_item r f M) = web_view M" "GetCurrentItemIndex (update_item r f M) = GetCurrentItemIndex M"
  by (simp_all add: update_item_def GetCurrentItemIndex_def)

lemma item_at_update [simp]: "item_at r' (update_item r f M) = (if r' = r then f (item_at r M) else item_at r' M)"
  by (simp add: item_at_def update_item_def)

lemma create_wk_item_returns:
  assumes "attached_to_web_view M" "refs_ok M" "web_view M = Some v" "itemAtIndex (int i - GetCurrentItemIndex M) v \<noteq> None"
  shows "\<exists>r M'. create_wk_item G i w M = Inr (Some r, M')"
proof -
  obtain prev where prev: "(if i = 0 then Inr None else GetWKItemAtIndex (i - 1) M) = Inr prev"
    using GetWKItemAtIndex_returns [OF assms(1)] by (cases "i = 0") auto
  obtain r M1 where c: "create_item G (wk_url w) (case prev of None \<Rightarrow> EmptyReferrer G
      | Some p \<Rightarrow> \<lparr>referrer_url = wk_url p, referrer_policy = ReferrerPolicyAlways\<rparr>) (PAGE_TRANSITION_LINK G)
      RENDERER_INITIATED HttpsUpgradeNone (case prev of None \<Rightarrow> gurl_empty G | Some p \<Rightarrow> wk_url p) [] None M = (r, M1)"
    by fastforce
  obtain t M2 where s: "smoothed_now M1 = (t, M2)" by fastforce
  have "got M (Some r) M2" "web_view M2 = web_view M"
    using create_item_got [OF c assms(2)] got_smoothed_now [OF s] smoothed_now_heap(5) [OF s] by auto
  then have "GetCurrentItemIndex M2 = GetCurrentItemIndex M" using same_shape_simps(2) gotD(3) by blast
  then have attach: "\<exists>M'. SetNavigationItemInWKItem (int i - GetCurrentItemIndex M2) r N = Inr M'" if "web_view N = web_view M" for N
    using that assms(3,4) by (simp add: SetNavigationItemInWKItem_def)
  have "\<exists>M'. rbind (if IsRestoreSessionUrl G url then rbind (ExtractTargetURL G url) (\<lambda>target.
      Inr (case target of None \<Rightarrow> N | Some u \<Rightarrow> update_item r (SetVirtualURL G u) N)) else Inr N)
      (\<lambda>N. rbind (SetNavigationItemInWKItem (int i - GetCurrentItemIndex N) r N) (\<lambda>N. Inr (Some r, N))) = Inr (Some r, M')"
    if "web_view N = web_view M" "GetCurrentItemIndex N = GetCurrentItemIndex M2" for N url
  proof -
    have "\<exists>N'. (if IsRestoreSessionUrl G url then rbind (ExtractTargetURL G url) (\<lambda>target.
      Inr (case target of None \<Rightarrow> N | Some u \<Rightarrow> update_item r (SetVirtualURL G u) N)) else Inr N) = Inr N' \<and>
        web_view N' = web_view M \<and> GetCurrentItemIndex N' = GetCurrentItemIndex M2"
      using that ExtractTargetURL_returns [of G url] by (auto split: option.split)
    then show ?thesis using attach by fastforce
  qed
  from this [of "update_item r (\<lambda>i. SetTitle G (wk_title w) (i\<lparr>timestamp := t\<rparr>)) M2"] show ?thesis
    unfolding create_wk_item_def prev rbind.simps Let_def c s prod.case using \<open>web_view M2 = _\<close> by fastforce
qed

lemma cache_item_returns:
  assumes "history_ok M" "attached_to_web_view M" "refs_ok M" "i < GetBackForwardListItemCount M"
  shows "\<exists>r M'. cache_GetNavigationItemImplAtIndex G i True M = Inr (Some r, M') \<and> got M (Some r) M'"
proof -
  obtain v w where w: "web_view M = Some v" "itemAtIndex (int i - GetCurrentItemIndex M) v = Some w"
    "GetWKItemAtIndex i M = Inr (Some w)" by (rule wk_item_exists [OF assms(1,2,4)])
  obtain r M' where "cache_GetNavigationItemImplAtIndex G i True M = Inr (Some r, M')"
    using create_wk_item_returns [OF assms(2,3) w(1), of i G w] w assms(2,4)
    by (cases "wk_navigation_item w") (auto simp: cache_GetNavigationItemImplAtIndex_def)
  then show ?thesis using yieldsD [OF cache_item_got [OF assms(3)], of G i True "(Some r, M')"] by auto
qed

section \<open>The history without the web view\<close>

text \<open>The copies the cache has of the entries.\<close>

definition cached_copy :: "'u web_env \<Rightarrow> 'u nav_item \<Rightarrow> 'u nav_item" where
  "cached_copy G i = (if IsRestoreSessionUrl G (item_url i)
     then (case ExtractTargetURL G (item_url i) of Inr (Some u) \<Rightarrow> SetURL u i | _ \<Rightarrow> i) else i)"

lemma cache_entries_length: "cache_entries G is M = Inr (cs, M') \<Longrightarrow> length cs = length is \<and> None \<notin> set cs"
proof (induction "is" arbitrary: M cs M')
  case (Cons i "is")
  then show ?case by (auto simp: res_simps Let_def new_item_def split: option.splits)
qed simp

lemma detach_count:
  assumes "DetachFromWebView G M = Inr M'"
  shows "attached_to_web_view M \<Longrightarrow> length (cached_items M') = GetBackForwardListItemCount M \<and> None \<notin> set (cached_items M')"
    "\<not> attached_to_web_view M'"
  using assms
  by (auto simp: DetachFromWebView_def cache_DetachFromWebView_def res_simps split: if_splits dest: cache_entries_length)

text \<open>Looking at an item of the list changes neither the entries there are nor where they hang.\<close>

definition entry_at :: "int \<Rightarrow> 'u nav_manager \<Rightarrow> item_ref option" where
  "entry_at k M = Option.bind (web_view M) (\<lambda>v. Option.bind (itemAtIndex k v) wk_navigation_item)"

definition kept :: "'u nav_manager \<Rightarrow> 'u nav_manager \<Rightarrow> bool" where
  "kept M M' \<longleftrightarrow> next_ref M \<le> next_ref M' \<and> (\<forall>r < next_ref M. item_store M' r = item_store M r) \<and>
     (\<forall>k r. entry_at k M = Some r \<longrightarrow> entry_at k M' = Some r)"

lemma kept_refl: "kept M M"
  by (simp add: kept_def)

lemma kept_trans: "kept M M' \<Longrightarrow> kept M' M'' \<Longrightarrow> kept M M''"
  by (simp add: kept_def)

lemma kept_update: "kept M M' \<Longrightarrow> next_ref M \<le> r \<Longrightarrow> kept M (update_item r f M')"
  by (simp add: kept_def update_item_def entry_at_def)

lemma kept_new: "new_item i M = (r, M') \<Longrightarrow> kept M M'"
  using new_item_heap [of i M r M'] by (auto simp: kept_def entry_at_def)

lemma kept_create:
  "create_item G url ref tr init up prev add src M = (r, M') \<Longrightarrow>
     kept M M' \<and> r = next_ref M \<and> GetCurrentItemIndex M' = GetCurrentItemIndex M"
  by (auto simp: create_item_def Let_def new_item_def kept_def entry_at_def GetCurrentItemIndex_def)

lemma kept_smoothed: "smoothed_now M' = (t, M'') \<Longrightarrow> kept M M'' = kept M M'"
  using smoothed_now_heap [of M' t M''] by (auto simp: kept_def entry_at_def)

lemma attach_item_other:
  assumes "itemAtIndex k v = Some w"
  shows "itemAtIndex j (attach_item k r v) = (if j = k then Some (w\<lparr>wk_navigation_item := Some r\<rparr>) else itemAtIndex j v)"
proof -
  consider "k = 0" | "k < 0" | "k > 0" by linarith
  then show ?thesis
  proof cases
    case 2
    then have k: "nat (- k) \<le> length (back_list v)" "w = back_list v ! (length (back_list v) - nat (- k))"
      using assms by (auto simp: itemAtIndex_def split: if_splits)
    have "length (back_list v) - nat (- j) = length (back_list v) - nat (- k) \<longleftrightarrow> j = k"
      if "j < 0" "nat (- j) \<le> length (back_list v)" using that k(1) 2 by auto
    then show ?thesis using 2 k by (auto simp: itemAtIndex_def attach_item_def Let_def nth_list_update)
  next
    case 3
    then have k: "nat k \<le> length (forward_list v)" "w = forward_list v ! (nat k - 1)"
      using assms by (auto simp: itemAtIndex_def split: if_splits)
    have "nat j - 1 = nat k - 1 \<longleftrightarrow> j = k" if "j > 0" using that 3 by auto
    then show ?thesis using 3 k by (auto simp: itemAtIndex_def attach_item_def Let_def nth_list_update)
  qed (use assms in \<open>auto simp: itemAtIndex_def attach_item_def\<close>)
qed

lemma kept_attach:
  assumes "SetNavigationItemInWKItem k r M' = Inr M''" "kept M M'" "entry_at k M = None"
  shows "kept M M''"
proof -
  obtain v w where v: "web_view M' = Some v" "itemAtIndex k v = Some w" "M'' = M'\<lparr>web_view := Some (attach_item k r v)\<rparr>"
    using assms(1) by (auto simp: SetNavigationItemInWKItem_def res_simps split: option.splits)
  have "entry_at j M'' = (if j = k then Some r else entry_at j M')" for j
    using attach_item_other [OF v(2), of j r] v by (simp add: entry_at_def)
  then show ?thesis using assms(2,3) v(3) by (auto simp: kept_def)
qed

lemma kept_attach_yields: "kept M M' \<Longrightarrow> entry_at k M = None \<Longrightarrow> yields (SetNavigationItemInWKItem k r M') (kept M)"
  by (auto simp: yields_def intro: kept_attach)

lemma smoothed_now_index: "smoothed_now M = (t, M') \<Longrightarrow> GetCurrentItemIndex M' = GetCurrentItemIndex M"
  by (auto simp: smoothed_now_def GetCurrentItemIndex_def split: prod.splits)

lemma create_wk_item_kept:
  "entry_at (int i - GetCurrentItemIndex M) M = None \<Longrightarrow> yields (create_wk_item G i w M) (\<lambda>(x, M'). kept M M')"
  unfolding create_wk_item_def
  by (auto simp: yields_simps Let_def smoothed_now_index kept_smoothed split: prod.split option.split
    intro!: yields_any [of _ "GetWKItemAtIndex _ _"] yields_extract kept_attach_yields kept_update dest!: kept_create)

lemma entry_of_wk_item:
  "GetWKItemAtIndex i M = Inr (Some w) \<Longrightarrow> entry_at (int i - GetCurrentItemIndex M) M = wk_navigation_item w"
  by (auto simp: GetWKItemAtIndex_def entry_at_def res_simps split: if_splits option.splits)

lemma cache_item_kept:
  assumes "cache_GetNavigationItemImplAtIndex G i create M = Inr (x, M')" "attached_to_web_view M"
  shows "kept M M'" "entry_at (int i - GetCurrentItemIndex M) M = Some r \<Longrightarrow> i < GetBackForwardListItemCount M \<Longrightarrow>
    x = Some r \<and> M' = M"
proof -
  have "yields (create_wk_item G i w M) (\<lambda>(x, M'). kept M M')"
    if "GetWKItemAtIndex i M = Inr (Some w)" "wk_navigation_item w = None" for w
    using create_wk_item_kept entry_of_wk_item [OF that(1)] that(2) by simp
  then show "kept M M'"
    using assms by (auto simp: cache_GetNavigationItemImplAtIndex_def res_simps kept_refl yields_def split: if_splits option.splits)
  show "x = Some r \<and> M' = M" if e: "entry_at (int i - GetCurrentItemIndex M) M = Some r" "i < GetBackForwardListItemCount M"
  proof -
    obtain w where "GetWKItemAtIndex i M = Inr (Some w)" "wk_navigation_item w = Some r"
      using e assms(2) by (auto simp: GetWKItemAtIndex_def entry_at_def split: bind_splits)
    then show ?thesis using assms e(2) by (simp add: cache_GetNavigationItemImplAtIndex_def)
  qed
qed

lemma entry_ref: "entry_at k M = Some r \<Longrightarrow> r \<in> nav_refs M"
  using itemAtIndex_in by (fastforce simp: entry_at_def nav_refs_def split: bind_splits)

lemma entry_kept:
  "kept M M' \<Longrightarrow> refs_ok M \<Longrightarrow> entry_at k M = Some r \<Longrightarrow> entry_at k M' = Some r \<and> item_at r M' = item_at r M"
  using entry_ref [of k M r] by (auto simp: kept_def refs_ok_def item_at_def)

definition copies :: "'u web_env \<Rightarrow> nat list \<Rightarrow> item_ref option list \<Rightarrow> 'u nav_manager \<Rightarrow> 'u nav_manager \<Rightarrow> bool" where
  "copies G is cs M M' \<longleftrightarrow> length cs = length is \<and> (\<forall>p < length is. \<exists>c. cs ! p = Some c \<and>
     (\<forall>r. entry_at (int (is ! p) - GetCurrentItemIndex M) M = Some r \<longrightarrow> item_at c M' = cached_copy G (item_at r M)))"

lemma copies_Cons:
  assumes "copies G is cs M3 M'" "kept M M3" "refs_ok M" "GetCurrentItemIndex M3 = GetCurrentItemIndex M"
    "\<And>r. entry_at (int i - GetCurrentItemIndex M) M = Some r \<Longrightarrow> item_at c M' = cached_copy G (item_at r M)"
  shows "copies G (i # is) (Some c # cs) M M'"
  using assms entry_kept [OF assms(2,3)] by (auto simp: copies_def less_Suc_eq_0_disj)

text \<open>One entry: its copy.\<close>

lemma cache_entry_step:
  assumes "history_ok M" "attached_to_web_view M" "refs_ok M" "i < GetBackForwardListItemCount M"
  obtains c M3 where "got M (Some c) M3" "kept M M3" "c < next_ref M3"
    "\<And>r. entry_at (int i - GetCurrentItemIndex M) M = Some r \<Longrightarrow> item_at c M3 = cached_copy G (item_at r M)"
    "\<And>is. cache_entries G (i # is) M = rbind (cache_entries G is M3) (\<lambda>(cs, M). Inr (Some c # cs, M))"
proof -
  obtain r1 M1 where c: "cache_GetNavigationItemImplAtIndex G i True M = Inr (Some r1, M1)" "got M (Some r1) M1"
    using cache_item_returns [OF assms] by blast
  obtain d M2 where n: "new_item (item_at r1 M1) M1 = (d, M2)" by fastforce
  note heap = new_item_heap [OF n]
  have M2: "got M (Some d) M2" using got_trans [OF c(2) got_new_item [OF n gotD(2) [OF c(2)]]] .
  have k2: "kept M M2" using kept_trans [OF cache_item_kept(1) [OF c(1) assms(2)] kept_new [OF n]] .
  have d: "next_ref M \<le> d" "item_at d M2 = item_at r1 M1" using heap gotD(1) [OF c(2)] by (auto simp: later_def item_at_def)
  let ?url = "item_url (item_at d M2)"
  have "\<exists>M3. (if IsRestoreSessionUrl G ?url then rbind (ExtractTargetURL G ?url) (\<lambda>target.
      Inr (case target of None \<Rightarrow> M2 | Some u \<Rightarrow> update_item d (SetURL u) M2)) else Inr M2) = Inr M3 \<and>
      got M (Some d) M3 \<and> kept M M3 \<and> item_at d M3 = cached_copy G (item_at d M2)"
    using M2 k2 d(1) ExtractTargetURL_returns [of G ?url]
    by (auto simp: cached_copy_def kept_update split: option.split)
  then obtain M3 where M3: "(if IsRestoreSessionUrl G ?url then rbind (ExtractTargetURL G ?url) (\<lambda>target.
      Inr (case target of None \<Rightarrow> M2 | Some u \<Rightarrow> update_item d (SetURL u) M2)) else Inr M2) = Inr M3"
      "got M (Some d) M3" "kept M M3" "item_at d M3 = cached_copy G (item_at d M2)"
    by blast
  show thesis
  proof (rule that [OF M3(2,3)])
    show "d < next_ref M3" using M3(2) by (simp add: got_def)
    show "item_at d M3 = cached_copy G (item_at r M)" if "entry_at (int i - GetCurrentItemIndex M) M = Some r" for r
      using cache_item_kept(2) [OF c(1) assms(2) that assms(4)] M3(4) d(2) by simp
    show "cache_entries G (i # is) M = rbind (cache_entries G is M3) (\<lambda>(cs, M). Inr (Some d # cs, M))" for "is"
      using c(1) n M3(1) by (simp add: Let_def)
  qed
qed

lemma cache_entries_returns:
  "history_ok M \<Longrightarrow> attached_to_web_view M \<Longrightarrow> refs_ok M \<Longrightarrow> \<forall>i \<in> set is. i < GetBackForwardListItemCount M \<Longrightarrow>
     \<exists>cs M'. cache_entries G is M = Inr (cs, M') \<and> same_shape M M' \<and> kept M M' \<and> copies G is cs M M'"
proof (induction "is" arbitrary: M)
  case (Cons i "is")
  obtain c M3 where s: "got M (Some c) M3" "kept M M3" "c < next_ref M3"
    "\<And>r. entry_at (int i - GetCurrentItemIndex M) M = Some r \<Longrightarrow> item_at c M3 = cached_copy G (item_at r M)"
    "\<And>is. cache_entries G (i # is) M = rbind (cache_entries G is M3) (\<lambda>(cs, M). Inr (Some c # cs, M))"
    using cache_entry_step [OF Cons.prems(1-3)] Cons.prems(4) by (metis list.set_intros(1))
  note shape = gotD(3) [OF s(1)]
  have "\<exists>cs M'. cache_entries G is M3 = Inr (cs, M') \<and> same_shape M3 M' \<and> kept M3 M' \<and> copies G is cs M3 M'"
    using Cons.prems gotD(2) [OF s(1)] same_shape_fields(4) [OF shape] same_shape_simps(1) [OF shape]
    by (intro Cons.IH) (auto intro: history_ok_shape [OF shape])
  then obtain cs M' where c: "cache_entries G is M3 = Inr (cs, M')" "same_shape M3 M'" "kept M3 M'" "copies G is cs M3 M'"
    by blast
  have "item_at c M' = item_at c M3" using c(3) s(3) by (simp add: kept_def item_at_def)
  then have "copies G (i # is) (Some c # cs) M M'"
    using copies_Cons [OF c(4) s(2) Cons.prems(3)] same_shape_simps(2) [OF shape] s(4) by simp
  then show ?case
    using s(5) [of "is"] c(1) same_shape_trans [OF shape c(2)] kept_trans [OF s(2) c(3)] by simp
qed (simp add: same_shape_refl kept_refl copies_def)

text \<open>The removal of the web view: every entry has a copy, at the same place.\<close>

lemma detach_returns:
  assumes "history_ok M" "attached_to_web_view M" "refs_ok M"
  obtains M' where "DetachFromWebView G M = Inr M'" "\<not> attached_to_web_view M'"
    "empty_window_open_item M' = empty_window_open_item M"
    "GetBackForwardListItemCount M' = GetBackForwardListItemCount M" "GetCurrentItemIndex M' = GetCurrentItemIndex M"
    "copies G [0..<GetBackForwardListItemCount M] (cached_items M') M M'"
proof -
  let ?M = "M\<lparr>cached_current_item_index := GetCurrentItemIndex M\<rparr>"
  have eq: "GetCurrentItemIndex ?M = GetCurrentItemIndex M" "entry_at k ?M = entry_at k M"
      "GetBackForwardListItemCount ?M = GetBackForwardListItemCount M" "history_ok ?M = history_ok M" "refs_ok ?M = refs_ok M"
      "item_at r ?M = item_at r M" for k r
    using assms(2) by (auto simp: GetCurrentItemIndex_def GetBackForwardListItemCount_def entry_at_def history_ok_def
      refs_ok_def nav_refs_def item_at_def)
  obtain cs M1 where c: "cache_entries G [0..<GetBackForwardListItemCount M] ?M = Inr (cs, M1)" "same_shape ?M M1"
      "copies G [0..<GetBackForwardListItemCount M] cs ?M M1"
    using cache_entries_returns [of ?M "[0..<GetBackForwardListItemCount M]" G] assms eq by auto
  let ?N = "M1\<lparr>cached_items := cs, attached_to_web_view := False, is_restore_session_in_progress := False\<rparr>"
  have len: "length cs = GetBackForwardListItemCount M" using c(3) by (simp add: copies_def)
  show thesis
  proof (rule that [of ?N])
    show "DetachFromWebView G M = Inr ?N"
      using c(1) assms(2) by (simp add: DetachFromWebView_def cache_DetachFromWebView_def)
    show "GetBackForwardListItemCount ?N = GetBackForwardListItemCount M" by (simp add: GetBackForwardListItemCount_def len)
    show "GetCurrentItemIndex ?N = GetCurrentItemIndex M"
      using c(2) by (simp add: GetCurrentItemIndex_def [of ?N] same_shape_def)
    show "empty_window_open_item ?N = empty_window_open_item M" using same_shape_fields(3) [OF c(2)] by simp
    show "copies G [0..<GetBackForwardListItemCount M] (cached_items ?N) M ?N"
      using c(3) eq by (simp add: copies_def item_at_def)
  qed simp
qed

section \<open>The last committed entry\<close>

lemma web_view_item_returns: "\<exists>r M'. web_view_item G M = Inr (r, M')"
proof -
  obtain r M1 where u: "untrusted_item G M = (r, M1)" by fastforce
  obtain target where
    "(if IsRestoreSessionUrl G (document_url M1) then ExtractTargetURL G (document_url M1) else Inr None) = Inr target"
    using ExtractTargetURL_returns [of G "document_url M1"] by (cases "IsRestoreSessionUrl G (document_url M1)") auto
  then show ?thesis by (simp add: web_view_item_def u Let_def split: prod.split)
qed

lemma size_t_of_int: "0 \<le> i \<Longrightarrow> i < 2 ^ 64 \<Longrightarrow> size_t_of i = nat i"
  by (simp add: size_t_of_def)

lemma current_index:
  assumes "history_ok M" "attached_to_web_view M" "0 < GetBackForwardListItemCount M"
  shows "0 \<le> GetCurrentItemIndex M" "nat (GetCurrentItemIndex M) < GetBackForwardListItemCount M"
  using assms by (auto simp: history_ok_def view_ok_def GetCurrentItemIndex_def GetBackForwardListItemCount_def
    split: option.splits if_splits)

lemma last_committed_returns:
  assumes "history_ok M" "attached_to_web_view M" "refs_ok M" "empty_window_open_item M = None" "pending_item_index M = -1"
    "0 < GetBackForwardListItemCount M" "int (GetBackForwardListItemCount M) < 2 ^ 31"
  shows "\<exists>r M'. GetLastCommittedItemInCurrentOrRestoredSession G M = Inr (Some r, M') \<and> got M (Some r) M'"
proof -
  note cur = current_index [OF assms(1,2,6)]
  have index: "GetLastCommittedItemIndexInCurrentOrRestoredSession M = GetCurrentItemIndex M"
    using assms(4,5) by (simp add: GetLastCommittedItemIndexInCurrentOrRestoredSession_def)
  have size: "size_t_of (GetCurrentItemIndex M) = nat (GetCurrentItemIndex M)"
    using cur assms(7) by (intro size_t_of_int) auto
  obtain r M1 where r: "cache_GetNavigationItemImplAtIndex G (nat (GetCurrentItemIndex M)) True M = Inr (Some r, M1)"
    using cache_item_returns [OF assms(1-3) cur(2)] by blast
  obtain v M2 where "web_view_item G M1 = Inr (v, M2)" using web_view_item_returns by blast
  then obtain x M3 where "GetLastCommittedItemInCurrentOrRestoredSession G M = Inr (Some x, M3)"
    using r cur(1) assms(4)
    by (cases "has_web_state M1 \<and> \<not> CanTrustLastCommittedItem G r M1")
      (auto simp: GetLastCommittedItemInCurrentOrRestoredSession_def index size GetNavigationItemImplAtIndex_def)
  then show ?thesis using yieldsD [OF GetLastCommitted_gets [OF assms(3)]] by fastforce
qed

section \<open>Moving in the history\<close>

lemma attach_entry: "yields (SetNavigationItemInWKItem k r M) (\<lambda>M'. entry_at k M' = Some r)"
  by (auto simp: yields_def SetNavigationItemInWKItem_def entry_at_def res_simps attach_item_other split: option.splits)

lemma create_wk_item_entry:
  "yields (create_wk_item G i w M) (\<lambda>(x, M'). entry_at (int i - GetCurrentItemIndex M) M' = x)"
  unfolding create_wk_item_def
  by (auto simp: yields_simps Let_def smoothed_now_index split: prod.split option.split
    intro!: yields_any [of _ "GetWKItemAtIndex _ _"] yields_extract attach_entry dest!: kept_create)

lemma cache_item_entry:
  assumes "cache_GetNavigationItemImplAtIndex G i True M = Inr (Some r, M')" "attached_to_web_view M"
  shows "entry_at (int i - GetCurrentItemIndex M) M' = Some r"
proof -
  have "entry_at (int i - GetCurrentItemIndex M) M' = Some r" if "create_wk_item G i w M = Inr (Some r, M')" for w
    using yieldsD [OF create_wk_item_entry that] by simp
  then show ?thesis
    using assms entry_of_wk_item [of i M]
    by (auto simp: cache_GetNavigationItemImplAtIndex_def res_simps split: if_splits option.splits)
qed

lemma quiet_steps:
  "attached_to_web_view (nav_emit es M) = attached_to_web_view M"
  "GetBackForwardListItemCount (nav_emit es M) = GetBackForwardListItemCount M"
  "GetItemCount (nav_emit es M) = GetItemCount M" "history_ok (nav_emit es M) = history_ok M"
  "refs_ok (nav_emit es M) = refs_ok M" "web_view (nav_emit es M) = web_view M"
  "GetCurrentItemIndex (nav_emit es M) = GetCurrentItemIndex M" "empty_window_open_item (nav_emit es M) = empty_window_open_item M"
  "attached_to_web_view (DiscardNonCommittedItems M) = attached_to_web_view M"
  "GetBackForwardListItemCount (DiscardNonCommittedItems M) = GetBackForwardListItemCount M"
  "GetItemCount (DiscardNonCommittedItems M) = GetItemCount M" "history_ok (DiscardNonCommittedItems M) = history_ok M"
  "web_view (DiscardNonCommittedItems M) = web_view M"
  "GetCurrentItemIndex (DiscardNonCommittedItems M) = GetCurrentItemIndex M"
  "empty_window_open_item (DiscardNonCommittedItems M) = empty_window_open_item M"
  "nav_log (DiscardNonCommittedItems M) = nav_log M"
  "pending_item (DiscardNonCommittedItems M) = None" "pending_item_index (DiscardNonCommittedItems M) = -1"
  by (simp_all add: nav_emit_def DiscardNonCommittedItems_def GetBackForwardListItemCount_def GetItemCount_def
    history_ok_def refs_ok_def nav_refs_def GetCurrentItemIndex_def)

lemma refs_ok_Discard: "refs_ok M \<Longrightarrow> refs_ok (DiscardNonCommittedItems M)"
  using Discard_later [of M M] by (simp add: later_refl later_ok)

lemma GoToIndexFrom_returns:
  assumes "history_ok M" "attached_to_web_view M" "refs_ok M" "empty_window_open_item M = None"
    "0 \<le> index" "index < int (GetBackForwardListItemCount M)"
  shows "\<exists>M' r. GoToIndexFrom G index init gesture M = Inr M' \<and>
    nav_log M' = nav_log M @ [RecordPageStateInNavigationItem, ClearDialogs, GoToBackForwardListItem (nat index) r init gesture] \<and>
    entry_at (index - GetCurrentItemIndex M) M' = Some r \<and> pending_item M' = None \<and> pending_item_index M' = -1"
proof -
  let ?D = "DiscardNonCommittedItems (nav_emit [RecordPageStateInNavigationItem, ClearDialogs] M)"
  have D: "history_ok ?D" "attached_to_web_view ?D" "refs_ok ?D" "nat index < GetBackForwardListItemCount ?D"
    using assms by (simp_all add: quiet_steps refs_ok_Discard)
  obtain r M1 where r: "cache_GetNavigationItemImplAtIndex G (nat index) True ?D = Inr (Some r, M1)" "got ?D (Some r) M1"
    using cache_item_returns [OF D] by blast
  let ?M = "update_item r (\<lambda>i. i\<lparr>transition_type := transition_type i OR PAGE_TRANSITION_FORWARD_BACK G\<rparr>) M1"
  have shape: "same_shape ?D ?M" using gotD(3) [OF r(2)] by simp
  note same = same_shape_fields [OF shape] same_shape_simps [OF shape]
  obtain w where w: "GetWKItemAtIndex (nat index) ?M = Inr (Some w)"
    by (rule wk_item_exists [OF history_ok_shape [OF shape D(1)]]) (use D(2,4) same in simp_all)
  have entry: "entry_at (index - GetCurrentItemIndex M) ?M = Some r"
    using cache_item_entry [OF r(1) D(2)] assms(5) by (simp add: entry_at_def quiet_steps)
  have item: "GetNavigationItemImplAtIndex G (nat index) ?D = Inr (Some r, M1)"
    using r(1) assms(4) by (simp add: GetNavigationItemImplAtIndex_def quiet_steps)
  let ?E = "nav_emit [GoToBackForwardListItem (nat index) r init gesture] ?M"
  have "\<not> (index < 0 \<or> index \<ge> int (GetItemCount M))" using assms(4-6) by (simp add: GetItemCount_def)
  moreover have "attached_to_web_view (nav_emit [RecordPageStateInNavigationItem, ClearDialogs] M)" using assms(2) by (simp add: quiet_steps)
  ultimately have "GoToIndexFrom G index init gesture M = Inr ?E"
    unfolding GoToIndexFrom_def Let_def by (simp only: if_False item rbind.simps prod.case option.case w) simp
  moreover have "nav_log ?M = nav_log M @ [RecordPageStateInNavigationItem, ClearDialogs]" "pending_item ?M = None"
      "pending_item_index ?M = -1"
    using same(1,2,11) by (simp_all add: quiet_steps) (simp add: nav_emit_def)
  ultimately show ?thesis using entry by (auto simp: nav_emit_def entry_at_def)
qed

section \<open>How often loading and restoring call each other\<close>

lemma attached_simps [simp]:
  "attached_to_web_view (update_item r f M) = attached_to_web_view M"
  "attached_to_web_view (nav_emit es M) = attached_to_web_view M"
  "attached_to_web_view (DiscardNonCommittedItems M) = attached_to_web_view M"
  "attached_to_web_view (start_restore k items refs M) = attached_to_web_view M"
  "attached_to_web_view (fold (RewriteItemURLIfNecessary G) refs M) = attached_to_web_view M"
proof -
  show "attached_to_web_view (fold (RewriteItemURLIfNecessary G) refs M) = attached_to_web_view M"
    by (induction refs arbitrary: M) (auto simp: RewriteItemURLIfNecessary_def update_item_def split: option.split)
qed (simp_all add: update_item_def nav_emit_def DiscardNonCommittedItems_def start_restore_def push_restore_callback_def Let_def)

lemma create_item_attached:
  "create_item G url ref tr init up prev add src M = (r, M') \<Longrightarrow> attached_to_web_view M' = attached_to_web_view M"
  by (auto simp: create_item_def Let_def new_item_def)

text \<open>A getter in the middle of an operation that keeps the attachment.\<close>

lemma gets_attached:
  assumes "refs_ok M \<Longrightarrow> gets M m" "later M0 M"
    "\<And>x M'. later M0 M' \<Longrightarrow> attached_to_web_view M' = attached_to_web_view M \<Longrightarrow> Q (x, M')"
  shows "yields m Q"
  by (rule gets_later [OF assms(1,2)]) (auto dest: same_shape_fields(4) intro: assms(3))

lemmas attached_conts = gets_attached [OF GetLastCommitted_gets] gets_attached [OF GetLastCommittedItemImpl_gets]
  gets_attached [OF GetPendingInCurrent_gets]

lemma redirect_source_attached:
  "later M0 M \<Longrightarrow> (\<And>x M'. later M0 M' \<Longrightarrow> attached_to_web_view M' = attached_to_web_view M \<Longrightarrow> Q (x, M')) \<Longrightarrow>
     yields (redirect_source G tr M) Q"
  by (rule redirect_source_cont) (auto dest: same_shape_fields(4))

lemma create_pending_item_attached:
  "later M0 M \<Longrightarrow> yields (create_pending_item G url ref tr init up M)
     (\<lambda>(r, M'). attached_to_web_view M' = attached_to_web_view M)"
  unfolding create_pending_item_def
  by (auto simp: yields_simps Let_def split: prod.split
    intro!: attached_conts [where ?M0.0 = M0] redirect_source_attached [where ?M0.0 = M0] dest: create_item_attached)

lemma describe_pending_attached:
  "later M0 M \<Longrightarrow> yields (describe_pending G params M) (\<lambda>M'. attached_to_web_view M' = attached_to_web_view M)"
  unfolding describe_pending_def
  by (auto simp: yields_simps Let_def split: option.split intro!: attached_conts [where ?M0.0 = M0])

lemma SetNavigationItem_attached:
  "yields (SetNavigationItemInWKItem k r M) (\<lambda>M'. attached_to_web_view M' = attached_to_web_view M)"
  by (auto simp: SetNavigationItemInWKItem_def yields_simps split: option.split)

lemma match_current_item_attached:
  "yields (match_current_item G tr init post r M) (\<lambda>M'. attached_to_web_view M' = attached_to_web_view M)"
  unfolding match_current_item_def
  by (auto simp: yields_simps Let_def split: option.split intro!: yields_extract yields_try_update
    yields_weaken [OF SetNavigationItem_attached])

lemma AddPendingItem_attached:
  assumes "later M0 M"
  shows "yields (AddPendingItem G url ref tr init post up M) (\<lambda>M'. attached_to_web_view M' = attached_to_web_view M)"
  unfolding AddPendingItem_def
  by (auto simp: yields_simps intro!: yields_weaken [OF create_pending_item_attached [OF Discard_later [OF assms]]]
    yields_weaken [OF match_current_item_attached])

lemma detach_keeps_count:
  assumes "DetachFromWebView G M = Inr M'" "attached_to_web_view M" "refs_ok M"
  shows "GetItemCount M' = GetItemCount M"
proof -
  let ?M = "M\<lparr>cached_current_item_index := GetCurrentItemIndex M\<rparr>"
  have "refs_ok ?M" using assms(3) by (simp add: refs_ok_def nav_refs_def)
  then have "yields (cache_entries G is ?M) (\<lambda>(cs, M1). empty_window_open_item M1 = empty_window_open_item M)" for "is"
    by (rule yields_weaken [OF cache_entries_got]) (auto dest!: same_shape_fields(3) [OF gotD(3)])
  then have "empty_window_open_item M' = empty_window_open_item M"
    using assms(1,2) by (auto simp: DetachFromWebView_def cache_DetachFromWebView_def res_simps yields_def)
  then show ?thesis
    using detach_count [OF assms(1)] assms(2) by (simp add: GetItemCount_def GetBackForwardListItemCount_def [of M'])
qed

text \<open>With a web view, loading does not restore first, so the number of further rounds does not matter.\<close>

lemma rbind_cong: "(\<And>x. m = Inr x \<Longrightarrow> f x = g x) \<Longrightarrow> rbind m f = rbind m g"
  by (cases m) simp_all

lemma dcheck_cong: "(c \<Longrightarrow> k = k') \<Longrightarrow> dcheck c s k = dcheck c s k'"
  by (simp add: dcheck_def)

text \<open>The entry for a load, and what is noted in it.\<close>

abbreviation add_for_load :: "'u web_env \<Rightarrow> 'u load_params \<Rightarrow> 'u nav_manager \<Rightarrow> 'u nav_manager res" where
  "add_for_load G params M \<equiv> AddPendingItem G (load_url params) (load_referrer params) (load_transition_type params)
    (initiation_of params) False (load_https_upgrade_type params)
    (nav_emit [ClearDialogs, RecordPageStateInNavigationItem] M)"

lemma load_prefix:
  assumes "refs_ok M" "add_for_load G params M = Inr M1" "describe_pending G params M1 = Inr M2"
  shows "attached_to_web_view M2 = attached_to_web_view M" "later M M2"
proof -
  have E: "later M (nav_emit [ClearDialogs, RecordPageStateInNavigationItem] M)" using later_refl [OF assms(1)] by simp
  have M1: "later M M1" by (rule yieldsD [OF AddPendingItem_cont [OF E] assms(2)])
  show "later M M2" by (rule yieldsD [OF describe_pending_steps [OF M1] assms(3)])
  show "attached_to_web_view M2 = attached_to_web_view M"
    using yieldsD [OF AddPendingItem_attached [OF E] assms(2)] yieldsD [OF describe_pending_attached [OF M1] assms(3)] by simp
qed

lemma load_attached:
  assumes "attached_to_web_view M" "refs_ok M"
  shows "LoadURLWithParams (Suc n) G params M = LoadURLWithParams (Suc m) G params M"
proof -
  have attached: "attached_to_web_view M2" if "add_for_load G params M = Inr M1" "describe_pending G params M1 = Inr M2" for M1 M2
    using load_prefix(1) [OF assms(2) that] assms(1) by simp
  show ?thesis
    unfolding LoadURLWithParams.simps
    by (intro if_cong refl dcheck_cong rbind_cong) (simp_all only: attached simp_thms)
qed

lemma UnsafeRestore_cong:
  assumes "\<And>p M. attached_to_web_view M \<Longrightarrow> refs_ok M \<Longrightarrow> load p M = load' p M"
    and M: "attached_to_web_view M" "refs_ok M" "refs_in items M" "k < int (length items)"
  shows "UnsafeRestore G load k items M = UnsafeRestore G load' k items M"
proof (cases "deref_all items")
  case (Inr refs)
  let ?S = "start_restore k items refs (fold (RewriteItemURLIfNecessary G) refs M)"
  have "refs_ok ?S"
    using start_restore_later [OF _ _ deref_all_refs [OF Inr] M(4), of M "fold (RewriteItemURLIfNecessary G) refs M"] M
    by (auto simp: rewrite_items_later rewrite_items_next refs_in_def later_refl dest: later_ok)
  then have "load p ?S = load' p ?S" for p using assms(1) M(1) by simp
  then show ?thesis by (simp add: UnsafeRestore_def Inr Let_def)
qed (simp add: UnsafeRestore_def)

lemma RemoveWebView_count:
  assumes "RemoveWebView G M = Inr M'" "attached_to_web_view M" "refs_ok M"
  shows "GetItemCount M' = GetItemCount M"
proof (cases "web_view M")
  case (Some v)
  then obtain N where N: "DetachFromWebView G M = Inr N" "M' = N\<lparr>web_view := None\<rparr>"
    using assms(1) by (auto simp: RemoveWebView_def res_simps)
  then have "GetItemCount M' = GetItemCount N"
    using detach_count(2) [OF N(1)] by (simp add: GetItemCount_def GetBackForwardListItemCount_def)
  then show ?thesis using detach_keeps_count [OF N(1) assms(2,3)] by simp
qed (use assms in \<open>simp add: RemoveWebView_def\<close>)

lemma Restore_cong:
  assumes load: "\<And>p M. attached_to_web_view M \<Longrightarrow> refs_ok M \<Longrightarrow> load p M = load' p M"
    and M: "refs_ok M" "refs_in items M"
  shows "Restore G load k items M = Restore G load' k items M"
proof -
  let ?N = "nav_emit [RecordRestoreNavigationItemCount (length items)] M"
  let ?D = "DiscardNonCommittedItems (if \<not> attached_to_web_view ?N then ResetToAttached ?N else ?N)"
  have "later M ?D" using later_refl [OF M(1)] by (auto intro!: Discard_later ResetToAttached_later)
  then have D: "attached_to_web_view ?D" "refs_ok ?D" "refs_in items ?D"
    using M(2) by (auto simp: refs_in_def ResetToAttached_def intro: later_ok)
  have unsafe: "UnsafeRestore G load k items (?D\<lparr>last_committed_item_index := -1\<rparr>) =
      UnsafeRestore G load' k items (?D\<lparr>last_committed_item_index := -1\<rparr>)" if "k < int (length items)"
    using D that by (intro UnsafeRestore_cong load) (auto simp: refs_ok_def nav_refs_def refs_in_def)
  show ?thesis
  proof (cases "GetItemCount ?D > 0")
    case True
    then have "GetItemCount M' \<noteq> 0" if "RemoveWebView G ?D = Inr M'" for M'
      using RemoveWebView_count [OF that D(1,2)] by simp
    then show ?thesis using True by (cases "RemoveWebView G ?D") (auto simp: Restore_def Let_def dcheck_def)
  next
    case False
    then show ?thesis using unsafe by (auto simp: Restore_def Let_def dcheck_def)
  qed
qed

lemma cached_restore_cong:
  assumes "refs_ok M" "add_for_load G params M = Inr M1" "describe_pending G params M1 = Inr M2"
    "ReleaseCachedItems M2 = Inr (cs, N)"
    "\<And>p M. attached_to_web_view M \<Longrightarrow> refs_ok M \<Longrightarrow> load p M = load' p M"
  shows "Restore G load k ((resize m cs)[j := pending_item N]) (N\<lparr>pending_item := None\<rparr>) =
    Restore G load' k ((resize m cs)[j := pending_item N]) (N\<lparr>pending_item := None\<rparr>)"
proof -
  have "later M N" "refs_in cs N"
    using yieldsD [OF ReleaseCachedItems_later [OF load_prefix(2) [OF assms(1-3)]] assms(4)] by simp_all
  from pending_slot [OF this] show ?thesis by (intro Restore_cong assms(5)) (auto dest: later_ok)
qed

lemma load_fuel:
  assumes "refs_ok M"
  shows "LoadURLWithParams (Suc (Suc n)) G params M = LoadURLWithParams load_rounds G params M"
proof -
  have restore: "Restore G (LoadURLWithParams (Suc n) G) k ((resize m cs)[j := pending_item N]) (N\<lparr>pending_item := None\<rparr>) =
      Restore G (LoadURLWithParams (Suc 0) G) k ((resize m cs)[j := pending_item N]) (N\<lparr>pending_item := None\<rparr>)"
    if "add_for_load G params M = Inr M1" "describe_pending G params M1 = Inr M2" "ReleaseCachedItems M2 = Inr (cs, N)"
    for M1 M2 k m cs j N
    by (rule cached_restore_cong [OF assms that load_attached])
  show ?thesis
    unfolding load_rounds_def numeral_2_eq_2 LoadURLWithParams.simps(2) [of "Suc n"] LoadURLWithParams.simps(2) [of "Suc 0"]
    by (intro if_cong refl dcheck_cong rbind_cong) (auto simp: Let_def restore intro!: dcheck_cong)
qed

text \<open>No operation but \<open>LoadURLWithParams\<close> itself reports that the rounds are used up.\<close>

definition not_stuck :: "'a res \<Rightarrow> bool" where
  "not_stuck m \<longleftrightarrow> m \<noteq> Inl (NotReached ''LoadURLWithParams'')"

named_theorems unstuck \<open>operations that do not report an exhausted bound\<close>

lemma not_stuck_rules [unstuck]:
  "not_stuck (Inr x)" "not_stuck (Inl (DCheckFailed s))" "not_stuck (Inl (DanglingPointer s))"
  "not_stuck k \<Longrightarrow> not_stuck (dcheck c s k)"
  by (simp_all add: not_stuck_def dcheck_def)

lemma not_stuck_rbind [unstuck]: "not_stuck m \<Longrightarrow> (\<And>x. m = Inr x \<Longrightarrow> not_stuck (f x)) \<Longrightarrow> not_stuck (rbind m f)"
  by (cases m) (simp_all add: not_stuck_def)

lemma not_stuck_getters [unstuck]:
  "not_stuck (ExtractTargetURL G url)" "not_stuck (GetWKItemAtIndex i M)" "not_stuck (SetNavigationItemInWKItem k r M)"
  by (auto simp: ExtractTargetURL_def GetWKItemAtIndex_def SetNavigationItemInWKItem_def Let_def split: option.split intro!: unstuck)

lemma not_stuck_cache [unstuck]: "not_stuck (cache_GetNavigationItemImplAtIndex G i create M)"
  by (auto simp: cache_GetNavigationItemImplAtIndex_def create_wk_item_def Let_def split: option.split prod.split intro!: unstuck)

lemma not_stuck_items [unstuck]:
  "not_stuck (GetNavigationItemImplAtIndex G i M)" "not_stuck (web_view_item G M)"
  by (auto simp: GetNavigationItemImplAtIndex_def web_view_item_def Let_def split: option.split prod.split intro!: unstuck)

lemma not_stuck_committed [unstuck]: "not_stuck (GetLastCommittedItemInCurrentOrRestoredSession G M)"
  by (auto simp: GetLastCommittedItemInCurrentOrRestoredSession_def Let_def split: option.split prod.split intro!: unstuck)

lemma not_stuck_current [unstuck]:
  "not_stuck (GetLastCommittedItemImpl G M)" "not_stuck (GetPendingItemInCurrentOrRestoredSession G M)"
  by (auto simp: GetLastCommittedItemImpl_def GetPendingItemInCurrentOrRestoredSession_def split: prod.split intro!: unstuck)

lemma not_stuck_add [unstuck]: "not_stuck (AddPendingItem G url ref tr init post up M)"
  by (auto simp: AddPendingItem_def create_pending_item_def redirect_source_def match_current_item_def try_update_item_def
    SetUserAgentType_def Let_def split: option.split prod.split intro!: unstuck)

lemma not_stuck_describe [unstuck]: "not_stuck (describe_pending G params M)"
  by (auto simp: describe_pending_def Let_def split: option.split prod.split intro!: unstuck)

lemma not_stuck_entries [unstuck]: "not_stuck (cache_entries G is M)"
  by (induction "is" arbitrary: M) (auto simp: Let_def split: option.split prod.split intro!: unstuck)

lemma not_stuck_remove [unstuck]: "not_stuck (RemoveWebView G M)" "not_stuck (ReleaseCachedItems M)"
  by (auto simp: RemoveWebView_def DetachFromWebView_def cache_DetachFromWebView_def ReleaseCachedItems_def
    split: prod.split intro!: unstuck)

lemma not_stuck_deref [unstuck]: "not_stuck (deref_all items)"
  unfolding deref_all_def by (induction items) (auto split: option.split intro!: unstuck)

lemma not_stuck_restore:
  "(\<And>p M. not_stuck (load p M)) \<Longrightarrow> not_stuck (Restore G load k items M)"
  unfolding Restore_def UnsafeRestore_def CreateRestoreSessionUrl_def Let_def
  by (auto split: option.split prod.split intro!: unstuck)

lemma not_stuck_attached:
  assumes "attached_to_web_view M" "refs_ok M"
  shows "not_stuck (LoadURLWithParams (Suc n) G params M)"
proof -
  have attached: "attached_to_web_view M2" if "add_for_load G params M = Inr M1" "describe_pending G params M1 = Inr M2" for M1 M2
    using load_prefix(1) [OF assms(2) that] assms(1) by simp
  have "LoadURLWithParams (Suc n) G params M =
      (if is_restore_session_in_progress M \<and> \<not> IsRestoreSessionUrl G (load_url params)
       then Inr (push_restore_callback (LoadCallback params) M)
       else dcheck (\<not> has_flag (load_transition_type params) (PAGE_TRANSITION_FORWARD_BACK G))
              ''!(params.transition_type & ui::PAGE_TRANSITION_FORWARD_BACK)''
         (rbind (add_for_load G params M) (\<lambda>M1. rbind (describe_pending G params M1) (\<lambda>M2.
            Inr (nav_emit [LoadCurrentItem (initiation_of params)] M2)))))"
    unfolding LoadURLWithParams.simps by (intro if_cong refl dcheck_cong rbind_cong) (simp only: attached if_True)
  then show ?thesis by (simp del: LoadURLWithParams.simps add: unstuck)
qed

lemma load_not_stuck:
  assumes "refs_ok M"
  shows "not_stuck (LoadURLWithParams (Suc (Suc n)) G params M)"
proof -
  let ?load = "\<lambda>p M. if attached_to_web_view M \<and> refs_ok M then LoadURLWithParams (Suc n) G p M else Inr M"
  have "not_stuck (?load p M)" for p M
    by (simp del: LoadURLWithParams.simps add: not_stuck_attached unstuck)
  then have "not_stuck (Restore G (LoadURLWithParams (Suc n) G) k ((resize m cs)[j := pending_item N]) (N\<lparr>pending_item := None\<rparr>))"
    if "add_for_load G params M = Inr M1" "describe_pending G params M1 = Inr M2" "ReleaseCachedItems M2 = Inr (cs, N)"
    for M1 M2 k m cs j N
    using cached_restore_cong [OF assms that, of "LoadURLWithParams (Suc n) G" ?load k m j] not_stuck_restore [of ?load]
    by (simp del: LoadURLWithParams.simps)
  then show ?thesis
    unfolding LoadURLWithParams.simps(2) [of "Suc n"] Let_def by (auto intro!: unstuck)
qed

section \<open>What the user is shown\<close>

text \<open>Addresses for which the origin of the page is not compared.\<close>

definition exempt_url :: "'u web_env \<Rightarrow> 'u \<Rightarrow> bool" where
  "exempt_url G url \<longleftrightarrow> SchemeIs G url kAboutScheme \<or> SchemeIs G url kFileScheme \<or> is_app_specific_url G url"

definition matches_page :: "'u web_env \<Rightarrow> item_ref \<Rightarrow> 'u nav_manager \<Rightarrow> bool" where
  "matches_page G r M \<longleftrightarrow> item_url (item_at r M) = document_url M \<or>
     gurl_origin G (GetVisibleWebViewURL G M) = gurl_origin G (item_url (item_at r M)) \<or>
     exempt_url G (GetVisibleWebViewURL G M) \<or> exempt_url G (item_url (item_at r M))"

definition plain_view :: "'u nav_manager \<Rightarrow> bool" where
  "plain_view M \<longleftrightarrow> attached_to_web_view M \<and> has_web_state M \<and> empty_window_open_item M = None \<and>
     \<not> going_to_back_forward_list_item M"

lemma plain_view_shape: "same_shape M M' \<Longrightarrow> plain_view M' = plain_view M"
  by (simp add: plain_view_def same_shape_fields)

lemma web_view_item_document:
  assumes "refs_ok M"
  shows "yields (web_view_item G M) (\<lambda>(r, M'). item_url (item_at r M') = document_url M')"
proof -
  have "item_at r M' = item_at r M" "document_url M' = document_url M" if "smoothed_now M = (t, M')" for r t M and M' :: "'a nav_manager"
    using smoothed_now_heap(3,4) [OF that] by (simp_all add: item_at_def same_shape_fields(8))
  moreover have "document_url (update_item r f M) = document_url M" for r f and M :: "'a nav_manager"
    by (simp add: update_item_def)
  ultimately show ?thesis
    by (auto simp: web_view_item_def yields_simps Let_def SetURL_def SetVirtualURL_def split: prod.split option.split
      intro!: yields_extract)
qed

lemma last_committed_matches:
  assumes "GetLastCommittedItemInCurrentOrRestoredSession G M = Inr (Some r, M')" "refs_ok M" "plain_view M"
  shows "matches_page G r M'"
proof -
  obtain M1 l where l: "GetNavigationItemImplAtIndex G (size_t_of (GetLastCommittedItemIndexInCurrentOrRestoredSession M)) M = Inr (Some l, M1)"
    and rest: "(if has_web_state M1 \<and> \<not> CanTrustLastCommittedItem G l M1
      then rbind (web_view_item G M1) (\<lambda>(v, M). Inr (Some v, M)) else Inr (Some l, M1)) = Inr (Some r, M')"
    using assms(1,3)
    by (auto simp: GetLastCommittedItemInCurrentOrRestoredSession_def plain_view_def Let_def res_simps
      split: if_splits option.splits)
  have got: "got M (Some l) M1" using yieldsD [OF GetNavigationItemImplAtIndex_gets [OF assms(2)] l] by simp
  have plain: "plain_view M1" using assms(3) plain_view_shape [OF gotD(3) [OF got]] by simp
  show ?thesis
  proof (cases "CanTrustLastCommittedItem G l M1")
    case True
    then show ?thesis
      using rest plain by (auto simp: CanTrustLastCommittedItem_def plain_view_def matches_page_def exempt_url_def Let_def split: if_splits)
  next
    case False
    then have "web_view_item G M1 = Inr (r, M')" using rest plain by (auto simp: plain_view_def res_simps)
    then show ?thesis using yieldsD [OF web_view_item_document [OF gotD(2) [OF got]]] by (fastforce simp: matches_page_def)
  qed
qed

definition new_user_navigation :: "item_ref \<Rightarrow> 'u nav_manager \<Rightarrow> bool" where
  "new_user_navigation r M \<longleftrightarrow> pending_item_index M = -1 \<and> is_loading M \<and>
     navigation_initiation_type (item_at r M) = BROWSER_INITIATED \<and>
     (pending_item M = Some r \<or> pending_item M = None \<and> delegate_pending_item M = Some r)"

lemma pending_shown:
  assumes "GetPendingItemInCurrentOrRestoredSession G M = Inr (Some r, M')" "safe_to_show_pending r M'" "same_shape M M'"
  shows "new_user_navigation r M'"
  using assms(1,2) same_shape_fields(1,2,9) [OF assms(3)]
  by (auto simp: GetPendingItemInCurrentOrRestoredSession_def safe_to_show_pending_def new_user_navigation_def split: if_splits)

lemma last_committed_impl_source:
  "GetLastCommittedItemImpl G M = Inr (Some r, M') \<Longrightarrow> GetLastCommittedItemInCurrentOrRestoredSession G M = Inr (Some r, M')"
  by (auto simp: GetLastCommittedItemImpl_def res_simps split: if_splits option.splits)

lemma rbind_pairE:
  assumes "rbind m f = Inr y"
  obtains a b where "m = Inr (a, b)" "f (a, b) = Inr y"
  using assms by (cases m) auto

text \<open>The visible entry is the pending one or the one last committed.\<close>

lemma visible_item_source:
  assumes "GetVisibleItem G M = Inr (Some r, M')" "refs_ok M" "\<not> is_restore_session_in_progress M" "restored_visible_item M = None"
  shows "new_user_navigation r M' \<or>
    (\<exists>N. refs_ok N \<and> same_shape M N \<and> GetLastCommittedItemInCurrentOrRestoredSession G N = Inr (Some r, M'))"
proof -
  have quiet: "\<not> (is_restore_session_in_progress M \<or> restored_visible_item M \<noteq> None)" using assms(3,4) by simp
  obtain p M1 where p: "GetPendingItemInCurrentOrRestoredSession G M = Inr (p, M1)"
    and rest: "(if (case p of None \<Rightarrow> False | Some p \<Rightarrow> safe_to_show_pending p M1) then Inr (p, M1)
      else rbind (GetLastCommittedItemImpl G M1) (\<lambda>(last, M).
        if last \<noteq> None then Inr (last, M)
        else rbind (GetLastCommittedItemInCurrentOrRestoredSession G M) (\<lambda>(result, M).
          Inr (case result of None \<Rightarrow> None
               | Some r \<Rightarrow> if IsRestoreSessionUrl G (item_url (item_at r M)) then Some r else None, M)))) = Inr (Some r, M')"
    by (rule rbind_pairE [OF assms(1) [unfolded GetVisibleItem_def if_not_P [OF quiet]]]) simp
  have got1: "got M p M1" using yieldsD [OF GetPendingInCurrent_gets [OF assms(2)] p] by simp
  have M1: "refs_ok M1" "same_shape M M1" using gotD(2,3) [OF got1] by simp_all
  show ?thesis
  proof (cases "case p of None \<Rightarrow> False | Some p \<Rightarrow> safe_to_show_pending p M1")
    case True
    then show ?thesis using rest p pending_shown [OF _ _ M1(2)] by (auto split: option.splits)
  next
    case False
    obtain l M2 where l: "GetLastCommittedItemImpl G M1 = Inr (l, M2)"
      by (rule rbind_pairE [OF rest [unfolded if_not_P [OF False]]])
    show ?thesis
    proof (cases l)
      case None
      have got2: "got M1 l M2" using yieldsD [OF GetLastCommittedItemImpl_gets [OF M1(1)] l] by simp
      have "rbind (GetLastCommittedItemInCurrentOrRestoredSession G M2) (\<lambda>(result, M).
          Inr (case result of None \<Rightarrow> None
               | Some r \<Rightarrow> if IsRestoreSessionUrl G (item_url (item_at r M)) then Some r else None, M)) = Inr (Some r, M')"
        using rest [unfolded if_not_P [OF False]] l None by simp
      then have "GetLastCommittedItemInCurrentOrRestoredSession G M2 = Inr (Some r, M')"
        by (rule rbind_pairE) (auto split: option.splits if_splits)
      then show ?thesis using gotD(2) [OF got2] same_shape_trans [OF M1(2) gotD(3) [OF got2]] by blast
    next
      case (Some x)
      then have "GetLastCommittedItemInCurrentOrRestoredSession G M1 = Inr (Some r, M')"
        using rest [unfolded if_not_P [OF False]] l by (intro last_committed_impl_source) auto
      then show ?thesis using M1 by blast
    qed
  qed
qed

lemma visible_item_matches:
  assumes "GetVisibleItem G M = Inr (Some r, M')" "refs_ok M" "\<not> is_restore_session_in_progress M" "restored_visible_item M = None"
    "\<not> new_user_navigation r M'"
  shows "empty_window_open_item M \<noteq> None \<Longrightarrow> empty_window_open_item M = Some r"
    and "plain_view M \<Longrightarrow> matches_page G r M'"
proof -
  obtain N where N: "refs_ok N" "same_shape M N" "GetLastCommittedItemInCurrentOrRestoredSession G N = Inr (Some r, M')"
    using visible_item_source [OF assms(1-4)] assms(5) by blast
  show "empty_window_open_item M = Some r" if "empty_window_open_item M \<noteq> None"
    using that N(3) same_shape_fields [OF N(2)] by (auto simp: GetLastCommittedItemInCurrentOrRestoredSession_def)
  show "matches_page G r M'" if "plain_view M"
    using that last_committed_matches [OF N(3,1)] plain_view_shape [OF N(2)] by simp
qed

end
