(* ===== verification/Navigation_Properties.thy ===== *)
theory Navigation_Properties
  imports Navigation_Lemmas
begin

text \<open>
  The properties of the navigation manager: its pointers, what the user is shown, what a page can make
  it load, moving in the history, the removal of the web view, loading and restoring.  The witnesses
  use \<open>demo_web\<close>, a small instance of the environment with addresses as strings.
\<close>

section \<open>A concrete environment\<close>

definition demo_web :: "string web_env" where
  "demo_web =
     \<lparr>gurl_empty = [], gurl_is_empty = (\<lambda>u. u = []), gurl_is_valid = (\<lambda>u. u \<noteq> []),
      gurl_scheme = takeWhile (\<lambda>c. c \<noteq> CHR '':''), gurl_path = takeWhile (\<lambda>c. c \<noteq> CHR ''#''),
      gurl_ref = (\<lambda>u. drop 1 (dropWhile (\<lambda>c. c \<noteq> CHR ''#'') u)), gurl_origin = takeWhile (\<lambda>c. c \<noteq> CHR ''/''),
      gurl_spec = id, gurl_of_spec = id, gurl_with_ref = (\<lambda>u r. u @ CHR ''#'' # r),
      gurl_equals_ignoring_ref = (\<lambda>u v. takeWhile (\<lambda>c. c \<noteq> CHR ''#'') u = takeWhile (\<lambda>c. c \<noteq> CHR ''#'') v),
      gurl_content = (\<lambda>u. drop 1 (dropWhile (\<lambda>c. c \<noteq> CHR '':'') u)),
      escape_query_param = id, unescape_component = id, session_json = (\<lambda>k urls titles. concat urls),
      truncate_string = (\<lambda>s n. take n s), format_url = id, elide_string = (\<lambda>s n. take n s),
      restore_session_base_url = ''file:restore'', is_app_specific_url = (\<lambda>u. take 6 u = ''chrome''),
      gurl_query_value = (\<lambda>u k. None), unescape_for_html = id, loaded_error_page_file_path = ''file:error'',
      client_url_rewriters = [\<lambda>u. if u = ''about:app'' then Some ''chrome:app'' else None],
      PAGE_TRANSITION_LINK = 0, PAGE_TRANSITION_RELOAD = 8, PAGE_TRANSITION_FORM_SUBMIT = 7,
      PAGE_TRANSITION_FORWARD_BACK = 0x1000000, transition_core_type_is = (\<lambda>t c. t mod 256 = c mod 256),
      transition_is_redirect = (\<lambda>t. False)\<rparr>"

definition demo_view :: "string web_view" where
  "demo_view = \<lparr>web_view_url = ''http:b/2'',
     back_list = [\<lparr>wk_url = ''http:a/1'', wk_title = ''one'', wk_navigation_item = None\<rparr>],
     current_item = Some \<lparr>wk_url = ''http:b/2'', wk_title = ''two'', wk_navigation_item = None\<rparr>,
     forward_list = []\<rparr>"

definition demo_nav :: "string nav_manager" where
  "demo_nav = (NavigationManagerImpl demo_web)\<lparr>web_view := Some demo_view, is_loading := False,
     document_url := ''http:b/2'', delegate_pending_item := None, going_to_back_forward_list_item := False, now := 5\<rparr>"

lemma demo_nav_reachable: "nav_reachable demo_web demo_nav"
proof (rule reachable_from.step)
  show "nav_reachable demo_web (NavigationManagerImpl demo_web)" by (rule reachable_from.start) simp
  show "nav_exec demo_web (NavEnvironment (Some demo_view) False ''http:b/2'' None False 5) (NavigationManagerImpl demo_web) = Inr demo_nav"
    by (simp add: demo_nav_def)
  show "nav_args_ok (NavEnvironment (Some demo_view) False ''http:b/2'' None False 5) (NavigationManagerImpl demo_web)"
    by (simp add: demo_view_def wk_items_def)
qed

lemma demo_nav_ok: "history_ok demo_nav" "attached_to_web_view demo_nav" "pending_item_index demo_nav = -1"
  "empty_window_open_item demo_nav = None" "plain_view demo_nav" "\<not> is_restore_session_in_progress demo_nav"
  "restored_visible_item demo_nav = None" "GetBackForwardListItemCount demo_nav = 2" "GetCurrentItemIndex demo_nav = 1"
  by (simp_all add: history_ok_def view_ok_def demo_nav_def demo_view_def NavigationManagerImpl_def plain_view_def
    GetBackForwardListItemCount_def GetCurrentItemIndex_def)

lemma demo_nav_count: "GetItemCount demo_nav = 2"
  using demo_nav_ok(4,8) by (simp add: GetItemCount_def)

section \<open>What the user is shown\<close>

text \<open>
  Property C4.  What the address bar shows cannot be spoofed.  During a restoration, and as long as an entry
  is kept for it, the visible entry is that of the restored session.  Otherwise it is a navigation the
  user has started and that is loading, or, in a window opened empty by a page, the entry made for that
  window, or else an entry that fits the page on screen: it has the address of the document or the
  origin of the page in the web view, unless one of the two has no origin to compare (\<^verbatim>\<open>about:\<close>,
  \<^verbatim>\<open>file:\<close>, pages of the application).  The last is not ensured while there is no page to compare
  with (the manager is detached from its web view, or its tab is being destroyed), and while the web
  view goes to an entry of its list, as then its address is ahead of the page.
\<close>

theorem visible_item_trustworthy:
  assumes "nav_reachable G M" "GetVisibleItem G M = Inr (Some r, M')"
  shows "if is_restore_session_in_progress M \<or> restored_visible_item M \<noteq> None then restored_visible_item M = Some r
    else new_user_navigation r M' \<or>
      (if empty_window_open_item M \<noteq> None then empty_window_open_item M = Some r
       else attached_to_web_view M \<and> has_web_state M \<and> \<not> going_to_back_forward_list_item M \<longrightarrow> matches_page G r M')"
proof (cases "is_restore_session_in_progress M \<or> restored_visible_item M \<noteq> None")
  case True
  then have "restored_visible_item M = Some r" using assms(2) by (auto simp: GetVisibleItem_def)
  then show ?thesis using True by simp
next
  case False
  then have q: "\<not> is_restore_session_in_progress M" "restored_visible_item M = None" by simp_all
  note m = visible_item_matches [OF assms(2) nav_heap.reachable_inv [OF assms(1)] q]
  show ?thesis using m q by (auto simp: plain_view_def)
qed

theorem visible_item_trustworthy_witness:
  "\<exists>r M'. GetVisibleItem demo_web demo_nav = Inr (Some r, M') \<and> (new_user_navigation r M' \<or> matches_page demo_web r M')"
proof -
  have "case GetVisibleItem demo_web demo_nav of Inr (Some r, M') \<Rightarrow> True | _ \<Rightarrow> False" by code_simp
  then obtain r M' where "GetVisibleItem demo_web demo_nav = Inr (Some r, M')" by (auto split: sum.splits prod.splits option.splits)
  then show ?thesis using visible_item_trustworthy [OF demo_nav_reachable] demo_nav_ok(4-7) by (auto simp: plain_view_def)
qed

section \<open>Moving in the history\<close>

text \<open>
  Property C8.  The buttons do what they promise, for a manager attached to a web view that has a current
  item as soon as it has any, in a window that was not opened empty.  When \<^verbatim>\<open>CanGoToOffset\<close> holds, and the entry last committed can be determined,
  going to that offset hits no assertion: unless the page on screen is one that restores the session,
  the manager gives up a pending navigation and asks the web view for the item at this offset, counted
  from a pending history navigation if there is one, together with the entry that belongs to it.  With
  no pending history navigation, and fewer than \<open>2 ^ 31\<close> items, the last committed entry can always be
  determined.
\<close>

theorem go_to_offset_correct:
  assumes "nav_reachable G M" "attached_to_web_view M" "history_ok M" "empty_window_open_item M = None" "CanGoToOffset offset M"
  defines "index \<equiv> GetIndexForOffset offset M"
  shows "(\<forall>l M1. GetLastCommittedItemInCurrentOrRestoredSession G M = Inr (l, M1) \<longrightarrow>
      (if \<exists>r. l = Some r \<and> IsRestoreSessionUrl G (item_url (item_at r M1)) then GoToIndex G index M = Inr M1
       else \<exists>M' r. GoToIndex G index M = Inr M' \<and>
         nav_log M' = nav_log M @ [RecordPageStateInNavigationItem, ClearDialogs,
           GoToBackForwardListItem (nat index) r BROWSER_INITIATED True] \<and>
         entry_at (index - GetCurrentItemIndex M) M' = Some r \<and> pending_item M' = None \<and> pending_item_index M' = -1)) \<and>
    (pending_item_index M = -1 \<and> int (GetItemCount M) < 2 ^ 31 \<longrightarrow> index = GetCurrentItemIndex M + offset \<and>
      (\<exists>l M1. GetLastCommittedItemInCurrentOrRestoredSession G M = Inr (Some l, M1)))"
proof -
  have ok: "refs_ok M" by (rule nav_heap.reachable_inv [OF assms(1)])
  have count: "GetItemCount M = GetBackForwardListItemCount M" using assms(4) by (simp add: GetItemCount_def)
  have index: "0 \<le> index" "index < int (GetBackForwardListItemCount M)"
    using assms(4,5) by (auto simp: CanGoToOffset_def index_def Let_def count split: if_splits)
  have "if \<exists>r. l = Some r \<and> IsRestoreSessionUrl G (item_url (item_at r M1)) then GoToIndex G index M = Inr M1
      else \<exists>M' r. GoToIndex G index M = Inr M' \<and>
         nav_log M' = nav_log M @ [RecordPageStateInNavigationItem, ClearDialogs,
           GoToBackForwardListItem (nat index) r BROWSER_INITIATED True] \<and>
         entry_at (index - GetCurrentItemIndex M) M' = Some r \<and> pending_item M' = None \<and> pending_item_index M' = -1"
    if l: "GetLastCommittedItemInCurrentOrRestoredSession G M = Inr (l, M1)" for l M1
  proof -
    have got: "got M l M1" using yieldsD [OF GetLastCommitted_gets [OF ok] l] by simp
    note shape = gotD(3) [OF got]
    have M1: "history_ok M1" "attached_to_web_view M1" "refs_ok M1" "empty_window_open_item M1 = None"
        "GetBackForwardListItemCount M1 = GetBackForwardListItemCount M" "GetCurrentItemIndex M1 = GetCurrentItemIndex M"
        "nav_log M1 = nav_log M"
      using assms(2,4) same_shape_fields(3,4,11) [OF shape] same_shape_simps(1,2) [OF shape] gotD(2) [OF got]
        history_ok_shape [OF shape assms(3)] by simp_all
    have "\<exists>M' r. GoToIndexFrom G index BROWSER_INITIATED True M1 = Inr M' \<and>
         nav_log M' = nav_log M @ [RecordPageStateInNavigationItem, ClearDialogs,
           GoToBackForwardListItem (nat index) r BROWSER_INITIATED True] \<and>
         entry_at (index - GetCurrentItemIndex M) M' = Some r \<and> pending_item M' = None \<and> pending_item_index M' = -1"
      using GoToIndexFrom_returns [OF M1(1-4) index(1), of G BROWSER_INITIATED True] index(2) M1 by simp
    then show ?thesis using l by (cases l) (auto simp: GoToIndex_def)
  qed
  moreover have "index = GetCurrentItemIndex M + offset \<and>
      (\<exists>l M1. GetLastCommittedItemInCurrentOrRestoredSession G M = Inr (Some l, M1))"
    if p: "pending_item_index M = -1" "int (GetItemCount M) < 2 ^ 31"
  proof -
    have "0 < GetBackForwardListItemCount M" using index by linarith
    then have "\<exists>l M1. GetLastCommittedItemInCurrentOrRestoredSession G M = Inr (Some l, M1)"
      using last_committed_returns [OF assms(3,2) ok assms(4) p(1), of G] p(2) count by auto
    then show ?thesis using index(1) assms(4) p(1) by (auto simp: index_def GetIndexForOffset_def Let_def split: if_splits)
  qed
  ultimately show ?thesis by blast
qed

theorem go_to_offset_correct_witness:
  "CanGoToOffset (-1) demo_nav \<and>
   (\<exists>M' r. GoToIndex demo_web (GetIndexForOffset (-1) demo_nav) demo_nav = Inr M' \<and>
      nav_log M' = nav_log demo_nav @ [RecordPageStateInNavigationItem, ClearDialogs,
        GoToBackForwardListItem 0 r BROWSER_INITIATED True] \<and> entry_at (-1) M' = Some r)"
proof -
  have can: "CanGoToOffset (-1) demo_nav" "GetIndexForOffset (-1) demo_nav = 0" by code_simp+
  have "case GetLastCommittedItemInCurrentOrRestoredSession demo_web demo_nav of
      Inr (Some l, M1) \<Rightarrow> \<not> IsRestoreSessionUrl demo_web (item_url (item_at l M1)) | _ \<Rightarrow> False" by code_simp
  then obtain l M1 where l: "GetLastCommittedItemInCurrentOrRestoredSession demo_web demo_nav = Inr (Some l, M1)"
    "\<not> IsRestoreSessionUrl demo_web (item_url (item_at l M1))" by (auto split: sum.splits prod.splits option.splits)
  show ?thesis
    using go_to_offset_correct [OF demo_nav_reachable demo_nav_ok(2,1,4) can(1)] can l demo_nav_ok(9) by auto
qed

section \<open>What a page can make the manager load\<close>

lemma loaded_url_safe:
  assumes "init = RENDERER_INITIATED \<or> transition_core_type_is G tr (PAGE_TRANSITION_RELOAD G)"
    "\<not> is_app_specific_url G url" "\<not> is_app_specific_url G previous"
  shows "\<not> is_app_specific_url G (loaded_url G ws url tr init previous)"
  using assms by (simp add: loaded_url_def Let_def)

text \<open>The address of the new entry is that of \<open>loaded_url\<close>, also after the comparison with the current item.\<close>

lemma create_pending_item_url:
  assumes "refs_ok M" "GetLastCommittedItemInCurrentOrRestoredSession G M = Inr (c, M1)"
  shows "yields (create_pending_item G url ref tr init up M) (\<lambda>(r, M'). \<exists>ws. item_url (item_at r M') =
    loaded_url G ws url tr init (case c of None \<Rightarrow> gurl_empty G | Some l \<Rightarrow> item_url (item_at l M1)))"
proof -
  have "later M M1" using yieldsD [OF GetLastCommitted_gets [OF assms(1)] assms(2)] by (simp add: got_def)
  then have source: "yields (redirect_source G tr M1) (\<lambda>(src, M2). refs_ok M2)"
    by (intro redirect_source_cont [of M]) (auto dest: later_ok)
  have field: "item_at r (N\<lparr>pending_item := x, transient_url_rewriters := ws\<rparr>) = item_at r N"
      "item_at r (N\<lparr>next_pending_url_should_skip_serialization := u\<rparr>) = item_at r N" for r x ws u and N :: "'a nav_manager"
    by (simp_all add: item_at_def)
  show ?thesis
    unfolding create_pending_item_def yields_rbind yields_def [of "GetLastCommittedItemInCurrentOrRestoredSession G M"]
    by (auto simp: assms(2) Let_def yields_simps field split: prod.split intro!: yields_weaken [OF source]
      dest: create_item_got(5))
qed

lemma match_current_item_url:
  "yields (match_current_item G tr init post r M) (\<lambda>M'. pending_item M' \<noteq> None \<longrightarrow> pending_item M' = pending_item M \<and>
     item_url (item_at r' M') = item_url (item_at r' M))"
  unfolding match_current_item_def try_update_item_def SetUserAgentType_def
  by (auto simp: yields_simps Let_def split: option.split intro!: yields_extract yields_any [of _ "SetNavigationItemInWKItem _ _ _"])
    (simp_all add: update_item_def)

lemma create_pending_item_pending:
  "yields (create_pending_item G url ref tr init up M) (\<lambda>(r, M'). pending_item M' = Some r)"
  unfolding create_pending_item_def
  by (auto simp: yields_simps Let_def split: prod.split
    intro!: yields_any [of _ "GetLastCommittedItemInCurrentOrRestoredSession _ _"] yields_any [of _ "redirect_source _ _ _"])
    (simp_all add: update_item_def)

text \<open>
  Property C7.  A page cannot open a page of the application, which would have more rights: for a
  navigation started by a page, and for a reload, no rewriting of the address leads to a page of the
  application, unless the page on screen is one itself.
\<close>

theorem page_cannot_open_app_page:
  assumes "nav_reachable G M" "init = RENDERER_INITIATED \<or> transition_core_type_is G tr (PAGE_TRANSITION_RELOAD G)"
    "\<not> is_app_specific_url G url" "\<not> is_app_specific_url G (gurl_empty G)"
    "GetLastCommittedItemInCurrentOrRestoredSession G (DiscardNonCommittedItems M) = Inr (c, M1)"
    "\<forall>l. c = Some l \<longrightarrow> \<not> is_app_specific_url G (item_url (item_at l M1))"
    "AddPendingItem G url ref tr init post up M = Inr M'" "pending_item M' = Some r"
  shows "\<not> is_app_specific_url G (item_url (item_at r M'))"
proof -
  have ok: "refs_ok (DiscardNonCommittedItems M)" by (rule refs_ok_Discard [OF nav_heap.reachable_inv [OF assms(1)]])
  obtain r1 N where N: "create_pending_item G url ref tr init up (DiscardNonCommittedItems M) = Inr (r1, N)"
    and rest: "(if \<not> attached_to_web_view N then Inr N else match_current_item G tr init post r1 N) = Inr M'"
    using assms(7) unfolding AddPendingItem_def by (auto elim!: rbind_pairE)
  have same: "pending_item N = Some r" "item_url (item_at r M') = item_url (item_at r N)"
    using rest assms(8) yieldsD [OF match_current_item_url [where ?r' = r], of G tr init post r1 N M'] by (auto split: if_splits)
  moreover have "pending_item N = Some r1" using yieldsD [OF create_pending_item_pending N] by simp
  moreover obtain ws where "item_url (item_at r1 N) =
      loaded_url G ws url tr init (case c of None \<Rightarrow> gurl_empty G | Some l \<Rightarrow> item_url (item_at l M1))"
    using yieldsD [OF create_pending_item_url [OF ok assms(5)] N] by auto
  moreover have "\<not> is_app_specific_url G (case c of None \<Rightarrow> gurl_empty G | Some l \<Rightarrow> item_url (item_at l M1))"
    using assms(4,6) by (simp split: option.split)
  ultimately show ?thesis using loaded_url_safe [OF assms(2,3)] by simp
qed

theorem page_cannot_open_app_page_witness:
  "\<exists>M' r. AddPendingItem demo_web ''about:app'' (EmptyReferrer demo_web) 0 RENDERER_INITIATED False HttpsUpgradeNone demo_nav = Inr M' \<and>
     pending_item M' = Some r \<and> \<not> is_app_specific_url demo_web (item_url (item_at r M'))"
proof -
  have "case GetLastCommittedItemInCurrentOrRestoredSession demo_web (DiscardNonCommittedItems demo_nav) of
      Inr (Some l, M1) \<Rightarrow> \<not> is_app_specific_url demo_web (item_url (item_at l M1)) | _ \<Rightarrow> False" by code_simp
  then obtain l M1 where l: "GetLastCommittedItemInCurrentOrRestoredSession demo_web (DiscardNonCommittedItems demo_nav) = Inr (Some l, M1)"
      "\<not> is_app_specific_url demo_web (item_url (item_at l M1))" by (auto split: sum.splits prod.splits option.splits)
  have "case AddPendingItem demo_web ''about:app'' (EmptyReferrer demo_web) 0 RENDERER_INITIATED False HttpsUpgradeNone demo_nav of
      Inr M' \<Rightarrow> pending_item M' \<noteq> None | _ \<Rightarrow> False" by code_simp
  then obtain M' r where M': "AddPendingItem demo_web ''about:app'' (EmptyReferrer demo_web) 0 RENDERER_INITIATED False HttpsUpgradeNone demo_nav = Inr M'"
      "pending_item M' = Some r" by (auto split: sum.splits)
  have "\<not> is_app_specific_url demo_web ''about:app''" "\<not> is_app_specific_url demo_web (gurl_empty demo_web)"
    by (simp_all add: demo_web_def)
  then show ?thesis
    using page_cannot_open_app_page [OF demo_nav_reachable _ _ _ l(1) _ M'] l(2) M' by blast
qed

section \<open>The web view goes away\<close>

text \<open>
  Property C9.  The history survives the removal of the web view: detaching returns, the number of
  entries and the current position stay, and at every position the cache has an entry, which is a copy
  of the one there was, with the address behind a page that restores the session.
\<close>

theorem detach_keeps_history:
  assumes "nav_reachable G M" "attached_to_web_view M" "history_ok M"
  shows "\<exists>M'. DetachFromWebView G M = Inr M' \<and> \<not> attached_to_web_view M' \<and> GetItemCount M' = GetItemCount M \<and>
    GetCurrentItemIndex M' = GetCurrentItemIndex M \<and>
    (\<forall>i < GetBackForwardListItemCount M. \<exists>c. cached_items M' ! i = Some c \<and>
      (\<forall>r. entry_at (int i - GetCurrentItemIndex M) M = Some r \<longrightarrow> item_at c M' = cached_copy G (item_at r M)))"
proof -
  obtain M' where M': "DetachFromWebView G M = Inr M'" "\<not> attached_to_web_view M'"
    "empty_window_open_item M' = empty_window_open_item M"
    "GetBackForwardListItemCount M' = GetBackForwardListItemCount M" "GetCurrentItemIndex M' = GetCurrentItemIndex M"
    "copies G [0..<GetBackForwardListItemCount M] (cached_items M') M M'"
    by (rule detach_returns [OF assms(3,2) nav_heap.reachable_inv [OF assms(1)]])
  then show ?thesis by (auto simp: GetItemCount_def copies_def)
qed

theorem detach_keeps_history_witness:
  "\<exists>M'. DetachFromWebView demo_web demo_nav = Inr M' \<and> GetItemCount M' = 2 \<and> GetCurrentItemIndex M' = 1"
  using detach_keeps_history [OF demo_nav_reachable demo_nav_ok(2,1)] demo_nav_count demo_nav_ok(9) by auto

text \<open>
  Property C33.  Restoring a session over a history fails: \<^verbatim>\<open>Restore\<close> removes the web view to get rid of the
  entries, but the removal makes the cache keep them, so the assertion that there are none fails.
\<close>

theorem restore_over_history_aborts:
  assumes "nav_reachable G M" "attached_to_web_view M" "history_ok M" "web_view M \<noteq> None" "0 < GetItemCount M"
    "\<not> is_restore_session_in_progress M" "items \<noteq> []" "0 \<le> k" "k < int (length items)"
  shows "restore_session G k items M = Inl (DCheckFailed ''0 == GetItemCount()'')"
proof -
  let ?D = "DiscardNonCommittedItems (nav_emit [RecordRestoreNavigationItemCount (length items)] M)"
  have D: "history_ok ?D" "attached_to_web_view ?D" "refs_ok ?D" "GetItemCount ?D = GetItemCount M" "web_view ?D \<noteq> None"
    using assms(2,3,4) nav_heap.reachable_inv [OF assms(1)] by (simp_all add: quiet_steps refs_ok_Discard)
  obtain N where "DetachFromWebView G ?D = Inr N" by (rule detach_returns [OF D(1-3)])
  then obtain N' where N': "RemoveWebView G ?D = Inr N'" using D(5) by (auto simp: RemoveWebView_def)
  moreover have "GetItemCount N' \<noteq> 0" using RemoveWebView_count [OF N' D(2,3)] D(4) assms(5) by simp
  ultimately show ?thesis
    using assms(2,5-9) D(4) by (simp add: Restore_def Let_def)
qed

theorem restore_over_history_aborts_witness:
  "restore_session demo_web 0 [Some 0] demo_nav = Inl (DCheckFailed ''0 == GetItemCount()'')"
  using demo_nav_ok by (intro restore_over_history_aborts [OF demo_nav_reachable]) (simp_all add: GetItemCount_def demo_nav_def)

section \<open>Loading and restoring\<close>

text \<open>
  Property C11.  Loading without a web view restores the cached session, and restoring loads a page: the
  calls end after two rounds, whatever the state.  The bound on the rounds is never used up, and a
  larger one changes nothing.
\<close>

theorem load_terminates:
  assumes "nav_reachable G M" "2 \<le> n"
  shows "LoadURLWithParams n G params M \<noteq> Inl (NotReached ''LoadURLWithParams'') \<and>
    LoadURLWithParams n G params M = LoadURLWithParams load_rounds G params M"
proof -
  have ok: "refs_ok M" by (rule nav_heap.reachable_inv [OF assms(1)])
  obtain m where "n = Suc (Suc m)" using assms(2) by (metis Suc_le_D numeral_2_eq_2 Suc_le_mono)
  then show ?thesis using load_fuel [OF ok] load_not_stuck [OF ok] by (simp only: not_stuck_def) blast
qed

theorem load_terminates_witness:
  "LoadURLWithParams 5 demo_web (WebLoadParams demo_web ''http:c/3'') demo_nav =
   LoadURLWithParams load_rounds demo_web (WebLoadParams demo_web ''http:c/3'') demo_nav"
  using load_terminates [OF demo_nav_reachable, of 5] by simp

text \<open>
  Property C31.  A restored session has at most 75 entries, the last committed one among them, and every
  entry that is at most 37 steps away from it; the page gets as many addresses and titles as entries,
  and the position it starts from is one of them.
\<close>

theorem restored_session_bounded:
  assumes "0 \<le> k" "k < int (length items)" "GetSafeItemRange k (int (length items)) = (k', offset, len)"
  shows "\<exists>json. CreateRestoreSessionUrl G k items = Inr (gurl_with_ref G (restore_session_base_url G)
      (kRestoreSessionSessionHashPrefix @ escape_query_param G json), offset) \<and>
    json = session_json G (k' + 1 - len) (map (\<lambda>i. gurl_spec G (item_url i)) (take (nat len) (drop (nat offset) items)))
      (map item_title (take (nat len) (drop (nat offset) items))) \<and>
    length (take (nat len) (drop (nat offset) items)) = nat len \<and> len \<le> 75 \<and>
    0 \<le> k' \<and> k' < len \<and> take (nat len) (drop (nat offset) items) ! nat k' = items ! nat k \<and>
    (\<forall>j. 0 \<le> j \<and> j < int (length items) \<and> \<bar>j - k\<bar> \<le> 37 \<longrightarrow> offset \<le> j \<and> j < offset + len)"
proof -
  note bounds = GetSafeItemRange_bounds [OF assms]
  have "take (nat len) (drop (nat offset) items) ! nat k' = items ! nat k"
    using bounds assms(2) by (simp add: nth_take nth_drop nat_add_distrib [symmetric] add.commute)
  moreover have "length (take (nat len) (drop (nat offset) items)) = nat len" using bounds(1,2,4,5) by simp
  moreover have "offset \<le> j \<and> j < offset + len" if "0 \<le> j \<and> j < int (length items) \<and> \<bar>j - k\<bar> \<le> 37" for j
    using GetSafeItemRange_nearest [OF assms, of j] that by (simp add: kMaxSessionSize_def)
  ultimately show ?thesis
    using assms bounds(3-5) by (auto simp: CreateRestoreSessionUrl_def kMaxSessionSize_def Let_def)
qed

theorem restored_session_bounded_witness:
  "\<exists>json. CreateRestoreSessionUrl demo_web 1 (replicate 100 (NavigationItemImpl demo_web 7)) =
     Inr (gurl_with_ref demo_web (restore_session_base_url demo_web)
       (kRestoreSessionSessionHashPrefix @ escape_query_param demo_web json), 0)"
proof -
  have "GetSafeItemRange 1 100 = (1, 0, 75)" by code_simp
  then show ?thesis
    using restored_session_bounded [of 1 "replicate 100 (NavigationItemImpl demo_web 7)" 1 0 75 demo_web] by auto
qed

text \<open>The entry of an item that has one is returned, and nothing changes.\<close>

lemma cache_item_present:
  assumes "attached_to_web_view M" "i < GetBackForwardListItemCount M" "entry_at (int i - GetCurrentItemIndex M) M = Some r"
  shows "cache_GetNavigationItemImplAtIndex G i create M = Inr (Some r, M)"
proof -
  obtain w where "GetWKItemAtIndex i M = Inr (Some w)" "wk_navigation_item w = Some r"
    using assms by (auto simp: GetWKItemAtIndex_def entry_at_def split: bind_splits)
  then show ?thesis using assms(1,2) by (simp add: cache_GetNavigationItemImplAtIndex_def)
qed

text \<open>The page an address of the web view stands for: itself, or the target of a restoration page.\<close>

definition stands_for :: "'u web_env \<Rightarrow> 'u \<Rightarrow> 'u \<Rightarrow> bool" where
  "stands_for G url page \<longleftrightarrow>
     (if IsRestoreSessionUrl G url then ExtractTargetURL G url = Inr (Some page) else url = page)"

definition differs_at :: "'u web_env \<Rightarrow> item_ref list \<Rightarrow> 'u nav_manager \<Rightarrow> nat \<Rightarrow> bool" where
  "differs_at G refs M i \<longleftrightarrow> (\<exists>c page. entry_at (int i - GetCurrentItemIndex M) M = Some c \<and>
     stands_for G (item_url (item_at c M)) page \<and> page \<noteq> item_url (item_at (refs ! i) M))"

lemma restore_loop_nothing:
  assumes "attached_to_web_view M" "limit \<le> GetBackForwardListItemCount M"
    "\<forall>i. i < limit \<longrightarrow> i < length refs \<longrightarrow> differs_at G refs M i"
  shows "restore_items_loop G i limit (map Some (drop i refs)) M = Inr M"
proof (induction "length refs - i" arbitrary: i)
  case (Suc n)
  then have drop: "drop i refs = refs ! i # drop (Suc i) refs" by (simp add: Cons_nth_drop_Suc)
  show ?case
  proof (cases "i < limit")
    case True
    obtain c page where c: "entry_at (int i - GetCurrentItemIndex M) M = Some c" "stands_for G (item_url (item_at c M)) page"
        "page \<noteq> item_url (item_at (refs ! i) M)"
      using assms(3) True Suc.hyps(2) by (auto simp: differs_at_def)
    have "cache_GetNavigationItemImplAtIndex G i True M = Inr (Some c, M)"
      using assms(1,2) True c(1) by (intro cache_item_present) auto
    then show ?thesis using True c(2,3) Suc.hyps(1) [of "Suc i"] Suc.hyps(2)
      by (auto simp: drop stands_for_def split: if_splits)
  qed (simp add: drop)
qed simp

text \<open>
  Property C32.  A session is too long to be restored and is shortened at its beginning, by \<open>offset\<close> entries.
  Then the state of the entries before the current one is lost: \<open>refs\<close> are all entries before the last
  committed one, the web view has those from \<open>offset\<close> on, as the pages themselves or as the
  restoration pages that stand for them, but \<^verbatim>\<open>RestoreItemsState\<close> compares the two lists from their
  beginnings.  If the addresses of \<open>refs\<close> are distinct, it restores the state of no entry.
\<close>

theorem long_session_loses_state:
  assumes "GetSafeItemRange (int (length refs)) n = (k, int offset, len)" "int (length refs) < n" "0 < offset"
    "attached_to_web_view M" "GetCurrentItemIndex M = k" "distinct (map (\<lambda>r. item_url (item_at r M)) refs)"
    "\<forall>i. i + offset < length refs \<longrightarrow> (\<exists>c. entry_at (int i - k) M = Some c \<and>
       stands_for G (item_url (item_at c M)) (item_url (item_at (refs ! (i + offset)) M)))"
  shows "RestoreItemsState G kBackList (map Some refs) M = Inr M"
proof -
  note bounds = GetSafeItemRange_bounds [OF _ assms(2,1)]
  have k: "0 \<le> k" "k < 75" "k + int offset = int (length refs)" using bounds by (auto simp: kMaxSessionSize_def)
  have "nat k \<le> GetBackForwardListItemCount M"
    using assms(4,5) k(1) by (auto simp: GetCurrentItemIndex_def GetBackForwardListItemCount_def split: option.splits if_splits)
  moreover have "differs_at G refs M i" if "i < nat k" for i
  proof -
    have i: "i + offset < length refs" using that k by linarith
    have "item_url (item_at (refs ! (i + offset)) M) \<noteq> item_url (item_at (refs ! i) M)"
      using assms(3,6) i by (auto simp: distinct_conv_nth)
    then show ?thesis using assms(5,7) i unfolding differs_at_def by metis
  qed
  moreover have "size_t_of k = nat k" using k by (intro size_t_of_int) auto
  ultimately show ?thesis
    using restore_loop_nothing [OF assms(4), of "nat k" refs G 0] assms(5) by (simp add: RestoreItemsState_def Let_def)
qed

text \<open>
  A session of 76 entries, of which the last is committed: entry \<open>i\<close> has the address \<open>i\<close>, and \<open>1000 + i\<close>
  is the address of the restoration page that stands for it.
\<close>

definition long_web :: "nat web_env" where
  "long_web =
     \<lparr>gurl_empty = 0, gurl_is_empty = (\<lambda>u. u = 0), gurl_is_valid = (\<lambda>u. True),
      gurl_scheme = (\<lambda>u. if 1000 \<le> u then ''file'' else ''http''), gurl_path = (\<lambda>u. []),
      gurl_ref = (\<lambda>u. if 1000 \<le> u then kRestoreSessionTargetUrlHashPrefix @ replicate (u - 1000) (CHR ''x'') else []),
      gurl_origin = id, gurl_spec = (\<lambda>u. replicate u (CHR ''x'')), gurl_of_spec = length,
      gurl_with_ref = (\<lambda>u r. u + (length r - length kRestoreSessionTargetUrlHashPrefix)), gurl_equals_ignoring_ref = (=),
      gurl_content = (\<lambda>u. []), escape_query_param = id,
      unescape_component = id, session_json = (\<lambda>k urls titles. []), truncate_string = (\<lambda>s n. s), format_url = (\<lambda>u. []),
      elide_string = (\<lambda>s n. s), restore_session_base_url = 1000, is_app_specific_url = (\<lambda>u. False),
      gurl_query_value = (\<lambda>u k. None), unescape_for_html = id, loaded_error_page_file_path = [],
      client_url_rewriters = [], PAGE_TRANSITION_LINK = 0, PAGE_TRANSITION_RELOAD = 8, PAGE_TRANSITION_FORM_SUBMIT = 7,
      PAGE_TRANSITION_FORWARD_BACK = 0x1000000, transition_core_type_is = (\<lambda>t c. False),
      transition_is_redirect = (\<lambda>t. False)\<rparr>"

lemma long_web_redirects: "CreateRedirectUrl long_web u = 1000 + u" "stands_for long_web (1000 + u) u"
  by (simp_all add: CreateRedirectUrl_def stands_for_def IsRestoreSessionUrl_def SchemeIs_def ExtractTargetURL_def long_web_def
      kFileScheme_def dcheck_def Let_def)

definition long_view :: "nat web_view" where
  "long_view =
     (let item = (\<lambda>i. \<lparr>wk_url = CreateRedirectUrl long_web i, wk_title = [], wk_navigation_item = Some (100 + i)\<rparr>)
      in \<lparr>web_view_url = 75, back_list = map item [1..<75], current_item = Some (item 75), forward_list = []\<rparr>)"

definition long_nav :: "nat nav_manager" where
  "long_nav = (NavigationManagerImpl long_web)
     \<lparr>item_store := (\<lambda>r. SetURL (if r < 100 then r else CreateRedirectUrl long_web (r - 100)) (NavigationItemImpl long_web 0)),
      next_ref := 200, web_view := Some long_view\<rparr>"

theorem long_session_loses_state_witness:
  "GetSafeItemRange 75 76 = (74, 1, 75) \<and> RestoreItemsState long_web kBackList (map Some [0..<75]) long_nav = Inr long_nav"
proof -
  have range: "GetSafeItemRange 75 76 = (74, 1, 75)" by code_simp
  have nav: "attached_to_web_view long_nav" "GetCurrentItemIndex long_nav = 74"
      "item_url (item_at r long_nav) = (if r < 100 then r else CreateRedirectUrl long_web (r - 100))" for r
    by (simp_all add: long_nav_def NavigationManagerImpl_def GetCurrentItemIndex_def long_view_def Let_def item_at_def SetURL_def)
  have entry: "entry_at (int i - 74) long_nav = Some (101 + i)" if "i + 1 < 75" for i
  proof -
    have "nat (74 - int i) = 74 - i" using that by simp
    then show ?thesis using that by (auto simp: entry_at_def long_nav_def long_view_def Let_def itemAtIndex_def)
  qed
  have "RestoreItemsState long_web kBackList (map Some [0..<75]) long_nav = Inr long_nav"
  proof (rule long_session_loses_state [of _ 76 74 1 75])
    show "\<forall>i. i + 1 < length [0..<75] \<longrightarrow> (\<exists>c. entry_at (int i - 74) long_nav = Some c \<and>
        stands_for long_web (item_url (item_at c long_nav)) (item_url (item_at ([0..<75] ! (i + 1)) long_nav)))"
    proof (intro allI impI exI conjI)
      fix i assume i: "i + 1 < length [0..<75]"
      show "entry_at (int i - 74) long_nav = Some (101 + i)" using entry i by simp
      show "stands_for long_web (item_url (item_at (101 + i) long_nav)) (item_url (item_at ([0..<75] ! (i + 1)) long_nav))"
        using i long_web_redirects(2) [of "i + 1"] by (simp add: nav(3) long_web_redirects(1))
    qed
  qed (use range nav in \<open>simp_all add: distinct_map inj_on_def\<close>)
  then show ?thesis using range by simp
qed

end
