(* ===== verification/Session_Storage.thy ===== *)
theory Session_Storage
  imports Navigation_Properties
begin

text \<open>
  The form in which a tab is saved: \<^verbatim>\<open>CRWNavigationItemStorage\<close> and \<^verbatim>\<open>CRWSessionStorage\<close>
  (\<^verbatim>\<open>web/crw_navigation_item_storage.mm\<close>, \<^verbatim>\<open>web/session/crw_session_storage.mm\<close>), how they are made from
  a navigation manager and turned into one again (\<^verbatim>\<open>web/navigation/navigation_item_storage_builder.mm\<close>,
  \<^verbatim>\<open>session_storage_builder.mm\<close>), the data clients attach to a tab
  (\<^verbatim>\<open>serializable_user_data_manager_impl.mm\<close>), and the keyed archives they are written to.

  An archive of \<^verbatim>\<open>NSCoder\<close> is a map from keys to values.  A key that is missing decodes as \<^verbatim>\<open>NO\<close>, 0, the
  empty string or nil; a value of another type than the one asked for, which \<^verbatim>\<open>NSKeyedUnarchiver\<close>
  answers with an exception, is a failure.  The dictionary a page display state is stored as, the
  certificate policies and the text of a new UUID are not looked into.
\<close>

section \<open>Archives\<close>

datatype user_value = NSNumberValue int | NSNullValue | NSStringValue string

type_synonym user_data = "string \<Rightarrow> user_value option"

datatype archived =
    ArchivedNil
  | ArchivedBool bool
  | ArchivedInt int
  | ArchivedBytes string
  | ArchivedString string
  | ArchivedURL string
  | ArchivedDisplayState nat
  | ArchivedHeaders "(string \<times> string) list"
  | ArchivedCertPolicies nat
  | ArchivedUserData user_data
  | ArchivedDictionary user_data
  | ArchivedItems "(string \<Rightarrow> archived option) list"
  | ArchivedSessions "(string \<Rightarrow> archived option) list"

type_synonym archive = "string \<Rightarrow> archived option"

definition wrong_type :: "string \<Rightarrow> 'a res" where
  "wrong_type key = Inl (NotReached (''NSInvalidUnarchiveOperationException: '' @ key))"

definition containsValueForKey :: "string \<Rightarrow> archive \<Rightarrow> bool" where
  "containsValueForKey key A \<longleftrightarrow> A key \<noteq> None"

definition decodeBoolForKey :: "string \<Rightarrow> archive \<Rightarrow> bool res" where
  "decodeBoolForKey key A =
     (case A key of None \<Rightarrow> Inr False | Some (ArchivedBool b) \<Rightarrow> Inr b | _ \<Rightarrow> wrong_type key)"

text \<open>\<^verbatim>\<open>encodeInt\<close> takes an \<^verbatim>\<open>int\<close>: a longer integer is cut to 32 bits.\<close>

definition encodeInt :: "int \<Rightarrow> archived" where
  "encodeInt i = ArchivedInt (signed_take_bit 31 i)"

definition decodeIntForKey :: "string \<Rightarrow> archive \<Rightarrow> int res" where
  "decodeIntForKey key A =
     (case A key of None \<Rightarrow> Inr 0 | Some (ArchivedInt i) \<Rightarrow> Inr i | _ \<Rightarrow> wrong_type key)"

definition EncodeString :: "string \<Rightarrow> archived" where
  "EncodeString s = ArchivedBytes s"

definition DecodeString :: "string \<Rightarrow> archive \<Rightarrow> string res" where
  "DecodeString key A =
     (case A key of None \<Rightarrow> Inr [] | Some (ArchivedBytes s) \<Rightarrow> Inr s | _ \<Rightarrow> wrong_type key)"

definition decodeObjectForKey :: "string \<Rightarrow> archive \<Rightarrow> archived" where
  "decodeObjectForKey key A = (case A key of None \<Rightarrow> ArchivedNil | Some x \<Rightarrow> x)"

definition GetUserAgentTypeDescription :: "UserAgentType \<Rightarrow> string" where
  "GetUserAgentTypeDescription type =
     (case type of UserAgentAUTOMATIC \<Rightarrow> ''AUTOMATIC'' | UserAgentNONE \<Rightarrow> ''NONE''
      | UserAgentMOBILE \<Rightarrow> ''MOBILE'' | UserAgentDESKTOP \<Rightarrow> ''DESKTOP'')"

definition GetUserAgentTypeWithDescription :: "string \<Rightarrow> UserAgentType" where
  "GetUserAgentTypeWithDescription description =
     (if description = ''MOBILE'' then UserAgentMOBILE
      else if description = ''DESKTOP'' then UserAgentDESKTOP
      else if description = ''AUTOMATIC'' then UserAgentAUTOMATIC
      else UserAgentNONE)"

section \<open>Saved entries\<close>

record 'u item_storage =
  storage_url :: 'u
  storage_virtual_url :: 'u
  storage_referrer :: "'u referrer"
  storage_timestamp :: int
  storage_title :: string
  storage_display_state :: nat
  storage_skip_repost :: bool
  storage_user_agent :: UserAgentType
  storage_headers :: "http_headers option"

text \<open>The property \<^verbatim>\<open>virtualURL\<close> and the member \<^verbatim>\<open>_virtualURL\<close> are not the same.\<close>

definition virtualURL :: "'u web_env \<Rightarrow> 'u item_storage \<Rightarrow> 'u" where
  "virtualURL G S = (if gurl_is_empty G (storage_virtual_url S) then storage_url S else storage_virtual_url S)"

definition new_item_storage :: "'u web_env \<Rightarrow> 'u item_storage" where
  "new_item_storage G =
     \<lparr>storage_url = gurl_empty G, storage_virtual_url = gurl_empty G, storage_referrer = EmptyReferrer G,
      storage_timestamp = 0, storage_title = [], storage_display_state = 0, storage_skip_repost = False,
      storage_user_agent = UserAgentNONE, storage_headers = None\<rparr>"

text \<open>\<^verbatim>\<open>NavigationItemStorageBuilder\<close>; \<open>max_chars\<close> is \<^verbatim>\<open>url::kMaxURLChars\<close>.\<close>

definition BuildItemStorage :: "'u web_env \<Rightarrow> nat \<Rightarrow> 'u nav_item \<Rightarrow> 'u item_storage" where
  "BuildItemStorage G max_chars item =
     (let S = (new_item_storage G)\<lparr>storage_virtual_url := GetVirtualURL G item, storage_url := item_url item\<rparr>;
          S = (if length (gurl_spec G (referrer_url (item_referrer item))) \<le> max_chars
               then S\<lparr>storage_referrer := item_referrer item\<rparr> else S)
      in S\<lparr>storage_timestamp := timestamp item, storage_title := item_title item,
           storage_display_state := page_display_state item,
           storage_skip_repost := should_skip_repost_form_confirmation item,
           storage_user_agent := user_agent_type item, storage_headers := http_request_headers item\<rparr>)"

definition SchemeIsHTTPOrHTTPS :: "'u web_env \<Rightarrow> 'u \<Rightarrow> bool" where
  "SchemeIsHTTPOrHTTPS G url \<longleftrightarrow> SchemeIs G url ''http'' \<or> SchemeIs G url ''https''"

definition BuildNavigationItemImpl :: "'u web_env \<Rightarrow> int \<Rightarrow> 'u item_storage \<Rightarrow> 'u nav_item" where
  "BuildNavigationItemImpl G new_id S =
     (let item = (NavigationItemImpl G new_id)\<lparr>original_request_url := storage_url S\<rparr>;
          item = (if SchemeIsHTTPOrHTTPS G (storage_url S)
                  then SetVirtualURL G (virtualURL G S) (SetURL (storage_url S) item)
                  else SetURL (virtualURL G S) item)
      in item\<lparr>item_referrer := storage_referrer S, timestamp := storage_timestamp S, item_title := storage_title S,
             page_display_state := storage_display_state S,
             should_skip_repost_form_confirmation := storage_skip_repost S,
             transition_type := PAGE_TRANSITION_RELOAD G, user_agent_type := storage_user_agent S,
             http_request_headers := storage_headers S\<rparr>)"

subsection \<open>Their archives\<close>

definition kNavigationItemStorageURLKey :: string where "kNavigationItemStorageURLKey = ''urlString''"
definition kNavigationItemStorageVirtualURLKey :: string where
  "kNavigationItemStorageVirtualURLKey = ''virtualUrlString''"
definition kNavigationItemStorageReferrerURLKey :: string where
  "kNavigationItemStorageReferrerURLKey = ''referrerUrlString''"
definition kNavigationItemStorageReferrerURLDeprecatedKey :: string where
  "kNavigationItemStorageReferrerURLDeprecatedKey = ''referrer''"
definition kNavigationItemStorageReferrerPolicyKey :: string where
  "kNavigationItemStorageReferrerPolicyKey = ''referrerPolicy''"
definition kNavigationItemStorageTimestampKey :: string where "kNavigationItemStorageTimestampKey = ''timestamp''"
definition kNavigationItemStorageTitleKey :: string where "kNavigationItemStorageTitleKey = ''title''"
definition kNavigationItemStoragePageDisplayStateKey :: string where
  "kNavigationItemStoragePageDisplayStateKey = ''state''"
definition kNavigationItemStorageHTTPRequestHeadersKey :: string where
  "kNavigationItemStorageHTTPRequestHeadersKey = ''httpHeaders''"
definition kNavigationItemStorageSkipRepostFormConfirmationKey :: string where
  "kNavigationItemStorageSkipRepostFormConfirmationKey = ''skipResubmitDataConfirmation''"
definition kNavigationItemStorageUserAgentTypeKey :: string where
  "kNavigationItemStorageUserAgentTypeKey = ''userAgentType''"

lemmas item_storage_keys =
  kNavigationItemStorageURLKey_def kNavigationItemStorageVirtualURLKey_def
  kNavigationItemStorageReferrerURLKey_def kNavigationItemStorageReferrerURLDeprecatedKey_def
  kNavigationItemStorageReferrerPolicyKey_def kNavigationItemStorageTimestampKey_def
  kNavigationItemStorageTitleKey_def kNavigationItemStoragePageDisplayStateKey_def
  kNavigationItemStorageHTTPRequestHeadersKey_def kNavigationItemStorageSkipRepostFormConfirmationKey_def
  kNavigationItemStorageUserAgentTypeKey_def

text \<open>The numbers of the enumerators of \<^verbatim>\<open>ReferrerPolicy\<close>.\<close>

definition referrer_policies :: "ReferrerPolicy list" where
  "referrer_policies = [ReferrerPolicyAlways, ReferrerPolicyDefault, ReferrerPolicyNoReferrerWhenDowngrade,
     ReferrerPolicyNever, ReferrerPolicyOrigin, ReferrerPolicyOriginWhenCrossOrigin, ReferrerPolicySameOrigin,
     ReferrerPolicyStrictOrigin, ReferrerPolicyStrictOriginWhenCrossOrigin]"

definition int_of_policy :: "ReferrerPolicy \<Rightarrow> int" where
  "int_of_policy p = find_index (\<lambda>x. x = p) referrer_policies"

text \<open>A \<^verbatim>\<open>static_cast\<close> from a number that is no enumerator has no defined value.\<close>

definition policy_of_int :: "int \<Rightarrow> ReferrerPolicy res" where
  "policy_of_int i =
     (if 0 \<le> i \<and> i < int (length referrer_policies) then Inr (referrer_policies ! nat i)
      else Inl (NotReached ''static_cast<ReferrerPolicy>''))"

definition item_storage_encode :: "'u web_env \<Rightarrow> 'u item_storage \<Rightarrow> archive" where
  "item_storage_encode G S =
     (let A = Map.empty;
          A = (if storage_virtual_url S \<noteq> storage_url S
               then A(kNavigationItemStorageVirtualURLKey \<mapsto> EncodeString (gurl_spec G (storage_virtual_url S)))
               else A)
      in A(kNavigationItemStorageURLKey \<mapsto> EncodeString (gurl_spec G (storage_url S)),
           kNavigationItemStorageReferrerURLKey \<mapsto> EncodeString (gurl_spec G (referrer_url (storage_referrer S))),
           kNavigationItemStorageReferrerPolicyKey \<mapsto> encodeInt (int_of_policy (referrer_policy (storage_referrer S))),
           kNavigationItemStorageTimestampKey \<mapsto> ArchivedInt (storage_timestamp S),
           kNavigationItemStorageTitleKey \<mapsto> ArchivedString (storage_title S),
           kNavigationItemStoragePageDisplayStateKey \<mapsto> ArchivedDisplayState (storage_display_state S),
           kNavigationItemStorageSkipRepostFormConfirmationKey \<mapsto> ArchivedBool (storage_skip_repost S),
           kNavigationItemStorageUserAgentTypeKey \<mapsto> EncodeString (GetUserAgentTypeDescription (storage_user_agent S)),
           kNavigationItemStorageHTTPRequestHeadersKey \<mapsto>
             (case storage_headers S of None \<Rightarrow> ArchivedNil | Some h \<Rightarrow> ArchivedHeaders h)))"

definition decode_url :: "'u web_env \<Rightarrow> string \<Rightarrow> archive \<Rightarrow> 'u res" where
  "decode_url G key A =
     (if containsValueForKey key A then rbind (DecodeString key A) (\<lambda>s. Inr (gurl_of_spec G s))
      else Inr (gurl_empty G))"

definition decode_referrer :: "'u web_env \<Rightarrow> archive \<Rightarrow> 'u referrer res" where
  "decode_referrer G A =
     (if containsValueForKey kNavigationItemStorageReferrerURLKey A
      then rbind (DecodeString kNavigationItemStorageReferrerURLKey A) (\<lambda>s.
           rbind (decodeIntForKey kNavigationItemStorageReferrerPolicyKey A) (\<lambda>i.
           rbind (policy_of_int i) (\<lambda>p. Inr \<lparr>referrer_url = gurl_of_spec G s, referrer_policy = p\<rparr>)))
      else case decodeObjectForKey kNavigationItemStorageReferrerURLDeprecatedKey A of
             ArchivedURL s \<Rightarrow> Inr \<lparr>referrer_url = gurl_of_spec G s, referrer_policy = ReferrerPolicyDefault\<rparr>
           | ArchivedNil \<Rightarrow> Inr \<lparr>referrer_url = gurl_empty G, referrer_policy = ReferrerPolicyDefault\<rparr>
           | _ \<Rightarrow> wrong_type kNavigationItemStorageReferrerURLDeprecatedKey)"

definition decode_item_user_agent :: "'u web_env \<Rightarrow> 'u \<Rightarrow> archive \<Rightarrow> UserAgentType res" where
  "decode_item_user_agent G page A =
     (if containsValueForKey kNavigationItemStorageUserAgentTypeKey A
      then rbind (DecodeString kNavigationItemStorageUserAgentTypeKey A) (\<lambda>s.
           Inr (GetUserAgentTypeWithDescription s))
      else if is_app_specific_url G page then Inr UserAgentNONE
      else Inr UserAgentNONE)"

text \<open>The member \<^verbatim>\<open>_userAgentType\<close> starts as 0, which is \<^verbatim>\<open>NONE\<close>: both branches without the key agree.\<close>

definition item_storage_decode :: "'u web_env \<Rightarrow> archive \<Rightarrow> 'u item_storage res" where
  "item_storage_decode G A =
     rbind (decode_url G kNavigationItemStorageVirtualURLKey A) (\<lambda>virtual.
     rbind (decode_url G kNavigationItemStorageURLKey A) (\<lambda>url.
     rbind (decode_referrer G A) (\<lambda>ref.
     rbind (decodeIntForKey kNavigationItemStorageTimestampKey A) (\<lambda>time.
     rbind (decode_item_user_agent G virtual A) (\<lambda>ua.
     rbind (case decodeObjectForKey kNavigationItemStorageTitleKey A of ArchivedString s \<Rightarrow> Inr s
            | ArchivedNil \<Rightarrow> Inr [] | _ \<Rightarrow> wrong_type kNavigationItemStorageTitleKey) (\<lambda>title.
     rbind (case decodeObjectForKey kNavigationItemStoragePageDisplayStateKey A of ArchivedDisplayState d \<Rightarrow> Inr d
            | ArchivedNil \<Rightarrow> Inr 0 | _ \<Rightarrow> wrong_type kNavigationItemStoragePageDisplayStateKey) (\<lambda>display.
     rbind (decodeBoolForKey kNavigationItemStorageSkipRepostFormConfirmationKey A) (\<lambda>skip.
     rbind (case decodeObjectForKey kNavigationItemStorageHTTPRequestHeadersKey A of ArchivedHeaders h \<Rightarrow> Inr (Some h)
            | ArchivedNil \<Rightarrow> Inr None | _ \<Rightarrow> wrong_type kNavigationItemStorageHTTPRequestHeadersKey) (\<lambda>headers.
     Inr \<lparr>storage_url = url, storage_virtual_url = virtual, storage_referrer = ref, storage_timestamp = time,
          storage_title = title, storage_display_state = display, storage_skip_repost = skip,
          storage_user_agent = ua, storage_headers = headers\<rparr>)))))))))"

subsection \<open>Nothing is lost\<close>

lemma user_agent_description [simp]: "GetUserAgentTypeWithDescription (GetUserAgentTypeDescription type) = type"
  by (cases type) (simp_all add: GetUserAgentTypeWithDescription_def GetUserAgentTypeDescription_def)

lemma policy_of_int_of [simp]: "policy_of_int (int_of_policy p) = Inr p"
  by (cases p) (simp_all add: int_of_policy_def policy_of_int_def referrer_policies_def find_index_def)

lemma int32 [simp]: "- (2 ^ 31) \<le> i \<Longrightarrow> i < 2 ^ 31 \<Longrightarrow> encodeInt i = ArchivedInt i"
  by (simp add: encodeInt_def signed_take_bit_int_eq_self)

lemma encode_policy [simp]: "encodeInt (int_of_policy p) = ArchivedInt (int_of_policy p)"
  by (cases p) (simp_all add: int_of_policy_def referrer_policies_def find_index_def)

text \<open>What the code relies on of \<^verbatim>\<open>GURL\<close>: a valid or empty address is determined by its spelling.\<close>

definition plain_url :: "'u web_env \<Rightarrow> 'u \<Rightarrow> bool" where
  "plain_url G u \<longleftrightarrow> gurl_is_valid G u \<or> u = gurl_empty G"

definition urls_parse :: "'u web_env \<Rightarrow> bool" where
  "urls_parse G \<longleftrightarrow> (\<forall>u. plain_url G u \<longrightarrow> gurl_of_spec G (gurl_spec G u) = u) \<and> gurl_is_empty G (gurl_empty G)"

definition plain_storage :: "'u web_env \<Rightarrow> 'u item_storage \<Rightarrow> bool" where
  "plain_storage G S \<longleftrightarrow> plain_url G (storage_url S) \<and> plain_url G (storage_virtual_url S) \<and>
     plain_url G (referrer_url (storage_referrer S))"

definition plain_entry :: "'u web_env \<Rightarrow> 'u nav_item \<Rightarrow> bool" where
  "plain_entry G e \<longleftrightarrow> plain_url G (item_url e) \<and> plain_url G (GetVirtualURL G e) \<and>
     plain_url G (referrer_url (item_referrer e))"

text \<open>What decoding yields: a virtual address equal to the address is not written.\<close>

definition decoded :: "'u web_env \<Rightarrow> 'u item_storage \<Rightarrow> 'u item_storage" where
  "decoded G S = (if storage_virtual_url S = storage_url S then S\<lparr>storage_virtual_url := gurl_empty G\<rparr> else S)"

lemma plain_stored: "plain_entry G e \<Longrightarrow> plain_storage G (BuildItemStorage G n e)"
  by (simp add: plain_entry_def plain_storage_def BuildItemStorage_def new_item_storage_def EmptyReferrer_def
    plain_url_def Let_def)

lemma item_storage_decode_encode:
  assumes "urls_parse G" "plain_storage G S"
  shows "item_storage_decode G (item_storage_encode G S) = Inr (decoded G S)"
  using assms
  by (cases "storage_headers S")
    (simp_all add: item_storage_decode_def item_storage_encode_def item_storage_keys decode_url_def
      containsValueForKey_def DecodeString_def EncodeString_def decode_referrer_def decodeIntForKey_def
      decode_item_user_agent_def decodeObjectForKey_def decodeBoolForKey_def urls_parse_def plain_storage_def
      decoded_def Let_def)

lemma virtualURL_stored: "virtualURL G (BuildItemStorage G n item) = GetVirtualURL G item"
  by (simp add: virtualURL_def BuildItemStorage_def new_item_storage_def GetVirtualURL_def Let_def)

lemma decoded_simps [simp]:
  "storage_url (decoded G S) = storage_url S" "storage_referrer (decoded G S) = storage_referrer S"
  "storage_timestamp (decoded G S) = storage_timestamp S" "storage_title (decoded G S) = storage_title S"
  "storage_display_state (decoded G S) = storage_display_state S" "storage_skip_repost (decoded G S) = storage_skip_repost S"
  "storage_user_agent (decoded G S) = storage_user_agent S" "storage_headers (decoded G S) = storage_headers S"
  by (simp_all add: decoded_def)

lemma virtualURL_decoded [simp]: "urls_parse G \<Longrightarrow> virtualURL G (decoded G S) = virtualURL G S"
  by (auto simp: virtualURL_def urls_parse_def decoded_def)

section \<open>Saved tabs\<close>

record 'u session_storage =
  storage_has_opener :: bool
  storage_last_committed :: int
  item_storages :: "'u item_storage list"
  storage_cert_policies :: "nat option"
  storage_user_data :: "user_data option"
  storage_user_agent_type :: UserAgentType
  storage_stable_identifier :: string
  storage_last_active_time :: int

definition kCertificatePolicyCacheStorageKey :: string where
  "kCertificatePolicyCacheStorageKey = ''certificatePolicyCacheStorage''"
definition kCertificatePolicyCacheStorageDeprecatedKey :: string where
  "kCertificatePolicyCacheStorageDeprecatedKey = ''certificatePolicyManager''"
definition kItemStoragesKey :: string where "kItemStoragesKey = ''entries''"
definition kHasOpenerKey :: string where "kHasOpenerKey = ''openedByDOM''"
definition kLastCommittedItemIndexKey :: string where "kLastCommittedItemIndexKey = ''lastCommittedItemIndex''"
definition kUserAgentKey :: string where "kUserAgentKey = ''userAgentKey''"
definition kStableIdentifierKey :: string where "kStableIdentifierKey = ''stableIdentifier''"
definition kSerializedUserDataKey :: string where "kSerializedUserDataKey = ''serializedUserData''"
definition kLastActiveTimeKey :: string where "kLastActiveTimeKey = ''lastActiveTime''"
definition kLastCommittedItemIndexDeprecatedKey :: string where
  "kLastCommittedItemIndexDeprecatedKey = ''currentNavigationIndex''"
definition kTabIdKey :: string where "kTabIdKey = ''TabId''"

lemmas session_keys =
  kCertificatePolicyCacheStorageKey_def kCertificatePolicyCacheStorageDeprecatedKey_def kItemStoragesKey_def
  kHasOpenerKey_def kLastCommittedItemIndexKey_def kUserAgentKey_def kStableIdentifierKey_def
  kSerializedUserDataKey_def kLastActiveTimeKey_def kLastCommittedItemIndexDeprecatedKey_def kTabIdKey_def

text \<open>The null time is 0; an unset time is not written.\<close>

definition session_encode :: "'u web_env \<Rightarrow> 'u session_storage \<Rightarrow> archive" where
  "session_encode G S =
     (let A = [kHasOpenerKey \<mapsto> ArchivedBool (storage_has_opener S),
               kLastCommittedItemIndexKey \<mapsto> encodeInt (storage_last_committed S),
               kItemStoragesKey \<mapsto> ArchivedItems (map (item_storage_encode G) (item_storages S)),
               kCertificatePolicyCacheStorageKey \<mapsto>
                 (case storage_cert_policies S of None \<Rightarrow> ArchivedNil | Some c \<Rightarrow> ArchivedCertPolicies c)];
          A = (case storage_user_data S of None \<Rightarrow> A
               | Some d \<Rightarrow> A(kSerializedUserDataKey \<mapsto> ArchivedUserData d));
          A = A(kUserAgentKey \<mapsto> EncodeString (GetUserAgentTypeDescription (storage_user_agent_type S)),
                kStableIdentifierKey \<mapsto> ArchivedString (storage_stable_identifier S))
      in if storage_last_active_time S \<noteq> 0
         then A(kLastActiveTimeKey \<mapsto> ArchivedInt (storage_last_active_time S)) else A)"

definition decode_items :: "'u web_env \<Rightarrow> archive \<Rightarrow> 'u item_storage list res" where
  "decode_items G A =
     (case decodeObjectForKey kItemStoragesKey A of ArchivedItems items \<Rightarrow> rmap (item_storage_decode G) items
      | ArchivedNil \<Rightarrow> Inr [] | _ \<Rightarrow> wrong_type kItemStoragesKey)"

definition decode_last_committed :: "archive \<Rightarrow> int res" where
  "decode_last_committed A =
     (if containsValueForKey kLastCommittedItemIndexKey A then decodeIntForKey kLastCommittedItemIndexKey A
      else decodeIntForKey kLastCommittedItemIndexDeprecatedKey A)"

definition decode_cert_policies :: "archive \<Rightarrow> nat option res" where
  "decode_cert_policies A =
     (let x = decodeObjectForKey kCertificatePolicyCacheStorageKey A;
          x = (if x = ArchivedNil then decodeObjectForKey kCertificatePolicyCacheStorageDeprecatedKey A else x)
      in case x of ArchivedNil \<Rightarrow> Inr None | ArchivedCertPolicies c \<Rightarrow> Inr (Some c)
         | _ \<Rightarrow> wrong_type kCertificatePolicyCacheStorageKey)"

text \<open>User data of any other class is ignored; sessions before M99 have a plain dictionary.\<close>

definition decode_user_data :: "archive \<Rightarrow> user_data option" where
  "decode_user_data A =
     (case decodeObjectForKey kSerializedUserDataKey A of
        ArchivedUserData d \<Rightarrow> Some d | ArchivedDictionary d \<Rightarrow> Some d | _ \<Rightarrow> None)"

definition decode_session_user_agent :: "archive \<Rightarrow> UserAgentType res" where
  "decode_session_user_agent A =
     (if containsValueForKey kUserAgentKey A
      then rbind (DecodeString kUserAgentKey A) (\<lambda>s. Inr (GetUserAgentTypeWithDescription s))
      else Inr UserAgentAUTOMATIC)"

text \<open>The identifier: from its key, else from the user data (which loses it), else a new one.\<close>

definition decode_stable_identifier ::
    "string \<Rightarrow> user_data option \<Rightarrow> archive \<Rightarrow> (string \<times> user_data option) res" where
  "decode_stable_identifier new_uuid data A =
     rbind (case decodeObjectForKey kStableIdentifierKey A of
        ArchivedString s \<Rightarrow> Inr s | ArchivedNil \<Rightarrow> Inr [] | _ \<Rightarrow> wrong_type kStableIdentifierKey)
     (\<lambda>identifier.
       let (identifier, data) =
             (if identifier \<noteq> [] then (identifier, data)
              else case Option.bind data (\<lambda>d. d kTabIdKey) of
                     None \<Rightarrow> (identifier, data)
                   | Some v \<Rightarrow> (case v of NSStringValue s \<Rightarrow> s | _ \<Rightarrow> [],
                                map_option (\<lambda>d. d(kTabIdKey := None)) data));
           identifier = (if identifier = [] then new_uuid else identifier)
       in dcheck (identifier \<noteq> []) ''_stableIdentifier.length'' (Inr (identifier, data)))"

definition decode_last_active_time :: "archive \<Rightarrow> int res" where
  "decode_last_active_time A =
     (if containsValueForKey kLastActiveTimeKey A then decodeIntForKey kLastActiveTimeKey A else Inr 0)"

definition session_decode :: "'u web_env \<Rightarrow> string \<Rightarrow> archive \<Rightarrow> 'u session_storage res" where
  "session_decode G new_uuid A =
     rbind (decodeBoolForKey kHasOpenerKey A) (\<lambda>opened.
     rbind (decode_last_committed A) (\<lambda>last.
     rbind (decode_items G A) (\<lambda>items.
     rbind (decode_cert_policies A) (\<lambda>certs.
     rbind (decode_session_user_agent A) (\<lambda>ua.
     rbind (decode_stable_identifier new_uuid (decode_user_data A) A) (\<lambda>(identifier, data).
     rbind (decode_last_active_time A) (\<lambda>time.
     Inr \<lparr>storage_has_opener = opened, storage_last_committed = (if items = [] then -1 else last),
          item_storages = items, storage_cert_policies = certs, storage_user_data = data,
          storage_user_agent_type = ua, storage_stable_identifier = identifier,
          storage_last_active_time = time\<rparr>)))))))"

section \<open>The data clients attach to a tab\<close>

definition AddSerializableData :: "user_value \<Rightarrow> string \<Rightarrow> user_data \<Rightarrow> user_data res" where
  "AddSerializableData v key d = dcheck (key \<noteq> []) ''key.length'' (Inr (d(key \<mapsto> v)))"

definition GetValueForSerializationKey :: "string \<Rightarrow> user_data \<Rightarrow> user_value option" where
  "GetValueForSerializationKey key d = d key"

text \<open>When the saved session has no data, the new object is assigned to the argument.\<close>

definition SetUserDataFromSession :: "user_data option \<Rightarrow> user_data \<Rightarrow> user_data" where
  "SetUserDataFromSession data old = (case data of Some d \<Rightarrow> d | None \<Rightarrow> old)"

section \<open>From a tab to its saved form and back\<close>

text \<open>What a session has of the tab besides its history.\<close>

record tab_state =
  tab_last_active_time :: int
  tab_stable_identifier :: string
  tab_has_opener :: bool
  tab_cert_policies :: nat
  tab_user_data :: "user_data option"
  tab_user_agent :: UserAgentType

definition skips_serialization :: "'u web_env \<Rightarrow> nat \<Rightarrow> 'u nav_item \<Rightarrow> bool" where
  "skips_serialization G max_chars item \<longleftrightarrow>
     should_skip_serialization item \<or> length (gurl_spec G (item_url item)) > max_chars"

fun store_items ::
    "'u web_env \<Rightarrow> nat \<Rightarrow> nat \<Rightarrow> nat list \<Rightarrow> int \<Rightarrow> 'u item_storage list \<Rightarrow> 'u nav_manager \<Rightarrow>
     (int \<times> 'u item_storage list \<times> 'u nav_manager) res" where
  "store_items G max_chars original_index [] last_index Ss M = Inr (last_index, Ss, M)"
| "store_items G max_chars original_index (index # is) last_index Ss M =
     rbind (GetNavigationItemImplAtIndex G index M) (\<lambda>(item, M).
       case item of None \<Rightarrow> Inl (DanglingPointer ''item'')
       | Some r \<Rightarrow>
           if skips_serialization G max_chars (item_at r M)
           then store_items G max_chars original_index is (if index \<le> original_index then last_index - 1 else last_index) Ss M
           else store_items G max_chars original_index is last_index (Ss @ [BuildItemStorage G max_chars (item_at r M)]) M)"

definition BuildStorage ::
    "'u web_env \<Rightarrow> nat \<Rightarrow> tab_state \<Rightarrow> 'u nav_manager \<Rightarrow> ('u session_storage \<times> 'u nav_manager) res" where
  "BuildStorage G max_chars T M =
     rbind (GetLastCommittedItemIndex G M) (\<lambda>(index, M).
     let index = (if index = -1 then int (GetItemCount M) - 1 else index) in
     rbind (store_items G max_chars (size_t_of index) [0..<GetItemCount M] index [] M) (\<lambda>(last_index, Ss, M).
     let (last_index, loc, len) = GetSafeItemRange last_index (int (length Ss)) in
     dcheck (last_index < len) ''session_storage.lastCommittedItemIndex < static_cast<NSInteger>(len)''
       (Inr (\<lparr>storage_has_opener = tab_has_opener T, storage_last_committed = last_index,
              item_storages = take (nat len) (drop (nat loc) Ss),
              storage_cert_policies = Some (tab_cert_policies T), storage_user_data = tab_user_data T,
              storage_user_agent_type = tab_user_agent T, storage_stable_identifier = tab_stable_identifier T,
              storage_last_active_time = tab_last_active_time T\<rparr>, M))))"

fun build_entries :: "'u web_env \<Rightarrow> 'u item_storage list \<Rightarrow> 'u nav_manager \<Rightarrow> item_ref list \<times> 'u nav_manager" where
  "build_entries G [] M = ([], M)"
| "build_entries G (S # Ss) M =
     (let M = M\<lparr>unique_id_counter := unique_id_counter M + 1\<rparr>;
          (r, M) = new_item (BuildNavigationItemImpl G (unique_id_counter M) S) M;
          (rs, M) = build_entries G Ss (RewriteItemURLIfNecessary G r M)
      in (r # rs, M))"

text \<open>A session without certificate policies gets a new, empty cache: 0.\<close>

definition ExtractSessionState ::
    "'u web_env \<Rightarrow> 'u session_storage \<Rightarrow> tab_state \<Rightarrow> 'u nav_manager \<Rightarrow> (tab_state \<times> 'u nav_manager) res" where
  "ExtractSessionState G S T M =
     (let T = T\<lparr>tab_has_opener := storage_has_opener S\<rparr>;
          (rs, M) = build_entries G (item_storages S) M
      in rbind (restore_session G (storage_last_committed S) (map Some rs) M) (\<lambda>M.
         let data = (case tab_user_data T of None \<Rightarrow> Map.empty | Some d \<Rightarrow> d)
         in Inr (T\<lparr>tab_cert_policies := (case storage_cert_policies S of None \<Rightarrow> 0 | Some c \<Rightarrow> c),
                   tab_user_data := Some (SetUserDataFromSession (storage_user_data S) data),
                   tab_user_agent := storage_user_agent_type S\<rparr>, M)))"

section \<open>What is saved\<close>

text \<open>The entry at a position of the history.\<close>

definition nav_entry :: "nat \<Rightarrow> 'u nav_manager \<Rightarrow> item_ref option" where
  "nav_entry i M =
     (if empty_window_open_item M \<noteq> None then (if i = 0 then empty_window_open_item M else None)
      else if \<not> attached_to_web_view M then (if i < length (cached_items M) then cached_items M ! i else None)
      else entry_at (int i - GetCurrentItemIndex M) M)"

definition history :: "'u nav_manager \<Rightarrow> 'u nav_item list" where
  "history M = map (\<lambda>i. item_at (the (nav_entry i M)) M) [0..<GetItemCount M]"

definition read_from :: "'u nav_manager \<Rightarrow> 'u nav_manager \<Rightarrow> bool" where
  "read_from M M' \<longleftrightarrow> same_shape M M' \<and> kept M M' \<and> refs_ok M'"

lemma nav_entry_ref: "nav_entry i M = Some r \<Longrightarrow> r \<in> nav_refs M"
  by (auto simp: nav_entry_def split: if_splits intro: field_refs entry_ref nth_mem dest: nth_mem) (metis field_refs(6) nth_mem)

lemma nav_entry_read:
  assumes "read_from M M'" "refs_ok M" "nav_entry i M = Some r"
  shows "nav_entry i M' = Some r" "item_at r M' = item_at r M"
proof -
  have s: "same_shape M M'" and k: "kept M M'" using assms(1) by (simp_all add: read_from_def)
  have "r < next_ref M" using nav_entry_ref [OF assms(3)] assms(2) by (auto simp: refs_ok_def)
  then show "item_at r M' = item_at r M" using k by (simp add: kept_def item_at_def)
  show "nav_entry i M' = Some r"
    using assms(3) same_shape_fields(3,4) [OF s] same_shape_simps(2) [OF s] k s
    by (auto simp: nav_entry_def kept_def same_shape_def split: if_splits)
qed

lemma read_from_trans: "read_from M M' \<Longrightarrow> read_from M' M'' \<Longrightarrow> read_from M M''"
  by (auto simp: read_from_def intro: same_shape_trans kept_trans)

lemma read_item:
  assumes "refs_ok M" "GetNavigationItemImplAtIndex G i M = Inr (Some r, M')"
  shows "read_from M M'" "nav_entry i M' = Some r"
proof -
  have got: "got M (Some r) M'" using yieldsD [OF GetNavigationItemImplAtIndex_gets [OF assms(1)] assms(2)] by simp
  note shape = gotD(3) [OF got]
  show "read_from M M'"
  proof (cases "empty_window_open_item M = None \<and> attached_to_web_view M")
    case True
    then have "cache_GetNavigationItemImplAtIndex G i True M = Inr (Some r, M')"
      using assms(2) by (simp add: GetNavigationItemImplAtIndex_def)
    then show ?thesis using True cache_item_kept(1) gotD(2) [OF got] shape by (auto simp: read_from_def)
  next
    case False
    then have "M' = M" using assms(2)
      by (auto simp: GetNavigationItemImplAtIndex_def cache_GetNavigationItemImplAtIndex_def split: if_splits)
    then show ?thesis using assms(1) by (simp add: read_from_def same_shape_refl kept_refl)
  qed
  show "nav_entry i M' = Some r"
  proof (cases "empty_window_open_item M = None \<and> attached_to_web_view M")
    case True
    then have "cache_GetNavigationItemImplAtIndex G i True M = Inr (Some r, M')"
      using assms(2) by (simp add: GetNavigationItemImplAtIndex_def)
    then have "entry_at (int i - GetCurrentItemIndex M') M' = Some r"
      using cache_item_entry True same_shape_simps(2) [OF shape] by metis
    then show ?thesis using True same_shape_fields(3,4) [OF shape] by (simp add: nav_entry_def)
  next
    case False
    then show ?thesis using assms(2)
      by (auto simp: nav_entry_def GetNavigationItemImplAtIndex_def cache_GetNavigationItemImplAtIndex_def
        GetBackForwardListItemCount_def split: if_splits)
  qed
qed

lemma store_items_spec:
  "refs_ok M \<Longrightarrow> store_items G n c is k Ss M = Inr (k', Ss', M') \<Longrightarrow>
     read_from M M' \<and> (\<forall>i \<in> set is. nav_entry i M' \<noteq> None) \<and>
     Ss' = Ss @ map (BuildItemStorage G n)
       (filter (\<lambda>e. \<not> skips_serialization G n e) (map (\<lambda>i. item_at (the (nav_entry i M')) M') is)) \<and>
     k' = k - int (length (filter (\<lambda>i. i \<le> c \<and> skips_serialization G n (item_at (the (nav_entry i M')) M')) is))"
proof (induction "is" arbitrary: k Ss M)
  case (Cons i "is")
  obtain r M1 where r: "GetNavigationItemImplAtIndex G i M = Inr (Some r, M1)"
    using Cons.prems(2) by (auto simp: res_simps split: option.splits)
  note m1 = read_item [OF Cons.prems(1) r]
  have ok: "refs_ok M1" using m1(1) by (simp add: read_from_def)
  let ?skip = "skips_serialization G n (item_at r M1)"
  let ?k = "if ?skip \<and> i \<le> c then k - 1 else k"
  let ?Ss = "if ?skip then Ss else Ss @ [BuildItemStorage G n (item_at r M1)]"
  have "store_items G n c is ?k ?Ss M1 = Inr (k', Ss', M')"
    using Cons.prems(2) r by (auto split: if_splits)
  note IH = Cons.IH [OF ok this]
  have e: "nav_entry i M' = Some r" "item_at r M' = item_at r M1"
    using nav_entry_read [OF _ ok m1(2)] IH by auto
  show ?case using IH e read_from_trans [OF m1(1)] by auto
qed (simp add: read_from_def same_shape_refl kept_refl)

section \<open>The saved session opens where the tab was\<close>

text \<open>The entry a session is saved at: while it is being restored, the manager reports -1.\<close>

definition saved_index :: "int \<Rightarrow> 'u nav_manager \<Rightarrow> int" where
  "saved_index reported M = (if reported = -1 then int (GetItemCount M) - 1 else reported)"

lemma GetSafeItemRange_any:
  assumes "GetSafeItemRange l m = (l', offset, len)" "l < m" "-1 \<le> l" "0 \<le> m"
  shows "0 \<le> offset" "offset + len \<le> m" "len \<le> 75" "l' < len" "l' + offset = l" "0 \<le> len" "l = -1 \<Longrightarrow> offset = 0 \<and> len = min 75 m"
  using assms by (auto simp: GetSafeItemRange_def kMaxSessionSize_def Let_def min_def max_def split: if_splits)

text \<open>The parts of a successful \<^verbatim>\<open>BuildStorage\<close>.\<close>

lemma BuildStorage_spec:
  assumes "refs_ok M" "BuildStorage G n T M = Inr (S, M')" "GetLastCommittedItemIndex G M = Inr (reported, M1)"
    "saved_index reported M = c" "0 \<le> c" "c < 2 ^ 64"
  obtains k' offset len where
    "GetSafeItemRange (c - int (length (filter (\<lambda>i. i \<le> nat c \<and> skips_serialization G n (history M' ! i)) [0..<GetItemCount M'])))
       (int (length (filter (\<lambda>e. \<not> skips_serialization G n e) (history M')))) = (k', offset, len)"
    "k' < len" "storage_last_committed S = k'"
    "item_storages S = take (nat len) (drop (nat offset) (map (BuildItemStorage G n)
       (filter (\<lambda>e. \<not> skips_serialization G n e) (history M'))))"
    "GetItemCount M' = GetItemCount M"
proof -
  have g: "got M None M1" using yieldsD [OF GetLastCommittedItemIndex_got [OF assms(1)] assms(3)] by simp
  have cnt: "GetItemCount M1 = GetItemCount M" using same_shape_simps(4) [OF gotD(3) [OF g]] .
  have c: "(if reported = -1 then int (GetItemCount M1) - 1 else reported) = c"
    using assms(4) unfolding saved_index_def cnt .
  obtain x where x: "store_items G n (size_t_of c) [0..<GetItemCount M1] c [] M1 = Inr x"
    using assms(2) unfolding BuildStorage_def assms(3) by (auto simp only: rbind.simps Let_def prod.case c rbind_Inr_iff)
  obtain k Ss M2 where k: "x = (k, Ss, M2)" by (cases x)
  obtain k' offset len where r: "GetSafeItemRange k (int (length Ss)) = (k', offset, len)" by (cases "GetSafeItemRange k (int (length Ss))")
  have s: "store_items G n (size_t_of c) [0..<GetItemCount M] c [] M1 = Inr (k, Ss, M')" "k' < len"
      "storage_last_committed S = k'" "item_storages S = take (nat len) (drop (nat offset) Ss)"
    using assms(2) x unfolding BuildStorage_def assms(3)
    by (simp_all only: rbind.simps Let_def prod.case c [unfolded cnt] cnt k r dcheck_Inr_iff sum.inject prod.inject) auto
  note spec = store_items_spec [OF gotD(2) [OF g] s(1)]
  have cnt': "GetItemCount M' = GetItemCount M"
    using spec cnt same_shape_simps(4) [of M1 M'] by (simp add: read_from_def)
  have h: "map (\<lambda>i. item_at (the (nav_entry i M')) M') [0..<GetItemCount M] = history M'"
    by (simp add: history_def cnt')
  have nth: "history M' ! i = item_at (the (nav_entry i M')) M'" if "i < GetItemCount M'" for i
    using that by (simp add: history_def)
  have f: "filter (\<lambda>i. i \<le> nat c \<and> skips_serialization G n (item_at (the (nav_entry i M')) M')) [0..<GetItemCount M] =
      filter (\<lambda>i. i \<le> nat c \<and> skips_serialization G n (history M' ! i)) [0..<GetItemCount M']"
    unfolding cnt' [symmetric] by (rule filter_cong) (simp_all add: nth)
  have "size_t_of c = nat c" using assms(5,6) by (rule size_t_of_int)
  then show thesis
    using spec s(2-4) r cnt' by (intro that [of k' offset len]) (simp_all add: h f [unfolded cnt'])
qed

lemma count_upto:
  fixes P :: "nat \<Rightarrow> bool"
  assumes "c < n"
  shows "length (filter (\<lambda>i. i \<le> c \<and> P i) [0..<n]) + length (filter (\<lambda>i. \<not> P i) [0..<Suc c]) = Suc c"
proof -
  have "filter (\<lambda>i. i \<le> c \<and> P i) [0..<n] = filter P [0..<Suc c]"
  proof -
    have "[0..<n] = [0..<Suc c] @ [Suc c..<n]" using assms upt_add_eq_append [of 0 "Suc c" "n - Suc c"] by simp
    moreover have "filter (\<lambda>i. i \<le> c \<and> P i) [Suc c..<n] = []" by (auto simp: filter_empty_conv)
    moreover have "filter (\<lambda>i. i \<le> c \<and> P i) [0..<Suc c] = filter P [0..<Suc c]" by (rule filter_cong) auto
    ultimately show ?thesis by simp
  qed
  then show ?thesis using sum_length_filter_compl [of P "[0..<Suc c]"] by simp
qed

lemma filter_history: "filter P (history M) = map (\<lambda>i. history M ! i) (filter (\<lambda>i. P (history M ! i)) [0..<GetItemCount M])"
proof -
  have "map (\<lambda>i. history M ! i) [0..<GetItemCount M] = history M"
    by (rule nth_equalityI) (simp_all add: history_def)
  then show ?thesis by (metis filter_map comp_apply filter_cong)
qed

lemma length_filter_take:
  assumes "i < length xs"
  shows "length (filter P (take (Suc i) xs)) = length (filter (\<lambda>j. P (xs ! j)) [0..<i]) + (if P (xs ! i) then 1 else 0)"
proof -
  have "take i xs = map (\<lambda>j. xs ! j) [0..<i]" using assms by (auto intro: nth_equalityI)
  then show ?thesis using assms by (simp add: take_Suc_conv_app_nth filter_map comp_def)
qed

lemma take_safe_range:
  assumes "GetSafeItemRange l (int (length xs)) = (l', offset, len)" "0 \<le> offset"
  shows "take (nat len) (drop (nat offset) xs) = take 75 (drop (nat offset) xs)" "length xs \<le> 75 \<Longrightarrow> l < int (length xs) \<Longrightarrow> offset = 0"
  using assms by (auto simp: GetSafeItemRange_def kMaxSessionSize_def Let_def min_def max_def split: if_splits)

text \<open>
  Property C35.  The session saved for a tab has the entries that can be saved, in order: all of them, or,
  if there are more than 75, 75 neighbours, from a position \<open>offset\<close> on.  The saved position, counted
  from the first entry that can be saved, is the number of these entries up to the last committed one,
  less one; so it is a position in the saved session or -1, and if the entry the tab is at can be saved,
  it is the position of this entry.
\<close>

theorem saved_session_position:
  assumes "nav_reachable G M" "BuildStorage G n T M = Inr (S, M')" "GetLastCommittedItemIndex G M = Inr (reported, M1)"
    "saved_index reported M = c" "0 \<le> c" "c < int (GetItemCount M)" "c < 2 ^ 64"
  defines "saveable \<equiv> filter (\<lambda>e. \<not> skips_serialization G n e) (history M')"
  shows "(\<exists>offset. item_storages S = take 75 (drop offset (map (BuildItemStorage G n) saveable)) \<and>
      (length saveable \<le> 75 \<longrightarrow> offset = 0) \<and>
      int offset + storage_last_committed S + 1 =
        int (length (filter (\<lambda>e. \<not> skips_serialization G n e) (take (Suc (nat c)) (history M'))))) \<and>
    length (item_storages S) \<le> 75 \<and> -1 \<le> storage_last_committed S \<and>
    storage_last_committed S < int (length (item_storages S)) \<and>
    (skips_serialization G n (history M' ! nat c) \<or>
     0 \<le> storage_last_committed S \<and>
     item_storages S ! nat (storage_last_committed S) = BuildItemStorage G n (history M' ! nat c))"
proof -
  let ?skip = "\<lambda>i. skips_serialization G n (history M' ! i)"
  let ?kept = "filter (\<lambda>e. \<not> skips_serialization G n e) (history M')"
  obtain k' offset len where s:
    "GetSafeItemRange (c - int (length (filter (\<lambda>i. i \<le> nat c \<and> ?skip i) [0..<GetItemCount M']))) (int (length ?kept)) =
       (k', offset, len)" "k' < len" "storage_last_committed S = k'"
    "item_storages S = take (nat len) (drop (nat offset) (map (BuildItemStorage G n) ?kept))" "GetItemCount M' = GetItemCount M"
    using BuildStorage_spec [OF nav_heap.reachable_inv [OF assms(1)] assms(2-5,7)] by blast
  have c: "nat c < GetItemCount M'" using assms(5,6) s(5) by simp
  let ?before = "filter (\<lambda>i. \<not> ?skip i) [0..<nat c]"
  have kept: "?kept = map (\<lambda>i. history M' ! i) (filter (\<lambda>i. \<not> ?skip i) [0..<GetItemCount M'])"
    by (rule filter_history)
  let ?dropped = "length (filter (\<lambda>i. i \<le> nat c \<and> ?skip i) [0..<GetItemCount M'])"
  have "?dropped + length ?before + (if ?skip (nat c) then 0 else 1) = Suc (nat c)"
    using count_upto [OF c, of ?skip] by (cases "?skip (nat c)") simp_all
  then have k: "c - int ?dropped = int (length ?before) - (if ?skip (nat c) then 1 else 0)"
    using assms(5) by (auto split: if_splits)
  have "filter (\<lambda>i. \<not> ?skip i) [0..<GetItemCount M'] = ?before @ filter (\<lambda>i. \<not> ?skip i) [nat c..<GetItemCount M']"
    using c upt_add_eq_append [of 0 "nat c" "GetItemCount M' - nat c"] by simp
  then have le: "length ?before \<le> length ?kept" by (simp add: kept)
  have lt: "length ?before < length ?kept" "?kept ! length ?before = history M' ! nat c" if "\<not> ?skip (nat c)"
    using filter_upt_nth [of "\<lambda>i. \<not> ?skip i", OF that c] by (simp_all add: kept)
  have range: "c - int ?dropped < int (length ?kept)" "-1 \<le> c - int ?dropped"
    using lt(1) le by (auto simp: k)
  note bounds = GetSafeItemRange_any [OF s(1) range]
  have len: "int (length (item_storages S)) = len" using bounds s(4) by simp
  have "0 \<le> k' \<and> item_storages S ! nat k' = BuildItemStorage G n (history M' ! nat c)" if "\<not> ?skip (nat c)"
  proof -
    have nonneg: "0 \<le> c - int ?dropped" using that by (simp add: k)
    then have k': "0 \<le> k'" "nat offset + nat k' = length ?before"
      using GetSafeItemRange_bounds [OF nonneg range(1) s(1)] that by (auto simp: k)
    then have "item_storages S ! nat k' = map (BuildItemStorage G n) ?kept ! length ?before"
      using bounds(2,4) s(2,4) lt(1) [OF that] by simp
    then show ?thesis using k'(1) lt [OF that] by simp
  qed
  moreover have "length (history M') = GetItemCount M'" by (simp add: history_def)
  then have "int (nat offset) + k' + 1 =
      int (length (filter (\<lambda>e. \<not> skips_serialization G n e) (take (Suc (nat c)) (history M'))))"
    using length_filter_take [of "nat c" "history M'" "\<lambda>e. \<not> skips_serialization G n e"] c bounds(1,5) k by (cases "?skip (nat c)") simp_all
  moreover have "length ?kept \<le> 75 \<longrightarrow> offset = 0" "item_storages S = take 75 (drop (nat offset) (map (BuildItemStorage G n) ?kept))"
    using take_safe_range [of _ "map (BuildItemStorage G n) ?kept"] s(1,4) bounds(1) range(1) by simp_all
  moreover have "-1 \<le> k'" using bounds(1,5,7) range GetSafeItemRange_bounds(4) [OF _ range(1) s(1)]
    by (cases "c - int ?dropped = -1") auto
  ultimately show ?thesis using len bounds(3) s(2,3) unfolding saveable_def by (intro conjI exI [of _ "nat offset"]) auto
qed

text \<open>A tab with two entries, the second one current; addresses of up to 100 characters are saved.\<close>

definition demo_tab :: tab_state where
  "demo_tab = \<lparr>tab_last_active_time = 9, tab_stable_identifier = ''id'', tab_has_opener = False,
     tab_cert_policies = 3, tab_user_data = None, tab_user_agent = UserAgentMOBILE\<rparr>"

theorem saved_session_position_witness:
  "\<exists>S M'. BuildStorage demo_web 100 demo_tab demo_nav = Inr (S, M') \<and>
     length (item_storages S) \<le> 75 \<and> -1 \<le> storage_last_committed S \<and>
     storage_last_committed S < int (length (item_storages S))"
proof -
  have "case BuildStorage demo_web 100 demo_tab demo_nav of Inr _ \<Rightarrow> True | _ \<Rightarrow> False" by code_simp
  then obtain S M' where b: "BuildStorage demo_web 100 demo_tab demo_nav = Inr (S, M')" by (auto split: sum.splits)
  have "case GetLastCommittedItemIndex demo_web demo_nav of Inr (i, _) \<Rightarrow> i = 1 | _ \<Rightarrow> False" by code_simp
  then obtain M1 where "GetLastCommittedItemIndex demo_web demo_nav = Inr (1, M1)" by (auto split: sum.splits)
  from saved_session_position [OF demo_nav_reachable b this] b show ?thesis
    by (auto simp: saved_index_def demo_nav_count)
qed

lemma build_entries_frame:
  "build_entries G Ss M = (rs, M') \<Longrightarrow>
     length rs = length Ss \<and> is_restore_session_in_progress M' = is_restore_session_in_progress M"
proof (induction Ss arbitrary: M rs)
  case (Cons S Ss)
  then show ?case
    by (auto simp: Let_def new_item_def RewriteItemURLIfNecessary_def update_item_def split: prod.splits option.splits)
qed simp

text \<open>
  Property C36.  If the entry a tab is at and all entries before it are too long to be saved, but a later one
  is not, the tab is saved with position -1 and a history; restoring such a session fails an assertion.
\<close>

theorem forward_only_session_aborts:
  assumes "nav_reachable G M" "BuildStorage G n T M = Inr (S, M')" "GetLastCommittedItemIndex G M = Inr (reported, M1)"
    "saved_index reported M = c" "0 \<le> c" "c < int (GetItemCount M)" "c < 2 ^ 64"
    "\<forall>i \<le> nat c. skips_serialization G n (history M' ! i)" "\<exists>e \<in> set (history M'). \<not> skips_serialization G n e"
    "\<not> is_restore_session_in_progress N"
  shows "storage_last_committed S = -1 \<and> item_storages S \<noteq> [] \<and>
    ExtractSessionState G S T' N = Inl (DCheckFailed ''items.empty() || last_committed_item_index >= 0'')"
proof -
  let ?skip = "\<lambda>i. skips_serialization G n (history M' ! i)"
  let ?kept = "filter (\<lambda>e. \<not> skips_serialization G n e) (history M')"
  obtain k' offset len where s:
    "GetSafeItemRange (c - int (length (filter (\<lambda>i. i \<le> nat c \<and> ?skip i) [0..<GetItemCount M']))) (int (length ?kept)) =
       (k', offset, len)" "storage_last_committed S = k'"
    "item_storages S = take (nat len) (drop (nat offset) (map (BuildItemStorage G n) ?kept))" "GetItemCount M' = GetItemCount M"
    using BuildStorage_spec [OF nav_heap.reachable_inv [OF assms(1)] assms(2-5,7)] by blast
  have c: "nat c < GetItemCount M'" using assms(5,6) s(4) by simp
  have "filter (\<lambda>i. \<not> ?skip i) [0..<Suc (nat c)] = []" using assms(8) by (auto simp: filter_empty_conv less_Suc_eq_le simp del: upt_Suc)
  then have "c - int (length (filter (\<lambda>i. i \<le> nat c \<and> ?skip i) [0..<GetItemCount M'])) = -1"
    using count_upto [OF c, of ?skip] assms(5) by (simp del: upt_Suc)
  note r = GetSafeItemRange_any [OF s(1) [unfolded this]]
  have kept: "?kept \<noteq> []" using assms(9) by (auto simp: filter_empty_conv)
  then have "k' = -1" "offset = 0" "0 < len" using r by auto
  then have S: "storage_last_committed S = -1" "item_storages S \<noteq> []" using s(2,3) kept by auto
  obtain rs N' where b: "build_entries G (item_storages S) N = (rs, N')" by fastforce
  have "restore_session G (-1) (map Some rs) N' = Inl (DCheckFailed ''items.empty() || last_committed_item_index >= 0'')"
    using build_entries_frame [OF b] S(2) assms(10) by (auto simp: Restore_def Let_def)
  then show ?thesis using S b by (simp add: ExtractSessionState_def)
qed

definition forward_view :: "string web_view" where
  "forward_view = \<lparr>web_view_url = ''http:a/longer'',
     back_list = [], current_item = Some \<lparr>wk_url = ''http:a/longer'', wk_title = ''one'', wk_navigation_item = None\<rparr>,
     forward_list = [\<lparr>wk_url = ''http:b/2'', wk_title = ''two'', wk_navigation_item = None\<rparr>]\<rparr>"

definition forward_nav :: "string nav_manager" where
  "forward_nav = (NavigationManagerImpl demo_web)\<lparr>web_view := Some forward_view, is_loading := False,
     document_url := ''http:a/longer'', delegate_pending_item := None, going_to_back_forward_list_item := False, now := 5\<rparr>"

lemma forward_nav_reachable: "nav_reachable demo_web forward_nav"
proof (rule reachable_from.step)
  show "nav_reachable demo_web (NavigationManagerImpl demo_web)" by (rule reachable_from.start) simp
  show "nav_exec demo_web (NavEnvironment (Some forward_view) False ''http:a/longer'' None False 5)
      (NavigationManagerImpl demo_web) = Inr forward_nav"
    by (simp add: forward_nav_def)
  show "nav_args_ok (NavEnvironment (Some forward_view) False ''http:a/longer'' None False 5) (NavigationManagerImpl demo_web)"
    by (simp add: forward_view_def wk_items_def)
qed

theorem forward_only_session_aborts_witness:
  "\<exists>S M'. BuildStorage demo_web 10 demo_tab forward_nav = Inr (S, M') \<and>
     storage_last_committed S = -1 \<and> item_storages S \<noteq> [] \<and>
     ExtractSessionState demo_web S demo_tab (NavigationManagerImpl demo_web) =
       Inl (DCheckFailed ''items.empty() || last_committed_item_index >= 0'')"
proof -
  have "case BuildStorage demo_web 10 demo_tab forward_nav of
      Inr (S, M') \<Rightarrow> skips_serialization demo_web 10 (history M' ! 0) \<and> list_ex (\<lambda>e. \<not> skips_serialization demo_web 10 e) (history M')
    | _ \<Rightarrow> False" by code_simp
  then obtain S M' where b: "BuildStorage demo_web 10 demo_tab forward_nav = Inr (S, M')"
      "skips_serialization demo_web 10 (history M' ! 0)" "\<exists>e \<in> set (history M'). \<not> skips_serialization demo_web 10 e"
    by (auto split: sum.splits simp: list_ex_iff)
  have "case GetLastCommittedItemIndex demo_web forward_nav of Inr (i, _) \<Rightarrow> i = 0 | _ \<Rightarrow> False" by code_simp
  then obtain M1 where i: "GetLastCommittedItemIndex demo_web forward_nav = Inr (0, M1)" by (auto split: sum.splits)
  have "GetItemCount forward_nav = 2"
    by (simp add: forward_nav_def forward_view_def NavigationManagerImpl_def GetItemCount_def GetBackForwardListItemCount_def)
  then show ?thesis
    using forward_only_session_aborts [OF forward_nav_reachable b(1) i, of 0 "NavigationManagerImpl demo_web" demo_tab] b
    by (auto simp: saved_index_def NavigationManagerImpl_def)
qed

section \<open>Saving and loading\<close>

lemma decoded_entry: "urls_parse G \<Longrightarrow> BuildNavigationItemImpl G i (decoded G S) = BuildNavigationItemImpl G i S"
  by (simp add: BuildNavigationItemImpl_def cong: if_cong)

lemma rmap_decode_encode:
  "urls_parse G \<Longrightarrow> \<forall>S \<in> set Ss. plain_storage G S \<Longrightarrow>
     rmap (item_storage_decode G) (map (item_storage_encode G) Ss) = Inr (map (decoded G) Ss)"
  by (induction Ss) (simp_all add: item_storage_decode_encode)

lemma session_decode_encode:
  assumes "urls_parse G" "storage_stable_identifier S \<noteq> []" "- (2 ^ 31) \<le> storage_last_committed S"
    "storage_last_committed S < 2 ^ 31" "item_storages S = [] \<longrightarrow> storage_last_committed S = -1"
    "\<forall>x \<in> set (item_storages S). plain_storage G x"
  shows "session_decode G uuid (session_encode G S) = Inr (S\<lparr>item_storages := map (decoded G) (item_storages S)\<rparr>)"
  using assms
  by (cases "storage_cert_policies S"; cases "storage_user_data S")
    (simp_all add: session_decode_def session_encode_def session_keys decodeBoolForKey_def decode_last_committed_def
      containsValueForKey_def decodeIntForKey_def decode_items_def decodeObjectForKey_def rmap_decode_encode
      decode_cert_policies_def decode_session_user_agent_def DecodeString_def EncodeString_def
      decode_stable_identifier_def decode_user_data_def decode_last_active_time_def Let_def)

text \<open>What a user can tell of an entry.\<close>

definition same_page :: "'u web_env \<Rightarrow> 'u nav_item \<Rightarrow> 'u nav_item \<Rightarrow> bool" where
  "same_page G e e' \<longleftrightarrow>
     GetVirtualURL G e' = GetVirtualURL G e \<and> (SchemeIsHTTPOrHTTPS G (item_url e) \<longrightarrow> item_url e' = item_url e) \<and>
     item_title e' = item_title e \<and> timestamp e' = timestamp e \<and> page_display_state e' = page_display_state e \<and>
     user_agent_type e' = user_agent_type e \<and> http_request_headers e' = http_request_headers e \<and>
     should_skip_repost_form_confirmation e' = should_skip_repost_form_confirmation e"

lemma same_page_stored:
  assumes "urls_parse G"
  shows "same_page G e (BuildNavigationItemImpl G i (BuildItemStorage G n e))"
proof -
  have "storage_url (BuildItemStorage G n e) = item_url e" "storage_timestamp (BuildItemStorage G n e) = timestamp e"
      "storage_title (BuildItemStorage G n e) = item_title e"
      "storage_display_state (BuildItemStorage G n e) = page_display_state e"
      "storage_skip_repost (BuildItemStorage G n e) = should_skip_repost_form_confirmation e"
      "storage_user_agent (BuildItemStorage G n e) = user_agent_type e"
      "storage_headers (BuildItemStorage G n e) = http_request_headers e"
    by (simp_all add: BuildItemStorage_def Let_def)
  then show ?thesis
    using assms
    by (auto simp: same_page_def BuildNavigationItemImpl_def virtualURL_stored Let_def SetVirtualURL_def SetURL_def
      NavigationItemImpl_def urls_parse_def) (auto simp: GetVirtualURL_def split: if_splits)
qed

text \<open>
  Property C37.  A saved tab that is written to an archive and read back is the same session, and each of its
  entries is turned into an entry that shows the same page: the same address, title, time, scroll position,
  user agent and headers.
\<close>

theorem saved_tab_round_trip:
  assumes "urls_parse G" "storage_stable_identifier S \<noteq> []" "-1 \<le> storage_last_committed S"
    "storage_last_committed S < int (length (item_storages S))" "length (item_storages S) \<le> 75"
    "item_storages S = map (BuildItemStorage G n) es" "\<forall>e \<in> set es. plain_entry G e"
  shows "\<exists>Ss. session_decode G uuid (session_encode G S) = Inr (S\<lparr>item_storages := Ss\<rparr>) \<and>
    list_all2 (same_page G) es (map (BuildNavigationItemImpl G i) Ss)"
proof -
  have "session_decode G uuid (session_encode G S) = Inr (S\<lparr>item_storages := map (decoded G) (item_storages S)\<rparr>)"
    by (rule session_decode_encode) (use assms plain_stored in auto)
  moreover have "list_all2 (same_page G) es (map (BuildNavigationItemImpl G i) (map (decoded G) (item_storages S)))"
    using same_page_stored [OF assms(1)] by (simp add: assms(6) decoded_entry [OF assms(1)] list_all2_conv_all_nth)
  ultimately show ?thesis by blast
qed

theorem saved_tab_round_trip_witness:
  "\<exists>Ss. session_decode demo_web ''new'' (session_encode demo_web
      \<lparr>storage_has_opener = True, storage_last_committed = 0,
       item_storages = [BuildItemStorage demo_web 100 (SetURL ''http:a/1'' (NavigationItemImpl demo_web 4))],
       storage_cert_policies = None, storage_user_data = None, storage_user_agent_type = UserAgentDESKTOP,
       storage_stable_identifier = ''id'', storage_last_active_time = 0\<rparr>) =
    Inr \<lparr>storage_has_opener = True, storage_last_committed = 0, item_storages = Ss,
       storage_cert_policies = None, storage_user_data = None, storage_user_agent_type = UserAgentDESKTOP,
       storage_stable_identifier = ''id'', storage_last_active_time = 0\<rparr>"
proof -
  have "urls_parse demo_web" by (simp add: urls_parse_def demo_web_def)
  from saved_tab_round_trip [OF this, of "\<lparr>storage_has_opener = True, storage_last_committed = 0,
       item_storages = [BuildItemStorage demo_web 100 (SetURL ''http:a/1'' (NavigationItemImpl demo_web 4))],
       storage_cert_policies = None, storage_user_data = None, storage_user_agent_type = UserAgentDESKTOP,
       storage_stable_identifier = ''id'', storage_last_active_time = 0\<rparr>" 100
      "[SetURL ''http:a/1'' (NavigationItemImpl demo_web 4)]" "''new''" 9]
  show ?thesis by (auto simp: plain_entry_def plain_url_def demo_web_def SetURL_def NavigationItemImpl_def
    GetVirtualURL_def EmptyReferrer_def)
qed

end
