(* ===== verification/Session_Window.thy ===== *)
theory Session_Window
  imports Session_Storage Web_State_List_Properties
begin

text \<open>
  Saving and restoring the tabs of a window: \<^verbatim>\<open>chrome/browser/web_state_list/web_state_list_serialization.mm\<close>,
  \<^verbatim>\<open>chrome/browser/sessions/session_window_ios.mm\<close> and \<^verbatim>\<open>chrome/browser/sessions/NSCoder+Compatibility.mm\<close>.

  The data of a tab (\<open>user_data\<close>) is looked up by the identity of the tab; the operations return it with the
  list.  The saved form a tab builds (\<^verbatim>\<open>BuildSessionStorage\<close>: \<open>BuildStorage\<close> for a realized tab, the session it
  was made from for an unrealized one) is a parameter, except for the user data, which all three ways
  take from the tab when it is saved.
\<close>

section \<open>Saved windows\<close>

definition NSNotFound :: int where "NSNotFound = 2 ^ 63 - 1"

record session_summary =
  summary_url :: string
  summary_title :: string
  summary_identifier :: string

text \<open>The content of a tab is its archive; None is empty data.\<close>

record 'u session_window =
  window_sessions :: "'u session_storage list"
  window_summary :: "session_summary list option"
  window_contents :: "(string \<Rightarrow> archive option option) option"
  selected_index :: int

definition IsIndexValidForSessionCount :: "int \<Rightarrow> nat \<Rightarrow> bool" where
  "IsIndexValidForSessionCount index session_count \<longleftrightarrow>
     (if session_count = 0 then index = NSNotFound else index < int session_count)"

definition initWithSessions ::
    "'u session_storage list \<Rightarrow> session_summary list option \<Rightarrow> (string \<Rightarrow> archive option option) option \<Rightarrow> int \<Rightarrow>
     'u session_window res" where
  "initWithSessions sessions summary contents selected =
     dcheck (IsIndexValidForSessionCount selected (length sessions))
       ''IsIndexValidForSessionCount(selectedIndex, [sessions count])''
     (dcheck (case summary of None \<Rightarrow> True | Some ss \<Rightarrow> length ss = length sessions)
       ''!sessionsSummary || sessionsSummary.count == sessions.count''
       (Inr \<lparr>window_sessions = sessions, window_summary = summary, window_contents = contents,
             selected_index = selected\<rparr>))"

definition kSessionsKey :: string where "kSessionsKey = ''sessions''"
definition kSelectedIndexKey :: string where "kSelectedIndexKey = ''selectedIndex''"

text \<open>An index is archived with 32 bits, whatever the size of \<^verbatim>\<open>NSInteger\<close>.\<close>

definition cr_encodeIndex :: "int \<Rightarrow> archived res" where
  "cr_encodeIndex index =
     dcheck (0 \<le> index \<and> index < INT_MAX \<or> index = NSNotFound) ''(0 <= index && index < NSNotFound32) || index == NSNotFound''
       (Inr (ArchivedInt (if index = NSNotFound then INT_MAX else index)))"

definition cr_decodeIndexForKey :: "string \<Rightarrow> archive \<Rightarrow> int res" where
  "cr_decodeIndexForKey key A =
     rbind (decodeIntForKey key A) (\<lambda>index32.
       dcheck (0 \<le> index32 \<and> index32 \<le> INT_MAX) ''0 <= index32 && index32 <= NSNotFound32''
         (Inr (if index32 = INT_MAX then NSNotFound else index32)))"

text \<open>
  The summary is written for other readers and is not read back.  Each session read without an
  identifier gets a new one: \<open>uuids\<close>.
\<close>

definition window_encode :: "'u web_env \<Rightarrow> 'u session_window \<Rightarrow> archive res" where
  "window_encode G W =
     rbind (cr_encodeIndex (selected_index W)) (\<lambda>i.
       Inr [kSelectedIndexKey \<mapsto> i, kSessionsKey \<mapsto> ArchivedSessions (map (session_encode G) (window_sessions W))])"

definition window_decode :: "'u web_env \<Rightarrow> (nat \<Rightarrow> string) \<Rightarrow> archive \<Rightarrow> 'u session_window res" where
  "window_decode G uuids A =
     rbind (cr_decodeIndexForKey kSelectedIndexKey A) (\<lambda>selected.
     rbind (case decodeObjectForKey kSessionsKey A of
              ArchivedSessions As \<Rightarrow> rmap (\<lambda>(i, a). session_decode G (uuids i) a) (enumerate 0 As)
            | _ \<Rightarrow> Inr []) (\<lambda>sessions.
     let selected = (if IsIndexValidForSessionCount selected (length sessions) then selected
                     else if sessions = [] then NSNotFound else 0)
     in initWithSessions sessions None None selected))"

section \<open>Saving\<close>

definition kOpenerIndexKey :: string where "kOpenerIndexKey = ''OpenerIndex''"
definition kOpenerNavigationIndexKey :: string where "kOpenerNavigationIndexKey = ''OpenerNavigationIndex''"

record 'u save_env =
  save_tabs_to_separate_files :: bool
  storage_of :: "web_state_id \<Rightarrow> 'u session_storage"
  archiver :: "'u session_storage \<Rightarrow> archive option"
  to_serialize :: "string set option"

definition dropped_from_session :: "heap \<Rightarrow> web_state_list \<Rightarrow> nat \<Rightarrow> bool" where
  "dropped_from_session H s index \<longleftrightarrow>
     (let w = H (tabs s ! index)
      in \<not> (is_realized w \<and> restore_session_in_progress w) \<and> navigation_item_count w = 0)"

definition GetIndexOfWebStatesToDrop :: "heap \<Rightarrow> web_state_list \<Rightarrow> storage" where
  "GetIndexOfWebStatesToDrop H s =
     StorageFromVector (map int (filter (dropped_from_session H s) [0..<length (tabs s)]))"

definition saved_opener_index :: "storage \<Rightarrow> web_state_list \<Rightarrow> web_state_opener \<Rightarrow> int res" where
  "saved_opener_index removing s op =
     (case opener op of None \<Rightarrow> Inr kInvalidIndex
      | Some w \<Rightarrow> let i = GetIndexOfWebState s w
          in dcheck (i \<noteq> kInvalidIndex) ''opener_index != WebStateList::kInvalidIndex'' (Inr (IndexAfterRemoval removing i)))"

definition opener_data :: "int \<Rightarrow> int \<Rightarrow> user_data \<Rightarrow> user_data" where
  "opener_data opener_index nav_index d =
     (if opener_index \<noteq> kInvalidIndex
      then d(kOpenerIndexKey \<mapsto> NSNumberValue opener_index, kOpenerNavigationIndexKey \<mapsto> NSNumberValue nav_index)
      else d(kOpenerIndexKey \<mapsto> NSNullValue, kOpenerNavigationIndexKey \<mapsto> NSNullValue))"

definition BuildSessionStorage :: "'u save_env \<Rightarrow> web_state_id \<Rightarrow> user_data \<Rightarrow> 'u session_storage" where
  "BuildSessionStorage E w d = (storage_of E w)\<lparr>storage_user_data := Some d\<rparr>"

definition tab_content :: "'u save_env \<Rightarrow> string \<Rightarrow> 'u session_storage \<Rightarrow> archive option" where
  "tab_content E identifier S =
     (if case to_serialize E of None \<Rightarrow> True | Some ids \<Rightarrow> identifier \<in> ids then archiver E S else None)"

text \<open>
  The loop over the tabs yields sessions, summaries, contents and user data.  The contents are a dictionary:
  of two tabs with the same identifier the later one counts.
\<close>

fun serialize_loop ::
    "'u save_env \<Rightarrow> heap \<Rightarrow> storage \<Rightarrow> web_state_list \<Rightarrow> nat list \<Rightarrow> (web_state_id \<Rightarrow> user_data) \<Rightarrow>
     (('u session_storage \<times> session_summary) list \<times> (string \<Rightarrow> archive option option) \<times> (web_state_id \<Rightarrow> user_data)) res" where
  "serialize_loop E H removing s [] U = Inr ([], Map.empty, U)"
| "serialize_loop E H removing s (index # is) U =
     (if Contains removing (int index) then serialize_loop E H removing s is U
      else rbind (GetWebStateAt s (int index)) (\<lambda>w.
           rbind (GetOpenerOfWebStateAt s (int index)) (\<lambda>op.
           rbind (saved_opener_index removing s op) (\<lambda>opener_index.
           let d = opener_data opener_index (navigation_index op) (U w);
               S = BuildSessionStorage E w d;
               identifier = stable_identifier (H w);
               summary = \<lparr>summary_url = visible_url (H w), summary_title = web_state.title (H w),
                          summary_identifier = identifier\<rparr>
           in rbind (serialize_loop E H removing s is (U(w := d))) (\<lambda>(rest, contents, U).
              Inr ((S, summary) # rest,
                   (if contents identifier = None then contents(identifier \<mapsto> tab_content E identifier S) else contents),
                   U))))))"

definition SerializeWebStateList ::
    "'u save_env \<Rightarrow> heap \<Rightarrow> web_state_list \<Rightarrow> (web_state_id \<Rightarrow> user_data) \<Rightarrow>
     ('u session_window \<times> (web_state_id \<Rightarrow> user_data)) res" where
  "SerializeWebStateList E H s U =
     (let removing = GetIndexOfWebStatesToDrop H s in
      rbind (serialize_loop E H removing s [0..<length (tabs s)] U) (\<lambda>(saved, contents, U).
      rbind (DetermineNewActiveIndex H s (active_index s) removing) (\<lambda>active.
      let selected = (if active \<noteq> kInvalidIndex then active else NSNotFound) in
      rbind (initWithSessions (map fst saved)
               (if save_tabs_to_separate_files E then Some (map snd saved) else None)
               (if save_tabs_to_separate_files E then Some contents else None) selected) (\<lambda>window.
      Inr (window, U)))))"

section \<open>Restoring\<close>

text \<open>The factory: \<open>ids\<close> are the identities of the tabs it makes, whose user data is that of the session.\<close>

definition created_user_data :: "'u session_storage \<Rightarrow> user_data" where
  "created_user_data S = SetUserDataFromSession (storage_user_data S) Map.empty"

fun insert_sessions ::
    "heap \<Rightarrow> ('u session_storage \<times> web_state_id) list \<Rightarrow> web_state_list \<Rightarrow> (web_state_id \<Rightarrow> user_data) \<Rightarrow>
     (web_state_list \<times> (web_state_id \<Rightarrow> user_data)) res" where
  "insert_sessions H [] s U = Inr (s, U)"
| "insert_sessions H ((S, w) # rest) s U =
     rbind (InsertWebState H (count s) w INSERT_FORCE_INDEX WebStateOpenerNull s) (\<lambda>(s, _).
       insert_sessions H rest s (U(w := created_user_data S)))"

definition boxed_int :: "user_value option \<Rightarrow> int option" where
  "boxed_int v = (case v of Some (NSNumberValue i) \<Rightarrow> Some (signed_take_bit 31 i) | _ \<Rightarrow> None)"

text \<open>
  The opener read for the tab at \<open>index\<close>, if it is one.  The sum of the two numbers is of type \<^verbatim>\<open>int\<close>; where
  it overflows it wraps, to a number that is out of range either way.
\<close>

definition restored_opener :: "int \<Rightarrow> int \<Rightarrow> int \<Rightarrow> user_data \<Rightarrow> (int \<times> int) option" where
  "restored_opener old_count n index d =
     (case (boxed_int (GetValueForSerializationKey kOpenerIndexKey d),
            boxed_int (GetValueForSerializationKey kOpenerNavigationIndexKey d)) of
        (Some boxed, Some nav) \<Rightarrow>
          let opener_index = signed_take_bit 31 (boxed + old_count)
          in if opener_index < old_count \<or> opener_index \<ge> n then None
             else if opener_index = index then None
             else Some (opener_index, nav)
      | _ \<Rightarrow> None)"

fun restore_openers ::
    "int \<Rightarrow> (web_state_id \<Rightarrow> user_data) \<Rightarrow> int list \<Rightarrow> web_state_list \<Rightarrow> web_state_list res" where
  "restore_openers old_count U [] s = Inr s"
| "restore_openers old_count U (index # is) s =
     rbind (GetWebStateAt s index) (\<lambda>w.
     rbind (case restored_opener old_count (count s) index (U w) of
              None \<Rightarrow> Inr s
            | Some (opener_index, nav) \<Rightarrow>
                rbind (GetWebStateAt s opener_index) (\<lambda>op.
                  SetOpenerOfWebStateAt index \<lparr>opener = Some op, navigation_index = nav\<rparr> s))
       (restore_openers old_count U is))"

definition DeserializeWebStateList ::
    "heap \<Rightarrow> web_state_id list \<Rightarrow> 'u session_window \<Rightarrow> web_state_list \<Rightarrow> (web_state_id \<Rightarrow> user_data) \<Rightarrow>
     (web_state_list \<times> (web_state_id \<Rightarrow> user_data)) res" where
  "DeserializeWebStateList H ids window s U =
     (let old_count = count s in
      rbind (insert_sessions H (zip (window_sessions window) ids) s U) (\<lambda>(s, U).
      rbind (restore_openers old_count U [old_count..count s - 1] s) (\<lambda>s.
      if selected_index window \<noteq> NSNotFound
      then dcheck (selected_index window < int (length (window_sessions window)))
             ''session_window.selectedIndex < session_window.sessions.count''
           (dcheck (selected_index window < INT_MAX) ''session_window.selectedIndex < static_cast<NSUInteger>(INT_MAX)''
             (rbind (ActivateWebStateAt (old_count + selected_index window) s) (\<lambda>s. Inr (s, U))))
      else Inr (s, U))))"

section \<open>The tabs of a saved window\<close>

lemma drop_storage:
  "storage_invar (GetIndexOfWebStatesToDrop H s)"
  "storage_abs (GetIndexOfWebStatesToDrop H s) = int ` {i. i < length (tabs s) \<and> dropped_from_session H s i}"
  "storage_abs (GetIndexOfWebStatesToDrop H s) \<subseteq> {0..<count s}"
  by (auto simp: GetIndexOfWebStatesToDrop_def count_tabs)

lemma drop_contains:
  "i < length (tabs s) \<Longrightarrow> Contains (GetIndexOfWebStatesToDrop H s) (int i) \<longleftrightarrow> dropped_from_session H s i"
  by (auto simp: storage.contains_abs [OF drop_storage(1)] drop_storage(2))

definition saved_tabs :: "heap \<Rightarrow> web_state_list \<Rightarrow> nat list" where
  "saved_tabs H s = filter (\<lambda>i. \<not> dropped_from_session H s i) [0..<length (tabs s)]"

lemma saved_tabs_props: "distinct (saved_tabs H s)" "i \<in> set (saved_tabs H s) \<longleftrightarrow> i < length (tabs s) \<and> \<not> dropped_from_session H s i"
  by (auto simp: saved_tabs_def)

text \<open>The position of a saved tab among the saved tabs is its index after the removal of the others.\<close>

lemma saved_position:
  assumes "j < length (saved_tabs H s)"
  shows "IndexAfterRemoval (GetIndexOfWebStatesToDrop H s) (int (saved_tabs H s ! j)) = int j"
proof -
  let ?i = "saved_tabs H s ! j" and ?r = "GetIndexOfWebStatesToDrop H s"
  let ?P = "\<lambda>i. \<not> dropped_from_session H s i"
  have i: "?i < length (tabs s)" "?P ?i" using nth_mem [OF assms] saved_tabs_props(2) by auto
  have "saved_tabs H s ! length (filter ?P [0..<?i]) = ?i" "length (filter ?P [0..<?i]) < length (saved_tabs H s)"
    using filter_upt_nth [of ?P, OF i(2,1)] by (simp_all add: saved_tabs_def)
  then have "length (filter ?P [0..<?i]) = j" using saved_tabs_props(1) [of H s] assms by (metis nth_eq_iff_index_eq)
  moreover have "filter ?P [0..<?i] = filter (\<lambda>j. \<not> Contains ?r (int j)) [0..<?i]"
    using i(1) by (intro filter_cong) (auto simp: drop_contains)
  moreover have "storage_abs ?r \<subseteq> {0..}" using drop_storage(3) by fastforce
  moreover have "int ?i \<notin> storage_abs ?r" using i(2) by (auto simp: drop_storage(2))
  ultimately show ?thesis
    using kept_below [OF drop_storage(1), of H s ?i] storage.after_kept [OF drop_storage(1), of "int ?i" H s] by simp
qed

lemma dropped_position:
  "i < length (tabs s) \<Longrightarrow> dropped_from_session H s i \<Longrightarrow> IndexAfterRemoval (GetIndexOfWebStatesToDrop H s) (int i) = -1"
  by (rule storage.after_removed [OF drop_storage(1)]) (simp add: drop_storage(2))

section \<open>What is saved of a list\<close>

definition tab_opener :: "web_state_list \<Rightarrow> nat \<Rightarrow> web_state_opener" where
  "tab_opener s i = wrapper_opener (web_state_wrappers s ! i)"

definition opener_position :: "storage \<Rightarrow> web_state_list \<Rightarrow> nat \<Rightarrow> int" where
  "opener_position r s i = (case opener (tab_opener s i) of None \<Rightarrow> -1 | Some w \<Rightarrow> IndexAfterRemoval r (GetIndexOfWebState s w))"

definition saved_session :: "'u save_env \<Rightarrow> storage \<Rightarrow> web_state_list \<Rightarrow> (web_state_id \<Rightarrow> user_data) \<Rightarrow> nat \<Rightarrow> 'u session_storage" where
  "saved_session E r s U i = BuildSessionStorage E (tabs s ! i)
     (opener_data (opener_position r s i) (navigation_index (tab_opener s i)) (U (tabs s ! i)))"

lemma list_access:
  assumes "i < length (tabs s)"
  shows "GetWebStateAt s (int i) = Inr (tabs s ! i)" "GetOpenerOfWebStateAt s (int i) = Inr (tab_opener s i)"
  using assms
  by (simp_all add: GetWebStateAt_def GetWebStateWrapperAt_def GetOpenerOfWebStateAt_def ContainsIndex_def count_def
    tabs_def tab_opener_def)

lemma tab_opener_member:
  assumes "wsl_inv s" "i < length (tabs s)" "opener (tab_opener s i) = Some w"
  shows "w \<in> set (tabs s)" "w \<noteq> tabs s ! i"
proof -
  have "web_state_wrappers s ! i \<in> set (web_state_wrappers s)" "wrapped (web_state_wrappers s ! i) = tabs s ! i"
    using assms(2) by (simp_all add: tabs_def)
  then show "w \<in> set (tabs s)" "w \<noteq> tabs s ! i"
    using wsl_invD(3) [OF assms(1)] assms(3) by (auto simp: openers_ok_def tab_opener_def)
qed

lemma saved_opener_index_eq:
  assumes "wsl_inv s" "i < length (tabs s)"
  shows "saved_opener_index r s (tab_opener s i) = Inr (opener_position r s i)"
  using tab_opener_member [OF assms] GetIndexOfWebState_member
  by (auto simp: saved_opener_index_def opener_position_def Let_def split: option.split)

lemma serialize_loop_eq:
  assumes "wsl_inv s"
  shows "distinct is \<Longrightarrow> \<forall>i \<in> set is. i < length (tabs s) \<Longrightarrow>
    \<exists>saved contents U'. serialize_loop E H r s is U = Inr (saved, contents, U') \<and>
      map fst saved = map (saved_session E r s U) (filter (\<lambda>i. \<not> Contains r (int i)) is)"
proof (induction "is" arbitrary: U)
  case (Cons i "is")
  let ?d = "opener_data (opener_position r s i) (navigation_index (tab_opener s i)) (U (tabs s ! i))"
  let ?U = "if Contains r (int i) then U else U(tabs s ! i := ?d)"
  obtain saved contents U' where IH: "serialize_loop E H r s is ?U = Inr (saved, contents, U')"
      "map fst saved = map (saved_session E r s ?U) (filter (\<lambda>i. \<not> Contains r (int i)) is)"
    using Cons.IH [of ?U] Cons.prems by auto
  have i: "i < length (tabs s)" using Cons.prems(2) by simp
  have "saved_session E r s ?U j = saved_session E r s U j" if "j \<in> set is" for j
  proof -
    have "tabs s ! j \<noteq> tabs s ! i"
      using that Cons.prems wsl_invD(1) [OF assms] by (metis distinct.simps(2) list.set_intros nth_eq_iff_index_eq)
    then show ?thesis by (simp add: saved_session_def)
  qed
  then have "map fst saved = map (saved_session E r s U) (filter (\<lambda>i. \<not> Contains r (int i)) is)"
    using IH(2) by simp
  then show ?case
    using IH(1) list_access [OF i] saved_opener_index_eq [OF assms i]
    by (auto simp: saved_session_def Let_def)
qed simp

section \<open>What is restored\<close>

lemma InsertWebState_last:
  assumes "wsl_open b s" "w \<notin> set (tabs s)" "count s < INT_MAX"
  shows "\<exists>s'. InsertWebState H (count s) w INSERT_FORCE_INDEX WebStateOpenerNull s = Inr (s', count s) \<and> wsl_open b s' \<and>
    web_state_wrappers s' = web_state_wrappers s @ [WebStateWrapper w] \<and> active_index s' = active_index s"
proof -
  have flags: "IsInsertionFlagSet INSERT_FORCE_INDEX INSERT_FORCE_INDEX" "\<not> IsInsertionFlagSet INSERT_FORCE_INDEX INSERT_ACTIVATE"
      "\<not> IsInsertionFlagSet INSERT_FORCE_INDEX INSERT_INHERIT_OPENER"
    by (simp_all add: IsInsertionFlagSet_def INSERT_FORCE_INDEX_def INSERT_ACTIVATE_def INSERT_INHERIT_OPENER_def)
  note l = wsl_open_locked(11,1,4,5,7,8,9) [OF assms(1)]
  let ?t = "insert_wrapper (count s) w False False (s\<lparr>locked := True\<rparr>)"
  have pre: "insert_pre (count s) w INSERT_FORCE_INDEX WebStateOpenerNull (s\<lparr>locked := True\<rparr>)"
    using assms(2,3) by (simp add: l insert_pre_def WebStateOpenerNull_def count_def)
  have lk: "locked (s\<lparr>locked := True\<rparr>)" by simp
  have eq: "InsertWebStateImpl H (count s) w INSERT_FORCE_INDEX WebStateOpenerNull (s\<lparr>locked := True\<rparr>) = Inr (?t, count s)"
    by (simp add: l InsertWebStateImpl_def flags insertion_index_def WebStateOpenerNull_def Let_def)
  obtain s' i where s': "InsertWebStateImpl H (count s) w INSERT_FORCE_INDEX WebStateOpenerNull (s\<lparr>locked := True\<rparr>) = Inr (s', i)"
      "wsl_inv s'" "same_frame (s\<lparr>locked := True\<rparr>) s'"
    using InsertWebStateImpl_ok [OF l(2) lk pre, of H] by blast
  have cnt: "0 \<le> count s" "count s \<le> count (s\<lparr>locked := True\<rparr>)" "nat (count s) = length (web_state_wrappers (s\<lparr>locked := True\<rparr>))"
    by (simp_all add: count_def)
  note f = insert_wrapper_fields [OF cnt(1,2), of w False False]
  have "\<not> count s \<le> active_index s"
    using wsl_invD(2) [OF l(1)] by (auto simp: active_ok_def ContainsIndex_def count_def)
  then show ?thesis
    using eq s' f wsl_open_unlocked(1) [OF assms(1) s'(3,2)]
    by (auto simp: InsertWebState_def l WebStateWrapper_def count_def)
qed

fun restored_data :: "('u session_storage \<times> web_state_id) list \<Rightarrow> (web_state_id \<Rightarrow> user_data) \<Rightarrow> web_state_id \<Rightarrow> user_data" where
  "restored_data [] U = U"
| "restored_data ((S, w) # rest) U = restored_data rest (U(w := created_user_data S))"

lemma restored_data_other: "w \<notin> snd ` set rest \<Longrightarrow> restored_data rest U w = U w"
  by (induction rest U rule: restored_data.induct) auto

lemma restored_data_nth:
  "distinct (map snd rest) \<Longrightarrow> i < length rest \<Longrightarrow> restored_data rest U (snd (rest ! i)) = created_user_data (fst (rest ! i))"
proof (induction rest U arbitrary: i rule: restored_data.induct)
  case (2 S w rest U)
  define V where "V = U(w := created_user_data S)"
  have IH: "restored_data rest V (snd (rest ! i)) = created_user_data (fst (rest ! i))" if "i < length rest" for i
    by (rule "2.IH" [folded V_def, OF _ that]) (use "2.prems"(1) in simp)
  have "w \<notin> snd ` set rest" using "2.prems"(1) by simp
  then have "restored_data rest V w = created_user_data S" by (simp add: restored_data_other V_def)
  then show ?case using IH "2.prems"(2) by (cases i) (simp_all flip: V_def)
qed simp

lemma insert_sessions_ok:
  "wsl_open b s \<Longrightarrow> distinct (map snd rest) \<Longrightarrow> snd ` set rest \<inter> set (tabs s) = {} \<Longrightarrow> count s + int (length rest) \<le> INT_MAX \<Longrightarrow>
     \<exists>s'. insert_sessions H rest s U = Inr (s', restored_data rest U) \<and> wsl_open b s' \<and>
       web_state_wrappers s' = web_state_wrappers s @ map (WebStateWrapper \<circ> snd) rest \<and> active_index s' = active_index s"
proof (induction rest arbitrary: s U)
  case (Cons x rest)
  obtain S w where x: "x = (S, w)" by (cases x)
  obtain s1 where s1: "InsertWebState H (count s) w INSERT_FORCE_INDEX WebStateOpenerNull s = Inr (s1, count s)" "wsl_open b s1"
      "web_state_wrappers s1 = web_state_wrappers s @ [WebStateWrapper w]" "active_index s1 = active_index s"
    using InsertWebState_last [OF Cons.prems(1), of w H] Cons.prems(3,4) x by auto
  define V where "V = U(w := created_user_data S)"
  have "tabs s1 = tabs s @ [w]" "count s1 = count s + 1" using s1(3) by (simp_all add: tabs_def count_def WebStateWrapper_def)
  then obtain s' where s': "insert_sessions H rest s1 V = Inr (s', restored_data rest V)" "wsl_open b s'"
      "web_state_wrappers s' = web_state_wrappers s1 @ map (WebStateWrapper \<circ> snd) rest" "active_index s' = active_index s1"
    using Cons.IH [OF s1(2), of V] Cons.prems(2-4) x by auto
  have "insert_sessions H (x # rest) s U = Inr (s', restored_data (x # rest) U)"
    using s1(1) s'(1) x by (simp flip: V_def)
  then show ?case using s1(3,4) s'(2-4) x by simp
qed simp

text \<open>The opener a restored tab gets.\<close>

definition opener_for :: "int \<Rightarrow> (web_state_id \<Rightarrow> user_data) \<Rightarrow> web_state_list \<Rightarrow> nat \<Rightarrow> web_state_opener option" where
  "opener_for old_count U s i =
     map_option (\<lambda>(j, nav). \<lparr>opener = Some (tabs s ! nat j), navigation_index = nav\<rparr>)
       (restored_opener old_count (count s) (int i) (U (tabs s ! i)))"

lemma restored_opener_range:
  "restored_opener old_count n index d = Some (j, nav) \<Longrightarrow> old_count \<le> j \<and> j < n \<and> j \<noteq> index"
  by (auto simp: restored_opener_def Let_def split: option.splits if_splits)

lemma restore_openers_ok:
  assumes "0 \<le> old_count"
  shows "wsl_open b s \<Longrightarrow> distinct is \<Longrightarrow> \<forall>i \<in> set is. i < length (tabs s) \<Longrightarrow>
    \<exists>s'. restore_openers old_count U (map int is) s = Inr s' \<and> wsl_open b s' \<and> tabs s' = tabs s \<and>
      active_index s' = active_index s \<and>
      (\<forall>i < length (tabs s). tab_opener s' i =
        (case opener_for old_count U s i of Some op \<Rightarrow> if i \<in> set is then op else tab_opener s i | None \<Rightarrow> tab_opener s i))"
proof (induction "is" arbitrary: s)
  case (Cons i "is")
  have i: "i < length (tabs s)" using Cons.prems(3) by simp
  have inv: "wsl_inv s" using Cons.prems(1) by (simp add: wsl_open_def)
  have "\<exists>s1. (case restored_opener old_count (count s) (int i) (U (tabs s ! i)) of None \<Rightarrow> Inr s
      | Some (j, nav) \<Rightarrow> rbind (GetWebStateAt s j) (\<lambda>op. SetOpenerOfWebStateAt (int i) \<lparr>opener = Some op, navigation_index = nav\<rparr> s)) =
        Inr s1 \<and> wsl_open b s1 \<and> tabs s1 = tabs s \<and> active_index s1 = active_index s \<and>
      (\<forall>k < length (tabs s). tab_opener s1 k = (case opener_for old_count U s i of Some op \<Rightarrow> if k = i then op else tab_opener s k
        | None \<Rightarrow> tab_opener s k))"
  proof (cases "restored_opener old_count (count s) (int i) (U (tabs s ! i))")
    case None
    then show ?thesis using Cons.prems(1) by (simp add: opener_for_def)
  next
    case (Some x)
    obtain j nav where x: "x = (j, nav)" by (cases x)
    then have j: "0 \<le> j" "nat j < length (tabs s)" "nat j \<noteq> i" "j = int (nat j)"
      using restored_opener_range [OF Some [unfolded x]] assms by (auto simp: count_tabs)
    let ?op = "\<lparr>opener = Some (tabs s ! nat j), navigation_index = nav\<rparr>"
    have "tabs s ! nat j \<noteq> tabs s ! i" using j i wsl_invD(1) [OF inv] by (simp add: nth_eq_iff_index_eq)
    moreover have "ContainsIndex s (int i)" using i by (simp add: ContainsIndex_def count_tabs)
    ultimately obtain s1 where s1: "SetOpenerOfWebStateAt (int i) ?op s = Inr s1" "wsl_inv s1" "same_frame s s1"
        "tabs s1 = tabs s" "active_index s1 = active_index s"
        "web_state_wrappers s1 = (web_state_wrappers s)[i := (web_state_wrappers s ! i)
          \<lparr>should_reset_opener := False, wrapper_opener := ?op\<rparr>]"
      using SetOpenerOfWebStateAt_ok [OF inv, of "int i" ?op "tabs s ! nat j"] j by auto
    have "wsl_open b s1" using s1(2,3) Cons.prems(1) by (simp add: wsl_open_def same_frame_def)
    moreover have "GetWebStateAt s j = Inr (tabs s ! nat j)" using list_access(1) [OF j(2)] j(4) by simp
    moreover have "\<forall>k < length (tabs s). tab_opener s1 k = (if k = i then ?op else tab_opener s k)"
      using s1(6) i by (simp add: tab_opener_def nth_list_update tabs_def)
    moreover have "opener_for old_count U s i = Some ?op" by (simp add: Some x opener_for_def)
    ultimately show ?thesis using s1(1,4,5) by (simp add: Some x)
  qed
  then obtain s1 where s1: "rbind (GetWebStateAt s (int i)) (\<lambda>w. case restored_opener old_count (count s) (int i) (U w) of None \<Rightarrow> Inr s
      | Some (j, nav) \<Rightarrow> rbind (GetWebStateAt s j) (\<lambda>op. SetOpenerOfWebStateAt (int i) \<lparr>opener = Some op, navigation_index = nav\<rparr> s)) =
        Inr s1" "wsl_open b s1" "tabs s1 = tabs s" "active_index s1 = active_index s"
      "\<forall>k < length (tabs s). tab_opener s1 k = (case opener_for old_count U s i of Some op \<Rightarrow> if k = i then op else tab_opener s k
        | None \<Rightarrow> tab_opener s k)"
    using list_access(1) [OF i] by auto
  have same: "opener_for old_count U s1 k = opener_for old_count U s k" for k
    using s1(3) by (simp add: opener_for_def count_tabs)
  obtain s' where s': "restore_openers old_count U (map int is) s1 = Inr s'" "wsl_open b s'" "tabs s' = tabs s" "active_index s' = active_index s"
      "\<forall>k < length (tabs s). tab_opener s' k =
        (case opener_for old_count U s k of Some op \<Rightarrow> if k \<in> set is then op else tab_opener s1 k | None \<Rightarrow> tab_opener s1 k)"
    using Cons.IH [OF s1(2)] Cons.prems s1(3,4) same by auto
  have "restore_openers old_count U (map int (i # is)) s = Inr s'"
    using s1(1) s'(1) list_access(1) [OF i] by simp
  moreover have "\<forall>k < length (tabs s). tab_opener s' k =
      (case opener_for old_count U s k of Some op \<Rightarrow> if k \<in> set (i # is) then op else tab_opener s k | None \<Rightarrow> tab_opener s k)"
    using s'(5) s1(5) by (auto split: option.splits)
  ultimately show ?case using s'(2-4) by blast
qed (simp split: option.split)

section \<open>From a list to its saved form and back\<close>

lemma survivors_saved: "survivors (GetIndexOfWebStatesToDrop H s) (tabs s) = map (\<lambda>i. tabs s ! i) (saved_tabs H s)"
proof -
  have "filter (\<lambda>i. \<not> Contains (GetIndexOfWebStatesToDrop H s) (int i)) [0..<length (tabs s)] = saved_tabs H s"
    unfolding saved_tabs_def by (rule filter_cong) (auto simp: drop_contains)
  then show ?thesis by (simp add: survivors_def)
qed

lemma drop_count: "removing_count (GetIndexOfWebStatesToDrop H s) = count s - int (length (saved_tabs H s))"
  using survivors_length [OF drop_storage(1), of H s "tabs s"] drop_storage(3) by (simp add: survivors_saved count_tabs)

text \<open>The active tab of the saved window: the active one if it is saved, another saved one otherwise.\<close>

lemma saved_active:
  assumes "wsl_inv s" "active_index s \<noteq> -1" "saved_tabs H s \<noteq> []"
  obtains j where "DetermineNewActiveIndex H s (active_index s) (GetIndexOfWebStatesToDrop H s) = Inr (int j)"
    "j < length (saved_tabs H s)" "\<not> dropped_from_session H s (nat (active_index s)) \<Longrightarrow> saved_tabs H s ! j = nat (active_index s)"
proof -
  let ?r = "GetIndexOfWebStatesToDrop H s"
  have a: "ContainsIndex s (active_index s)" using wsl_invD(2) [OF assms(1)] assms(2) by (simp add: active_ok_def)
  have len: "length (survivors ?r (tabs s)) = length (saved_tabs H s)" by (simp add: survivors_saved)
  have "removing_count ?r \<noteq> count s" using assms(3) by (simp add: drop_count)
  from new_active_survivor [OF assms(1) drop_storage(1) drop_storage(3) a this, of H, unfolded len]
  obtain i j where j0: "DetermineNewActiveIndex H s (active_index s) ?r = Inr j" "ContainsIndex s i" "\<not> Contains ?r i"
      "0 \<le> j" "j < int (length (saved_tabs H s))" "survivors ?r (tabs s) ! nat j = tabs s ! nat i"
      "\<not> Contains ?r (active_index s) \<longrightarrow> i = active_index s"
    by blast
  have j: "DetermineNewActiveIndex H s (active_index s) ?r = Inr j" "ContainsIndex s i" "\<not> Contains ?r i"
      "0 \<le> j" "j < int (length (saved_tabs H s))" "tabs s ! (saved_tabs H s ! nat j) = tabs s ! nat i"
      "\<not> Contains ?r (active_index s) \<Longrightarrow> i = active_index s"
    using j0 by (simp_all add: survivors_saved nth_map)
  have n: "nat j < length (saved_tabs H s)" using j(4,5) by simp
  then have "saved_tabs H s ! nat j < length (tabs s)" using saved_tabs_props(2) nth_mem by blast
  then have "saved_tabs H s ! nat j = nat i"
    using j(2,6) wsl_invD(1) [OF assms(1)] by (auto simp: nth_eq_iff_index_eq ContainsIndex_def count_tabs)
  moreover have "Contains ?r (active_index s) = dropped_from_session H s (nat (active_index s))"
    using drop_contains [of "nat (active_index s)" s H] a by (auto simp: ContainsIndex_def count_tabs)
  ultimately show thesis using that [of "nat j"] j(1,4,7) n by auto
qed

lemma nothing_saved:
  assumes "wsl_inv s" "saved_tabs H s = []"
  shows "DetermineNewActiveIndex H s (active_index s) (GetIndexOfWebStatesToDrop H s) = Inr (-1)"
  using wsl_invD(2) [OF assms(1)] drop_count [of H s] assms(2)
  by (auto simp: DetermineNewActiveIndex_def active_ok_def)

lemma Serialize_eq:
  assumes "wsl_inv s" "active_index s = -1 \<longrightarrow> saved_tabs H s = []" "count s \<le> INT_MAX"
  obtains win U' where "SerializeWebStateList E H s U = Inr (win, U')"
    "window_sessions win = map (saved_session E (GetIndexOfWebStatesToDrop H s) s U) (saved_tabs H s)"
    "saved_tabs H s = [] \<Longrightarrow> selected_index win = NSNotFound"
    "saved_tabs H s \<noteq> [] \<Longrightarrow> \<exists>j < length (saved_tabs H s). selected_index win = int j \<and>
       (\<not> dropped_from_session H s (nat (active_index s)) \<longrightarrow> saved_tabs H s ! j = nat (active_index s))"
proof -
  let ?r = "GetIndexOfWebStatesToDrop H s"
  obtain saved contents U' where l: "serialize_loop E H ?r s [0..<length (tabs s)] U = Inr (saved, contents, U')"
      "map fst saved = map (saved_session E ?r s U) (filter (\<lambda>i. \<not> Contains ?r (int i)) [0..<length (tabs s)])"
    using serialize_loop_eq [OF assms(1), of "[0..<length (tabs s)]" E H ?r U] by auto
  have f: "filter (\<lambda>i. \<not> Contains ?r (int i)) [0..<length (tabs s)] = saved_tabs H s"
    unfolding saved_tabs_def by (rule filter_cong) (auto simp: drop_contains)
  have len: "length saved = length (saved_tabs H s)" using arg_cong [OF l(2) [unfolded f], of length] by simp
  have le: "length (saved_tabs H s) \<le> length (tabs s)" unfolding saved_tabs_def by (metis diff_zero length_filter_le length_upt)
  show thesis
  proof (cases "saved_tabs H s = []")
    case True
    then show thesis using l f len nothing_saved [OF assms(1) True]
      by (intro that [of "\<lparr>window_sessions = [], window_summary = if save_tabs_to_separate_files E then Some [] else None,
          window_contents = if save_tabs_to_separate_files E then Some contents else None, selected_index = NSNotFound\<rparr>" U'])
        (simp_all add: SerializeWebStateList_def initWithSessions_def IsIndexValidForSessionCount_def)
  next
    case False
    then obtain j where j: "DetermineNewActiveIndex H s (active_index s) ?r = Inr (int j)" "j < length (saved_tabs H s)"
        "\<not> dropped_from_session H s (nat (active_index s)) \<Longrightarrow> saved_tabs H s ! j = nat (active_index s)"
      using saved_active [OF assms(1)] assms(2) by metis
    then show thesis using l f len False
      by (intro that [of "\<lparr>window_sessions = map fst saved,
          window_summary = if save_tabs_to_separate_files E then Some (map snd saved) else None,
          window_contents = if save_tabs_to_separate_files E then Some contents else None, selected_index = int j\<rparr>" U'])
        (auto simp: SerializeWebStateList_def initWithSessions_def IsIndexValidForSessionCount_def Let_def)
  qed
qed

lemma Activate_openers:
  assumes "wsl_open b s" "ContainsIndex s i"
  obtains s' where "ActivateWebStateAt i s = Inr s'" "wsl_open b s'" "tabs s' = tabs s" "active_tab s' = Some (tabs s ! nat i)"
    "\<And>k. int k \<noteq> active_index s \<Longrightarrow> tab_opener s' k = tab_opener s k"
proof -
  note l = wsl_open_locked(11,1,4,5,7,8,9) [OF assms(1)]
  obtain t where t: "ActivateWebStateAtImpl i Activated (s\<lparr>locked := True\<rparr>) = Inr t" "wsl_inv t"
      "same_frame (s\<lparr>locked := True\<rparr>) t" "tabs t = tabs s" "active_index t = i"
    using ActivateWebStateAtImpl_ok [OF l(2), of i Activated] assms(2) l(4,5) by auto
  have "web_state_wrappers t = reset_active (s\<lparr>locked := True\<rparr>)"
    using t(1) ActivateWebStateAtImpl_eq [OF _ wsl_invD(2) [OF l(2)], of i Activated] assms(2) l(5) by auto
  then have o: "tab_opener (t\<lparr>locked := False\<rparr>) k = tab_opener s k" if "int k \<noteq> active_index s" for k
    using that wsl_invD(2) [OF l(1)] by (auto simp: tab_opener_def reset_active_def active_ok_def ContainsIndex_def)
  have "i \<noteq> -1" using assms(2) by (auto simp: ContainsIndex_def)
  then show thesis
    using that [of "t\<lparr>locked := False\<rparr>"] t wsl_open_unlocked [OF assms(1) t(3,2)] l(3) assms(2) o
    by (simp add: ActivateWebStateAt_def active_tab_def)
qed

text \<open>The openers of the restored tabs, by the positions of the saved ones.\<close>

definition opener_restored :: "web_state_list \<Rightarrow> nat list \<Rightarrow> web_state_id list \<Rightarrow> nat \<Rightarrow> web_state_opener \<Rightarrow> bool" where
  "opener_restored s saved ids k op \<longleftrightarrow>
     (\<forall>j < length saved. opener (tab_opener s (saved ! k)) = Some (tabs s ! (saved ! j)) \<longrightarrow>
        op = \<lparr>opener = Some (ids ! j), navigation_index = navigation_index (tab_opener s (saved ! k))\<rparr>) \<and>
     ((\<forall>j < length saved. opener (tab_opener s (saved ! k)) \<noteq> Some (tabs s ! (saved ! j))) \<longrightarrow> op = WebStateOpenerNull)"

lemma GetIndexOfWebState_nth:
  assumes "wsl_inv s" "i < length (tabs s)"
  shows "GetIndexOfWebState s (tabs s ! i) = int i"
  using find_index_distinct [of wrapped "web_state_wrappers s" i] wsl_invD(1) [OF assms(1)] assms(2)
  by (simp add: GetIndexOfWebState_def tabs_def)

lemma opener_position_saved:
  assumes "wsl_inv s" "k < length (saved_tabs H s)" "j < length (saved_tabs H s)"
    "opener (tab_opener s (saved_tabs H s ! k)) = Some (tabs s ! (saved_tabs H s ! j))"
  shows "opener_position (GetIndexOfWebStatesToDrop H s) s (saved_tabs H s ! k) = int j" "j \<noteq> k"
proof -
  let ?i = "saved_tabs H s ! j" and ?k = "saved_tabs H s ! k"
  have i: "?i < length (tabs s)" and k: "?k < length (tabs s)" using assms(2,3) saved_tabs_props(2) nth_mem by blast+
  have "GetIndexOfWebState s (tabs s ! ?i) = int ?i"
    by (rule GetIndexOfWebState_nth [OF assms(1) i])
  then show "opener_position (GetIndexOfWebStatesToDrop H s) s ?k = int j"
    using saved_position [OF assms(3)] assms(4) by (simp add: opener_position_def)
  show "j \<noteq> k" using tab_opener_member(2) [OF assms(1) k assms(4)] by auto
qed

lemma opener_position_dropped:
  assumes "wsl_inv s" "k < length (saved_tabs H s)"
    "\<forall>j < length (saved_tabs H s). opener (tab_opener s (saved_tabs H s ! k)) \<noteq> Some (tabs s ! (saved_tabs H s ! j))"
  shows "opener_position (GetIndexOfWebStatesToDrop H s) s (saved_tabs H s ! k) = -1"
proof (cases "opener (tab_opener s (saved_tabs H s ! k))")
  case (Some w)
  have "saved_tabs H s ! k < length (tabs s)" using assms(2) saved_tabs_props(2) nth_mem by blast
  then obtain i where i: "i < length (tabs s)" "w = tabs s ! i"
    using tab_opener_member(1) [OF assms(1) _ Some] by (auto simp: in_set_conv_nth)
  have "GetIndexOfWebState s w = int i"
    using GetIndexOfWebState_nth [OF assms(1) i(1)] i(2) by simp
  moreover have "dropped_from_session H s i"
  proof (rule ccontr)
    assume "\<not> dropped_from_session H s i"
    then have "i \<in> set (saved_tabs H s)" using i(1) saved_tabs_props(2) by blast
    then show False using assms(3) Some i(2) by (auto simp: in_set_conv_nth)
  qed
  ultimately show ?thesis using dropped_position [OF i(1)] Some by (simp add: opener_position_def)
qed (simp add: opener_position_def)

lemma int32_bounds: "0 \<le> i \<Longrightarrow> i \<le> INT_MAX \<Longrightarrow> signed_take_bit 31 i = i"
  by (simp add: signed_take_bit_int_eq_self INT_MAX_def)

lemma restored_opener_saved:
  assumes "0 \<le> c" "c + n \<le> INT_MAX" "- (2 ^ 31) \<le> nav" "nav < 2 ^ 31"
  shows "0 \<le> j \<Longrightarrow> j < n \<Longrightarrow> j \<noteq> k \<Longrightarrow> restored_opener c (c + n) (c + k) (opener_data j nav d) = Some (c + j, nav)"
    "restored_opener c (c + n) k (opener_data (-1) nav d) = None"
  using assms
  by (simp_all add: restored_opener_def opener_data_def boxed_int_def GetValueForSerializationKey_def int32_bounds
    kOpenerIndexKey_def kOpenerNavigationIndexKey_def signed_take_bit_int_eq_self add.commute)

lemma upto_map_int: "[int a..int b - 1] = map int [a..<b]"
  by (rule nth_equalityI) (auto simp: nth_upto)

text \<open>The steps of the restoration, for what \<open>Serialize_eq\<close> yields.\<close>

lemma restored_tabs_openers:
  assumes "wsl_inv s" "wsl_open b s0" "distinct ids" "set ids \<inter> set (tabs s0) = {}" "length ids = length (saved_tabs H s)"
    "count s0 + int (length ids) \<le> INT_MAX"
    "\<forall>i < length (tabs s). - (2 ^ 31) \<le> navigation_index (tab_opener s i) \<and> navigation_index (tab_opener s i) < 2 ^ 31"
    "sessions = map (saved_session E (GetIndexOfWebStatesToDrop H s) s U) (saved_tabs H s)"
  obtains s1 U1 s2 where "insert_sessions H' (zip sessions ids) s0 U0 = Inr (s1, U1)"
    "restore_openers (count s0) U1 [count s0..count s1 - 1] s1 = Inr s2" "wsl_open b s2" "tabs s2 = tabs s0 @ ids"
    "active_index s2 = active_index s0"
    "\<And>k. k < length ids \<Longrightarrow> opener_restored s (saved_tabs H s) ids k (tab_opener s2 (length (tabs s0) + k))"
proof -
  let ?rest = "zip sessions ids" and ?K = "saved_tabs H s" and ?c = "length (tabs s0)"
  have len: "length sessions = length ids" using assms(5,8) by simp
  have ids: "map snd ?rest = ids" using len by simp
  have snds: "snd ` set ?rest = set ids" using ids by (metis list.set_map)
  obtain s1 where s1: "insert_sessions H' ?rest s0 U0 = Inr (s1, restored_data ?rest U0)" "wsl_open b s1"
      "web_state_wrappers s1 = web_state_wrappers s0 @ map (WebStateWrapper \<circ> snd) ?rest" "active_index s1 = active_index s0"
    using insert_sessions_ok [OF assms(2), of ?rest H' U0] assms(3,4,6) len ids snds by auto
  have t1: "tabs s1 = tabs s0 @ ids"
    using s1(3) arg_cong [OF ids, of "map (\<lambda>w. w)"] by (simp add: tabs_def WebStateWrapper_def comp_def)
  have cnt: "count s1 = int (?c + length ids)" "count s0 = int ?c" by (simp_all add: count_tabs t1)
  let ?U = "restored_data ?rest U0"
  obtain s2 where s2: "restore_openers (count s0) ?U (map int [?c..<?c + length ids]) s1 = Inr s2" "wsl_open b s2"
      "tabs s2 = tabs s1" "active_index s2 = active_index s1"
      "\<forall>i < length (tabs s1). tab_opener s2 i = (case opener_for (count s0) ?U s1 i of
         Some op \<Rightarrow> if i \<in> set [?c..<?c + length ids] then op else tab_opener s1 i | None \<Rightarrow> tab_opener s1 i)"
    using restore_openers_ok [of "count s0" b s1 "[?c..<?c + length ids]" ?U] s1(2) t1 by (auto simp: cnt(2))
  show thesis
  proof (rule that [OF s1(1), of s2])
    show "restore_openers (count s0) ?U [count s0..count s1 - 1] s1 = Inr s2"
      using s2(1) unfolding cnt upto_map_int .
    show "wsl_open b s2" "tabs s2 = tabs s0 @ ids" "active_index s2 = active_index s0" using s2(2-4) t1 s1(4) by simp_all
  next
    fix k assume k: "k < length ids"
    let ?p = "opener_position (GetIndexOfWebStatesToDrop H s) s (?K ! k)" and ?n = "navigation_index (tab_opener s (?K ! k))"
    have "?K ! k < length (tabs s)" using nth_mem [of k ?K] saved_tabs_props(2) k assms(5) by simp
    then have nav: "- (2 ^ 31) \<le> ?n" "?n < 2 ^ 31" using assms(7) by blast+
    have kk: "tabs s1 ! (?c + k) = ids ! k" by (simp add: t1)
    have "?U (ids ! k) = created_user_data (sessions ! k)"
      using restored_data_nth [of ?rest k U0] ids assms(3) k len by simp
    then have d: "?U (tabs s1 ! (?c + k)) = opener_data ?p ?n (U (tabs s ! (?K ! k)))"
      using k assms(5) by (simp add: kk assms(8) created_user_data_def SetUserDataFromSession_def saved_session_def BuildSessionStorage_def)
    have fresh: "tab_opener s1 (?c + k) = WebStateOpenerNull"
      using k len by (simp add: tab_opener_def s1(3) nth_append tabs_def WebStateWrapper_def)
    have new: "tab_opener s2 (?c + k) = (case opener_for (count s0) ?U s1 (?c + k) of Some op \<Rightarrow> op | None \<Rightarrow> WebStateOpenerNull)"
      using s2(5) k fresh by (auto simp: t1 split: option.splits)
    have c: "0 \<le> count s0" "count s0 + int (length ids) \<le> INT_MAX" using assms(6) by (simp_all add: cnt)
    show "opener_restored s ?K ids k (tab_opener s2 (?c + k))"
      unfolding opener_restored_def
    proof (intro conjI allI impI)
      fix j assume j: "j < length ?K" "opener (tab_opener s (?K ! k)) = Some (tabs s ! (?K ! j))"
      have p: "?p = int j" "j \<noteq> k" using opener_position_saved [OF assms(1) _ j] k assms(5) by auto
      have "restored_opener (count s0) (count s0 + int (length ids)) (count s0 + int k) (opener_data (int j) ?n (U (tabs s ! (?K ! k)))) =
          Some (count s0 + int j, ?n)"
        by (rule restored_opener_saved(1) [OF c nav]) (use j(1) p(2) assms(5) in auto)
      then have "opener_for (count s0) ?U s1 (?c + k) = Some \<lparr>opener = Some (ids ! j), navigation_index = ?n\<rparr>"
        using d p(1) by (simp add: opener_for_def cnt t1 nat_add_distrib nth_append)
      then show "tab_opener s2 (?c + k) = \<lparr>opener = Some (ids ! j), navigation_index = ?n\<rparr>" using new by simp
    next
      assume "\<forall>j < length ?K. opener (tab_opener s (?K ! k)) \<noteq> Some (tabs s ! (?K ! j))"
      then have "?p = -1" using opener_position_dropped [OF assms(1)] k assms(5) by auto
      then have "opener_for (count s0) ?U s1 (?c + k) = None"
        using d restored_opener_saved(2) [OF c nav] by (simp add: opener_for_def cnt)
      then show "tab_opener s2 (?c + k) = WebStateOpenerNull" using new by simp
    qed
  qed
qed

text \<open>
  Property C13.  Saving the tabs of a window and restoring them, behind the tabs of any list, returns: the
  tabs that have entries are restored in their order, a restored tab has as opener the restored tab that
  corresponds to its opener, at the same entry, or none if the opener was not saved, and the active tab is
  the one that was active if it was saved, else some restored tab.
\<close>

theorem tab_list_round_trip:
  assumes "wsl_idle s" "wsl_idle s0" "tabs s \<noteq> [] \<longrightarrow> active_index s \<noteq> -1"
    "\<forall>i < length (tabs s). - (2 ^ 31) \<le> navigation_index (tab_opener s i) \<and> navigation_index (tab_opener s i) < 2 ^ 31"
    "distinct ids" "set ids \<inter> set (tabs s0) = {}" "length ids = length (saved_tabs H s)"
    "count s \<le> INT_MAX" "count s0 + int (length ids) \<le> INT_MAX"
  shows "\<exists>win U' s1 U1. SerializeWebStateList E H s U = Inr (win, U') \<and>
    DeserializeWebStateList H' ids win s0 U0 = Inr (s1, U1) \<and> wsl_idle s1 \<and> tabs s1 = tabs s0 @ ids \<and>
    (\<forall>k < length ids. opener_restored s (saved_tabs H s) ids k (tab_opener s1 (length (tabs s0) + k))) \<and>
    (if ids = [] then active_index s1 = active_index s0
     else \<exists>j < length ids. active_tab s1 = Some (ids ! j) \<and>
       (\<not> dropped_from_session H s (nat (active_index s)) \<longrightarrow> saved_tabs H s ! j = nat (active_index s)))"
proof -
  have inv: "wsl_inv s" using assms(1) by (simp add: wsl_idle_def)
  have none: "active_index s = -1 \<longrightarrow> saved_tabs H s = []" using assms(3) by (auto simp: saved_tabs_def)
  obtain win U' where win: "SerializeWebStateList E H s U = Inr (win, U')"
      "window_sessions win = map (saved_session E (GetIndexOfWebStatesToDrop H s) s U) (saved_tabs H s)"
      "saved_tabs H s = [] \<Longrightarrow> selected_index win = NSNotFound"
      "saved_tabs H s \<noteq> [] \<Longrightarrow> \<exists>j < length (saved_tabs H s). selected_index win = int j \<and>
         (\<not> dropped_from_session H s (nat (active_index s)) \<longrightarrow> saved_tabs H s ! j = nat (active_index s))"
    using Serialize_eq [OF inv none assms(8), of E U] by metis
  obtain s1 U1 s2 where s2: "insert_sessions H' (zip (window_sessions win) ids) s0 U0 = Inr (s1, U1)"
      "restore_openers (count s0) U1 [count s0..count s1 - 1] s1 = Inr s2" "wsl_idle s2" "tabs s2 = tabs s0 @ ids"
      "active_index s2 = active_index s0"
      "\<And>k. k < length ids \<Longrightarrow> opener_restored s (saved_tabs H s) ids k (tab_opener s2 (length (tabs s0) + k))"
    using restored_tabs_openers [OF inv assms(2) [unfolded wsl_idle_open] assms(5-7,9,4) win(2), where H' = H' and ?U0.0 = U0]
    unfolding wsl_idle_open by blast
  show ?thesis
  proof (cases "ids = []")
    case True
    then have "DeserializeWebStateList H' ids win s0 U0 = Inr (s2, U1)"
      using s2(1,2) win(3) assms(7) by (simp add: DeserializeWebStateList_def)
    then show ?thesis using win(1) s2(3-5) True by auto
  next
    case False
    then have "saved_tabs H s \<noteq> []" using assms(7) by auto
    from win(4) [OF this] obtain j where j: "j < length ids" "selected_index win = int j"
        "\<not> dropped_from_session H s (nat (active_index s)) \<longrightarrow> saved_tabs H s ! j = nat (active_index s)"
      using assms(7) by metis
    have c: "count s0 = int (length (tabs s0))" "count s2 = int (length (tabs s0) + length ids)"
      by (simp_all add: count_tabs s2(4))
    let ?i = "count s0 + int j"
    have i: "ContainsIndex s2 ?i" using j(1) by (simp add: ContainsIndex_def c)
    have a: "int (length (tabs s0) + k) \<noteq> active_index s2" for k
      using assms(2) wsl_invD(2) [of s0] s2(5) by (auto simp: wsl_idle_def active_ok_def ContainsIndex_def c)
    obtain s3 where s3: "ActivateWebStateAt ?i s2 = Inr s3" "wsl_idle s3" "tabs s3 = tabs s2"
        "active_tab s3 = Some (tabs s2 ! nat ?i)" "\<And>k. tab_opener s3 (length (tabs s0) + k) = tab_opener s2 (length (tabs s0) + k)"
      using Activate_openers [OF s2(3) [unfolded wsl_idle_open] i] a unfolding wsl_idle_open by metis
    have "int j \<noteq> NSNotFound" "int j < INT_MAX" using j(1) assms(9) by (simp_all add: c NSNotFound_def INT_MAX_def)
    then have "DeserializeWebStateList H' ids win s0 U0 = Inr (s3, U1)"
      using s2(1,2) s3(1) j(1,2) win(2) assms(7) by (simp add: DeserializeWebStateList_def)
    moreover have "active_tab s3 = Some (ids ! j)" using s3(4) by (simp add: s2(4) c nat_add_distrib nth_append)
    ultimately show ?thesis using win(1) s3(2,3,5) s2(4,6) j(1,3) False by (auto intro!: exI)
  qed
qed

definition demo_save :: "string save_env" where
  "demo_save = \<lparr>save_tabs_to_separate_files = True,
     storage_of = (\<lambda>w. \<lparr>storage_has_opener = False, storage_last_committed = 0,
       item_storages = [new_item_storage demo_web], storage_cert_policies = None, storage_user_data = None,
       storage_user_agent_type = UserAgentMOBILE, storage_stable_identifier = replicate w CHR ''t'',
       storage_last_active_time = 0\<rparr>),
     archiver = (\<lambda>S. Some (session_encode demo_web S)), to_serialize = None\<rparr>"

theorem tab_list_round_trip_witness:
  "\<exists>win U' s1 U1. SerializeWebStateList demo_save demo_heap demo_list (\<lambda>w. Map.empty) = Inr (win, U') \<and>
    DeserializeWebStateList demo_heap [1, 2, 3] win empty_web_state_list (\<lambda>w. Map.empty) = Inr (s1, U1) \<and>
    tabs s1 = [1, 2, 3] \<and> opener (tab_opener s1 1) = Some 1 \<and> opener (tab_opener s1 2) = Some 2 \<and> active_tab s1 = Some 2"
proof -
  have saved: "saved_tabs demo_heap demo_list = [0, 1, 2]"
    by (simp add: saved_tabs_def demo_tabs dropped_from_session_def demo_heap_def numeral_3_eq_3)
  have op: "tab_opener demo_list 0 = WebStateOpenerNull" "tab_opener demo_list 1 = \<lparr>opener = Some 10, navigation_index = 0\<rparr>"
      "tab_opener demo_list 2 = \<lparr>opener = Some 20, navigation_index = 0\<rparr>" "active_index demo_list = 1"
    by (simp_all add: tab_opener_def demo_list_def)
  have nav: "\<forall>i < length (tabs demo_list). - (2 ^ 31) \<le> navigation_index (tab_opener demo_list i) \<and>
      navigation_index (tab_opener demo_list i) < 2 ^ 31"
    using op by (auto simp: demo_tabs less_Suc_eq numeral_3_eq_3 numeral_2_eq_2 WebStateOpenerNull_def)
  have e: "tabs empty_web_state_list = []" by (simp add: empty_web_state_list_def tabs_def)
  have "\<exists>win U' s1 U1. SerializeWebStateList demo_save demo_heap demo_list (\<lambda>w. Map.empty) = Inr (win, U') \<and>
      DeserializeWebStateList demo_heap [1, 2, 3] win empty_web_state_list (\<lambda>w. Map.empty) = Inr (s1, U1) \<and>
      wsl_idle s1 \<and> tabs s1 = tabs empty_web_state_list @ [1, 2, 3] \<and>
      (\<forall>k < length [1, 2, 3 :: nat]. opener_restored demo_list (saved_tabs demo_heap demo_list) [1, 2, 3] k
         (tab_opener s1 (length (tabs empty_web_state_list) + k))) \<and>
      (if [1, 2, 3 :: nat] = [] then active_index s1 = active_index empty_web_state_list
       else \<exists>j < length [1, 2, 3 :: nat]. active_tab s1 = Some ([1, 2, 3] ! j) \<and>
         (\<not> dropped_from_session demo_heap demo_list (nat (active_index demo_list)) \<longrightarrow>
            saved_tabs demo_heap demo_list ! j = nat (active_index demo_list)))"
    by (rule tab_list_round_trip [OF demo_idle wsl_idle_empty]) (use nav in \<open>simp_all add: saved op e demo_tabs count_tabs INT_MAX_def\<close>)
  then obtain win U' s1 U1 where r: "SerializeWebStateList demo_save demo_heap demo_list (\<lambda>w. Map.empty) = Inr (win, U')"
      "DeserializeWebStateList demo_heap [1, 2, 3] win empty_web_state_list (\<lambda>w. Map.empty) = Inr (s1, U1)"
      "tabs s1 = tabs empty_web_state_list @ [1, 2, 3]"
      "\<forall>k < length [1, 2, 3 :: nat]. opener_restored demo_list (saved_tabs demo_heap demo_list) [1, 2, 3] k
         (tab_opener s1 (length (tabs empty_web_state_list) + k))"
      "\<exists>j < length [1, 2, 3 :: nat]. active_tab s1 = Some ([1, 2, 3] ! j) \<and>
         (\<not> dropped_from_session demo_heap demo_list (nat (active_index demo_list)) \<longrightarrow>
            saved_tabs demo_heap demo_list ! j = nat (active_index demo_list))"
    unfolding if_not_P [OF list.distinct(2)] by blast
  have "\<not> dropped_from_session demo_heap demo_list 1" by (simp add: dropped_from_session_def demo_heap_def)
  then obtain j where j: "j < 3" "active_tab s1 = Some ([1, 2, 3] ! j)" "[0, 1, 2] ! j = (1 :: nat)"
    using r(5) unfolding saved op by (auto simp: numeral_3_eq_3)
  have "j = 0 \<or> j = 1 \<or> j = 2" using j(1) by linarith
  then have "active_tab s1 = Some 2" using j(2,3) by (elim disjE) simp_all
  moreover have o: "opener_restored demo_list [0, 1, 2] [1, 2, 3] k (tab_opener s1 k)" if "k < 3" for k
    using r(4) that by (simp add: saved e)
  have "opener (tab_opener s1 1) = Some 1"
    using o [of 1, unfolded opener_restored_def, THEN conjunct1, rule_format, of 0] op(2) by (simp add: demo_tabs)
  moreover have "opener (tab_opener s1 2) = Some 2"
    using o [of 2, unfolded opener_restored_def, THEN conjunct1, rule_format, of 1] op(3) by (simp add: demo_tabs)
  moreover have "tabs s1 = [1, 2, 3]" using r(3) e by simp
  ultimately show ?thesis using r(1,2) by blast
qed

end
