(* ===== verification/Session_Restoration.thy ===== *)
theory Session_Restoration
  imports Session_Window Web_State_List_Sent
begin

text \<open>
  Restoring a saved window into the tabs of a browser, and asking for the tabs to be saved:
  \<^verbatim>\<open>chrome/browser/sessions/session_restoration_browser_agent.mm\<close> and
  \<^verbatim>\<open>chrome/browser/sessions/session_ios_factory.mm\<close>.

  The agent's state is \<open>session_agent\<close> (with the set of changed tabs of its factory object); what it asks
  of other objects is logged in \<open>agent_effects\<close>, in order.  What it reads of a tab beyond the heap of
  \<open>Web_State_List\<close> is a field of \<open>restoration_env\<close>.  The agent observes the list it restores into, from its
  creation until its browser is destroyed, so every change of the list that it makes calls it back
  (\<open>watched\<close>): the tabs it inserts, activates and closes are saved while it restores.
\<close>

section \<open>The agent\<close>

record restoration_env =
  url_is_valid :: "string \<Rightarrow> bool"
  has_pending_item :: "web_state_id \<Rightarrow> bool"
  last_committed_url :: "web_state_id \<Rightarrow> string"
  is_loading :: "web_state_id \<Rightarrow> bool"

datatype agent_effect =
    WillStartSessionRestoration nat
  | AddPlaceholderForNextNavigation web_state_id
  | FetchFavicon web_state_id string
  | SessionRestorationFinished nat "web_state_id list"
  | SaveSessionRequested bool
  | SaveSessionStateIfStale web_state_id

record session_agent =
  restoring_session :: bool
  session_identifier :: string
  restoration_observers :: "nat list"
  factory_connected :: bool
  dirty_web_states :: "string set"
  agent_effects :: "agent_effect list"

definition kChromeUINewTabURL :: string where "kChromeUINewTabURL = ''chrome://newtab/''"

definition agent_sends :: "agent_effect list \<Rightarrow> session_agent \<Rightarrow> session_agent" where
  "agent_sends es a = a\<lparr>agent_effects := agent_effects a @ es\<rparr>"

definition SetSessionID :: "string \<Rightarrow> session_agent \<Rightarrow> session_agent res" where
  "SetSessionID i a = dcheck (i \<noteq> []) ''session_identifier.length != 0'' (Inr (a\<lparr>session_identifier := i\<rparr>))"

definition agent_AddObserver :: "nat \<Rightarrow> session_agent \<Rightarrow> session_agent" where
  "agent_AddObserver ob a = a\<lparr>restoration_observers := restoration_observers a @ [ob]\<rparr>"

definition agent_RemoveObserver :: "nat \<Rightarrow> session_agent \<Rightarrow> session_agent" where
  "agent_RemoveObserver ob a = a\<lparr>restoration_observers := remove1 ob (restoration_observers a)\<rparr>"

definition IsRestoringSession :: "session_agent \<Rightarrow> bool" where
  "IsRestoringSession a = restoring_session a"

definition factory_disconnect :: "session_agent \<Rightarrow> session_agent" where
  "factory_disconnect a = a\<lparr>factory_connected := False\<rparr>"

section \<open>Saving\<close>

text \<open>The browser state and the list of the agent are those it was created with, and live.\<close>

definition CanSaveSession :: "web_state_list \<Rightarrow> bool res" where
  "CanSaveSession s =
     (if empty s then Inr True else rbind (GetActiveWebState s) (\<lambda>w. Inr (w \<noteq> None)))"

definition SaveSession :: "bool \<Rightarrow> web_state_list \<Rightarrow> session_agent \<Rightarrow> session_agent res" where
  "SaveSession immediately s a =
     dcheck (session_identifier a \<noteq> []) ''session_identifier_.length != 0''
     (rbind (CanSaveSession s) (\<lambda>can.
       Inr (if can then agent_sends (SaveSessionRequested immediately # map SaveSessionStateIfStale (tabs s)) a else a)))"

definition markWebStateDirty :: "heap \<Rightarrow> web_state_id \<Rightarrow> session_agent \<Rightarrow> session_agent" where
  "markWebStateDirty H w a = a\<lparr>dirty_web_states := insert (stable_identifier (H w)) (dirty_web_states a)\<rparr>"

text \<open>
  The session for saving: a window with the content of the tabs that changed, which are then clean.
  None stands for nil.
\<close>

definition sessionForSaving ::
    "'u save_env \<Rightarrow> heap \<Rightarrow> web_state_list \<Rightarrow> (web_state_id \<Rightarrow> user_data) \<Rightarrow> session_agent \<Rightarrow>
     ('u session_window option \<times> (web_state_id \<Rightarrow> user_data) \<times> session_agent) res" where
  "sessionForSaving E H s U a =
     (if \<not> factory_connected a then Inr (None, U, a)
      else rbind (CanSaveSession s) (\<lambda>can.
        if \<not> can then Inr (None, U, a)
        else rbind (SerializeWebStateList (E\<lparr>to_serialize := Some (dirty_web_states a)\<rparr>) H s U) (\<lambda>(window, U).
          Inr (Some window, U, a\<lparr>dirty_web_states := {}\<rparr>))))"

text \<open>The notifications after which the agent saves.\<close>

definition agent_WebStateActivatedAt ::
    "restoration_env \<Rightarrow> web_state_list \<Rightarrow> web_state_id option \<Rightarrow> session_agent \<Rightarrow> session_agent res" where
  "agent_WebStateActivatedAt G s new_web_state a =
     (if case new_web_state of None \<Rightarrow> False | Some w \<Rightarrow> is_loading G w then Inr a else SaveSession False s a)"

definition agent_WillDetachWebStateAt :: "web_state_list \<Rightarrow> int \<Rightarrow> session_agent \<Rightarrow> session_agent res" where
  "agent_WillDetachWebStateAt s index a = (if active_index s = index then Inr a else SaveSession False s a)"

definition agent_WebStateInsertedAt ::
    "restoration_env \<Rightarrow> heap \<Rightarrow> web_state_list \<Rightarrow> web_state_id \<Rightarrow> bool \<Rightarrow> session_agent \<Rightarrow> session_agent res" where
  "agent_WebStateInsertedAt G H s w activating a =
     (if activating \<or> is_loading G w then Inr a else SaveSession False s (markWebStateDirty H w a))"

definition agent_WebStateReplacedAt ::
    "restoration_env \<Rightarrow> heap \<Rightarrow> web_state_list \<Rightarrow> web_state_id \<Rightarrow> session_agent \<Rightarrow> session_agent res" where
  "agent_WebStateReplacedAt G H s new_web_state a =
     (if is_loading G new_web_state then Inr a else SaveSession False s (markWebStateDirty H new_web_state a))"

definition agent_WebStateMoved :: "restoration_env \<Rightarrow> web_state_list \<Rightarrow> web_state_id \<Rightarrow> session_agent \<Rightarrow> session_agent res" where
  "agent_WebStateMoved G s w a = (if is_loading G w then Inr a else SaveSession False s a)"

definition agent_DidFinishNavigation :: "heap \<Rightarrow> web_state_list \<Rightarrow> web_state_id \<Rightarrow> session_agent \<Rightarrow> session_agent res" where
  "agent_DidFinishNavigation H s w a = SaveSession False s (markWebStateDirty H w a)"

text \<open>
  What the agent does in the calls it gets for one operation of the list, which leads from \<open>before\<close> to
  \<open>after\<close>.  A handler reads the tabs and the active tab: those before the operation when a tab is about to be
  detached, else those the operation ends with, which are already in place when it is called (a tab that is
  inserted to be activated is left to the call for its activation).
\<close>

definition agent_told ::
    "restoration_env \<Rightarrow> heap \<Rightarrow> web_state_list \<Rightarrow> web_state_list \<Rightarrow> wsl_notification \<Rightarrow> session_agent \<Rightarrow> session_agent res" where
  "agent_told G H before after n a =
     (case n of
        WebStateInsertedAt w index activating \<Rightarrow> agent_WebStateInsertedAt G H after w activating a
      | WebStateMoved w from_index to_index \<Rightarrow> agent_WebStateMoved G after w a
      | WebStateReplacedAt old_web_state new_web_state index \<Rightarrow> agent_WebStateReplacedAt G H after new_web_state a
      | WillDetachWebStateAt w index \<Rightarrow> agent_WillDetachWebStateAt before index a
      | WebStateActivatedAt old_web_state new_web_state index reason \<Rightarrow> agent_WebStateActivatedAt G after new_web_state a
      | _ \<Rightarrow> Inr a)"

primrec agent_told_all ::
    "restoration_env \<Rightarrow> heap \<Rightarrow> web_state_list \<Rightarrow> web_state_list \<Rightarrow> wsl_notification list \<Rightarrow> session_agent \<Rightarrow> session_agent res" where
  "agent_told_all G H before after [] a = Inr a"
| "agent_told_all G H before after (n # ns) a =
     rbind (agent_told G H before after n a) (agent_told_all G H before after ns)"

text \<open>An operation of the list, of which \<open>r\<close> is the result, that the agent observes.\<close>

definition watched ::
    "restoration_env \<Rightarrow> heap \<Rightarrow> web_state_list \<Rightarrow> web_state_list res \<Rightarrow> session_agent \<Rightarrow> (web_state_list \<times> session_agent) res" where
  "watched G H s r a =
     rbind r (\<lambda>s'. rbind (agent_told_all G H s s' (sent s s') a) (\<lambda>a. Inr (s', a)))"

text \<open>The browser goes away: the agent (the observer \<open>self\<close> of the list) stops observing.\<close>

definition agent_BrowserDestroyed :: "nat \<Rightarrow> web_state_list \<Rightarrow> web_state_list" where
  "agent_BrowserDestroyed self s = RemoveObserver self s"

section \<open>Restoring\<close>

text \<open>
  The loop over the restored tabs: the tabs kept, the tabs to close (those whose session has no entries),
  and the effects.
\<close>

fun collect_restored ::
    "restoration_env \<Rightarrow> heap \<Rightarrow> 'u session_storage list \<Rightarrow> int \<Rightarrow> web_state_list \<Rightarrow> int list \<Rightarrow>
     (web_state_id list \<times> web_state_id list \<times> agent_effect list) res" where
  "collect_restored G H sessions old_count s [] = Inr ([], [], [])"
| "collect_restored G H sessions old_count s (index # is) =
     rbind (GetWebStateAt s index) (\<lambda>w.
     rbind (collect_restored G H sessions old_count s is) (\<lambda>(restored, to_remove, es).
       if item_storages (sessions ! nat (index - old_count)) = [] then Inr (restored, w # to_remove, es)
       else Inr (w # restored, to_remove,
              (if visible_url (H w) \<noteq> kChromeUINewTabURL then [AddPlaceholderForNextNavigation w] else []) @
              (if url_is_valid G (visible_url (H w)) then [FetchFavicon w (visible_url (H w))] else []) @ es)))"

fun close_tabs ::
    "restoration_env \<Rightarrow> heap \<Rightarrow> web_state_id list \<Rightarrow> web_state_list \<Rightarrow> session_agent \<Rightarrow> (web_state_list \<times> session_agent) res" where
  "close_tabs G H [] s a = Inr (s, a)"
| "close_tabs G H (w # ws) s a =
     (let index = GetIndexOfWebState s w in
      dcheck (index \<noteq> kInvalidIndex) ''index != WebStateList::kInvalidIndex''
        (rbind (watched G H s (CloseWebStateAt H index CLOSE_NO_FLAGS s) a) (\<lambda>(s, a). close_tabs G H ws s a)))"

definition clobber_ntp ::
    "restoration_env \<Rightarrow> heap \<Rightarrow> int \<Rightarrow> web_state_list \<Rightarrow> session_agent \<Rightarrow> (web_state_list \<times> session_agent \<times> bool) res" where
  "clobber_ntp G H old_count s a =
     (if old_count = 1
      then rbind (GetWebStateAt s 0) (\<lambda>w.
        if \<not> (is_realized (H w) \<and> has_pending_item G w) \<and> last_committed_url G w = kChromeUINewTabURL
        then rbind (watched G H s (CloseWebStateAt H 0 CLOSE_USER_ACTION s) a) (\<lambda>(s, a). Inr (s, a, True))
        else Inr (s, a, False))
      else Inr (s, a, False))"

text \<open>
  \<open>DeserializeWebStateList\<close> into the list the agent observes, within one batch operation.  Setting the opener of
  a tab and the two ends of a batch operation are not of interest to the agent.
\<close>

fun restore_sessions ::
    "restoration_env \<Rightarrow> heap \<Rightarrow> ('u session_storage \<times> web_state_id) list \<Rightarrow> web_state_list \<Rightarrow> (web_state_id \<Rightarrow> user_data) \<Rightarrow>
     session_agent \<Rightarrow> (web_state_list \<times> (web_state_id \<Rightarrow> user_data) \<times> session_agent) res" where
  "restore_sessions G H [] s U a = Inr (s, U, a)"
| "restore_sessions G H ((S, w) # rest) s U a =
     rbind (watched G H s (rbind (InsertWebState H (count s) w INSERT_FORCE_INDEX WebStateOpenerNull s) (\<lambda>(s, _). Inr s)) a)
       (\<lambda>(s, a). restore_sessions G H rest s (U(w := created_user_data S)) a)"

definition deserialize_watched ::
    "restoration_env \<Rightarrow> heap \<Rightarrow> web_state_id list \<Rightarrow> 'u session_window \<Rightarrow> web_state_list \<Rightarrow> (web_state_id \<Rightarrow> user_data) \<Rightarrow>
     session_agent \<Rightarrow> (web_state_list \<times> (web_state_id \<Rightarrow> user_data) \<times> session_agent) res" where
  "deserialize_watched G H ids window s U a =
     (let old_count = count s in
      rbind (restore_sessions G H (zip (window_sessions window) ids) s U a) (\<lambda>(s, U, a).
      rbind (restore_openers old_count U [old_count..count s - 1] s) (\<lambda>s.
      if selected_index window \<noteq> NSNotFound
      then dcheck (selected_index window < int (length (window_sessions window)))
             ''session_window.selectedIndex < session_window.sessions.count''
           (dcheck (selected_index window < INT_MAX) ''session_window.selectedIndex < static_cast<NSUInteger>(INT_MAX)''
             (rbind (watched G H s (ActivateWebStateAt (old_count + selected_index window) s) a) (\<lambda>(s, a). Inr (s, U, a))))
      else Inr (s, U, a))))"

definition batch_deserialize ::
    "restoration_env \<Rightarrow> heap \<Rightarrow> web_state_id list \<Rightarrow> 'u session_window \<Rightarrow> web_state_list \<Rightarrow> (web_state_id \<Rightarrow> user_data) \<Rightarrow>
     session_agent \<Rightarrow> (web_state_list \<times> (web_state_id \<Rightarrow> user_data) \<times> session_agent) res" where
  "batch_deserialize G H ids window s U a =
     dcheck (\<not> batch_operation_in_progress s) ''!batch_operation_in_progress_''
     (rbind (deserialize_watched G H ids window
               (notify WillBeginBatchOperation (s\<lparr>batch_operation_in_progress := True\<rparr>)) U a) (\<lambda>(s, U, a).
      Inr ((notify BatchOperationEnded s)\<lparr>batch_operation_in_progress := False\<rparr>, U, a)))"

text \<open>For the list it is \<open>DeserializeWebStateList\<close> in \<open>PerformBatchOperation\<close>.\<close>

lemma watched_list: "watched G H s r a = Inr (s', a') \<Longrightarrow> r = Inr s'"
  by (auto simp: watched_def res_simps)

lemma restore_sessions_list: "restore_sessions G H rest s U a = Inr (s', U', a') \<Longrightarrow> insert_sessions H rest s U = Inr (s', U')"
  by (induction rest arbitrary: s U a) (auto simp: res_simps dest!: watched_list)

lemma deserialize_watched_list:
  "deserialize_watched G H ids window s U a = Inr (s', U', a') \<Longrightarrow> DeserializeWebStateList H ids window s U = Inr (s', U')"
  by (auto simp: deserialize_watched_def DeserializeWebStateList_def res_simps Let_def split: if_splits
      dest!: restore_sessions_list watched_list)

lemma batch_deserialize_list:
  assumes "batch_deserialize G H ids window s U a = Inr (s', U', a')"
  shows "PerformBatchOperation (Some (\<lambda>s. rbind (DeserializeWebStateList H ids window s U) (\<lambda>(s, _). Inr s))) s = Inr s'"
  using assms by (auto simp: batch_deserialize_def PerformBatchOperation_def res_simps dest!: deserialize_watched_list)

definition RestoreSessionWindow ::
    "restoration_env \<Rightarrow> heap \<Rightarrow> web_state_id list \<Rightarrow> 'u session_window option \<Rightarrow> web_state_list \<Rightarrow>
     (web_state_id \<Rightarrow> user_data) \<Rightarrow> session_agent \<Rightarrow>
     (bool \<times> web_state_list \<times> (web_state_id \<Rightarrow> user_data) \<times> session_agent) res" where
  "RestoreSessionWindow G H ids window s U a =
     (case window of None \<Rightarrow> Inr (False, s, U, a)
      | Some window \<Rightarrow>
     if window_sessions window = [] then Inr (False, s, U, a)
     else
      let a = agent_sends (map WillStartSessionRestoration (restoration_observers a)) (a\<lparr>restoring_session := True\<rparr>);
          old_count = count s
      in dcheck (0 \<le> old_count) ''old_count >= 0''
      (rbind (batch_deserialize G H ids window s U a) (\<lambda>(s, U, a).
       dcheck (old_count < count s) ''web_state_list_->count() > old_count''
       (dcheck (int (length (window_sessions window)) = count s - old_count)
          ''window.sessions.count == static_cast<NSUInteger>(restored_count)''
       (rbind (collect_restored G H (window_sessions window) old_count s [old_count..count s - 1]) (\<lambda>(restored, to_remove, es).
        rbind (close_tabs G H to_remove s (agent_sends es a)) (\<lambda>(s, a).
        rbind (clobber_ntp G H old_count s a) (\<lambda>(s, a, closed_ntp_tab).
        Inr (closed_ntp_tab, s, U,
             (agent_sends (map (\<lambda>ob. SessionRestorationFinished ob restored) (restoration_observers a)) a)
               \<lparr>restoring_session := False\<rparr>)))))))))"

text \<open>The session read from the file of the agent's session, None if there is none: its windows.\<close>

definition RestoreSession ::
    "restoration_env \<Rightarrow> heap \<Rightarrow> web_state_id list \<Rightarrow> 'u session_window list option \<Rightarrow> web_state_list \<Rightarrow>
     (web_state_id \<Rightarrow> user_data) \<Rightarrow> session_agent \<Rightarrow>
     (bool \<times> web_state_list \<times> (web_state_id \<Rightarrow> user_data) \<times> session_agent) res" where
  "RestoreSession G H ids session s U a =
     dcheck (session_identifier a \<noteq> []) ''session_identifier_.length != 0''
     (case session of None \<Rightarrow> RestoreSessionWindow G H ids None s U a
      | Some windows \<Rightarrow> dcheck (length windows = 1) ''session.sessionWindows.count == 1u''
          (RestoreSessionWindow G H ids (Some (windows ! 0)) s U a))"

section \<open>What the agent saves while it restores\<close>

text \<open>The indices a window can select: those \<open>initWithSessions\<close> accepts, as an unsigned number.\<close>

definition window_ok :: "'u session_window \<Rightarrow> bool" where
  "window_ok W \<longleftrightarrow> 0 \<le> selected_index W \<and> IsIndexValidForSessionCount (selected_index W) (length (window_sessions W))"

text \<open>A tab is active unless there is none: the lists that can be saved.\<close>

definition settled :: "web_state_list \<Rightarrow> bool" where
  "settled s \<longleftrightarrow> tabs s = [] \<or> active_tab s \<noteq> None"

lemma settled_can_save:
  assumes "wsl_inv s"
  shows "CanSaveSession s = Inr (settled s)"
proof -
  have "active_index s = -1 \<or> ContainsIndex s (active_index s)" using wsl_invD(2) [OF assms] by (auto simp: active_ok_def)
  then show ?thesis
    by (auto simp: CanSaveSession_def settled_def empty_def tabs_def active_tab_def GetActiveWebState_def
        GetActiveWebStateWrapper_def GetWebStateWrapperAt_def)
qed

text \<open>What one save asks of the other objects, and the agent after saves, with the tabs that changed.\<close>

definition save_log :: "web_state_id list \<Rightarrow> agent_effect list" where
  "save_log ts = SaveSessionRequested False # map SaveSessionStateIfStale ts"

definition agent_saves :: "agent_effect list \<Rightarrow> string set \<Rightarrow> session_agent \<Rightarrow> session_agent" where
  "agent_saves es D a = a\<lparr>agent_effects := agent_effects a @ es, dirty_web_states := dirty_web_states a \<union> D\<rparr>"

lemma agent_saves_simps [simp]:
  "agent_saves [] {} a = a"
  "agent_saves es D (agent_saves fs F a) = agent_saves (fs @ es) (F \<union> D) a"
  "session_identifier (agent_saves es D a) = session_identifier a"
  "restoration_observers (agent_saves es D a) = restoration_observers a"
  "agent_effects (agent_saves es D a) = agent_effects a @ es"
  "dirty_web_states (agent_saves es D a) = dirty_web_states a \<union> D"
  by (simp_all add: agent_saves_def Un_assoc)

definition only_saves :: "agent_effect list \<Rightarrow> bool" where
  "only_saves es \<longleftrightarrow> (\<exists>tss. es = concat (map save_log tss))"

lemma only_saves_simps [simp, intro]:
  "only_saves []" "only_saves (save_log ts)" "only_saves es \<Longrightarrow> only_saves fs \<Longrightarrow> only_saves (es @ fs)"
proof -
  show "only_saves []" unfolding only_saves_def by (intro exI [of _ "[]"]) simp
  show "only_saves (save_log ts)" unfolding only_saves_def by (intro exI [of _ "[ts]"]) simp
  assume "only_saves es" "only_saves fs"
  then obtain tss uss where "es = concat (map save_log tss)" "fs = concat (map save_log uss)" by (auto simp: only_saves_def)
  then show "only_saves (es @ fs)" unfolding only_saves_def by (intro exI [of _ "tss @ uss"]) simp
qed

lemma SaveSession_eq:
  assumes "session_identifier a \<noteq> []" "wsl_inv s"
  shows "SaveSession False s a = Inr (agent_saves (if settled s then save_log (tabs s) else []) {} a)"
  using assms(1) settled_can_save [OF assms(2)]
  by (simp add: SaveSession_def agent_sends_def agent_saves_def save_log_def)

lemma markWebStateDirty_eq: "markWebStateDirty H w a = agent_saves [] {stable_identifier (H w)} a"
  by (simp add: markWebStateDirty_def agent_saves_def)

text \<open>A call that is not for a tab that comes only makes the agent save.\<close>

fun tab_comes :: "wsl_notification \<Rightarrow> bool" where
  "tab_comes (WebStateInsertedAt w i act) = True"
| "tab_comes (WebStateReplacedAt old w i) = True"
| "tab_comes _ = False"

lemma agent_told_saves:
  assumes "session_identifier a \<noteq> []" "wsl_inv s" "wsl_inv s'" "\<not> tab_comes n"
  shows "\<exists>es. agent_told G H s s' n a = Inr (agent_saves es {} a) \<and> only_saves es"
proof -
  have "\<exists>es. Inr a = Inr (agent_saves es {} a) \<and> only_saves es" by (intro exI [of _ "[]"]) simp
  moreover have "\<exists>es. SaveSession False t a = Inr (agent_saves es {} a) \<and> only_saves es" if "wsl_inv t" for t
    using SaveSession_eq [OF assms(1) that] by (intro exI [of _ "if settled t then save_log (tabs t) else []"]) simp
  ultimately show ?thesis
    using assms(2-4) by (cases n) (simp_all add: agent_told_def agent_WebStateMoved_def agent_WillDetachWebStateAt_def
        agent_WebStateActivatedAt_def)
qed

lemma agent_told_all_saves:
  "session_identifier a \<noteq> [] \<Longrightarrow> wsl_inv s \<Longrightarrow> wsl_inv s' \<Longrightarrow> \<forall>n \<in> set ns. \<not> tab_comes n \<Longrightarrow>
     \<exists>es. agent_told_all G H s s' ns a = Inr (agent_saves es {} a) \<and> only_saves es"
proof (induction ns arbitrary: a)
  case Nil
  show ?case by (intro exI [of _ "[]"]) simp
next
  case (Cons n ns)
  obtain es where es: "agent_told G H s s' n a = Inr (agent_saves es {} a)" "only_saves es"
    using agent_told_saves [OF Cons.prems(1-3)] Cons.prems(4) by force
  obtain fs where "agent_told_all G H s s' ns (agent_saves es {} a) = Inr (agent_saves fs {} (agent_saves es {} a))" "only_saves fs"
    using Cons.IH [of "agent_saves es {} a"] Cons.prems by auto
  then show ?case using es by (intro exI [of _ "es @ fs"]) simp
qed

lemma watched_close:
  assumes "CloseWebStateAt H i flags s = Inr s'" "session_identifier a \<noteq> []" "wsl_inv s" "wsl_inv s'"
  shows "\<exists>es. watched G H s (CloseWebStateAt H i flags s) a = Inr (s', agent_saves es {} a) \<and> only_saves es"
proof -
  obtain t where t: "CloseWebStateAtImpl H i flags (s\<lparr>locked := True\<rparr>) = Inr t" "s' = t\<lparr>locked := False\<rparr>"
    using assms(1) by (auto simp: CloseWebStateAt_def LockForMutation_def res_simps)
  obtain w v b ms where ms: "sends (s\<lparr>locked := True\<rparr>)
      ((WillDetachWebStateAt w i # WebStateDetachedAt w i # ms) @ [WillCloseWebStateAt v i b]) t"
      "if active_index (s\<lparr>locked := True\<rparr>) = i then activation Closed ms else ms = []"
    using CloseWebStateAtImpl_sends [OF t(1)] by blast
  have "sends s ((WillDetachWebStateAt w i # WebStateDetachedAt w i # ms) @ [WillCloseWebStateAt v i b]) s'"
    by (rule sends_frame [OF ms(1)]) (simp_all add: t(2))
  then have "sent s s' = (WillDetachWebStateAt w i # WebStateDetachedAt w i # ms) @ [WillCloseWebStateAt v i b]" by (rule sends_sent)
  moreover have "\<forall>n \<in> set ms. \<not> tab_comes n" using ms(2) by (auto simp: activation_def split: if_splits)
  ultimately have "\<forall>n \<in> set (sent s s'). \<not> tab_comes n" by simp
  from agent_told_all_saves [OF assms(2-4) this] obtain es
    where "agent_told_all G H s s' (sent s s') a = Inr (agent_saves es {} a)" "only_saves es" by blast
  then show ?thesis using assms(1) by (intro exI [of _ es]) (simp add: watched_def)
qed

text \<open>A tab that is restored is saved at once if it is not loading and some tab is active.\<close>

definition loaded :: "restoration_env \<Rightarrow> heap \<Rightarrow> web_state_id list \<Rightarrow> string set" where
  "loaded G H ws = (\<lambda>w. stable_identifier (H w)) ` {w \<in> set ws. \<not> is_loading G w}"

fun insertion_log :: "restoration_env \<Rightarrow> bool \<Rightarrow> web_state_id list \<Rightarrow> web_state_id list \<Rightarrow> agent_effect list" where
  "insertion_log G active ts [] = []"
| "insertion_log G active ts (w # ws) =
     (if is_loading G w \<or> \<not> active then [] else save_log (ts @ [w])) @ insertion_log G active (ts @ [w]) ws"

lemma watched_insert:
  assumes "wsl_open b s" "w \<notin> set (tabs s)" "count s < INT_MAX" "session_identifier a \<noteq> []"
  obtains s' where "InsertWebState H (count s) w INSERT_FORCE_INDEX WebStateOpenerNull s = Inr (s', count s)" "wsl_open b s'"
    "web_state_wrappers s' = web_state_wrappers s @ [WebStateWrapper w]" "active_index s' = active_index s"
    "tabs s' = tabs s @ [w]" "active_tab s' = active_tab s"
    "watched G H s (rbind (InsertWebState H (count s) w INSERT_FORCE_INDEX WebStateOpenerNull s) (\<lambda>(s, _). Inr s)) a =
       Inr (s', agent_saves (insertion_log G (active_tab s \<noteq> None) (tabs s) [w]) (loaded G H [w]) a)"
proof -
  obtain s' where s': "InsertWebState H (count s) w INSERT_FORCE_INDEX WebStateOpenerNull s = Inr (s', count s)" "wsl_open b s'"
      "web_state_wrappers s' = web_state_wrappers s @ [WebStateWrapper w]" "active_index s' = active_index s"
    using InsertWebState_last [OF assms(1-3)] by blast
  have inv: "wsl_inv s" "wsl_inv s'" using assms(1) s'(2) by (simp_all add: wsl_open_def)
  have ts: "tabs s' = tabs s @ [w]" using s'(3) by (simp add: tabs_def WebStateWrapper_def)
  have act: "active_tab s' = active_tab s"
    using wsl_invD(2) [OF inv(1)] s'(4) ts by (auto simp: active_tab_def active_ok_def ContainsIndex_def count_tabs nth_append)
  have flag: "\<not> IsInsertionFlagSet INSERT_FORCE_INDEX INSERT_ACTIVATE"
    by (simp add: IsInsertionFlagSet_def INSERT_FORCE_INDEX_def INSERT_ACTIVATE_def)
  obtain t where t: "InsertWebStateImpl H (count s) w INSERT_FORCE_INDEX WebStateOpenerNull (s\<lparr>locked := True\<rparr>) = Inr (t, count s)"
      "s' = t\<lparr>locked := False\<rparr>"
    using s'(1) by (auto simp: InsertWebState_def LockForMutation_def res_simps)
  have "sent s s' = [WebStateInsertedAt w (count s) False]"
    using InsertWebStateImpl_sends [OF t(1)] flag t(2) sends_sent [OF sends_frame [of "s\<lparr>locked := True\<rparr>" _ t s s']] by auto
  moreover have tab: "loaded G H [w] = (if is_loading G w then {} else {stable_identifier (H w)})" by (auto simp: loaded_def)
  ultimately have "watched G H s (rbind (InsertWebState H (count s) w INSERT_FORCE_INDEX WebStateOpenerNull s) (\<lambda>(s, _). Inr s)) a =
      Inr (s', agent_saves (insertion_log G (active_tab s \<noteq> None) (tabs s) [w]) (loaded G H [w]) a)"
    using s'(1) SaveSession_eq [of "markWebStateDirty H w a", OF _ inv(2)] assms(4) tab
    by (simp add: watched_def agent_told_def agent_WebStateInsertedAt_def markWebStateDirty_eq settled_def ts act)
  then show thesis using that s' ts act by blast
qed

lemma insertion_log_Cons: "insertion_log G active ts (w # ws) = insertion_log G active ts [w] @ insertion_log G active (ts @ [w]) ws"
  by simp

lemma loaded_Cons: "loaded G H (w # ws) = loaded G H [w] \<union> loaded G H ws"
  by (auto simp: loaded_def)

lemma restore_sessions_ok:
  "wsl_open b s \<Longrightarrow> distinct (map snd rest) \<Longrightarrow> snd ` set rest \<inter> set (tabs s) = {} \<Longrightarrow> count s + int (length rest) \<le> INT_MAX \<Longrightarrow>
     session_identifier a \<noteq> [] \<Longrightarrow>
     \<exists>s' U'. restore_sessions G H rest s U a = Inr (s', U', agent_saves
         (insertion_log G (active_tab s \<noteq> None) (tabs s) (map snd rest)) (loaded G H (map snd rest)) a) \<and>
       wsl_open b s' \<and> tabs s' = tabs s @ map snd rest \<and> active_tab s' = active_tab s"
proof (induction rest arbitrary: s U a)
  case (Cons x rest)
  obtain S w where x: "x = (S, w)" by (cases x)
  have "w \<notin> set (tabs s)" "count s < INT_MAX" using Cons.prems(3,4) x by auto
  then obtain s1 where s1: "wsl_open b s1" "tabs s1 = tabs s @ [w]" "active_tab s1 = active_tab s"
      "watched G H s (rbind (InsertWebState H (count s) w INSERT_FORCE_INDEX WebStateOpenerNull s) (\<lambda>(s, _). Inr s)) a =
        Inr (s1, agent_saves (insertion_log G (active_tab s \<noteq> None) (tabs s) [w]) (loaded G H [w]) a)"
    by (rule watched_insert [OF Cons.prems(1) _ _ Cons.prems(5), of w H G])
  have "snd ` set rest \<inter> set (tabs s1) = {}" "count s1 + int (length rest) \<le> INT_MAX" "distinct (map snd rest)"
    using Cons.prems(2-4) x s1(2) by (auto simp: count_tabs)
  moreover define a1 where "a1 = agent_saves (insertion_log G (active_tab s \<noteq> None) (tabs s) [w]) (loaded G H [w]) a"
  moreover have "session_identifier a1 \<noteq> []" using Cons.prems(5) by (simp add: a1_def)
  ultimately obtain s' U' where s': "restore_sessions G H rest s1 (U(w := created_user_data S)) a1 = Inr (s', U', agent_saves
        (insertion_log G (active_tab s1 \<noteq> None) (tabs s1) (map snd rest)) (loaded G H (map snd rest)) a1)"
      "wsl_open b s'" "tabs s' = tabs s1 @ map snd rest" "active_tab s' = active_tab s1"
    using Cons.IH [OF s1(1)] by blast
  have "restore_sessions G H (x # rest) s U a = restore_sessions G H rest s1 (U(w := created_user_data S)) a1"
    using s1(4) by (simp add: x a1_def del: insertion_log.simps)
  also note s'(1)
  also have "agent_saves (insertion_log G (active_tab s1 \<noteq> None) (tabs s1) (map snd rest)) (loaded G H (map snd rest)) a1 =
      agent_saves (insertion_log G (active_tab s \<noteq> None) (tabs s) (map snd (x # rest))) (loaded G H (map snd (x # rest))) a"
    using insertion_log_Cons [of G "active_tab s \<noteq> None" "tabs s" w "map snd rest"] loaded_Cons [of G H w "map snd rest"]
    by (simp add: x a1_def s1(2,3) del: insertion_log.simps)
  finally show ?case using s'(2-4) s1(2,3) by (intro exI conjI) (assumption | simp add: x)+
qed (simp add: loaded_def)

lemma watched_activate:
  assumes "wsl_open b s" "ContainsIndex s i" "active_tab s \<noteq> Some (tabs s ! nat i)" "session_identifier a \<noteq> []"
  obtains s' where "wsl_open b s'" "tabs s' = tabs s" "active_tab s' = Some (tabs s ! nat i)"
    "watched G H s (ActivateWebStateAt i s) a =
       Inr (s', agent_saves (if is_loading G (tabs s ! nat i) then [] else save_log (tabs s)) {} a)"
proof -
  obtain s' where s': "ActivateWebStateAt i s = Inr s'" "wsl_open b s'" "tabs s' = tabs s" "active_tab s' = Some (tabs s ! nat i)"
    using Activate_openers [OF assms(1,2)] by metis
  note l = wsl_open_locked(11,1,4,5,7,8,9) [OF assms(1)]
  let ?l = "s\<lparr>locked := True\<rparr>"
  let ?t = "?l\<lparr>web_state_wrappers := reset_active ?l, active_index := i\<rparr>"
  have act: "active_ok ?l" "active_tab ?l = active_tab s" using wsl_invD(2) [OF l(2)] by (simp_all add: active_tab_def tabs_def)
  have "ActivateWebStateAtImpl i Activated ?l = Inr (announce (active_tab s) Activated ?t)"
    using ActivateWebStateAtImpl_eq [OF _ act(1), of i Activated] assms(2) l(5) act(2) by auto
  then have eq: "s' = announce (active_tab s) Activated ?t\<lparr>locked := False\<rparr>"
    using s'(1) assms(2) by (simp add: ActivateWebStateAt_def l)
  have "active_tab s' = active_tab ?t" by (simp add: eq active_tab_def tabs_def)
  then have "sends s [WebStateActivatedAt (active_tab s) (active_tab s') i Activated] s'"
    using sends_announce [of ?t "active_tab s" Activated] assms(3) s'(4)
    by (auto simp: eq intro: sends_frame)
  then have "sent s s' = [WebStateActivatedAt (active_tab s) (active_tab s') i Activated]" by (rule sends_sent)
  moreover have "wsl_inv s'" "settled s'" using s'(2,4) by (simp_all add: wsl_open_def settled_def)
  ultimately have "watched G H s (ActivateWebStateAt i s) a =
       Inr (s', agent_saves (if is_loading G (tabs s ! nat i) then [] else save_log (tabs s)) {} a)"
    using s'(1,3,4) SaveSession_eq [OF assms(4)] by (simp add: watched_def agent_told_def agent_WebStateActivatedAt_def)
  then show thesis using that s' by blast
qed

text \<open>What is saved while the tabs \<open>ids\<close> are inserted and one of them is activated.\<close>

definition arrival_log :: "restoration_env \<Rightarrow> web_state_list \<Rightarrow> 'u session_window \<Rightarrow> web_state_id list \<Rightarrow> agent_effect list" where
  "arrival_log G s W ids = insertion_log G (active_tab s \<noteq> None) (tabs s) ids @
     (if is_loading G (ids ! nat (selected_index W)) then [] else save_log (tabs s @ ids))"

lemma deserialize_watched_ok:
  assumes "wsl_open b s" "distinct ids" "set ids \<inter> set (tabs s) = {}" "length ids = length (window_sessions W)"
    "count s + int (length ids) \<le> INT_MAX" "0 \<le> selected_index W" "selected_index W < int (length ids)" "session_identifier a \<noteq> []"
  obtains s' U' where "deserialize_watched G H ids W s U a = Inr (s', U', agent_saves (arrival_log G s W ids) (loaded G H ids) a)"
    "wsl_open b s'" "tabs s' = tabs s @ ids" "active_tab s' \<noteq> None"
proof -
  let ?rest = "zip (window_sessions W) ids" and ?c = "length (tabs s)" and ?i = "count s + selected_index W"
  have ids: "map snd ?rest = ids" using assms(4) by simp
  have snds: "snd ` set ?rest = set ids" using ids by (metis list.set_map)
  obtain s1 U1 where s1: "restore_sessions G H ?rest s U a = Inr (s1, U1, agent_saves
        (insertion_log G (active_tab s \<noteq> None) (tabs s) ids) (loaded G H ids) a)"
      "wsl_open b s1" "tabs s1 = tabs s @ ids" "active_tab s1 = active_tab s"
    using restore_sessions_ok [OF assms(1), of ?rest a G H U] assms(2,3,4,5,8) ids snds by auto
  have cnt: "count s1 = int (?c + length ids)" "count s = int ?c" by (simp_all add: count_tabs s1(3))
  obtain s2 where s2: "restore_openers (count s) U1 [count s..count s1 - 1] s1 = Inr s2" "wsl_open b s2"
      "tabs s2 = tabs s1" "active_index s2 = active_index s1"
    using restore_openers_ok [of "count s" b s1 "[?c..<?c + length ids]" U1] s1(2,3)
    by (auto simp: cnt upto_map_int simp del: of_nat_add)
  have "active_tab s2 = active_tab s1" using s2(3,4) by (simp add: active_tab_def)
  then have act: "active_tab s2 = active_tab s" using s1(4) by simp
  have sel: "nat ?i = ?c + nat (selected_index W)" using assms(6) by (simp add: cnt(2) nat_add_distrib)
  have tab: "tabs s2 ! nat ?i = ids ! nat (selected_index W)" "nat (selected_index W) < length ids"
    using assms(6,7) by (simp_all add: sel s2(3) s1(3) nth_append)
  have i: "ContainsIndex s2 ?i" using assms(6,7) by (auto simp: ContainsIndex_def count_tabs s2(3) s1(3))
  have "active_tab s2 \<noteq> Some (tabs s2 ! nat ?i)"
  proof
    assume "active_tab s2 = Some (tabs s2 ! nat ?i)"
    then have "ids ! nat (selected_index W) \<in> set (tabs s)"
      using act tab(1) wsl_invD(2) [of s] assms(1)
      by (auto simp: wsl_open_def active_tab_def active_ok_def ContainsIndex_def count_tabs split: if_splits)
    then show False using assms(3) nth_mem [OF tab(2)] by blast
  qed
  then obtain s3 where s3: "wsl_open b s3" "tabs s3 = tabs s2" "active_tab s3 = Some (tabs s2 ! nat ?i)"
      "watched G H s2 (ActivateWebStateAt ?i s2) (agent_saves (insertion_log G (active_tab s \<noteq> None) (tabs s) ids) (loaded G H ids) a) =
       Inr (s3, agent_saves (if is_loading G (tabs s2 ! nat ?i) then [] else save_log (tabs s2)) {}
         (agent_saves (insertion_log G (active_tab s \<noteq> None) (tabs s) ids) (loaded G H ids) a))"
    using watched_activate [OF s2(2) i, of "agent_saves (insertion_log G (active_tab s \<noteq> None) (tabs s) ids) (loaded G H ids) a" G H]
      assms(8) by auto
  have "selected_index W < INT_MAX" "selected_index W \<noteq> NSNotFound"
    using assms(5-7) by (simp_all add: cnt(2) NSNotFound_def INT_MAX_def)
  moreover note s3(4) [unfolded tab(1), unfolded s2(3) s1(3)]
  ultimately have "deserialize_watched G H ids W s U a = Inr (s3, U1, agent_saves (arrival_log G s W ids) (loaded G H ids) a)"
    using s1(1) s2(1) assms(4,7) by (simp add: deserialize_watched_def arrival_log_def tab(1) s2(3) s1(3))
  then show ?thesis using that [of s3 U1] s3 s2(3) s1(3) by simp
qed

lemma batch_frame:
  assumes "wsl_inv s" "\<not> locked s" "web_state_wrappers t = web_state_wrappers s" "active_index t = active_index s"
    "locked t = locked s" "mirror_of (effects t) = mirror_of (effects s)" "batch_operation_in_progress t = b"
  shows "wsl_open b t" "tabs t = tabs s" "active_tab t = active_tab s"
  using wsl_inv_frame [OF assms(1,3,4,6)] assms(2,5,7) by (simp_all add: wsl_open_def)

lemma batch_deserialize_ok:
  assumes "wsl_idle s" "distinct ids" "set ids \<inter> set (tabs s) = {}" "length ids = length (window_sessions W)"
    "count s + int (length ids) \<le> INT_MAX" "0 \<le> selected_index W" "selected_index W < int (length ids)" "session_identifier a \<noteq> []"
  obtains s' U' where "batch_deserialize G H ids W s U a = Inr (s', U', agent_saves (arrival_log G s W ids) (loaded G H ids) a)"
    "wsl_idle s'" "tabs s' = tabs s @ ids" "active_tab s' \<noteq> None"
proof -
  let ?b = "notify WillBeginBatchOperation (s\<lparr>batch_operation_in_progress := True\<rparr>)"
  have idle: "wsl_inv s" "\<not> locked s" "\<not> batch_operation_in_progress s" using assms(1) by (simp_all add: wsl_idle_def)
  have b: "wsl_open True ?b" "tabs ?b = tabs s" "active_tab ?b = active_tab s"
    using batch_frame [OF idle(1,2), of ?b True] by simp_all
  have log: "arrival_log G ?b W ids = arrival_log G s W ids" by (simp add: arrival_log_def b(2,3))
  obtain t U' where t: "deserialize_watched G H ids W ?b U a = Inr (t, U', agent_saves (arrival_log G ?b W ids) (loaded G H ids) a)"
      "wsl_open True t" "tabs t = tabs ?b @ ids" "active_tab t \<noteq> None"
    using deserialize_watched_ok [OF b(1) assms(2) _ assms(4) _ assms(6-8), of G H U] assms(3,5) by (auto simp: b(2) count_tabs)
  let ?e = "(notify BatchOperationEnded t)\<lparr>batch_operation_in_progress := False\<rparr>"
  have e: "wsl_open False ?e" "tabs ?e = tabs t" "active_tab ?e = active_tab t"
    using batch_frame [of t ?e False] t(2) by (simp_all add: wsl_open_def)
  show thesis
    by (rule that [of ?e U']) (use t e b(2,3) idle(3) log in \<open>simp_all add: batch_deserialize_def wsl_idle_open\<close>)
qed

section \<open>The tabs after a restoration\<close>

text \<open>The restored tabs that stay, and what the agent asks for each of them.\<close>

definition kept_tabs :: "'u session_window \<Rightarrow> web_state_id list \<Rightarrow> web_state_id list" where
  "kept_tabs W ids = map snd (filter (\<lambda>(S, w). item_storages S \<noteq> []) (zip (window_sessions W) ids))"

definition dropped_tabs :: "'u session_window \<Rightarrow> web_state_id list \<Rightarrow> web_state_id list" where
  "dropped_tabs W ids = map snd (filter (\<lambda>(S, w). item_storages S = []) (zip (window_sessions W) ids))"

definition restored_tab_effects :: "restoration_env \<Rightarrow> heap \<Rightarrow> web_state_id \<Rightarrow> agent_effect list" where
  "restored_tab_effects G H w =
     (if visible_url (H w) \<noteq> kChromeUINewTabURL then [AddPlaceholderForNextNavigation w] else []) @
     (if url_is_valid G (visible_url (H w)) then [FetchFavicon w (visible_url (H w))] else [])"

text \<open>The only tab before the restoration shows the new tab page and is going nowhere.\<close>

definition lone_ntp :: "restoration_env \<Rightarrow> heap \<Rightarrow> web_state_list \<Rightarrow> bool" where
  "lone_ntp G H s \<longleftrightarrow> (case tabs s of
     [w] \<Rightarrow> \<not> (is_realized (H w) \<and> has_pending_item G w) \<and> last_committed_url G w = kChromeUINewTabURL
   | _ \<Rightarrow> False)"

lemma collect_restored_eq:
  assumes "length ss = length ws"
  shows "drop k (tabs s) = ws \<Longrightarrow> k \<le> length (tabs s) \<Longrightarrow> old_count \<le> int k \<Longrightarrow> drop (k - nat old_count) sessions = ss \<Longrightarrow> 0 \<le> old_count \<Longrightarrow>
    collect_restored G H sessions old_count s (map int [k..<k + length ws]) =
     Inr (map snd (filter (\<lambda>(S, w). item_storages S \<noteq> []) (zip ss ws)),
          map snd (filter (\<lambda>(S, w). item_storages S = []) (zip ss ws)),
          concat (map (restored_tab_effects G H) (map snd (filter (\<lambda>(S, w). item_storages S \<noteq> []) (zip ss ws)))))"
  using assms
proof (induction ss ws arbitrary: k rule: list_induct2)
  case (Cons S ss w ws)
  have k: "k < length (tabs s)" using Cons.prems(1) by (metis drop_all leI list.distinct(1))
  then have w: "tabs s ! k = w" "drop (Suc k) (tabs s) = ws"
    using Cons.prems(1) by (simp_all add: Cons_nth_drop_Suc [symmetric])
  have le: "k - nat old_count < length sessions" using Cons.prems(4) by (metis drop_all leI list.distinct(1))
  then have S: "sessions ! (k - nat old_count) = S" "drop (Suc k - nat old_count) sessions = ss"
    using Cons.prems(3-5) by (simp_all add: Cons_nth_drop_Suc [symmetric] Suc_diff_le nat_le_iff)
  have n: "nat (int k - old_count) = k - nat old_count" using Cons.prems(5) by (simp add: nat_diff_distrib)
  have up: "[k..<k + length (w # ws)] = k # [Suc k..<Suc k + length ws]"
    by (simp add: upt_conv_Cons del: upt_Suc)
  show ?case
    using Cons.IH [OF w(2) _ _ S(2) Cons.prems(5)] Cons.prems(3) k
    unfolding up by (simp add: list_access w n S restored_tab_effects_def)
qed simp

lemma remove_at_filter:
  "distinct xs \<Longrightarrow> i < length xs \<Longrightarrow> remove_at i xs = filter (\<lambda>x. x \<noteq> xs ! i) xs"
proof (induction xs arbitrary: i)
  case (Cons x xs)
  show ?case
  proof (cases i)
    case 0
    have "filter (\<lambda>y. y \<noteq> x) xs = xs" using Cons.prems(1) by (auto simp: filter_id_conv)
    then show ?thesis using 0 by (simp add: remove_at_def)
  next
    case (Suc j)
    then have "xs ! j \<noteq> x" using Cons.prems by (auto simp: in_set_conv_nth)
    then show ?thesis using Suc Cons.IH [of j] Cons.prems by (auto simp: remove_at_def)
  qed
qed simp

lemma watched_close_ok:
  assumes "wsl_idle s" "ContainsIndex s i" "settled s" "session_identifier a \<noteq> []"
  shows "\<exists>s' es. watched G H s (CloseWebStateAt H i flags s) a = Inr (s', agent_saves es {} a) \<and> only_saves es \<and>
    wsl_idle s' \<and> settled s' \<and> tabs s' = filter (\<lambda>w. w \<noteq> tabs s ! nat i) (tabs s)"
proof -
  obtain s' where c: "CloseWebStateAt H i flags s = Inr s' \<and> wsl_idle s' \<and> tabs s' = remove_at (nat i) (tabs s) \<and>
      (active_index s \<noteq> i \<longrightarrow> active_tab s' = active_tab s) \<and>
      (active_index s = i \<longrightarrow> (active_tab s' = None \<longleftrightarrow> tabs s' = []))"
    using CloseWebStateAt_ok [OF assms(1) [unfolded wsl_idle_open] assms(2)] unfolding wsl_idle_open [symmetric] by (rule exE)
  then have s': "CloseWebStateAt H i flags s = Inr s'" "wsl_idle s'" "tabs s' = remove_at (nat i) (tabs s)"
      "active_index s \<noteq> i \<Longrightarrow> active_tab s' = active_tab s" "active_index s = i \<Longrightarrow> active_tab s' = None \<longleftrightarrow> tabs s' = []"
    by blast+
  have i: "nat i < length (tabs s)" using assms(2) by (auto simp: ContainsIndex_def count_tabs)
  have "distinct (tabs s)" using assms(1) wsl_invD(1) by (auto simp: wsl_idle_def)
  then have "tabs s' = filter (\<lambda>w. w \<noteq> tabs s ! nat i) (tabs s)" using s'(3) i by (simp add: remove_at_filter)
  moreover have "settled s'" using s'(4,5) assms(3) i by (cases "active_index s = i") (auto simp: settled_def)
  moreover obtain es where "watched G H s (CloseWebStateAt H i flags s) a = Inr (s', agent_saves es {} a)" "only_saves es"
    using watched_close [OF s'(1) assms(4)] assms(1) s'(2) by (auto simp: wsl_idle_def)
  ultimately show ?thesis using s'(2) by auto
qed

lemma close_tabs_ok:
  "wsl_idle s \<Longrightarrow> settled s \<Longrightarrow> distinct ws \<Longrightarrow> set ws \<subseteq> set (tabs s) \<Longrightarrow> session_identifier a \<noteq> [] \<Longrightarrow>
     \<exists>s' es. close_tabs G H ws s a = Inr (s', agent_saves es {} a) \<and> only_saves es \<and>
       wsl_idle s' \<and> settled s' \<and> tabs s' = filter (\<lambda>w. w \<notin> set ws) (tabs s)"
proof (induction ws arbitrary: s a)
  case Nil
  then show ?case by (intro exI [of _ s] exI [of _ "[]"]) simp
next
  case (Cons w ws)
  obtain i where i: "i < length (tabs s)" "tabs s ! i = w" using Cons.prems(4) by (auto simp: in_set_conv_nth)
  have x: "GetIndexOfWebState s w = int i"
    using GetIndexOfWebState_nth [of s i] i Cons.prems(1) by (simp add: wsl_idle_def)
  have c: "ContainsIndex s (int i)" using i(1) by (simp add: ContainsIndex_def count_tabs)
  obtain t es where t: "watched G H s (CloseWebStateAt H (int i) CLOSE_NO_FLAGS s) a = Inr (t, agent_saves es {} a)" "only_saves es"
      "wsl_idle t" "settled t" "tabs t = filter (\<lambda>v. v \<noteq> w) (tabs s)"
    using watched_close_ok [OF Cons.prems(1) c Cons.prems(2,5), of G H CLOSE_NO_FLAGS] i(2) by auto
  have "set ws \<subseteq> set (tabs t)" "session_identifier (agent_saves es {} a) \<noteq> []" using Cons.prems(3-5) t(5) by auto
  then obtain s' fs where s': "close_tabs G H ws t (agent_saves es {} a) = Inr (s', agent_saves fs {} (agent_saves es {} a))" "only_saves fs"
      "wsl_idle s'" "settled s'" "tabs s' = filter (\<lambda>v. v \<notin> set ws) (tabs t)"
    using Cons.IH [OF t(3,4), of "agent_saves es {} a"] Cons.prems(3) by fastforce
  have "filter (\<lambda>v. v \<notin> set ws) (tabs t) = filter (\<lambda>v. v \<notin> set (w # ws)) (tabs s)"
    unfolding t(5) by (auto intro: filter_cong)
  then show ?case using t(1,2) x s' by (intro exI [of _ s'] exI [of _ "es @ fs"]) simp
qed

lemma kept_not_dropped:
  assumes "distinct (map snd ps)"
  shows "filter (\<lambda>w. w \<notin> set (map snd (filter (\<lambda>p. \<not> P p) ps))) (map snd ps) = map snd (filter P ps)"
  using assms
proof (induction ps)
  case (Cons p ps)
  have "filter (\<lambda>x. x \<noteq> snd p \<and> Q x) (map snd ps) = filter Q (map snd ps)" for Q
    by (intro filter_cong) (use Cons.prems in \<open>auto simp del: set_map list.set_map\<close>)
  moreover have "snd p \<notin> snd ` {q \<in> set ps. Q q}" for Q using Cons.prems by auto
  ultimately show ?case using Cons.IH Cons.prems by auto
qed simp

lemma clobber_ntp_ok:
  assumes "wsl_idle t" "settled t" "tabs t = tabs s @ ws" "session_identifier a \<noteq> []"
  shows "\<exists>s' es. clobber_ntp G H (count s) t a = Inr (s', agent_saves es {} a, lone_ntp G H s) \<and> only_saves es \<and>
    wsl_idle s' \<and> settled s' \<and> tabs s' = (if lone_ntp G H s then [] else tabs s) @ ws"
proof (cases "lone_ntp G H s")
  case True
  then obtain w where w: "tabs s = [w]" by (auto simp: lone_ntp_def split: list.splits)
  have c: "ContainsIndex t 0" "tabs t ! 0 = w" using assms(3) by (simp_all add: ContainsIndex_def count_tabs w)
  have g: "GetWebStateAt t 0 = Inr w" using list_access(1) [of 0 t] assms(3) c(2) by (simp add: w)
  have "w \<notin> set ws" using assms(1) wsl_invD(1) [of t] assms(3) by (simp add: wsl_idle_def w)
  then have f: "filter (\<lambda>v. v \<noteq> tabs t ! nat 0) (tabs t) = ws" using assms(3) by (auto simp: w filter_id_conv)
  obtain u es where u: "watched G H t (CloseWebStateAt H 0 CLOSE_USER_ACTION t) a = Inr (u, agent_saves es {} a)" "only_saves es"
      "wsl_idle u" "settled u" "tabs u = ws"
    using watched_close_ok [OF assms(1) c(1) assms(2,4), of G H CLOSE_USER_ACTION] f by auto
  show ?thesis
    by (intro exI [of _ u] exI [of _ es]) (use True u g in \<open>simp add: clobber_ntp_def lone_ntp_def count_tabs w\<close>)
next
  case False
  have "clobber_ntp G H (count s) t a = Inr (t, a, False)"
  proof (cases "count s = 1")
    case True
    then obtain w where w: "tabs s = [w]" by (auto simp: count_tabs length_Suc_conv)
    have "GetWebStateAt t 0 = Inr w" using list_access(1) [of 0 t] assms(3) by (simp add: w)
    then show ?thesis using False True by (auto simp: clobber_ntp_def lone_ntp_def w)
  qed (simp add: clobber_ntp_def)
  then show ?thesis using False assms by (intro exI [of _ t] exI [of _ "[]"]) simp
qed

text \<open>
  Property C12.  Restoring any saved window into the tabs of a browser, by an agent that has the identifier of a
  session, returns, whatever user data its sessions carry: the tabs whose sessions have entries follow the
  tabs there were, in the order of the window, of which a lone tab on the new tab page is closed (and only
  then is the answer true); the list is well formed and has an active tab unless it is empty, so it can be
  saved; and the observers are told once before the first change and once after the last, with the tabs
  that stay.  Between the two the agent's own saves are the ones listed while the tabs come (of all the tabs there
  are by then, for each tab that is not loading, if some tab is active), and further ones only while tabs
  go; and the tabs that came and are not loading are marked as changed.
\<close>

theorem restore_window_correct:
  assumes "wsl_idle s" "window_ok W" "window_sessions W \<noteq> []" "distinct ids" "set ids \<inter> set (tabs s) = {}"
    "length ids = length (window_sessions W)" "count s + int (length ids) \<le> INT_MAX" "session_identifier a \<noteq> []"
  shows "\<exists>s' U' a' es. RestoreSessionWindow G H ids (Some W) s U a = Inr (lone_ntp G H s, s', U', a') \<and>
    wsl_idle s' \<and> CanSaveSession s' = Inr True \<and> \<not> restoring_session a' \<and>
    tabs s' = (if lone_ntp G H s then [] else tabs s) @ kept_tabs W ids \<and>
    agent_effects a' = agent_effects a @ map WillStartSessionRestoration (restoration_observers a) @
      arrival_log G s W ids @ concat (map (restored_tab_effects G H) (kept_tabs W ids)) @ es @
      map (\<lambda>ob. SessionRestorationFinished ob (kept_tabs W ids)) (restoration_observers a) \<and>
    only_saves es \<and> dirty_web_states a' = dirty_web_states a \<union> loaded G H ids"
proof -
  let ?S = "window_sessions W" and ?a = "agent_sends (map WillStartSessionRestoration (restoration_observers a)) (a\<lparr>restoring_session := True\<rparr>)"
  have i: "0 \<le> selected_index W" "selected_index W < int (length ids)"
    using assms(2,3,6) by (simp_all add: window_ok_def IsIndexValidForSessionCount_def)
  have a: "session_identifier ?a \<noteq> []" using assms(8) by (simp add: agent_sends_def)
  obtain t U' where t: "batch_deserialize G H ids W s U ?a = Inr (t, U', agent_saves (arrival_log G s W ids) (loaded G H ids) ?a)"
      "wsl_idle t" "tabs t = tabs s @ ids" "active_tab t \<noteq> None"
    using batch_deserialize_ok [OF assms(1,4-7) i a] by blast
  have ids: "map snd (zip ?S ids) = ids" using assms(6) by simp
  have n: "count t = int (length (tabs s) + length ids)" "count s = int (length (tabs s))" by (simp_all add: count_tabs t(3))
  have c: "collect_restored G H ?S (count s) t [count s..count t - 1] =
      Inr (kept_tabs W ids, dropped_tabs W ids, concat (map (restored_tab_effects G H) (kept_tabs W ids)))"
    unfolding n upto_map_int kept_tabs_def dropped_tabs_def
    by (rule collect_restored_eq) (use t(3) assms(6) in simp_all)
  have d: "distinct (dropped_tabs W ids)" "set (dropped_tabs W ids) \<subseteq> set ids"
    using assms(4) distinct_map_filter [of snd "zip ?S ids"] ids by (auto simp: dropped_tabs_def dest: set_zip_rightD)
  define b where "b = agent_sends (concat (map (restored_tab_effects G H) (kept_tabs W ids)))
      (agent_saves (arrival_log G s W ids) (loaded G H ids) ?a)"
  have b: "session_identifier b \<noteq> []" using a by (simp add: b_def agent_sends_def)
  have "filter (\<lambda>w. w \<notin> set (dropped_tabs W ids)) ids = kept_tabs W ids"
    using kept_not_dropped [of "zip ?S ids" "\<lambda>(S, w). item_storages S \<noteq> []"] assms(4)
    by (simp add: ids kept_tabs_def dropped_tabs_def case_prod_unfold)
  moreover have "filter (\<lambda>w. w \<notin> set (dropped_tabs W ids)) (tabs s) = tabs s"
    using d(2) assms(5) by (auto simp: filter_id_conv)
  moreover have "settled t" using t(4) by (simp add: settled_def)
  ultimately obtain u es where u: "close_tabs G H (dropped_tabs W ids) t b = Inr (u, agent_saves es {} b)" "only_saves es"
      "wsl_idle u" "settled u" "tabs u = tabs s @ kept_tabs W ids"
    using close_tabs_ok [OF t(2) _ d(1) _ b, of G H] d(2) t(3) by auto
  have "session_identifier (agent_saves es {} b) \<noteq> []" using b by simp
  from clobber_ntp_ok [OF u(3-5) this] obtain s' fs
    where s': "clobber_ntp G H (count s) u (agent_saves es {} b) = Inr (s', agent_saves fs {} (agent_saves es {} b), lone_ntp G H s)"
      "only_saves fs" "wsl_idle s'" "settled s'" "tabs s' = (if lone_ntp G H s then [] else tabs s) @ kept_tabs W ids"
    by blast
  have "CanSaveSession s' = Inr True" using settled_can_save s'(3,4) by (simp add: wsl_idle_def)
  moreover define z where "z = (agent_sends (map (\<lambda>ob. SessionRestorationFinished ob (kept_tabs W ids)) (restoration_observers b))
      (agent_saves fs {} (agent_saves es {} b)))\<lparr>restoring_session := False\<rparr>"
  moreover have "RestoreSessionWindow G H ids (Some W) s U a = Inr (lone_ntp G H s, s', U', z)"
  proof -
    have "ids \<noteq> []" "length ?S = length ids" using assms(3,6) by auto
    then show ?thesis using t(1) c u(1) s'(1) assms(3) by (simp add: RestoreSessionWindow_def n z_def b_def Let_def)
  qed
  ultimately show ?thesis
    using u(2) s'(2,3,5) by (intro exI [of _ s'] exI [of _ U'] exI [of _ z] exI [of _ "es @ fs"])
      (simp add: z_def b_def agent_sends_def)
qed

text \<open>A lone tab on the new tab page, and a window of two tabs, the first of which has no entries.\<close>

definition demo_ntp :: web_state_list where
  "demo_ntp = \<lparr>web_state_wrappers = [\<lparr>wrapped = 7, wrapper_opener = WebStateOpenerNull, should_reset_opener = False\<rparr>],
     active_index = 0, locked = False, batch_operation_in_progress = False, observers = [],
     effects = [Notify [] (WebStateInsertedAt 7 0 True), Notify [] (WebStateActivatedAt None (Some 7) 0 Inserted)]\<rparr>"

definition demo_restoration :: restoration_env where
  "demo_restoration = \<lparr>url_is_valid = (\<lambda>u. True), has_pending_item = (\<lambda>w. False),
     last_committed_url = (\<lambda>w. kChromeUINewTabURL), is_loading = (\<lambda>w. False)\<rparr>"

definition demo_window :: "string session_window" where
  "demo_window = \<lparr>window_sessions = [(storage_of demo_save 1)\<lparr>item_storages := []\<rparr>, storage_of demo_save 2],
     window_summary = None, window_contents = None, selected_index = 0\<rparr>"

definition demo_archive :: "string session_window" where
  "demo_archive = \<lparr>window_sessions = [storage_of demo_save 1, storage_of demo_save 2],
     window_summary = None, window_contents = None, selected_index = 1\<rparr>"

definition demo_agent :: session_agent where
  "demo_agent = \<lparr>restoring_session = False, session_identifier = ''s'', restoration_observers = [5], factory_connected = True,
     dirty_web_states = {}, agent_effects = []\<rparr>"

lemma demo_ntp_idle: "wsl_idle demo_ntp" "tabs demo_ntp = [7]"
  by (simp_all add: wsl_idle_def wsl_inv_def demo_ntp_def tabs_def active_tab_def active_ok_def
      ContainsIndex_def count_def openers_ok_def resets_ok_def mirror_of_def WebStateOpenerNull_def insert_at_def)

theorem restore_window_correct_witness:
  "\<exists>s' U' a' es. RestoreSessionWindow demo_restoration demo_heap [1, 2] (Some demo_window) demo_ntp (\<lambda>w. Map.empty) demo_agent =
     Inr (True, s', U', a') \<and> tabs s' = [2] \<and> CanSaveSession s' = Inr True \<and> only_saves es \<and>
     agent_effects a' = [WillStartSessionRestoration 5] @ save_log [7, 1] @ save_log [7, 1, 2] @ save_log [7, 1, 2] @
       [AddPlaceholderForNextNavigation 2, FetchFavicon 2 ''about:blank''] @ es @ [SessionRestorationFinished 5 [2]]"
proof -
  have w: "window_ok demo_window" "window_sessions demo_window \<noteq> []" "length [1, 2 :: nat] = length (window_sessions demo_window)"
    by (simp_all add: demo_window_def window_ok_def IsIndexValidForSessionCount_def)
  have n: "lone_ntp demo_restoration demo_heap demo_ntp"
    by (simp add: lone_ntp_def demo_ntp_idle(2) demo_restoration_def)
  have k: "kept_tabs demo_window [1, 2] = [2]"
    by (simp add: kept_tabs_def demo_window_def demo_save_def)
  have e: "restored_tab_effects demo_restoration demo_heap 2 = [AddPlaceholderForNextNavigation 2, FetchFavicon 2 ''about:blank'']"
    by (simp add: restored_tab_effects_def demo_heap_def demo_restoration_def kChromeUINewTabURL_def)
  have l: "arrival_log demo_restoration demo_ntp demo_window [1, 2] = save_log [7, 1] @ save_log [7, 1, 2] @ save_log [7, 1, 2]"
    by (simp add: arrival_log_def demo_ntp_idle(2) demo_restoration_def active_tab_def demo_ntp_def tabs_def)
  have a: "agent_effects demo_agent = []" "restoration_observers demo_agent = [5]" "session_identifier demo_agent \<noteq> []"
    by (simp_all add: demo_agent_def)
  show ?thesis
    using restore_window_correct [OF demo_ntp_idle(1) w(1,2) _ _ w(3) _ a(3), where G = demo_restoration and H = demo_heap
        and U = "\<lambda>w. Map.empty"] n
    by (auto simp: demo_ntp_idle(2) count_tabs INT_MAX_def k [unfolded One_nat_def] e a(1,2) l [unfolded One_nat_def])
qed

section \<open>Through the archive\<close>

text \<open>A session as \<open>BuildStorage\<close> makes it of entries with valid addresses.\<close>

definition archivable :: "'u web_env \<Rightarrow> 'u session_storage \<Rightarrow> bool" where
  "archivable G S \<longleftrightarrow> storage_stable_identifier S \<noteq> [] \<and> -1 \<le> storage_last_committed S \<and>
     storage_last_committed S < int (length (item_storages S)) \<and> length (item_storages S) \<le> 75 \<and>
     (\<forall>x \<in> set (item_storages S). plain_storage G x)"

definition decoded_session :: "'u web_env \<Rightarrow> 'u session_storage \<Rightarrow> 'u session_storage" where
  "decoded_session G S = S\<lparr>item_storages := map (decoded G) (item_storages S)\<rparr>"

lemma archivable_decode:
  assumes "urls_parse G" "archivable G S"
  shows "session_decode G u (session_encode G S) = Inr (decoded_session G S)"
  unfolding decoded_session_def
  by (rule session_decode_encode [OF assms(1)]) (use assms(2) in \<open>auto simp: archivable_def\<close>)

lemma rmap_enumerate:
  "(\<And>x u. x \<in> set xs \<Longrightarrow> f u (g x) = Inr (h x)) \<Longrightarrow> rmap (\<lambda>(i, a). f (u i) a) (enumerate n (map g xs)) = Inr (map h xs)"
  by (induction xs arbitrary: n) simp_all

lemma kept_tabs_archived:
  "window_sessions V = map (decoded_session G) (window_sessions W) \<Longrightarrow> kept_tabs V ids = kept_tabs W ids"
  by (simp add: kept_tabs_def decoded_session_def zip_map1 filter_map comp_def case_prod_unfold)

text \<open>
  Property C34.  A window of less than \<^verbatim>\<open>INT_MAX\<close> saved tabs can be archived, and what is read back selects the
  same tab and has the same sessions in the same order (up to virtual addresses that repeat the address), so
  it is one that \<open>RestoreSessionWindow\<close> restores, into the same tabs.
\<close>

theorem archived_window_restorable:
  assumes "urls_parse G" "window_ok W" "length (window_sessions W) < 2 ^ 31 - 1"
    "\<forall>S \<in> set (window_sessions W). archivable G S"
  shows "\<exists>A V. window_encode G W = Inr A \<and> window_decode G uuids A = Inr V \<and> window_ok V \<and>
    selected_index V = selected_index W \<and> window_sessions V = map (decoded_session G) (window_sessions W) \<and>
    (\<forall>ids. kept_tabs V ids = kept_tabs W ids)"
proof -
  let ?Ss = "window_sessions W" and ?i = "selected_index W"
  define A :: archive where "A = [kSelectedIndexKey \<mapsto> ArchivedInt (if ?i = NSNotFound then INT_MAX else ?i),
      kSessionsKey \<mapsto> ArchivedSessions (map (session_encode G) ?Ss)]"
  have i: "0 \<le> ?i" "IsIndexValidForSessionCount ?i (length ?Ss)" using assms(2) by (simp_all add: window_ok_def)
  have lt: "?i \<noteq> NSNotFound \<Longrightarrow> ?i < INT_MAX"
    using i(2) assms(3) by (auto simp: IsIndexValidForSessionCount_def INT_MAX_def split: if_splits)
  then have enc: "window_encode G W = Inr A"
    using i(1) by (auto simp: window_encode_def cr_encodeIndex_def A_def)
  have sel: "cr_decodeIndexForKey kSelectedIndexKey A = Inr ?i"
    using i(1) lt by (auto simp: cr_decodeIndexForKey_def decodeIntForKey_def A_def kSelectedIndexKey_def kSessionsKey_def INT_MAX_def)
  have "session_decode G u (session_encode G S) = Inr (decoded_session G S)" if "S \<in> set ?Ss" for u S
    using archivable_decode [OF assms(1)] assms(4) that by blast
  then have "rmap (\<lambda>(i, a). session_decode G (uuids i) a) (enumerate 0 (map (session_encode G) ?Ss)) = Inr (map (decoded_session G) ?Ss)"
    by (intro rmap_enumerate) simp
  then have "window_decode G uuids A = Inr \<lparr>window_sessions = map (decoded_session G) ?Ss, window_summary = None,
      window_contents = None, selected_index = ?i\<rparr>"
    using sel i(2) by (simp add: window_decode_def decodeObjectForKey_def A_def kSelectedIndexKey_def kSessionsKey_def
        initWithSessions_def)
  then show ?thesis using enc i by (auto simp: window_ok_def intro: kept_tabs_archived)
qed

theorem archived_window_restorable_witness:
  "\<exists>A V. window_encode demo_web demo_archive = Inr A \<and> window_decode demo_web (\<lambda>i. ''new'') A = Inr V \<and>
     selected_index V = 1 \<and> length (window_sessions V) = 2"
proof -
  have "urls_parse demo_web" by (simp add: urls_parse_def demo_web_def)
  moreover have "window_ok demo_archive" "length (window_sessions demo_archive) < 2 ^ 31 - 1"
      "\<forall>S \<in> set (window_sessions demo_archive). archivable demo_web S"
    by (simp_all add: demo_archive_def window_ok_def IsIndexValidForSessionCount_def archivable_def demo_save_def
        plain_storage_def plain_url_def new_item_storage_def EmptyReferrer_def)
  moreover have "selected_index demo_archive = 1" "length (window_sessions demo_archive) = 2"
    by (simp_all add: demo_archive_def)
  ultimately show ?thesis
    using archived_window_restorable [of demo_web demo_archive "\<lambda>i. ''new''"] by auto
qed

end
