(* ===== verification/Web_Thread.thy ===== *)
theory Web_Thread
  imports Event_System "HOL-Library.Word"
begin

text \<open>
  The named threads of the web layer (\<^verbatim>\<open>web/web_thread_impl.cc\<close>, \<^verbatim>\<open>web/web_sub_thread.cc\<close>,
  \<^verbatim>\<open>web/public/thread/web_thread.h\<close>, \<^verbatim>\<open>web/public/thread/web_task_traits.h\<close>): which
  identifiers are bound to a task runner, and how a task is posted to a thread by its name.

  A physical thread is a number, and so is the task runner that runs its tasks:
  \<^verbatim>\<open>BelongsToCurrentThread\<close> compares it with \<open>current_thread\<close>.  The tasks handed to task runners
  are collected in \<open>posted_tasks\<close>.  \<open>globals_lock\<close> is the global, not recursive lock:
  acquiring it while it is held is the failure \<open>deadlock\<close>.
\<close>

unbundle bit_operations_syntax

section \<open>Data\<close>

datatype WebThreadID = UI | IO | ID_COUNT

definition all_ids :: "WebThreadID list" where
  "all_ids = [UI, IO]"

fun id_index :: "WebThreadID \<Rightarrow> nat" where
  "id_index UI = 0"
| "id_index IO = 1"
| "id_index ID_COUNT = 2"

datatype WebThreadState = UNINITIALIZED | RUNNING | SHUTDOWN

datatype web_task = ClientTask nat | DeleteTask nat | CompleteInitialization WebThreadID

record posted_task =
  posted_to :: nat
  posted_task :: web_task
  posted_delay :: nat
  posted_nestable :: bool

datatype web_thread_effect = DelegateInit nat | DelegateCleanUp nat | DeletedOn nat nat

record web_threads =
  globals_created :: bool
  globals_lock :: bool
  globals_task_runners :: "WebThreadID \<Rightarrow> nat option"
  globals_states :: "WebThreadID \<Rightarrow> WebThreadState"
  executor_instance :: bool
  io_thread_delegate :: "nat option"
  current_thread :: nat
  posted_tasks :: "posted_task list"
  web_thread_log :: "web_thread_effect list"

definition initial_web_threads :: "nat \<Rightarrow> web_threads" where
  "initial_web_threads main = \<lparr>globals_created = False, globals_lock = False,
     globals_task_runners = (\<lambda>_. None), globals_states = (\<lambda>_. UNINITIALIZED), executor_instance = False,
     io_thread_delegate = None, current_thread = main, posted_tasks = [], web_thread_log = []\<rparr>"

section \<open>The global table\<close>

definition Acquire :: "web_threads \<Rightarrow> web_threads res" where
  "Acquire W = (if globals_lock W then Inl (CheckFailed ''deadlock'') else Inr (W\<lparr>globals_lock := True\<rparr>))"

definition Release :: "web_threads \<Rightarrow> web_threads" where
  "Release W = W\<lparr>globals_lock := False\<rparr>"

text \<open>\<^verbatim>\<open>g_globals.Get()\<close> creates the table on first use.\<close>

definition globals_Get :: "web_threads \<Rightarrow> web_threads" where
  "globals_Get W = W\<lparr>globals_created := True\<rparr>"

text \<open>A block under \<^verbatim>\<open>base::AutoLock\<close>.\<close>

definition with_lock :: "(web_threads \<Rightarrow> ('a \<times> web_threads) res) \<Rightarrow> web_threads \<Rightarrow> ('a \<times> web_threads) res" where
  "with_lock f W = rbind (Acquire (globals_Get W)) (\<lambda>W. rbind (f W) (\<lambda>(x, W). Inr (x, Release W)))"

definition BelongsToCurrentThread :: "nat \<Rightarrow> web_threads \<Rightarrow> bool" where
  "BelongsToCurrentThread runner W \<longleftrightarrow> runner = current_thread W"

definition on_runner :: "WebThreadID \<Rightarrow> web_threads \<Rightarrow> bool" where
  "on_runner i W = (case globals_task_runners W i of None \<Rightarrow> False | Some r \<Rightarrow> BelongsToCurrentThread r W)"

definition IsThreadInitialized :: "WebThreadID \<Rightarrow> web_threads \<Rightarrow> (bool \<times> web_threads) res" where
  "IsThreadInitialized i W =
     (if \<not> globals_created W then Inr (False, W)
      else with_lock (\<lambda>W. dcheck (i \<noteq> ID_COUNT) ''identifier < ID_COUNT''
        (Inr (globals_states W i = RUNNING, W))) W)"

definition CurrentlyOn :: "WebThreadID \<Rightarrow> web_threads \<Rightarrow> (bool \<times> web_threads) res" where
  "CurrentlyOn i = with_lock (\<lambda>W. dcheck (i \<noteq> ID_COUNT) ''identifier < ID_COUNT'' (Inr (on_runner i W, W)))"

definition GetCurrentThreadIdentifier :: "web_threads \<Rightarrow> (WebThreadID option \<times> web_threads) res" where
  "GetCurrentThreadIdentifier W =
     (if \<not> globals_created W then Inr (None, W)
      else with_lock (\<lambda>W. Inr (List.find (\<lambda>i. on_runner i W) all_ids, W)) W)"

definition GetThreadName :: "WebThreadID \<Rightarrow> string" where
  "GetThreadName i =
     (case i of UI \<Rightarrow> ''Web_UIThread'' | IO \<Rightarrow> ''Web_IOThread'' | ID_COUNT \<Rightarrow> ''Unknown Thread'')"

definition GetDCheckCurrentlyOnErrorMessage :: "string \<Rightarrow> WebThreadID \<Rightarrow> string" where
  "GetDCheckCurrentlyOnErrorMessage platform_name expected =
     (let actual_name = (if platform_name = [] then ''Unknown Thread'' else platform_name)
      in ''Must be called on '' @ GetThreadName expected @ ''; actually called on '' @ actual_name @ ''.'')"

section \<open>Posting\<close>

definition post_to_runner :: "nat \<Rightarrow> web_task \<Rightarrow> nat \<Rightarrow> bool \<Rightarrow> web_threads \<Rightarrow> web_threads" where
  "post_to_runner runner task delay nestable W = W\<lparr>posted_tasks := posted_tasks W @
     [\<lparr>posted_to = runner, posted_task = task, posted_delay = delay, posted_nestable = nestable\<rparr>]\<rparr>"

text \<open>The part of \<^verbatim>\<open>PostTaskHelper\<close> that reads the table.\<close>

definition post_if_running ::
    "WebThreadID \<Rightarrow> web_task \<Rightarrow> nat \<Rightarrow> bool \<Rightarrow> web_threads \<Rightarrow> (bool \<times> web_threads) res" where
  "post_if_running i task delay nestable W =
     (if globals_states W i = RUNNING
      then (case globals_task_runners W i of None \<Rightarrow> Inl (DCheckFailed ''task_runner'')
            | Some r \<Rightarrow> Inr (True, post_to_runner r task delay nestable W))
      else Inr (False, W))"

definition PostTaskHelper ::
    "WebThreadID \<Rightarrow> web_task \<Rightarrow> nat \<Rightarrow> bool \<Rightarrow> web_threads \<Rightarrow> (bool \<times> web_threads) res" where
  "PostTaskHelper i task delay nestable W =
     dcheck (i \<noteq> ID_COUNT) ''identifier < ID_COUNT''
       (rbind (GetCurrentThreadIdentifier W) (\<lambda>(current, W).
          let target_thread_outlives_current =
                (case current of None \<Rightarrow> False | Some c \<Rightarrow> id_index i \<le> id_index c);
              W = globals_Get W
          in rbind (if target_thread_outlives_current then Inr W else Acquire W) (\<lambda>W.
             rbind (post_if_running i task delay nestable W) (\<lambda>(accepting_tasks, W).
             Inr (accepting_tasks, if target_thread_outlives_current then W else Release W)))))"

text \<open>\<^verbatim>\<open>WebThreadTaskRunner\<close>: a task runner that knows only the name of its thread.\<close>

datatype web_thread_task_runner = WebThreadTaskRunner WebThreadID

fun RunnerPostDelayedTask ::
    "web_thread_task_runner \<Rightarrow> web_task \<Rightarrow> nat \<Rightarrow> web_threads \<Rightarrow> (bool \<times> web_threads) res" where
  "RunnerPostDelayedTask (WebThreadTaskRunner i) task delay W = PostTaskHelper i task delay True W"

fun RunnerPostNonNestableDelayedTask ::
    "web_thread_task_runner \<Rightarrow> web_task \<Rightarrow> nat \<Rightarrow> web_threads \<Rightarrow> (bool \<times> web_threads) res" where
  "RunnerPostNonNestableDelayedTask (WebThreadTaskRunner i) task delay W = PostTaskHelper i task delay False W"

fun RunsTasksInCurrentSequence :: "web_thread_task_runner \<Rightarrow> web_threads \<Rightarrow> (bool \<times> web_threads) res" where
  "RunsTasksInCurrentSequence (WebThreadTaskRunner i) W = CurrentlyOn i W"

section \<open>Task traits and the task executor\<close>

record WebTaskTraitsExtension =
  traits_web_thread :: WebThreadID
  traits_nestable :: bool

text \<open>
  The stored form: the extension id and two bytes.  A byte that names no enumerator does not parse;
  \<open>kExtensionId\<close> is the first id \<^verbatim>\<open>base\<close> leaves to embedders.
\<close>

record extension_storage =
  extension_id :: "8 word"
  extension_data :: "8 word list"

definition id_of_byte :: "8 word \<Rightarrow> WebThreadID option" where
  "id_of_byte b = (if b = 0 then Some UI else if b = 1 then Some IO else if b = 2 then Some ID_COUNT else None)"

definition Serialize :: "8 word \<Rightarrow> WebTaskTraitsExtension \<Rightarrow> extension_storage" where
  "Serialize kExtensionId x = \<lparr>extension_id = kExtensionId,
     extension_data = [word_of_nat (id_index (traits_web_thread x)), (if traits_nestable x then 1 else 0)]\<rparr>"

definition Parse :: "extension_storage \<Rightarrow> WebTaskTraitsExtension option" where
  "Parse e = (case extension_data e of
       b0 # b1 # _ \<Rightarrow> map_option (\<lambda>i. \<lparr>traits_web_thread = i, traits_nestable = (b1 \<noteq> 0)\<rparr>) (id_of_byte b0)
     | _ \<Rightarrow> None)"

datatype TaskShutdownBehavior = CONTINUE_ON_SHUTDOWN | SKIP_ON_SHUTDOWN | BLOCK_SHUTDOWN

text \<open>\<open>shutdown_behavior\<close> is \<open>None\<close> unless it was set explicitly.\<close>

record task_traits =
  traits_extension :: extension_storage
  shutdown_behavior :: "TaskShutdownBehavior option"

definition GetExtension :: "task_traits \<Rightarrow> WebTaskTraitsExtension res" where
  "GetExtension traits = (case Parse (traits_extension traits) of
     None \<Rightarrow> Inl (DCheckFailed ''GetExtension'') | Some x \<Rightarrow> Inr x)"

definition GetWebThreadIdentifier :: "8 word \<Rightarrow> task_traits \<Rightarrow> WebThreadID res" where
  "GetWebThreadIdentifier kExtensionId traits =
     dcheck (extension_id (traits_extension traits) = kExtensionId) ''extension_id''
       (rbind (GetExtension traits) (\<lambda>x.
          dcheck (traits_web_thread x \<noteq> ID_COUNT) ''web_thread_ != ID_COUNT''
            (case shutdown_behavior traits of
               None \<Rightarrow> Inr (traits_web_thread x)
             | Some b \<Rightarrow>
                 (case traits_web_thread x of
                    UI \<Rightarrow> dcheck (b = SKIP_ON_SHUTDOWN) ''Only SKIP_ON_SHUTDOWN is supported on UI thread.'' (Inr UI)
                  | IO \<Rightarrow> dcheck (b = BLOCK_SHUTDOWN) ''Only BLOCK_SHUTDOWN is supported on IO thread.'' (Inr IO)
                  | ID_COUNT \<Rightarrow> Inr ID_COUNT))))"

definition ExecutorPostDelayedTask ::
    "8 word \<Rightarrow> task_traits \<Rightarrow> web_task \<Rightarrow> nat \<Rightarrow> web_threads \<Rightarrow> (bool \<times> web_threads) res" where
  "ExecutorPostDelayedTask kExtensionId traits task delay W =
     rbind (GetWebThreadIdentifier kExtensionId traits) (\<lambda>i.
     rbind (GetExtension traits) (\<lambda>x. PostTaskHelper i task delay (traits_nestable x) W))"

definition GetTaskRunner :: "WebThreadID \<Rightarrow> web_thread_task_runner res" where
  "GetTaskRunner i = (case i of UI \<Rightarrow> Inr (WebThreadTaskRunner UI) | IO \<Rightarrow> Inr (WebThreadTaskRunner IO)
     | ID_COUNT \<Rightarrow> Inl (NotReached ''GetTaskRunner''))"

datatype thread_mode = SHARED | DEDICATED

definition CreateSingleThreadTaskRunner ::
    "8 word \<Rightarrow> task_traits \<Rightarrow> thread_mode \<Rightarrow> web_thread_task_runner res" where
  "CreateSingleThreadTaskRunner kExtensionId traits mode =
     dcheck (mode = SHARED) ''thread_mode == SHARED''
       (rbind (GetWebThreadIdentifier kExtensionId traits) GetTaskRunner)"

definition CreateInstance :: "web_threads \<Rightarrow> web_threads res" where
  "CreateInstance W = dcheck (\<not> executor_instance W) ''!g_instance'' (Inr (W\<lparr>executor_instance := True\<rparr>))"

definition ResetInstanceForTesting :: "web_threads \<Rightarrow> web_threads res" where
  "ResetInstanceForTesting W = dcheck (executor_instance W) ''g_instance'' (Inr (W\<lparr>executor_instance := False\<rparr>))"

definition GetTaskRunnerForThread :: "WebThreadID \<Rightarrow> web_threads \<Rightarrow> web_thread_task_runner res" where
  "GetTaskRunnerForThread i W =
     dcheck (i \<noteq> ID_COUNT) ''identifier < ID_COUNT''
       (dcheck (executor_instance W) ''No web task executor created.'' (GetTaskRunner i))"

text \<open>\<^verbatim>\<open>DeleteSoon\<close> of a task runner posts the deletion as a non-nestable task.\<close>

definition DeleteSoon :: "WebThreadID \<Rightarrow> nat \<Rightarrow> web_threads \<Rightarrow> (bool \<times> web_threads) res" where
  "DeleteSoon i object W = rbind (GetTaskRunnerForThread i W) (\<lambda>runner.
     RunnerPostNonNestableDelayedTask runner (DeleteTask object) 0 W)"

definition Destruct :: "WebThreadID \<Rightarrow> nat \<Rightarrow> web_threads \<Rightarrow> web_threads res" where
  "Destruct i object W = rbind (CurrentlyOn i W) (\<lambda>(here, W).
     if here then Inr (W\<lparr>web_thread_log := web_thread_log W @ [DeletedOn (current_thread W) object]\<rparr>)
     else rbind (DeleteSoon i object W) (\<lambda>(posted, W). Inr W))"

section \<open>Life cycle of a named thread\<close>

definition WebThreadImpl :: "WebThreadID \<Rightarrow> nat option \<Rightarrow> web_threads \<Rightarrow> web_threads res" where
  "WebThreadImpl i task_runner W =
     dcheck (task_runner \<noteq> None) ''task_runner''
       (rbind (with_lock (\<lambda>W.
          dcheck (i \<noteq> ID_COUNT) ''identifier_ < ID_COUNT''
            (dcheck (globals_states W i = UNINITIALIZED) ''states[identifier_] == UNINITIALIZED''
              (let W = W\<lparr>globals_states := (globals_states W)(i := RUNNING)\<rparr> in
               dcheck (globals_task_runners W i = None) ''!task_runners[identifier_]''
                 (Inr ((), W\<lparr>globals_task_runners := (globals_task_runners W)(i := task_runner)\<rparr>))))) W)
        (\<lambda>r. Inr (snd r)))"

definition destroy_WebThreadImpl :: "WebThreadID \<Rightarrow> web_threads \<Rightarrow> web_threads res" where
  "destroy_WebThreadImpl i W = rbind (with_lock (\<lambda>W.
     dcheck (globals_states W i = RUNNING) ''states[identifier_] == RUNNING''
       (Inr ((), W\<lparr>globals_states := (globals_states W)(i := SHUTDOWN)\<rparr>))) W) (\<lambda>r. Inr (snd r))"

definition ResetGlobalsForTesting :: "WebThreadID \<Rightarrow> web_threads \<Rightarrow> web_threads res" where
  "ResetGlobalsForTesting i W = rbind (with_lock (\<lambda>W.
     dcheck (globals_states W i = SHUTDOWN) ''states[identifier] == SHUTDOWN''
       (Inr ((), W\<lparr>globals_states := (globals_states W)(i := UNINITIALIZED),
                   globals_task_runners := (globals_task_runners W)(i := None)\<rparr>))) W) (\<lambda>r. Inr (snd r))"

definition SetIOThreadDelegate :: "nat option \<Rightarrow> web_threads \<Rightarrow> web_threads res" where
  "SetIOThreadDelegate d W = rbind (IsThreadInitialized IO W) (\<lambda>(up, W).
     dcheck (\<not> up) ''!IsThreadInitialized(IO)''
       (dcheck (io_thread_delegate W = None \<or> d = None) ''!g_io_thread_delegate || !delegate''
         (Inr (W\<lparr>io_thread_delegate := d\<rparr>))))"

text \<open>\<^verbatim>\<open>WebSubThread\<close>: a physical thread that is registered under a name while it runs.\<close>

record web_sub_thread =
  sub_identifier :: WebThreadID
  sub_thread :: nat
  sub_running :: bool
  sub_registered :: bool
  is_blocking_allowed_for_testing :: bool

definition AllowBlockingForTesting :: "web_sub_thread \<Rightarrow> web_sub_thread res" where
  "AllowBlockingForTesting T =
     dcheck (\<not> sub_running T) ''!IsRunning()'' (Inr (T\<lparr>is_blocking_allowed_for_testing := True\<rparr>))"

definition RegisterAsWebThread :: "web_sub_thread \<Rightarrow> web_threads \<Rightarrow> (web_sub_thread \<times> web_threads) res" where
  "RegisterAsWebThread T W =
     dcheck (sub_running T) ''IsRunning()''
       (dcheck (\<not> sub_registered T) ''!web_thread_''
         (rbind (WebThreadImpl (sub_identifier T) (Some (sub_thread T)) W) (\<lambda>W.
            Inr (T\<lparr>sub_registered := True\<rparr>,
                 post_to_runner (sub_thread T) (CompleteInitialization (sub_identifier T)) 0 True W))))"

definition CompleteInitializationOnWebThread :: "WebThreadID \<Rightarrow> web_threads \<Rightarrow> web_threads" where
  "CompleteInitializationOnWebThread i W =
     (case io_thread_delegate W of
        Some d \<Rightarrow> if i = IO then W\<lparr>web_thread_log := web_thread_log W @ [DelegateInit d]\<rparr> else W
      | None \<Rightarrow> W)"

definition CleanUp :: "web_sub_thread \<Rightarrow> web_threads \<Rightarrow> (web_sub_thread \<times> web_threads) res" where
  "CleanUp T W =
     (let W = (case io_thread_delegate W of
                 Some d \<Rightarrow> if sub_identifier T = IO
                           then W\<lparr>web_thread_log := web_thread_log W @ [DelegateCleanUp d]\<rparr> else W
               | None \<Rightarrow> W)
      in if sub_registered T
         then rbind (destroy_WebThreadImpl (sub_identifier T) W) (\<lambda>W. Inr (T\<lparr>sub_registered := False\<rparr>, W))
         else Inr (T, W))"


section \<open>Invariant\<close>

text \<open>
  The lock is free between calls; an identifier has a task runner exactly from its construction on,
  also after it has been shut down; and before the table exists nothing is registered.
\<close>

definition web_threads_inv :: "web_threads \<Rightarrow> bool" where
  "web_threads_inv W \<longleftrightarrow> \<not> globals_lock W \<and>
     (\<forall>i. globals_states W i = UNINITIALIZED \<longleftrightarrow> globals_task_runners W i = None) \<and>
     globals_states W ID_COUNT = UNINITIALIZED \<and>
     (\<not> globals_created W \<longrightarrow> (\<forall>i. globals_states W i = UNINITIALIZED))"

lemma web_threads_invD:
  assumes "web_threads_inv W"
  shows "\<not> globals_lock W" "globals_states W i = UNINITIALIZED \<longleftrightarrow> globals_task_runners W i = None"
    "globals_states W ID_COUNT = UNINITIALIZED" "\<not> globals_created W \<Longrightarrow> globals_states W i = UNINITIALIZED"
  using assms by (auto simp: web_threads_inv_def)

datatype web_thread_op =
    OpConstruct WebThreadID nat
  | OpDestroy WebThreadID
  | OpResetForTesting WebThreadID
  | OpPost WebThreadID web_task nat bool
  | OpDestruct WebThreadID nat
  | OpSetIODelegate "nat option"
  | OpCreateExecutor
  | OpSwitchThread nat

fun web_thread_exec :: "web_thread_op \<Rightarrow> web_threads \<Rightarrow> web_threads res" where
  "web_thread_exec (OpConstruct i r) W = WebThreadImpl i (Some r) W"
| "web_thread_exec (OpDestroy i) W = destroy_WebThreadImpl i W"
| "web_thread_exec (OpResetForTesting i) W = ResetGlobalsForTesting i W"
| "web_thread_exec (OpPost i task delay n) W = rbind (PostTaskHelper i task delay n W) (\<lambda>r. Inr (snd r))"
| "web_thread_exec (OpDestruct i object) W = Destruct i object W"
| "web_thread_exec (OpSetIODelegate d) W = SetIOThreadDelegate d W"
| "web_thread_exec OpCreateExecutor W = CreateInstance W"
| "web_thread_exec (OpSwitchThread n) W = Inr (W\<lparr>current_thread := n\<rparr>)"

fun web_thread_pre :: "web_thread_op \<Rightarrow> web_threads \<Rightarrow> bool" where
  "web_thread_pre (OpConstruct i r) W \<longleftrightarrow> i \<noteq> ID_COUNT \<and> globals_states W i = UNINITIALIZED"
| "web_thread_pre (OpDestroy i) W \<longleftrightarrow> globals_states W i = RUNNING"
| "web_thread_pre (OpResetForTesting i) W \<longleftrightarrow> globals_states W i = SHUTDOWN"
| "web_thread_pre (OpPost i task delay n) W \<longleftrightarrow> i \<noteq> ID_COUNT"
| "web_thread_pre (OpDestruct i object) W \<longleftrightarrow> i \<noteq> ID_COUNT \<and> executor_instance W"
| "web_thread_pre (OpSetIODelegate d) W \<longleftrightarrow>
     globals_states W IO \<noteq> RUNNING \<and> (io_thread_delegate W = None \<or> d = None)"
| "web_thread_pre OpCreateExecutor W \<longleftrightarrow> \<not> executor_instance W"
| "web_thread_pre (OpSwitchThread n) W \<longleftrightarrow> True"

abbreviation web_threads_reachable :: "web_threads \<Rightarrow> bool" where
  "web_threads_reachable \<equiv> reachable_from (\<lambda>W. \<exists>main. W = initial_web_threads main) web_thread_pre web_thread_exec"

named_theorems web_thread_defs \<open>definitions of the table and its lock\<close>

lemmas [web_thread_defs] = with_lock_def Acquire_def Release_def globals_Get_def

definition posted :: "WebThreadID \<Rightarrow> web_task \<Rightarrow> nat \<Rightarrow> bool \<Rightarrow> web_threads \<Rightarrow> web_threads" where
  "posted i task delay nestable W =
     (case globals_task_runners W i of
        Some r \<Rightarrow> if globals_states W i = RUNNING then post_to_runner r task delay nestable W else W
      | None \<Rightarrow> W)"

lemma posted_fields [simp]:
  "globals_lock (posted i task delay n W) = globals_lock W"
  "globals_created (posted i task delay n W) = globals_created W"
  "globals_states (posted i task delay n W) = globals_states W"
  "globals_task_runners (posted i task delay n W) = globals_task_runners W"
  "current_thread (posted i task delay n W) = current_thread W"
  "web_thread_log (posted i task delay n W) = web_thread_log W"
  "executor_instance (posted i task delay n W) = executor_instance W"
  by (simp_all add: posted_def post_to_runner_def split: option.split)

lemma lock_free: "\<not> globals_lock W \<Longrightarrow> W\<lparr>globals_lock := False\<rparr> = W"
  by simp

lemma touched_free: "globals_created W \<Longrightarrow> \<not> globals_lock W \<Longrightarrow> W\<lparr>globals_created := True, globals_lock := False\<rparr> = W"
  by simp

lemma current_thread_ok:
  assumes "\<not> globals_lock W"
  obtains c where "GetCurrentThreadIdentifier W = Inr (c, W)"
proof (cases "globals_created W")
  case True
  then show ?thesis using assms touched_free that
    by (simp add: GetCurrentThreadIdentifier_def web_thread_defs)
qed (use that in \<open>simp add: GetCurrentThreadIdentifier_def\<close>)

lemma post_if_running_eq:
  assumes "globals_states W i = UNINITIALIZED \<longleftrightarrow> globals_task_runners W i = None"
  shows "post_if_running i task delay n W = Inr (globals_states W i = RUNNING, posted i task delay n W)"
  using assms by (auto simp: post_if_running_def posted_def split: option.split)

lemma posted_lock:
  "(posted i task delay n (W\<lparr>globals_lock := b\<rparr>))\<lparr>globals_lock := c\<rparr> = posted i task delay n (W\<lparr>globals_lock := c\<rparr>)"
  by (simp add: posted_def post_to_runner_def split: option.split)

lemma with_lock_post:
  assumes "web_threads_inv W"
  shows "with_lock (post_if_running i task delay n) W =
    Inr (globals_states W i = RUNNING, posted i task delay n (W\<lparr>globals_created := True\<rparr>))"
proof -
  let ?W = "W\<lparr>globals_created := True\<rparr>"
  have free: "?W\<lparr>globals_lock := False\<rparr> = ?W" using web_threads_invD(1) [OF assms] by (simp add: lock_free)
  have "post_if_running i task delay n (?W\<lparr>globals_lock := True\<rparr>) =
      Inr (globals_states W i = RUNNING, posted i task delay n (?W\<lparr>globals_lock := True\<rparr>))"
    using web_threads_invD(2) [OF assms] by (simp add: post_if_running_eq)
  moreover have "(posted i task delay n (?W\<lparr>globals_lock := True\<rparr>))\<lparr>globals_lock := False\<rparr> = posted i task delay n ?W"
    unfolding posted_lock free ..
  ultimately show ?thesis using web_threads_invD(1) [OF assms] by (simp add: web_thread_defs)
qed

lemma PostTaskHelper_eq:
  assumes "web_threads_inv W" "i \<noteq> ID_COUNT"
  shows "PostTaskHelper i task delay n W =
    Inr (globals_states W i = RUNNING, posted i task delay n (W\<lparr>globals_created := True\<rparr>))"
proof -
  note inv = web_threads_invD [OF assms(1)]
  let ?W = "W\<lparr>globals_created := True\<rparr>"
  obtain c where c: "GetCurrentThreadIdentifier W = Inr (c, W)" by (rule current_thread_ok [OF inv(1)])
  have unlocked: "post_if_running i task delay n ?W = Inr (globals_states W i = RUNNING, posted i task delay n ?W)"
    using inv(2) by (simp add: post_if_running_eq)
  note locked = with_lock_post [OF assms(1), of i task delay n]
  define fast where "fast = (case c of None \<Rightarrow> False | Some c \<Rightarrow> id_index i \<le> id_index c)"
  have "PostTaskHelper i task delay n W =
      (if fast then rbind (post_if_running i task delay n ?W) (\<lambda>(b, W). Inr (b, W))
       else with_lock (post_if_running i task delay n) W)"
    using assms(2) c by (simp add: PostTaskHelper_def fast_def [symmetric] with_lock_def globals_Get_def)
  then show ?thesis using unlocked locked by simp
qed

lemma posted_inv:
  assumes "web_threads_inv W"
  shows "web_threads_inv (posted i task delay n (W\<lparr>globals_created := True\<rparr>))"
  using assms by (simp add: web_threads_inv_def)

lemma CurrentlyOn_eq:
  assumes "web_threads_inv W" "i \<noteq> ID_COUNT"
  shows "CurrentlyOn i W = Inr (globals_task_runners W i = Some (current_thread W), W\<lparr>globals_created := True\<rparr>)"
  using web_threads_invD(1) [OF assms(1)] assms(2)
  by (auto simp: CurrentlyOn_def web_thread_defs on_runner_def BelongsToCurrentThread_def split: option.split)

lemma DeleteSoon_eq:
  assumes "web_threads_inv W" "i \<noteq> ID_COUNT" "executor_instance W"
  shows "DeleteSoon i object W =
    Inr (globals_states W i = RUNNING, posted i (DeleteTask object) 0 False (W\<lparr>globals_created := True\<rparr>))"
  using PostTaskHelper_eq [OF assms(1,2)] assms(2,3)
  by (cases i) (simp_all add: DeleteSoon_def GetTaskRunnerForThread_def GetTaskRunner_def)

lemma Destruct_eq:
  assumes "web_threads_inv W" "i \<noteq> ID_COUNT" "executor_instance W"
  shows "Destruct i object W = Inr
    (if globals_task_runners W i = Some (current_thread W)
     then W\<lparr>globals_created := True, web_thread_log := web_thread_log W @ [DeletedOn (current_thread W) object]\<rparr>
     else posted i (DeleteTask object) 0 False (W\<lparr>globals_created := True\<rparr>))"
proof -
  have "web_threads_inv (W\<lparr>globals_created := True\<rparr>)" using assms(1) by (simp add: web_threads_inv_def)
  then show ?thesis using CurrentlyOn_eq [OF assms(1,2)] DeleteSoon_eq [of "W\<lparr>globals_created := True\<rparr>" i object] assms(2,3)
    by (simp add: Destruct_def)
qed

lemma web_thread_exec_inv:
  assumes inv: "web_threads_inv W" and pre: "web_thread_pre op W"
  shows "\<exists>W'. web_thread_exec op W = Inr W' \<and> web_threads_inv W'"
proof (cases op)
  case (OpPost i task delay n)
  then show ?thesis using PostTaskHelper_eq [OF inv] posted_inv [OF inv] pre by simp
next
  case (OpDestruct i object)
  have "web_threads_inv (W\<lparr>globals_created := True, web_thread_log := l\<rparr>)" for l
    using inv by (simp add: web_threads_inv_def)
  then show ?thesis using OpDestruct Destruct_eq [OF inv] posted_inv [OF inv] pre by simp
next
  case (OpConstruct i r)
  then show ?thesis using inv pre
    by (auto simp: WebThreadImpl_def web_thread_defs web_threads_inv_def)
next
  case (OpDestroy i)
  then show ?thesis using inv pre
    by (simp add: destroy_WebThreadImpl_def web_thread_defs web_threads_inv_def) (metis WebThreadState.distinct(1) not_None_eq)
next
  case (OpResetForTesting i)
  then show ?thesis using inv pre
    by (simp add: ResetGlobalsForTesting_def web_thread_defs web_threads_inv_def)
next
  case (OpSetIODelegate d)
  then show ?thesis using inv pre
    by (auto simp: SetIOThreadDelegate_def IsThreadInitialized_def web_thread_defs web_threads_inv_def)
next
  case OpCreateExecutor
  then show ?thesis using inv pre by (simp add: CreateInstance_def web_threads_inv_def)
next
  case (OpSwitchThread n)
  then show ?thesis using inv by (simp add: web_threads_inv_def)
qed

interpretation threads: event_system "\<lambda>W. \<exists>main. W = initial_web_threads main"
  web_thread_pre web_thread_exec web_threads_inv
proof unfold_locales
  show "web_threads_inv W" if "\<exists>main. W = initial_web_threads main" for W
    using that by (auto simp: initial_web_threads_def web_threads_inv_def)
qed (rule web_thread_exec_inv)

section \<open>Properties\<close>

text \<open>A program with both threads up, on the physical threads 1 and 2, running on the second.\<close>

definition demo_threads :: web_threads where
  "demo_threads = (initial_web_threads 1)\<lparr>globals_created := True,
     globals_task_runners := (\<lambda>_. None)(UI := Some 1, IO := Some 2),
     globals_states := (\<lambda>_. UNINITIALIZED)(UI := RUNNING, IO := RUNNING), executor_instance := True, current_thread := 2\<rparr>"

lemma demo_threads_reachable: "web_threads_reachable demo_threads"
proof -
  let ?W0 = "(initial_web_threads 1)\<lparr>executor_instance := True\<rparr>"
  let ?W1 = "?W0\<lparr>globals_created := True, globals_task_runners := (\<lambda>_. None)(UI := Some 1),
    globals_states := (\<lambda>_. UNINITIALIZED)(UI := RUNNING)\<rparr>"
  let ?W2 = "demo_threads\<lparr>current_thread := 1\<rparr>"
  have "web_threads_reachable ?W0"
    by (rule reachable_from.step [OF reachable_from.start, of _ "initial_web_threads 1" _ OpCreateExecutor])
      (simp_all add: initial_web_threads_def CreateInstance_def)
  then have "web_threads_reachable ?W1"
    by (rule reachable_from.step [of _ _ _ _ "OpConstruct UI 1"])
      (simp_all add: initial_web_threads_def WebThreadImpl_def web_thread_defs)
  then have "web_threads_reachable ?W2"
    by (rule reachable_from.step [of _ _ _ _ "OpConstruct IO 2"])
      (simp_all add: demo_threads_def initial_web_threads_def WebThreadImpl_def web_thread_defs)
  then show ?thesis
    by (rule reachable_from.step [of _ _ _ _ "OpSwitchThread 2"]) (simp_all add: demo_threads_def)
qed

text \<open>
  Property C27.  Whatever happened before, every operation on the named threads whose requirements hold
  returns: no assertion fails, the lock is never acquired twice and is free again afterwards.
\<close>

theorem web_thread_operations_safe:
  assumes "web_threads_reachable W" "web_thread_pre op W"
  shows "\<exists>W'. web_thread_exec op W = Inr W' \<and> web_threads_reachable W' \<and> \<not> globals_lock W'"
proof -
  obtain W' where "web_thread_exec op W = Inr W'" "web_threads_inv W'"
    using web_thread_exec_inv [OF threads.reachable_inv [OF assms(1)] assms(2)] by blast
  then show ?thesis using reachable_from.step [OF assms] web_threads_invD(1) by blast
qed

theorem web_thread_operations_safe_witness:
  "\<exists>W'. web_thread_exec (OpDestroy IO) demo_threads = Inr W' \<and> web_threads_reachable W' \<and> \<not> globals_lock W'"
  by (rule web_thread_operations_safe [OF demo_threads_reachable]) (simp add: demo_threads_def)

text \<open>
  Property C26.  A task posted to a named thread is accepted exactly while the thread runs, from its
  construction to its destruction, and is then handed once to the task runner registered for it, last
  and with the delay and the nesting asked for; the table is left as it was.
\<close>

theorem post_task_delivered:
  assumes "web_threads_reachable W" "i \<noteq> ID_COUNT"
  shows "\<exists>accepted W'. PostTaskHelper i task delay n W = Inr (accepted, W') \<and>
    (accepted \<longleftrightarrow> globals_states W i = RUNNING) \<and>
    globals_states W' = globals_states W \<and> globals_task_runners W' = globals_task_runners W \<and>
    posted_tasks W' = posted_tasks W @ (if accepted then
      [\<lparr>posted_to = the (globals_task_runners W i), posted_task = task, posted_delay = delay, posted_nestable = n\<rparr>] else [])"
proof -
  note inv = threads.reachable_inv [OF assms(1)]
  have "globals_states W i = RUNNING \<Longrightarrow> \<exists>r. globals_task_runners W i = Some r"
    using web_threads_invD(2) [OF inv, of i] by auto
  then show ?thesis using PostTaskHelper_eq [OF inv assms(2)]
    by (auto simp: posted_def post_to_runner_def split: option.split)
qed

theorem post_task_delivered_witness:
  "\<exists>accepted W'. PostTaskHelper UI (ClientTask 5) 0 True demo_threads = Inr (accepted, W') \<and> accepted \<and>
     posted_tasks W' = [\<lparr>posted_to = 1, posted_task = ClientTask 5, posted_delay = 0, posted_nestable = True\<rparr>]"
proof -
  have facts: "globals_states demo_threads UI = RUNNING" "globals_task_runners demo_threads UI = Some 1"
    "posted_tasks demo_threads = []" by (simp_all add: demo_threads_def initial_web_threads_def)
  show ?thesis using post_task_delivered [OF demo_threads_reachable, of UI "ClientTask 5" 0 True] facts by auto
qed

text \<open>
  An object bound to a thread is deleted on no other thread: at once if the current thread
  is the named one, otherwise by a non-nestable task posted to it, and not at all when the thread no
  longer takes tasks.
\<close>

theorem destruct_on_own_thread:
  assumes "web_threads_reachable W" "i \<noteq> ID_COUNT" "executor_instance W"
  shows "\<exists>W'. Destruct i object W = Inr W' \<and>
    (if globals_task_runners W i = Some (current_thread W)
     then web_thread_log W' = web_thread_log W @ [DeletedOn (current_thread W) object] \<and> posted_tasks W' = posted_tasks W
     else web_thread_log W' = web_thread_log W \<and> posted_tasks W' = posted_tasks W @
       (if globals_states W i = RUNNING then [\<lparr>posted_to = the (globals_task_runners W i),
          posted_task = DeleteTask object, posted_delay = 0, posted_nestable = False\<rparr>] else []))"
proof -
  note inv = threads.reachable_inv [OF assms(1)]
  have "globals_states W i = RUNNING \<Longrightarrow> \<exists>r. globals_task_runners W i = Some r"
    using web_threads_invD(2) [OF inv, of i] by auto
  then show ?thesis using Destruct_eq [OF inv assms(2,3)]
    by (auto simp: posted_def post_to_runner_def split: option.split)
qed

theorem destruct_on_own_thread_witness:
  "\<exists>W'. Destruct UI 9 demo_threads = Inr W' \<and> web_thread_log W' = [] \<and>
     posted_tasks W' = [\<lparr>posted_to = 1, posted_task = DeleteTask 9, posted_delay = 0, posted_nestable = False\<rparr>]"
proof -
  have facts: "globals_states demo_threads UI = RUNNING" "globals_task_runners demo_threads UI = Some 1"
    "current_thread demo_threads = 2" "posted_tasks demo_threads = []" "web_thread_log demo_threads = []"
    "executor_instance demo_threads"
    by (simp_all add: demo_threads_def initial_web_threads_def)
  show ?thesis using destruct_on_own_thread [OF demo_threads_reachable, of UI 9] facts by simp
qed

text \<open>
  Task traits survive their serialization into two bytes, and a task posted with traits
  that name a thread goes to that thread with the nesting they ask for.
\<close>

lemma traits_round_trip:
  "Parse (Serialize k x) = Some x \<and>
   (traits_web_thread x = ID_COUNT \<or>
    ExecutorPostDelayedTask k \<lparr>traits_extension = Serialize k x, shutdown_behavior = None\<rparr> task delay W =
      PostTaskHelper (traits_web_thread x) task delay (traits_nestable x) W)"
proof -
  have parse: "Parse (Serialize k x) = Some x"
    by (cases "traits_web_thread x") (simp_all add: Parse_def Serialize_def id_of_byte_def)
  have "extension_id (Serialize k x) = k" by (simp add: Serialize_def)
  with parse show ?thesis
    by (cases "traits_web_thread x = ID_COUNT")
      (simp_all add: ExecutorPostDelayedTask_def GetWebThreadIdentifier_def GetExtension_def)
qed

end
