(* ===== verification/Certificate_Policies.thy ===== *)
theory Certificate_Policies
  imports Event_System Web_Thread "HOL-Library.Word"
begin

unbundle bit_operations_syntax

text \<open>
  Exceptions for bad certificates: \<^verbatim>\<open>web/security/cert_policy.cc\<close>, \<^verbatim>\<open>certificate_policy_cache.cc\<close>,
  \<^verbatim>\<open>crw_cert_verification_controller.mm\<close>, the exceptions saved with a tab
  (\<^verbatim>\<open>web/session/session_certificate_policy_cache_impl.mm\<close>) and their clean-up
  (\<^verbatim>\<open>chrome/browser/web/certificate_policy_app_agent.mm\<close>).

  A function that may run on one thread only has the thread as an argument.  Tasks posted to the IO
  thread and to the UI thread are in two queues; \<open>RunIO\<close> and \<open>RunUI\<close> run the first of them.  What the
  code gets from elsewhere is in \<open>cert_env\<close>: the fingerprint of a chain, the status for an error of
  the system, the first certificate of a trust object, the order in which a set is enumerated, and the tabs.
\<close>

section \<open>Policies\<close>

type_synonym cert_status = "32 word"

record x509 =
  cert_buffer :: string
  intermediate_buffers :: "string list"

datatype cert_judgment = JudgmentUNKNOWN | JudgmentALLOWED | JudgmentDENIED

type_synonym 'h cert_policy = "'h \<Rightarrow> cert_status option"

definition cert_Check :: "(x509 \<Rightarrow> 'h) \<Rightarrow> 'h cert_policy \<Rightarrow> x509 \<Rightarrow> cert_status \<Rightarrow> cert_judgment" where
  "cert_Check fingerprint allowed cert error =
     (case allowed (fingerprint cert) of
        Some status \<Rightarrow>
          if status AND error \<noteq> 0 \<and> (NOT (status AND error)) XOR (NOT error) = 0 then JudgmentALLOWED else JudgmentUNKNOWN
      | None \<Rightarrow> JudgmentUNKNOWN)"

definition cert_Allow :: "(x509 \<Rightarrow> 'h) \<Rightarrow> x509 \<Rightarrow> cert_status \<Rightarrow> 'h cert_policy \<Rightarrow> 'h cert_policy" where
  "cert_Allow fingerprint cert error allowed = allowed(fingerprint cert \<mapsto> error)"

type_synonym 'h policy_cache = "string \<Rightarrow> 'h cert_policy option"

text \<open>\<^verbatim>\<open>operator[]\<close> makes an empty policy for a host that has none.\<close>

definition policy_for_host :: "'h policy_cache \<Rightarrow> string \<Rightarrow> 'h cert_policy" where
  "policy_for_host P host = (case P host of None \<Rightarrow> Map.empty | Some p \<Rightarrow> p)"

definition AllowCertForHost ::
    "(x509 \<Rightarrow> 'h) \<Rightarrow> WebThreadID \<Rightarrow> x509 \<Rightarrow> string \<Rightarrow> cert_status \<Rightarrow> 'h policy_cache \<Rightarrow> 'h policy_cache res" where
  "AllowCertForHost fingerprint thread cert host error P =
     dcheck (thread = IO) ''DCHECK_CURRENTLY_ON(WebThread::IO)''
       (Inr (P(host \<mapsto> cert_Allow fingerprint cert error (policy_for_host P host))))"

definition QueryPolicy ::
    "(x509 \<Rightarrow> 'h) \<Rightarrow> WebThreadID \<Rightarrow> x509 \<Rightarrow> string \<Rightarrow> cert_status \<Rightarrow> 'h policy_cache \<Rightarrow>
     (cert_judgment \<times> 'h policy_cache) res" where
  "QueryPolicy fingerprint thread cert host error P =
     dcheck (thread = IO) ''DCHECK_CURRENTLY_ON(WebThread::IO)''
       (let p = policy_for_host P host in Inr (cert_Check fingerprint p cert error, P(host \<mapsto> p)))"

definition ClearCertificatePolicies :: "WebThreadID \<Rightarrow> 'h policy_cache \<Rightarrow> 'h policy_cache res" where
  "ClearCertificatePolicies thread P = dcheck (thread = IO) ''DCHECK_CURRENTLY_ON(WebThread::IO)'' (Inr Map.empty)"

section \<open>The system\<close>

text \<open>An exception as a tab keeps it.\<close>

record cert_storage =
  certificate :: x509
  cert_host :: string
  cert_storage_status :: cert_status

definition initWithCertificate :: "x509 \<Rightarrow> string \<Rightarrow> cert_status \<Rightarrow> cert_storage res" where
  "initWithCertificate cert host status =
     dcheck (host \<noteq> []) ''host.length()'' (Inr \<lparr>certificate = cert, cert_host = host, cert_storage_status = status\<rparr>)"

datatype trust_result =
    TrustResultInvalid | TrustResultProceed | TrustResultDeny | TrustResultUnspecified
  | TrustResultRecoverableTrustFailure | TrustResultFatalTrustFailure | TrustResultOtherError

datatype security_style = STYLE_UNKNOWN | STYLE_AUTHENTICATION_BROKEN | STYLE_AUTHENTICATED

definition GetSecurityStyleFromTrustResult :: "trust_result \<Rightarrow> security_style" where
  "GetSecurityStyleFromTrustResult result =
     (case result of
        TrustResultInvalid \<Rightarrow> STYLE_UNKNOWN
      | TrustResultProceed \<Rightarrow> STYLE_AUTHENTICATED
      | TrustResultUnspecified \<Rightarrow> STYLE_AUTHENTICATED
      | _ \<Rightarrow> STYLE_AUTHENTICATION_BROKEN)"

datatype cert_accept_policy =
    CERT_ACCEPT_POLICY_NON_RECOVERABLE_ERROR
  | CERT_ACCEPT_POLICY_RECOVERABLE_ERROR_UNDECIDED_BY_USER
  | CERT_ACCEPT_POLICY_RECOVERABLE_ERROR_ACCEPTED_BY_USER
  | CERT_ACCEPT_POLICY_ALLOW

text \<open>A trust object is the certificates of its chain, the leaf first; errors of the system are numbers.\<close>

datatype io_task =
    AllowCertTask x509 string cert_status
  | AllowCertsTask "cert_storage list"
  | DecideTask nat trust_result nat "string list" string
  | ClearTask

datatype ui_task =
    DecisionReply nat cert_accept_policy cert_status
  | RestoreReply

record 'h cert_world =
  policy_cache :: "'h policy_cache"
  io_tasks :: "io_task list"
  ui_tasks :: "ui_task list"
  allowed_certs :: "nat \<Rightarrow> cert_storage list"
  tab_realized :: "nat \<Rightarrow> bool"
  browser_list_shutdown :: bool
  decisions :: "(nat \<times> cert_accept_policy \<times> cert_status) list"

record 'h cert_env =
  CalculateChainFingerprint256 :: "x509 \<Rightarrow> 'h"
  GetCertFailureStatusFromError :: "nat \<Rightarrow> cert_status"
  leaf_certificate :: "string \<Rightarrow> x509 option"
  enumerate_set :: "cert_storage list \<Rightarrow> cert_storage list"
  browser_tabs_of :: "nat list"

definition CERT_STATUS_AUTHORITY_INVALID :: cert_status where "CERT_STATUS_AUTHORITY_INVALID = 4"
definition CERT_STATUS_INVALID :: cert_status where "CERT_STATUS_INVALID = 128"
definition CERT_STATUS_ALL_ERRORS :: cert_status where "CERT_STATUS_ALL_ERRORS = 0xFF00FFFF"

definition IsCertStatusError :: "cert_status \<Rightarrow> bool" where
  "IsCertStatusError status \<longleftrightarrow> CERT_STATUS_ALL_ERRORS AND status \<noteq> 0"

definition post_io :: "io_task \<Rightarrow> 'h cert_world \<Rightarrow> 'h cert_world" where
  "post_io task W = W\<lparr>io_tasks := io_tasks W @ [task]\<rparr>"

definition post_ui :: "ui_task \<Rightarrow> 'h cert_world \<Rightarrow> 'h cert_world" where
  "post_ui task W = W\<lparr>ui_tasks := ui_tasks W @ [task]\<rparr>"

text \<open>User decisions are stored with the leaf certificate, without intermediates.\<close>

definition leaf_only :: "x509 \<Rightarrow> x509" where
  "leaf_only cert = (if intermediate_buffers cert \<noteq> [] then cert\<lparr>intermediate_buffers := []\<rparr> else cert)"

definition allowCert :: "x509 \<Rightarrow> string \<Rightarrow> cert_status \<Rightarrow> 'h cert_world \<Rightarrow> 'h cert_world res" where
  "allowCert cert host status W =
     (let cert = leaf_only cert in
      dcheck (intermediate_buffers cert = []) ''cert->intermediate_buffers().empty()''
        (Inr (post_io (AllowCertTask cert host status) W)))"

definition RegisterAllowedCertificate :: "nat \<Rightarrow> x509 \<Rightarrow> string \<Rightarrow> cert_status \<Rightarrow> 'h cert_world \<Rightarrow> 'h cert_world res" where
  "RegisterAllowedCertificate tab cert host status W =
     (let cert = leaf_only cert in
      dcheck (intermediate_buffers cert = []) ''certificate->intermediate_buffers().empty()''
      (rbind (initWithCertificate cert host status) (\<lambda>storage.
        Inr (post_io (AllowCertTask cert host status)
              (W\<lparr>allowed_certs := (allowed_certs W)(tab := allowed_certs W tab @ [storage])\<rparr>)))))"

definition UpdateCertificatePolicyCache :: "'h cert_env \<Rightarrow> nat \<Rightarrow> 'h cert_world \<Rightarrow> 'h cert_world" where
  "UpdateCertificatePolicyCache E tab W = post_io (AllowCertsTask (enumerate_set E (allowed_certs W tab))) W"

definition SetAllowedCerts :: "nat \<Rightarrow> cert_storage list \<Rightarrow> 'h cert_world \<Rightarrow> 'h cert_world" where
  "SetAllowedCerts tab certs W = W\<lparr>allowed_certs := (allowed_certs W)(tab := certs)\<rparr>"

subsection \<open>Verification\<close>

definition certStatusFromTrustResult :: "'h cert_env \<Rightarrow> trust_result \<Rightarrow> nat \<Rightarrow> cert_status" where
  "certStatusFromTrustResult E trust_result error =
     (case trust_result of
        TrustResultProceed \<Rightarrow> 0
      | TrustResultUnspecified \<Rightarrow> 0
      | TrustResultDeny \<Rightarrow> CERT_STATUS_AUTHORITY_INVALID
      | _ \<Rightarrow> let status = GetCertFailureStatusFromError E error
             in if \<not> IsCertStatusError status then status OR CERT_STATUS_INVALID else status)"

definition loadPolicyForRejectedTrustResult ::
    "'h cert_env \<Rightarrow> WebThreadID \<Rightarrow> trust_result \<Rightarrow> cert_status \<Rightarrow> string list \<Rightarrow> string \<Rightarrow> 'h policy_cache \<Rightarrow>
     (cert_accept_policy \<times> 'h policy_cache) res" where
  "loadPolicyForRejectedTrustResult E thread trust_result status trust host P =
     dcheck (thread = IO) ''DCHECK_CURRENTLY_ON(WebThread::IO)''
     (dcheck (GetSecurityStyleFromTrustResult trust_result \<noteq> STYLE_AUTHENTICATED)
        ''web::SECURITY_STYLE_AUTHENTICATED != web::GetSecurityStyleFromTrustResult(trustResult)''
     (if trust_result \<noteq> TrustResultRecoverableTrustFailure \<or> trust = []
      then Inr (CERT_ACCEPT_POLICY_NON_RECOVERABLE_ERROR, P)
      else case leaf_certificate E (hd trust) of
             None \<Rightarrow> Inr (CERT_ACCEPT_POLICY_NON_RECOVERABLE_ERROR, P)
           | Some cert \<Rightarrow>
               rbind (QueryPolicy (CalculateChainFingerprint256 E) thread cert host status P) (\<lambda>(judgment, P).
                 Inr (if judgment = JudgmentALLOWED then CERT_ACCEPT_POLICY_RECOVERABLE_ERROR_ACCEPTED_BY_USER
                      else CERT_ACCEPT_POLICY_RECOVERABLE_ERROR_UNDECIDED_BY_USER, P))))"

definition decideLoadPolicyForRejectedTrustResult ::
    "nat \<Rightarrow> trust_result \<Rightarrow> nat \<Rightarrow> string list \<Rightarrow> string \<Rightarrow> 'h cert_world \<Rightarrow> 'h cert_world" where
  "decideLoadPolicyForRejectedTrustResult handler trust_result error trust host W =
     post_io (DecideTask handler trust_result error trust host) W"

text \<open>The reply to \<open>decideLoadPolicyForTrust\<close> after the verification: the call number \<open>handler\<close> is answered.\<close>

definition decideLoadPolicyForTrust ::
    "nat \<Rightarrow> trust_result \<Rightarrow> nat \<Rightarrow> string list \<Rightarrow> string \<Rightarrow> 'h cert_world \<Rightarrow> 'h cert_world" where
  "decideLoadPolicyForTrust handler trust_result error trust host W =
     (if trust_result = TrustResultProceed \<or> trust_result = TrustResultUnspecified
      then W\<lparr>decisions := decisions W @ [(handler, CERT_ACCEPT_POLICY_ALLOW, 0)]\<rparr>
      else decideLoadPolicyForRejectedTrustResult handler trust_result error trust host W)"

subsection \<open>Cleaning up\<close>

definition UpdateCertificatePolicyCacheFromWebState :: "'h cert_env \<Rightarrow> nat \<Rightarrow> 'h cert_world \<Rightarrow> 'h cert_world" where
  "UpdateCertificatePolicyCacheFromWebState E tab W =
     (if \<not> tab_realized W tab then W else UpdateCertificatePolicyCache E tab W)"

definition RestoreCertificatePolicyCacheFromBrowsers :: "'h cert_env \<Rightarrow> 'h cert_world \<Rightarrow> 'h cert_world" where
  "RestoreCertificatePolicyCacheFromBrowsers E W =
     (if browser_list_shutdown W then W else fold (UpdateCertificatePolicyCacheFromWebState E) (browser_tabs_of E) W)"

definition CleanCertificatePolicyCache :: "'h cert_world \<Rightarrow> 'h cert_world" where
  "CleanCertificatePolicyCache W = post_io ClearTask W"

subsection \<open>Running tasks\<close>

fun allow_certs :: "'h cert_env \<Rightarrow> WebThreadID \<Rightarrow> cert_storage list \<Rightarrow> 'h policy_cache \<Rightarrow> 'h policy_cache res" where
  "allow_certs E thread [] P = Inr P"
| "allow_certs E thread (c # cs) P =
     rbind (AllowCertForHost (CalculateChainFingerprint256 E) thread (certificate c) (cert_host c) (cert_storage_status c) P)
       (allow_certs E thread cs)"

fun run_io_task :: "'h cert_env \<Rightarrow> io_task \<Rightarrow> 'h cert_world \<Rightarrow> 'h cert_world res" where
  "run_io_task E (AllowCertTask cert host status) W =
     rbind (AllowCertForHost (CalculateChainFingerprint256 E) IO cert host status (policy_cache W)) (\<lambda>P.
       Inr (W\<lparr>policy_cache := P\<rparr>))"
| "run_io_task E (AllowCertsTask certs) W =
     rbind (allow_certs E IO certs (policy_cache W)) (\<lambda>P. Inr (W\<lparr>policy_cache := P\<rparr>))"
| "run_io_task E (DecideTask handler trust_result error trust host) W =
     (let status = certStatusFromTrustResult E trust_result error in
      rbind (loadPolicyForRejectedTrustResult E IO trust_result status trust host (policy_cache W)) (\<lambda>(policy, P).
        Inr (post_ui (DecisionReply handler policy status) (W\<lparr>policy_cache := P\<rparr>))))"
| "run_io_task E ClearTask W =
     rbind (ClearCertificatePolicies IO (policy_cache W)) (\<lambda>P. Inr (post_ui RestoreReply (W\<lparr>policy_cache := P\<rparr>)))"

fun run_ui_task :: "'h cert_env \<Rightarrow> ui_task \<Rightarrow> 'h cert_world \<Rightarrow> 'h cert_world" where
  "run_ui_task E (DecisionReply handler policy status) W = W\<lparr>decisions := decisions W @ [(handler, policy, status)]\<rparr>"
| "run_ui_task E RestoreReply W = RestoreCertificatePolicyCacheFromBrowsers E W"

datatype cert_event =
    AllowCertEvent x509 string cert_status
  | RegisterEvent nat x509 string cert_status
  | UpdateEvent nat
  | SetAllowedEvent nat "cert_storage list"
  | RealizedEvent nat bool
  | DecideEvent nat trust_result nat "string list" string
  | EnterBackgroundEvent
  | ShutdownEvent
  | RunIO
  | RunUI

fun cert_exec :: "'h cert_env \<Rightarrow> cert_event \<Rightarrow> 'h cert_world \<Rightarrow> 'h cert_world res" where
  "cert_exec E (AllowCertEvent cert host status) W = allowCert cert host status W"
| "cert_exec E (RegisterEvent tab cert host status) W = RegisterAllowedCertificate tab cert host status W"
| "cert_exec E (UpdateEvent tab) W = Inr (UpdateCertificatePolicyCache E tab W)"
| "cert_exec E (SetAllowedEvent tab certs) W = Inr (SetAllowedCerts tab certs W)"
| "cert_exec E (RealizedEvent tab b) W = Inr (W\<lparr>tab_realized := (tab_realized W)(tab := b)\<rparr>)"
| "cert_exec E (DecideEvent handler trust_result error trust host) W =
     Inr (decideLoadPolicyForTrust handler trust_result error trust host W)"
| "cert_exec E EnterBackgroundEvent W = Inr (CleanCertificatePolicyCache W)"
| "cert_exec E ShutdownEvent W = Inr (W\<lparr>browser_list_shutdown := True\<rparr>)"
| "cert_exec E RunIO W =
     (case io_tasks W of [] \<Rightarrow> Inr W | task # tasks \<Rightarrow> run_io_task E task (W\<lparr>io_tasks := tasks\<rparr>))"
| "cert_exec E RunUI W =
     (case ui_tasks W of [] \<Rightarrow> Inr W | task # tasks \<Rightarrow> Inr (run_ui_task E task (W\<lparr>ui_tasks := tasks\<rparr>)))"

definition cert_start :: "'h cert_world" where
  "cert_start = \<lparr>policy_cache = Map.empty, io_tasks = [], ui_tasks = [], allowed_certs = (\<lambda>_. []),
     tab_realized = (\<lambda>_. False), browser_list_shutdown = False, decisions = []\<rparr>"

section \<open>What a policy allows\<close>

lemma xor_not_eq: "(NOT a) XOR (NOT b) = 0 \<longleftrightarrow> a = (b :: 'a :: len word)"
  by (auto simp: bit_eq_iff bit_simps)

text \<open>An error is allowed if there is one and the user has seen all of it.\<close>

definition status_covers :: "cert_status \<Rightarrow> cert_status \<Rightarrow> bool" where
  "status_covers status error \<longleftrightarrow> error \<noteq> 0 \<and> status AND error = error"

lemma cert_Check_allowed:
  "cert_Check fp p cert error = JudgmentALLOWED \<longleftrightarrow> (\<exists>status. p (fp cert) = Some status \<and> status_covers status error)"
  unfolding cert_Check_def xor_not_eq status_covers_def by (auto split: option.splits)

text \<open>The cache as a map from hosts and fingerprints.\<close>

definition cert_entries :: "'h policy_cache \<Rightarrow> string \<times> 'h \<Rightarrow> cert_status option" where
  "cert_entries P = (\<lambda>(host, f). policy_for_host P host f)"

lemma cert_entries_empty [simp]: "cert_entries Map.empty = Map.empty"
  by (auto simp: cert_entries_def policy_for_host_def)

lemma AllowCertForHost_entries:
  "\<exists>P'. AllowCertForHost fp IO cert host status P = Inr P' \<and> cert_entries P' = (cert_entries P)((host, fp cert) \<mapsto> status)"
  by (simp add: AllowCertForHost_def) (auto simp: cert_entries_def policy_for_host_def cert_Allow_def)

lemma QueryPolicy_entries:
  "\<exists>j P'. QueryPolicy fp IO cert host error P = Inr (j, P') \<and> cert_entries P' = cert_entries P \<and>
     (j = JudgmentALLOWED \<longleftrightarrow> (\<exists>status. cert_entries P (host, fp cert) = Some status \<and> status_covers status error))"
  by (simp add: QueryPolicy_def Let_def) (auto simp: cert_entries_def policy_for_host_def cert_Check_allowed)

definition cert_key :: "'h cert_env \<Rightarrow> cert_storage \<Rightarrow> (string \<times> 'h) \<times> cert_status" where
  "cert_key E x = ((cert_host x, CalculateChainFingerprint256 E (certificate x)), cert_storage_status x)"

lemma allow_certs_entries:
  "\<exists>P'. allow_certs E IO cs P = Inr P' \<and> cert_entries P' = cert_entries P ++ map_of (rev (map (cert_key E) cs))"
proof (induction cs arbitrary: P)
  case (Cons c cs)
  obtain P1 where P1: "AllowCertForHost (CalculateChainFingerprint256 E) IO (certificate c) (cert_host c) (cert_storage_status c) P = Inr P1"
      "cert_entries P1 = (cert_entries P)((cert_host c, CalculateChainFingerprint256 E (certificate c)) \<mapsto> cert_storage_status c)"
    using AllowCertForHost_entries by blast
  moreover obtain P' where "allow_certs E IO cs P1 = Inr P'" "cert_entries P' = cert_entries P1 ++ map_of (rev (map (cert_key E) cs))"
    using Cons.IH by blast
  moreover have "m(k \<mapsto> v) ++ R = m ++ ([k \<mapsto> v] ++ R)" for m R :: "'k \<Rightarrow> cert_status option" and k v
    by (auto simp: map_add_def fun_eq_iff split: option.splits)
  moreover have "cert_key E c = ((cert_host c, CalculateChainFingerprint256 E (certificate c)), cert_storage_status c)"
    by (simp add: cert_key_def)
  ultimately show ?case by simp
qed simp

section \<open>No exception the user did not make\<close>

text \<open>The exceptions made in a sequence of events: the decisions of users and those read from saved tabs.\<close>

fun event_grants :: "cert_event \<Rightarrow> (x509 \<times> string \<times> cert_status) set" where
  "event_grants (AllowCertEvent cert host status) = {(leaf_only cert, host, status)}"
| "event_grants (RegisterEvent tab cert host status) = {(leaf_only cert, host, status)}"
| "event_grants (SetAllowedEvent tab certs) = (\<lambda>x. (certificate x, cert_host x, cert_storage_status x)) ` set certs"
| "event_grants _ = {}"

definition grants :: "cert_event list \<Rightarrow> (x509 \<times> string \<times> cert_status) set" where
  "grants es = (\<Union>e \<in> set es. event_grants e)"

definition user_accepted ::
    "'h cert_env \<Rightarrow> (x509 \<times> string \<times> cert_status) set \<Rightarrow> string list \<Rightarrow> string \<Rightarrow> cert_status \<Rightarrow> bool" where
  "user_accepted E G trust host error \<longleftrightarrow>
     (\<exists>leaf cert status. trust \<noteq> [] \<and> leaf_certificate E (hd trust) = Some leaf \<and> (cert, host, status) \<in> G \<and>
        CalculateChainFingerprint256 E cert = CalculateChainFingerprint256 E leaf \<and> status_covers status error)"

text \<open>A decision that lets a page load has a reason.\<close>

definition decision_justified ::
    "'h cert_env \<Rightarrow> cert_event list \<Rightarrow> nat \<times> cert_accept_policy \<times> cert_status \<Rightarrow> bool" where
  "decision_justified E es = (\<lambda>(handler, policy, status).
     (policy = CERT_ACCEPT_POLICY_ALLOW \<longrightarrow>
        (\<exists>result error trust host. DecideEvent handler result error trust host \<in> set es \<and>
           result \<in> {TrustResultProceed, TrustResultUnspecified})) \<and>
     (policy = CERT_ACCEPT_POLICY_RECOVERABLE_ERROR_ACCEPTED_BY_USER \<longrightarrow>
        (\<exists>result error trust host. DecideEvent handler result error trust host \<in> set es \<and>
           status = certStatusFromTrustResult E result error \<and> user_accepted E (grants es) trust host status)))"

definition storage_granted :: "cert_event list \<Rightarrow> cert_storage \<Rightarrow> bool" where
  "storage_granted es x \<longleftrightarrow> (certificate x, cert_host x, cert_storage_status x) \<in> grants es"

fun io_justified :: "cert_event list \<Rightarrow> io_task \<Rightarrow> bool" where
  "io_justified es (AllowCertTask cert host status) \<longleftrightarrow> (cert, host, status) \<in> grants es"
| "io_justified es (AllowCertsTask certs) \<longleftrightarrow> (\<forall>x \<in> set certs. storage_granted es x)"
| "io_justified es (DecideTask handler result error trust host) \<longleftrightarrow>
     DecideEvent handler result error trust host \<in> set es \<and> GetSecurityStyleFromTrustResult result \<noteq> STYLE_AUTHENTICATED"
| "io_justified es ClearTask \<longleftrightarrow> True"

fun ui_justified :: "'h cert_env \<Rightarrow> cert_event list \<Rightarrow> ui_task \<Rightarrow> bool" where
  "ui_justified E es (DecisionReply handler policy status) \<longleftrightarrow> decision_justified E es (handler, policy, status)"
| "ui_justified E es RestoreReply \<longleftrightarrow> True"

definition entries_granted :: "'h cert_env \<Rightarrow> cert_event list \<Rightarrow> (string \<times> 'h \<Rightarrow> cert_status option) \<Rightarrow> bool" where
  "entries_granted E es m \<longleftrightarrow>
     (\<forall>host f status. m (host, f) = Some status \<longrightarrow>
        (\<exists>cert. (cert, host, status) \<in> grants es \<and> CalculateChainFingerprint256 E cert = f))"

definition cert_ok :: "'h cert_env \<Rightarrow> cert_event list \<Rightarrow> 'h cert_world \<Rightarrow> bool" where
  "cert_ok E es W \<longleftrightarrow> entries_granted E es (cert_entries (policy_cache W)) \<and>
     (\<forall>t \<in> set (io_tasks W). io_justified es t) \<and> (\<forall>t \<in> set (ui_tasks W). ui_justified E es t) \<and>
     (\<forall>tab. \<forall>x \<in> set (allowed_certs W tab). storage_granted es x) \<and> (\<forall>d \<in> set (decisions W). decision_justified E es d)"

lemma grants_append: "grants (es @ fs) = grants es \<union> grants fs"
  by (auto simp: grants_def)

lemma justified_mono:
  "decision_justified E es d \<Longrightarrow> decision_justified E (es @ fs) d"
  "storage_granted es x \<Longrightarrow> storage_granted (es @ fs) x"
  "io_justified es t \<Longrightarrow> io_justified (es @ fs) t"
  "ui_justified E es u \<Longrightarrow> ui_justified E (es @ fs) u"
  "entries_granted E es m \<Longrightarrow> entries_granted E (es @ fs) m"
proof -
  show d: "decision_justified E es d \<Longrightarrow> decision_justified E (es @ fs) d" for d
    by (cases d) (simp add: decision_justified_def user_accepted_def grants_append, blast)
  show s: "storage_granted es x \<Longrightarrow> storage_granted (es @ fs) x" for x
    by (simp add: storage_granted_def grants_append)
  show "io_justified es t \<Longrightarrow> io_justified (es @ fs) t" using s by (cases t) (auto simp: grants_append)
  show "ui_justified E es u \<Longrightarrow> ui_justified E (es @ fs) u" using d by (cases u) auto
  show "entries_granted E es m \<Longrightarrow> entries_granted E (es @ fs) m" by (auto simp: entries_granted_def grants_append, blast)
qed

lemma cert_ok_mono: "cert_ok E es W \<Longrightarrow> cert_ok E (es @ fs) W"
  by (auto simp: cert_ok_def intro: justified_mono)

lemma cert_ok_cache:
  "cert_ok E es W \<Longrightarrow> entries_granted E es (cert_entries P) \<Longrightarrow> cert_ok E es (W\<lparr>policy_cache := P\<rparr>)"
  by (simp add: cert_ok_def)

lemma cert_ok_post:
  "cert_ok E es W \<Longrightarrow> io_justified es t \<Longrightarrow> cert_ok E es (post_io t W)"
  "cert_ok E es W \<Longrightarrow> ui_justified E es u \<Longrightarrow> cert_ok E es (post_ui u W)"
  by (auto simp: cert_ok_def post_io_def post_ui_def)

lemma entries_granted_upd:
  "entries_granted E es m \<Longrightarrow> (cert, host, status) \<in> grants es \<Longrightarrow>
     entries_granted E es (m((host, CalculateChainFingerprint256 E cert) \<mapsto> status))"
  by (auto simp: entries_granted_def)

lemma entries_granted_add:
  assumes "entries_granted E es m" "\<forall>x \<in> set cs. storage_granted es x"
  shows "entries_granted E es (m ++ map_of (rev (map (cert_key E) cs)))"
proof -
  have "\<exists>cert. (cert, host, status) \<in> grants es \<and> CalculateChainFingerprint256 E cert = f"
    if "map_of (rev (map (cert_key E) cs)) (host, f) = Some status" for host f status
    using map_of_SomeD [OF that] assms(2) by (force simp: cert_key_def storage_granted_def)
  then show ?thesis using assms(1) by (auto simp: entries_granted_def map_add_Some_iff)
qed

lemma decide_step:
  assumes "cert_ok E es W" "io_justified es (DecideTask handler result error trust host)"
  shows "\<exists>W'. run_io_task E (DecideTask handler result error trust host) W = Inr W' \<and> cert_ok E es W'"
proof -
  let ?st = "certStatusFromTrustResult E result error"
  have j: "DecideEvent handler result error trust host \<in> set es" "GetSecurityStyleFromTrustResult result \<noteq> STYLE_AUTHENTICATED"
    using assms(2) by simp_all
  have "\<exists>policy P. loadPolicyForRejectedTrustResult E IO result ?st trust host (policy_cache W) = Inr (policy, P) \<and>
      cert_entries P = cert_entries (policy_cache W) \<and> decision_justified E es (handler, policy, ?st)"
  proof (cases "result \<noteq> TrustResultRecoverableTrustFailure \<or> trust = [] \<or> leaf_certificate E (hd trust) = None")
    case True
    then show ?thesis using j(2) by (auto simp: loadPolicyForRejectedTrustResult_def decision_justified_def)
  next
    case False
    then obtain leaf where leaf: "leaf_certificate E (hd trust) = Some leaf" by auto
    obtain q P where q: "QueryPolicy (CalculateChainFingerprint256 E) IO leaf host ?st (policy_cache W) = Inr (q, P)"
        "cert_entries P = cert_entries (policy_cache W)"
        "q = JudgmentALLOWED \<longleftrightarrow> (\<exists>status. cert_entries (policy_cache W) (host, CalculateChainFingerprint256 E leaf) = Some status \<and>
           status_covers status ?st)"
      using QueryPolicy_entries by blast
    have "user_accepted E (grants es) trust host ?st" if allowed: "q = JudgmentALLOWED"
    proof -
      obtain status where "cert_entries (policy_cache W) (host, CalculateChainFingerprint256 E leaf) = Some status" "status_covers status ?st"
        using allowed q(3) by blast
      then show ?thesis
        using assms(1) leaf False unfolding cert_ok_def entries_granted_def user_accepted_def by blast
    qed
    then show ?thesis
      using False leaf q(1,2) j by (auto simp: loadPolicyForRejectedTrustResult_def decision_justified_def)
  qed
  then obtain policy P where p: "loadPolicyForRejectedTrustResult E IO result ?st trust host (policy_cache W) = Inr (policy, P)"
      "cert_entries P = cert_entries (policy_cache W)" "decision_justified E es (handler, policy, ?st)"
    by blast
  have "cert_ok E es (W\<lparr>policy_cache := P\<rparr>)" using assms(1) p(2) by (simp add: cert_ok_def)
  from cert_ok_post(2) [OF this, of "DecisionReply handler policy ?st"] show ?thesis using p(1,3) by (simp add: Let_def)
qed

lemma run_io_step:
  assumes "cert_ok E es W" "io_justified es t"
  shows "\<exists>W'. run_io_task E t W = Inr W' \<and> cert_ok E es W'"
proof (cases t)
  case (AllowCertTask cert host status)
  then show ?thesis
    using AllowCertForHost_entries [of "CalculateChainFingerprint256 E" cert host status "policy_cache W"] assms
    by (auto simp: cert_ok_def intro!: entries_granted_upd)
next
  case (AllowCertsTask certs)
  then show ?thesis
    using allow_certs_entries [of E certs "policy_cache W"] assms by (auto simp: cert_ok_def intro!: entries_granted_add)
next
  case (DecideTask handler result error trust host)
  then show ?thesis using decide_step assms by blast
next
  case ClearTask
  have "cert_ok E es (W\<lparr>policy_cache := Map.empty\<rparr>)" using assms(1) by (simp add: cert_ok_def entries_granted_def)
  from cert_ok_post(2) [OF this, of RestoreReply] show ?thesis using ClearTask by (simp add: ClearCertificatePolicies_def)
qed

lemma cert_update_ok:
  assumes "cert_ok E es W" "\<forall>cs. set (enumerate_set E cs) = set cs"
  shows "cert_ok E es (UpdateCertificatePolicyCache E tab W)"
  unfolding UpdateCertificatePolicyCache_def
  by (rule cert_ok_post(1) [OF assms(1)]) (use assms in \<open>simp add: cert_ok_def\<close>)

lemma cert_restore_ok:
  assumes "\<forall>cs. set (enumerate_set E cs) = set cs"
  shows "cert_ok E es W \<Longrightarrow> cert_ok E es (fold (UpdateCertificatePolicyCacheFromWebState E) tabs W)"
  using cert_update_ok [OF _ assms]
  by (induction tabs arbitrary: W) (simp_all add: UpdateCertificatePolicyCacheFromWebState_def)

lemma run_ui_step:
  assumes "cert_ok E es W" "ui_justified E es u" "\<forall>cs. set (enumerate_set E cs) = set cs"
  shows "cert_ok E es (run_ui_task E u W)"
proof (cases u)
  case RestoreReply
  then show ?thesis using cert_restore_ok [OF assms(3,1)] assms(1) by (simp add: RestoreCertificatePolicyCacheFromBrowsers_def)
qed (use assms in \<open>auto simp: cert_ok_def\<close>)

fun cert_event_pre :: "cert_event \<Rightarrow> bool" where
  "cert_event_pre (RegisterEvent tab cert host status) \<longleftrightarrow> host \<noteq> []"
| "cert_event_pre _ \<longleftrightarrow> True"

lemma cert_step:
  assumes "cert_ok E es W" "\<forall>cs. set (enumerate_set E cs) = set cs" "cert_event_pre e"
  shows "\<exists>W'. cert_exec E e W = Inr W' \<and> cert_ok E (es @ [e]) W'"
proof -
  let ?es = "es @ [e]"
  note ok = cert_ok_mono [OF assms(1), of "[e]"]
  have new: "event_grants e \<subseteq> grants ?es" by (auto simp: grants_def)
  show ?thesis
  proof (cases e)
    case (AllowCertEvent cert host status)
    then show ?thesis
      using cert_ok_post(1) [OF ok, of "AllowCertTask (leaf_only cert) host status"] new
      by (auto simp: allowCert_def Let_def leaf_only_def)
  next
    case (RegisterEvent tab cert host status)
    let ?x = "\<lparr>certificate = leaf_only cert, cert_host = host, cert_storage_status = status\<rparr>"
    have g: "(leaf_only cert, host, status) \<in> grants ?es" using new RegisterEvent by simp
    have "cert_ok E ?es (W\<lparr>allowed_certs := (allowed_certs W)(tab := allowed_certs W tab @ [?x])\<rparr>)"
      using ok g by (auto simp: cert_ok_def storage_granted_def)
    moreover have "intermediate_buffers (leaf_only cert) = []" by (simp add: leaf_only_def)
    ultimately show ?thesis
      using cert_ok_post(1) [where t = "AllowCertTask (leaf_only cert) host status"] g assms(3) RegisterEvent
      by (simp add: RegisterAllowedCertificate_def Let_def initWithCertificate_def)
  next
    case (UpdateEvent tab)
    then show ?thesis using cert_update_ok [OF ok assms(2)] by simp
  next
    case (SetAllowedEvent tab certs)
    then show ?thesis using ok new by (auto simp: SetAllowedCerts_def cert_ok_def storage_granted_def)
  next
    case (RealizedEvent tab b)
    then show ?thesis using ok by (simp add: cert_ok_def)
  next
    case (DecideEvent handler result error trust host)
    show ?thesis
    proof (cases "result = TrustResultProceed \<or> result = TrustResultUnspecified")
      case True
      then have "decision_justified E ?es (handler, CERT_ACCEPT_POLICY_ALLOW, 0)"
        using DecideEvent by (auto simp: decision_justified_def)
      then show ?thesis using ok DecideEvent True by (auto simp: decideLoadPolicyForTrust_def cert_ok_def)
    next
      case False
      then have "io_justified ?es (DecideTask handler result error trust host)"
        using DecideEvent by (cases result) (simp_all add: GetSecurityStyleFromTrustResult_def)
      then show ?thesis
        using cert_ok_post(1) [OF ok] DecideEvent False
        by (simp add: decideLoadPolicyForTrust_def decideLoadPolicyForRejectedTrustResult_def)
    qed
  next
    case EnterBackgroundEvent
    then show ?thesis using cert_ok_post(1) [OF ok, of ClearTask] by (simp add: CleanCertificatePolicyCache_def)
  next
    case ShutdownEvent
    then show ?thesis using ok by (simp add: cert_ok_def)
  next
    case RunIO
    show ?thesis
    proof (cases "io_tasks W")
      case (Cons t ts)
      have "cert_ok E ?es (W\<lparr>io_tasks := ts\<rparr>)" "io_justified ?es t" using ok Cons by (simp_all add: cert_ok_def)
      then show ?thesis using run_io_step RunIO Cons by fastforce
    qed (use ok RunIO in simp)
  next
    case RunUI
    show ?thesis
    proof (cases "ui_tasks W")
      case (Cons t ts)
      have "cert_ok E ?es (W\<lparr>ui_tasks := ts\<rparr>)" "ui_justified E ?es t" using ok Cons by (simp_all add: cert_ok_def)
      then show ?thesis using run_ui_step assms(2) RunUI Cons by fastforce
    qed (use ok RunUI in simp)
  qed
qed

lemma cert_run:
  assumes "\<forall>cs. set (enumerate_set E cs) = set cs"
  shows "\<forall>e \<in> set es. cert_event_pre e \<Longrightarrow> \<exists>W. run_events (cert_exec E) es cert_start = Inr W \<and> cert_ok E es W"
proof (induction es rule: rev_induct)
  case Nil
  then show ?case by (simp add: cert_start_def cert_ok_def entries_granted_def)
next
  case (snoc e es)
  then obtain W where "run_events (cert_exec E) es cert_start = Inr W" "cert_ok E es W" by auto
  then show ?case using cert_step [OF _ assms, of es W e] snoc.prems by (auto simp: run_events_append)
qed

text \<open>
  Property C5.  Whatever happens in whatever order, nothing fails, and a page with a bad certificate is
  loaded only by an exception: for the host and the first certificate of the server, a user or a saved tab
  had allowed a set of errors that contains the ones found.  A certificate passes as good only if the
  system says so.
\<close>

theorem certificate_exceptions_granted:
  assumes "\<forall>cs. set (enumerate_set E cs) = set cs" "\<forall>e \<in> set es. cert_event_pre e"
  shows "\<exists>W. run_events (cert_exec E) es cert_start = Inr W \<and> (\<forall>d \<in> set (decisions W). decision_justified E es d)"
  using cert_run [OF assms] unfolding cert_ok_def by blast

section \<open>The clean-up in the background\<close>

lemma fold_update_tasks:
  "fold (UpdateCertificatePolicyCacheFromWebState E) tabs W =
     W\<lparr>io_tasks := io_tasks W @ map (\<lambda>t. AllowCertsTask (enumerate_set E (allowed_certs W t))) (filter (tab_realized W) tabs)\<rparr>"
  by (induction tabs arbitrary: W)
    (simp_all add: UpdateCertificatePolicyCacheFromWebState_def UpdateCertificatePolicyCache_def post_io_def)

lemma run_allow_tasks:
  "io_tasks W = map AllowCertsTask css \<Longrightarrow>
     \<exists>P. run_events (cert_exec E) (replicate (length css) RunIO) W = Inr (W\<lparr>policy_cache := P, io_tasks := []\<rparr>) \<and>
       cert_entries P = cert_entries (policy_cache W) ++ map_of (rev (map (cert_key E) (concat css)))"
proof (induction css arbitrary: W)
  case (Cons cs css)
  obtain P1 where P1: "allow_certs E IO cs (policy_cache W) = Inr P1"
      "cert_entries P1 = cert_entries (policy_cache W) ++ map_of (rev (map (cert_key E) cs))"
    using allow_certs_entries by blast
  let ?W = "W\<lparr>io_tasks := map AllowCertsTask css, policy_cache := P1\<rparr>"
  obtain P where "run_events (cert_exec E) (replicate (length css) RunIO) ?W = Inr (?W\<lparr>policy_cache := P, io_tasks := []\<rparr>)"
      "cert_entries P = cert_entries P1 ++ map_of (rev (map (cert_key E) (concat css)))"
    using Cons.IH [of ?W] by auto
  then show ?case using P1 Cons.prems by (intro exI [of _ P]) simp
next
  case Nil
  then show ?case by (intro exI [of _ "policy_cache W"]) simp
qed

lemma snd_cert_key: "snd (cert_key E x) = cert_storage_status x"
  by (simp add: cert_key_def)

lemma map_of_consistent:
  assumes "\<forall>x \<in> set ks. \<forall>y \<in> set ks. fst x = fst y \<longrightarrow> snd x = snd y"
  shows "map_of ks k = Some v \<longleftrightarrow> (k, v) \<in> set ks"
proof
  assume "(k, v) \<in> set ks"
  then obtain v' where "map_of ks k = Some v'" by (metis weak_map_of_SomeI)
  then show "map_of ks k = Some v" using assms map_of_SomeD [of ks k v'] \<open>(k, v) \<in> set ks\<close> by fastforce
qed (rule map_of_SomeD)

text \<open>The exceptions of the tabs the application has in memory.\<close>

definition session_exceptions :: "'h cert_env \<Rightarrow> 'h cert_world \<Rightarrow> cert_storage set" where
  "session_exceptions E W = (\<Union>t \<in> {t \<in> set (browser_tabs_of E). tab_realized W t}. set (allowed_certs W t))"

text \<open>What the clean-up restores: nothing if the list of browsers has been shut down by then.\<close>

definition restored_exceptions :: "'h cert_env \<Rightarrow> 'h cert_world \<Rightarrow> cert_storage set" where
  "restored_exceptions E W = (if browser_list_shutdown W then {} else session_exceptions E W)"

definition restored_lists :: "'h cert_env \<Rightarrow> 'h cert_world \<Rightarrow> cert_storage list list" where
  "restored_lists E W = (if browser_list_shutdown W then []
     else map (\<lambda>t. enumerate_set E (allowed_certs W t)) (filter (tab_realized W) (browser_tabs_of E)))"

definition clean_up_events :: "'h cert_env \<Rightarrow> 'h cert_world \<Rightarrow> cert_event list" where
  "clean_up_events E W =
     [EnterBackgroundEvent, RunIO, RunUI] @ replicate (length (restored_lists E W)) RunIO"

lemma clean_up_entries:
  assumes "io_tasks W = []" "ui_tasks W = []"
  shows "\<exists>W'. run_events (cert_exec E) (clean_up_events E W) W = Inr W' \<and> io_tasks W' = [] \<and> ui_tasks W' = [] \<and>
    cert_entries (policy_cache W') = map_of (rev (map (cert_key E) (concat (restored_lists E W))))"
proof -
  let ?W = "W\<lparr>policy_cache := Map.empty, io_tasks := map AllowCertsTask (restored_lists E W)\<rparr>"
  have "run_events (cert_exec E) [EnterBackgroundEvent, RunIO, RunUI] W = Inr ?W"
    using assms
    by (simp add: CleanCertificatePolicyCache_def post_io_def post_ui_def ClearCertificatePolicies_def
        RestoreCertificatePolicyCacheFromBrowsers_def fold_update_tasks comp_def restored_lists_def)
  moreover obtain P where
      "run_events (cert_exec E) (replicate (length (restored_lists E W)) RunIO) ?W = Inr (?W\<lparr>policy_cache := P, io_tasks := []\<rparr>)"
      "cert_entries P = cert_entries Map.empty ++ map_of (rev (map (cert_key E) (concat (restored_lists E W))))"
    using run_allow_tasks [of ?W "restored_lists E W" E] by auto
  ultimately show ?thesis using assms(2) unfolding clean_up_events_def run_events_append by simp
qed

text \<open>
  Property C38.  When the application goes to the background, the exceptions are those of the tabs in
  memory, no others: after the clean-up has run, an error of a certificate is accepted for a host exactly
  if one of these tabs has an exception that covers it.  This holds if no two of them disagree on the
  errors.  If the list of browsers has been shut down, the clean-up leaves no exception at all.
\<close>

theorem background_clean_up_exact:
  assumes "io_tasks W = []" "ui_tasks W = []" "\<forall>cs. set (enumerate_set E cs) = set cs"
    "\<forall>x \<in> session_exceptions E W. \<forall>y \<in> session_exceptions E W.
       fst (cert_key E x) = fst (cert_key E y) \<longrightarrow> cert_storage_status x = cert_storage_status y"
  shows "\<exists>W'. run_events (cert_exec E) (clean_up_events E W) W = Inr W' \<and>
    (\<forall>cert host error. \<exists>j P. QueryPolicy (CalculateChainFingerprint256 E) IO cert host error (policy_cache W') = Inr (j, P) \<and>
      (j = JudgmentALLOWED \<longleftrightarrow> \<not> browser_list_shutdown W \<and> (\<exists>x \<in> session_exceptions E W. cert_host x = host \<and>
         CalculateChainFingerprint256 E (certificate x) = CalculateChainFingerprint256 E cert \<and>
         status_covers (cert_storage_status x) error)))"
proof -
  let ?cs = "concat (restored_lists E W)"
  obtain W' where W': "run_events (cert_exec E) (clean_up_events E W) W = Inr W'"
      "cert_entries (policy_cache W') = map_of (rev (map (cert_key E) ?cs))"
    using clean_up_entries [OF assms(1,2)] by blast
  have cs: "set ?cs = restored_exceptions E W"
    using assms(3) by (auto simp: session_exceptions_def restored_exceptions_def restored_lists_def)
  have con0: "\<forall>x \<in> restored_exceptions E W. \<forall>y \<in> restored_exceptions E W.
      fst (cert_key E x) = fst (cert_key E y) \<longrightarrow> cert_storage_status x = cert_storage_status y"
  proof (cases "browser_list_shutdown W")
    case False
    then have "restored_exceptions E W = session_exceptions E W" by (simp add: restored_exceptions_def)
    then show ?thesis using assms(4) by (simp only:)
  qed (simp add: restored_exceptions_def)
  have con: "\<forall>x \<in> set (rev (map (cert_key E) ?cs)). \<forall>y \<in> set (rev (map (cert_key E) ?cs)). fst x = fst y \<longrightarrow> snd x = snd y"
    using con0 by (simp only: set_rev set_map cs ball_simps snd_cert_key)
  have m: "cert_entries (policy_cache W') k = Some v \<longleftrightarrow> (k, v) \<in> cert_key E ` restored_exceptions E W" for k v
    unfolding W'(2) map_of_consistent [OF con] set_rev set_map cs ..
  have e: "(\<exists>status. cert_entries (policy_cache W') (host, f) = Some status \<and> status_covers status error) \<longleftrightarrow>
      \<not> browser_list_shutdown W \<and> (\<exists>x \<in> session_exceptions E W. cert_host x = host \<and>
         CalculateChainFingerprint256 E (certificate x) = f \<and> status_covers (cert_storage_status x) error)" for host f error
    unfolding m image_iff cert_key_def by (auto simp: restored_exceptions_def)
  show ?thesis
  proof (intro exI [of _ W'] conjI allI)
    fix cert host error
    show "\<exists>j P. QueryPolicy (CalculateChainFingerprint256 E) IO cert host error (policy_cache W') = Inr (j, P) \<and>
      (j = JudgmentALLOWED \<longleftrightarrow> \<not> browser_list_shutdown W \<and> (\<exists>x \<in> session_exceptions E W. cert_host x = host \<and>
         CalculateChainFingerprint256 E (certificate x) = CalculateChainFingerprint256 E cert \<and>
         status_covers (cert_storage_status x) error))"
      using QueryPolicy_entries [of "CalculateChainFingerprint256 E" cert host error "policy_cache W'"] unfolding e
      by (elim exE conjE) (intro exI conjI)
  qed (rule W'(1))
qed

text \<open>
  Property C39.  When a user allows more errors of the same certificate, the older exception stays in the
  set of the tab.  A set has no order: where the older one is enumerated last, the clean-up ends with it,
  and the errors the user has allowed are refused again.
\<close>

definition twice_allowed :: "nat \<Rightarrow> x509 \<Rightarrow> string \<Rightarrow> cert_status \<Rightarrow> cert_status \<Rightarrow> cert_event list" where
  "twice_allowed tab cert host s1 s2 =
     [RealizedEvent tab True, RegisterEvent tab cert host s1, RunIO, RegisterEvent tab cert host s2, RunIO]"

theorem extended_exception_forgotten:
  assumes "enumerate_set E = rev" "browser_tabs_of E = [tab]" "host \<noteq> []" "status_covers s2 error" "\<not> status_covers s1 error"
  shows "\<exists>W W' j P j' P'. run_events (cert_exec E) (twice_allowed tab cert host s1 s2) cert_start = Inr W \<and>
    QueryPolicy (CalculateChainFingerprint256 E) IO (leaf_only cert) host error (policy_cache W) = Inr (j, P) \<and> j = JudgmentALLOWED \<and>
    run_events (cert_exec E) (clean_up_events E W) W = Inr W' \<and>
    QueryPolicy (CalculateChainFingerprint256 E) IO (leaf_only cert) host error (policy_cache W') = Inr (j', P') \<and> j' \<noteq> JudgmentALLOWED"
proof -
  let ?fp = "CalculateChainFingerprint256 E" and ?c = "leaf_only cert"
  let ?k = "(host, ?fp ?c)"
  let ?x = "\<lambda>s. \<lparr>certificate = ?c, cert_host = host, cert_storage_status = s\<rparr>"
  have leaf: "intermediate_buffers ?c = []" by (simp add: leaf_only_def)
  obtain P1 where P1: "AllowCertForHost ?fp IO ?c host s1 Map.empty = Inr P1"
    using AllowCertForHost_entries by blast
  obtain P2 where P2: "AllowCertForHost ?fp IO ?c host s2 P1 = Inr P2" "cert_entries P2 = (cert_entries P1)(?k \<mapsto> s2)"
    using AllowCertForHost_entries by blast
  define W :: "'a cert_world" where "W = \<lparr>policy_cache = P2, io_tasks = [], ui_tasks = [], allowed_certs = (\<lambda>_. [])(tab := [?x s1, ?x s2]),
      tab_realized = (\<lambda>_. False)(tab := True), browser_list_shutdown = False, decisions = []\<rparr>"
  have run: "run_events (cert_exec E) (twice_allowed tab cert host s1 s2) cert_start = Inr W"
    using assms(3) P1 P2(1) leaf
    by (simp add: twice_allowed_def cert_start_def RegisterAllowedCertificate_def initWithCertificate_def post_io_def W_def Let_def)
  obtain W' where W': "run_events (cert_exec E) (clean_up_events E W) W = Inr W'"
      "cert_entries (policy_cache W') = map_of (rev (map (cert_key E) (rev [?x s1, ?x s2])))"
    using clean_up_entries [of W E] by (auto simp: W_def assms(1,2) restored_lists_def)
  have e: "cert_entries (policy_cache W) ?k = Some s2" "cert_entries (policy_cache W') ?k = Some s1"
    by (simp_all add: W_def P2(2) W'(2) cert_key_def)
  obtain j P where q: "QueryPolicy ?fp IO ?c host error (policy_cache W) = Inr (j, P)" "j = JudgmentALLOWED"
    using QueryPolicy_entries [of ?fp ?c host error "policy_cache W"] assms(4) e(1) by auto
  obtain j' P' where q': "QueryPolicy ?fp IO ?c host error (policy_cache W') = Inr (j', P')" "j' \<noteq> JudgmentALLOWED"
    using QueryPolicy_entries [of ?fp ?c host error "policy_cache W'"] assms(5) e(2) by auto
  show ?thesis using run q W'(1) q' by blast
qed

definition demo_certs :: "string cert_env" where
  "demo_certs = \<lparr>CalculateChainFingerprint256 = cert_buffer, GetCertFailureStatusFromError = (\<lambda>_. 2),
     leaf_certificate = (\<lambda>s. Some \<lparr>cert_buffer = s, intermediate_buffers = []\<rparr>), enumerate_set = rev, browser_tabs_of = [1]\<rparr>"

definition demo_cert :: x509 where "demo_cert = \<lparr>cert_buffer = ''c'', intermediate_buffers = []\<rparr>"

theorem extended_exception_forgotten_witness:
  "\<exists>W W' j P j' P'. run_events (cert_exec demo_certs) (twice_allowed 1 demo_cert ''h'' 2 6) cert_start = Inr W \<and>
    QueryPolicy cert_buffer IO (leaf_only demo_cert) ''h'' 6 (policy_cache W) = Inr (j, P) \<and> j = JudgmentALLOWED \<and>
    run_events (cert_exec demo_certs) (clean_up_events demo_certs W) W = Inr W' \<and>
    QueryPolicy cert_buffer IO (leaf_only demo_cert) ''h'' 6 (policy_cache W') = Inr (j', P') \<and> j' \<noteq> JudgmentALLOWED"
proof -
  have "enumerate_set demo_certs = rev" "browser_tabs_of demo_certs = [1]" "CalculateChainFingerprint256 demo_certs = cert_buffer"
    by (simp_all add: demo_certs_def)
  then show ?thesis
    using extended_exception_forgotten [of demo_certs 1 "''h''" 6 6 2 demo_cert] by (simp add: status_covers_def)
qed

text \<open>One exception, a page that needs it and one that has another error as well.\<close>

definition demo_cert_events :: "cert_event list" where
  "demo_cert_events = [RegisterEvent 1 demo_cert ''h'' 2, RunIO,
     DecideEvent 7 TrustResultRecoverableTrustFailure 0 [''c''] ''h'', RunIO, RunUI,
     DecideEvent 8 TrustResultRecoverableTrustFailure 0 [''d''] ''h'', RunIO, RunUI]"

theorem certificate_exceptions_granted_witness:
  "\<exists>W. run_events (cert_exec demo_certs) demo_cert_events cert_start = Inr W \<and>
     (\<forall>d \<in> set (decisions W). decision_justified demo_certs demo_cert_events d) \<and>
     decisions W = [(7, CERT_ACCEPT_POLICY_RECOVERABLE_ERROR_ACCEPTED_BY_USER, 2),
       (8, CERT_ACCEPT_POLICY_RECOVERABLE_ERROR_UNDECIDED_BY_USER, 2)]"
proof -
  have st: "certStatusFromTrustResult demo_certs TrustResultRecoverableTrustFailure 0 = 2"
    by (simp add: certStatusFromTrustResult_def demo_certs_def IsCertStatusError_def CERT_STATUS_ALL_ERRORS_def)
  obtain W where W: "run_events (cert_exec demo_certs) demo_cert_events cert_start = Inr W"
      "\<forall>d \<in> set (decisions W). decision_justified demo_certs demo_cert_events d"
    using certificate_exceptions_granted [of demo_certs demo_cert_events]
    by (auto simp: demo_certs_def demo_cert_events_def)
  moreover have "decisions W = [(7, CERT_ACCEPT_POLICY_RECOVERABLE_ERROR_ACCEPTED_BY_USER, 2),
       (8, CERT_ACCEPT_POLICY_RECOVERABLE_ERROR_UNDECIDED_BY_USER, 2)]"
    using W(1)
    by (auto simp: demo_cert_events_def cert_start_def RegisterAllowedCertificate_def initWithCertificate_def post_io_def
        post_ui_def leaf_only_def demo_cert_def AllowCertForHost_def policy_for_host_def cert_Allow_def
        decideLoadPolicyForTrust_def decideLoadPolicyForRejectedTrustResult_def st loadPolicyForRejectedTrustResult_def
        GetSecurityStyleFromTrustResult_def QueryPolicy_def cert_Check_def demo_certs_def [THEN arg_cong, of leaf_certificate]
        demo_certs_def [THEN arg_cong, of CalculateChainFingerprint256] Let_def)
  ultimately show ?thesis by blast
qed

text \<open>A tab in memory with one exception, before and after the shutdown.\<close>

definition demo_cert_world :: "bool \<Rightarrow> string cert_world" where
  "demo_cert_world b = cert_start\<lparr>allowed_certs := (\<lambda>_. [])(1 := [\<lparr>certificate = demo_cert, cert_host = ''h'', cert_storage_status = 2\<rparr>]),
     tab_realized := (\<lambda>_. True), browser_list_shutdown := b\<rparr>"

theorem background_clean_up_exact_witness:
  "(\<exists>W'. run_events (cert_exec demo_certs) (clean_up_events demo_certs (demo_cert_world False)) (demo_cert_world False) = Inr W' \<and>
     (\<exists>j P. QueryPolicy cert_buffer IO demo_cert ''h'' 2 (policy_cache W') = Inr (j, P) \<and> j = JudgmentALLOWED)) \<and>
   (\<exists>W'. run_events (cert_exec demo_certs) (clean_up_events demo_certs (demo_cert_world True)) (demo_cert_world True) = Inr W' \<and>
     (\<exists>j P. QueryPolicy cert_buffer IO demo_cert ''h'' 2 (policy_cache W') = Inr (j, P) \<and> j \<noteq> JudgmentALLOWED))"
proof -
  have s: "session_exceptions demo_certs (demo_cert_world b) = {\<lparr>certificate = demo_cert, cert_host = ''h'', cert_storage_status = 2\<rparr>}" for b
    by (auto simp: session_exceptions_def demo_certs_def demo_cert_world_def)
  have fp: "CalculateChainFingerprint256 demo_certs = cert_buffer" "\<forall>cs. set (enumerate_set demo_certs cs) = set cs"
    by (simp_all add: demo_certs_def)
  have w: "io_tasks (demo_cert_world b) = []" "ui_tasks (demo_cert_world b) = []" "browser_list_shutdown (demo_cert_world b) = b" for b
    by (simp_all add: demo_cert_world_def cert_start_def)
  have c: "status_covers 2 2" by (simp add: status_covers_def)
  have "\<exists>W'. run_events (cert_exec demo_certs) (clean_up_events demo_certs (demo_cert_world b)) (demo_cert_world b) = Inr W' \<and>
     (\<exists>j P. QueryPolicy cert_buffer IO demo_cert ''h'' 2 (policy_cache W') = Inr (j, P) \<and> (j = JudgmentALLOWED \<longleftrightarrow> \<not> b))" for b
  proof -
    obtain W' where W': "run_events (cert_exec demo_certs) (clean_up_events demo_certs (demo_cert_world b)) (demo_cert_world b) = Inr W'"
      "\<forall>cert host error. \<exists>j P. QueryPolicy cert_buffer IO cert host error (policy_cache W') = Inr (j, P) \<and>
        (j = JudgmentALLOWED \<longleftrightarrow> \<not> b \<and> (\<exists>x \<in> session_exceptions demo_certs (demo_cert_world b). cert_host x = host \<and>
           cert_buffer (certificate x) = cert_buffer cert \<and> status_covers (cert_storage_status x) error))"
      using background_clean_up_exact [OF w(1,2) fp(2), of b] unfolding fp(1) s w(3) by auto
    from W'(2) [rule_format, of demo_cert "''h''" 2] show ?thesis using W'(1) c unfolding s by auto
  qed
  from this [of False] this [of True] show ?thesis by simp
qed

end
