(* ===== verification/Http_Cache.thy ===== *)
theory Http_Cache
  imports Event_System
begin

text \<open>
  Two clients of the disk cache of the network stack, whose functions answer at once or later:
  \<^verbatim>\<open>net/http_cache_helper.cc\<close> (\<^verbatim>\<open>ClearHttpCache\<close>) and \<^verbatim>\<open>chrome/browser/browsing_data/cache_counter.cc\<close>
  (\<^verbatim>\<open>IOThreadCacheCounter\<close>).

  A function of the cache returns a code; \<open>ERR_IO_PENDING\<close> says that its callback is run later, with
  the code then, and only in this case is it run.  The codes are parameters: \<open>cache_env\<close> has the ones that are
  returned and, for each function, the one the callback gets, and whether \<open>GetBackend\<close> leaves a backend
  (\<open>backend_created\<close>) by the time it ends.
\<close>

definition net_OK :: int where "net_OK = 0"
definition ERR_IO_PENDING :: int where "ERR_IO_PENDING = -1"

record cache_env =
  GetBackend :: int
  GetBackend_later :: int
  backend_created :: bool
  DiskOperation :: int
  DiskOperation_later :: int

text \<open>The code a function ends with.\<close>

definition settled_code :: "int \<Rightarrow> int \<Rightarrow> int" where
  "settled_code rv later = (if rv = ERR_IO_PENDING then later else rv)"

definition backend_code :: "cache_env \<Rightarrow> int" where "backend_code E = settled_code (GetBackend E) (GetBackend_later E)"
definition disk_code :: "cache_env \<Rightarrow> int" where "disk_code E = settled_code (DiskOperation E) (DiskOperation_later E)"

section \<open>Clearing the cache\<close>

datatype clear_callback = DoomHttpCacheCallback | PostCallbackCallback

datatype clear_effect = ClearCachedStatesInCryptoConfig | DoomEntriesBetween int int | ClientReply int

text \<open>
  \<open>awaited\<close>: the callback the cache has to run.  The halves of a split callback share \<open>has_run\<close>; a callback
  that runs twice fails a \<^verbatim>\<open>CHECK\<close> of \<^verbatim>\<open>SplitOnceCallback\<close>.
\<close>

record clear_state =
  network_task :: bool
  awaited :: "clear_callback option"
  doom_has_run :: bool
  callback_has_run :: bool
  clear_log :: "clear_effect list"

text \<open>Running the client's callback means posting it to the thread of the client.\<close>

definition PostCallback :: "int \<Rightarrow> clear_state \<Rightarrow> clear_state res" where
  "PostCallback error s =
     ccheck (\<not> callback_has_run s) ''!has_run_''
       (Inr (s\<lparr>callback_has_run := True, clear_log := clear_log s @ [ClientReply error]\<rparr>))"

definition DoomHttpCache :: "cache_env \<Rightarrow> int \<Rightarrow> int \<Rightarrow> int \<Rightarrow> clear_state \<Rightarrow> clear_state res" where
  "DoomHttpCache E delete_begin delete_end error s =
     ccheck (\<not> doom_has_run s) ''!has_run_''
     (let s = s\<lparr>doom_has_run := True\<rparr> in
      if backend_created E
      then let s = s\<lparr>clear_log := clear_log s @ [DoomEntriesBetween delete_begin delete_end]\<rparr>;
               rv = DiskOperation E
           in if rv \<noteq> ERR_IO_PENDING then PostCallback rv s else Inr (s\<lparr>awaited := Some PostCallbackCallback\<rparr>)
      else PostCallback error s)"

definition ClearHttpCacheOnIOThread :: "cache_env \<Rightarrow> int \<Rightarrow> int \<Rightarrow> clear_state \<Rightarrow> clear_state res" where
  "ClearHttpCacheOnIOThread E delete_begin delete_end s =
     (let s = s\<lparr>clear_log := clear_log s @ [ClearCachedStatesInCryptoConfig]\<rparr>;
          rv = GetBackend E
      in if rv \<noteq> ERR_IO_PENDING then DoomHttpCache E delete_begin delete_end rv s
         else Inr (s\<lparr>awaited := Some DoomHttpCacheCallback\<rparr>))"

text \<open>The null time is 0.\<close>

definition ClearHttpCache :: "int \<Rightarrow> int \<Rightarrow> clear_state \<Rightarrow> clear_state res" where
  "ClearHttpCache delete_begin delete_end s =
     dcheck (delete_end \<noteq> 0) ''delete_end != base::Time()'' (Inr (s\<lparr>network_task := True\<rparr>))"

datatype clear_event = RunNetworkTask | RunCacheCallback

fun clear_exec :: "cache_env \<Rightarrow> int \<Rightarrow> int \<Rightarrow> clear_event \<Rightarrow> clear_state \<Rightarrow> clear_state res" where
  "clear_exec E b e RunNetworkTask s =
     (if network_task s then ClearHttpCacheOnIOThread E b e (s\<lparr>network_task := False\<rparr>) else Inr s)"
| "clear_exec E b e RunCacheCallback s =
     (case awaited s of
        None \<Rightarrow> Inr s
      | Some DoomHttpCacheCallback \<Rightarrow> DoomHttpCache E b e (GetBackend_later E) (s\<lparr>awaited := None\<rparr>)
      | Some PostCallbackCallback \<Rightarrow> PostCallback (DiskOperation_later E) (s\<lparr>awaited := None\<rparr>))"

definition clear_start :: clear_state where
  "clear_start = \<lparr>network_task = False, awaited = None, doom_has_run = False, callback_has_run = False, clear_log = []\<rparr>"

text \<open>What a complete run logs: one answer, with the code of the last function that was called.\<close>

definition clear_result :: "cache_env \<Rightarrow> int" where
  "clear_result E = (if backend_created E then disk_code E else backend_code E)"

definition cleared_log :: "cache_env \<Rightarrow> int \<Rightarrow> int \<Rightarrow> clear_effect list" where
  "cleared_log E b e = ClearCachedStatesInCryptoConfig #
     (if backend_created E then [DoomEntriesBetween b e] else []) @ [ClientReply (clear_result E)]"

inductive clear_inv :: "cache_env \<Rightarrow> int \<Rightarrow> int \<Rightarrow> clear_state \<Rightarrow> bool" for E b e where
  posted: "clear_inv E b e (clear_start\<lparr>network_task := True\<rparr>)"
| getting: "GetBackend E = ERR_IO_PENDING \<Longrightarrow>
    clear_inv E b e (clear_start\<lparr>awaited := Some DoomHttpCacheCallback, clear_log := [ClearCachedStatesInCryptoConfig]\<rparr>)"
| dooming: "backend_created E \<Longrightarrow> DiskOperation E = ERR_IO_PENDING \<Longrightarrow>
    clear_inv E b e (clear_start\<lparr>awaited := Some PostCallbackCallback, doom_has_run := True,
      clear_log := [ClearCachedStatesInCryptoConfig, DoomEntriesBetween b e]\<rparr>)"
| finished: "clear_inv E b e (clear_start\<lparr>doom_has_run := True, callback_has_run := True, clear_log := cleared_log E b e\<rparr>)"

inductive_cases clear_invE: "clear_inv E b e s"

lemmas clear_defs = clear_start_def ClearHttpCacheOnIOThread_def DoomHttpCache_def PostCallback_def cleared_log_def
  clear_result_def disk_code_def settled_code_def

lemma DoomHttpCache_inv:
  "\<exists>s'. DoomHttpCache E b e (backend_code E)
     (clear_start\<lparr>clear_log := [ClearCachedStatesInCryptoConfig]\<rparr>) = Inr s' \<and> clear_inv E b e s'"
proof (cases "backend_created E \<and> DiskOperation E = ERR_IO_PENDING")
  case True
  then show ?thesis using clear_inv.dooming [of E b e] by (simp add: DoomHttpCache_def clear_start_def)
next
  case False
  then have "DoomHttpCache E b e (backend_code E) (clear_start\<lparr>clear_log := [ClearCachedStatesInCryptoConfig]\<rparr>) =
      Inr (clear_start\<lparr>doom_has_run := True, callback_has_run := True, clear_log := cleared_log E b e\<rparr>)"
    by (auto simp: clear_defs)
  then show ?thesis using clear_inv.finished by auto
qed

lemma clear_step:
  assumes "clear_inv E b e s"
  shows "\<exists>s'. clear_exec E b e ev s = Inr s' \<and> clear_inv E b e s'"
  using assms
proof cases
  case posted
  show ?thesis
  proof (cases ev)
    case RunNetworkTask
    show ?thesis
    proof (cases "GetBackend E = ERR_IO_PENDING")
      case True
      then show ?thesis using clear_inv.getting [of E b e] posted RunNetworkTask by (simp add: clear_defs)
    next
      case False
      then have "backend_code E = GetBackend E" by (simp add: backend_code_def settled_code_def)
      then show ?thesis
        using DoomHttpCache_inv [of E b e] False posted RunNetworkTask by (simp add: ClearHttpCacheOnIOThread_def clear_start_def)
    qed
  next
    case RunCacheCallback
    then show ?thesis using assms posted by (simp add: clear_start_def)
  qed
next
  case getting
  then have "backend_code E = GetBackend_later E" by (simp add: backend_code_def settled_code_def)
  then show ?thesis using DoomHttpCache_inv [of E b e] getting assms by (cases ev) (simp_all add: clear_start_def)
next
  case dooming
  then show ?thesis using clear_inv.finished [of E b e] assms by (cases ev) (simp_all add: clear_defs)
next
  case finished
  then show ?thesis using assms by (cases ev) (simp_all add: clear_start_def)
qed

lemma clear_run: "clear_inv E b e s \<Longrightarrow> \<exists>s'. run_events (clear_exec E b e) evs s = Inr s' \<and> clear_inv E b e s'"
proof (induction evs arbitrary: s)
  case (Cons ev evs)
  then show ?case using clear_step [of E b e s ev] by fastforce
qed simp

lemma clear_finishes:
  assumes "clear_inv E b e s"
  shows "\<exists>s'. run_events (clear_exec E b e) [RunNetworkTask, RunCacheCallback, RunCacheCallback] s = Inr s' \<and> clear_log s' = cleared_log E b e"
  using assms
  by cases (auto simp: clear_defs backend_code_def)

text \<open>
  Property C40.  A request to clear the cache is answered exactly once, whether the network stack
  answers at once or later: in any sequence of events no callback runs twice, an answer is the last thing
  that happens, and when the task and the callbacks have run, the entries have been doomed if there is
  a backend and the client has the code of the last operation.
\<close>

theorem cache_cleared_once:
  assumes "delete_end \<noteq> 0"
  shows "\<exists>s0. ClearHttpCache delete_begin delete_end clear_start = Inr s0 \<and>
    (\<forall>evs. \<exists>s s'. run_events (clear_exec E delete_begin delete_end) evs s0 = Inr s \<and>
      (\<forall>r. ClientReply r \<in> set (clear_log s) \<longrightarrow> clear_log s = cleared_log E delete_begin delete_end) \<and>
      run_events (clear_exec E delete_begin delete_end) [RunNetworkTask, RunCacheCallback, RunCacheCallback] s = Inr s' \<and>
      clear_log s' = cleared_log E delete_begin delete_end)"
proof -
  have s0: "ClearHttpCache delete_begin delete_end clear_start = Inr (clear_start\<lparr>network_task := True\<rparr>)"
    using assms by (simp add: ClearHttpCache_def)
  have "ClientReply r \<in> set (clear_log s) \<longrightarrow> clear_log s = cleared_log E delete_begin delete_end"
    if "clear_inv E delete_begin delete_end s" for s r
    using that by cases (auto simp: clear_start_def)
  then show ?thesis
    using s0 clear_run [OF clear_inv.posted] clear_finishes by metis
qed

theorem cache_cleared_once_witness:
  "\<exists>s0 s. ClearHttpCache 1 5 clear_start = Inr s0 \<and>
     run_events (clear_exec \<lparr>GetBackend = -1, GetBackend_later = 0, backend_created = True, DiskOperation = -1, DiskOperation_later = -2\<rparr> 1 5)
       [RunCacheCallback, RunNetworkTask, RunCacheCallback, RunCacheCallback] s0 = Inr s \<and>
     clear_log s = [ClearCachedStatesInCryptoConfig, DoomEntriesBetween 1 5, ClientReply (-2)]"
proof -
  let ?E = "\<lparr>GetBackend = -1, GetBackend_later = 0, backend_created = True, DiskOperation = -1, DiskOperation_later = -2\<rparr>"
  have log: "cleared_log ?E 1 5 = [ClearCachedStatesInCryptoConfig, DoomEntriesBetween 1 5, ClientReply (-2)]"
    by (simp add: clear_defs backend_code_def net_OK_def ERR_IO_PENDING_def)
  obtain s0 where s0: "ClearHttpCache 1 5 clear_start = Inr s0"
    "\<forall>evs. \<exists>s s'. run_events (clear_exec ?E 1 5) evs s0 = Inr s \<and>
      (\<forall>r. ClientReply r \<in> set (clear_log s) \<longrightarrow> clear_log s = cleared_log ?E 1 5) \<and>
      run_events (clear_exec ?E 1 5) [RunNetworkTask, RunCacheCallback, RunCacheCallback] s = Inr s' \<and> clear_log s' = cleared_log ?E 1 5"
    using cache_cleared_once [of 5 1 ?E] by auto
  from s0(2) obtain s s' where s: "run_events (clear_exec ?E 1 5) [RunCacheCallback] s0 = Inr s"
      "run_events (clear_exec ?E 1 5) [RunNetworkTask, RunCacheCallback, RunCacheCallback] s = Inr s'" "clear_log s' = cleared_log ?E 1 5"
    by blast
  have "run_events (clear_exec ?E 1 5) ([RunCacheCallback] @ [RunNetworkTask, RunCacheCallback, RunCacheCallback]) s0 = Inr s'"
    unfolding run_events_append s(1) by (simp only: rbind.simps s(2))
  then show ?thesis using s0(1) s(3) log by auto
qed

section \<open>Counting the cache\<close>

text \<open>
  \<^verbatim>\<open>IOThreadCacheCounter\<close> lives from \<open>Count\<close> to the task on the UI thread that deletes it; calls after that are
  failures.  \<open>counter_alive\<close> is the weak pointer to the \<^verbatim>\<open>CacheCounter\<close> that gets the result.
\<close>

datatype counter_step = STEP_GET_BACKEND | STEP_COUNT | STEP_CALLBACK

record cache_counter =
  next_step :: counter_step
  counter_result :: int
  has_backend :: bool
  io_task_posted :: bool
  callback_awaited :: bool
  ui_task_posted :: bool
  counter_deleted :: bool
  counter_alive :: bool
  reported :: "int list"

fun step_measure :: "counter_step \<Rightarrow> nat" where
  "step_measure STEP_GET_BACKEND = 2" | "step_measure STEP_COUNT = 1" | "step_measure STEP_CALLBACK = 0"

function CountInternal :: "cache_env \<Rightarrow> int \<Rightarrow> cache_counter \<Rightarrow> cache_counter res" where
  "CountInternal E rv s =
     (if rv = ERR_IO_PENDING then Inr (s\<lparr>callback_awaited := True\<rparr>)
      else case (if rv < 0 then STEP_CALLBACK else next_step s) of
        STEP_GET_BACKEND \<Rightarrow>
          CountInternal E (GetBackend E) (s\<lparr>next_step := STEP_COUNT, has_backend := backend_created E\<rparr>)
      | STEP_COUNT \<Rightarrow>
          if has_backend s then CountInternal E (DiskOperation E) (s\<lparr>next_step := STEP_CALLBACK\<rparr>)
          else Inl (DCheckFailed ''backend_'')
      | STEP_CALLBACK \<Rightarrow> Inr (s\<lparr>next_step := STEP_CALLBACK, counter_result := rv, ui_task_posted := True\<rparr>))"
  by pat_completeness auto
termination
  by (relation "measure (\<lambda>(E, rv, s). step_measure (next_step s))") (auto split: if_splits)

declare CountInternal.simps [simp del]

text \<open>\<^verbatim>\<open>CacheCounter::OnCacheSizeCalculated\<close>: a negative number is an error code.\<close>

definition OnCacheSizeCalculated :: "int \<Rightarrow> cache_counter \<Rightarrow> cache_counter" where
  "OnCacheSizeCalculated result_bytes s = (if result_bytes < 0 then s else s\<lparr>reported := reported s @ [result_bytes]\<rparr>)"

definition OnCountingFinished :: "cache_counter \<Rightarrow> cache_counter" where
  "OnCountingFinished s =
     (let s = (if counter_alive s then OnCacheSizeCalculated (counter_result s) s else s) in s\<lparr>counter_deleted := True\<rparr>)"

definition counter_start :: cache_counter where
  "counter_start = \<lparr>next_step = STEP_GET_BACKEND, counter_result = 0, has_backend = False, io_task_posted = True,
     callback_awaited = False, ui_task_posted = False, counter_deleted = False, counter_alive = True, reported = []\<rparr>"

datatype counter_event = RunCounterIO | RunCounterCallback | RunCounterUI | DestroyCacheCounter

definition on_counter :: "cache_counter \<Rightarrow> cache_counter res \<Rightarrow> cache_counter res" where
  "on_counter s r = (if counter_deleted s then Inl (DanglingPointer ''this'') else r)"

fun counter_exec :: "cache_env \<Rightarrow> counter_event \<Rightarrow> cache_counter \<Rightarrow> cache_counter res" where
  "counter_exec E RunCounterIO s =
     (if io_task_posted s then on_counter s (CountInternal E net_OK (s\<lparr>io_task_posted := False\<rparr>)) else Inr s)"
| "counter_exec E RunCounterCallback s =
     (if callback_awaited s
      then on_counter s (CountInternal E (if next_step s = STEP_COUNT then GetBackend_later E else DiskOperation_later E)
             (s\<lparr>callback_awaited := False\<rparr>))
      else Inr s)"
| "counter_exec E RunCounterUI s =
     (if ui_task_posted s then on_counter s (Inr (OnCountingFinished (s\<lparr>ui_task_posted := False\<rparr>))) else Inr s)"
| "counter_exec E DestroyCacheCounter s = Inr (s\<lparr>counter_alive := False\<rparr>)"

definition cache_env_ok :: "cache_env \<Rightarrow> bool" where
  "cache_env_ok E \<longleftrightarrow> GetBackend_later E \<noteq> ERR_IO_PENDING \<and> DiskOperation_later E \<noteq> ERR_IO_PENDING \<and> backend_code E \<le> 0 \<and>
    (backend_code E = net_OK \<longrightarrow> backend_created E)"

definition counter_code :: "cache_env \<Rightarrow> int" where
  "counter_code E = (if backend_code E < 0 then backend_code E else disk_code E)"

inductive counter_inv :: "cache_env \<Rightarrow> cache_counter \<Rightarrow> bool" for E where
  count_posted: "counter_inv E (counter_start\<lparr>counter_alive := l\<rparr>)"
| count_getting: "GetBackend E = ERR_IO_PENDING \<Longrightarrow>
    counter_inv E (counter_start\<lparr>counter_alive := l, io_task_posted := False, callback_awaited := True, next_step := STEP_COUNT,
      has_backend := backend_created E\<rparr>)"
| count_counting: "backend_code E = net_OK \<Longrightarrow> DiskOperation E = ERR_IO_PENDING \<Longrightarrow>
    counter_inv E (counter_start\<lparr>counter_alive := l, io_task_posted := False, callback_awaited := True, next_step := STEP_CALLBACK,
      has_backend := True\<rparr>)"
| count_replying:
    "counter_inv E (counter_start\<lparr>counter_alive := l, io_task_posted := False, ui_task_posted := True, next_step := STEP_CALLBACK,
      has_backend := h, counter_result := counter_code E\<rparr>)"
| count_deleted: "counter_deleted s \<Longrightarrow> \<not> io_task_posted s \<Longrightarrow> \<not> callback_awaited s \<Longrightarrow> \<not> ui_task_posted s \<Longrightarrow>
    reported s \<in> {[], [counter_code E]} \<Longrightarrow> counter_inv E s"

lemma CountInternal_reply:
  assumes "rv \<noteq> ERR_IO_PENDING" "rv < 0 \<or> next_step s = STEP_CALLBACK"
  shows "CountInternal E rv s = Inr (s\<lparr>next_step := STEP_CALLBACK, counter_result := rv, ui_task_posted := True\<rparr>)"
  using assms by (auto simp: CountInternal.simps [of E rv s])

lemma CountInternal_count:
  assumes "backend_code E = net_OK"
    and s_def: "s = counter_start\<lparr>counter_alive := l, io_task_posted := False, next_step := STEP_COUNT, has_backend := True\<rparr>"
  shows "\<exists>s'. CountInternal E net_OK s = Inr s' \<and> counter_inv E s'"
proof -
  have one: "CountInternal E net_OK s = CountInternal E (DiskOperation E) (s\<lparr>next_step := STEP_CALLBACK\<rparr>)"
    by (subst CountInternal.simps) (simp add: s_def net_OK_def ERR_IO_PENDING_def)
  show ?thesis
  proof (cases "DiskOperation E = ERR_IO_PENDING")
    case True
    then have "CountInternal E (DiskOperation E) (s\<lparr>next_step := STEP_CALLBACK\<rparr>) =
        Inr (counter_start\<lparr>counter_alive := l, io_task_posted := False, callback_awaited := True, next_step := STEP_CALLBACK, has_backend := True\<rparr>)"
      by (subst CountInternal.simps) (simp add: s_def counter_start_def)
    then show ?thesis unfolding one using count_counting [OF assms(1) True] by auto
  next
    case False
    then have "CountInternal E (DiskOperation E) (s\<lparr>next_step := STEP_CALLBACK\<rparr>) =
        Inr (counter_start\<lparr>counter_alive := l, io_task_posted := False, ui_task_posted := True, next_step := STEP_CALLBACK,
          has_backend := True, counter_result := counter_code E\<rparr>)"
      using CountInternal_reply [OF False] assms(1)
      by (simp add: s_def counter_start_def counter_code_def net_OK_def disk_code_def settled_code_def)
    then show ?thesis unfolding one using count_replying [of E True l] by auto
  qed
qed

lemma CountInternal_backend:
  assumes "cache_env_ok E"
    "s = counter_start\<lparr>counter_alive := l, io_task_posted := False, next_step := STEP_COUNT, has_backend := backend_created E\<rparr>"
    "backend_code E \<noteq> ERR_IO_PENDING"
  shows "\<exists>s'. CountInternal E (backend_code E) s = Inr s' \<and> counter_inv E s'"
proof (cases "backend_code E = net_OK")
  case True
  then have "backend_created E" using assms(1) by (simp add: cache_env_ok_def)
  then show ?thesis using True CountInternal_count [OF True, of s l] by (simp add: assms(2))
next
  case False
  then have neg: "backend_code E < 0" using assms(1) by (simp add: cache_env_ok_def net_OK_def)
  have "CountInternal E (backend_code E) s =
      Inr (counter_start\<lparr>counter_alive := l, io_task_posted := False, ui_task_posted := True, next_step := STEP_CALLBACK,
        has_backend := backend_created E, counter_result := counter_code E\<rparr>)"
    using CountInternal_reply [OF assms(3), of s E] neg False by (simp add: assms(2) counter_start_def counter_code_def)
  then show ?thesis using count_replying [of E "backend_created E" l] by auto
qed

lemma counter_step:
  assumes "cache_env_ok E" "counter_inv E s"
  shows "\<exists>s'. counter_exec E ev s = Inr s' \<and> counter_inv E s'"
  using assms(2)
proof cases
  case (count_posted l)
  show ?thesis
  proof (cases ev)
    case RunCounterIO
    let ?s = "counter_start\<lparr>counter_alive := l, io_task_posted := False, next_step := STEP_COUNT, has_backend := backend_created E\<rparr>"
    have one: "counter_exec E ev s = CountInternal E (GetBackend E) ?s"
      using RunCounterIO count_posted CountInternal.simps [of E net_OK "counter_start\<lparr>counter_alive := l, io_task_posted := False\<rparr>"]
      by (simp add: on_counter_def counter_start_def net_OK_def ERR_IO_PENDING_def)
    show ?thesis
    proof (cases "GetBackend E = ERR_IO_PENDING")
      case True
      then have "CountInternal E (GetBackend E) ?s = Inr (?s\<lparr>callback_awaited := True\<rparr>)"
        using CountInternal.simps [of E "GetBackend E" ?s] by simp
      moreover have "counter_inv E (?s\<lparr>callback_awaited := True\<rparr>)"
        using count_getting [OF True, of l] by (simp add: counter_start_def)
      ultimately show ?thesis using one by simp
    next
      case False
      then have "backend_code E = GetBackend E" by (simp add: backend_code_def settled_code_def)
      then show ?thesis using CountInternal_backend [OF assms(1), of ?s l] False one by simp
    qed
  next
    case DestroyCacheCounter
    then show ?thesis using counter_inv.count_posted [of E False] count_posted by (simp add: counter_start_def)
  qed (use assms(2) count_posted in \<open>simp_all add: counter_start_def\<close>)
next
  case (count_getting l)
  show ?thesis
  proof (cases ev)
    case RunCounterCallback
    let ?s = "counter_start\<lparr>counter_alive := l, io_task_posted := False, next_step := STEP_COUNT, has_backend := backend_created E\<rparr>"
    have "backend_code E = GetBackend_later E" using count_getting(2) by (simp add: backend_code_def settled_code_def)
    moreover from this have "backend_code E \<noteq> ERR_IO_PENDING" using assms(1) by (simp add: cache_env_ok_def)
    moreover have "counter_exec E ev s = CountInternal E (GetBackend_later E) ?s"
      using RunCounterCallback count_getting(1) by (simp add: on_counter_def counter_start_def)
    ultimately show ?thesis using CountInternal_backend [OF assms(1), of ?s l] by simp
  next
    case DestroyCacheCounter
    then show ?thesis using counter_inv.count_getting [OF count_getting(2), of False] count_getting(1) by (simp add: counter_start_def)
  qed (use assms(2) count_getting(1) in \<open>simp_all add: counter_start_def\<close>)
next
  case (count_counting l)
  show ?thesis
  proof (cases ev)
    case RunCounterCallback
    let ?s = "counter_start\<lparr>counter_alive := l, io_task_posted := False, next_step := STEP_CALLBACK, has_backend := True\<rparr>"
    have "counter_code E = DiskOperation_later E"
      using count_counting(2,3) by (simp add: counter_code_def disk_code_def settled_code_def net_OK_def)
    moreover have "CountInternal E (DiskOperation_later E) ?s =
        Inr (?s\<lparr>next_step := STEP_CALLBACK, counter_result := DiskOperation_later E, ui_task_posted := True\<rparr>)"
      by (rule CountInternal_reply) (use assms(1) in \<open>simp_all add: cache_env_ok_def\<close>)
    moreover have "counter_exec E ev s = CountInternal E (DiskOperation_later E) ?s"
      using RunCounterCallback count_counting(1) by (simp add: on_counter_def counter_start_def)
    ultimately show ?thesis using count_replying [of E True l] by (simp add: counter_start_def)
  next
    case DestroyCacheCounter
    then show ?thesis using counter_inv.count_counting [OF count_counting(2,3), of False] count_counting(1) by (simp add: counter_start_def)
  qed (use assms(2) count_counting(1) in \<open>simp_all add: counter_start_def\<close>)
next
  case (count_replying h l)
  show ?thesis
  proof (cases ev)
    case RunCounterUI
    then show ?thesis using count_replying
      by (auto simp: on_counter_def OnCountingFinished_def OnCacheSizeCalculated_def counter_start_def intro!: count_deleted)
  next
    case DestroyCacheCounter
    then show ?thesis using counter_inv.count_replying [of E h False] count_replying by (simp add: counter_start_def)
  qed (use assms(2) count_replying in \<open>simp_all add: counter_start_def\<close>)
next
  case count_deleted
  then show ?thesis using assms(2) by (cases ev) (auto intro!: counter_inv.count_deleted)
qed

lemma counter_run:
  assumes "cache_env_ok E"
  shows "counter_inv E s \<Longrightarrow> \<exists>s'. run_events (counter_exec E) evs s = Inr s' \<and> counter_inv E s'"
proof (induction evs arbitrary: s)
  case (Cons ev evs)
  then show ?case using counter_step [OF assms, of s ev] by fastforce
qed simp

text \<open>Without interference the result arrives.\<close>

lemma counter_finishes:
  assumes "cache_env_ok E"
  shows "\<exists>s. run_events (counter_exec E) [RunCounterIO, RunCounterCallback, RunCounterCallback, RunCounterUI] counter_start = Inr s \<and>
    counter_deleted s \<and> reported s = (if counter_code E < 0 then [] else [counter_code E])"
proof -
  have ok: "GetBackend_later E \<noteq> -1" "DiskOperation_later E \<noteq> -1" "backend_code E \<le> 0"
      "settled_code (GetBackend E) (GetBackend_later E) = 0 \<Longrightarrow> backend_created E"
    using assms by (simp_all add: cache_env_ok_def ERR_IO_PENDING_def net_OK_def backend_code_def)
  note unf = on_counter_def CountInternal.simps OnCountingFinished_def OnCacheSizeCalculated_def counter_start_def net_OK_def
    ERR_IO_PENDING_def counter_code_def backend_code_def disk_code_def settled_code_def Let_def
  consider "GetBackend E = -1" "GetBackend_later E < 0" | "GetBackend E = -1" "GetBackend_later E = 0" "DiskOperation E = -1"
    | "GetBackend E = -1" "GetBackend_later E = 0" "DiskOperation E \<noteq> -1"
    | "GetBackend E \<noteq> -1" "GetBackend E < 0" | "GetBackend E = 0" "DiskOperation E = -1" | "GetBackend E = 0" "DiskOperation E \<noteq> -1"
    using ok(3) by (fastforce simp: backend_code_def settled_code_def ERR_IO_PENDING_def split: if_splits)
  then show ?thesis
    by cases (use ok(1,2,4) in \<open>auto simp: unf\<close>)
qed

text \<open>
  Counting is safe in any order of the events, with the counter that asked for it deleted or not: the object
  that counts is not used after it has deleted itself, and at most one result is reported, the size of the
  cache.  If the counter lives it is reported, unless the network stack returned an error.
\<close>

theorem cache_counted_once:
  assumes "cache_env_ok E"
  shows "(\<exists>s. run_events (counter_exec E) evs counter_start = Inr s \<and> reported s \<in> {[], [counter_code E]}) \<and>
    (\<exists>s. run_events (counter_exec E) [RunCounterIO, RunCounterCallback, RunCounterCallback, RunCounterUI] counter_start = Inr s \<and>
      counter_deleted s \<and> reported s = (if counter_code E < 0 then [] else [counter_code E]))"
proof -
  have "counter_inv E counter_start" using count_posted [of E True] by (simp add: counter_start_def)
  from counter_run [OF assms this] obtain s where s: "run_events (counter_exec E) evs counter_start = Inr s" "counter_inv E s"
    by blast
  from s(2) have "reported s \<in> {[], [counter_code E]}" by cases (auto simp: counter_start_def)
  then show ?thesis using s(1) counter_finishes [OF assms] by blast
qed

end
