(* ===== verification/Browser_State_Info_Cache.thy ===== *)
theory Browser_State_Info_Cache
  imports Prelude "HOL-Library.Word" "HOL-Library.List_Lexorder" "HOL-Library.Char_ord"
begin

text \<open>
  \<^verbatim>\<open>chrome/browser/browser_state/browser_state_info_cache.cc\<close>: what is remembered about every
  browser state (profile) in the local preferences, and the sorted vector of their keys through which
  the rest of the browser addresses them by index.

  A \<^verbatim>\<open>base::Value\<close> dictionary is an association list ordered by key, as its
  \<^verbatim>\<open>flat_map\<close> is; \<^verbatim>\<open>std::string\<close> is compared byte by byte.  The operations on file paths and the
  conversions between encodings are not part of the repository: they are the fields of
  \<open>base_ops\<close>, and what is relied on is a hypothesis of the theorems.
\<close>

section \<open>Data\<close>

type_synonym u16string = "16 word list"

record 'p base_ops =
  DirName :: "'p \<Rightarrow> 'p"
  BaseName :: "'p \<Rightarrow> 'p"
  MaybeAsASCII :: "'p \<Rightarrow> string"
  AppendASCII :: "'p \<Rightarrow> string \<Rightarrow> 'p"
  UTF16ToUTF8 :: "u16string \<Rightarrow> string"
  ASCIIToUTF16 :: "string \<Rightarrow> u16string"

text \<open>The dictionary stored for one browser state, with its three keys.\<close>

record browser_state_info =
  kGAIAIdKey :: "string option"
  kUserNameKey :: "string option"
  kIsAuthErrorKey :: "bool option"

datatype 'p info_cache_notification =
    OnBrowserStateAdded nat 'p
  | OnBrowserStateWasRemoved nat 'p

record 'p info_cache =
  info_prefs :: "(string \<times> browser_state_info) list"
  sorted_keys :: "string list"
  user_data_dir :: 'p
  observer_list :: "nat list"
  info_log :: "'p info_cache_notification list"

section \<open>Dictionaries and sorted vectors\<close>

fun SetKey :: "'k::linorder \<Rightarrow> 'v \<Rightarrow> ('k \<times> 'v) list \<Rightarrow> ('k \<times> 'v) list" where
  "SetKey k v [] = [(k, v)]"
| "SetKey k v ((k', v') # d) =
     (if k < k' then (k, v) # (k', v') # d
      else if k = k' then (k, v) # d
      else (k', v') # SetKey k v d)"

definition RemoveKey :: "'k \<Rightarrow> ('k \<times> 'v) list \<Rightarrow> ('k \<times> 'v) list" where
  "RemoveKey k d = filter (\<lambda>e. fst e \<noteq> k) d"

definition upper_bound :: "'k::linorder \<Rightarrow> 'k list \<Rightarrow> nat" where
  "upper_bound k ks = length (takeWhile (\<lambda>x. x \<le> k) ks)"

section \<open>The cache\<close>

definition AddBrowserStateCacheKey :: "string \<Rightarrow> 'p info_cache \<Rightarrow> 'p info_cache" where
  "AddBrowserStateCacheKey key C =
     C\<lparr>sorted_keys := insert_at (upper_bound key (sorted_keys C)) key (sorted_keys C)\<rparr>"

definition BrowserStateInfoCache ::
    "(string \<times> browser_state_info) list \<Rightarrow> 'p \<Rightarrow> 'p info_cache" where
  "BrowserStateInfoCache prefs dir =
     fold (\<lambda>it. AddBrowserStateCacheKey (fst it)) prefs
       \<lparr>info_prefs = prefs, sorted_keys = [], user_data_dir = dir, observer_list = [], info_log = []\<rparr>"

definition CacheKeyFromBrowserStatePath :: "'p base_ops \<Rightarrow> 'p \<Rightarrow> 'p info_cache \<Rightarrow> string res" where
  "CacheKeyFromBrowserStatePath B p C =
     dcheck (user_data_dir C = DirName B p) ''user_data_dir_ == browser_state_path.DirName()''
       (Inr (MaybeAsASCII B (BaseName B p)))"

definition AddBrowserState ::
    "'p base_ops \<Rightarrow> 'p \<Rightarrow> string \<Rightarrow> u16string \<Rightarrow> 'p info_cache \<Rightarrow> 'p info_cache res" where
  "AddBrowserState B p gaia_id user_name C =
     rbind (CacheKeyFromBrowserStatePath B p C) (\<lambda>key.
       let info = \<lparr>kGAIAIdKey = Some gaia_id, kUserNameKey = Some (UTF16ToUTF8 B user_name),
                   kIsAuthErrorKey = None\<rparr>;
           C = AddBrowserStateCacheKey key (C\<lparr>info_prefs := SetKey key info (info_prefs C)\<rparr>)
       in Inr (C\<lparr>info_log := info_log C @ map (\<lambda>ob. OnBrowserStateAdded ob p) (observer_list C)\<rparr>))"

definition AddInfoObserver :: "nat \<Rightarrow> 'p info_cache \<Rightarrow> 'p info_cache" where
  "AddInfoObserver ob C = C\<lparr>observer_list := observer_list C @ [ob]\<rparr>"

definition RemoveInfoObserver :: "nat \<Rightarrow> 'p info_cache \<Rightarrow> 'p info_cache" where
  "RemoveInfoObserver ob C = C\<lparr>observer_list := removeAll ob (observer_list C)\<rparr>"

definition GetNumberOfBrowserStates :: "'p info_cache \<Rightarrow> nat" where
  "GetNumberOfBrowserStates C = length (sorted_keys C)"

text \<open>The result \<open>-1\<close> stands for \<^verbatim>\<open>std::string::npos\<close>.\<close>

definition GetIndexOfBrowserStateWithPath :: "'p base_ops \<Rightarrow> 'p \<Rightarrow> 'p info_cache \<Rightarrow> int res" where
  "GetIndexOfBrowserStateWithPath B p C =
     (if DirName B p \<noteq> user_data_dir C then Inr (-1)
      else rbind (CacheKeyFromBrowserStatePath B p C) (\<lambda>search_key.
        Inr (find_index (\<lambda>k. k = search_key) (sorted_keys C))))"

definition RemoveBrowserState :: "'p base_ops \<Rightarrow> 'p \<Rightarrow> 'p info_cache \<Rightarrow> 'p info_cache res" where
  "RemoveBrowserState B p C =
     rbind (GetIndexOfBrowserStateWithPath B p C) (\<lambda>index.
       if index = -1 then Inl (NotReached ''RemoveBrowserState'')
       else rbind (CacheKeyFromBrowserStatePath B p C) (\<lambda>key.
         let C = C\<lparr>info_prefs := RemoveKey key (info_prefs C)\<rparr>;
             position = find_index (\<lambda>k. k = key) (sorted_keys C)
         in if position = -1 then Inl (DanglingPointer ''sorted_keys_.end()'')
            else let C = C\<lparr>sorted_keys := remove_at (nat position) (sorted_keys C)\<rparr>
              in Inr (C\<lparr>info_log := info_log C @
                    map (\<lambda>ob. OnBrowserStateWasRemoved ob p) (observer_list C)\<rparr>)))"

text \<open>\<open>FindDictKey\<close> returns a null pointer for a key that is not in the dictionary.\<close>

definition GetInfoForBrowserStateAtIndex :: "nat \<Rightarrow> 'p info_cache \<Rightarrow> browser_state_info option res" where
  "GetInfoForBrowserStateAtIndex index C =
     dcheck (index < GetNumberOfBrowserStates C) ''index < GetNumberOfBrowserStates()''
       (Inr (map_of (info_prefs C) (sorted_keys C ! index)))"

definition deref_info :: "browser_state_info option \<Rightarrow> browser_state_info res" where
  "deref_info value = (case value of None \<Rightarrow> Inl (DanglingPointer ''nullptr'') | Some info \<Rightarrow> Inr info)"

definition SetInfoForBrowserStateAtIndex ::
    "nat \<Rightarrow> browser_state_info \<Rightarrow> 'p info_cache \<Rightarrow> 'p info_cache" where
  "SetInfoForBrowserStateAtIndex index info C =
     C\<lparr>info_prefs := SetKey (sorted_keys C ! index) info (info_prefs C)\<rparr>"

definition GetUserNameOfBrowserStateAtIndex ::
    "'p base_ops \<Rightarrow> nat \<Rightarrow> 'p info_cache \<Rightarrow> u16string res" where
  "GetUserNameOfBrowserStateAtIndex B index C =
     rbind (GetInfoForBrowserStateAtIndex index C) (\<lambda>value. rbind (deref_info value) (\<lambda>info.
       Inr (case kUserNameKey info of None \<Rightarrow> [] | Some user_name \<Rightarrow> ASCIIToUTF16 B user_name)))"

definition GetPathOfBrowserStateAtIndex :: "'p base_ops \<Rightarrow> nat \<Rightarrow> 'p info_cache \<Rightarrow> 'p res" where
  "GetPathOfBrowserStateAtIndex B index C =
     (if index < length (sorted_keys C)
      then Inr (AppendASCII B (user_data_dir C) (sorted_keys C ! index))
      else Inl (CheckFailed ''vector index''))"

definition GetGAIAIdOfBrowserStateAtIndex :: "nat \<Rightarrow> 'p info_cache \<Rightarrow> string res" where
  "GetGAIAIdOfBrowserStateAtIndex index C =
     rbind (GetInfoForBrowserStateAtIndex index C) (\<lambda>value. rbind (deref_info value) (\<lambda>info.
       Inr (case kGAIAIdKey info of None \<Rightarrow> [] | Some gaia_id \<Rightarrow> gaia_id)))"

definition BrowserStateIsAuthenticatedAtIndex ::
    "'p base_ops \<Rightarrow> nat \<Rightarrow> 'p info_cache \<Rightarrow> bool res" where
  "BrowserStateIsAuthenticatedAtIndex B index C =
     rbind (GetGAIAIdOfBrowserStateAtIndex index C) (\<lambda>gaia_id.
       if gaia_id \<noteq> [] then Inr True
       else rbind (GetUserNameOfBrowserStateAtIndex B index C) (\<lambda>user_name. Inr (user_name \<noteq> [])))"

definition BrowserStateIsAuthErrorAtIndex :: "nat \<Rightarrow> 'p info_cache \<Rightarrow> bool res" where
  "BrowserStateIsAuthErrorAtIndex index C =
     rbind (GetInfoForBrowserStateAtIndex index C) (\<lambda>value. rbind (deref_info value) (\<lambda>info.
       Inr (case kIsAuthErrorKey info of None \<Rightarrow> False | Some b \<Rightarrow> b)))"

definition SetAuthInfoOfBrowserStateAtIndex ::
    "'p base_ops \<Rightarrow> nat \<Rightarrow> string \<Rightarrow> u16string \<Rightarrow> 'p info_cache \<Rightarrow> 'p info_cache res" where
  "SetAuthInfoOfBrowserStateAtIndex B index gaia_id user_name C =
     rbind (GetGAIAIdOfBrowserStateAtIndex index C) (\<lambda>old_id.
     rbind (if gaia_id = old_id
            then rbind (GetUserNameOfBrowserStateAtIndex B index C) (\<lambda>old_name. Inr (user_name = old_name))
            else Inr False) (\<lambda>unchanged.
     if unchanged then Inr C
     else rbind (GetInfoForBrowserStateAtIndex index C) (\<lambda>value. rbind (deref_info value) (\<lambda>info.
       Inr (SetInfoForBrowserStateAtIndex index
              (info\<lparr>kGAIAIdKey := Some gaia_id, kUserNameKey := Some (UTF16ToUTF8 B user_name)\<rparr>) C)))))"

definition SetBrowserStateIsAuthErrorAtIndex :: "nat \<Rightarrow> bool \<Rightarrow> 'p info_cache \<Rightarrow> 'p info_cache res" where
  "SetBrowserStateIsAuthErrorAtIndex index b C =
     rbind (BrowserStateIsAuthErrorAtIndex index C) (\<lambda>old.
       if b = old then Inr C
       else rbind (GetInfoForBrowserStateAtIndex index C) (\<lambda>value. rbind (deref_info value) (\<lambda>info.
         Inr (SetInfoForBrowserStateAtIndex index (info\<lparr>kIsAuthErrorKey := Some b\<rparr>) C))))"

text \<open>The mutating interface as data, to speak about sequences of calls.\<close>

datatype 'p info_cache_op =
    OpAdd 'p string u16string
  | OpRemove 'p
  | OpSetAuthInfo nat string u16string
  | OpSetAuthError nat bool
  | OpAddObserver nat
  | OpRemoveObserver nat

fun info_cache_exec :: "'p base_ops \<Rightarrow> 'p info_cache_op \<Rightarrow> 'p info_cache \<Rightarrow> 'p info_cache res" where
  "info_cache_exec B (OpAdd p g u) C = AddBrowserState B p g u C"
| "info_cache_exec B (OpRemove p) C = RemoveBrowserState B p C"
| "info_cache_exec B (OpSetAuthInfo i g u) C = SetAuthInfoOfBrowserStateAtIndex B i g u C"
| "info_cache_exec B (OpSetAuthError i b) C = SetBrowserStateIsAuthErrorAtIndex i b C"
| "info_cache_exec B (OpAddObserver ob) C = Inr (AddInfoObserver ob C)"
| "info_cache_exec B (OpRemoveObserver ob) C = Inr (RemoveInfoObserver ob C)"

section \<open>Facts about the containers\<close>

lemma SetKey_keys [simp]: "set (map fst (SetKey k v d)) = insert k (set (map fst d))"
  by (induction k v d rule: SetKey.induct) auto

lemma SetKey_keys' [simp]: "fst ` set (SetKey k v d) = insert k (fst ` set d)"
  using SetKey_keys [of k v d] by simp

lemma SetKey_sorted: "sorted_wrt (<) (map fst d) \<Longrightarrow> sorted_wrt (<) (map fst (SetKey k v d))"
  by (induction k v d rule: SetKey.induct) auto

lemma SetKey_lookup: "sorted_wrt (<) (map fst d) \<Longrightarrow> map_of (SetKey k v d) = (map_of d)(k \<mapsto> v)"
proof (induction k v d rule: SetKey.induct)
  case (2 k v k' v' d)
  then show ?case by (auto simp: fun_eq_iff)
qed auto

lemma RemoveKey_keys [simp]: "fst ` set (RemoveKey k d) = fst ` set d - {k}"
  by (auto simp: RemoveKey_def)

lemma RemoveKey_sorted: "sorted_wrt (<) (map fst d) \<Longrightarrow> sorted_wrt (<) (map fst (RemoveKey k d))"
  unfolding RemoveKey_def by (induction d) auto

lemma RemoveKey_lookup: "map_of (RemoveKey k d) = (map_of d)(k := None)"
  unfolding RemoveKey_def by (induction d) (auto simp: fun_eq_iff)

lemma upper_bound_le: "upper_bound k ks \<le> length ks"
  by (simp add: upper_bound_def length_takeWhile_le)

lemma insert_upper_bound:
  "insert_at (upper_bound k ks) k ks = takeWhile (\<lambda>x. x \<le> k) ks @ k # dropWhile (\<lambda>x. x \<le> k) ks"
  by (simp add: insert_at_def upper_bound_def takeWhile_eq_take [symmetric] dropWhile_eq_drop [symmetric])

lemma sorted_insert_upper_bound:
  assumes "sorted ks"
  shows "sorted (insert_at (upper_bound k ks) k ks)"
proof -
  have drop: "\<forall>x \<in> set (dropWhile (\<lambda>x. x \<le> k) ks). k \<le> x"
    using assms by (induction ks) auto
  have "sorted (takeWhile (\<lambda>x. x \<le> k) ks)" "sorted (dropWhile (\<lambda>x. x \<le> k) ks)"
    using assms by (simp_all add: sorted_dropWhile)
  then show ?thesis using drop
    by (auto simp: insert_upper_bound sorted_append dest!: set_takeWhileD intro: order_trans)
qed

lemma sorted_remove_at: "sorted xs \<Longrightarrow> sorted (remove_at i xs)"
  unfolding remove_at_def sorted_append
  by (metis Suc_n_not_le_n append_take_drop_id nle_le set_drop_subset_set_drop sorted_append
      sorted_wrt_drop sorted_wrt_take subset_iff)


lemma count_list_insert_at: "count_list (insert_at i x xs) x = Suc (count_list xs x)"
proof -
  have "count_list xs x = count_list (take i xs) x + count_list (drop i xs) x"
    by (simp add: count_list_append [symmetric])
  then show ?thesis by (simp add: insert_at_def)
qed

lemma count_list_remove_at:
  assumes "i < length xs"
  shows "count_list xs y = count_list (remove_at i xs) y + (if xs ! i = y then 1 else 0)"
  by (subst id_take_nth_drop [OF assms]) (simp add: remove_at_def)

section \<open>Invariant and abstract view\<close>

text \<open>
  The vector of keys is sorted, without duplicates, and names exactly the entries of the dictionary.
  Abstractly the cache is the finite map \<open>map_of (info_prefs C)\<close>.
\<close>

definition info_cache_inv :: "'p info_cache \<Rightarrow> bool" where
  "info_cache_inv C \<longleftrightarrow> sorted_wrt (<) (map fst (info_prefs C)) \<and> sorted (sorted_keys C) \<and>
     distinct (sorted_keys C) \<and> set (sorted_keys C) = fst ` set (info_prefs C)"

definition state_key :: "'p base_ops \<Rightarrow> 'p \<Rightarrow> string" where
  "state_key B p = MaybeAsASCII B (BaseName B p)"

fun info_cache_pre :: "'p base_ops \<Rightarrow> 'p info_cache_op \<Rightarrow> 'p info_cache \<Rightarrow> bool" where
  "info_cache_pre B (OpAdd p g u) C \<longleftrightarrow>
     DirName B p = user_data_dir C \<and> GetIndexOfBrowserStateWithPath B p C = Inr (-1)"
| "info_cache_pre B (OpRemove p) C \<longleftrightarrow> GetIndexOfBrowserStateWithPath B p C \<noteq> Inr (-1)"
| "info_cache_pre B (OpSetAuthInfo i g u) C \<longleftrightarrow> i < GetNumberOfBrowserStates C"
| "info_cache_pre B (OpSetAuthError i b) C \<longleftrightarrow> i < GetNumberOfBrowserStates C"
| "info_cache_pre B (OpAddObserver ob) C \<longleftrightarrow> True"
| "info_cache_pre B (OpRemoveObserver ob) C \<longleftrightarrow> True"

text \<open>What each operation means for the abstract map; \<open>K\<close> are the keys in index order.\<close>

fun info_cache_spec ::
    "'p base_ops \<Rightarrow> string list \<Rightarrow> 'p info_cache_op \<Rightarrow> (string \<rightharpoonup> browser_state_info) \<Rightarrow>
     (string \<rightharpoonup> browser_state_info)" where
  "info_cache_spec B K (OpAdd p g u) m =
     m(state_key B p \<mapsto> \<lparr>kGAIAIdKey = Some g, kUserNameKey = Some (UTF16ToUTF8 B u), kIsAuthErrorKey = None\<rparr>)"
| "info_cache_spec B K (OpRemove p) m = m(state_key B p := None)"
| "info_cache_spec B K (OpSetAuthInfo i g u) m =
     (case m (K ! i) of None \<Rightarrow> m
      | Some info \<Rightarrow>
         if g = (case kGAIAIdKey info of None \<Rightarrow> [] | Some x \<Rightarrow> x) \<and>
            u = (case kUserNameKey info of None \<Rightarrow> [] | Some x \<Rightarrow> ASCIIToUTF16 B x)
         then m else m(K ! i \<mapsto> info\<lparr>kGAIAIdKey := Some g, kUserNameKey := Some (UTF16ToUTF8 B u)\<rparr>))"
| "info_cache_spec B K (OpSetAuthError i b) m =
     (case m (K ! i) of None \<Rightarrow> m
      | Some info \<Rightarrow> if b = (kIsAuthErrorKey info = Some True) then m
                     else m(K ! i \<mapsto> info\<lparr>kIsAuthErrorKey := Some b\<rparr>))"
| "info_cache_spec B K (OpAddObserver ob) m = m"
| "info_cache_spec B K (OpRemoveObserver ob) m = m"

lemma info_cache_invD:
  assumes "info_cache_inv C"
  shows "sorted_wrt (<) (map fst (info_prefs C))" "sorted (sorted_keys C)" "distinct (sorted_keys C)"
    "set (sorted_keys C) = fst ` set (info_prefs C)"
  using assms by (simp_all add: info_cache_inv_def)

lemma key_of_path:
  "DirName B p = user_data_dir C \<Longrightarrow> CacheKeyFromBrowserStatePath B p C = Inr (state_key B p)"
  by (simp add: CacheKeyFromBrowserStatePath_def state_key_def)

lemma index_of_path:
  "GetIndexOfBrowserStateWithPath B p C =
     Inr (if DirName B p = user_data_dir C then find_index (\<lambda>k. k = state_key B p) (sorted_keys C) else -1)"
  by (simp add: GetIndexOfBrowserStateWithPath_def key_of_path)

lemma info_present:
  assumes "info_cache_inv C" "i < length (sorted_keys C)"
  obtains info where "map_of (info_prefs C) (sorted_keys C ! i) = Some info"
    "GetInfoForBrowserStateAtIndex i C = Inr (Some info)" "sorted_keys C ! i \<in> set (sorted_keys C)"
proof -
  have mem: "sorted_keys C ! i \<in> set (sorted_keys C)" using assms(2) by simp
  then have "map_of (info_prefs C) (sorted_keys C ! i) \<noteq> None"
    using info_cache_invD(4) [OF assms(1)] by (simp add: map_of_eq_None_iff)
  then show ?thesis
    using that mem assms(2) by (auto simp: GetInfoForBrowserStateAtIndex_def GetNumberOfBrowserStates_def)
qed

lemma add_key_inv:
  assumes "info_cache_inv C" "key \<notin> set (sorted_keys C)"
  shows "info_cache_inv (AddBrowserStateCacheKey key (C\<lparr>info_prefs := SetKey key info (info_prefs C)\<rparr>))"
  using info_cache_invD [OF assms(1)] assms(2)
  by (simp add: info_cache_inv_def AddBrowserStateCacheKey_def SetKey_sorted sorted_insert_upper_bound)

lemma set_info_inv:
  assumes "info_cache_inv C" "i < length (sorted_keys C)"
  shows "info_cache_inv (SetInfoForBrowserStateAtIndex i info C) \<and>
    map_of (info_prefs (SetInfoForBrowserStateAtIndex i info C)) = (map_of (info_prefs C))(sorted_keys C ! i \<mapsto> info)"
proof -
  have "sorted_keys C ! i \<in> fst ` set (info_prefs C)"
    using info_cache_invD(4) [OF assms(1)] assms(2) nth_mem by metis
  then show ?thesis using info_cache_invD [OF assms(1)]
    by (simp add: info_cache_inv_def SetInfoForBrowserStateAtIndex_def SetKey_sorted SetKey_lookup insert_absorb)
qed

lemma info_cache_inv_log:
  "info_cache_inv (C\<lparr>info_log := l\<rparr>) = info_cache_inv C"
  "info_cache_inv (C\<lparr>observer_list := obs\<rparr>) = info_cache_inv C"
  by (simp_all add: info_cache_inv_def)

lemma exec_add:
  assumes "info_cache_inv C" "info_cache_pre B (OpAdd p g u) C"
  shows "\<exists>C'. info_cache_exec B (OpAdd p g u) C = Inr C' \<and> info_cache_inv C' \<and>
    map_of (info_prefs C') = info_cache_spec B (sorted_keys C) (OpAdd p g u) (map_of (info_prefs C))"
proof -
  have "state_key B p \<notin> set (sorted_keys C)"
    using assms(2) by (auto simp: index_of_path split: if_splits)
  then show ?thesis using add_key_inv [OF assms(1)] assms(2) info_cache_invD(1) [OF assms(1)]
    by (simp add: AddBrowserState_def key_of_path Let_def info_cache_inv_log AddBrowserStateCacheKey_def SetKey_lookup)
qed

lemma exec_remove:
  assumes "info_cache_inv C" "info_cache_pre B (OpRemove p) C"
  shows "\<exists>C'. info_cache_exec B (OpRemove p) C = Inr C' \<and> info_cache_inv C' \<and>
    map_of (info_prefs C') = info_cache_spec B (sorted_keys C) (OpRemove p) (map_of (info_prefs C))"
proof -
  let ?k = "state_key B p" and ?pos = "find_index (\<lambda>k. k = state_key B p) (sorted_keys C)"
  have dir: "DirName B p = user_data_dir C" and pos: "?pos \<noteq> -1"
    using assms(2) by (auto simp: index_of_path split: if_splits)
  have at: "nat ?pos < length (sorted_keys C)" "sorted_keys C ! nat ?pos = ?k"
    using find_index_some [OF pos] by auto
  have "info_cache_inv (C\<lparr>info_prefs := RemoveKey ?k (info_prefs C), sorted_keys := remove_at (nat ?pos) (sorted_keys C)\<rparr>)"
    using info_cache_invD [OF assms(1)] at
    by (simp add: info_cache_inv_def RemoveKey_sorted sorted_remove_at distinct_remove_at set_remove_at_distinct)
  then show ?thesis using dir pos
    by (simp add: RemoveBrowserState_def index_of_path key_of_path Let_def info_cache_inv_log RemoveKey_lookup)
qed

lemma exec_auth_info:
  assumes "info_cache_inv C" "info_cache_pre B (OpSetAuthInfo i g u) C"
  shows "\<exists>C'. info_cache_exec B (OpSetAuthInfo i g u) C = Inr C' \<and> info_cache_inv C' \<and>
    map_of (info_prefs C') = info_cache_spec B (sorted_keys C) (OpSetAuthInfo i g u) (map_of (info_prefs C))"
proof -
  have i: "i < length (sorted_keys C)" using assms(2) by (simp add: GetNumberOfBrowserStates_def)
  obtain info where info: "map_of (info_prefs C) (sorted_keys C ! i) = Some info"
    "GetInfoForBrowserStateAtIndex i C = Inr (Some info)" by (rule info_present [OF assms(1) i])
  show ?thesis using set_info_inv [OF assms(1) i] info assms(1)
    by (simp add: SetAuthInfoOfBrowserStateAtIndex_def GetGAIAIdOfBrowserStateAtIndex_def
      GetUserNameOfBrowserStateAtIndex_def deref_info_def)
qed

lemma exec_auth_error:
  assumes "info_cache_inv C" "info_cache_pre B (OpSetAuthError i b) C"
  shows "\<exists>C'. info_cache_exec B (OpSetAuthError i b) C = Inr C' \<and> info_cache_inv C' \<and>
    map_of (info_prefs C') = info_cache_spec B (sorted_keys C) (OpSetAuthError i b) (map_of (info_prefs C))"
proof -
  have i: "i < length (sorted_keys C)" using assms(2) by (simp add: GetNumberOfBrowserStates_def)
  obtain info where info: "map_of (info_prefs C) (sorted_keys C ! i) = Some info"
    "GetInfoForBrowserStateAtIndex i C = Inr (Some info)" by (rule info_present [OF assms(1) i])
  have "(case kIsAuthErrorKey info of None \<Rightarrow> False | Some x \<Rightarrow> x) = (kIsAuthErrorKey info = Some True)"
    by (simp split: option.split)
  then show ?thesis using set_info_inv [OF assms(1) i] info assms(1)
    by (simp add: SetBrowserStateIsAuthErrorAtIndex_def BrowserStateIsAuthErrorAtIndex_def deref_info_def)
qed

text \<open>The constructor establishes the invariant from any well-formed dictionary.\<close>

lemma add_keys_prefs: "info_prefs (fold (\<lambda>it. AddBrowserStateCacheKey (fst it)) d C) = info_prefs C"
  by (induction d arbitrary: C) (simp_all add: AddBrowserStateCacheKey_def)

lemma add_keys:
  assumes "sorted (sorted_keys C)" "distinct (sorted_keys C @ map fst d)"
  shows "sorted (sorted_keys (fold (\<lambda>it. AddBrowserStateCacheKey (fst it)) d C)) \<and>
    distinct (sorted_keys (fold (\<lambda>it. AddBrowserStateCacheKey (fst it)) d C)) \<and>
    set (sorted_keys (fold (\<lambda>it. AddBrowserStateCacheKey (fst it)) d C)) = set (sorted_keys C) \<union> fst ` set d"
  using assms
proof (induction d arbitrary: C)
  case (Cons it d)
  have "sorted (sorted_keys (AddBrowserStateCacheKey (fst it) C))"
    "distinct (sorted_keys (AddBrowserStateCacheKey (fst it) C) @ map fst d)"
    using Cons.prems by (auto simp: AddBrowserStateCacheKey_def sorted_insert_upper_bound)
  from Cons.IH [OF this] show ?case by (simp add: AddBrowserStateCacheKey_def)
qed simp

lemma constructor_inv:
  assumes "sorted_wrt (<) (map fst d)"
  shows "info_cache_inv (BrowserStateInfoCache d dir)"
proof -
  have "distinct (map fst d)" using assms by (simp add: strict_sorted_iff)
  then show ?thesis
    using assms add_keys [of "\<lparr>info_prefs = d, sorted_keys = [], user_data_dir = dir, observer_list = [], info_log = []\<rparr>" d]
    by (simp add: info_cache_inv_def BrowserStateInfoCache_def add_keys_prefs)
qed


section \<open>Properties\<close>

text \<open>A concrete file system for the witnesses: a path is the list of its components.\<close>

definition demo_ops :: "string list base_ops" where
  "demo_ops = \<lparr>DirName = butlast, BaseName = (\<lambda>p. [last p]), MaybeAsASCII = last,
     AppendASCII = (\<lambda>p s. p @ [s]), UTF16ToUTF8 = map (\<lambda>w. char_of (unat w)),
     ASCIIToUTF16 = map (\<lambda>c. word_of_nat (of_char c))\<rparr>"

definition demo_cache :: "string list info_cache" where
  "demo_cache = BrowserStateInfoCache
     [(''Default'', \<lparr>kGAIAIdKey = Some ''7'', kUserNameKey = None, kIsAuthErrorKey = None\<rparr>),
      (''Work'', \<lparr>kGAIAIdKey = None, kUserNameKey = None, kIsAuthErrorKey = Some True\<rparr>)] [''data'']"

lemma demo_cache_inv: "info_cache_inv demo_cache"
  unfolding demo_cache_def by (rule constructor_inv) code_simp

lemma demo_cache_keys: "sorted_keys demo_cache = [''Default'', ''Work'']" "user_data_dir demo_cache = [''data'']"
  by (simp_all add: demo_cache_def BrowserStateInfoCache_def AddBrowserStateCacheKey_def upper_bound_def
    insert_at_def less_char_def less_eq_char_def)

text \<open>
  Property C14.  On a well-formed cache every operation whose requirements hold runs without hitting an
  assertion or a null dictionary, keeps the vector of keys sorted, free of duplicates and in step with
  the preferences, and acts on the map from keys to browser states as its specification says.
\<close>

theorem info_cache_refines_map:
  assumes "info_cache_inv C" "info_cache_pre B op C"
  shows "\<exists>C'. info_cache_exec B op C = Inr C' \<and> info_cache_inv C' \<and>
    map_of (info_prefs C') = info_cache_spec B (sorted_keys C) op (map_of (info_prefs C))"
proof (cases op)
  case (OpAdd p g u)
  show ?thesis using assms unfolding OpAdd by (rule exec_add)
next
  case (OpRemove p)
  show ?thesis using assms unfolding OpRemove by (rule exec_remove)
next
  case (OpSetAuthInfo i g u)
  show ?thesis using assms unfolding OpSetAuthInfo by (rule exec_auth_info)
next
  case (OpSetAuthError i b)
  show ?thesis using assms unfolding OpSetAuthError by (rule exec_auth_error)
next
  case (OpAddObserver ob)
  then show ?thesis using assms(1) by (simp add: AddInfoObserver_def info_cache_inv_log)
next
  case (OpRemoveObserver ob)
  then show ?thesis using assms(1) by (simp add: RemoveInfoObserver_def info_cache_inv_log)
qed

theorem info_cache_refines_map_witness:
  "\<exists>C'. info_cache_exec demo_ops (OpRemove [''data'', ''Work'']) demo_cache = Inr C' \<and> info_cache_inv C' \<and>
     map_of (info_prefs C') = (map_of (info_prefs demo_cache))(''Work'' := None)"
proof -
  have "GetIndexOfBrowserStateWithPath demo_ops [''data'', ''Work''] demo_cache \<noteq> Inr (-1)"
    by (simp add: index_of_path demo_cache_keys demo_ops_def state_key_def)
  then have "info_cache_pre demo_ops (OpRemove [''data'', ''Work'']) demo_cache" by simp
  from info_cache_refines_map [OF demo_cache_inv this] show ?thesis
    by (simp add: state_key_def demo_ops_def)
qed

text \<open>
  What is stored about a new browser state is read back: its path is found at an index,
  that index leads back to the path, and the account data are those given.  The path must lie in the
  user data directory, be made again from its base name, and the user name must survive the
  conversions between encodings (as ASCII names do).
\<close>

theorem info_cache_round_trip:
  assumes "info_cache_inv C" "info_cache_pre B (OpAdd p g u) C"
    "AppendASCII B (DirName B p) (MaybeAsASCII B (BaseName B p)) = p"
    "ASCIIToUTF16 B (UTF16ToUTF8 B u) = u"
  shows "\<exists>C' i. AddBrowserState B p g u C = Inr C' \<and>
    GetIndexOfBrowserStateWithPath B p C' = Inr (int i) \<and>
    GetPathOfBrowserStateAtIndex B i C' = Inr p \<and> GetGAIAIdOfBrowserStateAtIndex i C' = Inr g \<and>
    GetUserNameOfBrowserStateAtIndex B i C' = Inr u \<and> BrowserStateIsAuthErrorAtIndex i C' = Inr False \<and>
    BrowserStateIsAuthenticatedAtIndex B i C' = Inr (g \<noteq> [] \<or> u \<noteq> [])"
proof -
  obtain C' where C': "AddBrowserState B p g u C = Inr C'" "info_cache_inv C'"
    "map_of (info_prefs C') (state_key B p) =
       Some \<lparr>kGAIAIdKey = Some g, kUserNameKey = Some (UTF16ToUTF8 B u), kIsAuthErrorKey = None\<rparr>"
    using exec_add [OF assms(1,2)] by auto
  have dir: "user_data_dir C' = DirName B p"
    using C'(1) assms(2) by (auto simp: AddBrowserState_def key_of_path Let_def AddBrowserStateCacheKey_def)
  have "state_key B p \<in> set (sorted_keys C')"
    using C'(3) info_cache_invD(4) [OF C'(2)] by (metis map_of_eq_None_iff option.distinct(1))
  then obtain i where i: "i < length (sorted_keys C')" "sorted_keys C' ! i = state_key B p"
    by (auto simp: in_set_conv_nth)
  have index: "find_index (\<lambda>k. k = state_key B p) (sorted_keys C') = int i"
    using find_index_distinct [of "\<lambda>x. x" "sorted_keys C'" i] info_cache_invD(3) [OF C'(2)] i by simp
  show ?thesis
    using C' i index dir assms(3,4)
    by (intro exI [of _ C'] exI [of _ i])
      (simp add: index_of_path GetPathOfBrowserStateAtIndex_def GetGAIAIdOfBrowserStateAtIndex_def
        GetUserNameOfBrowserStateAtIndex_def BrowserStateIsAuthErrorAtIndex_def state_key_def
        BrowserStateIsAuthenticatedAtIndex_def GetInfoForBrowserStateAtIndex_def
        GetNumberOfBrowserStates_def deref_info_def)
qed

theorem info_cache_round_trip_witness:
  "\<exists>C' i. AddBrowserState demo_ops [''data'', ''Guest''] ''9'' [97, 64, 98] demo_cache = Inr C' \<and>
     GetIndexOfBrowserStateWithPath demo_ops [''data'', ''Guest''] C' = Inr (int i) \<and>
     GetPathOfBrowserStateAtIndex demo_ops i C' = Inr [''data'', ''Guest''] \<and>
     GetUserNameOfBrowserStateAtIndex demo_ops i C' = Inr [97, 64, 98]"
proof -
  have pre: "info_cache_pre demo_ops (OpAdd [''data'', ''Guest''] ''9'' [97, 64, 98]) demo_cache"
    by (simp add: index_of_path demo_cache_keys demo_ops_def state_key_def)
  have "ASCIIToUTF16 demo_ops (UTF16ToUTF8 demo_ops [97, 64, 98]) = [97, 64, 98]" by code_simp
  from info_cache_round_trip [OF demo_cache_inv pre _ this] show ?thesis
    by (simp add: demo_ops_def) blast
qed

text \<open>
  \<^verbatim>\<open>AddBrowserState\<close> does not look whether the path is cached already.  Adding a cached
  path again lists its key twice, and removing it afterwards leaves a key without an entry: the next
  access through that index follows a null pointer.
\<close>

theorem info_cache_double_add:
  assumes "info_cache_inv C" "DirName B p = user_data_dir C" "state_key B p \<in> set (sorted_keys C)"
  shows "\<exists>C1 C2 i. AddBrowserState B p g u C = Inr C1 \<and> RemoveBrowserState B p C1 = Inr C2 \<and>
    i < GetNumberOfBrowserStates C2 \<and>
    GetGAIAIdOfBrowserStateAtIndex i C2 = Inl (DanglingPointer ''nullptr'')"
proof -
  let ?k = "state_key B p"
  let ?ks = "insert_at (upper_bound ?k (sorted_keys C)) ?k (sorted_keys C)"
  let ?pos = "find_index (\<lambda>k. k = ?k) ?ks"
  obtain C1 where C1: "AddBrowserState B p g u C = Inr C1" "sorted_keys C1 = ?ks" "user_data_dir C1 = user_data_dir C"
    using assms(2) by (simp add: AddBrowserState_def key_of_path Let_def AddBrowserStateCacheKey_def)
  have pos: "?pos \<noteq> -1" by simp
  obtain C2 where C2: "RemoveBrowserState B p C1 = Inr C2" "sorted_keys C2 = remove_at (nat ?pos) ?ks"
    "map_of (info_prefs C2) ?k = None"
    using C1 assms(2) pos
    by (simp add: RemoveBrowserState_def index_of_path key_of_path Let_def RemoveKey_lookup)
  have lt: "nat ?pos < length ?ks" "?ks ! nat ?pos = ?k" using find_index_some [OF pos] by auto
  have two: "count_list ?ks ?k = Suc (count_list (sorted_keys C) ?k)"
    by (rule count_list_insert_at)
  have "count_list ?ks ?k = count_list (remove_at (nat ?pos) ?ks) ?k + 1"
    using count_list_remove_at [OF lt(1), of ?k] lt(2) by simp
  with two assms(3) have "count_list (sorted_keys C2) ?k \<noteq> 0"
    using C2(2) by (simp add: count_list_0_iff)
  then have "?k \<in> set (sorted_keys C2)" using count_notin by metis
  then obtain i where "i < length (sorted_keys C2)" "sorted_keys C2 ! i = ?k" by (auto simp: in_set_conv_nth)
  then have "i < GetNumberOfBrowserStates C2 \<and>
      GetGAIAIdOfBrowserStateAtIndex i C2 = Inl (DanglingPointer ''nullptr'')"
    using C2(3) by (simp add: GetNumberOfBrowserStates_def GetGAIAIdOfBrowserStateAtIndex_def
      GetInfoForBrowserStateAtIndex_def deref_info_def)
  then show ?thesis using C1(1) C2(1) by blast
qed

theorem info_cache_double_add_witness:
  "\<exists>C1 C2 i. AddBrowserState demo_ops [''data'', ''Work''] ''9'' [] demo_cache = Inr C1 \<and>
     RemoveBrowserState demo_ops [''data'', ''Work''] C1 = Inr C2 \<and> i < GetNumberOfBrowserStates C2 \<and>
     GetGAIAIdOfBrowserStateAtIndex i C2 = Inl (DanglingPointer ''nullptr'')"
  by (rule info_cache_double_add [OF demo_cache_inv]) (simp_all add: demo_cache_keys demo_ops_def state_key_def)

end
