(* ===== verification/Chunked_Upload.thy ===== *)
theory Chunked_Upload
  imports Event_System "HOL-Library.Word"
begin

text \<open>
  Upload of a request body of unknown length.  \<^verbatim>\<open>ChunkedDataStreamUploader\<close>
  (\<^verbatim>\<open>net/chunked_data_stream_uploader.cc\<close>) sits between the network stack, which asks for bytes
  with \<^verbatim>\<open>ReadInternal\<close> and is told about late answers with \<^verbatim>\<open>OnReadCompleted\<close>, and its
  delegate \<^verbatim>\<open>HttpProtocolHandlerCore\<close> (\<^verbatim>\<open>net/crn_http_protocol_handler.mm\<close>), which reads
  an \<^verbatim>\<open>NSInputStream\<close> and reports its events.

  The uploader is owned by the \<^verbatim>\<open>URLRequest\<close>, which the delegate may delete: the field
  \<open>uploader\<close> is \<open>None\<close> from then on.  The input stream holds the bytes that have arrived and
  a list of answers: the \<open>n\<close>-th read hands out at most the \<open>n\<close>-th number of bytes, or
  fails if it is negative.  \<open>delivered\<close> collects what the network stack got, in order.
\<close>

section \<open>The uploader\<close>

type_synonym byte = "8 word"

text \<open>An \<^verbatim>\<open>int\<close> result of the network stack: a number of bytes, or one of the (negative) errors.\<close>

datatype net_result = NetBytes nat | ERR_IO_PENDING | ERR_FAILED | ERR_UNEXPECTED

record uploader_state =
  pending_read_buffer :: bool
  pending_read_buffer_length :: nat
  pending_internal_read :: bool
  is_final_chunk :: bool
  is_front_of_stream :: bool

definition ChunkedDataStreamUploader :: uploader_state where
  "ChunkedDataStreamUploader = \<lparr>pending_read_buffer = False, pending_read_buffer_length = 0,
     pending_internal_read = False, is_final_chunk = False, is_front_of_stream = True\<rparr>"

datatype upload_effect = SetIsFinalChunk | OnReadCompleted nat

record 'd upload_world =
  uploader :: "uploader_state option"
  delegate :: 'd
  delivered :: "byte list"
  upload_log :: "upload_effect list"

text \<open>
  A delegate answers \<^verbatim>\<open>OnRead(buffer, buffer_length)\<close> with a result and the bytes it wrote to
  the buffer; \<open>owned\<close> tells whether the object that owns the uploader still exists afterwards.
\<close>

type_synonym 'd on_read = "nat \<Rightarrow> 'd \<Rightarrow> (net_result \<times> byte list \<times> 'd) res"

definition with_uploader ::
    "(uploader_state \<Rightarrow> 'd upload_world \<Rightarrow> 'a res) \<Rightarrow> 'd upload_world \<Rightarrow> 'a res" where
  "with_uploader f W = (case uploader W of None \<Rightarrow> Inl (DanglingPointer ''ChunkedDataStreamUploader'')
     | Some u \<Rightarrow> f u W)"

definition InitInternal :: "'d upload_world \<Rightarrow> net_result res" where
  "InitInternal = with_uploader (\<lambda>u W. Inr (if is_front_of_stream u then NetBytes 0 else ERR_FAILED))"

text \<open>The end of \<^verbatim>\<open>Upload\<close>: the buffer is given back and a pending read is completed.\<close>

definition finish_upload :: "byte list \<Rightarrow> 'd upload_world \<Rightarrow> (net_result \<times> 'd upload_world) res" where
  "finish_upload bs = with_uploader (\<lambda>u W.
     let W = W\<lparr>uploader := Some (u\<lparr>pending_read_buffer := False, pending_read_buffer_length := 0,
                                    pending_internal_read := False\<rparr>),
               delivered := delivered W @ bs\<rparr>;
         W = (if pending_internal_read u
              then W\<lparr>upload_log := upload_log W @ [OnReadCompleted (length bs)]\<rparr> else W)
     in Inr (NetBytes (length bs), W))"

definition Upload ::
    "'d on_read \<Rightarrow> ('d \<Rightarrow> bool) \<Rightarrow> 'd upload_world \<Rightarrow> (net_result \<times> 'd upload_world) res" where
  "Upload OnRead owned = with_uploader (\<lambda>u W.
     dcheck (pending_read_buffer u) ''pending_read_buffer_''
       (let W = W\<lparr>uploader := Some (u\<lparr>is_front_of_stream := False\<rparr>)\<rparr>
        in if is_final_chunk u
           then finish_upload [] (W\<lparr>upload_log := upload_log W @ [SetIsFinalChunk]\<rparr>)
           else rbind (OnRead (pending_read_buffer_length u) (delegate W)) (\<lambda>(bytes_read, bs, d).
             let W = W\<lparr>delegate := d, uploader := if owned d then uploader W else None\<rparr>
             in case bytes_read of
                  NetBytes (Suc n) \<Rightarrow> finish_upload bs W
                | _ \<Rightarrow> with_uploader (\<lambda>u W.
                    Inr (ERR_IO_PENDING, W\<lparr>uploader := Some (u\<lparr>pending_internal_read := True\<rparr>)\<rparr>)) W)))"

definition ReadInternal ::
    "'d on_read \<Rightarrow> ('d \<Rightarrow> bool) \<Rightarrow> nat \<Rightarrow> 'd upload_world \<Rightarrow> (net_result \<times> 'd upload_world) res" where
  "ReadInternal OnRead owned buffer_length = with_uploader (\<lambda>u W.
     dcheck (0 < buffer_length) ''buffer_length > 0''
       (dcheck (\<not> pending_read_buffer u) ''!pending_read_buffer_''
         (Upload OnRead owned (W\<lparr>uploader :=
            Some (u\<lparr>pending_read_buffer := True, pending_read_buffer_length := buffer_length\<rparr>)\<rparr>))))"

definition ResetInternal :: "'d upload_world \<Rightarrow> 'd upload_world res" where
  "ResetInternal = with_uploader (\<lambda>u W.
     Inr (W\<lparr>uploader := Some (u\<lparr>pending_read_buffer := False, pending_read_buffer_length := 0,
              pending_internal_read := False, is_final_chunk := False\<rparr>)\<rparr>))"

definition UploadWhenReady ::
    "'d on_read \<Rightarrow> ('d \<Rightarrow> bool) \<Rightarrow> bool \<Rightarrow> 'd upload_world \<Rightarrow> 'd upload_world res" where
  "UploadWhenReady OnRead owned final = with_uploader (\<lambda>u W.
     let W = W\<lparr>uploader := Some (u\<lparr>is_final_chunk := final\<rparr>)\<rparr>
     in if pending_internal_read u then rbind (Upload OnRead owned W) (\<lambda>r. Inr (snd r)) else Inr W)"

section \<open>The delegate\<close>

record input_stream =
  stream_available :: "byte list"
  stream_answers :: "int list"

definition hasBytesAvailable :: "input_stream \<Rightarrow> bool" where
  "hasBytesAvailable s \<longleftrightarrow> stream_available s \<noteq> []"

text \<open>\<^verbatim>\<open>-[NSInputStream read:maxLength:]\<close>; \<open>None\<close> is the result \<open>-1\<close>.\<close>

definition stream_read :: "nat \<Rightarrow> input_stream \<Rightarrow> byte list option \<times> input_stream" where
  "stream_read maxLength s =
     (let answer = (case stream_answers s of [] \<Rightarrow> int maxLength | a # as \<Rightarrow> a);
          n = min (nat answer) maxLength
      in if answer < 0 then (None, s\<lparr>stream_answers := tl (stream_answers s)\<rparr>)
         else (Some (take n (stream_available s)),
               \<lparr>stream_available = drop n (stream_available s), stream_answers = tl (stream_answers s)\<rparr>))"

text \<open>\<open>bytes_taken\<close> is a history variable: what has been read from the stream so far.\<close>

record handler_core =
  http_body_stream :: "input_stream option"
  http_body_stream_delegate :: bool
  net_request :: bool
  client_failures :: nat
  bytes_taken :: "byte list"

definition StopListeningStream :: "handler_core \<Rightarrow> handler_core res" where
  "StopListeningStream C =
     dcheck (http_body_stream C \<noteq> None) ''stream''
       (dcheck (http_body_stream_delegate C) ''http_body_stream_delegate_''
         (Inr (C\<lparr>http_body_stream := None, http_body_stream_delegate := False\<rparr>)))"

definition StopNetRequest :: "handler_core \<Rightarrow> handler_core res" where
  "StopNetRequest C =
     (let C = C\<lparr>net_request := False\<rparr>
      in if http_body_stream C \<noteq> None then StopListeningStream C else Inr C)"

definition StopRequestWithError :: "handler_core \<Rightarrow> handler_core res" where
  "StopRequestWithError C =
     dcheck (net_request C) ''net_request_ != nullptr''
       (StopNetRequest (C\<lparr>client_failures := Suc (client_failures C)\<rparr>))"

definition OnRead :: "nat \<Rightarrow> handler_core \<Rightarrow> (net_result \<times> byte list \<times> handler_core) res" where
  "OnRead buffer_length C =
     (case http_body_stream C of None \<Rightarrow> Inr (NetBytes 0, [], C)
      | Some s \<Rightarrow>
         if \<not> hasBytesAvailable s then Inr (ERR_IO_PENDING, [], C)
         else (case stream_read buffer_length s of
             (None, s) \<Rightarrow>
               rbind (StopListeningStream (C\<lparr>http_body_stream := Some s\<rparr>)) (\<lambda>C.
               rbind (StopRequestWithError C) (\<lambda>C. Inr (ERR_UNEXPECTED, [], C)))
           | (Some bs, s) \<Rightarrow>
               Inr (NetBytes (length bs), bs,
                    C\<lparr>http_body_stream := Some s, bytes_taken := bytes_taken C @ bs\<rparr>)))"


section \<open>Events\<close>

datatype stream_event =
    NSStreamEventNone
  | NSStreamEventOpenCompleted
  | NSStreamEventHasBytesAvailable
  | NSStreamEventHasSpaceAvailable
  | NSStreamEventErrorOccurred
  | NSStreamEventEndEncountered

text \<open>The delegate's own actions may delete the request and with it the uploader.\<close>

definition on_core :: "(handler_core \<Rightarrow> handler_core res) \<Rightarrow> handler_core upload_world \<Rightarrow> handler_core upload_world res" where
  "on_core f W = rbind (f (delegate W)) (\<lambda>C.
     Inr (W\<lparr>delegate := C, uploader := if net_request C then uploader W else None\<rparr>))"

definition HandleStreamEvent :: "stream_event \<Rightarrow> handler_core upload_world \<Rightarrow> handler_core upload_world res" where
  "HandleStreamEvent event W =
     dcheck (http_body_stream (delegate W) \<noteq> None) ''http_body_stream_ == stream''
       (dcheck (http_body_stream_delegate (delegate W)) ''http_body_stream_delegate_''
         (case event of
            NSStreamEventErrorOccurred \<Rightarrow>
              rbind (on_core StopListeningStream W) (on_core StopRequestWithError)
          | NSStreamEventEndEncountered \<Rightarrow>
              rbind (on_core StopListeningStream W) (UploadWhenReady OnRead net_request True)
          | NSStreamEventHasBytesAvailable \<Rightarrow> UploadWhenReady OnRead net_request False W
          | _ \<Rightarrow> Inr W))"

datatype upload_event =
    NetReads nat
  | NetResets
  | StreamEvent stream_event
  | BytesArrive "byte list" "int list"

fun upload_exec :: "upload_event \<Rightarrow> handler_core upload_world \<Rightarrow> handler_core upload_world res" where
  "upload_exec (NetReads n) W = rbind (ReadInternal OnRead net_request n W) (\<lambda>r. Inr (snd r))"
| "upload_exec NetResets W = ResetInternal W"
| "upload_exec (StreamEvent e) W = HandleStreamEvent e W"
| "upload_exec (BytesArrive bs as) W =
     Inr (W\<lparr>delegate := (delegate W)\<lparr>http_body_stream := map_option (\<lambda>s.
        \<lparr>stream_available = stream_available s @ bs, stream_answers = stream_answers s @ as\<rparr>)
        (http_body_stream (delegate W))\<rparr>\<rparr>)"

definition initial_upload :: "handler_core upload_world" where
  "initial_upload = \<lparr>uploader = Some ChunkedDataStreamUploader,
     delegate = \<lparr>http_body_stream = Some \<lparr>stream_available = [], stream_answers = []\<rparr>,
       http_body_stream_delegate = True, net_request = True, client_failures = 0, bytes_taken = []\<rparr>,
     delivered = [], upload_log = []\<rparr>"

abbreviation upload_run :: "upload_event list \<Rightarrow> handler_core upload_world \<Rightarrow> handler_core upload_world res" where
  "upload_run \<equiv> run_events upload_exec"

section \<open>What the uploader relies on\<close>

text \<open>
  The contract of a delegate: it answers with as many bytes as it wrote, at most the length of the
  buffer, keeps track of what it handed out, and does not give up the request unless it reports an
  error.
\<close>

lemma finish_upload_ok:
  assumes "uploader W = Some u"
  obtains W' where "finish_upload bs W = Inr (NetBytes (length bs), W')"
    "uploader W' = Some (u\<lparr>pending_read_buffer := False, pending_read_buffer_length := 0,
       pending_internal_read := False\<rparr>)"
    "delegate W' = delegate W" "delivered W' = delivered W @ bs"
    "upload_log W' = upload_log W @ (if pending_internal_read u then [OnReadCompleted (length bs)] else [])"
  using assms that [of "snd (projr (finish_upload bs W))"]
  by (simp add: finish_upload_def with_uploader_def Let_def)

locale upload_delegate =
  fixes answer :: "'d on_read" and owned :: "'d \<Rightarrow> bool" and taken :: "'d \<Rightarrow> byte list"
    and ready :: "'d \<Rightarrow> bool"
  assumes answers: "ready d \<Longrightarrow> owned d \<Longrightarrow> \<exists>r bs d'. answer len d = Inr (r, bs, d') \<and> ready d'"
    and counts: "answer len d = Inr (NetBytes n, bs, d') \<Longrightarrow>
      length bs = n \<and> n \<le> len \<and> taken d' = taken d @ bs \<and> owned d' = owned d"
    and waits: "answer len d = Inr (ERR_IO_PENDING, bs, d') \<Longrightarrow> taken d' = taken d \<and> owned d' = owned d"
begin

definition synced :: "'d upload_world \<Rightarrow> bool" where
  "synced W \<longleftrightarrow> delivered W = taken (delegate W) \<and> ready (delegate W) \<and> owned (delegate W) \<and>
     (\<exists>u. uploader W = Some u \<and> (pending_read_buffer u \<longleftrightarrow> pending_internal_read u))"

text \<open>A call of \<^verbatim>\<open>Upload\<close> with a buffer: the answers of the delegate decide the outcome.\<close>

lemma upload_cases:
  assumes "uploader W = Some u" "pending_read_buffer u" "delivered W = taken (delegate W)"
    "ready (delegate W)" "owned (delegate W)"
  obtains
    (final) W' where "is_final_chunk u" "Upload answer owned W = Inr (NetBytes 0, W')" "synced W'"
      "uploader W' = Some (u\<lparr>is_front_of_stream := False, pending_read_buffer := False,
        pending_read_buffer_length := 0, pending_internal_read := False\<rparr>)"
      "delegate W' = delegate W" "delivered W' = delivered W"
      "upload_log W' = upload_log W @ SetIsFinalChunk # (if pending_internal_read u then [OnReadCompleted 0] else [])"
  | (data) n bs d W' where "\<not> is_final_chunk u" "answer (pending_read_buffer_length u) (delegate W) = Inr (NetBytes (Suc n), bs, d)"
      "Upload answer owned W = Inr (NetBytes (Suc n), W')" "synced W'"
      "uploader W' = Some (u\<lparr>is_front_of_stream := False, pending_read_buffer := False,
        pending_read_buffer_length := 0, pending_internal_read := False\<rparr>)"
      "delegate W' = d" "delivered W' = delivered W @ bs"
      "upload_log W' = upload_log W @ (if pending_internal_read u then [OnReadCompleted (Suc n)] else [])"
  | (wait) r bs d W' where "\<not> is_final_chunk u" "answer (pending_read_buffer_length u) (delegate W) = Inr (r, bs, d)"
      "r = NetBytes 0 \<or> r = ERR_IO_PENDING" "Upload answer owned W = Inr (ERR_IO_PENDING, W')" "synced W'"
      "uploader W' = Some (u\<lparr>is_front_of_stream := False, pending_internal_read := True\<rparr>)"
      "delegate W' = d" "delivered W' = delivered W" "upload_log W' = upload_log W"
  | (error) r bs d where "\<not> is_final_chunk u" "answer (pending_read_buffer_length u) (delegate W) = Inr (r, bs, d)"
      "r = ERR_FAILED \<or> r = ERR_UNEXPECTED"
proof (cases "is_final_chunk u")
  case True
  let ?u = "u\<lparr>is_front_of_stream := False\<rparr>"
  let ?W = "W\<lparr>uploader := Some ?u, upload_log := upload_log W @ [SetIsFinalChunk]\<rparr>"
  obtain W' where W': "finish_upload [] ?W = Inr (NetBytes 0, W')"
    "uploader W' = Some (?u\<lparr>pending_read_buffer := False, pending_read_buffer_length := 0, pending_internal_read := False\<rparr>)"
    "delegate W' = delegate W" "delivered W' = delivered W"
    "upload_log W' = upload_log W @ SetIsFinalChunk # (if pending_internal_read u then [OnReadCompleted 0] else [])"
    by (rule finish_upload_ok [of ?W ?u "[]"]) simp_all
  have eq: "Upload answer owned W = Inr (NetBytes 0, W')"
    using True assms(1,2) W'(1) by (simp add: Upload_def with_uploader_def)
  have "synced W'" using W' assms by (simp add: synced_def)
  from final [OF True eq this W'(2-5)] show ?thesis .
next
  case False
  obtain r bs d where ans: "answer (pending_read_buffer_length u) (delegate W) = Inr (r, bs, d)" "ready d"
    using answers [OF assms(4,5)] by blast
  consider (data') n where "r = NetBytes (Suc n)" | (wait') "r = NetBytes 0 \<or> r = ERR_IO_PENDING"
    | (error') "r = ERR_FAILED \<or> r = ERR_UNEXPECTED"
    by (metis net_result.exhaust not0_implies_Suc)
  then show ?thesis
  proof cases
    case data'
    note c = counts [OF ans(1) [unfolded data']]
    let ?u = "u\<lparr>is_front_of_stream := False\<rparr>"
    let ?W = "W\<lparr>delegate := d, uploader := Some ?u\<rparr>"
    obtain W' where W': "finish_upload bs ?W = Inr (NetBytes (Suc n), W')"
      "uploader W' = Some (?u\<lparr>pending_read_buffer := False, pending_read_buffer_length := 0, pending_internal_read := False\<rparr>)"
      "delegate W' = d" "delivered W' = delivered W @ bs"
      "upload_log W' = upload_log W @ (if pending_internal_read u then [OnReadCompleted (Suc n)] else [])"
      by (rule finish_upload_ok [of ?W ?u bs]) (use c in simp_all)
    have eq: "Upload answer owned W = Inr (NetBytes (Suc n), W')"
      using False assms(1,2,5) ans data' c W'(1) by (simp add: Upload_def with_uploader_def)
    have "synced W'" using W' assms c ans(2) by (simp add: synced_def)
    from data [OF False ans(1) [unfolded data'] eq this W'(2-5)] show ?thesis .
  next
    case wait'
    have c: "taken d = taken (delegate W)" "owned d"
      using wait' counts [of _ _ 0 bs d] waits [of _ _ bs d] ans(1) assms(5) by auto
    let ?W = "W\<lparr>uploader := Some (u\<lparr>is_front_of_stream := False, pending_internal_read := True\<rparr>), delegate := d\<rparr>"
    have eq: "Upload answer owned W = Inr (ERR_IO_PENDING, ?W)"
      using False assms(1,2) ans wait' c by (auto simp: Upload_def with_uploader_def)
    have "synced ?W" using assms(2,3) ans(2) c by (simp add: synced_def)
    from wait [OF False ans(1) wait' eq this] show ?thesis by simp
  next
    case error'
    show ?thesis by (rule error [OF False ans(1) error'])
  qed
qed

lemma reset_synced:
  "synced W \<Longrightarrow> \<exists>W'. ResetInternal W = Inr W' \<and> synced W' \<and> delegate W' = delegate W \<and> delivered W' = delivered W"
  by (auto simp: synced_def ResetInternal_def with_uploader_def)

end


section \<open>The protocol handler honours the contract\<close>

text \<open>A core that owns its request and is a delegate of the stream it still reads.\<close>

definition core_ready :: "handler_core \<Rightarrow> bool" where
  "core_ready C \<longleftrightarrow> (http_body_stream C \<noteq> None \<longrightarrow> http_body_stream_delegate C)"

lemma OnRead_cases:
  assumes "core_ready C"
  shows "OnRead len C =
    (case http_body_stream C of None \<Rightarrow> Inr (NetBytes 0, [], C)
     | Some s \<Rightarrow>
        if stream_available s = [] then Inr (ERR_IO_PENDING, [], C)
        else (case fst (stream_read len s) of
            None \<Rightarrow> if net_request C
              then Inr (ERR_UNEXPECTED, [], C\<lparr>http_body_stream := None, http_body_stream_delegate := False,
                client_failures := Suc (client_failures C), net_request := False\<rparr>)
              else Inl (DCheckFailed ''net_request_ != nullptr'')
          | Some bs \<Rightarrow> Inr (NetBytes (length bs), bs,
              C\<lparr>http_body_stream := Some (snd (stream_read len s)), bytes_taken := bytes_taken C @ bs\<rparr>)))"
  using assms
  by (simp add: OnRead_def hasBytesAvailable_def core_ready_def StopListeningStream_def
      StopRequestWithError_def StopNetRequest_def dcheck_def split: option.split prod.split)

lemma take_min_length: "take (min m (length xs)) xs = take m xs"
  by (simp add: min_def)

lemma stream_read_bounded: "fst (stream_read len s) = Some bs \<Longrightarrow> length bs \<le> len"
  by (auto simp: stream_read_def Let_def split: if_splits)

interpretation core: upload_delegate OnRead net_request bytes_taken core_ready
proof
  fix d :: handler_core and len :: nat
  assume *: "core_ready d" "net_request d"
  show "\<exists>r bs d'. OnRead len d = Inr (r, bs, d') \<and> core_ready d'"
    using * by (auto simp: OnRead_cases core_ready_def split: option.split)
next
  fix len n :: nat and d d' bs
  assume "OnRead len d = Inr (NetBytes n, bs, d')"
  then show "length bs = n \<and> n \<le> len \<and> bytes_taken d' = bytes_taken d @ bs \<and> net_request d' = net_request d"
    using stream_read_bounded
    by (auto simp: OnRead_def res_simps split: option.splits if_splits prod.splits) (metis fst_conv)
next
  fix len :: nat and d d' bs
  assume "OnRead len d = Inr (ERR_IO_PENDING, bs, d')"
  then show "bytes_taken d' = bytes_taken d \<and> net_request d' = net_request d"
    by (auto simp: OnRead_def res_simps split: option.splits if_splits prod.splits)
qed


section \<open>Invariant\<close>

text \<open>No read of the stream is going to fail.\<close>

definition reads_succeed :: "handler_core \<Rightarrow> bool" where
  "reads_succeed C = (case http_body_stream C of None \<Rightarrow> True | Some s \<Rightarrow> list_all (\<lambda>a. 0 \<le> a) (stream_answers s))"

definition upload_inv :: "handler_core upload_world \<Rightarrow> bool" where
  "upload_inv W \<longleftrightarrow> delivered W = bytes_taken (delegate W) \<and> reads_succeed (delegate W) \<and>
     (core.synced W \<or> uploader W = None \<and> http_body_stream (delegate W) = None)"

definition waiting :: "handler_core upload_world \<Rightarrow> bool" where
  "waiting W = (case uploader W of None \<Rightarrow> False | Some u \<Rightarrow> pending_internal_read u)"

fun upload_pre :: "upload_event \<Rightarrow> handler_core upload_world \<Rightarrow> bool" where
  "upload_pre (NetReads n) W \<longleftrightarrow> 0 < n \<and> uploader W \<noteq> None \<and> \<not> waiting W"
| "upload_pre NetResets W \<longleftrightarrow> uploader W \<noteq> None"
| "upload_pre (StreamEvent e) W \<longleftrightarrow> http_body_stream (delegate W) \<noteq> None"
| "upload_pre (BytesArrive bs as) W \<longleftrightarrow> list_all (\<lambda>a. 0 \<le> a) as"

abbreviation upload_reachable :: "handler_core upload_world \<Rightarrow> bool" where
  "upload_reachable \<equiv> reachable_from (\<lambda>W. W = initial_upload) upload_pre upload_exec"

lemma OnRead_succeeds:
  assumes "core_ready C" "reads_succeed C" "OnRead len C = Inr (r, bs, C')"
  shows "reads_succeed C' \<and> r \<noteq> ERR_UNEXPECTED \<and> r \<noteq> ERR_FAILED"
proof (cases "http_body_stream C")
  case None
  then show ?thesis using assms by (auto simp: OnRead_cases)
next
  case (Some s)
  have ok: "list_all (\<lambda>a. 0 \<le> a) (stream_answers s)" using assms(2) Some by (simp add: reads_succeed_def)
  obtain bs' where read: "fst (stream_read len s) = Some bs'"
    using ok by (cases "stream_answers s") (auto simp: stream_read_def Let_def)
  have "list_all (\<lambda>a. 0 \<le> a) (stream_answers (snd (stream_read len s)))"
    using ok by (cases "stream_answers s") (auto simp: stream_read_def Let_def)
  then show ?thesis
    using assms Some read by (auto simp: OnRead_cases reads_succeed_def split: if_splits)
qed

lemma upload_inv_Upload:
  assumes "uploader W = Some u" "pending_read_buffer u" "delivered W = bytes_taken (delegate W)"
    "core_ready (delegate W)" "net_request (delegate W)" "reads_succeed (delegate W)"
  shows "\<exists>r W'. Upload OnRead net_request W = Inr (r, W') \<and> upload_inv W'"
proof (rule core.upload_cases [OF assms(1-5)])
  fix r bs d
  assume "OnRead (pending_read_buffer_length u) (delegate W) = Inr (r, bs, d)" "r = ERR_FAILED \<or> r = ERR_UNEXPECTED"
  then show ?thesis using OnRead_succeeds [OF assms(4,6)] by blast
qed (use assms(6) OnRead_succeeds [OF assms(4,6)] in
      \<open>auto simp: upload_inv_def core.synced_def split: if_splits\<close>)

lemma syncedE:
  assumes "upload_inv W" "uploader W \<noteq> None"
  obtains u where "uploader W = Some u" "pending_read_buffer u \<longleftrightarrow> pending_internal_read u"
    "delivered W = bytes_taken (delegate W)" "core_ready (delegate W)" "net_request (delegate W)"
    "reads_succeed (delegate W)"
  using assms by (auto simp: upload_inv_def core.synced_def)

lemma upload_inv_ready:
  assumes "uploader W = Some u" "pending_read_buffer u \<longleftrightarrow> pending_internal_read u"
    "delivered W = bytes_taken (delegate W)" "core_ready (delegate W)" "net_request (delegate W)"
    "reads_succeed (delegate W)"
  shows "\<exists>W'. UploadWhenReady OnRead net_request final W = Inr W' \<and> upload_inv W'"
proof (cases "pending_internal_read u")
  case True
  let ?W = "W\<lparr>uploader := Some (u\<lparr>is_final_chunk := final\<rparr>)\<rparr>"
  obtain r W' where "Upload OnRead net_request ?W = Inr (r, W')" "upload_inv W'"
    using upload_inv_Upload [of ?W "u\<lparr>is_final_chunk := final\<rparr>"] True assms by auto
  then show ?thesis using True assms(1) by (simp add: UploadWhenReady_def with_uploader_def)
next
  case False
  then show ?thesis using assms
    by (simp add: UploadWhenReady_def with_uploader_def upload_inv_def core.synced_def)
qed

lemma stream_event_inv:
  assumes inv: "upload_inv W" and stream: "http_body_stream (delegate W) \<noteq> None"
  shows "\<exists>W'. HandleStreamEvent e W = Inr W' \<and> upload_inv W'"
proof -
  have alive: "uploader W \<noteq> None" using inv stream by (auto simp: upload_inv_def core.synced_def)
  obtain u where u: "uploader W = Some u" "pending_read_buffer u \<longleftrightarrow> pending_internal_read u"
    "delivered W = bytes_taken (delegate W)" "core_ready (delegate W)" "net_request (delegate W)"
    "reads_succeed (delegate W)" by (rule syncedE [OF inv alive])
  have deleg: "http_body_stream_delegate (delegate W)" using u(4) stream by (simp add: core_ready_def)
  let ?C = "(delegate W)\<lparr>http_body_stream := None, http_body_stream_delegate := False\<rparr>"
  have stop: "on_core StopListeningStream W = Inr (W\<lparr>delegate := ?C\<rparr>)"
    using stream deleg u(1,5) by (simp add: on_core_def StopListeningStream_def)
  have ready: "\<exists>W'. UploadWhenReady OnRead net_request True (W\<lparr>delegate := ?C\<rparr>) = Inr W' \<and> upload_inv W'"
    by (rule upload_inv_ready [of _ u]) (use u in \<open>auto simp: core_ready_def reads_succeed_def\<close>)
  show ?thesis
  proof (cases e)
    case NSStreamEventEndEncountered
    then show ?thesis using ready stop stream deleg by (simp add: HandleStreamEvent_def)
  next
    case NSStreamEventHasBytesAvailable
    then show ?thesis using upload_inv_ready [OF u] stream deleg by (simp add: HandleStreamEvent_def)
  next
    case NSStreamEventErrorOccurred
    then show ?thesis using stop stream deleg u
      by (simp add: HandleStreamEvent_def on_core_def StopRequestWithError_def StopNetRequest_def
          upload_inv_def reads_succeed_def)
  qed (use inv stream deleg in \<open>simp_all add: HandleStreamEvent_def\<close>)
qed

lemma read_inv:
  assumes inv: "upload_inv W" and pre: "upload_pre (NetReads n) W"
  shows "\<exists>r W'. ReadInternal OnRead net_request n W = Inr (r, W') \<and> upload_inv W'"
proof -
  obtain u where u: "uploader W = Some u" "pending_read_buffer u \<longleftrightarrow> pending_internal_read u"
    "delivered W = bytes_taken (delegate W)" "core_ready (delegate W)" "net_request (delegate W)"
    "reads_succeed (delegate W)" by (rule syncedE [OF inv]) (use pre in simp)
  let ?u = "u\<lparr>pending_read_buffer := True, pending_read_buffer_length := n\<rparr>"
  have "\<not> pending_read_buffer u" "0 < n" using pre u(1,2) by (auto simp: waiting_def)
  then show ?thesis using upload_inv_Upload [of "W\<lparr>uploader := Some ?u\<rparr>" ?u] u
    by (simp add: ReadInternal_def with_uploader_def)
qed

lemma upload_exec_inv:
  assumes inv: "upload_inv W" and pre: "upload_pre e W"
  shows "\<exists>W'. upload_exec e W = Inr W' \<and> upload_inv W'"
proof (cases e)
  case (NetReads n)
  then show ?thesis using read_inv [OF inv, of n] pre by auto
next
  case NetResets
  have "core.synced W" using inv pre NetResets by (auto simp: upload_inv_def)
  from core.reset_synced [OF this] show ?thesis using NetResets inv by (auto simp: upload_inv_def)
next
  case (StreamEvent ev)
  then show ?thesis using stream_event_inv [OF inv] pre by simp
next
  case (BytesArrive bs as)
  then show ?thesis using inv pre
    by (auto simp: upload_inv_def core.synced_def reads_succeed_def core_ready_def split: option.splits)
qed

lemma upload_inv_initial: "upload_inv initial_upload"
  by (simp add: upload_inv_def initial_upload_def reads_succeed_def core.synced_def core_ready_def
      ChunkedDataStreamUploader_def)

interpretation upload: event_system "\<lambda>W. W = initial_upload" upload_pre upload_exec upload_inv
  by unfold_locales (use upload_inv_initial upload_exec_inv in auto)

section \<open>Properties\<close>

text \<open>An upload whose first read waits for data, five bytes of which have arrived since.\<close>

definition demo_upload :: "handler_core upload_world" where
  "demo_upload = projr (upload_run [NetReads 3, BytesArrive [1, 2, 3, 4, 5] []] initial_upload)"

lemma demo_upload_run: "upload_run [NetReads 3, BytesArrive [1, 2, 3, 4, 5] []] initial_upload = Inr demo_upload"
proof -
  have "is_ok (upload_run [NetReads 3, BytesArrive [1, 2, 3, 4, 5] []] initial_upload)" by code_simp
  then show ?thesis by (auto simp: demo_upload_def is_ok_iff)
qed

lemma demo_upload_reachable: "upload_reachable demo_upload"
proof -
  have "allowed_events upload_pre upload_exec [NetReads 3, BytesArrive [1, 2, 3, 4, 5] []] initial_upload" by code_simp
  then show ?thesis unfolding demo_upload_def by (rule run_events_reachable) (rule reachable_from.start, rule refl)
qed

text \<open>
  Property C15.  As long as the stream can be read, every event of the network stack and of the stream is
  handled without a failed assertion and without touching a deleted uploader, and the network stack has
  received exactly the bytes taken from the stream, in their order.
\<close>

theorem upload_in_order:
  assumes "upload_reachable W" "upload_pre e W"
  shows "\<exists>W'. upload_exec e W = Inr W' \<and> upload_reachable W' \<and> delivered W' = bytes_taken (delegate W')"
proof -
  obtain W' where W': "upload_exec e W = Inr W'" "upload_inv W'"
    using upload_exec_inv [OF upload.reachable_inv [OF assms(1)] assms(2)] by blast
  then show ?thesis using reachable_from.step [OF assms W'(1)] by (auto simp: upload_inv_def)
qed

theorem upload_in_order_witness:
  "\<exists>W'. upload_exec (StreamEvent NSStreamEventHasBytesAvailable) demo_upload = Inr W' \<and> upload_reachable W' \<and>
     delivered W' = bytes_taken (delegate W')"
proof -
  have "upload_pre (StreamEvent NSStreamEventHasBytesAvailable) demo_upload" by code_simp
  from upload_in_order [OF demo_upload_reachable this] show ?thesis .
qed

text \<open>
  Property C24.  A waiting read is answered as soon as the stream reports bytes it hands out: the read
  completes with at least one byte, at most as many as the buffer holds, and they are the next bytes of the stream.
\<close>

theorem upload_answers_waiting_read:
  assumes "upload_reachable W" "waiting W" "http_body_stream (delegate W) = Some s" "stream_available s \<noteq> []"
    "\<forall>a \<in> set (take 1 (stream_answers s)). 0 < a" "uploader W = Some u" "0 < pending_read_buffer_length u"
  shows "\<exists>W' n. upload_exec (StreamEvent NSStreamEventHasBytesAvailable) W = Inr W' \<and> \<not> waiting W' \<and>
    0 < n \<and> n \<le> pending_read_buffer_length u \<and> upload_log W' = upload_log W @ [OnReadCompleted n] \<and>
    delivered W' = delivered W @ take n (stream_available s)"
proof -
  have inv: "upload_inv W" by (rule upload.reachable_inv [OF assms(1)])
  have u: "pending_read_buffer u" "pending_internal_read u" "delivered W = bytes_taken (delegate W)"
    "core_ready (delegate W)" "net_request (delegate W)"
    using inv assms(2,6) by (auto simp: upload_inv_def core.synced_def waiting_def)
  let ?len = "pending_read_buffer_length u" and ?u = "u\<lparr>is_final_chunk := False\<rparr>"
  let ?W = "W\<lparr>uploader := Some ?u\<rparr>"
  define n where "n = min (case stream_answers s of [] \<Rightarrow> ?len | a # as \<Rightarrow> min (nat a) ?len) (length (stream_available s))"
  have n: "0 < n" "n \<le> ?len" using assms(4,5,7) by (auto simp: n_def split: list.splits)
  have "fst (stream_read ?len s) = Some (take n (stream_available s))"
    using assms(5) by (auto simp: stream_read_def n_def Let_def take_min_length split: list.splits)
  then obtain d where ans: "OnRead ?len (delegate W) = Inr (NetBytes n, take n (stream_available s), d)"
    using u(4) assms(3,4) by (simp add: OnRead_cases n_def)
  obtain m where m: "n = Suc m" using n(1) by (cases n) auto
  have "\<exists>W'. Upload OnRead net_request ?W = Inr (NetBytes n, W') \<and> \<not> waiting W' \<and>
      upload_log W' = upload_log W @ [OnReadCompleted n] \<and> delivered W' = delivered W @ take n (stream_available s)"
    by (rule core.upload_cases [of ?W ?u]) (use u ans m in \<open>auto simp: waiting_def\<close>)
  then show ?thesis
    using n assms(3,6) u by (auto simp: HandleStreamEvent_def UploadWhenReady_def with_uploader_def core_ready_def)
qed

theorem upload_answers_waiting_read_witness:
  "\<exists>W' n. upload_exec (StreamEvent NSStreamEventHasBytesAvailable) demo_upload = Inr W' \<and> \<not> waiting W' \<and>
     0 < n \<and> n \<le> 3 \<and> delivered W' = take n [1, 2, 3, 4, 5]"
proof -
  have facts: "waiting demo_upload" "map_option stream_available (http_body_stream (delegate demo_upload)) = Some [1, 2, 3, 4, 5]"
    "map_option stream_answers (http_body_stream (delegate demo_upload)) = Some []"
    "map_option pending_read_buffer_length (uploader demo_upload) = Some 3" "delivered demo_upload = []"
    by code_simp+
  then obtain s u where *: "http_body_stream (delegate demo_upload) = Some s" "stream_available s = [1, 2, 3, 4, 5]"
    "stream_answers s = []" "uploader demo_upload = Some u" "pending_read_buffer_length u = 3" by auto
  show ?thesis
    using upload_answers_waiting_read [OF demo_upload_reachable facts(1) *(1) _ _ *(4)] * facts(5)
    by (simp del: upload_exec.simps) blast
qed

text \<open>
  The end of the stream completes a waiting read with no bytes and marks the chunk as the
  last one.
\<close>

lemma upload_end_completes_read:
  assumes "upload_reachable W" "waiting W" "http_body_stream (delegate W) \<noteq> None"
  shows "\<exists>W'. upload_exec (StreamEvent NSStreamEventEndEncountered) W = Inr W' \<and> \<not> waiting W' \<and>
    upload_log W' = upload_log W @ [SetIsFinalChunk, OnReadCompleted 0] \<and> delivered W' = delivered W"
proof -
  obtain u where u: "uploader W = Some u" "pending_internal_read u"
    using assms(2) by (auto simp: waiting_def split: option.splits)
  have c: "pending_read_buffer u" "delivered W = bytes_taken (delegate W)" "core_ready (delegate W)" "net_request (delegate W)"
    using upload.reachable_inv [OF assms(1)] u by (auto simp: upload_inv_def core.synced_def)
  let ?u = "u\<lparr>is_final_chunk := True\<rparr>"
  let ?W = "W\<lparr>delegate := (delegate W)\<lparr>http_body_stream := None, http_body_stream_delegate := False\<rparr>, uploader := Some ?u\<rparr>"
  have "\<exists>W'. Upload OnRead net_request ?W = Inr (NetBytes 0, W') \<and> \<not> waiting W' \<and>
      upload_log W' = upload_log W @ [SetIsFinalChunk, OnReadCompleted 0] \<and> delivered W' = delivered W"
    by (rule core.upload_cases [of ?W ?u]) (use u c in \<open>auto simp: waiting_def core_ready_def\<close>)
  then show ?thesis using assms(3) u c
    by (auto simp: HandleStreamEvent_def UploadWhenReady_def with_uploader_def core_ready_def on_core_def StopListeningStream_def)
qed

lemma upload_end_example:
  "\<exists>W'. upload_exec (StreamEvent NSStreamEventEndEncountered) demo_upload = Inr W' \<and> \<not> waiting W' \<and> delivered W' = []"
proof -
  have "waiting demo_upload" "http_body_stream (delegate demo_upload) \<noteq> None" "delivered demo_upload = []" by code_simp+
  then show ?thesis using upload_end_completes_read [OF demo_upload_reachable] by (metis append_Nil)
qed

text \<open>
  Property C25.  A failing read of the stream breaks the uploader: \<^verbatim>\<open>OnRead\<close> stops the request, which
  deletes the uploader, and returns into \<^verbatim>\<open>Upload\<close>, which then sets a flag of the deleted object.
\<close>

theorem upload_use_after_free:
  assumes "0 < n" "bs \<noteq> []" "a < 0"
  shows "upload_run [NetReads n, BytesArrive bs [a], StreamEvent NSStreamEventHasBytesAvailable] initial_upload =
    Inl (DanglingPointer ''ChunkedDataStreamUploader'')"
  using assms
  by (simp add: initial_upload_def ChunkedDataStreamUploader_def ReadInternal_def with_uploader_def Upload_def
      OnRead_def hasBytesAvailable_def HandleStreamEvent_def UploadWhenReady_def stream_read_def Let_def
      StopListeningStream_def StopRequestWithError_def StopNetRequest_def)

theorem upload_use_after_free_witness:
  "upload_run [NetReads 8, BytesArrive [65] [- 1], StreamEvent NSStreamEventHasBytesAvailable] initial_upload =
    Inl (DanglingPointer ''ChunkedDataStreamUploader'')"
  by (rule upload_use_after_free) simp_all

text \<open>
  A reset of the upload forgets that the stream has ended.  When the stream ends before the
  network stack initializes the upload (which resets it), the first read waits, and no later event of
  the stream or of the network stack but another reset ends the wait.
\<close>

theorem upload_reset_forgets_end:
  assumes "0 < n"
  shows "\<exists>W. upload_run [StreamEvent NSStreamEventEndEncountered, NetResets, NetReads n] initial_upload = Inr W \<and>
    waiting W \<and> http_body_stream (delegate W) = None \<and>
    (\<forall>e W'. upload_pre e W \<and> e \<noteq> NetResets \<and> upload_exec e W = Inr W' \<longrightarrow> waiting W')"
proof -
  obtain W where W: "upload_run [StreamEvent NSStreamEventEndEncountered, NetResets, NetReads n] initial_upload = Inr W"
      "waiting W" "http_body_stream (delegate W) = None"
    using assms
    by (simp add: initial_upload_def ChunkedDataStreamUploader_def ReadInternal_def ResetInternal_def with_uploader_def
        Upload_def OnRead_def HandleStreamEvent_def UploadWhenReady_def StopListeningStream_def on_core_def waiting_def)
  have "waiting W'" if "upload_pre e W" "e \<noteq> NetResets" "upload_exec e W = Inr W'" for e W'
    using that W(2,3) by (cases e) (auto simp: waiting_def)
  then show ?thesis using W by blast
qed

theorem upload_reset_forgets_end_witness:
  "\<exists>W. upload_run [StreamEvent NSStreamEventEndEncountered, NetResets, NetReads 8] initial_upload = Inr W \<and> waiting W"
  using upload_reset_forgets_end [of 8] by auto

end
