(* ===== verification/First_User_Action.thy ===== *)
theory First_User_Action
  imports Prelude
begin

text \<open>
  \<^verbatim>\<open>chrome/browser/metrics/first_user_action_recorder.cc\<close>: what the user does first after the
  application comes to the foreground, recorded once as a metric.

  The samples given to the histograms are collected in \<open>samples\<close>.  A rethrown action is a closure
  in the message queue of the thread; it is held as \<open>rethrow_callback\<close> until the queue runs it or
  it is cancelled.  Debug messages are left out.
\<close>

section \<open>Data\<close>

datatype DeviceFamilyIndex = HANDSET | TABLET

datatype FirstUserActionType = NEW_TASK | CONTINUATION | EXPIRATION | START_ON_NTP | FIRST_USER_ACTION_TYPE_COUNT

fun kFirstUserActionNewTaskHistogramName :: "DeviceFamilyIndex \<Rightarrow> string" where
  "kFirstUserActionNewTaskHistogramName HANDSET = ''FirstUserAction.BackgroundTimeNewTaskHandset''"
| "kFirstUserActionNewTaskHistogramName TABLET = ''FirstUserAction.BackgroundTimeNewTaskTablet''"

fun kFirstUserActionContinuationHistogramName :: "DeviceFamilyIndex \<Rightarrow> string" where
  "kFirstUserActionContinuationHistogramName HANDSET = ''FirstUserAction.BackgroundTimeContinuationHandset''"
| "kFirstUserActionContinuationHistogramName TABLET = ''FirstUserAction.BackgroundTimeContinuationTablet''"

fun kFirstUserActionExpirationHistogramName :: "DeviceFamilyIndex \<Rightarrow> string" where
  "kFirstUserActionExpirationHistogramName HANDSET = ''FirstUserAction.BackgroundTimeExpirationHandset''"
| "kFirstUserActionExpirationHistogramName TABLET = ''FirstUserAction.BackgroundTimeExpirationTablet''"

fun kFirstUserActionTypeHistogramName :: "DeviceFamilyIndex \<Rightarrow> string" where
  "kFirstUserActionTypeHistogramName HANDSET = ''FirstUserAction.HandsetUserActionType''"
| "kFirstUserActionTypeHistogramName TABLET = ''FirstUserAction.TabletUserActionType''"

definition kIgnoredActions :: "string list" where
  "kIgnoredActions = [''MobileOmniboxUse'', ''MobileFirstUserAction_Continuation'',
     ''MobileFirstUserAction_Expiration'', ''MobileFirstUserAction_NewTask'', ''MobileMenuCloseAllTabs'',
     ''MobileMenuCloseAllIncognitoTabs'', ''MobileMenuCloseTab'', ''MobileNewTabOpened'', ''MobileTabClosed'',
     ''MobileTabStripCloseTab'', ''MobileStackViewCloseTab'', ''MobileToolbarShowMenu'',
     ''MobileToolbarShowStackView'']"

definition kRethrownActions :: "string list" where
  "kRethrownActions = [''MobileTabSwitched'']"

definition kNewTaskActions :: "string list" where
  "kNewTaskActions = [''MobileMenuAllBookmarks'', ''MobileMenuHistory'', ''MobileMenuNewIncognitoTab'',
     ''MobileMenuNewTab'', ''MobileMenuRecentTabs'', ''MobileMenuVoiceSearch'',
     ''MobileBookmarkManagerEntryOpened'', ''MobileRecentTabManagerTabFromOtherDeviceOpened'',
     ''MobileNTPMostVisited'', ''MobileNTPShowBookmarks'', ''MobileNTPShowMostVisited'',
     ''MobileNTPShowOpenTabs'', ''MobileNTPShowHistory'', ''MobileNTPShowReadingList'',
     ''MobileNTPSwitchToBookmarks'', ''MobileNTPSwitchToMostVisited'', ''MobileNTPSwitchToOpenTabs'',
     ''MobileTabStripNewTab'', ''MobileToolbarNewTab'', ''MobileToolbarStackViewNewTab'',
     ''MobileToolbarVoiceSearch'', ''OmniboxInputInProgress'']"

definition kDurationHistogramMin :: int where "kDurationHistogramMin = 5"
definition kDurationHistogramMax :: int where "kDurationHistogramMax = 48 * 60"
definition kDurationHistogramBucketCount :: int where "kDurationHistogramBucketCount = 50"

datatype histogram_sample =
    EnumerationSample string FirstUserActionType
  | CustomCounts string int int int int

record action_recorder =
  device_family :: DeviceFamilyIndex
  recorded_action :: bool
  action_pending :: bool
  background_duration :: int
  rethrow_callback :: "(string \<times> nat) option"
  samples :: "histogram_sample list"

definition FirstUserActionRecorder :: "bool \<Rightarrow> int \<Rightarrow> action_recorder" where
  "FirstUserActionRecorder tablet duration =
     \<lparr>device_family = (if tablet then TABLET else HANDSET), recorded_action = False, action_pending = False,
      background_duration = duration, rethrow_callback = None, samples = []\<rparr>"

section \<open>Operations\<close>

fun ArrayContainsString :: "string list \<Rightarrow> string \<Rightarrow> bool" where
  "ArrayContainsString [] to_find = False"
| "ArrayContainsString (s # ss) to_find = (if to_find = s then True else ArrayContainsString ss to_find)"

definition duration_sample :: "string \<Rightarrow> action_recorder \<Rightarrow> histogram_sample" where
  "duration_sample name S = CustomCounts name (background_duration S) kDurationHistogramMin
     kDurationHistogramMax kDurationHistogramBucketCount"

definition RecordAction :: "FirstUserActionType \<Rightarrow> action_recorder \<Rightarrow> action_recorder res" where
  "RecordAction action_type S =
     (if recorded_action S then Inr S
      else
        let S = S\<lparr>samples := samples S @
                   [EnumerationSample (kFirstUserActionTypeHistogramName (device_family S)) action_type],
                 recorded_action := True\<rparr>
        in case action_type of
             NEW_TASK \<Rightarrow> Inr (S\<lparr>samples := samples S @
               [duration_sample (kFirstUserActionNewTaskHistogramName (device_family S)) S]\<rparr>)
           | CONTINUATION \<Rightarrow> Inr (S\<lparr>samples := samples S @
               [duration_sample (kFirstUserActionContinuationHistogramName (device_family S)) S]\<rparr>)
           | EXPIRATION \<Rightarrow> Inr (S\<lparr>samples := samples S @
               [duration_sample (kFirstUserActionExpirationHistogramName (device_family S)) S]\<rparr>)
           | START_ON_NTP \<Rightarrow> Inr S
           | FIRST_USER_ACTION_TYPE_COUNT \<Rightarrow> Inl (NotReached ''RecordAction''))"

definition ShouldProcessAction :: "string \<Rightarrow> nat \<Rightarrow> action_recorder \<Rightarrow> bool \<times> action_recorder" where
  "ShouldProcessAction action_name action_time S =
     (if recorded_action S then (False, S)
      else if \<not> action_pending S \<and> ArrayContainsString kRethrownActions action_name
      then (False, S\<lparr>rethrow_callback := Some (action_name, action_time), action_pending := True\<rparr>)
      else
        let known_mobile_action =
              (take 6 action_name = ''Mobile'' \<or> ArrayContainsString kNewTaskActions action_name)
        in (known_mobile_action \<and> \<not> ArrayContainsString kIgnoredActions action_name, S))"

definition OnUserAction :: "string \<Rightarrow> nat \<Rightarrow> action_recorder \<Rightarrow> action_recorder res" where
  "OnUserAction action_name action_time S =
     (case ShouldProcessAction action_name action_time S of (process, S) \<Rightarrow>
        if process
        then if ArrayContainsString kNewTaskActions action_name then RecordAction NEW_TASK S
             else RecordAction CONTINUATION S
        else Inr S)"

definition Expire :: "action_recorder \<Rightarrow> action_recorder res" where
  "Expire S = RecordAction EXPIRATION (S\<lparr>rethrow_callback := None\<rparr>)"

definition RecordStartOnNTP :: "action_recorder \<Rightarrow> action_recorder res" where
  "RecordStartOnNTP S = RecordAction START_ON_NTP S"

text \<open>The message queue runs the rethrown action, once.\<close>

definition run_rethrown :: "action_recorder \<Rightarrow> action_recorder res" where
  "run_rethrown S = (case rethrow_callback S of None \<Rightarrow> Inr S
     | Some (action_name, action_time) \<Rightarrow>
         OnUserAction action_name action_time (S\<lparr>rethrow_callback := None\<rparr>))"

datatype recorder_event = UserAction string nat | MessageQueueRuns | Expires | StartsOnNTP

fun recorder_exec :: "recorder_event \<Rightarrow> action_recorder \<Rightarrow> action_recorder res" where
  "recorder_exec (UserAction name time) S = OnUserAction name time S"
| "recorder_exec MessageQueueRuns S = run_rethrown S"
| "recorder_exec Expires S = Expire S"
| "recorder_exec StartsOnNTP S = RecordStartOnNTP S"

fun recorder_run :: "recorder_event list \<Rightarrow> action_recorder \<Rightarrow> action_recorder res" where
  "recorder_run [] S = Inr S"
| "recorder_run (e # es) S = rbind (recorder_exec e S) (recorder_run es)"

section \<open>Lemmas\<close>

lemma ArrayContainsString_iff [simp]: "ArrayContainsString ss s \<longleftrightarrow> s \<in> set ss"
  by (induction ss) auto

lemma recorder_run_append: "recorder_run (es @ fs) S = rbind (recorder_run es S) (recorder_run fs)"
proof (induction es arbitrary: S)
  case (Cons e es)
  then show ?case by (cases "recorder_exec e S") simp_all
qed simp

text \<open>The type of the action an event would have recorded in the given state, if any.\<close>

definition action_of :: "string \<Rightarrow> FirstUserActionType option" where
  "action_of name =
     (if name \<in> set kNewTaskActions then Some NEW_TASK
      else if take 6 name = ''Mobile'' \<and> name \<notin> set kIgnoredActions then Some CONTINUATION
      else None)"

fun duration_samples :: "FirstUserActionType \<Rightarrow> action_recorder \<Rightarrow> histogram_sample list" where
  "duration_samples NEW_TASK S = [duration_sample (kFirstUserActionNewTaskHistogramName (device_family S)) S]"
| "duration_samples CONTINUATION S = [duration_sample (kFirstUserActionContinuationHistogramName (device_family S)) S]"
| "duration_samples EXPIRATION S = [duration_sample (kFirstUserActionExpirationHistogramName (device_family S)) S]"
| "duration_samples _ S = []"

definition record_of :: "FirstUserActionType \<Rightarrow> action_recorder \<Rightarrow> histogram_sample list" where
  "record_of ty S = EnumerationSample (kFirstUserActionTypeHistogramName (device_family S)) ty # duration_samples ty S"

definition recording :: "FirstUserActionType \<Rightarrow> action_recorder \<Rightarrow> action_recorder" where
  "recording ty S = (if recorded_action S then S
     else S\<lparr>recorded_action := True, samples := samples S @ record_of ty S\<rparr>)"

lemma RecordAction_eq: "ty \<noteq> FIRST_USER_ACTION_TYPE_COUNT \<Longrightarrow> RecordAction ty S = Inr (recording ty S)"
  by (cases ty) (simp_all add: RecordAction_def recording_def record_of_def duration_sample_def Let_def)

lemma new_task_not_ignored: "name \<in> set kNewTaskActions \<Longrightarrow> name \<notin> set kIgnoredActions"
  by (auto simp: kNewTaskActions_def kIgnoredActions_def)

lemma OnUserAction_eq:
  "OnUserAction name time S = Inr
    (if recorded_action S then S
     else if \<not> action_pending S \<and> name \<in> set kRethrownActions
     then S\<lparr>rethrow_callback := Some (name, time), action_pending := True\<rparr>
     else case action_of name of None \<Rightarrow> S | Some ty \<Rightarrow> recording ty S)"
  by (auto simp: OnUserAction_def ShouldProcessAction_def RecordAction_eq action_of_def Let_def
      dest: new_task_not_ignored)


section \<open>Properties\<close>

text \<open>Every event is handled; a recorder that has recorded something does not change its samples.\<close>

definition recorder_inv :: "action_recorder \<Rightarrow> bool" where
  "recorder_inv S \<longleftrightarrow>
     (if recorded_action S then \<exists>ty. ty \<noteq> FIRST_USER_ACTION_TYPE_COUNT \<and> samples S = record_of ty S
      else samples S = [])"

lemma record_of_cong: "device_family S = device_family S' \<Longrightarrow> background_duration S = background_duration S' \<Longrightarrow>
    record_of ty S = record_of ty S'"
  by (cases ty) (simp_all add: record_of_def duration_sample_def)

lemma recording_inv: "recorder_inv S \<Longrightarrow> ty \<noteq> FIRST_USER_ACTION_TYPE_COUNT \<Longrightarrow> recorder_inv (recording ty S)"
  by (auto simp: recorder_inv_def recording_def intro!: exI [of _ ty] record_of_cong)

lemma recorder_inv_rethrow: "recorder_inv (S\<lparr>rethrow_callback := c, action_pending := b\<rparr>) = recorder_inv S"
  "recorder_inv (S\<lparr>rethrow_callback := c\<rparr>) = recorder_inv S"
  using record_of_cong [of "S\<lparr>rethrow_callback := c, action_pending := b\<rparr>" S]
    record_of_cong [of "S\<lparr>rethrow_callback := c\<rparr>" S] by (simp_all add: recorder_inv_def)

lemma OnUserAction_inv: "recorder_inv S \<Longrightarrow> \<exists>S'. OnUserAction name time S = Inr S' \<and> recorder_inv S'"
  by (auto simp: OnUserAction_eq recorder_inv_rethrow action_of_def intro: recording_inv)

lemma recorder_exec_inv: "recorder_inv S \<Longrightarrow> \<exists>S'. recorder_exec e S = Inr S' \<and> recorder_inv S'"
proof (cases e)
  case MessageQueueRuns
  assume "recorder_inv S"
  then show ?thesis using MessageQueueRuns OnUserAction_inv recorder_inv_rethrow(2)
    by (auto simp: run_rethrown_def split: option.split)
qed (auto simp: OnUserAction_inv Expire_def RecordStartOnNTP_def RecordAction_eq recorder_inv_rethrow intro: recording_inv)

lemma recorder_run_inv: "recorder_inv S \<Longrightarrow> \<exists>S'. recorder_run es S = Inr S' \<and> recorder_inv S'"
proof (induction es arbitrary: S)
  case (Cons e es)
  then show ?case using recorder_exec_inv [OF Cons.prems, of e] by auto
qed auto

text \<open>
  Whatever the user does, whenever the message queue runs and the recorder expires, at most
  one action is recorded: the samples are none, or the type of one action with its background
  duration, in the histograms of the device; no assertion fails.
\<close>

theorem first_action_recorded_once:
  "\<exists>S. recorder_run es (FirstUserActionRecorder tablet duration) = Inr S \<and>
     (if recorded_action S then \<exists>ty. ty \<noteq> FIRST_USER_ACTION_TYPE_COUNT \<and> samples S = record_of ty S else samples S = [])"
proof -
  have "recorder_inv (FirstUserActionRecorder tablet duration)"
    by (simp add: recorder_inv_def FirstUserActionRecorder_def)
  from recorder_run_inv [OF this] show ?thesis by (simp add: recorder_inv_def)
qed

text \<open>A tab switch is waiting in the message queue, unless something has been recorded.\<close>

definition tab_switch_pending :: "action_recorder \<Rightarrow> bool" where
  "tab_switch_pending S \<longleftrightarrow> recorded_action S \<or>
     action_pending S \<and> (\<exists>t. rethrow_callback S = Some (''MobileTabSwitched'', t))"

lemma tab_switch_continues: "action_of ''MobileTabSwitched'' = Some CONTINUATION"
  by (simp add: action_of_def kNewTaskActions_def kIgnoredActions_def)

lemma recording_recorded [simp]: "recorded_action (recording ty S)"
  by (simp add: recording_def)

lemma run_rethrown_records:
  assumes "tab_switch_pending S"
  shows "\<exists>S'. run_rethrown S = Inr S' \<and> recorded_action S'"
  using assms tab_switch_continues
  by (auto simp: run_rethrown_def tab_switch_pending_def OnUserAction_eq split: option.split)

lemma tab_switch_exec: "tab_switch_pending S \<Longrightarrow> \<exists>S'. recorder_exec e S = Inr S' \<and> tab_switch_pending S'"
proof (cases e)
  case MessageQueueRuns
  assume "tab_switch_pending S"
  then show ?thesis using MessageQueueRuns run_rethrown_records by (auto simp: tab_switch_pending_def)
qed (auto simp: OnUserAction_eq Expire_def RecordStartOnNTP_def RecordAction_eq tab_switch_pending_def split: option.split)

lemma tab_switch_run: "tab_switch_pending S \<Longrightarrow> \<exists>S'. recorder_run es S = Inr S' \<and> tab_switch_pending S'"
proof (induction es arbitrary: S)
  case (Cons e es)
  then show ?case using tab_switch_exec [OF Cons.prems, of e] by auto
qed auto

text \<open>
  A tab switch, set aside because a later action may tell more, is not lost: whatever
  happens in between, once the message queue has run, an action has been recorded.
\<close>

theorem rethrown_action_recorded:
  "\<exists>S. recorder_run (UserAction ''MobileTabSwitched'' time # es @ [MessageQueueRuns])
        (FirstUserActionRecorder tablet duration) = Inr S \<and> recorded_action S"
proof -
  obtain S1 where S1: "recorder_exec (UserAction ''MobileTabSwitched'' time) (FirstUserActionRecorder tablet duration) = Inr S1"
    "tab_switch_pending S1"
    by (simp add: OnUserAction_eq FirstUserActionRecorder_def kRethrownActions_def tab_switch_pending_def)
  obtain S2 where S2: "recorder_run es S1 = Inr S2" "tab_switch_pending S2" using tab_switch_run [OF S1(2)] by blast
  show ?thesis using S1(1) S2(1) run_rethrown_records [OF S2(2)] by (auto simp: recorder_run_append)
qed

end
