(* ===== verification/Download_Mime_Type.thy ===== *)
theory Download_Mime_Type
  imports Prelude
begin

text \<open>
  Downloads by MIME type: the constants of \<^verbatim>\<open>chrome/browser/download/mime_type_util.cc\<close>, the
  classification reported to the histogram \<^verbatim>\<open>Download.IOSDownloadMimeType\<close>
  (\<^verbatim>\<open>download_mimetype_util.cc\<close>) and the choice of the tab helper that handles a new download
  (\<^verbatim>\<open>browser_download_service.mm\<close>).

  The chain of comparisons of the classification is the association list \<open>mime_type_results\<close>, in
  the order of the source, of which the first entry that matches counts.
\<close>

section \<open>Constants\<close>

definition kUsdzFileExtension :: string where "kUsdzFileExtension = ''.usdz''"
definition kRealityFileExtension :: string where "kRealityFileExtension = ''.reality''"
definition kMobileConfigurationType :: string where "kMobileConfigurationType = ''application/x-apple-aspen-config''"
definition kPkPassMimeType :: string where "kPkPassMimeType = ''application/vnd.apple.pkpass''"
definition kVcardMimeType :: string where "kVcardMimeType = ''text/vcard''"
definition kUsdzMimeType :: string where "kUsdzMimeType = ''model/vnd.usdz+zip''"
definition kLegacyUsdzMimeType :: string where "kLegacyUsdzMimeType = ''model/usd''"
definition kLegacyPixarUsdzMimeType :: string where "kLegacyPixarUsdzMimeType = ''model/vnd.pixar.usd''"
definition kZipArchiveMimeType :: string where "kZipArchiveMimeType = ''application/zip''"
definition kMicrosoftApplicationMimeType :: string where "kMicrosoftApplicationMimeType = ''application/x-msdownload''"
definition kAndroidPackageArchiveMimeType :: string where "kAndroidPackageArchiveMimeType = ''application/vnd.android.package-archive''"
definition kCalendarMimeType :: string where "kCalendarMimeType = ''text/calendar''"
definition kAppleDiskImageMimeType :: string where "kAppleDiskImageMimeType = ''application/x-apple-diskimage''"
definition kAppleInstallerPackageMimeType :: string where "kAppleInstallerPackageMimeType = ''application/vnd.apple.installer+xml''"
definition kSevenZipArchiveMimeType :: string where "kSevenZipArchiveMimeType = ''application/x-7z-compressed''"
definition kRARArchiveMimeType :: string where "kRARArchiveMimeType = ''application/x-rar-compressed''"
definition kTarArchiveMimeType :: string where "kTarArchiveMimeType = ''application/x-tar''"
definition kAdobeFlashMimeType :: string where "kAdobeFlashMimeType = ''application/x-shockwave-flash''"
definition kAmazonKindleBookMimeType :: string where "kAmazonKindleBookMimeType = ''application/vnd.amazon.ebook''"
definition kBinaryDataMimeType :: string where "kBinaryDataMimeType = ''application/octet-stream''"
definition kBitTorrentMimeType :: string where "kBitTorrentMimeType = ''application/x-bittorrent''"
definition kJavaArchiveMimeType :: string where "kJavaArchiveMimeType = ''application/java-archive''"
definition kAACAudioMimeType :: string where "kAACAudioMimeType = ''audio/aac''"
definition kAbiWordDocumentMimeType :: string where "kAbiWordDocumentMimeType = ''application/x-abiword''"
definition kArchiveDocumentMimeType :: string where "kArchiveDocumentMimeType = ''application/x-freearc''"
definition kAVIFImageMimeType :: string where "kAVIFImageMimeType = ''image/avif''"
definition kAVIVideoMimeType :: string where "kAVIVideoMimeType = ''video/x-msvideo''"
definition kGenericBitmapMimeType :: string where "kGenericBitmapMimeType = ''image/bmp''"
definition kMicrosoftBitmapMimeType :: string where "kMicrosoftBitmapMimeType = ''image/x-ms-bmp''"
definition kBZipArchiveMimeType :: string where "kBZipArchiveMimeType = ''application/x-bzip''"
definition kBZip2ArchiveMimeType :: string where "kBZip2ArchiveMimeType = ''application/x-bzip2''"
definition kCDAudioMimeType :: string where "kCDAudioMimeType = ''application/x-cdf''"
definition kCShellScriptMimeType :: string where "kCShellScriptMimeType = ''application/x-csh''"
definition kCascadingStyleSheetMimeType :: string where "kCascadingStyleSheetMimeType = ''text/css''"
definition kCommaSeparatedValuesMimeType :: string where "kCommaSeparatedValuesMimeType = ''text/csv''"
definition kMicrosoftWordMimeType :: string where "kMicrosoftWordMimeType = ''application/msword''"
definition kMicrosoftWordXMLMimeType :: string where "kMicrosoftWordXMLMimeType = ''application/vnd.openxmlformats-officedocument.wordprocessingml.document''"
definition kMSEmbeddedOpenTypefontMimeType :: string where "kMSEmbeddedOpenTypefontMimeType = ''application/vnd.ms-fontobject''"
definition kElectronicPublicationMimeType :: string where "kElectronicPublicationMimeType = ''application/epub+zip''"
definition kGZipCompressedArchiveMimeType :: string where "kGZipCompressedArchiveMimeType = ''application/gzip''"
definition kGraphicsInterchangeFormatMimeType :: string where "kGraphicsInterchangeFormatMimeType = ''image/gif''"
definition kHyperTextMarkupLanguageMimeType :: string where "kHyperTextMarkupLanguageMimeType = ''text/html''"
definition kIconFormatMimeType :: string where "kIconFormatMimeType = ''image/vnd.microsoft.icon''"
definition kJPEGImageMimeType :: string where "kJPEGImageMimeType = ''image/jpeg''"
definition kJavaScriptMimeType :: string where "kJavaScriptMimeType = ''text/javascript''"
definition kJSONFormatMimeType :: string where "kJSONFormatMimeType = ''application/json''"
definition kJSONLDFormatMimeType :: string where "kJSONLDFormatMimeType = ''application/ld+json''"
definition kMusicalInstrumentDigitalInterfaceMimeType :: string where "kMusicalInstrumentDigitalInterfaceMimeType = ''audio/midi''"
definition kXMusicalInstrumentDigitalInterfaceMimeType :: string where "kXMusicalInstrumentDigitalInterfaceMimeType = ''audio/x-midi''"
definition kMP3AudioMimeType :: string where "kMP3AudioMimeType = ''audio/mpeg''"
definition kMP4VideoMimeType :: string where "kMP4VideoMimeType = ''video/mp4''"
definition kMPEGVideoMimeType :: string where "kMPEGVideoMimeType = ''video/mpeg''"
definition kOpenDocumentPresentationDocumentMimeType :: string where "kOpenDocumentPresentationDocumentMimeType = ''application/vnd.oasis.opendocument.presentation''"
definition kOpenDocumentSpreadsheetDocumentMimeType :: string where "kOpenDocumentSpreadsheetDocumentMimeType = ''application/vnd.oasis.opendocument.spreadsheet''"
definition kOpenDocumentTextDocumentMimeType :: string where "kOpenDocumentTextDocumentMimeType = ''application/vnd.oasis.opendocument.text''"
definition kOGGAudioMimeType :: string where "kOGGAudioMimeType = ''audio/ogg''"
definition kOGGVideoMimeType :: string where "kOGGVideoMimeType = ''video/ogg''"
definition kOGGMimeType :: string where "kOGGMimeType = ''application/ogg''"
definition kOpusAudioMimeType :: string where "kOpusAudioMimeType = ''audio/opus''"
definition kOpenTypeFontMimeType :: string where "kOpenTypeFontMimeType = ''font/otf''"
definition kPortableNetworkGraphicMimeType :: string where "kPortableNetworkGraphicMimeType = ''image/png''"
definition kAdobePortableDocumentFormatMimeType :: string where "kAdobePortableDocumentFormatMimeType = ''application/pdf''"
definition kHypertextPreprocessorMimeType :: string where "kHypertextPreprocessorMimeType = ''application/x-httpd-php''"
definition kMicrosoftPowerPointMimeType :: string where "kMicrosoftPowerPointMimeType = ''application/vnd.ms-powerpoint''"
definition kMicrosoftPowerPointOpenXMLMimeType :: string where "kMicrosoftPowerPointOpenXMLMimeType = ''application/vnd.openxmlformats-officedocument.presentationml.presentation''"
definition kRARArchiveVNDMimeType :: string where "kRARArchiveVNDMimeType = ''application/vnd.rar''"
definition kRichTextFormatMimeType :: string where "kRichTextFormatMimeType = ''application/rtf''"
definition kBourneShellScriptMimeType :: string where "kBourneShellScriptMimeType = ''application/x-sh''"
definition kScalableVectorGraphicMimeType :: string where "kScalableVectorGraphicMimeType = ''image/svg+xml''"
definition kTaggedImageFileFormatMimeType :: string where "kTaggedImageFileFormatMimeType = ''image/tiff''"
definition kMPEGTransportStreamMimeType :: string where "kMPEGTransportStreamMimeType = ''video/mp2t''"
definition kTrueTypeFontMimeType :: string where "kTrueTypeFontMimeType = ''font/ttf''"
definition kTextMimeType :: string where "kTextMimeType = ''text/plain''"
definition kMicrosoftVisioMimeType :: string where "kMicrosoftVisioMimeType = ''application/vnd.visio''"
definition kWaveformAudioFormatMimeType :: string where "kWaveformAudioFormatMimeType = ''audio/wav''"
definition kWEBMAudioMimeType :: string where "kWEBMAudioMimeType = ''audio/webm''"
definition kWEBMVideoMimeType :: string where "kWEBMVideoMimeType = ''video/webm''"
definition kWEBPImageMimeType :: string where "kWEBPImageMimeType = ''image/webp''"
definition kWebOpenFontMimeType :: string where "kWebOpenFontMimeType = ''font/woff''"
definition kWebOpenFont2MimeType :: string where "kWebOpenFont2MimeType = ''font/woff2''"
definition kXHTMLMimeType :: string where "kXHTMLMimeType = ''application/xhtml+xml''"
definition kMicrosoftExcelMimeType :: string where "kMicrosoftExcelMimeType = ''application/vnd.ms-excel''"
definition kMicrosoftExcelOpenXMLMimeType :: string where "kMicrosoftExcelOpenXMLMimeType = ''application/vnd.openxmlformats-officedocument.spreadsheetml.sheet''"
definition kXMLMimeType :: string where "kXMLMimeType = ''application/xml''"
definition kXULMimeType :: string where "kXULMimeType = ''application/vnd.mozilla.xul+xml''"
definition k3GPPVideoMimeType :: string where "k3GPPVideoMimeType = ''video/3gpp''"
definition k3GPPAudioMimeType :: string where "k3GPPAudioMimeType = ''audio/3gpp''"
definition k3GPP2VideoMimeType :: string where "k3GPP2VideoMimeType = ''video/3gpp2''"
definition k3GPP2AudioMimeType :: string where "k3GPP2AudioMimeType = ''audio/3gpp2''"

text \<open>
  The enumerators of \<^verbatim>\<open>DownloadMimeTypeResult\<close> are persisted in logs by their numbers, which the
  source fixes one by one; they are natural numbers here.
\<close>

type_synonym DownloadMimeTypeResult = nat

definition Other :: DownloadMimeTypeResult where "Other = 0"
definition PkPass :: DownloadMimeTypeResult where "PkPass = 1"
definition iOSMobileConfig :: DownloadMimeTypeResult where "iOSMobileConfig = 2"
definition ZipArchive :: DownloadMimeTypeResult where "ZipArchive = 3"
definition MicrosoftApplication :: DownloadMimeTypeResult where "MicrosoftApplication = 4"
definition AndroidPackageArchive :: DownloadMimeTypeResult where "AndroidPackageArchive = 5"
definition VirtualContactFile :: DownloadMimeTypeResult where "VirtualContactFile = 6"
definition Calendar :: DownloadMimeTypeResult where "Calendar = 7"
definition LegacyUniversalSceneDescription :: DownloadMimeTypeResult where "LegacyUniversalSceneDescription = 8"
definition AppleDiskImage :: DownloadMimeTypeResult where "AppleDiskImage = 9"
definition AppleInstallerPackage :: DownloadMimeTypeResult where "AppleInstallerPackage = 10"
definition SevenZipArchive :: DownloadMimeTypeResult where "SevenZipArchive = 11"
definition RARArchive :: DownloadMimeTypeResult where "RARArchive = 12"
definition TarArchive :: DownloadMimeTypeResult where "TarArchive = 13"
definition AdobeFlash :: DownloadMimeTypeResult where "AdobeFlash = 14"
definition AmazonKindleBook :: DownloadMimeTypeResult where "AmazonKindleBook = 15"
definition BinaryData :: DownloadMimeTypeResult where "BinaryData = 16"
definition BitTorrent :: DownloadMimeTypeResult where "BitTorrent = 17"
definition JavaArchive :: DownloadMimeTypeResult where "JavaArchive = 18"
definition LegacyPixarUniversalSceneDescription :: DownloadMimeTypeResult where "LegacyPixarUniversalSceneDescription = 19"
definition UniversalSceneDescription :: DownloadMimeTypeResult where "UniversalSceneDescription = 20"
definition Vcard :: DownloadMimeTypeResult where "Vcard = 21"
definition AACAudio :: DownloadMimeTypeResult where "AACAudio = 22"
definition AbiWordDocument :: DownloadMimeTypeResult where "AbiWordDocument = 23"
definition ArchiveDocument :: DownloadMimeTypeResult where "ArchiveDocument = 24"
definition AVIFImage :: DownloadMimeTypeResult where "AVIFImage = 25"
definition AVIVideo :: DownloadMimeTypeResult where "AVIVideo = 26"
definition GenericBitmap :: DownloadMimeTypeResult where "GenericBitmap = 27"
definition MicrosoftBitmap :: DownloadMimeTypeResult where "MicrosoftBitmap = 28"
definition BZip2Archive :: DownloadMimeTypeResult where "BZip2Archive = 29"
definition CDAudio :: DownloadMimeTypeResult where "CDAudio = 30"
definition CShellScript :: DownloadMimeTypeResult where "CShellScript = 31"
definition CascadingStyleSheet :: DownloadMimeTypeResult where "CascadingStyleSheet = 32"
definition CommaSeparatedValues :: DownloadMimeTypeResult where "CommaSeparatedValues = 33"
definition MicrosoftWord :: DownloadMimeTypeResult where "MicrosoftWord = 34"
definition MicrosoftWordXML :: DownloadMimeTypeResult where "MicrosoftWordXML = 35"
definition MSEmbeddedOpenTypefont :: DownloadMimeTypeResult where "MSEmbeddedOpenTypefont = 36"
definition ElectronicPublication :: DownloadMimeTypeResult where "ElectronicPublication = 37"
definition GZipCompressedArchive :: DownloadMimeTypeResult where "GZipCompressedArchive = 38"
definition GraphicsInterchangeFormat :: DownloadMimeTypeResult where "GraphicsInterchangeFormat = 39"
definition HyperTextMarkupLanguage :: DownloadMimeTypeResult where "HyperTextMarkupLanguage = 40"
definition IconFormat :: DownloadMimeTypeResult where "IconFormat = 41"
definition JPEGImage :: DownloadMimeTypeResult where "JPEGImage = 42"
definition JavaScript :: DownloadMimeTypeResult where "JavaScript = 43"
definition JSONFormat :: DownloadMimeTypeResult where "JSONFormat = 44"
definition JSONLDFormat :: DownloadMimeTypeResult where "JSONLDFormat = 45"
definition MusicalInstrumentDigitalInterface :: DownloadMimeTypeResult where "MusicalInstrumentDigitalInterface = 46"
definition XMusicalInstrumentDigitalInterface :: DownloadMimeTypeResult where "XMusicalInstrumentDigitalInterface = 47"
definition MP3Audio :: DownloadMimeTypeResult where "MP3Audio = 48"
definition MP4Video :: DownloadMimeTypeResult where "MP4Video = 49"
definition MPEGVideo :: DownloadMimeTypeResult where "MPEGVideo = 50"
definition OpenDocumentPresentationDocument :: DownloadMimeTypeResult where "OpenDocumentPresentationDocument = 51"
definition OpenDocumentSpreadsheetDocument :: DownloadMimeTypeResult where "OpenDocumentSpreadsheetDocument = 52"
definition OpenDocumentTextDocument :: DownloadMimeTypeResult where "OpenDocumentTextDocument = 53"
definition OGGAudio :: DownloadMimeTypeResult where "OGGAudio = 54"
definition OGGVideo :: DownloadMimeTypeResult where "OGGVideo = 55"
definition OGG :: DownloadMimeTypeResult where "OGG = 56"
definition OpusAudio :: DownloadMimeTypeResult where "OpusAudio = 57"
definition OpenTypeFont :: DownloadMimeTypeResult where "OpenTypeFont = 58"
definition PortableNetworkGraphic :: DownloadMimeTypeResult where "PortableNetworkGraphic = 59"
definition AdobePortableDocumentFormat :: DownloadMimeTypeResult where "AdobePortableDocumentFormat = 60"
definition HypertextPreprocessor :: DownloadMimeTypeResult where "HypertextPreprocessor = 61"
definition MicrosoftPowerPoint :: DownloadMimeTypeResult where "MicrosoftPowerPoint = 62"
definition MicrosoftPowerPointOpenXML :: DownloadMimeTypeResult where "MicrosoftPowerPointOpenXML = 63"
definition RARArchiveVND :: DownloadMimeTypeResult where "RARArchiveVND = 64"
definition RichTextFormat :: DownloadMimeTypeResult where "RichTextFormat = 65"
definition BourneShellScript :: DownloadMimeTypeResult where "BourneShellScript = 66"
definition ScalableVectorGraphic :: DownloadMimeTypeResult where "ScalableVectorGraphic = 67"
definition TaggedImageFileFormat :: DownloadMimeTypeResult where "TaggedImageFileFormat = 68"
definition MPEGTransportStream :: DownloadMimeTypeResult where "MPEGTransportStream = 69"
definition TrueTypeFont :: DownloadMimeTypeResult where "TrueTypeFont = 70"
definition Text :: DownloadMimeTypeResult where "Text = 71"
definition MicrosoftVisio :: DownloadMimeTypeResult where "MicrosoftVisio = 72"
definition WaveformAudioFormat :: DownloadMimeTypeResult where "WaveformAudioFormat = 73"
definition WEBMAudio :: DownloadMimeTypeResult where "WEBMAudio = 74"
definition WEBMVideo :: DownloadMimeTypeResult where "WEBMVideo = 75"
definition WEBPImage :: DownloadMimeTypeResult where "WEBPImage = 76"
definition WebOpenFont :: DownloadMimeTypeResult where "WebOpenFont = 77"
definition WebOpenFont2 :: DownloadMimeTypeResult where "WebOpenFont2 = 78"
definition XHTML :: DownloadMimeTypeResult where "XHTML = 79"
definition MicrosoftExcel :: DownloadMimeTypeResult where "MicrosoftExcel = 80"
definition MicrosoftExcelOpenXML :: DownloadMimeTypeResult where "MicrosoftExcelOpenXML = 81"
definition XML :: DownloadMimeTypeResult where "XML = 82"
definition XUL :: DownloadMimeTypeResult where "XUL = 83"
definition k3GPPVideo :: DownloadMimeTypeResult where "k3GPPVideo = 84"
definition k3GPPAudio :: DownloadMimeTypeResult where "k3GPPAudio = 85"
definition k3GPP2Video :: DownloadMimeTypeResult where "k3GPP2Video = 86"
definition k3GPP2Audio :: DownloadMimeTypeResult where "k3GPP2Audio = 87"

named_theorems mime_defs \<open>constants of the MIME type classification\<close>

lemmas [mime_defs] =
  kUsdzFileExtension_def kRealityFileExtension_def kMobileConfigurationType_def kPkPassMimeType_def
  kVcardMimeType_def kUsdzMimeType_def kLegacyUsdzMimeType_def kLegacyPixarUsdzMimeType_def
  kZipArchiveMimeType_def kMicrosoftApplicationMimeType_def kAndroidPackageArchiveMimeType_def
  kCalendarMimeType_def kAppleDiskImageMimeType_def kAppleInstallerPackageMimeType_def
  kSevenZipArchiveMimeType_def kRARArchiveMimeType_def kTarArchiveMimeType_def
  kAdobeFlashMimeType_def kAmazonKindleBookMimeType_def kBinaryDataMimeType_def
  kBitTorrentMimeType_def kJavaArchiveMimeType_def kAACAudioMimeType_def kAbiWordDocumentMimeType_def
  kArchiveDocumentMimeType_def kAVIFImageMimeType_def kAVIVideoMimeType_def
  kGenericBitmapMimeType_def kMicrosoftBitmapMimeType_def kBZipArchiveMimeType_def
  kBZip2ArchiveMimeType_def kCDAudioMimeType_def kCShellScriptMimeType_def
  kCascadingStyleSheetMimeType_def kCommaSeparatedValuesMimeType_def kMicrosoftWordMimeType_def
  kMicrosoftWordXMLMimeType_def kMSEmbeddedOpenTypefontMimeType_def
  kElectronicPublicationMimeType_def kGZipCompressedArchiveMimeType_def
  kGraphicsInterchangeFormatMimeType_def kHyperTextMarkupLanguageMimeType_def kIconFormatMimeType_def
  kJPEGImageMimeType_def kJavaScriptMimeType_def kJSONFormatMimeType_def kJSONLDFormatMimeType_def
  kMusicalInstrumentDigitalInterfaceMimeType_def kXMusicalInstrumentDigitalInterfaceMimeType_def
  kMP3AudioMimeType_def kMP4VideoMimeType_def kMPEGVideoMimeType_def
  kOpenDocumentPresentationDocumentMimeType_def kOpenDocumentSpreadsheetDocumentMimeType_def
  kOpenDocumentTextDocumentMimeType_def kOGGAudioMimeType_def kOGGVideoMimeType_def kOGGMimeType_def
  kOpusAudioMimeType_def kOpenTypeFontMimeType_def kPortableNetworkGraphicMimeType_def
  kAdobePortableDocumentFormatMimeType_def kHypertextPreprocessorMimeType_def
  kMicrosoftPowerPointMimeType_def kMicrosoftPowerPointOpenXMLMimeType_def kRARArchiveVNDMimeType_def
  kRichTextFormatMimeType_def kBourneShellScriptMimeType_def kScalableVectorGraphicMimeType_def
  kTaggedImageFileFormatMimeType_def kMPEGTransportStreamMimeType_def kTrueTypeFontMimeType_def
  kTextMimeType_def kMicrosoftVisioMimeType_def kWaveformAudioFormatMimeType_def
  kWEBMAudioMimeType_def kWEBMVideoMimeType_def kWEBPImageMimeType_def kWebOpenFontMimeType_def
  kWebOpenFont2MimeType_def kXHTMLMimeType_def kMicrosoftExcelMimeType_def
  kMicrosoftExcelOpenXMLMimeType_def kXMLMimeType_def kXULMimeType_def k3GPPVideoMimeType_def
  k3GPPAudioMimeType_def k3GPP2VideoMimeType_def k3GPP2AudioMimeType_def Other_def PkPass_def
  iOSMobileConfig_def ZipArchive_def MicrosoftApplication_def AndroidPackageArchive_def
  VirtualContactFile_def Calendar_def LegacyUniversalSceneDescription_def AppleDiskImage_def
  AppleInstallerPackage_def SevenZipArchive_def RARArchive_def TarArchive_def AdobeFlash_def
  AmazonKindleBook_def BinaryData_def BitTorrent_def JavaArchive_def
  LegacyPixarUniversalSceneDescription_def UniversalSceneDescription_def Vcard_def AACAudio_def
  AbiWordDocument_def ArchiveDocument_def AVIFImage_def AVIVideo_def GenericBitmap_def
  MicrosoftBitmap_def BZip2Archive_def CDAudio_def CShellScript_def CascadingStyleSheet_def
  CommaSeparatedValues_def MicrosoftWord_def MicrosoftWordXML_def MSEmbeddedOpenTypefont_def
  ElectronicPublication_def GZipCompressedArchive_def GraphicsInterchangeFormat_def
  HyperTextMarkupLanguage_def IconFormat_def JPEGImage_def JavaScript_def JSONFormat_def
  JSONLDFormat_def MusicalInstrumentDigitalInterface_def XMusicalInstrumentDigitalInterface_def
  MP3Audio_def MP4Video_def MPEGVideo_def OpenDocumentPresentationDocument_def
  OpenDocumentSpreadsheetDocument_def OpenDocumentTextDocument_def OGGAudio_def OGGVideo_def OGG_def
  OpusAudio_def OpenTypeFont_def PortableNetworkGraphic_def AdobePortableDocumentFormat_def
  HypertextPreprocessor_def MicrosoftPowerPoint_def MicrosoftPowerPointOpenXML_def RARArchiveVND_def
  RichTextFormat_def BourneShellScript_def ScalableVectorGraphic_def TaggedImageFileFormat_def
  MPEGTransportStream_def TrueTypeFont_def Text_def MicrosoftVisio_def WaveformAudioFormat_def
  WEBMAudio_def WEBMVideo_def WEBPImage_def WebOpenFont_def WebOpenFont2_def XHTML_def
  MicrosoftExcel_def MicrosoftExcelOpenXML_def XML_def XUL_def k3GPPVideo_def k3GPPAudio_def
  k3GPP2Video_def k3GPP2Audio_def

section \<open>Classification\<close>

definition special_mime_types :: "(string \<times> DownloadMimeTypeResult) list" where
  "special_mime_types = [(kPkPassMimeType, PkPass), (kZipArchiveMimeType, ZipArchive),
     (kMobileConfigurationType, iOSMobileConfig), (kMicrosoftApplicationMimeType, MicrosoftApplication),
     (kAndroidPackageArchiveMimeType, AndroidPackageArchive), (kVcardMimeType, VirtualContactFile),
     (kCalendarMimeType, Calendar), (kLegacyUsdzMimeType, LegacyUniversalSceneDescription),
     (kAppleDiskImageMimeType, AppleDiskImage), (kAppleInstallerPackageMimeType, AppleInstallerPackage),
     (kSevenZipArchiveMimeType, SevenZipArchive), (kRARArchiveMimeType, RARArchive),
     (kTarArchiveMimeType, TarArchive), (kAdobeFlashMimeType, AdobeFlash),
     (kAmazonKindleBookMimeType, AmazonKindleBook), (kBinaryDataMimeType, BinaryData),
     (kBitTorrentMimeType, BitTorrent), (kJavaArchiveMimeType, JavaArchive), (kVcardMimeType, Vcard),
     (kLegacyPixarUsdzMimeType, LegacyPixarUniversalSceneDescription),
     (kUsdzMimeType, UniversalSceneDescription)]"

definition common_mime_types_1 :: "(string \<times> DownloadMimeTypeResult) list" where
  "common_mime_types_1 = [(kAACAudioMimeType, AACAudio), (kAbiWordDocumentMimeType, AbiWordDocument),
     (kArchiveDocumentMimeType, ArchiveDocument), (kAVIFImageMimeType, AVIFImage),
     (kAVIVideoMimeType, AVIVideo), (kGenericBitmapMimeType, GenericBitmap),
     (kMicrosoftBitmapMimeType, MicrosoftBitmap), (kBZip2ArchiveMimeType, BZip2Archive),
     (kCDAudioMimeType, CDAudio), (kCShellScriptMimeType, CShellScript),
     (kCascadingStyleSheetMimeType, CascadingStyleSheet),
     (kCommaSeparatedValuesMimeType, CommaSeparatedValues), (kMicrosoftWordMimeType, MicrosoftWord),
     (kMicrosoftWordXMLMimeType, MicrosoftWordXML),
     (kMSEmbeddedOpenTypefontMimeType, MSEmbeddedOpenTypefont),
     (kElectronicPublicationMimeType, ElectronicPublication),
     (kGZipCompressedArchiveMimeType, GZipCompressedArchive),
     (kGraphicsInterchangeFormatMimeType, GraphicsInterchangeFormat),
     (kHyperTextMarkupLanguageMimeType, HyperTextMarkupLanguage), (kIconFormatMimeType, IconFormat),
     (kJPEGImageMimeType, JPEGImage), (kJavaScriptMimeType, JavaScript),
     (kJSONFormatMimeType, JSONFormat), (kJSONLDFormatMimeType, JSONLDFormat),
     (kMusicalInstrumentDigitalInterfaceMimeType, MusicalInstrumentDigitalInterface),
     (kXMusicalInstrumentDigitalInterfaceMimeType, XMusicalInstrumentDigitalInterface),
     (kMP3AudioMimeType, MP3Audio), (kMP4VideoMimeType, MP4Video), (kMPEGVideoMimeType, MPEGVideo),
     (kOpenDocumentPresentationDocumentMimeType, OpenDocumentPresentationDocument),
     (kOpenDocumentSpreadsheetDocumentMimeType, OpenDocumentSpreadsheetDocument),
     (kOpenDocumentTextDocumentMimeType, OpenDocumentTextDocument)]"

definition common_mime_types_2 :: "(string \<times> DownloadMimeTypeResult) list" where
  "common_mime_types_2 = [(kOGGAudioMimeType, OGGAudio), (kOGGVideoMimeType, OGGVideo),
     (kOGGMimeType, OGG), (kOpusAudioMimeType, OpusAudio), (kOpenTypeFontMimeType, OpenTypeFont),
     (kPortableNetworkGraphicMimeType, PortableNetworkGraphic),
     (kAdobePortableDocumentFormatMimeType, AdobePortableDocumentFormat),
     (kHypertextPreprocessorMimeType, HypertextPreprocessor),
     (kMicrosoftPowerPointMimeType, MicrosoftPowerPoint),
     (kMicrosoftPowerPointOpenXMLMimeType, MicrosoftPowerPointOpenXML),
     (kRARArchiveVNDMimeType, RARArchiveVND), (kRichTextFormatMimeType, RichTextFormat),
     (kBourneShellScriptMimeType, BourneShellScript),
     (kScalableVectorGraphicMimeType, ScalableVectorGraphic),
     (kTaggedImageFileFormatMimeType, TaggedImageFileFormat),
     (kMPEGTransportStreamMimeType, MPEGTransportStream), (kTrueTypeFontMimeType, TrueTypeFont),
     (kTextMimeType, Text), (kMicrosoftVisioMimeType, MicrosoftVisio),
     (kWaveformAudioFormatMimeType, WaveformAudioFormat), (kWEBMAudioMimeType, WEBMAudio),
     (kWEBMVideoMimeType, WEBMVideo), (kWEBPImageMimeType, WEBPImage),
     (kWebOpenFontMimeType, WebOpenFont), (kWebOpenFont2MimeType, WebOpenFont2), (kXHTMLMimeType, XHTML),
     (kMicrosoftExcelMimeType, MicrosoftExcel), (kMicrosoftExcelOpenXMLMimeType, MicrosoftExcelOpenXML),
     (kXMLMimeType, XML), (kXULMimeType, XUL), (k3GPPVideoMimeType, k3GPPVideo),
     (k3GPPAudioMimeType, k3GPPAudio), (k3GPP2VideoMimeType, k3GPP2Video),
     (k3GPP2AudioMimeType, k3GPPAudio)]"

definition mime_type_results :: "(string \<times> DownloadMimeTypeResult) list" where
  "mime_type_results = special_mime_types @ common_mime_types_1 @ common_mime_types_2"

definition GetDownloadMimeTypeResultFromMimeType :: "string \<Rightarrow> DownloadMimeTypeResult" where
  "GetDownloadMimeTypeResultFromMimeType mime_type =
     (case map_of mime_type_results mime_type of None \<Rightarrow> Other | Some r \<Rightarrow> r)"

text \<open>\<open>MatchesExtension\<close> of the suggested path is a parameter.\<close>

definition IsUsdzFileFormat :: "string \<Rightarrow> (string \<Rightarrow> bool) \<Rightarrow> bool" where
  "IsUsdzFileFormat mime_type MatchesExtension \<longleftrightarrow>
     mime_type = kUsdzMimeType \<or> mime_type = kLegacyUsdzMimeType \<or> mime_type = kLegacyPixarUsdzMimeType \<or>
     MatchesExtension kUsdzFileExtension \<or> MatchesExtension kRealityFileExtension"

section \<open>Choice of the handler\<close>

text \<open>The state of a download the choice depends on, and the feature flags.\<close>

record download_task =
  task_mime_type :: string
  task_matches_extension :: "string \<Rightarrow> bool"
  task_scheme_is_http_or_https :: bool

record download_features =
  kARKillSwitch :: bool
  kDownloadCalendar :: bool
  kVCardKillSwitch :: bool

datatype download_handler =
    PassKitDownload
  | ARQuickLookDownload
  | SafariDownloadMobileConfig
  | SafariDownloadCalendar
  | VcardDownload
  | DownloadManagerDownload

definition choose_handler :: "download_features \<Rightarrow> download_task \<Rightarrow> download_handler" where
  "choose_handler F task =
     (if task_mime_type task = kPkPassMimeType then PassKitDownload
      else if IsUsdzFileFormat (task_mime_type task) (task_matches_extension task) \<and> \<not> kARKillSwitch F
        then ARQuickLookDownload
      else if task_mime_type task = kMobileConfigurationType \<and> task_scheme_is_http_or_https task
        then SafariDownloadMobileConfig
      else if task_mime_type task = kCalendarMimeType \<and> kDownloadCalendar F \<and> task_scheme_is_http_or_https task
        then SafariDownloadCalendar
      else if task_mime_type task = kVcardMimeType \<and> \<not> kVCardKillSwitch F then VcardDownload
      else DownloadManagerDownload)"

text \<open>
  \<^verbatim>\<open>OnDownloadCreated\<close>: the classification reported, and the helper the task is given to if the
  tab has one (\<open>helpers\<close>); nothing happens for a prerendered page.
\<close>

definition OnDownloadCreated ::
    "download_features \<Rightarrow> bool \<Rightarrow> (download_handler \<Rightarrow> bool) \<Rightarrow> download_task \<Rightarrow>
     DownloadMimeTypeResult list \<times> download_handler option" where
  "OnDownloadCreated F prerendered helpers task =
     (if prerendered then ([], None)
      else ([GetDownloadMimeTypeResultFromMimeType (task_mime_type task)],
            if helpers (choose_handler F task) then Some (choose_handler F task) else None))"


section \<open>Properties\<close>

text \<open>The numbers of the entries but the last one are pairwise different and not that of \<open>Other\<close>.\<close>

lemma mime_results_distinct: "distinct (Other # map snd (butlast mime_type_results))"
  by code_simp

lemma mime_results_last: "last mime_type_results = (k3GPP2AudioMimeType, k3GPPAudio)"
  "(k3GPPAudioMimeType, k3GPPAudio) \<in> set (butlast mime_type_results)" "mime_type_results \<noteq> []"
  by code_simp+

lemma mime_results_split: "set mime_type_results = insert (k3GPP2AudioMimeType, k3GPPAudio) (set (butlast mime_type_results))"
proof -
  have "set mime_type_results = set (butlast mime_type_results @ [last mime_type_results])"
    using append_butlast_last_id [OF mime_results_last(3)] by simp
  also have "\<dots> = insert (last mime_type_results) (set (butlast mime_type_results))" by simp
  finally show ?thesis using mime_results_last(1) by simp
qed

lemma same_result_same_type:
  assumes "(m, r) \<in> set mime_type_results" "(m', r) \<in> set mime_type_results" "m \<noteq> m'"
  shows "{m, m'} = {k3GPPAudioMimeType, k3GPP2AudioMimeType}"
proof -
  have dist: "distinct (map snd (butlast mime_type_results))" using mime_results_distinct by simp
  have unique: "(x, s) \<in> set (butlast mime_type_results) \<Longrightarrow> (y, s) \<in> set (butlast mime_type_results) \<Longrightarrow> x = y" for x y s
    using dist by (metis (no_types, lifting) distinct_map inj_onD snd_conv prod.inject)
  show ?thesis
    using assms unique mime_results_last(2) unfolding mime_results_split
    by (metis (no_types, opaque_lifting) insertE insert_commute prod.inject)
qed

lemma classified_listed:
  assumes "GetDownloadMimeTypeResultFromMimeType m \<noteq> Other"
  shows "(m, GetDownloadMimeTypeResultFromMimeType m) \<in> set mime_type_results"
  using assms by (auto simp: GetDownloadMimeTypeResultFromMimeType_def map_of_SomeD split: option.splits)

lemma listed_not_other: "(m, r) \<in> set mime_type_results \<Longrightarrow> r \<noteq> Other"
proof -
  have "Other \<notin> snd ` set mime_type_results" by code_simp
  then show "(m, r) \<in> set mime_type_results \<Longrightarrow> r \<noteq> Other" by force
qed

text \<open>
  The histogram tells MIME types apart: a type is reported as \<^verbatim>\<open>Other\<close> exactly if
  it is not listed, and two listed types get different values, with one exception:
  \<^verbatim>\<open>audio/3gpp2\<close> is reported as \<^verbatim>\<open>audio/3gpp\<close>.
\<close>

theorem mime_types_told_apart:
  "(GetDownloadMimeTypeResultFromMimeType m = Other \<longleftrightarrow> m \<notin> fst ` set mime_type_results) \<and>
   (GetDownloadMimeTypeResultFromMimeType m = GetDownloadMimeTypeResultFromMimeType m' \<longrightarrow>
      GetDownloadMimeTypeResultFromMimeType m = Other \<or> m = m' \<or>
      {m, m'} = {k3GPPAudioMimeType, k3GPP2AudioMimeType})"
proof -
  have "GetDownloadMimeTypeResultFromMimeType m = Other \<longleftrightarrow> m \<notin> fst ` set mime_type_results"
  proof
    assume "GetDownloadMimeTypeResultFromMimeType m = Other"
    then have "map_of mime_type_results m = None"
      using listed_not_other [of m] by (auto simp: GetDownloadMimeTypeResultFromMimeType_def dest: map_of_SomeD split: option.splits)
    then show "m \<notin> fst ` set mime_type_results" by (simp add: map_of_eq_None_iff)
  next
    assume "m \<notin> fst ` set mime_type_results"
    then show "GetDownloadMimeTypeResultFromMimeType m = Other"
      by (simp add: GetDownloadMimeTypeResultFromMimeType_def map_of_eq_None_iff [symmetric])
  qed
  moreover have "GetDownloadMimeTypeResultFromMimeType m = Other \<or> m = m' \<or> {m, m'} = {k3GPPAudioMimeType, k3GPP2AudioMimeType}"
    if "GetDownloadMimeTypeResultFromMimeType m = GetDownloadMimeTypeResultFromMimeType m'"
    using that same_result_same_type classified_listed by metis
  ultimately show ?thesis by blast
qed

theorem mime_types_told_apart_witness:
  "\<exists>m m'. m \<noteq> m' \<and> GetDownloadMimeTypeResultFromMimeType m = GetDownloadMimeTypeResultFromMimeType m' \<and>
     {m, m'} = {k3GPPAudioMimeType, k3GPP2AudioMimeType}"
proof -
  have "GetDownloadMimeTypeResultFromMimeType k3GPP2AudioMimeType = GetDownloadMimeTypeResultFromMimeType k3GPPAudioMimeType"
    "GetDownloadMimeTypeResultFromMimeType k3GPP2AudioMimeType \<noteq> Other" "k3GPP2AudioMimeType \<noteq> k3GPPAudioMimeType"
    by code_simp+
  then show ?thesis using mime_types_told_apart [of k3GPP2AudioMimeType k3GPPAudioMimeType] by blast
qed

end
