(* ===== verification/Fullscreen_Model.thy ===== *)
theory Fullscreen_Model
  imports Event_System Complex_Main
begin

text \<open>
  \<^verbatim>\<open>chrome/browser/ui/fullscreen/fullscreen_model.h\<close> and \<^verbatim>\<open>.mm\<close>: how much of the toolbar is
  visible while the user scrolls.  \<open>progress\<close> is 1 when it is fully visible and 0 when it is
  collapsed; it follows the scroll offset relative to \<open>base_offset\<close>, unless features of the
  browser have disabled the effect.

  \<^verbatim>\<open>CGFloat\<close> is a rational number: arithmetic is exact, and the tolerance of
  \<^verbatim>\<open>AreCGFloatsEqual\<close> is that of a double.  A base offset that is \<^verbatim>\<open>NAN\<close> is \<open>None\<close>.
  Observers are told in \<open>fullscreen_log\<close>; a scroll they cause from inside a callback is the event
  \<open>CallbackScroll\<close>, which runs with \<open>observer_callback_count\<close> incremented.
\<close>

section \<open>Data\<close>

type_synonym CGFloat = rat

record UIEdgeInsets =
  inset_top :: CGFloat
  inset_left :: CGFloat
  inset_bottom :: CGFloat
  inset_right :: CGFloat

datatype fullscreen_notification =
    FullscreenModelToolbarHeightsUpdated nat
  | FullscreenModelProgressUpdated nat
  | FullscreenModelEnabledStateChanged nat
  | FullscreenModelScrollEventStarted nat
  | FullscreenModelScrollEventEnded nat
  | FullscreenModelWasReset nat

record fullscreen_model =
  fullscreen_observers :: "nat list"
  progress :: CGFloat
  base_offset :: "CGFloat option"
  collapsed_toolbar_height :: CGFloat
  expanded_toolbar_height :: CGFloat
  bottom_toolbar_height :: CGFloat
  y_content_offset :: CGFloat
  scroll_view_height :: CGFloat
  content_height :: CGFloat
  top_inset :: CGFloat
  disabled_counter :: nat
  disabled_for_short_content :: bool
  scrolling :: bool
  zooming :: bool
  dragging :: bool
  ignoring_current_scroll :: bool
  resizes_scroll_view :: bool
  safe_area_insets :: UIEdgeInsets
  observer_callback_count :: nat
  freeze_toolbar_height :: bool
  fullscreen_log :: "fullscreen_notification list"

definition FullscreenModel :: fullscreen_model where
  "FullscreenModel = \<lparr>fullscreen_observers = [], progress = 0, base_offset = None,
     collapsed_toolbar_height = 0, expanded_toolbar_height = 0, bottom_toolbar_height = 0,
     y_content_offset = 0, scroll_view_height = 0, content_height = 0, top_inset = 0, disabled_counter = 0,
     disabled_for_short_content = False, scrolling = False, zooming = False, dragging = False,
     ignoring_current_scroll = False, resizes_scroll_view = False,
     safe_area_insets = \<lparr>inset_top = 0, inset_left = 0, inset_bottom = 0, inset_right = 0\<rparr>,
     observer_callback_count = 0, freeze_toolbar_height = False, fullscreen_log = []\<rparr>"

definition cgfloat_epsilon :: CGFloat where
  "cgfloat_epsilon = 1 / 2 ^ 52"

definition AreCGFloatsEqual :: "CGFloat \<Rightarrow> CGFloat \<Rightarrow> bool" where
  "AreCGFloatsEqual a b \<longleftrightarrow> \<bar>a - b\<bar> \<le> cgfloat_epsilon"

section \<open>Accessors\<close>

definition AddFullscreenObserver :: "nat \<Rightarrow> fullscreen_model \<Rightarrow> fullscreen_model" where
  "AddFullscreenObserver ob M = M\<lparr>fullscreen_observers := fullscreen_observers M @ [ob]\<rparr>"

definition RemoveFullscreenObserver :: "nat \<Rightarrow> fullscreen_model \<Rightarrow> fullscreen_model" where
  "RemoveFullscreenObserver ob M = M\<lparr>fullscreen_observers := removeAll ob (fullscreen_observers M)\<rparr>"

definition fullscreen_enabled :: "fullscreen_model \<Rightarrow> bool" where
  "fullscreen_enabled M \<longleftrightarrow> disabled_counter M = 0"

definition has_base_offset :: "fullscreen_model \<Rightarrow> bool" where
  "has_base_offset M \<longleftrightarrow> base_offset M \<noteq> None"

definition GetCollapsedToolbarHeight :: "fullscreen_model \<Rightarrow> CGFloat" where
  "GetCollapsedToolbarHeight M = (if freeze_toolbar_height M then 0 else collapsed_toolbar_height M)"

definition GetExpandedToolbarHeight :: "fullscreen_model \<Rightarrow> CGFloat" where
  "GetExpandedToolbarHeight M = (if freeze_toolbar_height M then 0 else expanded_toolbar_height M)"

definition toolbar_height_delta :: "fullscreen_model \<Rightarrow> CGFloat" where
  "toolbar_height_delta M = GetExpandedToolbarHeight M - GetCollapsedToolbarHeight M"

definition can_collapse_toolbar :: "fullscreen_model \<Rightarrow> bool" where
  "can_collapse_toolbar M \<longleftrightarrow> content_height M > scroll_view_height M + toolbar_height_delta M"

definition is_scrolled_to_top :: "fullscreen_model \<Rightarrow> bool" where
  "is_scrolled_to_top M \<longleftrightarrow> y_content_offset M \<le> - GetExpandedToolbarHeight M"

definition is_scrolled_to_bottom :: "fullscreen_model \<Rightarrow> bool" where
  "is_scrolled_to_bottom M \<longleftrightarrow> y_content_offset M + scroll_view_height M \<ge> content_height M"

definition GetToolbarInsetsAtProgress :: "CGFloat \<Rightarrow> fullscreen_model \<Rightarrow> UIEdgeInsets" where
  "GetToolbarInsetsAtProgress p M =
     \<lparr>inset_top = GetCollapsedToolbarHeight M + p * (GetExpandedToolbarHeight M - GetCollapsedToolbarHeight M),
      inset_left = 0, inset_bottom = p * bottom_toolbar_height M, inset_right = 0\<rparr>"

definition min_toolbar_insets :: "fullscreen_model \<Rightarrow> UIEdgeInsets" where
  "min_toolbar_insets = GetToolbarInsetsAtProgress 0"

definition max_toolbar_insets :: "fullscreen_model \<Rightarrow> UIEdgeInsets" where
  "max_toolbar_insets = GetToolbarInsetsAtProgress 1"

definition current_toolbar_insets :: "fullscreen_model \<Rightarrow> UIEdgeInsets" where
  "current_toolbar_insets M = GetToolbarInsetsAtProgress (progress M) M"

section \<open>Operations\<close>

definition notify_fullscreen :: "(nat \<Rightarrow> fullscreen_notification) \<Rightarrow> fullscreen_model \<Rightarrow> fullscreen_model" where
  "notify_fullscreen f M = M\<lparr>fullscreen_log := fullscreen_log M @ map f (fullscreen_observers M)\<rparr>"

definition UpdateBaseOffset :: "fullscreen_model \<Rightarrow> fullscreen_model" where
  "UpdateBaseOffset M =
     M\<lparr>base_offset := Some (y_content_offset M - (1 - progress M) * toolbar_height_delta M)\<rparr>"

definition SetProgress :: "CGFloat \<Rightarrow> fullscreen_model \<Rightarrow> fullscreen_model" where
  "SetProgress p M =
     (let p = max 0 (min 1 p)
      in if AreCGFloatsEqual (progress M) p then M
         else notify_fullscreen FullscreenModelProgressUpdated (M\<lparr>progress := p\<rparr>))"

text \<open>Without a base offset the source would compute with \<^verbatim>\<open>NAN\<close>.\<close>

definition UpdateProgress :: "fullscreen_model \<Rightarrow> fullscreen_model res" where
  "UpdateProgress M =
     (case base_offset M of None \<Rightarrow> Inl (CheckFailed ''base_offset_ is NAN'')
      | Some base \<Rightarrow>
         if toolbar_height_delta M = 0 then Inl (CheckFailed ''division by zero'')
         else Inr (SetProgress (1 + (base - y_content_offset M) / toolbar_height_delta M) M))"

definition IncrementDisabledCounter :: "fullscreen_model \<Rightarrow> fullscreen_model" where
  "IncrementDisabledCounter M =
     (let M = M\<lparr>disabled_counter := Suc (disabled_counter M)\<rparr>
      in if disabled_counter M = 1
         then UpdateBaseOffset (SetProgress 1 (notify_fullscreen FullscreenModelEnabledStateChanged M))
         else M)"

definition DecrementDisabledCounter :: "fullscreen_model \<Rightarrow> fullscreen_model res" where
  "DecrementDisabledCounter M =
     dcheck (disabled_counter M > 0) ''disabled_counter_ > 0''
       (let M = M\<lparr>disabled_counter := disabled_counter M - 1\<rparr>
        in Inr (if disabled_counter M = 0 then notify_fullscreen FullscreenModelEnabledStateChanged M else M))"

definition ResetForNavigation :: "fullscreen_model \<Rightarrow> fullscreen_model" where
  "ResetForNavigation M =
     notify_fullscreen FullscreenModelWasReset (M\<lparr>progress := 1, scrolling := False, base_offset := None\<rparr>)"

definition IgnoreRemainderOfCurrentScroll :: "fullscreen_model \<Rightarrow> fullscreen_model" where
  "IgnoreRemainderOfCurrentScroll M =
     (if \<not> scrolling M then M else M\<lparr>ignoring_current_scroll := True\<rparr>)"

definition AnimationEndedWithProgress :: "CGFloat \<Rightarrow> fullscreen_model \<Rightarrow> fullscreen_model res" where
  "AnimationEndedWithProgress p M =
     dcheck (p \<ge> 0) ''progress >= 0.0'' (dcheck (p \<le> 1) ''progress <= 1.0'' (Inr (M\<lparr>progress := p\<rparr>)))"

definition SetCollapsedToolbarHeight :: "CGFloat \<Rightarrow> fullscreen_model \<Rightarrow> fullscreen_model res" where
  "SetCollapsedToolbarHeight height M =
     (if AreCGFloatsEqual (GetCollapsedToolbarHeight M) height then Inr M
      else dcheck (height \<ge> 0) ''height >= 0.0''
        (Inr (notify_fullscreen FullscreenModelToolbarHeightsUpdated
          (M\<lparr>collapsed_toolbar_height := height, base_offset := None\<rparr>))))"

definition SetExpandedToolbarHeight :: "CGFloat \<Rightarrow> fullscreen_model \<Rightarrow> fullscreen_model res" where
  "SetExpandedToolbarHeight height M =
     (if AreCGFloatsEqual (GetExpandedToolbarHeight M) height then Inr M
      else dcheck (height \<ge> 0) ''height >= 0.0''
        (Inr (notify_fullscreen FullscreenModelToolbarHeightsUpdated
          (M\<lparr>expanded_toolbar_height := height, base_offset := None\<rparr>))))"

definition SetBottomToolbarHeight :: "CGFloat \<Rightarrow> fullscreen_model \<Rightarrow> fullscreen_model res" where
  "SetBottomToolbarHeight height M =
     (if AreCGFloatsEqual (bottom_toolbar_height M) height then Inr M
      else dcheck (height \<ge> 0) ''height >= 0.0''
        (Inr (notify_fullscreen FullscreenModelToolbarHeightsUpdated
          (M\<lparr>bottom_toolbar_height := height, base_offset := None\<rparr>))))"

definition UpdateDisabledCounterForContentHeight :: "fullscreen_model \<Rightarrow> fullscreen_model res" where
  "UpdateDisabledCounterForContentHeight M =
     (if scrolling M then Inr M
      else
        let disabling_threshold = scroll_view_height M +
              (if resizes_scroll_view M then GetExpandedToolbarHeight M + bottom_toolbar_height M
               else inset_top (safe_area_insets M) + inset_bottom (safe_area_insets M));
            areBothHeightsSet = (\<not> AreCGFloatsEqual (content_height M) 0 \<and>
                                 \<not> AreCGFloatsEqual (scroll_view_height M) 0);
            disable = (areBothHeightsSet \<and> content_height M \<le> disabling_threshold)
        in if disabled_for_short_content M = disable then Inr M
           else let M = M\<lparr>disabled_for_short_content := disable\<rparr>
             in if disable then Inr (IncrementDisabledCounter M) else DecrementDisabledCounter M)"

definition SetScrollViewHeight :: "CGFloat \<Rightarrow> fullscreen_model \<Rightarrow> fullscreen_model res" where
  "SetScrollViewHeight height M = UpdateDisabledCounterForContentHeight (M\<lparr>scroll_view_height := height\<rparr>)"

definition SetContentHeight :: "CGFloat \<Rightarrow> fullscreen_model \<Rightarrow> fullscreen_model res" where
  "SetContentHeight height M = UpdateDisabledCounterForContentHeight (M\<lparr>content_height := height\<rparr>)"

definition SetTopContentInset :: "CGFloat \<Rightarrow> fullscreen_model \<Rightarrow> fullscreen_model" where
  "SetTopContentInset inset M = M\<lparr>top_inset := inset\<rparr>"

datatype ScrollAction = kIgnore | kUpdateBaseOffset | kUpdateProgress | kUpdateBaseOffsetAndProgress

definition ActionForScrollFromOffset :: "CGFloat \<Rightarrow> fullscreen_model \<Rightarrow> ScrollAction" where
  "ActionForScrollFromOffset from_offset M =
     (if \<not> fullscreen_enabled M \<or> \<not> scrolling M \<or> zooming M \<or> observer_callback_count M \<noteq> 0 \<or>
         AreCGFloatsEqual (toolbar_height_delta M) 0 \<or> AreCGFloatsEqual (y_content_offset M) from_offset
      then kUpdateBaseOffset
      else
        let scrolling_content_down = (y_content_offset M - from_offset < 0);
            scrolling_past_top = (y_content_offset M \<le> - top_inset M);
            content_fits = (content_height M \<le> scroll_view_height M - top_inset M);
            scrolling_past_bottom = (y_content_offset M + scroll_view_height M + top_inset M \<ge> content_height M)
        in if ignoring_current_scroll M \<or> (scrolling_past_top \<and> \<not> scrolling_content_down) \<or>
              (content_fits \<and> \<not> scrolling_content_down) \<or> (resizes_scroll_view M \<and> scrolling_past_bottom)
           then kIgnore
           else if has_base_offset M then kUpdateProgress else kUpdateBaseOffsetAndProgress)"

definition SetYContentOffset :: "CGFloat \<Rightarrow> fullscreen_model \<Rightarrow> fullscreen_model res" where
  "SetYContentOffset offset M =
     (let from_offset = y_content_offset M;
          M = M\<lparr>y_content_offset := offset\<rparr>
      in case ActionForScrollFromOffset from_offset M of
           kUpdateBaseOffset \<Rightarrow> Inr (UpdateBaseOffset M)
         | kUpdateProgress \<Rightarrow> UpdateProgress M
         | kUpdateBaseOffsetAndProgress \<Rightarrow> UpdateProgress (UpdateBaseOffset M)
         | kIgnore \<Rightarrow> Inr M)"

definition SetScrollViewIsScrolling :: "bool \<Rightarrow> fullscreen_model \<Rightarrow> fullscreen_model" where
  "SetScrollViewIsScrolling b M =
     (if scrolling M = b then M
      else let M = M\<lparr>scrolling := b\<rparr>
        in if b then notify_fullscreen FullscreenModelScrollEventStarted M
           else notify_fullscreen FullscreenModelScrollEventEnded (M\<lparr>ignoring_current_scroll := False\<rparr>))"

definition SetScrollViewIsZooming :: "bool \<Rightarrow> fullscreen_model \<Rightarrow> fullscreen_model" where
  "SetScrollViewIsZooming b M = M\<lparr>zooming := b\<rparr>"

definition SetScrollViewIsDragging :: "bool \<Rightarrow> fullscreen_model \<Rightarrow> fullscreen_model res" where
  "SetScrollViewIsDragging b M =
     (if dragging M = b then Inr M
      else let M = M\<lparr>dragging := b\<rparr>
        in if b then UpdateDisabledCounterForContentHeight (UpdateBaseOffset M) else Inr M)"

definition SetResizesScrollView :: "bool \<Rightarrow> fullscreen_model \<Rightarrow> fullscreen_model" where
  "SetResizesScrollView b M = M\<lparr>resizes_scroll_view := b\<rparr>"

definition SetWebViewSafeAreaInsets :: "UIEdgeInsets \<Rightarrow> fullscreen_model \<Rightarrow> fullscreen_model res" where
  "SetWebViewSafeAreaInsets insets M =
     (if safe_area_insets M = insets then Inr M
      else UpdateDisabledCounterForContentHeight (M\<lparr>safe_area_insets := insets\<rparr>))"

definition SetFreezeToolbarHeight :: "bool \<Rightarrow> fullscreen_model \<Rightarrow> fullscreen_model" where
  "SetFreezeToolbarHeight b M =
     (if freeze_toolbar_height M = b then M
      else notify_fullscreen FullscreenModelToolbarHeightsUpdated
             (M\<lparr>freeze_toolbar_height := b, base_offset := None\<rparr>))"

section \<open>Events\<close>

datatype fullscreen_event =
    FeatureDisables
  | FeatureEnables
  | Navigation
  | IgnoresScroll
  | AnimationEnds CGFloat
  | CollapsedHeight CGFloat
  | ExpandedHeight CGFloat
  | BottomHeight CGFloat
  | ScrollViewHeight CGFloat
  | ContentHeight CGFloat
  | TopInset CGFloat
  | Scroll CGFloat
  | CallbackScroll CGFloat
  | ScrollingChanged bool
  | ZoomingChanged bool
  | DraggingChanged bool
  | ResizesChanged bool
  | SafeAreaChanged UIEdgeInsets
  | FreezeChanged bool

fun fullscreen_exec :: "fullscreen_event \<Rightarrow> fullscreen_model \<Rightarrow> fullscreen_model res" where
  "fullscreen_exec FeatureDisables M = Inr (IncrementDisabledCounter M)"
| "fullscreen_exec FeatureEnables M = DecrementDisabledCounter M"
| "fullscreen_exec Navigation M = Inr (ResetForNavigation M)"
| "fullscreen_exec IgnoresScroll M = Inr (IgnoreRemainderOfCurrentScroll M)"
| "fullscreen_exec (AnimationEnds p) M = AnimationEndedWithProgress p M"
| "fullscreen_exec (CollapsedHeight h) M = SetCollapsedToolbarHeight h M"
| "fullscreen_exec (ExpandedHeight h) M = SetExpandedToolbarHeight h M"
| "fullscreen_exec (BottomHeight h) M = SetBottomToolbarHeight h M"
| "fullscreen_exec (ScrollViewHeight h) M = SetScrollViewHeight h M"
| "fullscreen_exec (ContentHeight h) M = SetContentHeight h M"
| "fullscreen_exec (TopInset h) M = Inr (SetTopContentInset h M)"
| "fullscreen_exec (Scroll y) M = SetYContentOffset y M"
| "fullscreen_exec (CallbackScroll y) M =
     rbind (SetYContentOffset y (M\<lparr>observer_callback_count := Suc (observer_callback_count M)\<rparr>)) (\<lambda>M.
       Inr (M\<lparr>observer_callback_count := observer_callback_count M - 1\<rparr>))"
| "fullscreen_exec (ScrollingChanged b) M = Inr (SetScrollViewIsScrolling b M)"
| "fullscreen_exec (ZoomingChanged b) M = Inr (SetScrollViewIsZooming b M)"
| "fullscreen_exec (DraggingChanged b) M = SetScrollViewIsDragging b M"
| "fullscreen_exec (ResizesChanged b) M = Inr (SetResizesScrollView b M)"
| "fullscreen_exec (SafeAreaChanged i) M = SetWebViewSafeAreaInsets i M"
| "fullscreen_exec (FreezeChanged b) M = Inr (SetFreezeToolbarHeight b M)"

section \<open>Invariant\<close>

definition fullscreen_inv :: "fullscreen_model \<Rightarrow> bool" where
  "fullscreen_inv M \<longleftrightarrow> 0 \<le> progress M \<and> progress M \<le> 1 \<and> observer_callback_count M = 0 \<and>
     0 \<le> bottom_toolbar_height M \<and> (disabled_for_short_content M \<longrightarrow> 0 < disabled_counter M) \<and>
     (0 < disabled_counter M \<longrightarrow> AreCGFloatsEqual (progress M) 1)"

text \<open>
  What the callers guarantee: heights are not negative, an animation ends between the two states and
  does not hide the toolbar while the effect is disabled, and a feature enables what it has disabled.
\<close>

fun fullscreen_pre :: "fullscreen_event \<Rightarrow> fullscreen_model \<Rightarrow> bool" where
  "fullscreen_pre FeatureEnables M \<longleftrightarrow>
     (if disabled_for_short_content M then 1 else 0) < disabled_counter M"
| "fullscreen_pre (AnimationEnds p) M \<longleftrightarrow>
     0 \<le> p \<and> p \<le> 1 \<and> (disabled_counter M = 0 \<or> AreCGFloatsEqual p 1)"
| "fullscreen_pre (CollapsedHeight h) M \<longleftrightarrow> 0 \<le> h"
| "fullscreen_pre (ExpandedHeight h) M \<longleftrightarrow> 0 \<le> h"
| "fullscreen_pre (BottomHeight h) M \<longleftrightarrow> 0 \<le> h"
| "fullscreen_pre _ M \<longleftrightarrow> True"

definition initial_fullscreen :: "fullscreen_model \<Rightarrow> bool" where
  "initial_fullscreen M \<longleftrightarrow> (\<exists>obs. M = FullscreenModel\<lparr>fullscreen_observers := obs\<rparr>)"

abbreviation fullscreen_reachable :: "fullscreen_model \<Rightarrow> bool" where
  "fullscreen_reachable \<equiv> reachable_from initial_fullscreen fullscreen_pre fullscreen_exec"

lemma epsilon_pos: "0 < cgfloat_epsilon"
  by (simp add: cgfloat_epsilon_def)

lemma not_almost_zero: "\<not> AreCGFloatsEqual d 0 \<Longrightarrow> d \<noteq> 0"
  using epsilon_pos by (auto simp: AreCGFloatsEqual_def)

lemma AreCGFloatsEqual_refl [simp]: "AreCGFloatsEqual a a"
  using epsilon_pos by (simp add: AreCGFloatsEqual_def)

lemma fullscreen_inv_fields:
  "fullscreen_inv (M\<lparr>y_content_offset := y\<rparr>) = fullscreen_inv M"
  "fullscreen_inv (M\<lparr>base_offset := b\<rparr>) = fullscreen_inv M"
  "fullscreen_inv (M\<lparr>scroll_view_height := h\<rparr>) = fullscreen_inv M"
  "fullscreen_inv (M\<lparr>content_height := h\<rparr>) = fullscreen_inv M"
  "fullscreen_inv (M\<lparr>top_inset := h\<rparr>) = fullscreen_inv M"
  "fullscreen_inv (M\<lparr>scrolling := s\<rparr>) = fullscreen_inv M"
  "fullscreen_inv (M\<lparr>zooming := s\<rparr>) = fullscreen_inv M"
  "fullscreen_inv (M\<lparr>dragging := s\<rparr>) = fullscreen_inv M"
  "fullscreen_inv (M\<lparr>ignoring_current_scroll := s\<rparr>) = fullscreen_inv M"
  "fullscreen_inv (M\<lparr>resizes_scroll_view := s\<rparr>) = fullscreen_inv M"
  "fullscreen_inv (M\<lparr>safe_area_insets := i\<rparr>) = fullscreen_inv M"
  "fullscreen_inv (M\<lparr>freeze_toolbar_height := s\<rparr>) = fullscreen_inv M"
  "fullscreen_inv (M\<lparr>collapsed_toolbar_height := h\<rparr>) = fullscreen_inv M"
  "fullscreen_inv (M\<lparr>expanded_toolbar_height := h\<rparr>) = fullscreen_inv M"
  "fullscreen_inv (notify_fullscreen f M) = fullscreen_inv M"
  "fullscreen_inv (UpdateBaseOffset M) = fullscreen_inv M"
  by (simp_all add: fullscreen_inv_def notify_fullscreen_def UpdateBaseOffset_def)

lemma fullscreen_notify_fields [simp]:
  "progress (notify_fullscreen f M) = progress M"
  "disabled_counter (notify_fullscreen f M) = disabled_counter M"
  "disabled_for_short_content (notify_fullscreen f M) = disabled_for_short_content M"
  "observer_callback_count (notify_fullscreen f M) = observer_callback_count M"
  "bottom_toolbar_height (notify_fullscreen f M) = bottom_toolbar_height M"
  by (simp_all add: notify_fullscreen_def)

lemma SetProgress_fields [simp]:
  "disabled_counter (SetProgress p M) = disabled_counter M"
  "disabled_for_short_content (SetProgress p M) = disabled_for_short_content M"
  "observer_callback_count (SetProgress p M) = observer_callback_count M"
  "bottom_toolbar_height (SetProgress p M) = bottom_toolbar_height M"
  by (simp_all add: SetProgress_def Let_def)

lemma SetProgress_range: "0 \<le> progress M \<Longrightarrow> progress M \<le> 1 \<Longrightarrow> 0 \<le> progress (SetProgress p M) \<and> progress (SetProgress p M) \<le> 1"
  by (simp add: SetProgress_def Let_def)

lemma SetProgress_close: "AreCGFloatsEqual (progress (SetProgress p M)) (max 0 (min 1 p))"
  by (simp add: SetProgress_def Let_def)

lemma increment_inv:
  assumes "fullscreen_inv (M\<lparr>disabled_for_short_content := False\<rparr>)"
  shows "fullscreen_inv (IncrementDisabledCounter M)"
proof -
  have "AreCGFloatsEqual (progress (SetProgress 1 N)) 1" for N using SetProgress_close [of 1 N] by simp
  then show ?thesis using assms
    by (simp add: IncrementDisabledCounter_def Let_def fullscreen_inv_fields) (simp add: fullscreen_inv_def SetProgress_range)
qed

lemma decrement_inv:
  assumes "fullscreen_inv M" "(if disabled_for_short_content M then 1 else 0) < disabled_counter M"
  shows "\<exists>M'. DecrementDisabledCounter M = Inr M' \<and> fullscreen_inv M'"
  using assms by (auto simp: DecrementDisabledCounter_def Let_def fullscreen_inv_fields) (auto simp: fullscreen_inv_def split: if_splits)

lemma update_disabled_inv:
  assumes "fullscreen_inv M"
  shows "\<exists>M'. UpdateDisabledCounterForContentHeight M = Inr M' \<and> fullscreen_inv M'"
proof -
  have inc: "\<not> disabled_for_short_content M \<Longrightarrow> fullscreen_inv (IncrementDisabledCounter (M\<lparr>disabled_for_short_content := True\<rparr>))"
    using increment_inv [of "M\<lparr>disabled_for_short_content := True\<rparr>"] assms by (simp add: fullscreen_inv_def)
  have dec: "disabled_for_short_content M \<Longrightarrow>
      \<exists>M'. DecrementDisabledCounter (M\<lparr>disabled_for_short_content := False\<rparr>) = Inr M' \<and> fullscreen_inv M'"
    using decrement_inv [of "M\<lparr>disabled_for_short_content := False\<rparr>"] assms by (simp add: fullscreen_inv_def)
  show ?thesis
    using assms inc dec by (cases "disabled_for_short_content M") (auto simp: UpdateDisabledCounterForContentHeight_def Let_def)
qed

lemma update_progress_ok:
  assumes "fullscreen_inv M" "disabled_counter M = 0" "base_offset M \<noteq> None" "toolbar_height_delta M \<noteq> 0"
  shows "\<exists>M'. UpdateProgress M = Inr M' \<and> fullscreen_inv M'"
  using assms SetProgress_range [of M] by (auto simp: UpdateProgress_def fullscreen_inv_def)

lemma delta_base [simp]: "toolbar_height_delta (UpdateBaseOffset M) = toolbar_height_delta M"
  "disabled_counter (UpdateBaseOffset M) = disabled_counter M" "base_offset (UpdateBaseOffset M) \<noteq> None"
  by (simp_all add: UpdateBaseOffset_def toolbar_height_delta_def GetExpandedToolbarHeight_def GetCollapsedToolbarHeight_def)

lemma tracked_scroll:
  assumes "ActionForScrollFromOffset y M \<noteq> kUpdateBaseOffset" "ActionForScrollFromOffset y M \<noteq> kIgnore"
  shows "disabled_counter M = 0" "toolbar_height_delta M \<noteq> 0"
    "ActionForScrollFromOffset y M = (if has_base_offset M then kUpdateProgress else kUpdateBaseOffsetAndProgress)"
  using assms not_almost_zero
  by (auto simp: ActionForScrollFromOffset_def fullscreen_enabled_def Let_def split: if_splits)

lemma scroll_inv:
  assumes "fullscreen_inv M"
  shows "\<exists>M'. SetYContentOffset y M = Inr M' \<and> fullscreen_inv M'"
proof -
  let ?M = "M\<lparr>y_content_offset := y\<rparr>" and ?a = "ActionForScrollFromOffset (y_content_offset M) (M\<lparr>y_content_offset := y\<rparr>)"
  have inv: "fullscreen_inv ?M" using assms by (simp add: fullscreen_inv_fields)
  note tr = tracked_scroll [of "y_content_offset M" ?M]
  show ?thesis
  proof (cases ?a)
    case kUpdateProgress
    then have "base_offset ?M \<noteq> None" using tr(3) by (auto simp: has_base_offset_def split: if_splits)
    then show ?thesis using update_progress_ok [OF inv] tr(1,2) kUpdateProgress by (simp add: SetYContentOffset_def)
  next
    case kUpdateBaseOffsetAndProgress
    then show ?thesis using update_progress_ok [of "UpdateBaseOffset ?M"] inv tr(1,2)
      by (simp add: SetYContentOffset_def fullscreen_inv_fields)
  qed (use inv in \<open>simp_all add: SetYContentOffset_def fullscreen_inv_fields\<close>)
qed

lemma callback_scroll_eq:
  "fullscreen_exec (CallbackScroll y) M = Inr (UpdateBaseOffset (M\<lparr>y_content_offset := y\<rparr>))"
proof -
  have "ActionForScrollFromOffset f (M\<lparr>observer_callback_count := Suc n, y_content_offset := y\<rparr>) = kUpdateBaseOffset" for f n
    by (simp add: ActionForScrollFromOffset_def)
  then show ?thesis
    by (simp add: SetYContentOffset_def UpdateBaseOffset_def toolbar_height_delta_def
        GetExpandedToolbarHeight_def GetCollapsedToolbarHeight_def)
qed

lemma fullscreen_exec_inv:
  assumes inv: "fullscreen_inv M" and pre: "fullscreen_pre e M"
  shows "\<exists>M'. fullscreen_exec e M = Inr M' \<and> fullscreen_inv M'"
proof (cases e)
  case FeatureDisables
  have "fullscreen_inv (M\<lparr>disabled_for_short_content := False\<rparr>)" using inv by (simp add: fullscreen_inv_def)
  then show ?thesis using FeatureDisables increment_inv by simp
next
  case FeatureEnables
  then show ?thesis using decrement_inv [OF inv] pre by (simp split: if_splits)
next
  case (CallbackScroll y)
  show ?thesis unfolding CallbackScroll callback_scroll_eq using inv by (simp add: fullscreen_inv_fields)
next
  case (Scroll y)
  then show ?thesis using scroll_inv [OF inv] by simp
next
  case (ScrollViewHeight h)
  then show ?thesis using update_disabled_inv [of "M\<lparr>scroll_view_height := h\<rparr>"] inv
    by (simp add: SetScrollViewHeight_def fullscreen_inv_fields)
next
  case (ContentHeight h)
  then show ?thesis using update_disabled_inv [of "M\<lparr>content_height := h\<rparr>"] inv
    by (simp add: SetContentHeight_def fullscreen_inv_fields)
next
  case (DraggingChanged b)
  then show ?thesis using update_disabled_inv [of "UpdateBaseOffset (M\<lparr>dragging := b\<rparr>)"] inv
    by (cases b) (simp_all add: SetScrollViewIsDragging_def Let_def fullscreen_inv_fields)
next
  case (SafeAreaChanged i)
  then show ?thesis using update_disabled_inv [of "M\<lparr>safe_area_insets := i\<rparr>"] inv
    by (simp add: SetWebViewSafeAreaInsets_def fullscreen_inv_fields)
next
  case Navigation
  have "fullscreen_inv (M\<lparr>progress := 1, scrolling := False, base_offset := None\<rparr>)"
    using inv by (simp add: fullscreen_inv_def)
  then show ?thesis using Navigation by (simp add: ResetForNavigation_def fullscreen_inv_fields)
next
  case (AnimationEnds p)
  then show ?thesis using inv pre by (auto simp: AnimationEndedWithProgress_def fullscreen_inv_def)
next
  case (BottomHeight h)
  have "fullscreen_inv (M\<lparr>bottom_toolbar_height := h, base_offset := None\<rparr>)"
    using inv pre BottomHeight by (simp add: fullscreen_inv_def)
  then show ?thesis using BottomHeight inv pre by (simp add: SetBottomToolbarHeight_def fullscreen_inv_fields)
qed (use inv pre in \<open>simp_all add: IgnoreRemainderOfCurrentScroll_def SetCollapsedToolbarHeight_def
  SetExpandedToolbarHeight_def SetTopContentInset_def SetScrollViewIsScrolling_def SetScrollViewIsZooming_def
  SetResizesScrollView_def SetFreezeToolbarHeight_def Let_def fullscreen_inv_fields\<close>)

interpretation fullscreen: event_system initial_fullscreen fullscreen_pre fullscreen_exec fullscreen_inv
proof unfold_locales
  show "fullscreen_inv M" if "initial_fullscreen M" for M
    using that by (auto simp: initial_fullscreen_def FullscreenModel_def fullscreen_inv_def)
qed (rule fullscreen_exec_inv)

section \<open>Properties\<close>

text \<open>A page of height 2000 in a view of height 500, scrolled by hand under a toolbar of height 50.\<close>

definition demo_fullscreen :: fullscreen_model where
  "demo_fullscreen = projr (run_events fullscreen_exec [ExpandedHeight 50, ScrollViewHeight 500, ContentHeight 2000,
     Navigation, DraggingChanged True, ScrollingChanged True, Scroll 20] (FullscreenModel\<lparr>fullscreen_observers := []\<rparr>))"

lemma demo_fullscreen_reachable: "fullscreen_reachable demo_fullscreen"
proof -
  have "initial_fullscreen (FullscreenModel\<lparr>fullscreen_observers := []\<rparr>)" by (auto simp: initial_fullscreen_def)
  moreover have "allowed_events fullscreen_pre fullscreen_exec [ExpandedHeight 50, ScrollViewHeight 500, ContentHeight 2000,
     Navigation, DraggingChanged True, ScrollingChanged True, Scroll 20] (FullscreenModel\<lparr>fullscreen_observers := []\<rparr>)"
    by code_simp
  ultimately show ?thesis unfolding demo_fullscreen_def by (intro run_events_reachable reachable_from.start)
qed

text \<open>
  Property C29.  Every event is handled without a failed assertion, a division by zero or a computation with
  \<^verbatim>\<open>NAN\<close>, and afterwards the progress lies between 0 and 1 and the visible part of the toolbar
  between its collapsed and its expanded height.
\<close>

theorem fullscreen_progress_bounded:
  assumes "fullscreen_reachable M" "fullscreen_pre e M"
  shows "\<exists>M'. fullscreen_exec e M = Inr M' \<and> fullscreen_reachable M' \<and> 0 \<le> progress M' \<and> progress M' \<le> 1 \<and>
    min (GetCollapsedToolbarHeight M') (GetExpandedToolbarHeight M') \<le> inset_top (current_toolbar_insets M') \<and>
    inset_top (current_toolbar_insets M') \<le> max (GetCollapsedToolbarHeight M') (GetExpandedToolbarHeight M') \<and>
    0 \<le> inset_bottom (current_toolbar_insets M') \<and> inset_bottom (current_toolbar_insets M') \<le> bottom_toolbar_height M'"
proof -
  obtain M' where M': "fullscreen_exec e M = Inr M'" "fullscreen_inv M'"
    using fullscreen_exec_inv [OF fullscreen.reachable_inv [OF assms(1)] assms(2)] by blast
  have p: "0 \<le> progress M'" "progress M' \<le> 1" "0 \<le> bottom_toolbar_height M'" using M'(2) by (simp_all add: fullscreen_inv_def)
  have "min c x \<le> c + q * (x - c) \<and> c + q * (x - c) \<le> max c x" if "0 \<le> q" "q \<le> 1" for c x q :: rat
  proof (cases "c \<le> x")
    case True
    then have "0 \<le> q * (x - c)" "q * (x - c) \<le> 1 * (x - c)" using that by (simp, intro mult_right_mono) simp_all
    then show ?thesis using True by simp
  next
    case False
    have "q * (x - c) \<le> 0" using False that by (simp add: mult_nonneg_nonpos)
    moreover have "x - c \<le> q * (x - c)" using mult_right_mono_neg [of q 1 "x - c"] False that by simp
    ultimately have "x \<le> c + q * (x - c)" "c + q * (x - c) \<le> c" by linarith+
    then show ?thesis using False by (simp add: min_def max_def)
  qed
  then show ?thesis using M'(1) p reachable_from.step [OF assms M'(1)]
    by (simp add: current_toolbar_insets_def GetToolbarInsetsAtProgress_def mult_left_le_one_le)
qed

theorem fullscreen_progress_bounded_witness:
  "\<exists>M'. fullscreen_exec (Scroll 45) demo_fullscreen = Inr M' \<and> 0 \<le> progress M' \<and> progress M' \<le> 1 \<and>
     inset_top (current_toolbar_insets M') \<le> max (GetCollapsedToolbarHeight M') (GetExpandedToolbarHeight M')"
  using fullscreen_progress_bounded [OF demo_fullscreen_reachable, of "Scroll 45"] by auto

text \<open>
  While any feature of the browser or a page too short to scroll disables the effect, the
  toolbar is fully visible (up to the tolerance for equal floats), whatever the user does.
\<close>

theorem fullscreen_disabled_shows_toolbar:
  assumes "fullscreen_reachable M" "\<not> fullscreen_enabled M"
  shows "AreCGFloatsEqual (progress M) 1"
  using fullscreen.reachable_inv [OF assms(1)] assms(2) by (simp add: fullscreen_inv_def fullscreen_enabled_def)

theorem fullscreen_disabled_shows_toolbar_witness:
  "AreCGFloatsEqual (progress (IncrementDisabledCounter demo_fullscreen)) 1 \<and> \<not> AreCGFloatsEqual (progress demo_fullscreen) 1"
proof -
  have "fullscreen_exec FeatureDisables demo_fullscreen = Inr (IncrementDisabledCounter demo_fullscreen)" by simp
  then have reach: "fullscreen_reachable (IncrementDisabledCounter demo_fullscreen)"
    using reachable_from.step [OF demo_fullscreen_reachable, of FeatureDisables] by simp
  have "\<not> fullscreen_enabled (IncrementDisabledCounter demo_fullscreen)" "\<not> AreCGFloatsEqual (progress demo_fullscreen) 1"
    by code_simp+
  then show ?thesis using fullscreen_disabled_shows_toolbar [OF reach] by blast
qed

text \<open>
  The toolbar does not jump: the base offset taken when a scroll begins reproduces the
  progress that was there, and from then on each offset moves it by the distance scrolled, relative
  to the height by which the toolbar can shrink.
\<close>

lemma fullscreen_tracks_finger:
  assumes "fullscreen_reachable M" "\<not> AreCGFloatsEqual (toolbar_height_delta M) 0"
  shows "\<exists>M1 M2. UpdateProgress (UpdateBaseOffset M) = Inr M1 \<and> progress M1 = progress M \<and>
    UpdateProgress ((UpdateBaseOffset M)\<lparr>y_content_offset := y\<rparr>) = Inr M2 \<and>
    AreCGFloatsEqual (progress M2)
      (max 0 (min 1 (progress M - (y - y_content_offset M) / toolbar_height_delta M)))"
proof -
  have inv: "0 \<le> progress M" "progress M \<le> 1"
    using fullscreen.reachable_inv [OF assms(1)] by (simp_all add: fullscreen_inv_def)
  have d: "toolbar_height_delta M \<noteq> 0" using assms(2) by (rule not_almost_zero)
  let ?d = "toolbar_height_delta M"
  let ?base = "y_content_offset M - (1 - progress M) * ?d"
  have base: "base_offset (UpdateBaseOffset M) = Some ?base" by (simp add: UpdateBaseOffset_def)
  have y0: "y_content_offset (UpdateBaseOffset M) = y_content_offset M" "progress (UpdateBaseOffset M) = progress M"
    by (simp_all add: UpdateBaseOffset_def)
  have "?base - y_content_offset M = (progress M - 1) * ?d" by (simp add: algebra_simps)
  then have same: "1 + (?base - y_content_offset M) / ?d = progress M" using d by simp
  have "?base - y = (progress M - 1) * ?d - (y - y_content_offset M)" by (simp add: algebra_simps)
  then have moved: "1 + (?base - y) / ?d = progress M - (y - y_content_offset M) / ?d" using d by (simp add: diff_divide_distrib)
  have "SetProgress (progress M) (UpdateBaseOffset M) = UpdateBaseOffset M"
    using inv y0 by (simp add: SetProgress_def Let_def)
  moreover have "toolbar_height_delta ((UpdateBaseOffset M)\<lparr>y_content_offset := y\<rparr>) = ?d"
    by (simp add: UpdateBaseOffset_def toolbar_height_delta_def GetExpandedToolbarHeight_def GetCollapsedToolbarHeight_def)
  ultimately show ?thesis using d base y0 same moved SetProgress_close by (simp add: UpdateProgress_def)
qed

lemma fullscreen_tracks_finger_example:
  "\<exists>M1. UpdateProgress (UpdateBaseOffset demo_fullscreen) = Inr M1 \<and> progress M1 = progress demo_fullscreen"
proof -
  have "\<not> AreCGFloatsEqual (toolbar_height_delta demo_fullscreen) 0" by code_simp
  from fullscreen_tracks_finger [OF demo_fullscreen_reachable this, of 0] show ?thesis by blast
qed

end
