(* ===== verification/Overlay_Callbacks.thy ===== *)
theory Overlay_Callbacks
  imports Event_System
begin

text \<open>
  How the requester of an overlay learns what the user did with it
  (\<^verbatim>\<open>chrome/browser/overlays\<close>): the typed user data of requests and responses, the supports that
  select them by type, the callback manager of a request and the installers that give a request its
  callbacks when it enters a queue.

  A request is addressed by a number that stands for its address, which may be used again by a later
  request; installers carry numbers that are never used again, because the callbacks refer to them
  through weak pointers.  Callbacks of clients are recorded when they run; callbacks that call back
  into the manager that runs them are not modelled.
\<close>

section \<open>User data\<close>

text \<open>
  The key of a data type is the address of its static member; a type may add auxiliary data of
  other types first.
\<close>

type_synonym 'd user_data = "string \<rightharpoonup> 'd"

record 'd data_type =
  UserDataKey :: string
  CreateAuxiliaryData :: "'d user_data \<Rightarrow> 'd user_data"

definition FromUserData :: "'d data_type \<Rightarrow> 'd user_data \<Rightarrow> 'd option" where
  "FromUserData T ud = ud (UserDataKey T)"

definition CreateForUserData :: "'d data_type \<Rightarrow> 'd \<Rightarrow> 'd user_data \<Rightarrow> 'd user_data" where
  "CreateForUserData T d ud =
     (if FromUserData T ud = None
      then (CreateAuxiliaryData T ud)(UserDataKey T \<mapsto> d)
      else ud)"

text \<open>A response is its user data.\<close>

type_synonym 'd overlay_response = "'d user_data"

definition CreateResponse :: "'d overlay_response" where
  "CreateResponse = Map.empty"

definition CreateWithInfo :: "'d data_type \<Rightarrow> 'd \<Rightarrow> 'd overlay_response" where
  "CreateWithInfo T d = CreateForUserData T d CreateResponse"

definition GetInfo :: "'d data_type \<Rightarrow> 'd overlay_response \<Rightarrow> 'd option" where
  "GetInfo T response = FromUserData T response"

section \<open>Supports\<close>

text \<open>The classes derived from \<^verbatim>\<open>OverlayRequestSupport\<close> and \<^verbatim>\<open>OverlayResponseSupport\<close>.\<close>

datatype 'd request_support =
    UniversalOverlayRequestSupport
  | DisabledOverlayRequestSupport
  | SupportsOverlayRequest "'d data_type"
  | OverlayRequestSupport "'d request_support list"

datatype 'd response_support =
    UniversalOverlayResponseSupport
  | DisabledOverlayResponseSupport
  | SupportsOverlayResponse "'d data_type"
  | OverlayResponseSupport "'d response_support list"

text \<open>A request is supported or not by virtue of its user data.\<close>

fun IsRequestSupported :: "'d user_data \<Rightarrow> 'd request_support \<Rightarrow> bool" and
    is_any_request_supported :: "'d user_data \<Rightarrow> 'd request_support list \<Rightarrow> bool" where
  "IsRequestSupported ud UniversalOverlayRequestSupport = True"
| "IsRequestSupported ud DisabledOverlayRequestSupport = False"
| "IsRequestSupported ud (SupportsOverlayRequest T) = (FromUserData T ud \<noteq> None)"
| "IsRequestSupported ud (OverlayRequestSupport supports) = is_any_request_supported ud supports"
| "is_any_request_supported ud [] = False"
| "is_any_request_supported ud (support # supports) =
     (if IsRequestSupported ud support then True else is_any_request_supported ud supports)"

fun IsResponseSupported :: "'d overlay_response \<Rightarrow> 'd response_support \<Rightarrow> bool" and
    is_any_response_supported :: "'d overlay_response \<Rightarrow> 'd response_support list \<Rightarrow> bool" where
  "IsResponseSupported response UniversalOverlayResponseSupport = True"
| "IsResponseSupported response DisabledOverlayResponseSupport = False"
| "IsResponseSupported response (SupportsOverlayResponse T) = (GetInfo T response \<noteq> None)"
| "IsResponseSupported response (OverlayResponseSupport supports) = is_any_response_supported response supports"
| "is_any_response_supported response [] = False"
| "is_any_response_supported response (support # supports) =
     (if IsResponseSupported response support then True else is_any_response_supported response supports)"

definition AllRequests :: "'d request_support" where
  "AllRequests = UniversalOverlayRequestSupport"

definition NoRequests :: "'d request_support" where
  "NoRequests = DisabledOverlayRequestSupport"

definition AllResponses :: "'d response_support" where
  "AllResponses = UniversalOverlayResponseSupport"

definition NoResponses :: "'d response_support" where
  "NoResponses = DisabledOverlayResponseSupport"

definition RequestSupport :: "'d data_type \<Rightarrow> 'd request_support" where
  "RequestSupport T = SupportsOverlayRequest T"

definition ResponseSupport :: "'d data_type \<Rightarrow> 'd response_support" where
  "ResponseSupport T = SupportsOverlayResponse T"

section \<open>The callback manager\<close>

text \<open>
  A dispatch callback of a client; a completion callback of a client or the method
  \<^verbatim>\<open>OverlayCompleted\<close> bound to a weak pointer to an installer and to a request.
\<close>

record 'd dispatch_callback =
  dispatch_client :: nat
  callback_response_support :: "'d response_support"

datatype overlay_completion = ClientCompletion nat | BoundOverlayCompleted nat nat

record 'd callback_manager =
  completion_response :: "'d overlay_response option"
  manager_completions :: "overlay_completion list"
  manager_dispatches :: "'d dispatch_callback list"

definition OverlayCallbackManagerImpl :: "'d callback_manager" where
  "OverlayCallbackManagerImpl = \<lparr>completion_response = None, manager_completions = [], manager_dispatches = []\<rparr>"

text \<open>A null callback or support is \<open>None\<close>.\<close>

definition OverlayDispatchCallback ::
    "nat option \<Rightarrow> 'd response_support option \<Rightarrow> 'd dispatch_callback res" where
  "OverlayDispatchCallback callback support = (case callback of
       None \<Rightarrow> Inl (DCheckFailed ''!callback_.is_null()'')
     | Some n \<Rightarrow> (case support of
         None \<Rightarrow> Inl (DCheckFailed ''response_support_'')
       | Some s \<Rightarrow> Inr \<lparr>dispatch_client = n, callback_response_support = s\<rparr>))"

definition SetCompletionResponse :: "'d overlay_response option \<Rightarrow> 'd callback_manager \<Rightarrow> 'd callback_manager" where
  "SetCompletionResponse response M = M\<lparr>completion_response := response\<rparr>"

definition GetCompletionResponse :: "'d callback_manager \<Rightarrow> 'd overlay_response option" where
  "GetCompletionResponse M = completion_response M"

definition ManagerAddCompletionCallback ::
    "overlay_completion option \<Rightarrow> 'd callback_manager \<Rightarrow> 'd callback_manager res" where
  "ManagerAddCompletionCallback callback M = (case callback of
       None \<Rightarrow> Inl (DCheckFailed ''!callback.is_null()'')
     | Some cb \<Rightarrow> Inr (M\<lparr>manager_completions := manager_completions M @ [cb]\<rparr>))"

definition AddDispatchCallback :: "'d dispatch_callback \<Rightarrow> 'd callback_manager \<Rightarrow> 'd callback_manager" where
  "AddDispatchCallback callback M = M\<lparr>manager_dispatches := manager_dispatches M @ [callback]\<rparr>"

section \<open>Requests and installers\<close>

text \<open>
  \<open>internal_completions\<close> and \<open>internal_dispatches\<close> are the callbacks that the subclass of an
  installer adds in \<^verbatim>\<open>InstallCallbacksInternal\<close>; the base class adds none.
\<close>

record 'd installer =
  installed_requests :: "nat set"
  installer_support :: "'d request_support"
  internal_completions :: "nat list"
  internal_dispatches :: "'d dispatch_callback list"

definition OverlayRequestCallbackInstaller :: "'d installer" where
  "OverlayRequestCallbackInstaller = \<lparr>installed_requests = {}, installer_support = AllRequests,
     internal_completions = [], internal_dispatches = []\<rparr>"

record 'd request_object =
  request_data :: "'d user_data"
  request_manager :: "'d callback_manager"

datatype 'd callback_run =
    RanCompletion nat nat "'d overlay_response option"
  | RanDispatch nat nat "'d overlay_response"

text \<open>
  The requests and installers that are alive, the installers that the observer of one queue owns,
  and whether it still observes the queue.
\<close>

record 'd callback_world =
  live_requests :: "nat \<rightharpoonup> 'd request_object"
  live_installers :: "nat \<rightharpoonup> 'd installer"
  next_installer :: nat
  queue_installers :: "nat list"
  observing_queue :: bool
  callback_log :: "'d callback_run list"

definition CreateRequest :: "'d request_object" where
  "CreateRequest = \<lparr>request_data = Map.empty, request_manager = OverlayCallbackManagerImpl\<rparr>"

definition CreateWithConfig :: "'d data_type \<Rightarrow> 'd \<Rightarrow> 'd request_object" where
  "CreateWithConfig T d = CreateRequest\<lparr>request_data := CreateForUserData T d (request_data CreateRequest)\<rparr>"

definition GetConfig :: "'d data_type \<Rightarrow> 'd request_object \<Rightarrow> 'd option" where
  "GetConfig T q = FromUserData T (request_data q)"

definition live_request :: "nat \<Rightarrow> 'd callback_world \<Rightarrow> 'd request_object res" where
  "live_request r W = (case live_requests W r of None \<Rightarrow> Inl (DanglingPointer ''OverlayRequest'') | Some q \<Rightarrow> Inr q)"

definition live_installer :: "nat \<Rightarrow> 'd callback_world \<Rightarrow> 'd installer res" where
  "live_installer i W = (case live_installers W i of
       None \<Rightarrow> Inl (DanglingPointer ''OverlayRequestCallbackInstaller'') | Some I \<Rightarrow> Inr I)"

definition set_manager :: "nat \<Rightarrow> 'd request_object \<Rightarrow> 'd callback_manager \<Rightarrow> 'd callback_world \<Rightarrow> 'd callback_world" where
  "set_manager r q M W = W\<lparr>live_requests := (live_requests W)(r \<mapsto> q\<lparr>request_manager := M\<rparr>)\<rparr>"

definition InstallCallbacksInternal :: "'d installer \<Rightarrow> 'd callback_manager \<Rightarrow> 'd callback_manager" where
  "InstallCallbacksInternal I M =
     M\<lparr>manager_completions := manager_completions M @ map ClientCompletion (internal_completions I),
       manager_dispatches := manager_dispatches M @ internal_dispatches I\<rparr>"

definition InstallCallbacks :: "nat \<Rightarrow> nat \<Rightarrow> 'd callback_world \<Rightarrow> 'd callback_world res" where
  "InstallCallbacks i r W = rbind (live_installer i W) (\<lambda>I. rbind (live_request r W) (\<lambda>q.
     if \<not> IsRequestSupported (request_data q) (installer_support I) \<or> r \<in> installed_requests I
     then Inr W
     else
       let W = W\<lparr>live_installers := (live_installers W)(i \<mapsto> I\<lparr>installed_requests := insert r (installed_requests I)\<rparr>)\<rparr>
       in rbind (ManagerAddCompletionCallback (Some (BoundOverlayCompleted i r)) (request_manager q)) (\<lambda>M.
            Inr (set_manager r q (InstallCallbacksInternal I M) W))))"

text \<open>The bound method is not called once the installer is gone.\<close>

definition OverlayCompleted :: "nat \<Rightarrow> nat \<Rightarrow> 'd callback_world \<Rightarrow> 'd callback_world" where
  "OverlayCompleted i r W = (case live_installers W i of
       None \<Rightarrow> W
     | Some I \<Rightarrow> W\<lparr>live_installers := (live_installers W)(i \<mapsto> I\<lparr>installed_requests := installed_requests I - {r}\<rparr>)\<rparr>)"

fun run_overlay_completion ::
    "nat \<Rightarrow> 'd overlay_response option \<Rightarrow> overlay_completion \<Rightarrow> 'd callback_world \<Rightarrow> 'd callback_world" where
  "run_overlay_completion r response (ClientCompletion n) W =
     W\<lparr>callback_log := callback_log W @ [RanCompletion n r response]\<rparr>"
| "run_overlay_completion r response (BoundOverlayCompleted i r') W = OverlayCompleted i r' W"

definition ManagerExecuteCompletionCallbacks :: "nat \<Rightarrow> 'd callback_world \<Rightarrow> 'd callback_world res" where
  "ManagerExecuteCompletionCallbacks r W = rbind (live_request r W) (\<lambda>q.
     let W = fold (run_overlay_completion r (GetCompletionResponse (request_manager q)))
               (manager_completions (request_manager q)) W
     in Inr (set_manager r q ((request_manager q)\<lparr>manager_completions := []\<rparr>) W))"

text \<open>The destructors of \<^verbatim>\<open>OverlayRequestImpl\<close> and of its callback manager.\<close>

definition destroy_manager :: "'d callback_manager \<Rightarrow> 'a \<Rightarrow> 'a res" where
  "destroy_manager M x = dcheck (manager_completions M = []) ''completion_callbacks_.empty()'' (Inr x)"

definition destroy_OverlayRequestImpl :: "nat \<Rightarrow> 'd callback_world \<Rightarrow> 'd callback_world res" where
  "destroy_OverlayRequestImpl r W =
     rbind (ManagerExecuteCompletionCallbacks r W) (\<lambda>W. rbind (live_request r W) (\<lambda>q.
       destroy_manager (request_manager q) (W\<lparr>live_requests := (live_requests W)(r := None)\<rparr>)))"

definition run_dispatch ::
    "nat \<Rightarrow> 'd overlay_response \<Rightarrow> 'd dispatch_callback \<Rightarrow> 'd callback_world \<Rightarrow> 'd callback_world" where
  "run_dispatch r response cb W =
     (if IsResponseSupported response (callback_response_support cb)
      then W\<lparr>callback_log := callback_log W @ [RanDispatch (dispatch_client cb) r response]\<rparr>
      else W)"

definition DispatchResponse :: "nat \<Rightarrow> 'd overlay_response option \<Rightarrow> 'd callback_world \<Rightarrow> 'd callback_world res" where
  "DispatchResponse r response W = (case response of
       None \<Rightarrow> Inl (DCheckFailed ''response'')
     | Some resp \<Rightarrow> rbind (live_request r W) (\<lambda>q.
         Inr (fold (run_dispatch r resp) (manager_dispatches (request_manager q)) W)))"

section \<open>The installers of a queue\<close>

definition AddInstaller :: "nat option \<Rightarrow> 'd callback_world \<Rightarrow> 'd callback_world res" where
  "AddInstaller i W = (case i of
       None \<Rightarrow> Inl (DCheckFailed ''installer'')
     | Some i \<Rightarrow> Inr (W\<lparr>queue_installers := queue_installers W @ [i]\<rparr>))"

definition AddRequestCallbackInstaller :: "nat option \<Rightarrow> 'd callback_world \<Rightarrow> 'd callback_world res" where
  "AddRequestCallbackInstaller i W = AddInstaller i W"

fun install_all :: "nat list \<Rightarrow> nat \<Rightarrow> 'd callback_world \<Rightarrow> 'd callback_world res" where
  "install_all [] r W = Inr W"
| "install_all (i # is) r W = rbind (InstallCallbacks i r W) (install_all is r)"

definition InstallerRequestAddedToQueue :: "nat \<Rightarrow> 'd callback_world \<Rightarrow> 'd callback_world res" where
  "InstallerRequestAddedToQueue r W = install_all (queue_installers W) r W"

definition InstallerQueueDestroyed :: "'d callback_world \<Rightarrow> 'd callback_world res" where
  "InstallerQueueDestroyed W =
     dcheck (observing_queue W) ''scoped_observation_.IsObservingSource(queue)'' (Inr (W\<lparr>observing_queue := False\<rparr>))"

section \<open>Events\<close>

text \<open>
  What happens to the requests and installers of one queue.  An installer is created by a browser
  agent with the callbacks of its subclass; destroying the object that installs the callbacks of a
  queue destroys the installers it owns.
\<close>

datatype 'd callback_event =
    InstallerCreated "'d request_support" "nat list" "'d dispatch_callback list"
  | InstallerAdded "nat option"
  | InstallerDestroyed nat
  | QueueInstallerDestroyed
  | QueueGone
  | RequestCreated nat "'d data_type" 'd
  | RequestQueued nat
  | CallbacksInstalled nat nat
  | ResponseSet nat "'d overlay_response option"
  | CompletionAdded nat "nat option"
  | DispatchAdded nat "nat option" "'d response_support option"
  | ResponseDispatched nat "'d overlay_response option"
  | RequestDestroyed nat

fun callback_exec :: "'d callback_event \<Rightarrow> 'd callback_world \<Rightarrow> 'd callback_world res" where
  "callback_exec (InstallerCreated s cs ds) W = Inr (W\<lparr>live_installers := (live_installers W)(next_installer W \<mapsto>
       OverlayRequestCallbackInstaller\<lparr>installer_support := s, internal_completions := cs, internal_dispatches := ds\<rparr>),
     next_installer := Suc (next_installer W)\<rparr>)"
| "callback_exec (InstallerAdded i) W = AddRequestCallbackInstaller i W"
| "callback_exec (InstallerDestroyed i) W = Inr (W\<lparr>live_installers := (live_installers W)(i := None)\<rparr>)"
| "callback_exec QueueInstallerDestroyed W = Inr (W\<lparr>observing_queue := False,
     live_installers := (live_installers W) |` (- set (queue_installers W)), queue_installers := []\<rparr>)"
| "callback_exec QueueGone W = InstallerQueueDestroyed W"
| "callback_exec (RequestCreated r T d) W = Inr (W\<lparr>live_requests := (live_requests W)(r \<mapsto> CreateWithConfig T d)\<rparr>)"
| "callback_exec (RequestQueued r) W =
     rbind (live_request r W) (\<lambda>_. if observing_queue W then InstallerRequestAddedToQueue r W else Inr W)"
| "callback_exec (CallbacksInstalled i r) W = InstallCallbacks i r W"
| "callback_exec (ResponseSet r response) W = rbind (live_request r W) (\<lambda>q.
     Inr (set_manager r q (SetCompletionResponse response (request_manager q)) W))"
| "callback_exec (CompletionAdded r n) W = rbind (live_request r W) (\<lambda>q.
     rbind (ManagerAddCompletionCallback (map_option ClientCompletion n) (request_manager q)) (\<lambda>M.
       Inr (set_manager r q M W)))"
| "callback_exec (DispatchAdded r n s) W = rbind (live_request r W) (\<lambda>q.
     rbind (OverlayDispatchCallback n s) (\<lambda>cb. Inr (set_manager r q (AddDispatchCallback cb (request_manager q)) W)))"
| "callback_exec (ResponseDispatched r response) W = DispatchResponse r response W"
| "callback_exec (RequestDestroyed r) W = destroy_OverlayRequestImpl r W"

text \<open>
  What the clients guarantee: they use objects that are alive and pass no null pointers; a new
  request is not placed at the address of a live one; an installer is handed over once.
\<close>

fun callback_pre :: "'d callback_event \<Rightarrow> 'd callback_world \<Rightarrow> bool" where
  "callback_pre (InstallerCreated s cs ds) W = True"
| "callback_pre (InstallerAdded i) W = (case i of None \<Rightarrow> False
     | Some i \<Rightarrow> live_installers W i \<noteq> None \<and> i \<notin> set (queue_installers W))"
| "callback_pre (InstallerDestroyed i) W = (i \<notin> set (queue_installers W))"
| "callback_pre QueueInstallerDestroyed W = True"
| "callback_pre QueueGone W = observing_queue W"
| "callback_pre (RequestCreated r T d) W = (live_requests W r = None)"
| "callback_pre (CallbacksInstalled i r) W = (live_installers W i \<noteq> None \<and> live_requests W r \<noteq> None)"
| "callback_pre (RequestQueued r) W = (live_requests W r \<noteq> None)"
| "callback_pre (ResponseSet r response) W = (live_requests W r \<noteq> None)"
| "callback_pre (CompletionAdded r n) W = (live_requests W r \<noteq> None \<and> n \<noteq> None)"
| "callback_pre (DispatchAdded r n s) W = (live_requests W r \<noteq> None \<and> n \<noteq> None \<and> s \<noteq> None)"
| "callback_pre (ResponseDispatched r response) W = (live_requests W r \<noteq> None \<and> response \<noteq> None)"
| "callback_pre (RequestDestroyed r) W = (live_requests W r \<noteq> None)"

definition no_callbacks :: "'d callback_world" where
  "no_callbacks = \<lparr>live_requests = Map.empty, live_installers = Map.empty, next_installer = 0,
     queue_installers = [], observing_queue = True, callback_log = []\<rparr>"

abbreviation callbacks_reachable :: "'d callback_world \<Rightarrow> bool" where
  "callbacks_reachable \<equiv> reachable_from (\<lambda>W. W = no_callbacks) callback_pre callback_exec"

section \<open>Invariant\<close>

text \<open>
  An installer remembers a request exactly as long as the request holds the callback that makes the
  installer forget it, which it holds once.
\<close>

fun bound_callbacks :: "overlay_completion list \<Rightarrow> (nat \<times> nat) list" where
  "bound_callbacks [] = []"
| "bound_callbacks (ClientCompletion n # cs) = bound_callbacks cs"
| "bound_callbacks (BoundOverlayCompleted i r # cs) = (i, r) # bound_callbacks cs"

definition held :: "'d callback_world \<Rightarrow> nat \<Rightarrow> (nat \<times> nat) list" where
  "held W r = (case live_requests W r of None \<Rightarrow> []
     | Some q \<Rightarrow> bound_callbacks (manager_completions (request_manager q)))"

definition callbacks_inv :: "'d callback_world \<Rightarrow> bool" where
  "callbacks_inv W \<longleftrightarrow>
     (\<forall>r i r'. (i, r') \<in> set (held W r) \<longrightarrow> r' = r \<and> i < next_installer W) \<and>
     (\<forall>i I. live_installers W i = Some I \<longrightarrow> i < next_installer W \<and>
        (\<forall>r. count_list (held W r) (i, r) = (if r \<in> installed_requests I then 1 else 0))) \<and>
     set (queue_installers W) \<subseteq> dom (live_installers W)"

lemma bound_callbacks_append [simp]: "bound_callbacks (cs @ ds) = bound_callbacks cs @ bound_callbacks ds"
  by (induction cs rule: bound_callbacks.induct) simp_all

lemma bound_callbacks_client [simp]: "bound_callbacks (map ClientCompletion ns) = []"
  by (induction ns) simp_all

lemma in_bound_callbacks [simp]: "(i, r) \<in> set (bound_callbacks cs) \<longleftrightarrow> BoundOverlayCompleted i r \<in> set cs"
  by (induction cs rule: bound_callbacks.induct) auto

lemma callbacks_invD:
  assumes "callbacks_inv W"
  shows "(i, r') \<in> set (held W r) \<Longrightarrow> r' = r" "(i, r') \<in> set (held W r) \<Longrightarrow> i < next_installer W"
    "live_installers W i = Some I \<Longrightarrow> i < next_installer W"
    "live_installers W i = Some I \<Longrightarrow> count_list (held W r) (i, r) = (if r \<in> installed_requests I then 1 else 0)"
    "set (queue_installers W) \<subseteq> dom (live_installers W)"
  using assms by (auto simp: callbacks_inv_def)

lemma callbacks_inv_cong:
  assumes "callbacks_inv W" "held W' = held W" "live_installers W' = live_installers W"
    "next_installer W' = next_installer W" "set (queue_installers W') \<subseteq> dom (live_installers W')"
  shows "callbacks_inv W'"
  using assms by (simp add: callbacks_inv_def)

lemma held_set_manager:
  assumes "live_requests W r = Some q"
    "bound_callbacks (manager_completions M) = bound_callbacks (manager_completions (request_manager q))"
  shows "held (set_manager r q M W) = held W"
  using assms by (auto simp: held_def set_manager_def fun_eq_iff)

fun client_completions :: "overlay_completion list \<Rightarrow> nat list" where
  "client_completions [] = []"
| "client_completions (ClientCompletion n # cs) = n # client_completions cs"
| "client_completions (BoundOverlayCompleted i r # cs) = client_completions cs"

text \<open>The installers after the bound callbacks among \<open>cs\<close> have run.\<close>

definition forget_bound :: "overlay_completion list \<Rightarrow> (nat \<rightharpoonup> 'd installer) \<Rightarrow> (nat \<rightharpoonup> 'd installer)" where
  "forget_bound cs m = (\<lambda>i. map_option (\<lambda>I. I\<lparr>installed_requests :=
     installed_requests I - {r. BoundOverlayCompleted i r \<in> set cs}\<rparr>) (m i))"

lemma forget_bound_Nil [simp]: "forget_bound [] m = m"
  by (simp add: forget_bound_def option.map_ident)

lemma forget_bound_append: "forget_bound cs (forget_bound ds m) = forget_bound (ds @ cs) m"
proof
  fix i
  show "forget_bound cs (forget_bound ds m) i = forget_bound (ds @ cs) m i"
  proof (cases "m i")
    case (Some I)
    have "installed_requests I - {r. BoundOverlayCompleted i r \<in> set ds} - {r. BoundOverlayCompleted i r \<in> set cs} =
      installed_requests I - {r. BoundOverlayCompleted i r \<in> set ds \<or> BoundOverlayCompleted i r \<in> set cs}" by blast
    with Some show ?thesis by (simp add: forget_bound_def)
  qed (simp add: forget_bound_def)
qed

lemma forget_bound_client [simp]: "forget_bound (ClientCompletion n # cs) m = forget_bound cs m"
  by (simp add: forget_bound_def)

lemma OverlayCompleted_eq: "OverlayCompleted i r W = W\<lparr>live_installers := forget_bound [BoundOverlayCompleted i r] (live_installers W)\<rparr>"
proof -
  have "forget_bound [BoundOverlayCompleted i r] (live_installers W) = (case live_installers W i of None \<Rightarrow> live_installers W
    | Some I \<Rightarrow> (live_installers W)(i \<mapsto> I\<lparr>installed_requests := installed_requests I - {r}\<rparr>))"
  proof
    fix j
    show "forget_bound [BoundOverlayCompleted i r] (live_installers W) j = (case live_installers W i of None \<Rightarrow> live_installers W
      | Some I \<Rightarrow> (live_installers W)(i \<mapsto> I\<lparr>installed_requests := installed_requests I - {r}\<rparr>)) j"
      by (cases "live_installers W i"; cases "live_installers W j"; cases "j = i") (simp_all add: forget_bound_def)
  qed
  then show ?thesis by (simp add: OverlayCompleted_def split: option.splits)
qed

lemma run_completions_eq:
  "fold (run_overlay_completion r response) cs W = W\<lparr>live_installers := forget_bound cs (live_installers W),
     callback_log := callback_log W @ map (\<lambda>n. RanCompletion n r response) (client_completions cs)\<rparr>"
proof (induction cs arbitrary: W)
  case (Cons c cs)
  show ?case
    by (cases c) (simp_all add: Cons.IH OverlayCompleted_eq forget_bound_append)
qed simp

lemma run_dispatches_eq: "\<exists>l. fold (run_dispatch r response) ds W = W\<lparr>callback_log := l\<rparr>"
proof (induction ds arbitrary: W)
  case Nil
  have "W = W\<lparr>callback_log := callback_log W\<rparr>" by simp
  then show ?case unfolding fold.simps id_apply by blast
next
  case (Cons d ds)
  obtain l where l: "run_dispatch r response d W = W\<lparr>callback_log := l\<rparr>"
    by (cases "IsResponseSupported response (callback_response_support d)") (auto simp: run_dispatch_def intro: that [of "callback_log W"])
  then show ?case using Cons.IH [of "W\<lparr>callback_log := l\<rparr>"] by simp
qed

lemma live_request_Some [simp]: "live_requests W r = Some q \<Longrightarrow> live_request r W = Inr q"
  by (simp add: live_request_def)

lemma destroy_request_eq:
  assumes "live_requests W r = Some q"
  shows "destroy_OverlayRequestImpl r W = Inr (W\<lparr>live_requests := (live_requests W)(r := None),
    live_installers := forget_bound (manager_completions (request_manager q)) (live_installers W),
    callback_log := callback_log W @ map (\<lambda>n. RanCompletion n r (completion_response (request_manager q)))
      (client_completions (manager_completions (request_manager q)))\<rparr>)"
  using assms
  by (simp add: destroy_OverlayRequestImpl_def ManagerExecuteCompletionCallbacks_def run_completions_eq Let_def
    set_manager_def GetCompletionResponse_def destroy_manager_def)

lemma install_eq:
  assumes "live_requests W r = Some q" "live_installers W i = Some I"
  shows "InstallCallbacks i r W = Inr (
    if IsRequestSupported (request_data q) (installer_support I) \<and> r \<notin> installed_requests I
    then W\<lparr>live_installers := (live_installers W)(i \<mapsto> I\<lparr>installed_requests := insert r (installed_requests I)\<rparr>),
      live_requests := (live_requests W)(r \<mapsto> q\<lparr>request_manager := (request_manager q)\<lparr>
        manager_completions := manager_completions (request_manager q) @
          BoundOverlayCompleted i r # map ClientCompletion (internal_completions I),
        manager_dispatches := manager_dispatches (request_manager q) @ internal_dispatches I\<rparr>\<rparr>)\<rparr>
    else W)"
  using assms
  by (simp add: InstallCallbacks_def live_installer_def ManagerAddCompletionCallback_def InstallCallbacksInternal_def set_manager_def Let_def)

lemma set_manager_inv:
  assumes "callbacks_inv W" "live_requests W r = Some q"
    "bound_callbacks (manager_completions M) = bound_callbacks (manager_completions (request_manager q))"
  shows "callbacks_inv (set_manager r q M W)"
  by (rule callbacks_inv_cong [OF assms(1) held_set_manager [OF assms(2,3)]])
    (use callbacks_invD(5) [OF assms(1)] in \<open>simp_all add: set_manager_def\<close>)

lemma forget_bound_Some:
  "forget_bound cs m i = Some J \<longleftrightarrow> (\<exists>I. m i = Some I \<and>
     J = I\<lparr>installed_requests := installed_requests I - {r. BoundOverlayCompleted i r \<in> set cs}\<rparr>)"
  by (auto simp: forget_bound_def)

lemma dom_forget_bound [simp]: "dom (forget_bound cs m) = dom m"
  by (auto simp: forget_bound_def dom_def)

lemma install_inv:
  assumes "callbacks_inv W" "live_requests W r = Some q" "live_installers W i = Some I"
  shows "\<exists>W'. InstallCallbacks i r W = Inr W' \<and> callbacks_inv W' \<and> dom (live_requests W') = dom (live_requests W) \<and>
    dom (live_installers W') = dom (live_installers W) \<and> queue_installers W' = queue_installers W"
proof (cases "IsRequestSupported (request_data q) (installer_support I) \<and> r \<notin> installed_requests I")
  case True
  obtain W' where W': "InstallCallbacks i r W = Inr W'" by (simp add: install_eq [OF assms(2,3)])
  note I = callbacks_invD [OF assms(1)]
  have inst: "live_installers W' = (live_installers W)(i \<mapsto> I\<lparr>installed_requests := insert r (installed_requests I)\<rparr>)"
    and rest: "next_installer W' = next_installer W" "queue_installers W' = queue_installers W"
      "dom (live_requests W') = dom (live_requests W)"
    and held: "held W' = (held W)(r := held W r @ [(i, r)])"
    using W' True assms(2,3) by (auto simp: install_eq held_def fun_eq_iff split: if_splits)
  have "(j, r') \<in> set (held W' s) \<Longrightarrow> r' = s \<and> j < next_installer W'" for j r' s
    using held rest I(1-3) assms(3) by (auto split: if_splits)
  moreover have "j < next_installer W' \<and> (\<forall>s. count_list (held W' s) (j, s) = (if s \<in> installed_requests J then 1 else 0))"
    if "live_installers W' j = Some J" for j J
    using that inst rest(1) held I(3) I(4) [of j] I(4) [OF assms(3)] assms(3) True by (auto split: if_splits)
  moreover have "dom (live_installers W') = dom (live_installers W)" using inst assms(3) by auto
  ultimately show ?thesis using W' rest I(5) by (simp add: callbacks_inv_def)
qed (use assms in \<open>auto simp: install_eq\<close>)

lemma install_all_inv:
  assumes "callbacks_inv W" "live_requests W r \<noteq> None" "set is \<subseteq> dom (live_installers W)"
  shows "\<exists>W'. install_all is r W = Inr W' \<and> callbacks_inv W'"
  using assms
proof (induction "is" arbitrary: W)
  case (Cons i "is")
  then obtain q I where "live_requests W r = Some q" "live_installers W i = Some I" by auto
  from install_inv [OF Cons.prems(1) this] obtain W' where
    "InstallCallbacks i r W = Inr W'" "callbacks_inv W'" "dom (live_requests W') = dom (live_requests W)"
    "dom (live_installers W') = dom (live_installers W)" by blast
  with Cons.IH [of W'] Cons.prems show ?case by auto
qed simp

lemma destroy_inv:
  assumes "callbacks_inv W" "live_requests W r = Some q"
  shows "\<exists>W'. destroy_OverlayRequestImpl r W = Inr W' \<and> callbacks_inv W'"
proof -
  obtain W' where W': "destroy_OverlayRequestImpl r W = Inr W'" by (simp add: destroy_request_eq [OF assms(2)])
  let ?cs = "manager_completions (request_manager q)"
  note I = callbacks_invD [OF assms(1)]
  have inst: "live_installers W' = forget_bound ?cs (live_installers W)"
    and rest: "next_installer W' = next_installer W" "queue_installers W' = queue_installers W"
    and held: "held W' = (held W)(r := [])" and hr: "held W r = bound_callbacks ?cs"
    using W' assms(2) by (auto simp: destroy_request_eq held_def fun_eq_iff)
  have "(j, r') \<in> set (held W' s) \<Longrightarrow> r' = s \<and> j < next_installer W'" for j r' s
    using held rest I(1,2) by (auto split: if_splits)
  moreover have "j < next_installer W' \<and> (\<forall>s. count_list (held W' s) (j, s) = (if s \<in> installed_requests J then 1 else 0))"
    if live: "live_installers W' j = Some J" for j J
  proof -
    obtain K where K: "live_installers W j = Some K"
      "installed_requests J = installed_requests K - {s. BoundOverlayCompleted j s \<in> set ?cs}"
      using live unfolding inst forget_bound_Some by auto
    have only: "s = r" if "BoundOverlayCompleted j s \<in> set ?cs" for s
      using I(1) [of j s r] that hr by simp
    have "(BoundOverlayCompleted j r \<in> set ?cs) = (r \<in> installed_requests K)"
      using I(4) [OF K(1), of r] hr by (metis count_list_0_iff in_bound_callbacks zero_neq_one)
    then have "s \<in> installed_requests J \<longleftrightarrow> s \<in> installed_requests K \<and> s \<noteq> r" for s
      using K(2) only by auto
    then show ?thesis using I(3,4) [OF K(1)] held rest(1) by simp
  qed
  ultimately show ?thesis using W' I(5) inst rest by (simp add: callbacks_inv_def)
qed

lemma created_inv:
  assumes "callbacks_inv W"
  shows "callbacks_inv (W\<lparr>live_installers := (live_installers W)(next_installer W \<mapsto>
      OverlayRequestCallbackInstaller\<lparr>installer_support := s, internal_completions := cs, internal_dispatches := ds\<rparr>),
    next_installer := Suc (next_installer W)\<rparr>)" (is "callbacks_inv ?W'")
proof -
  note I = callbacks_invD [OF assms]
  have held: "held ?W' = held W" by (simp add: held_def fun_eq_iff)
  have "count_list (held W r) (next_installer W, r) = 0" for r
    using I(2) [of "next_installer W" r r] by (auto simp: count_list_0_iff)
  then show ?thesis
    using I(3,4,5) I(1,2) [THEN conjI] unfolding callbacks_inv_def held
    by (auto simp: OverlayRequestCallbackInstaller_def less_Suc_eq split: if_splits)
qed

lemma callback_exec_inv:
  assumes "callbacks_inv W" "callback_pre e W"
  shows "\<exists>W'. callback_exec e W = Inr W' \<and> callbacks_inv W'"
proof (cases e)
  case (InstallerCreated s cs ds)
  then show ?thesis using created_inv [OF assms(1)] by simp
next
  case (InstallerAdded i)
  then show ?thesis using assms
    by (auto simp: AddRequestCallbackInstaller_def AddInstaller_def callbacks_inv_def held_def split: option.splits)
next
  case (InstallerDestroyed i)
  then show ?thesis using assms by (auto simp: callbacks_inv_def held_def)
next
  case QueueInstallerDestroyed
  then show ?thesis using assms by (auto simp: callbacks_inv_def held_def restrict_map_def split: if_splits)
next
  case QueueGone
  then show ?thesis using assms by (auto simp: InstallerQueueDestroyed_def callbacks_inv_def held_def)
next
  case (RequestCreated r T d)
  then have "held (W\<lparr>live_requests := (live_requests W)(r \<mapsto> CreateWithConfig T d)\<rparr>) = held W"
    using assms(2) by (auto simp: held_def CreateWithConfig_def CreateRequest_def OverlayCallbackManagerImpl_def)
  then show ?thesis using RequestCreated assms(1) by (simp add: callbacks_inv_def)
next
  case (RequestQueued r)
  then show ?thesis using assms install_all_inv [OF assms(1), of r "queue_installers W"] callbacks_invD(5) [OF assms(1)]
    by (auto simp: InstallerRequestAddedToQueue_def)
next
  case (CallbacksInstalled i r)
  then show ?thesis using assms install_inv [OF assms(1)] by fastforce
next
  case (ResponseSet r response)
  then show ?thesis using assms set_manager_inv [OF assms(1)] by (fastforce simp: SetCompletionResponse_def)
next
  case (CompletionAdded r n)
  then show ?thesis using assms set_manager_inv [OF assms(1)] by (fastforce simp: ManagerAddCompletionCallback_def)
next
  case (DispatchAdded r n s)
  then show ?thesis using assms set_manager_inv [OF assms(1)] by (fastforce simp: OverlayDispatchCallback_def AddDispatchCallback_def)
next
  case (ResponseDispatched r response)
  then obtain q resp where q: "live_requests W r = Some q" "response = Some resp" using assms(2) by auto
  obtain l where "fold (run_dispatch r resp) (manager_dispatches (request_manager q)) W = W\<lparr>callback_log := l\<rparr>"
    using run_dispatches_eq by blast
  then show ?thesis using ResponseDispatched q assms(1) by (simp add: DispatchResponse_def callbacks_inv_def held_def)
next
  case (RequestDestroyed r)
  then show ?thesis using assms destroy_inv [OF assms(1)] by fastforce
qed

interpretation callbacks: event_system "\<lambda>W. W = no_callbacks" callback_pre callback_exec callbacks_inv
proof unfold_locales
  show "callbacks_inv W" if "W = no_callbacks" for W :: "'a callback_world"
    using that by (simp add: callbacks_inv_def no_callbacks_def held_def)
qed (rule callback_exec_inv)

section \<open>Properties\<close>

lemma is_any_request_supported_iff [simp]:
  "is_any_request_supported ud ss \<longleftrightarrow> (\<exists>s \<in> set ss. IsRequestSupported ud s)"
  by (induction ss) auto

lemma is_any_response_supported_iff [simp]:
  "is_any_response_supported response ss \<longleftrightarrow> (\<exists>s \<in> set ss. IsResponseSupported response s)"
  by (induction ss) auto

lemma config_round_trip: "GetConfig T (CreateWithConfig T d) = Some d"
  by (simp add: GetConfig_def CreateWithConfig_def CreateRequest_def CreateForUserData_def FromUserData_def)

lemma info_round_trip: "GetInfo T (CreateWithInfo T d) = Some d"
  by (simp add: GetInfo_def CreateWithInfo_def CreateResponse_def CreateForUserData_def FromUserData_def)

text \<open>A type with a config and a request for it, whose installer has been added to the queue.\<close>

definition demo_config :: "string data_type" where
  "demo_config = \<lparr>UserDataKey = ''alert'', CreateAuxiliaryData = (\<lambda>ud. ud(''aux'' \<mapsto> ''infobar''))\<rparr>"

definition demo_callback_events :: "string callback_event list" where
  "demo_callback_events =
     [InstallerCreated (OverlayRequestSupport [NoRequests, RequestSupport demo_config]) [7]
        [\<lparr>dispatch_client = 8, callback_response_support = AllResponses\<rparr>],
      InstallerAdded (Some 0), RequestCreated 100 demo_config ''hello'', RequestQueued 100]"

definition demo_callbacks :: "string callback_world" where
  "demo_callbacks = projr (run_events callback_exec demo_callback_events no_callbacks)"

lemma demo_callbacks_reachable: "callbacks_reachable demo_callbacks"
proof -
  have "allowed_events callback_pre callback_exec demo_callback_events no_callbacks" by code_simp
  then show ?thesis unfolding demo_callbacks_def by (rule run_events_reachable) (rule reachable_from.start, rule refl)
qed

text \<open>
  An installer gives a request its callbacks once: the first call for a supported
  request appends the callback that ends the relation and those of the subclass, a repeated call and
  one for an unsupported request change nothing, and a request holds the bound callback of a live
  installer exactly if the installer remembers it, never twice.
\<close>

theorem callbacks_installed_once:
  assumes "callbacks_reachable W" "live_requests W r = Some q" "live_installers W i = Some I"
  shows "\<exists>W' q' I'. InstallCallbacks i r W = Inr W' \<and> InstallCallbacks i r W' = Inr W' \<and>
    live_requests W' r = Some q' \<and> live_installers W' i = Some I' \<and>
    request_manager q' = (if IsRequestSupported (request_data q) (installer_support I) \<and> r \<notin> installed_requests I
      then InstallCallbacksInternal I ((request_manager q)\<lparr>manager_completions :=
             manager_completions (request_manager q) @ [BoundOverlayCompleted i r]\<rparr>)
      else request_manager q) \<and>
    count_list (bound_callbacks (manager_completions (request_manager q'))) (i, r) =
      (if r \<in> installed_requests I' then 1 else 0) \<and>
    (IsRequestSupported (request_data q) (installer_support I) \<longrightarrow> r \<in> installed_requests I')"
proof -
  obtain W' where W': "InstallCallbacks i r W = Inr W'" "callbacks_inv W'" "dom (live_requests W') = dom (live_requests W)"
    "dom (live_installers W') = dom (live_installers W)"
    using install_inv [OF callbacks.reachable_inv [OF assms(1)] assms(2,3)] by blast
  then obtain q' I' where q': "live_requests W' r = Some q'" "live_installers W' i = Some I'" using assms(2,3) by blast
  have "count_list (held W' r) (i, r) = (if r \<in> installed_requests I' then 1 else 0)"
    by (rule callbacks_invD(4) [OF W'(2) q'(2)])
  moreover have eq: "request_data q' = request_data q" "installer_support I' = installer_support I"
    "request_manager q' = (if IsRequestSupported (request_data q) (installer_support I) \<and> r \<notin> installed_requests I
      then InstallCallbacksInternal I ((request_manager q)\<lparr>manager_completions :=
             manager_completions (request_manager q) @ [BoundOverlayCompleted i r]\<rparr>)
      else request_manager q)"
    "IsRequestSupported (request_data q) (installer_support I) \<longrightarrow> r \<in> installed_requests I'"
    using W'(1) q' assms(2,3) by (auto simp: install_eq InstallCallbacksInternal_def split: if_splits)
  moreover have "InstallCallbacks i r W' = Inr W'" using eq by (auto simp: install_eq [OF q'])
  ultimately show ?thesis using W'(1) q' by (auto simp: held_def)
qed

theorem callbacks_installed_once_witness:
  "\<exists>W'. InstallCallbacks 0 100 demo_callbacks = Inr W' \<and> InstallCallbacks 0 100 W' = Inr W' \<and>
     (\<exists>I'. live_installers W' 0 = Some I' \<and> 100 \<in> installed_requests I')"
proof -
  have "case live_requests demo_callbacks 100 of None \<Rightarrow> False | Some q \<Rightarrow>
    (case live_installers demo_callbacks 0 of None \<Rightarrow> False
      | Some I \<Rightarrow> IsRequestSupported (request_data q) (installer_support I))" by code_simp
  then obtain q I where "live_requests demo_callbacks 100 = Some q" "live_installers demo_callbacks 0 = Some I"
    "IsRequestSupported (request_data q) (installer_support I)" by (auto split: option.splits)
  with callbacks_installed_once [OF demo_callbacks_reachable this(1,2)] show ?thesis by auto
qed

text \<open>
  When a request is destroyed, every completion callback that clients have added to it
  runs exactly once, in the order they were added, with the completion response of the request, and
  afterwards no installer remembers the request, so that a later one at the same address gets its
  own callbacks.
\<close>

theorem completion_callbacks_run_once:
  assumes "callbacks_reachable W" "live_requests W r = Some q"
  shows "\<exists>W'. destroy_OverlayRequestImpl r W = Inr W' \<and> callbacks_reachable W' \<and>
    live_requests W' = (live_requests W)(r := None) \<and>
    callback_log W' = callback_log W @ map (\<lambda>n. RanCompletion n r (completion_response (request_manager q)))
      (client_completions (manager_completions (request_manager q))) \<and>
    (\<forall>i I. live_installers W' i = Some I \<longrightarrow> r \<notin> installed_requests I)"
proof -
  obtain W' where W': "destroy_OverlayRequestImpl r W = Inr W'" "callbacks_inv W'"
    using destroy_inv [OF callbacks.reachable_inv [OF assms(1)] assms(2)] by blast
  have "held W' r = []" using W'(1) by (auto simp: destroy_request_eq [OF assms(2)] held_def)
  then have "r \<notin> installed_requests I" if "live_installers W' i = Some I" for i I
    using callbacks_invD(4) [OF W'(2) that, of r] by (auto split: if_splits)
  moreover have "callbacks_reachable W'"
    using reachable_from.step [OF assms(1), of "RequestDestroyed r" W'] assms(2) W'(1) by simp
  ultimately show ?thesis using W'(1) by (auto simp: destroy_request_eq [OF assms(2)])
qed

theorem completion_callbacks_run_once_witness:
  "\<exists>W'. destroy_OverlayRequestImpl 100 demo_callbacks = Inr W' \<and> callback_log W' = [RanCompletion 7 100 None]"
proof -
  have "case live_requests demo_callbacks 100 of None \<Rightarrow> False | Some q \<Rightarrow>
    client_completions (manager_completions (request_manager q)) = [7] \<and> Option.is_none (completion_response (request_manager q))"
    by code_simp
  then obtain q where "live_requests demo_callbacks 100 = Some q"
    "client_completions (manager_completions (request_manager q)) = [7]" "completion_response (request_manager q) = None"
    by (auto split: option.splits simp: Option.is_none_def)
  moreover have "callback_log demo_callbacks = []"
  proof -
    have "case callback_log demo_callbacks of [] \<Rightarrow> True | _ \<Rightarrow> False" by code_simp
    then show ?thesis by (cases "callback_log demo_callbacks") auto
  qed
  ultimately show ?thesis using completion_callbacks_run_once [OF demo_callbacks_reachable] by fastforce
qed

end
