(* ===== verification/Notification_Promo.thy ===== *)
theory Notification_Promo
  imports Prelude Complex_Main
begin

text \<open>
  \<^verbatim>\<open>chrome/browser/notification_promo.cc\<close>: the promotion shown on the new tab page.  Its description
  comes from the parameters of an experiment; how often it has been seen and whether the user has
  closed it is kept in the local preferences, per promotion.

  A dictionary is a map from keys to values.  Conversions between numbers, strings and times belong
  to the \<^verbatim>\<open>base\<close> library: they are the fields of \<open>promo_base\<close>.  The clock is an argument.  A
  \<^verbatim>\<open>double\<close> is a rational number and an \<^verbatim>\<open>int\<close> an integer whose overflow is a failure.
\<close>

section \<open>Data\<close>

datatype promo_value =
    IntValue int
  | DoubleValue rat
  | BoolValue bool
  | StringValue string
  | DictValue "string \<rightharpoonup> promo_value"

type_synonym dict = "string \<rightharpoonup> promo_value"

text \<open>Times are counted in microseconds, as in \<^verbatim>\<open>base::Time\<close>.\<close>

record promo_base =
  StringToInt :: "string \<Rightarrow> int option"
  NumberToString :: "int \<Rightarrow> string"
  TimeFromString :: "string \<Rightarrow> int option"
  FromDoubleT :: "rat \<Rightarrow> int"
  ToDoubleT :: "int \<Rightarrow> rat"
  Seconds :: "int \<Rightarrow> int"

definition kPrefPromoObject :: string where "kPrefPromoObject = ''ios.ntppromo''"
definition kPrefPromoFirstViewTime :: string where "kPrefPromoFirstViewTime = ''first_view_time''"
definition kPrefPromoViews :: string where "kPrefPromoViews = ''views''"
definition kPrefPromoClosed :: string where "kPrefPromoClosed = ''closed''"

text \<open>The registered dictionary preferences with their values.\<close>

type_synonym pref_service = "string \<rightharpoonup> dict"

record promo =
  local_state :: pref_service
  promo_text :: string
  promo_payload :: dict
  promo_start :: rat
  promo_end :: rat
  promo_id :: int
  max_views :: int
  max_seconds :: int
  first_view_time :: rat
  promo_views :: int
  promo_closed :: bool

definition NotificationPromo :: "pref_service \<Rightarrow> promo" where
  "NotificationPromo ls = \<lparr>local_state = ls, promo_text = [], promo_payload = Map.empty,
     promo_start = 0, promo_end = 0, promo_id = -1, max_views = 0, max_seconds = 0,
     first_view_time = 0, promo_views = 0, promo_closed = False\<rparr>"

section \<open>Typed lookups in a dictionary\<close>

fun FindStringKey :: "string \<Rightarrow> dict \<Rightarrow> string option" where
  "FindStringKey k d = (case d k of Some (StringValue s) \<Rightarrow> Some s | _ \<Rightarrow> None)"

fun FindIntKey :: "string \<Rightarrow> dict \<Rightarrow> int option" where
  "FindIntKey k d = (case d k of Some (IntValue i) \<Rightarrow> Some i | _ \<Rightarrow> None)"

fun FindBoolPath :: "string \<Rightarrow> dict \<Rightarrow> bool option" where
  "FindBoolPath k d = (case d k of Some (BoolValue b) \<Rightarrow> Some b | _ \<Rightarrow> None)"

text \<open>An integer is found as a double too.\<close>

fun FindDoubleKey :: "string \<Rightarrow> dict \<Rightarrow> rat option" where
  "FindDoubleKey k d = (case d k of Some (DoubleValue x) \<Rightarrow> Some x | Some (IntValue i) \<Rightarrow> Some (of_int i) | _ \<Rightarrow> None)"

fun FindDictKey :: "string \<Rightarrow> dict \<Rightarrow> dict option" where
  "FindDictKey k d = (case d k of Some (DictValue x) \<Rightarrow> Some x | _ \<Rightarrow> None)"

definition value_or :: "'a option \<Rightarrow> 'a \<Rightarrow> 'a" where
  "value_or x y = (case x of None \<Rightarrow> y | Some z \<Rightarrow> z)"

section \<open>Initialization\<close>

definition IsPayloadParam :: "string \<Rightarrow> bool" where
  "IsPayloadParam param_name \<longleftrightarrow> param_name \<noteq> ''start'' \<and> param_name \<noteq> ''end'' \<and>
     param_name \<noteq> ''promo_text'' \<and> param_name \<noteq> ''max_views'' \<and>
     param_name \<noteq> ''max_seconds'' \<and> param_name \<noteq> ''promo_id''"

definition time_of_key :: "promo_base \<Rightarrow> string \<Rightarrow> dict \<Rightarrow> rat \<Rightarrow> rat" where
  "time_of_key B k json old = (case FindStringKey k json of
       None \<Rightarrow> old
     | Some str \<Rightarrow> (case TimeFromString B str of None \<Rightarrow> old | Some time \<Rightarrow> ToDoubleT B time))"

definition InitFromJson :: "promo_base \<Rightarrow> dict \<Rightarrow> promo \<Rightarrow> promo" where
  "InitFromJson B json P = P\<lparr>
     promo_start := time_of_key B ''start'' json (promo_start P),
     promo_end := time_of_key B ''end'' json (promo_end P),
     promo_text := value_or (FindStringKey ''promo_text'' json) (promo_text P),
     promo_payload := value_or (FindDictKey ''payload'' json) (promo_payload P),
     max_views := value_or (FindIntKey ''max_views'' json) (max_views P),
     max_seconds := value_or (FindIntKey ''max_seconds'' json) (max_seconds P),
     promo_id := value_or (FindIntKey ''promo_id'' json) (promo_id P)\<rparr>"

text \<open>The parameters of the experiment, in the order of their names, or \<open>None\<close> if it does not run.\<close>

definition converted_param :: "promo_base \<Rightarrow> string \<Rightarrow> promo_value" where
  "converted_param B s = (case StringToInt B s of Some i \<Rightarrow> IntValue i | None \<Rightarrow> StringValue s)"

fun sort_params :: "promo_base \<Rightarrow> (string \<times> string) list \<Rightarrow> dict \<times> dict \<Rightarrow> dict \<times> dict" where
  "sort_params B [] (json, payload) = (json, payload)"
| "sort_params B ((k, s) # params) (json, payload) =
     sort_params B params
       (if IsPayloadParam k then (json, payload(k \<mapsto> converted_param B s))
        else (json(k \<mapsto> converted_param B s), payload))"

definition InitFromVariations :: "promo_base \<Rightarrow> (string \<times> string) list option \<Rightarrow> promo \<Rightarrow> promo" where
  "InitFromVariations B params P = (case params of
       None \<Rightarrow> P
     | Some params \<Rightarrow> (case sort_params B params (Map.empty, Map.empty) of (json, payload) \<Rightarrow>
         InitFromJson B (json(''payload'' \<mapsto> DictValue payload)) P))"

section \<open>Preferences\<close>

definition RegisterPrefs :: "pref_service \<Rightarrow> pref_service" where
  "RegisterPrefs registry = registry(kPrefPromoObject \<mapsto> value_or (registry kPrefPromoObject) Map.empty)"

definition RegisterProfilePrefs :: "pref_service \<Rightarrow> pref_service" where
  "RegisterProfilePrefs registry = registry(kPrefPromoObject \<mapsto> value_or (registry kPrefPromoObject) Map.empty)"

definition MigrateUserPrefs :: "pref_service \<Rightarrow> pref_service" where
  "MigrateUserPrefs user_prefs = user_prefs(kPrefPromoObject \<mapsto> Map.empty)"

text \<open>
  \<^verbatim>\<open>MergeDictionary\<close> into an empty dictionary makes a copy; a preference that is not registered
  has no dictionary to merge.
\<close>

definition WritePrefsOf :: "promo_base \<Rightarrow> int \<Rightarrow> rat \<Rightarrow> int \<Rightarrow> bool \<Rightarrow> promo \<Rightarrow> promo res" where
  "WritePrefsOf B pid time n c P =
     (let ntp_promo = [kPrefPromoFirstViewTime \<mapsto> DoubleValue time, kPrefPromoViews \<mapsto> IntValue n,
                       kPrefPromoClosed \<mapsto> BoolValue c]
      in case local_state P kPrefPromoObject of
           None \<Rightarrow> Inl (DanglingPointer ''GetDictionary'')
         | Some promo_dict \<Rightarrow> Inr (P\<lparr>local_state := (local_state P)(kPrefPromoObject \<mapsto>
             promo_dict(NumberToString B pid \<mapsto> DictValue ntp_promo))\<rparr>))"

definition WritePrefs :: "promo_base \<Rightarrow> promo \<Rightarrow> promo res" where
  "WritePrefs B P = WritePrefsOf B (promo_id P) (first_view_time P) (promo_views P) (promo_closed P) P"

definition InitFromPrefs :: "promo_base \<Rightarrow> promo \<Rightarrow> promo" where
  "InitFromPrefs B P =
     (if promo_id P = -1 then P
      else case local_state P kPrefPromoObject of
        None \<Rightarrow> P
      | Some promo_dict \<Rightarrow> (case FindDictKey (NumberToString B (promo_id P)) promo_dict of
          None \<Rightarrow> P
        | Some ntp_promo \<Rightarrow> P\<lparr>
            first_view_time := value_or (FindDoubleKey kPrefPromoFirstViewTime ntp_promo) (first_view_time P),
            promo_views := value_or (FindIntKey kPrefPromoViews ntp_promo) (promo_views P),
            promo_closed := value_or (FindBoolPath kPrefPromoClosed ntp_promo) (promo_closed P)\<rparr>))"

section \<open>Showing the promotion\<close>

definition ExceedsMaxViews :: "promo \<Rightarrow> bool" where
  "ExceedsMaxViews P = (if max_views P = 0 then False else max_views P \<le> promo_views P)"

definition ExceedsMaxSeconds :: "promo_base \<Rightarrow> int \<Rightarrow> promo \<Rightarrow> bool" where
  "ExceedsMaxSeconds B now P =
     (if max_seconds P = 0 \<or> first_view_time P = 0 then False
      else FromDoubleT B (first_view_time P) + Seconds B (max_seconds P) < now)"

definition CanShow :: "promo_base \<Rightarrow> int \<Rightarrow> promo \<Rightarrow> bool" where
  "CanShow B now P \<longleftrightarrow> \<not> promo_closed P \<and> promo_text P \<noteq> [] \<and> \<not> ExceedsMaxViews P \<and>
     \<not> ExceedsMaxSeconds B now P \<and> FromDoubleT B (promo_start P) < now \<and> now < FromDoubleT B (promo_end P)"

definition HandleClosed :: "promo_base \<Rightarrow> promo \<Rightarrow> promo res" where
  "HandleClosed B P =
     (if \<not> promo_closed P then WritePrefsOf B (promo_id P) (first_view_time P) (promo_views P) True P else Inr P)"

definition kIntMax :: int where "kIntMax = 2 ^ 31 - 1"

definition HandleViewed :: "promo_base \<Rightarrow> int \<Rightarrow> promo \<Rightarrow> promo res" where
  "HandleViewed B now P =
     ccheck (promo_views P < kIntMax) ''signed overflow''
       (let n = promo_views P + 1;
            t = if first_view_time P = 0 then ToDoubleT B now else first_view_time P
        in WritePrefsOf B (promo_id P) t n (promo_closed P) P)"

section \<open>Sessions\<close>

text \<open>
  A new tab page makes a new object from the same parameters, reads the preferences and reports
  that the promotion has been seen.
\<close>

definition fresh_promo :: "promo_base \<Rightarrow> (string \<times> string) list \<Rightarrow> pref_service \<Rightarrow> promo" where
  "fresh_promo B params ls = InitFromPrefs B (InitFromVariations B (Some params) (NotificationPromo ls))"

fun promo_sessions :: "promo_base \<Rightarrow> (string \<times> string) list \<Rightarrow> int list \<Rightarrow> pref_service \<Rightarrow> pref_service res" where
  "promo_sessions B params [] ls = Inr ls"
| "promo_sessions B params (now # nows) ls =
     rbind (HandleViewed B now (fresh_promo B params ls)) (\<lambda>P. promo_sessions B params nows (local_state P))"

text \<open>What is stored for a promotion: time of the first view, views, closed.\<close>

definition stored_promo :: "promo_base \<Rightarrow> int \<Rightarrow> pref_service \<Rightarrow> (rat \<times> int \<times> bool) option" where
  "stored_promo B pid ls = (case ls kPrefPromoObject of None \<Rightarrow> None
     | Some d \<Rightarrow> (case FindDictKey (NumberToString B pid) d of None \<Rightarrow> None
       | Some e \<Rightarrow> (case (FindDoubleKey kPrefPromoFirstViewTime e, FindIntKey kPrefPromoViews e, FindBoolPath kPrefPromoClosed e) of
           (Some t, Some n, Some c) \<Rightarrow> Some (t, n, c) | _ \<Rightarrow> None)))"

lemma variations_local_state:
  "InitFromVariations B params (P\<lparr>local_state := ls\<rparr>) = (InitFromVariations B params P)\<lparr>local_state := ls\<rparr>"
  by (simp add: InitFromVariations_def InitFromJson_def split: option.splits prod.splits)

lemma init_from_prefs_stored:
  assumes "promo_id P \<noteq> -1" "stored_promo B (promo_id P) (local_state P) = Some (t, n, c)"
  shows "InitFromPrefs B P = P\<lparr>first_view_time := t, promo_views := n, promo_closed := c\<rparr>"
  using assms by (auto simp: stored_promo_def InitFromPrefs_def value_or_def split: option.splits
    simp del: FindDictKey.simps FindDoubleKey.simps FindIntKey.simps FindBoolPath.simps)

lemma init_from_prefs_absent:
  assumes "local_state P kPrefPromoObject = Some d" "d (NumberToString B (promo_id P)) = None"
  shows "InitFromPrefs B P = P"
  using assms by (simp add: InitFromPrefs_def)

lemmas pref_keys = kPrefPromoFirstViewTime_def kPrefPromoViews_def kPrefPromoClosed_def

lemma write_prefs_of:
  assumes "local_state P kPrefPromoObject = Some d"
  obtains P' d' where "WritePrefsOf B pid t n c P = Inr P'" "P' = P\<lparr>local_state := local_state P'\<rparr>"
    "local_state P' kPrefPromoObject = Some d'" "stored_promo B pid (local_state P') = Some (t, n, c)"
    "\<And>k. k \<noteq> NumberToString B pid \<Longrightarrow> d' k = d k"
  using assms that
  by (simp add: WritePrefsOf_def Let_def stored_promo_def pref_keys)

text \<open>The promotion has been seen \<open>n\<close> times and not been closed.\<close>

definition seen :: "promo_base \<Rightarrow> int \<Rightarrow> int \<Rightarrow> pref_service \<Rightarrow> bool" where
  "seen B pid n ls \<longleftrightarrow> (\<exists>d. ls kPrefPromoObject = Some d \<and>
     (n = 0 \<and> d (NumberToString B pid) = None \<or> (\<exists>t. stored_promo B pid ls = Some (t, n, False))))"

definition described :: "promo_base \<Rightarrow> (string \<times> string) list \<Rightarrow> promo" where
  "described B params = InitFromVariations B (Some params) (NotificationPromo Map.empty)"

lemma fresh_promo_eq: "fresh_promo B params ls = InitFromPrefs B ((described B params)\<lparr>local_state := ls\<rparr>)"
proof -
  have "NotificationPromo ls = (NotificationPromo Map.empty)\<lparr>local_state := ls\<rparr>" by (simp add: NotificationPromo_def)
  then show ?thesis by (simp add: fresh_promo_def described_def variations_local_state)
qed

lemma described_counters: "promo_views (described B params) = 0" "\<not> promo_closed (described B params)"
  by (simp_all add: described_def InitFromVariations_def InitFromJson_def NotificationPromo_def split: prod.splits)

lemma fresh_promo_fields [simp]:
  "local_state (fresh_promo B params ls) = ls" "promo_id (fresh_promo B params ls) = promo_id (described B params)"
  "max_views (fresh_promo B params ls) = max_views (described B params)"
  by (simp_all add: fresh_promo_eq InitFromPrefs_def split: option.splits)

lemma seen_fresh:
  assumes "seen B (promo_id (described B params)) n ls" "promo_id (described B params) \<noteq> -1"
  shows "promo_views (fresh_promo B params ls) = n" "\<not> promo_closed (fresh_promo B params ls)"
proof -
  let ?P = "(described B params)\<lparr>local_state := ls\<rparr>"
  consider d where "ls kPrefPromoObject = Some d" "n = 0" "d (NumberToString B (promo_id ?P)) = None"
    | t where "stored_promo B (promo_id ?P) (local_state ?P) = Some (t, n, False)"
    using assms(1) by (auto simp: seen_def)
  then have "promo_views (InitFromPrefs B ?P) = n \<and> \<not> promo_closed (InitFromPrefs B ?P)"
  proof cases
    case 1
    then show ?thesis using init_from_prefs_absent [of ?P d B] described_counters by simp
  next
    case 2
    then show ?thesis using init_from_prefs_stored [OF _ 2] assms(2) by simp
  qed
  then show "promo_views (fresh_promo B params ls) = n" "\<not> promo_closed (fresh_promo B params ls)"
    by (simp_all add: fresh_promo_eq)
qed

lemma handle_viewed:
  assumes "local_state P kPrefPromoObject = Some d" "promo_views P < kIntMax"
  obtains P' d' t where "HandleViewed B now P = Inr P'" "local_state P' kPrefPromoObject = Some d'"
    "stored_promo B (promo_id P) (local_state P') = Some (t, promo_views P + 1, promo_closed P)"
proof -
  let ?t = "if first_view_time P = 0 then ToDoubleT B now else first_view_time P"
  obtain P' d' where "WritePrefsOf B (promo_id P) ?t (promo_views P + 1) (promo_closed P) P = Inr P'"
    "local_state P' kPrefPromoObject = Some d'"
    "stored_promo B (promo_id P) (local_state P') = Some (?t, promo_views P + 1, promo_closed P)"
    by (rule write_prefs_of [OF assms(1)]) blast
  then show ?thesis using assms(2) that [of P' d' ?t] by (simp add: HandleViewed_def Let_def)
qed

lemma promo_sessions_seen:
  assumes "seen B (promo_id (described B params)) n ls" "promo_id (described B params) \<noteq> -1"
    "n + int (length nows) \<le> kIntMax"
  shows "\<exists>ls'. promo_sessions B params nows ls = Inr ls' \<and>
    seen B (promo_id (described B params)) (n + int (length nows)) ls'"
  using assms
proof (induction nows arbitrary: n ls)
  case (Cons now nows)
  note P = seen_fresh [OF Cons.prems(1,2)]
  obtain d where "local_state (fresh_promo B params ls) kPrefPromoObject = Some d"
    using Cons.prems(1) by (auto simp: seen_def)
  then obtain P' d' t where P': "HandleViewed B now (fresh_promo B params ls) = Inr P'"
    "local_state P' kPrefPromoObject = Some d'"
    "stored_promo B (promo_id (described B params)) (local_state P') = Some (t, n + 1, False)"
    using handle_viewed [of "fresh_promo B params ls" d B now] P Cons.prems(3) by auto
  then have "seen B (promo_id (described B params)) (n + 1) (local_state P')" by (auto simp: seen_def)
  from Cons.IH [OF this Cons.prems(2)] Cons.prems(3) P'(1) show ?case by (simp add: add.assoc add.left_commute)
qed simp

section \<open>Properties\<close>

definition demo_promo_base :: promo_base where
  "demo_promo_base = \<lparr>StringToInt = (\<lambda>s. if s = ''1'' then Some 1 else if s = ''2'' then Some 2 else None),
     NumberToString = (\<lambda>n. if n < 0 then CHR ''-'' # replicate (nat (- n)) CHR ''i'' else CHR ''+'' # replicate (nat n) CHR ''i''), TimeFromString = (\<lambda>s. if s = ''now'' then Some 5000000 else None),
     FromDoubleT = (\<lambda>x. floor (x * 1000000)), ToDoubleT = (\<lambda>n. of_int n / 1000000), Seconds = (\<lambda>n. n * 1000000)\<rparr>"

definition demo_params :: "(string \<times> string) list" where
  "demo_params = [(''max_views'', ''2''), (''promo_id'', ''1''), (''promo_text'', ''try it'')]"

text \<open>
  The limit on views holds across new tab pages: after any number of sessions the
  count read back is the number of sessions, and once it has reached the limit the promotion is not
  shown any more, at whatever time.
\<close>

theorem promo_views_capped:
  assumes "promo_id (described B params) \<noteq> -1" "0 < max_views (described B params)"
    "ls kPrefPromoObject = Some d" "d (NumberToString B (promo_id (described B params))) = None"
    "int (length nows) \<le> kIntMax"
  shows "\<exists>ls'. promo_sessions B params nows ls = Inr ls' \<and>
    promo_views (fresh_promo B params ls') = int (length nows) \<and> \<not> promo_closed (fresh_promo B params ls') \<and>
    (max_views (described B params) \<le> int (length nows) \<longrightarrow> \<not> CanShow B now (fresh_promo B params ls'))"
proof -
  have "seen B (promo_id (described B params)) 0 ls" using assms(3,4) by (auto simp: seen_def)
  from promo_sessions_seen [OF this assms(1)] assms(5) obtain ls' where
    ls': "promo_sessions B params nows ls = Inr ls'" "seen B (promo_id (described B params)) (int (length nows)) ls'" by auto
  then show ?thesis using seen_fresh [OF ls'(2) assms(1)] assms(2) by (auto simp: CanShow_def ExceedsMaxViews_def)
qed

theorem promo_views_capped_witness:
  "\<exists>ls'. promo_sessions demo_promo_base demo_params [6000000, 7000000] (RegisterPrefs Map.empty) = Inr ls' \<and>
     \<not> CanShow demo_promo_base 8000000 (fresh_promo demo_promo_base demo_params ls')"
proof -
  have d: "promo_id (described demo_promo_base demo_params) = 1" "max_views (described demo_promo_base demo_params) = 2"
    by (simp_all add: described_def demo_promo_base_def demo_params_def InitFromVariations_def InitFromJson_def
      converted_param_def IsPayloadParam_def value_or_def)
  show ?thesis
    using promo_views_capped [of demo_promo_base demo_params "RegisterPrefs Map.empty" Map.empty "[6000000, 7000000]" 8000000]
    by (auto simp: d RegisterPrefs_def value_or_def kIntMax_def)
qed

text \<open>
  What one object writes another one reads: a promotion with the same number gets
  exactly the stored time, count and state, and one with a different number reads what it would have
  read before.
\<close>

lemma promo_prefs_round_trip:
  assumes "inj (NumberToString B)" "promo_id P \<noteq> -1" "local_state P kPrefPromoObject = Some d"
  shows "\<exists>P'. WritePrefs B P = Inr P' \<and> P' = P\<lparr>local_state := local_state P'\<rparr> \<and>
    InitFromPrefs B (Q\<lparr>promo_id := promo_id P, local_state := local_state P'\<rparr>) =
      Q\<lparr>promo_id := promo_id P, local_state := local_state P', first_view_time := first_view_time P,
        promo_views := promo_views P, promo_closed := promo_closed P\<rparr> \<and>
    (promo_id Q \<noteq> promo_id P \<longrightarrow> InitFromPrefs B (Q\<lparr>local_state := local_state P'\<rparr>) =
      (InitFromPrefs B (Q\<lparr>local_state := local_state P\<rparr>))\<lparr>local_state := local_state P'\<rparr>)"
proof -
  obtain P' d' where P': "WritePrefs B P = Inr P'" "P' = P\<lparr>local_state := local_state P'\<rparr>"
    "local_state P' kPrefPromoObject = Some d'"
    "stored_promo B (promo_id P) (local_state P') = Some (first_view_time P, promo_views P, promo_closed P)"
    "\<And>k. k \<noteq> NumberToString B (promo_id P) \<Longrightarrow> d' k = d k"
    unfolding WritePrefs_def by (rule write_prefs_of [OF assms(3)]) blast
  have "InitFromPrefs B (Q\<lparr>promo_id := promo_id P, local_state := local_state P'\<rparr>) =
      Q\<lparr>promo_id := promo_id P, local_state := local_state P', first_view_time := first_view_time P,
        promo_views := promo_views P, promo_closed := promo_closed P\<rparr>"
    using init_from_prefs_stored [of "Q\<lparr>promo_id := promo_id P, local_state := local_state P'\<rparr>" B] P'(4) assms(2) by simp
  moreover have "d' (NumberToString B (promo_id Q)) = d (NumberToString B (promo_id Q))" if "promo_id Q \<noteq> promo_id P"
    using P'(5) that assms(1) by (simp add: inj_eq)
  then have "InitFromPrefs B (Q\<lparr>local_state := local_state P'\<rparr>) =
      (InitFromPrefs B (Q\<lparr>local_state := local_state P\<rparr>))\<lparr>local_state := local_state P'\<rparr>" if "promo_id Q \<noteq> promo_id P"
    using that P'(3) assms(3) by (auto simp: InitFromPrefs_def split: option.splits)
  ultimately show ?thesis using P'(1,2) by blast
qed

lemma promo_prefs_round_trip_example:
  "\<exists>P'. WritePrefs demo_promo_base ((NotificationPromo (RegisterPrefs Map.empty))\<lparr>promo_id := 1, promo_views := 3\<rparr>) = Inr P' \<and>
     promo_views (InitFromPrefs demo_promo_base ((NotificationPromo (local_state P'))\<lparr>promo_id := 1\<rparr>)) = 3"
proof -
  let ?P = "(NotificationPromo (RegisterPrefs Map.empty))\<lparr>promo_id := 1, promo_views := 3\<rparr>"
  have "inj (NumberToString demo_promo_base)"
    by (rule injI) (auto simp: demo_promo_base_def replicate_eq_replicate Cons_replicate_eq split: if_splits)
  moreover have "promo_id ?P \<noteq> -1" "local_state ?P kPrefPromoObject = Some Map.empty"
    by (simp_all add: NotificationPromo_def RegisterPrefs_def value_or_def)
  ultimately obtain P' where P': "WritePrefs demo_promo_base ?P = Inr P'"
    "InitFromPrefs demo_promo_base ((NotificationPromo Map.empty)\<lparr>promo_id := promo_id ?P, local_state := local_state P'\<rparr>) =
      (NotificationPromo Map.empty)\<lparr>promo_id := promo_id ?P, local_state := local_state P', first_view_time := first_view_time ?P,
        promo_views := promo_views ?P, promo_closed := promo_closed ?P\<rparr>"
    using promo_prefs_round_trip [of demo_promo_base ?P Map.empty "NotificationPromo Map.empty"] by blast
  moreover have "(NotificationPromo (local_state P'))\<lparr>promo_id := 1\<rparr> =
    (NotificationPromo Map.empty)\<lparr>promo_id := promo_id ?P, local_state := local_state P'\<rparr>"
    by (simp add: NotificationPromo_def)
  ultimately show ?thesis by simp
qed

text \<open>
  Closing and viewing write the preferences but leave the object as it is.  Hence a
  closed promotion is still shown by the object that was told of it, and when the same object then
  reports a view, the promotion counts as not closed again.
\<close>

theorem promo_view_reopens:
  assumes "promo_id P \<noteq> -1" "local_state P kPrefPromoObject = Some d" "\<not> promo_closed P" "promo_views P < kIntMax"
  shows "\<exists>P1 P2. HandleClosed B P = Inr P1 \<and> promo_closed (InitFromPrefs B P1) \<and>
    CanShow B now P1 = CanShow B now P \<and> HandleViewed B now P1 = Inr P2 \<and> \<not> promo_closed (InitFromPrefs B P2)"
proof -
  obtain P1 d1 where P1: "HandleClosed B P = Inr P1" "P1 = P\<lparr>local_state := local_state P1\<rparr>"
    "local_state P1 kPrefPromoObject = Some d1"
    "stored_promo B (promo_id P) (local_state P1) = Some (first_view_time P, promo_views P, True)"
    using write_prefs_of [OF assms(2)] assms(3) by (metis HandleClosed_def)
  have same: "promo_id P1 = promo_id P" "promo_views P1 = promo_views P" "promo_closed P1 = promo_closed P"
    "CanShow B now P1 = CanShow B now P"
    by (subst P1(2), simp add: CanShow_def ExceedsMaxViews_def ExceedsMaxSeconds_def)+
  obtain P2 d2 t where P2: "HandleViewed B now P1 = Inr P2"
    "stored_promo B (promo_id P) (local_state P2) = Some (t, promo_views P + 1, False)"
    using handle_viewed [OF P1(3), of B now] assms(3,4) same by metis
  have "promo_id P2 = promo_id P"
    using P2(1) same by (auto simp: HandleViewed_def WritePrefsOf_def Let_def res_simps split: option.splits)
  then show ?thesis
    using P1(1) P2(1) same assms(1) init_from_prefs_stored [of P1 B] init_from_prefs_stored [of P2 B] P1(4) P2(2) by simp
qed

theorem promo_view_reopens_witness:
  "\<exists>P1 P2. HandleClosed demo_promo_base (fresh_promo demo_promo_base demo_params (RegisterPrefs Map.empty)) = Inr P1 \<and>
     promo_closed (InitFromPrefs demo_promo_base P1) \<and> HandleViewed demo_promo_base 6000000 P1 = Inr P2 \<and>
     \<not> promo_closed (InitFromPrefs demo_promo_base P2)"
proof -
  let ?P = "fresh_promo demo_promo_base demo_params (RegisterPrefs Map.empty)"
  have "promo_id (described demo_promo_base demo_params) = 1"
    by (simp add: described_def demo_promo_base_def demo_params_def InitFromVariations_def InitFromJson_def
      converted_param_def IsPayloadParam_def value_or_def)
  moreover have "local_state ?P kPrefPromoObject = Some Map.empty" by (simp add: RegisterPrefs_def value_or_def)
  moreover have "seen demo_promo_base 1 0 (RegisterPrefs Map.empty)" by (simp add: seen_def RegisterPrefs_def value_or_def)
  ultimately show ?thesis
    using promo_view_reopens [of ?P Map.empty demo_promo_base 6000000] seen_fresh [of demo_promo_base demo_params 0 "RegisterPrefs Map.empty"]
    by (auto simp: kIntMax_def)
qed

end
