(* ===== verification/Cookie_Cache.thy ===== *)
theory Cookie_Cache
  imports Prelude "HOL-Library.List_Lexorder" "HOL-Library.Char_ord" "HOL-Library.Product_Lexorder"
begin

text \<open>
  \<^verbatim>\<open>net/cookies/cookie_cache.cc\<close>: for every URL and cookie name the cookies that would be sent, and
  the difference a new set of cookies makes.  The sets are \<^verbatim>\<open>std::set\<close>s ordered without the value
  of the cookie; the differences are computed by \<^verbatim>\<open>std::set_difference\<close> with a comparator that
  includes the value.

  A \<^verbatim>\<open>std::set\<close> is the list of its elements in iteration order.  \<open>cookie_attributes\<close> stands for
  everything else that belongs to a cookie (times, flags).
\<close>

section \<open>Data\<close>

record 'a cookie =
  cookie_domain :: string
  cookie_path :: string
  cookie_name :: string
  cookie_value :: string
  cookie_attributes :: 'a

type_synonym 'a cookie_set = "'a cookie list"

type_synonym ('u, 'a) cookie_cache = "('u \<times> string) \<rightharpoonup> 'a cookie_set"

definition CookieComparator :: "'a cookie \<Rightarrow> 'a cookie \<Rightarrow> bool" where
  "CookieComparator lhs rhs =
     (if cookie_domain lhs \<noteq> cookie_domain rhs then cookie_domain lhs < cookie_domain rhs
      else if cookie_path lhs \<noteq> cookie_path rhs then cookie_path lhs < cookie_path rhs
      else if cookie_name lhs \<noteq> cookie_name rhs then cookie_name lhs < cookie_name rhs
      else False)"

definition CookieAndValueComparator :: "'a cookie \<Rightarrow> 'a cookie \<Rightarrow> bool" where
  "CookieAndValueComparator lhs rhs =
     (if cookie_domain lhs \<noteq> cookie_domain rhs then cookie_domain lhs < cookie_domain rhs
      else if cookie_path lhs \<noteq> cookie_path rhs then cookie_path lhs < cookie_path rhs
      else if cookie_name lhs \<noteq> cookie_name rhs then cookie_name lhs < cookie_name rhs
      else if cookie_value lhs \<noteq> cookie_value rhs then cookie_value lhs < cookie_value rhs
      else False)"

section \<open>The standard library\<close>

text \<open>\<^verbatim>\<open>std::set::insert\<close> does nothing if an equivalent element is present.\<close>

fun set_insert :: "('c \<Rightarrow> 'c \<Rightarrow> bool) \<Rightarrow> 'c \<Rightarrow> 'c list \<Rightarrow> 'c list" where
  "set_insert cmp c [] = [c]"
| "set_insert cmp c (d # ds) =
     (if cmp c d then c # d # ds
      else if cmp d c then d # set_insert cmp c ds
      else d # ds)"

definition set_of_range :: "('c \<Rightarrow> 'c \<Rightarrow> bool) \<Rightarrow> 'c list \<Rightarrow> 'c list" where
  "set_of_range cmp cs = fold (set_insert cmp) cs []"

fun set_difference :: "('c \<Rightarrow> 'c \<Rightarrow> bool) \<Rightarrow> 'c list \<Rightarrow> 'c list \<Rightarrow> 'c list" where
  "set_difference cmp [] ys = []"
| "set_difference cmp (x # xs) [] = x # xs"
| "set_difference cmp (x # xs) (y # ys) =
     (if cmp x y then x # set_difference cmp xs (y # ys)
      else if cmp y x then set_difference cmp (x # xs) ys
      else set_difference cmp xs ys)"

section \<open>The cache\<close>

definition CookieSet :: "'a cookie list \<Rightarrow> 'a cookie_set" where
  "CookieSet cookies = set_of_range CookieComparator cookies"

text \<open>
  The vectors for the changes are \<open>None\<close> if the pointer is null.  The operator \<^verbatim>\<open>[]\<close> of
  \<^verbatim>\<open>std::map\<close> adds an empty set for a new key.
\<close>

record ('u, 'a) update_result =
  changed :: bool
  updated_cache :: "('u, 'a) cookie_cache"
  removed_out :: "'a cookie list option"
  added_out :: "'a cookie list option"

definition Update :: "'u \<Rightarrow> string \<Rightarrow> 'a cookie list \<Rightarrow> 'a cookie list option \<Rightarrow> 'a cookie list option \<Rightarrow>
    ('u, 'a) cookie_cache \<Rightarrow> ('u, 'a) update_result" where
  "Update url name new_cookies out_removed out_added cache =
     (let key = (url, name);
          cache = (case cache key of None \<Rightarrow> cache(key \<mapsto> []) | Some _ \<Rightarrow> cache);
          old_set = the (cache key);
          new_set = CookieSet new_cookies;
          added_cookies = CookieSet (set_difference CookieAndValueComparator new_set old_set);
          removed_cookies = CookieSet (set_difference CookieAndValueComparator old_set new_set)
      in if added_cookies = [] \<and> removed_cookies = []
         then \<lparr>changed = False, updated_cache = cache, removed_out = out_removed, added_out = out_added\<rparr>
         else \<lparr>changed = True, updated_cache = cache(key \<mapsto> new_set),
                removed_out = map_option (\<lambda>v. v @ removed_cookies) out_removed,
                added_out = map_option (\<lambda>v. v @ added_cookies) out_added\<rparr>)"

section \<open>The comparators order by tuples\<close>

definition cookie_key :: "'a cookie \<Rightarrow> string \<times> string \<times> string" where
  "cookie_key c = (cookie_domain c, cookie_path c, cookie_name c)"

definition cookie_and_value :: "'a cookie \<Rightarrow> (string \<times> string \<times> string) \<times> string" where
  "cookie_and_value c = (cookie_key c, cookie_value c)"

lemma CookieComparator_less: "CookieComparator = (\<lambda>c d. cookie_key c < cookie_key d)"
  by (intro ext) (auto simp: CookieComparator_def cookie_key_def less_prod_def)

lemma CookieAndValueComparator_less: "CookieAndValueComparator = (\<lambda>c d. cookie_and_value c < cookie_and_value d)"
  by (intro ext) (auto simp: CookieAndValueComparator_def cookie_and_value_def cookie_key_def less_prod_def)

lemma set_insert_set:
  fixes f :: "'c \<Rightarrow> 'k::linorder"
  shows "sorted_wrt (<) (map f ds) \<Longrightarrow>
    sorted_wrt (<) (map f (set_insert (\<lambda>x y. f x < f y) c ds)) \<and>
    set (set_insert (\<lambda>x y. f x < f y) c ds) = (if f c \<in> f ` set ds then set ds else insert c (set ds))"
proof (induction ds)
  case (Cons d ds)
  then have IH: "sorted_wrt (<) (map f (set_insert (\<lambda>x y. f x < f y) c ds))"
    "set (set_insert (\<lambda>x y. f x < f y) c ds) = (if f c \<in> f ` set ds then set ds else insert c (set ds))"
    by simp_all
  consider "f c < f d" | "f d < f c" | "f c = f d" using less_linear by blast
  then show ?case
  proof cases
    case 1
    then have "f c \<notin> f ` set (d # ds)" using Cons.prems by auto
    then show ?thesis using 1 Cons.prems by (auto intro: less_trans)
  next
    case 2
    then show ?thesis using IH Cons.prems by (auto split: if_splits)
  qed (use Cons.prems in auto)
qed simp

lemma set_difference_filter:
  fixes f :: "'c \<Rightarrow> 'k::linorder"
  assumes "sorted_wrt (<) (map f xs)" "sorted_wrt (<) (map f ys)"
  shows "set_difference (\<lambda>x y. f x < f y) xs ys = filter (\<lambda>x. f x \<notin> f ` set ys) xs"
  using assms
proof (induction "\<lambda>x y. f x < f y" xs ys rule: set_difference.induct)
  case (3 x xs y ys)
  have tail: "filter (\<lambda>z. f z \<notin> f ` set (y # ys)) xs = filter (\<lambda>z. f z \<notin> f ` set ys) xs" if "f y < f x \<or> f x = f y"
    using "3.prems"(1) that by (intro filter_cong) auto
  consider "f x < f y" | "f y < f x" | "f x = f y" using less_linear by blast
  then show ?case
  proof cases
    case 1
    then have "f x \<notin> f ` set (y # ys)" using "3.prems"(2) by auto
    then show ?thesis using 1 "3.hyps"(1) "3.prems" by auto
  next
    case 2
    then show ?thesis using "3.hyps"(2) "3.prems" tail by auto
  next
    case 3
    then show ?thesis using "3.hyps"(3) "3.prems" tail by auto
  qed
qed auto

lemma set_insert_last:
  fixes f :: "'c \<Rightarrow> 'k::linorder"
  shows "\<forall>d \<in> set ds. f d < f c \<Longrightarrow> set_insert (\<lambda>x y. f x < f y) c ds = ds @ [c]"
  by (induction ds) (auto dest: order.asym)

lemma set_of_sorted_range:
  fixes f :: "'c \<Rightarrow> 'k::linorder"
  assumes "sorted_wrt (<) (map f cs)"
  shows "set_of_range (\<lambda>x y. f x < f y) cs = cs"
proof -
  have "sorted_wrt (<) (map f (acc @ cs)) \<Longrightarrow> fold (set_insert (\<lambda>x y. f x < f y)) cs acc = acc @ cs" for acc
  proof (induction cs arbitrary: acc)
    case (Cons c cs)
    have "\<forall>d \<in> set acc. f d < f c" using Cons.prems by (auto simp: sorted_wrt_append)
    then show ?case using Cons.IH [of "acc @ [c]"] Cons.prems by (simp add: set_insert_last)
  qed simp
  from this [of "[]"] assms show ?thesis by (simp add: set_of_range_def)
qed

section \<open>Sets of cookies\<close>

definition cookie_set_ok :: "'a cookie_set \<Rightarrow> bool" where
  "cookie_set_ok cs \<longleftrightarrow> sorted_wrt (<) (map cookie_key cs)"

lemma CookieSet_snoc: "CookieSet (cs @ [c]) = set_insert CookieComparator c (CookieSet cs)"
  by (simp add: CookieSet_def set_of_range_def)

lemma find_append: "find P (xs @ ys) = (case find P xs of None \<Rightarrow> find P ys | Some x \<Rightarrow> Some x)"
  by (induction xs) simp_all

lemma CookieSet_first:
  "cookie_set_ok (CookieSet cs) \<and> set (CookieSet cs) = {c. find (\<lambda>d. cookie_key d = cookie_key c) cs = Some c}"
proof (induction cs rule: rev_induct)
  case Nil
  then show ?case by (simp add: CookieSet_def set_of_range_def cookie_set_ok_def)
next
  case (snoc c cs)
  let ?first = "\<lambda>cs. {c. find (\<lambda>d. cookie_key d = cookie_key c) cs = Some c}"
  have ins: "cookie_set_ok (CookieSet (cs @ [c]))"
    "set (CookieSet (cs @ [c])) = (if cookie_key c \<in> cookie_key ` ?first cs then ?first cs else insert c (?first cs))"
    using set_insert_set [of cookie_key "CookieSet cs" c] snoc by (auto simp: CookieSet_snoc CookieComparator_less cookie_set_ok_def)
  have seen: "cookie_key c \<in> cookie_key ` ?first cs \<longleftrightarrow> (\<exists>d \<in> set cs. cookie_key d = cookie_key c)"
  proof
    assume "\<exists>d \<in> set cs. cookie_key d = cookie_key c"
    then obtain d where d: "find (\<lambda>d. cookie_key d = cookie_key c) cs = Some d" "cookie_key d = cookie_key c"
      by (metis (mono_tags, lifting) find_None_iff find_Some_iff option.exhaust)
    then show "cookie_key c \<in> cookie_key ` ?first cs" by (intro image_eqI [of _ _ d]) simp_all
  qed (auto simp: find_Some_iff)
  have "x \<in> ?first (cs @ [c]) \<longleftrightarrow> x \<in> ?first cs \<or> \<not> (\<exists>d \<in> set cs. cookie_key d = cookie_key c) \<and> x = c" for x
  proof (cases "find (\<lambda>d. cookie_key d = cookie_key x) cs")
    case None
    then have "\<forall>d \<in> set cs. cookie_key d \<noteq> cookie_key x" by (auto simp: find_None_iff)
    then show ?thesis using None by (auto simp: find_append)
  next
    case (Some y)
    then have "y \<in> set cs" "cookie_key y = cookie_key x" by (auto simp: find_Some_iff)
    then show ?thesis using Some by (auto simp: find_append)
  qed
  then have "?first (cs @ [c]) = (if \<exists>d \<in> set cs. cookie_key d = cookie_key c then ?first cs else insert c (?first cs))"
    by auto
  then show ?case using ins seen by simp
qed

lemma cookie_set_ok_value:
  assumes "cookie_set_ok cs"
  shows "sorted_wrt (<) (map cookie_and_value cs)"
proof -
  have "sorted_wrt (\<lambda>c d. cookie_key c < cookie_key d) cs" using assms by (simp add: cookie_set_ok_def sorted_wrt_map)
  then show ?thesis
    unfolding sorted_wrt_map by (rule sorted_wrt_mono_rel [rotated]) (auto simp: cookie_and_value_def less_prod_def)
qed

lemma cookie_difference:
  assumes "cookie_set_ok xs" "cookie_set_ok ys"
  shows "CookieSet (set_difference CookieAndValueComparator xs ys) =
    filter (\<lambda>c. cookie_and_value c \<notin> cookie_and_value ` set ys) xs"
proof -
  let ?d = "filter (\<lambda>c. cookie_and_value c \<notin> cookie_and_value ` set ys) xs"
  have "sorted_wrt (<) (map cookie_key ?d)"
    using assms(1) by (simp add: cookie_set_ok_def sorted_wrt_map sorted_wrt_filter)
  then show ?thesis
    using set_difference_filter [OF cookie_set_ok_value [OF assms(1)] cookie_set_ok_value [OF assms(2)]]
    by (simp add: CookieSet_def CookieComparator_less CookieAndValueComparator_less set_of_sorted_range)
qed

lemma difference_empty: "filter (\<lambda>c. f c \<notin> f ` set ys) xs = [] \<longleftrightarrow> f ` set xs \<subseteq> f ` set ys"
  by (auto simp: filter_empty_conv)

section \<open>Updates\<close>

definition cookie_cache_ok :: "('u, 'a) cookie_cache \<Rightarrow> bool" where
  "cookie_cache_ok cache \<longleftrightarrow> (\<forall>key cs. cache key = Some cs \<longrightarrow> cookie_set_ok cs)"

definition cached :: "('u, 'a) cookie_cache \<Rightarrow> 'u \<times> string \<Rightarrow> 'a cookie_set" where
  "cached cache key = (case cache key of None \<Rightarrow> [] | Some cs \<Rightarrow> cs)"

text \<open>A sequence of updates, starting from an empty cache.\<close>

fun update_all :: "('u \<times> string \<times> 'a cookie list) list \<Rightarrow> ('u, 'a) cookie_cache \<Rightarrow> ('u, 'a) cookie_cache" where
  "update_all [] cache = cache"
| "update_all ((url, name, cookies) # us) cache = update_all us (updated_cache (Update url name cookies None None cache))"

lemma update_eq:
  fixes url :: 'u and name :: string and new :: "'a cookie list" and cache :: "('u, 'a) cookie_cache"
  assumes "cookie_cache_ok cache"
  defines "old \<equiv> cached cache (url, name)"
  defines "added \<equiv> filter (\<lambda>c. cookie_and_value c \<notin> cookie_and_value ` set old) (CookieSet new)"
  defines "removed \<equiv> filter (\<lambda>c. cookie_and_value c \<notin> cookie_and_value ` set (CookieSet new)) old"
  shows "Update url name new rm ad cache =
    (if cookie_and_value ` set (CookieSet new) = cookie_and_value ` set old
     then \<lparr>changed = False, updated_cache = cache((url, name) \<mapsto> old), removed_out = rm, added_out = ad\<rparr>
     else \<lparr>changed = True, updated_cache = cache((url, name) \<mapsto> CookieSet new),
            removed_out = map_option (\<lambda>v. v @ removed) rm, added_out = map_option (\<lambda>v. v @ added) ad\<rparr>)"
proof -
  have ok: "cookie_set_ok old" "cookie_set_ok (CookieSet new)"
    using assms(1) CookieSet_first [of new] by (auto simp: old_def cached_def cookie_cache_ok_def cookie_set_ok_def split: option.splits)
  let ?c = "case cache (url, name) of None \<Rightarrow> cache((url, name) \<mapsto> []) | Some _ \<Rightarrow> cache"
  have c: "?c = cache((url, name) \<mapsto> old)" "the (?c (url, name)) = old"
    by (auto simp: old_def cached_def fun_upd_idem split: option.splits)
  have "added = [] \<and> removed = [] \<longleftrightarrow> cookie_and_value ` set (CookieSet new) = cookie_and_value ` set old"
    unfolding added_def removed_def difference_empty by blast
  then show ?thesis
    using cookie_difference [OF ok(2,1), folded added_def] cookie_difference [OF ok, folded removed_def]
    unfolding Update_def Let_def c by simp
qed

lemma update_ok: "cookie_cache_ok cache \<Longrightarrow> cookie_cache_ok (updated_cache (Update url name new rm ad cache))"
  using CookieSet_first [of new] by (auto simp: update_eq cookie_cache_ok_def cached_def cookie_set_ok_def split: option.splits)

lemma update_all_ok: "cookie_cache_ok cache \<Longrightarrow> cookie_cache_ok (update_all us cache)"
  by (induction us cache rule: update_all.induct) (simp_all add: update_ok)

section \<open>Properties\<close>

text \<open>What the comparators see of the cookies for a key, and of a vector of new cookies.\<close>

definition cached_values :: "('u, 'a) cookie_cache \<Rightarrow> 'u \<times> string \<Rightarrow> ((string \<times> string \<times> string) \<times> string) set" where
  "cached_values cache key = cookie_and_value ` set (cached cache key)"

definition first_values :: "'a cookie list \<Rightarrow> ((string \<times> string \<times> string) \<times> string) set" where
  "first_values cookies = cookie_and_value ` {c. find (\<lambda>d. cookie_key d = cookie_key c) cookies = Some c}"

lemma first_values_eq: "first_values cookies = cookie_and_value ` set (CookieSet cookies)"
  using CookieSet_first [of cookies] by (simp add: first_values_def)

lemma set_difference_values: "f ` {x \<in> A. f x \<notin> B} = f ` A - B"
  by auto

text \<open>
  Property C30.  After any updates, an update reports a change exactly if some cookie is new, is gone
  or has another value; it appends exactly these cookies to the vectors of the caller, and afterwards
  the cache holds the new cookies (the first one given for each domain, path and name) as far as the
  comparators can tell, and what it held for other keys.
\<close>

theorem cookie_update_difference:
  "\<exists>b cache' removed added.
     Update url name cookies (Some rm) (Some ad) (update_all us Map.empty) =
       \<lparr>changed = b, updated_cache = cache', removed_out = Some (rm @ removed), added_out = Some (ad @ added)\<rparr> \<and>
     (b \<longleftrightarrow> cached_values (update_all us Map.empty) (url, name) \<noteq> first_values cookies) \<and>
     cookie_and_value ` set removed = cached_values (update_all us Map.empty) (url, name) - first_values cookies \<and>
     cookie_and_value ` set added = first_values cookies - cached_values (update_all us Map.empty) (url, name) \<and>
     cached_values cache' (url, name) = first_values cookies \<and>
     cache'((url, name) := None) = (update_all us Map.empty)((url, name) := None)"
proof -
  have "cookie_cache_ok (update_all us Map.empty)" by (rule update_all_ok) (simp add: cookie_cache_ok_def)
  note eq = update_eq [OF this, of url name cookies "Some rm" "Some ad"]
  let ?old = "cached (update_all us Map.empty) (url, name)"
  show ?thesis
  proof (cases "cookie_and_value ` set (CookieSet cookies) = cookie_and_value ` set ?old")
    case True
    then show ?thesis
      by (intro exI [of _ False] exI [of _ "(update_all us Map.empty)((url, name) \<mapsto> ?old)"] exI [of _ "[]"])
        (simp add: eq first_values_eq cached_values_def cached_def)
  next
    case False
    show ?thesis
      by (rule exI [of _ True], rule exI [of _ "(update_all us Map.empty)((url, name) \<mapsto> CookieSet cookies)"],
          rule exI [of _ "filter (\<lambda>c. cookie_and_value c \<notin> cookie_and_value ` set (CookieSet cookies)) ?old"],
          rule exI [of _ "filter (\<lambda>c. cookie_and_value c \<notin> cookie_and_value ` set ?old) (CookieSet cookies)"],
        simp add: eq first_values_eq cached_values_def set_difference_values cached_def [of "_((url, name) \<mapsto> _)"] False [symmetric] False)
  qed
qed

end
