(* ===== verification/First_Run_Trial.thy ===== *)
theory First_Run_Trial
  imports Prelude
begin

text \<open>
  \<^verbatim>\<open>chrome/browser/ui/first_run/fre_field_trial.cc\<close> and \<^verbatim>\<open>ios_first_run_field_trials.cc\<close>: the
  experiment with the first run experience, which has to be configured by the client because on the
  first run no configuration has been fetched from the server.

  The random choice of a group is made by \<^verbatim>\<open>base::FieldTrial\<close>, from the name of the default group
  and the groups with their percentages: it is the parameter \<open>pick\<close>.  Of the feature list and the
  parameters of a trial the model has what the source uses: the first override of a feature counts,
  and parameters are associated with a group once.
\<close>

section \<open>Constants\<close>

definition kIOSMICeAndDefaultBrowserTrialName :: string where
  "kIOSMICeAndDefaultBrowserTrialName = ''IOSTrialMICeAndDefaultBrowser''"

definition kFREDefaultBrowserPromoParam :: string where
  "kFREDefaultBrowserPromoParam = ''variant_default_browser''"
definition kFREDefaultBrowserPromoDefaultDelayParam :: string where
  "kFREDefaultBrowserPromoDefaultDelayParam = ''variant_default_delay_enabled''"
definition kFREDefaultBrowserPromoFirstRunOnlyParam :: string where
  "kFREDefaultBrowserPromoFirstRunOnlyParam = ''variant_fre_only_enabled''"
definition kFREDefaultBrowserPromoShortDelayParam :: string where
  "kFREDefaultBrowserPromoShortDelayParam = ''variant_short_delay_enabled''"

definition kNewMobileIdentityConsistencyFREParam :: string where
  "kNewMobileIdentityConsistencyFREParam = ''variant_new_mice_fre''"
definition kNewMobileIdentityConsistencyFREParamUMADialog :: string where
  "kNewMobileIdentityConsistencyFREParamUMADialog = ''umadialog''"
definition kNewMobileIdentityConsistencyFREParamThreeSteps :: string where
  "kNewMobileIdentityConsistencyFREParamThreeSteps = ''3steps''"
definition kNewMobileIdentityConsistencyFREParamTwoSteps :: string where
  "kNewMobileIdentityConsistencyFREParamTwoSteps = ''2steps''"

definition kTrialGroupMICeAndDefaultBrowserVersionPrefName :: string where
  "kTrialGroupMICeAndDefaultBrowserVersionPrefName = ''fre_refactoring_mice_and_default_browser.trial_version''"
definition kPlaceholderTrialVersion :: int where "kPlaceholderTrialVersion = -1"
definition kCurrentTrialVersion :: int where "kCurrentTrialVersion = 1"

definition kDefaultGroup :: string where "kDefaultGroup = ''Default''"
definition kControlGroup :: string where "kControlGroup = ''Control-V1''"
definition kHoldbackGroup :: string where "kHoldbackGroup = ''Disabled-V1''"
definition kFREDefaultBrowserAndSmallDelayBeforeOtherPromosGroup :: string where
  "kFREDefaultBrowserAndSmallDelayBeforeOtherPromosGroup = ''FREDefaultBrowserAndSmallDelayBeforeOtherPromos-V1''"
definition kFREDefaultBrowserAndDefaultDelayBeforeOtherPromosGroup :: string where
  "kFREDefaultBrowserAndDefaultDelayBeforeOtherPromosGroup = ''FREDefaultBrowserAndDefaultDelayBeforeOtherPromos-V1''"
definition kDefaultBrowserPromoAtFirstRunOnlyGroup :: string where
  "kDefaultBrowserPromoAtFirstRunOnlyGroup = ''DefaultBrowserPromoAtFirstRunOnly-V1''"
definition kNewMICEFREWithUMADialogSetGroup :: string where
  "kNewMICEFREWithUMADialogSetGroup = ''NewMobileIdentityConsistencyFREParamUMADialog-V1''"
definition kNewMICEFREWithThreeStepsSetGroup :: string where
  "kNewMICEFREWithThreeStepsSetGroup = ''NewMobileIdentityConsistencyFREParamThreeSteps-V1''"
definition kNewMICEFREWithTwoStepsSetGroup :: string where
  "kNewMICEFREWithTwoStepsSetGroup = ''NewMobileIdentityConsistencyFREParamTwoSteps-V1''"

definition kControlTrialID :: nat where "kControlTrialID = 3348210"
definition kHoldbackTrialID :: nat where "kHoldbackTrialID = 3348217"
definition kFREDefaultBrowserPromoAtFirstRunOnlyID :: nat where "kFREDefaultBrowserPromoAtFirstRunOnlyID = 3348842"
definition kFREDefaultBrowserAndDefaultDelayBeforeOtherPromosID :: nat where
  "kFREDefaultBrowserAndDefaultDelayBeforeOtherPromosID = 3348843"
definition kFREDefaultBrowserAndSmallDelayBeforeOtherPromosID :: nat where
  "kFREDefaultBrowserAndSmallDelayBeforeOtherPromosID = 3348844"
definition kNewMICEFREWithUMADialogSetID :: nat where "kNewMICEFREWithUMADialogSetID = 3348845"
definition kNewMICEFREWithThreeStepsSetID :: nat where "kNewMICEFREWithThreeStepsSetID = 3348846"
definition kNewMICEFREWithTwoStepsSetID :: nat where "kNewMICEFREWithTwoStepsSetID = 3348847"

section \<open>Variants\<close>

datatype NewDefaultBrowserPromoFRE = kFirstRunOnly | kShortDelay | kDefaultDelay | kDisabled

datatype NewMobileIdentityConsistencyFRE = kUMADialog | kThreeSteps | kTwoSteps | kOld

definition kNewDefaultBrowserPromoFREOptions :: "(NewDefaultBrowserPromoFRE \<times> string) list" where
  "kNewDefaultBrowserPromoFREOptions =
     [(kDefaultDelay, kFREDefaultBrowserPromoDefaultDelayParam),
      (kFirstRunOnly, kFREDefaultBrowserPromoFirstRunOnlyParam),
      (kShortDelay, kFREDefaultBrowserPromoShortDelayParam)]"

definition kNewMobileIdentityConsistencyFREOptions :: "(NewMobileIdentityConsistencyFRE \<times> string) list" where
  "kNewMobileIdentityConsistencyFREOptions =
     [(kUMADialog, kNewMobileIdentityConsistencyFREParamUMADialog),
      (kThreeSteps, kNewMobileIdentityConsistencyFREParamThreeSteps),
      (kTwoSteps, kNewMobileIdentityConsistencyFREParamTwoSteps)]"

section \<open>Features, trials and preferences\<close>

datatype fre_feature = kEnableFREUIModuleIOS | kEnableFREDefaultBrowserPromoScreen | kNewMobileIdentityConsistencyFRE

text \<open>
  An override of a feature by a trial: whether the feature is enabled, and the active group of the
  trial.  Parameters and variation ids belong to a group of the trial.
\<close>

record fre_state =
  overrides :: "fre_feature \<rightharpoonup> bool \<times> string"
  command_line_overrides :: "fre_feature list"
  trial_params :: "string \<rightharpoonup> (string \<rightharpoonup> string)"
  google_variation_ids :: "string \<rightharpoonup> nat"
  trial_version_pref :: int

definition RegisterFieldTrialOverride :: "fre_feature \<Rightarrow> bool \<Rightarrow> string \<Rightarrow> fre_state \<Rightarrow> fre_state" where
  "RegisterFieldTrialOverride f enabled grp S =
     (if overrides S f = None then S\<lparr>overrides := (overrides S)(f \<mapsto> (enabled, grp))\<rparr> else S)"

definition IsEnabled :: "(fre_feature \<Rightarrow> bool) \<Rightarrow> fre_state \<Rightarrow> fre_feature \<Rightarrow> bool" where
  "IsEnabled default_state S f = (case overrides S f of None \<Rightarrow> default_state f | Some (enabled, _) \<Rightarrow> enabled)"

definition AssociateFieldTrialParams :: "string \<Rightarrow> (string \<rightharpoonup> string) \<Rightarrow> fre_state \<Rightarrow> bool \<times> fre_state" where
  "AssociateFieldTrialParams grp params S =
     (if trial_params S grp = None then (True, S\<lparr>trial_params := (trial_params S)(grp \<mapsto> params)\<rparr>) else (False, S))"

text \<open>
  \<^verbatim>\<open>base::FeatureParam::Get\<close> for an enumeration: the option named by the parameter of the group
  whose trial overrides the feature, or the default value.
\<close>

definition feature_param_value :: "fre_feature \<Rightarrow> string \<Rightarrow> fre_state \<Rightarrow> string option" where
  "feature_param_value f param S = (case overrides S f of None \<Rightarrow> None
     | Some (_, grp) \<Rightarrow> (case trial_params S grp of None \<Rightarrow> None | Some params \<Rightarrow> params param))"

definition get_feature_param :: "('v \<times> string) list \<Rightarrow> 'v \<Rightarrow> string option \<Rightarrow> 'v" where
  "get_feature_param options default_value v = (case v of None \<Rightarrow> default_value
     | Some s \<Rightarrow> (case find (\<lambda>x. snd x = s) options of None \<Rightarrow> default_value | Some x \<Rightarrow> fst x))"

definition kNewDefaultBrowserPromoFREParam :: "fre_state \<Rightarrow> NewDefaultBrowserPromoFRE" where
  "kNewDefaultBrowserPromoFREParam S = get_feature_param kNewDefaultBrowserPromoFREOptions kDefaultDelay
     (feature_param_value kEnableFREDefaultBrowserPromoScreen kFREDefaultBrowserPromoParam S)"

definition kkNewMobileIdentityConsistencyFREParam :: "fre_state \<Rightarrow> NewMobileIdentityConsistencyFRE" where
  "kkNewMobileIdentityConsistencyFREParam S = get_feature_param kNewMobileIdentityConsistencyFREOptions kUMADialog
     (feature_param_value kNewMobileIdentityConsistencyFRE kNewMobileIdentityConsistencyFREParam S)"

definition GetFREDefaultBrowserScreenPromoFRE :: "(fre_feature \<Rightarrow> bool) \<Rightarrow> fre_state \<Rightarrow> NewDefaultBrowserPromoFRE" where
  "GetFREDefaultBrowserScreenPromoFRE default_state S =
     (if IsEnabled default_state S kEnableFREUIModuleIOS \<and> IsEnabled default_state S kEnableFREDefaultBrowserPromoScreen
      then kNewDefaultBrowserPromoFREParam S else kDisabled)"

definition GetNewMobileIdentityConsistencyFRE :: "(fre_feature \<Rightarrow> bool) \<Rightarrow> fre_state \<Rightarrow> NewMobileIdentityConsistencyFRE" where
  "GetNewMobileIdentityConsistencyFRE default_state S =
     (if IsEnabled default_state S kNewMobileIdentityConsistencyFRE
      then kkNewMobileIdentityConsistencyFREParam S else kOld)"

section \<open>The configuration of a trial\<close>

record trial_group =
  group_name :: string
  group_variation :: nat
  group_percentage :: int

record trial_config =
  trial_name :: string
  trial_groups :: "trial_group list"

definition FirstRunFieldTrialConfig :: "string \<Rightarrow> trial_config" where
  "FirstRunFieldTrialConfig name = \<lparr>trial_name = name, trial_groups = []\<rparr>"

definition AddGroup :: "string \<Rightarrow> nat \<Rightarrow> int \<Rightarrow> trial_config \<Rightarrow> trial_config" where
  "AddGroup name variation percentage C = C\<lparr>trial_groups := trial_groups C @
     [\<lparr>group_name = name, group_variation = variation, group_percentage = percentage\<rparr>]\<rparr>"

definition GetTotalProbability :: "trial_config \<Rightarrow> int" where
  "GetTotalProbability C = sum_list (map group_percentage (trial_groups C))"

fun associate_variation_ids :: "trial_group list \<Rightarrow> fre_state \<Rightarrow> fre_state" where
  "associate_variation_ids [] S = S"
| "associate_variation_ids (g # gs) S =
     associate_variation_ids gs (S\<lparr>google_variation_ids := (google_variation_ids S)(group_name g \<mapsto> group_variation g)\<rparr>)"

text \<open>The result is the name of the group that the trial chooses.\<close>

definition CreateOneTimeRandomizedTrial ::
    "(string \<Rightarrow> (string \<times> int) list \<Rightarrow> string) \<Rightarrow> string \<Rightarrow> trial_config \<Rightarrow> fre_state \<Rightarrow> (string \<times> fre_state) res" where
  "CreateOneTimeRandomizedTrial pick default_group_name C S =
     dcheck (GetTotalProbability C \<le> 100) ''GetTotalProbability() <= 100''
       (Inr (pick default_group_name (map (\<lambda>g. (group_name g, group_percentage g)) (trial_groups C)),
             associate_variation_ids (trial_groups C) S))"

definition AddGroupToConfig :: "string \<Rightarrow> nat \<Rightarrow> (nat \<rightharpoonup> int) \<Rightarrow> trial_config \<Rightarrow> trial_config res" where
  "AddGroupToConfig name gid weight_by_id C = (case weight_by_id gid of
       None \<Rightarrow> Inl (DCheckFailed ''Required variation ID missing'')
     | Some w \<Rightarrow> Inr (AddGroup name gid w C))"

definition associate_params :: "string \<Rightarrow> string \<Rightarrow> string \<Rightarrow> fre_state \<Rightarrow> fre_state res" where
  "associate_params param grp value S =
     (case AssociateFieldTrialParams grp [param \<mapsto> value] S of (association_result, S) \<Rightarrow>
        dcheck association_result ''association_result'' (Inr S))"

definition AssociateFieldTrialParamsForDefaultBrowserGroup :: "string \<Rightarrow> string \<Rightarrow> fre_state \<Rightarrow> fre_state res" where
  "AssociateFieldTrialParamsForDefaultBrowserGroup grp value S = associate_params kFREDefaultBrowserPromoParam grp value S"

definition AssociateFieldTrialParamsForNewMICEFREGroup :: "string \<Rightarrow> string \<Rightarrow> fre_state \<Rightarrow> fre_state res" where
  "AssociateFieldTrialParamsForNewMICEFREGroup grp value S = associate_params kNewMobileIdentityConsistencyFREParam grp value S"

datatype Channel = UNKNOWN_CHANNEL | CANARY | DEV | BETA | STABLE

definition GetGroupWeightsForFREVariations :: "Channel \<Rightarrow> (nat \<rightharpoonup> int)" where
  "GetGroupWeightsForFREVariations channel =
     map_option (\<lambda>_. case channel of STABLE \<Rightarrow> 8 | _ \<Rightarrow> 10) \<circ>
     [kControlTrialID \<mapsto> 0, kHoldbackTrialID \<mapsto> 0, kNewMICEFREWithUMADialogSetID \<mapsto> 0,
      kNewMICEFREWithThreeStepsSetID \<mapsto> 0, kNewMICEFREWithTwoStepsSetID \<mapsto> 0,
      kFREDefaultBrowserAndDefaultDelayBeforeOtherPromosID \<mapsto> 0,
      kFREDefaultBrowserAndSmallDelayBeforeOtherPromosID \<mapsto> (0::int),
      kFREDefaultBrowserPromoAtFirstRunOnlyID \<mapsto> 0]"

section \<open>Creating the trial\<close>

definition fre_config :: "(nat \<rightharpoonup> int) \<Rightarrow> trial_config res" where
  "fre_config weight_by_id =
     rbind (AddGroupToConfig kControlGroup kControlTrialID weight_by_id
              (FirstRunFieldTrialConfig kIOSMICeAndDefaultBrowserTrialName)) (\<lambda>C.
     rbind (AddGroupToConfig kHoldbackGroup kHoldbackTrialID weight_by_id C) (\<lambda>C.
     rbind (AddGroupToConfig kNewMICEFREWithUMADialogSetGroup kNewMICEFREWithUMADialogSetID weight_by_id C) (\<lambda>C.
     rbind (AddGroupToConfig kNewMICEFREWithThreeStepsSetGroup kNewMICEFREWithThreeStepsSetID weight_by_id C) (\<lambda>C.
     rbind (AddGroupToConfig kNewMICEFREWithTwoStepsSetGroup kNewMICEFREWithTwoStepsSetID weight_by_id C) (\<lambda>C.
     rbind (AddGroupToConfig kFREDefaultBrowserAndDefaultDelayBeforeOtherPromosGroup
              kFREDefaultBrowserAndDefaultDelayBeforeOtherPromosID weight_by_id C) (\<lambda>C.
     rbind (AddGroupToConfig kFREDefaultBrowserAndSmallDelayBeforeOtherPromosGroup
              kFREDefaultBrowserAndSmallDelayBeforeOtherPromosID weight_by_id C) (\<lambda>C.
     AddGroupToConfig kDefaultBrowserPromoAtFirstRunOnlyGroup kFREDefaultBrowserPromoAtFirstRunOnlyID weight_by_id C)))))))"

definition fre_params :: "fre_state \<Rightarrow> fre_state res" where
  "fre_params S =
     rbind (AssociateFieldTrialParamsForNewMICEFREGroup kNewMICEFREWithUMADialogSetGroup
              kNewMobileIdentityConsistencyFREParamUMADialog S) (\<lambda>S.
     rbind (AssociateFieldTrialParamsForNewMICEFREGroup kNewMICEFREWithThreeStepsSetGroup
              kNewMobileIdentityConsistencyFREParamThreeSteps S) (\<lambda>S.
     rbind (AssociateFieldTrialParamsForNewMICEFREGroup kNewMICEFREWithTwoStepsSetGroup
              kNewMobileIdentityConsistencyFREParamTwoSteps S) (\<lambda>S.
     rbind (AssociateFieldTrialParamsForDefaultBrowserGroup kFREDefaultBrowserAndDefaultDelayBeforeOtherPromosGroup
              kFREDefaultBrowserPromoDefaultDelayParam S) (\<lambda>S.
     rbind (AssociateFieldTrialParamsForDefaultBrowserGroup kFREDefaultBrowserAndSmallDelayBeforeOtherPromosGroup
              kFREDefaultBrowserPromoShortDelayParam S) (\<lambda>S.
     AssociateFieldTrialParamsForDefaultBrowserGroup kDefaultBrowserPromoAtFirstRunOnlyGroup
       kFREDefaultBrowserPromoFirstRunOnlyParam S)))))"

definition override_features :: "string \<Rightarrow> fre_state \<Rightarrow> fre_state" where
  "override_features grp S =
     (if grp = kDefaultGroup then S
      else if grp = kControlGroup then
        RegisterFieldTrialOverride kEnableFREDefaultBrowserPromoScreen False grp
          (RegisterFieldTrialOverride kNewMobileIdentityConsistencyFRE False grp
            (RegisterFieldTrialOverride kEnableFREUIModuleIOS True grp S))
      else if grp = kHoldbackGroup then
        RegisterFieldTrialOverride kEnableFREDefaultBrowserPromoScreen False grp
          (RegisterFieldTrialOverride kNewMobileIdentityConsistencyFRE False grp
            (RegisterFieldTrialOverride kEnableFREUIModuleIOS False grp S))
      else
        let S = RegisterFieldTrialOverride kEnableFREUIModuleIOS True grp S
        in if grp = kFREDefaultBrowserAndSmallDelayBeforeOtherPromosGroup \<or>
              grp = kFREDefaultBrowserAndDefaultDelayBeforeOtherPromosGroup \<or>
              grp = kDefaultBrowserPromoAtFirstRunOnlyGroup
           then RegisterFieldTrialOverride kEnableFREDefaultBrowserPromoScreen True grp
                  (RegisterFieldTrialOverride kNewMobileIdentityConsistencyFRE False grp S)
           else if grp = kNewMICEFREWithUMADialogSetGroup \<or>
                   grp = kNewMICEFREWithThreeStepsSetGroup \<or>
                   grp = kNewMICEFREWithTwoStepsSetGroup
           then RegisterFieldTrialOverride kEnableFREDefaultBrowserPromoScreen False grp
                  (RegisterFieldTrialOverride kNewMobileIdentityConsistencyFRE True grp S)
           else S)"

definition CreateNewMICeAndDefaultBrowserFRETrial ::
    "(string \<Rightarrow> (string \<times> int) list \<Rightarrow> string) \<Rightarrow> (nat \<rightharpoonup> int) \<Rightarrow> fre_state \<Rightarrow> (int \<times> fre_state) res" where
  "CreateNewMICeAndDefaultBrowserFRETrial pick weight_by_id S =
     rbind (fre_config weight_by_id) (\<lambda>config.
     rbind (fre_params S) (\<lambda>S.
     rbind (CreateOneTimeRandomizedTrial pick kDefaultGroup config S) (\<lambda>(grp, S).
       Inr (kCurrentTrialVersion, override_features grp S))))"

definition RegisterLocalStatePrefs :: "fre_state \<Rightarrow> fre_state" where
  "RegisterLocalStatePrefs S = S\<lparr>trial_version_pref := kPlaceholderTrialVersion\<rparr>"

definition Create ::
    "(string \<Rightarrow> (string \<times> int) list \<Rightarrow> string) \<Rightarrow> Channel \<Rightarrow> bool \<Rightarrow> fre_state \<Rightarrow> fre_state res" where
  "Create pick channel first_run S =
     (if kEnableFREUIModuleIOS \<in> set (command_line_overrides S) \<or>
         kEnableFREDefaultBrowserPromoScreen \<in> set (command_line_overrides S) \<or>
         kNewMobileIdentityConsistencyFRE \<in> set (command_line_overrides S)
      then Inr S
      else
        let weight_by_id = GetGroupWeightsForFREVariations channel
        in if first_run
           then rbind (CreateNewMICeAndDefaultBrowserFRETrial pick weight_by_id S) (\<lambda>(trial_version, S).
                  Inr (S\<lparr>trial_version_pref := trial_version\<rparr>))
           else if trial_version_pref S = kCurrentTrialVersion
           then rbind (CreateNewMICeAndDefaultBrowserFRETrial pick weight_by_id S) (\<lambda>(_, S). Inr S)
           else Inr S)"

definition CreateNewMICeAndDefaultBrowserFRETrialForTesting ::
    "(string \<Rightarrow> (string \<times> int) list \<Rightarrow> string) \<Rightarrow> (nat \<rightharpoonup> int) \<Rightarrow> fre_state \<Rightarrow> (int \<times> fre_state) res" where
  "CreateNewMICeAndDefaultBrowserFRETrialForTesting pick weight_by_id S =
     CreateNewMICeAndDefaultBrowserFRETrial pick weight_by_id S"

section \<open>What the trial sets up\<close>

lemmas fre_group_names = kDefaultGroup_def kControlGroup_def kHoldbackGroup_def
  kFREDefaultBrowserAndSmallDelayBeforeOtherPromosGroup_def kFREDefaultBrowserAndDefaultDelayBeforeOtherPromosGroup_def
  kDefaultBrowserPromoAtFirstRunOnlyGroup_def kNewMICEFREWithUMADialogSetGroup_def
  kNewMICEFREWithThreeStepsSetGroup_def kNewMICEFREWithTwoStepsSetGroup_def

lemmas fre_ids = kControlTrialID_def kHoldbackTrialID_def kFREDefaultBrowserPromoAtFirstRunOnlyID_def
  kFREDefaultBrowserAndDefaultDelayBeforeOtherPromosID_def kFREDefaultBrowserAndSmallDelayBeforeOtherPromosID_def
  kNewMICEFREWithUMADialogSetID_def kNewMICEFREWithThreeStepsSetID_def kNewMICEFREWithTwoStepsSetID_def

lemmas fre_params_defs = kFREDefaultBrowserPromoParam_def kNewMobileIdentityConsistencyFREParam_def
  kFREDefaultBrowserPromoDefaultDelayParam_def kFREDefaultBrowserPromoFirstRunOnlyParam_def
  kFREDefaultBrowserPromoShortDelayParam_def kNewMobileIdentityConsistencyFREParamUMADialog_def
  kNewMobileIdentityConsistencyFREParamThreeSteps_def kNewMobileIdentityConsistencyFREParamTwoSteps_def

definition experiment_groups :: "string list" where
  "experiment_groups = [kControlGroup, kHoldbackGroup, kNewMICEFREWithUMADialogSetGroup, kNewMICEFREWithThreeStepsSetGroup,
     kNewMICEFREWithTwoStepsSetGroup, kFREDefaultBrowserAndDefaultDelayBeforeOtherPromosGroup,
     kFREDefaultBrowserAndSmallDelayBeforeOtherPromosGroup, kDefaultBrowserPromoAtFirstRunOnlyGroup]"

definition channel_weight :: "Channel \<Rightarrow> int" where
  "channel_weight channel = (case channel of STABLE \<Rightarrow> 8 | _ \<Rightarrow> 10)"

lemma group_names_distinct: "distinct (kDefaultGroup # experiment_groups)"
  by code_simp

lemma group_names_distinct_rev: "distinct (rev (kDefaultGroup # experiment_groups))"
  using group_names_distinct by (simp only: distinct_rev)

lemmas group_neq = group_names_distinct [unfolded experiment_groups_def, simplified]
  group_names_distinct_rev [unfolded experiment_groups_def, unfolded rev.simps append.simps, unfolded distinct.simps list.set insert_iff empty_iff, simplified]

lemma fre_config_eq:
  "\<exists>C. fre_config (GetGroupWeightsForFREVariations channel) = Inr C \<and>
     map group_name (trial_groups C) = experiment_groups \<and>
     map group_percentage (trial_groups C) = map (\<lambda>_. channel_weight channel) experiment_groups"
  by (simp add: fre_config_def AddGroupToConfig_def GetGroupWeightsForFREVariations_def fre_ids AddGroup_def
    FirstRunFieldTrialConfig_def experiment_groups_def channel_weight_def)

text \<open>The parameters of the six groups that have one.\<close>

definition group_param :: "string \<Rightarrow> (string \<rightharpoonup> string) option" where
  "group_param g =
     (if g = kNewMICEFREWithUMADialogSetGroup
      then Some [kNewMobileIdentityConsistencyFREParam \<mapsto> kNewMobileIdentityConsistencyFREParamUMADialog]
      else if g = kNewMICEFREWithThreeStepsSetGroup
      then Some [kNewMobileIdentityConsistencyFREParam \<mapsto> kNewMobileIdentityConsistencyFREParamThreeSteps]
      else if g = kNewMICEFREWithTwoStepsSetGroup
      then Some [kNewMobileIdentityConsistencyFREParam \<mapsto> kNewMobileIdentityConsistencyFREParamTwoSteps]
      else if g = kFREDefaultBrowserAndDefaultDelayBeforeOtherPromosGroup
      then Some [kFREDefaultBrowserPromoParam \<mapsto> kFREDefaultBrowserPromoDefaultDelayParam]
      else if g = kFREDefaultBrowserAndSmallDelayBeforeOtherPromosGroup
      then Some [kFREDefaultBrowserPromoParam \<mapsto> kFREDefaultBrowserPromoShortDelayParam]
      else if g = kDefaultBrowserPromoAtFirstRunOnlyGroup
      then Some [kFREDefaultBrowserPromoParam \<mapsto> kFREDefaultBrowserPromoFirstRunOnlyParam]
      else None)"

lemma fre_params_eq:
  assumes "trial_params S = Map.empty"
  shows "fre_params S = Inr (S\<lparr>trial_params := group_param\<rparr>)"
proof -
  have "[kNewMICEFREWithUMADialogSetGroup \<mapsto> [kNewMobileIdentityConsistencyFREParam \<mapsto> kNewMobileIdentityConsistencyFREParamUMADialog],
     kNewMICEFREWithThreeStepsSetGroup \<mapsto> [kNewMobileIdentityConsistencyFREParam \<mapsto> kNewMobileIdentityConsistencyFREParamThreeSteps],
     kNewMICEFREWithTwoStepsSetGroup \<mapsto> [kNewMobileIdentityConsistencyFREParam \<mapsto> kNewMobileIdentityConsistencyFREParamTwoSteps],
     kFREDefaultBrowserAndDefaultDelayBeforeOtherPromosGroup \<mapsto> [kFREDefaultBrowserPromoParam \<mapsto> kFREDefaultBrowserPromoDefaultDelayParam],
     kFREDefaultBrowserAndSmallDelayBeforeOtherPromosGroup \<mapsto> [kFREDefaultBrowserPromoParam \<mapsto> kFREDefaultBrowserPromoShortDelayParam],
     kDefaultBrowserPromoAtFirstRunOnlyGroup \<mapsto> [kFREDefaultBrowserPromoParam \<mapsto> kFREDefaultBrowserPromoFirstRunOnlyParam]] = group_param"
    by (intro ext) (simp add: group_param_def group_neq)
  then show ?thesis
    using assms by (simp add: fre_params_def AssociateFieldTrialParamsForNewMICEFREGroup_def
      AssociateFieldTrialParamsForDefaultBrowserGroup_def associate_params_def AssociateFieldTrialParams_def group_neq)
qed

text \<open>What each group is meant to see: the promotion of the default browser, the sign-in, the new first run.\<close>

definition fre_variant :: "string \<Rightarrow> NewDefaultBrowserPromoFRE \<times> NewMobileIdentityConsistencyFRE \<times> bool" where
  "fre_variant g =
     (if g = kHoldbackGroup then (kDisabled, kOld, False)
      else if g = kFREDefaultBrowserAndDefaultDelayBeforeOtherPromosGroup then (kDefaultDelay, kOld, True)
      else if g = kFREDefaultBrowserAndSmallDelayBeforeOtherPromosGroup then (kShortDelay, kOld, True)
      else if g = kDefaultBrowserPromoAtFirstRunOnlyGroup then (kFirstRunOnly, kOld, True)
      else if g = kNewMICEFREWithUMADialogSetGroup then (kDisabled, kUMADialog, True)
      else if g = kNewMICEFREWithThreeStepsSetGroup then (kDisabled, kThreeSteps, True)
      else if g = kNewMICEFREWithTwoStepsSetGroup then (kDisabled, kTwoSteps, True)
      else (kDisabled, kOld, True))"

definition shown_variant :: "(fre_feature \<Rightarrow> bool) \<Rightarrow> fre_state \<Rightarrow> NewDefaultBrowserPromoFRE \<times> NewMobileIdentityConsistencyFRE \<times> bool" where
  "shown_variant default_state S = (GetFREDefaultBrowserScreenPromoFRE default_state S,
     GetNewMobileIdentityConsistencyFRE default_state S, IsEnabled default_state S kEnableFREUIModuleIOS)"

lemma associate_variation_ids_eq:
  "\<exists>ids. associate_variation_ids gs S = S\<lparr>google_variation_ids := ids\<rparr>"
proof (induction gs arbitrary: S)
  case Nil
  have "S = S\<lparr>google_variation_ids := google_variation_ids S\<rparr>" by simp
  then show ?case unfolding associate_variation_ids.simps by blast
next
  case (Cons g gs)
  then show ?case using Cons.IH [of "S\<lparr>google_variation_ids := (google_variation_ids S)(group_name g \<mapsto> group_variation g)\<rparr>"] by auto
qed

lemma option_names_neq:
  "kFREDefaultBrowserPromoDefaultDelayParam \<noteq> kFREDefaultBrowserPromoFirstRunOnlyParam"
  "kFREDefaultBrowserPromoDefaultDelayParam \<noteq> kFREDefaultBrowserPromoShortDelayParam"
  "kFREDefaultBrowserPromoFirstRunOnlyParam \<noteq> kFREDefaultBrowserPromoShortDelayParam"
  "kNewMobileIdentityConsistencyFREParamUMADialog \<noteq> kNewMobileIdentityConsistencyFREParamThreeSteps"
  "kNewMobileIdentityConsistencyFREParamUMADialog \<noteq> kNewMobileIdentityConsistencyFREParamTwoSteps"
  "kNewMobileIdentityConsistencyFREParamThreeSteps \<noteq> kNewMobileIdentityConsistencyFREParamTwoSteps"
  by (simp_all add: fre_params_defs)

lemma override_features_variant:
  assumes "overrides S = Map.empty" "trial_params S = group_param" "g \<in> set experiment_groups"
  shows "shown_variant default_state (override_features g S) = fre_variant g"
proof -
  have "g \<in> {kControlGroup, kHoldbackGroup, kNewMICEFREWithUMADialogSetGroup, kNewMICEFREWithThreeStepsSetGroup,
     kNewMICEFREWithTwoStepsSetGroup, kFREDefaultBrowserAndDefaultDelayBeforeOtherPromosGroup,
     kFREDefaultBrowserAndSmallDelayBeforeOtherPromosGroup, kDefaultBrowserPromoAtFirstRunOnlyGroup}"
    using assms(3) by (simp add: experiment_groups_def)
  then show ?thesis
    using assms(1,2) option_names_neq option_names_neq [symmetric]
    by (elim insertE emptyE) (simp_all add: shown_variant_def GetFREDefaultBrowserScreenPromoFRE_def
      GetNewMobileIdentityConsistencyFRE_def IsEnabled_def override_features_def RegisterFieldTrialOverride_def Let_def
      fre_variant_def group_neq kNewDefaultBrowserPromoFREParam_def kkNewMobileIdentityConsistencyFREParam_def
      get_feature_param_def feature_param_value_def group_param_def kNewDefaultBrowserPromoFREOptions_def
      kNewMobileIdentityConsistencyFREOptions_def)
qed

lemma create_trial_eq:
  assumes "trial_params S = Map.empty"
  shows "\<exists>ids. CreateNewMICeAndDefaultBrowserFRETrial pick (GetGroupWeightsForFREVariations channel) S =
    Inr (kCurrentTrialVersion, override_features
      (pick kDefaultGroup (map (\<lambda>g. (g, channel_weight channel)) experiment_groups))
      (S\<lparr>trial_params := group_param, google_variation_ids := ids\<rparr>))"
proof -
  obtain C where C: "fre_config (GetGroupWeightsForFREVariations channel) = Inr C"
    "map group_name (trial_groups C) = experiment_groups"
    "map group_percentage (trial_groups C) = map (\<lambda>_. channel_weight channel) experiment_groups"
    using fre_config_eq by blast
  have "GetTotalProbability C = 8 * channel_weight channel"
    by (simp add: GetTotalProbability_def C(3) experiment_groups_def)
  then have total: "GetTotalProbability C \<le> 100" by (simp add: channel_weight_def split: Channel.splits)
  have groups: "map (\<lambda>g. (group_name g, group_percentage g)) (trial_groups C) = map (\<lambda>g. (g, channel_weight channel)) experiment_groups"
    using C(2,3) by (simp add: list_eq_iff_nth_eq)
  obtain ids where "associate_variation_ids (trial_groups C) (S\<lparr>trial_params := group_param\<rparr>) =
    S\<lparr>trial_params := group_param, google_variation_ids := ids\<rparr>"
    using associate_variation_ids_eq by blast
  then show ?thesis
    using C(1) total groups assms
    by (auto simp: CreateNewMICeAndDefaultBrowserFRETrial_def fre_params_eq CreateOneTimeRandomizedTrial_def)
qed

section \<open>Properties\<close>

text \<open>
  For every channel the percentages of the groups add up to at most 100, no assertion
  fails, and the client sees the variant of the group the trial has chosen, whatever the default
  states of the features are: at most one of the two experiments, and none in the control and in
  the holdback group.  On later runs the group is chosen from the same data as on the first run, so
  the client stays in it; a client of the default group gets no overrides.
\<close>

theorem fre_trial_variant:
  assumes "overrides S = Map.empty" "trial_params S = Map.empty" "command_line_overrides S = []"
    "first_run \<or> trial_version_pref S = kCurrentTrialVersion"
    "\<And>d gs. pick d gs \<in> insert d (fst ` set gs)"
  shows "\<exists>S'. Create pick channel first_run S = Inr S' \<and> trial_version_pref S' = kCurrentTrialVersion \<and>
    (if pick kDefaultGroup (map (\<lambda>g. (g, channel_weight channel)) experiment_groups) = kDefaultGroup
     then overrides S' = Map.empty
     else shown_variant default_state S' =
       fre_variant (pick kDefaultGroup (map (\<lambda>g. (g, channel_weight channel)) experiment_groups)))"
proof -
  let ?g = "pick kDefaultGroup (map (\<lambda>g. (g, channel_weight channel)) experiment_groups)"
  have g: "?g = kDefaultGroup \<or> ?g \<in> set experiment_groups"
    using assms(5) [of kDefaultGroup "map (\<lambda>g. (g, channel_weight channel)) experiment_groups"] by auto
  obtain ids where ids: "CreateNewMICeAndDefaultBrowserFRETrial pick (GetGroupWeightsForFREVariations channel) S =
    Inr (kCurrentTrialVersion, override_features ?g (S\<lparr>trial_params := group_param, google_variation_ids := ids\<rparr>))"
    using create_trial_eq [OF assms(2)] by blast
  let ?T = "S\<lparr>trial_params := group_param, google_variation_ids := ids\<rparr>"
  have "trial_version_pref (RegisterFieldTrialOverride f b g T) = trial_version_pref T" for f b g T
    by (simp add: RegisterFieldTrialOverride_def)
  then have pref: "trial_version_pref (override_features g T) = trial_version_pref T" for g T
    by (simp add: override_features_def Let_def)
  have "feature_param_value f p (T\<lparr>trial_version_pref := v\<rparr>) = feature_param_value f p T" for f p T v
    by (simp add: feature_param_value_def split: option.splits prod.splits)
  then have shown: "shown_variant default_state (T\<lparr>trial_version_pref := v\<rparr>) = shown_variant default_state T" for T v
    by (simp add: shown_variant_def GetFREDefaultBrowserScreenPromoFRE_def GetNewMobileIdentityConsistencyFRE_def
      IsEnabled_def kNewDefaultBrowserPromoFREParam_def kkNewMobileIdentityConsistencyFREParam_def)
  have var: "?g \<noteq> kDefaultGroup \<Longrightarrow> shown_variant default_state (override_features ?g ?T) = fre_variant ?g"
    using override_features_variant [of ?T ?g default_state] g assms(1) by auto
  have none: "?g = kDefaultGroup \<Longrightarrow> overrides (override_features ?g ?T) = Map.empty"
    using assms(1) by (simp add: override_features_def)
  let ?R = "override_features ?g ?T"
  have "Create pick channel first_run S = Inr (?R\<lparr>trial_version_pref := kCurrentTrialVersion\<rparr>)"
  proof (cases first_run)
    case True
    then show ?thesis using assms(3) by (simp add: Create_def ids del: fun_upd_apply)
  next
    case False
    then have "trial_version_pref S = kCurrentTrialVersion" using assms(4) by simp
    then have "?R = ?R\<lparr>trial_version_pref := kCurrentTrialVersion\<rparr>" using pref [of ?g ?T] by simp
    then show ?thesis using assms(3,4) False by (simp add: Create_def ids)
  qed
  moreover have "if ?g = kDefaultGroup then overrides (?R\<lparr>trial_version_pref := kCurrentTrialVersion\<rparr>) = Map.empty
      else shown_variant default_state (?R\<lparr>trial_version_pref := kCurrentTrialVersion\<rparr>) = fre_variant ?g"
    using var none unfolding shown by simp
  ultimately show ?thesis by (intro exI [of _ "?R\<lparr>trial_version_pref := kCurrentTrialVersion\<rparr>"]) simp
qed

theorem fre_trial_variant_witness:
  "\<exists>S'. Create (\<lambda>d gs. case gs of [] \<Rightarrow> d | g # _ \<Rightarrow> fst (last gs)) BETA True
       \<lparr>overrides = Map.empty, command_line_overrides = [], trial_params = Map.empty, google_variation_ids = Map.empty,
         trial_version_pref = kPlaceholderTrialVersion\<rparr> = Inr S' \<and>
     shown_variant (\<lambda>_. False) S' = (kFirstRunOnly, kOld, True)"
proof -
  let ?pick = "\<lambda>d gs. case gs of [] \<Rightarrow> d | g # _ \<Rightarrow> fst (last (gs :: (string \<times> int) list))"
  have "?pick d gs \<in> insert d (fst ` set gs)" for d gs by (cases gs) (auto intro: last_in_set)
  moreover have "?pick kDefaultGroup (map (\<lambda>g. (g, channel_weight BETA)) experiment_groups) = kDefaultBrowserPromoAtFirstRunOnlyGroup"
    by (simp add: experiment_groups_def)
  moreover have "fre_variant kDefaultBrowserPromoAtFirstRunOnlyGroup = (kFirstRunOnly, kOld, True)"
    by (simp add: fre_variant_def group_neq)
  ultimately show ?thesis
    using fre_trial_variant [of "\<lparr>overrides = Map.empty, command_line_overrides = [], trial_params = Map.empty,
      google_variation_ids = Map.empty, trial_version_pref = kPlaceholderTrialVersion\<rparr>" True ?pick BETA "\<lambda>_. False"]
    by (auto simp: group_neq)
qed

end
