(* ===== verification/Sync_Setup.thy ===== *)
theory Sync_Setup
  imports Prelude
begin

text \<open>
  \<^verbatim>\<open>chrome/browser/sync/sync_setup_service.cc\<close>: the settings of sync.  Changes are made under a
  handle that keeps sync from running until they are committed.

  The sync service and its user settings belong to another repository.  They are a parameter: the
  record \<open>sync_api\<close> of the methods that are called, over an arbitrary type of states, and what is
  relied on is the predicate \<open>sync_api_ok\<close>.
\<close>

section \<open>Data\<close>

datatype ModelType = BOOKMARKS | TYPED_URLS | PASSWORDS | PROXY_TABS | AUTOFILL | PREFERENCES | READING_LIST | OTHER_TYPE nat

datatype SyncableDatatype = kSyncBookmarks | kSyncOmniboxHistory | kSyncPasswords | kSyncOpenTabs | kSyncAutofill
  | kSyncPreferences | kSyncReadingList | kNumberOfSyncableDatatypes

datatype SyncServiceState = kNoSyncServiceError | kSyncServiceSignInNeedsUpdate | kSyncServiceCouldNotConnect
  | kSyncServiceServiceUnavailable | kSyncServiceNeedsPassphrase | kSyncServiceNeedsTrustedVaultKey
  | kSyncServiceTrustedVaultRecoverabilityDegraded | kSyncServiceUnrecoverableError

datatype GoogleServiceAuthError = NONE_ERROR | INVALID_GAIA_CREDENTIALS | USER_NOT_SIGNED_UP | CONNECTION_FAILED
  | SERVICE_UNAVAILABLE | REQUEST_CANCELED | UNEXPECTED_SERVICE_RESPONSE | SERVICE_ERROR
  | SCOPE_LIMITED_UNRECOVERABLE_ERROR | NUM_STATES

record ('s, 'u) sync_api =
  api_preferred_types :: "'s \<Rightarrow> ModelType set"
  api_active_types :: "'s \<Rightarrow> ModelType set"
  api_can_start :: "'s \<Rightarrow> bool"
  api_auth_error :: "'s \<Rightarrow> GoogleServiceAuthError"
  api_unrecoverable_error :: "'s \<Rightarrow> bool"
  api_setup_in_progress :: "'s \<Rightarrow> bool"
  api_acquire_handle :: "'s \<Rightarrow> 's"
  api_release_handle :: "'s \<Rightarrow> 's"
  api_registered_types :: "'s \<Rightarrow> 'u set"
  api_selected_types :: "'s \<Rightarrow> 'u set"
  api_set_selected_types :: "bool \<Rightarrow> 'u set \<Rightarrow> 's \<Rightarrow> 's"
  api_sync_everything :: "'s \<Rightarrow> bool"
  api_sync_requested :: "'s \<Rightarrow> bool"
  api_set_sync_requested :: "bool \<Rightarrow> 's \<Rightarrow> 's"
  api_first_setup_complete :: "'s \<Rightarrow> bool"
  api_set_first_setup_complete :: "nat \<Rightarrow> 's \<Rightarrow> 's"
  api_passphrase_required :: "'s \<Rightarrow> bool"
  api_trusted_vault_key_required :: "'s \<Rightarrow> bool"
  api_trusted_vault_degraded :: "'s \<Rightarrow> bool"
  api_encrypt_everything :: "'s \<Rightarrow> bool"
  api_canonical_type :: "'u \<Rightarrow> ModelType"

text \<open>The state of the sync service, the handle that blocks it, and the samples of \<^verbatim>\<open>Sync.StopSource\<close>.\<close>

record 's sync_setup =
  sync_state :: 's
  sync_blocker :: bool
  stop_samples :: nat

definition SyncSetupService :: "'s \<Rightarrow> 's sync_setup" where
  "SyncSetupService s = \<lparr>sync_state = s, sync_blocker = False, stop_samples = 0\<rparr>"

section \<open>Queries\<close>

definition kDataTypes :: "ModelType list" where
  "kDataTypes = [BOOKMARKS, TYPED_URLS, PASSWORDS, PROXY_TABS, AUTOFILL, PREFERENCES, READING_LIST]"

fun datatype_index :: "SyncableDatatype \<Rightarrow> nat" where
  "datatype_index kSyncBookmarks = 0"
| "datatype_index kSyncOmniboxHistory = 1"
| "datatype_index kSyncPasswords = 2"
| "datatype_index kSyncOpenTabs = 3"
| "datatype_index kSyncAutofill = 4"
| "datatype_index kSyncPreferences = 5"
| "datatype_index kSyncReadingList = 6"
| "datatype_index kNumberOfSyncableDatatypes = 7"

definition GetModelType :: "SyncableDatatype \<Rightarrow> ModelType res" where
  "GetModelType datatype =
     dcheck (datatype_index datatype < length kDataTypes) ''datatype < std::size(kDataTypes)''
       (Inr (kDataTypes ! datatype_index datatype))"

definition GetPreferredDataTypes :: "('s, 'u) sync_api \<Rightarrow> 's sync_setup \<Rightarrow> ModelType set" where
  "GetPreferredDataTypes A X = api_preferred_types A (sync_state X)"

definition IsDataTypeActive :: "('s, 'u) sync_api \<Rightarrow> ModelType \<Rightarrow> 's sync_setup \<Rightarrow> bool" where
  "IsDataTypeActive A d X \<longleftrightarrow> d \<in> api_active_types A (sync_state X)"

definition IsDataTypePreferred :: "('s, 'u) sync_api \<Rightarrow> ModelType \<Rightarrow> 's sync_setup \<Rightarrow> bool" where
  "IsDataTypePreferred A d X \<longleftrightarrow> d \<in> GetPreferredDataTypes A X"

definition IsSyncingAllDataTypes :: "('s, 'u) sync_api \<Rightarrow> 's sync_setup \<Rightarrow> bool" where
  "IsSyncingAllDataTypes A X = api_sync_everything A (sync_state X)"

definition IsSyncRequested :: "('s, 'u) sync_api \<Rightarrow> 's sync_setup \<Rightarrow> bool" where
  "IsSyncRequested A X = api_sync_requested A (sync_state X)"

definition CanSyncFeatureStart :: "('s, 'u) sync_api \<Rightarrow> 's sync_setup \<Rightarrow> bool" where
  "CanSyncFeatureStart A X = api_can_start A (sync_state X)"

definition IsEncryptEverythingEnabled :: "('s, 'u) sync_api \<Rightarrow> 's sync_setup \<Rightarrow> bool" where
  "IsEncryptEverythingEnabled A X = api_encrypt_everything A (sync_state X)"

definition IsFirstSetupComplete :: "('s, 'u) sync_api \<Rightarrow> 's sync_setup \<Rightarrow> bool" where
  "IsFirstSetupComplete A X = api_first_setup_complete A (sync_state X)"

definition HasFinishedInitialSetup :: "('s, 'u) sync_api \<Rightarrow> 's sync_setup \<Rightarrow> bool" where
  "HasFinishedInitialSetup A X \<longleftrightarrow> \<not> IsSyncRequested A X \<or> api_first_setup_complete A (sync_state X)"

definition HasUncommittedChanges :: "('s, 'u) sync_api \<Rightarrow> 's sync_setup \<Rightarrow> bool" where
  "HasUncommittedChanges A X = api_setup_in_progress A (sync_state X)"

text \<open>What is checked when no authentication error is shown to the user.\<close>

definition state_without_auth_error :: "('s, 'u) sync_api \<Rightarrow> 's \<Rightarrow> SyncServiceState" where
  "state_without_auth_error A s =
     (if api_unrecoverable_error A s then kSyncServiceUnrecoverableError
      else if api_passphrase_required A s then kSyncServiceNeedsPassphrase
      else if api_trusted_vault_key_required A s then kSyncServiceNeedsTrustedVaultKey
      else if api_trusted_vault_degraded A s then kSyncServiceTrustedVaultRecoverabilityDegraded
      else kNoSyncServiceError)"

definition GetSyncServiceState :: "('s, 'u) sync_api \<Rightarrow> 's sync_setup \<Rightarrow> SyncServiceState res" where
  "GetSyncServiceState A X = (case api_auth_error A (sync_state X) of
       REQUEST_CANCELED \<Rightarrow> Inr kSyncServiceCouldNotConnect
     | SERVICE_UNAVAILABLE \<Rightarrow> Inr kSyncServiceServiceUnavailable
     | INVALID_GAIA_CREDENTIALS \<Rightarrow> Inr kSyncServiceSignInNeedsUpdate
     | NONE_ERROR \<Rightarrow> Inr (state_without_auth_error A (sync_state X))
     | CONNECTION_FAILED \<Rightarrow> Inr (state_without_auth_error A (sync_state X))
     | USER_NOT_SIGNED_UP \<Rightarrow> Inr (state_without_auth_error A (sync_state X))
     | UNEXPECTED_SERVICE_RESPONSE \<Rightarrow> Inr (state_without_auth_error A (sync_state X))
     | SERVICE_ERROR \<Rightarrow> Inl (NotReached ''Unexpected Auth error'')
     | SCOPE_LIMITED_UNRECOVERABLE_ERROR \<Rightarrow> Inl (NotReached ''Unexpected Auth error'')
     | NUM_STATES \<Rightarrow> Inl (NotReached ''Unexpected Auth error''))"

definition UserActionIsRequiredToHaveTabSyncWork :: "('s, 'u) sync_api \<Rightarrow> 's sync_setup \<Rightarrow> bool res" where
  "UserActionIsRequiredToHaveTabSyncWork A X =
     (if \<not> CanSyncFeatureStart A X \<or> \<not> IsDataTypePreferred A PROXY_TABS X then Inr True
      else rbind (GetSyncServiceState A X) (\<lambda>state. Inr (case state of
          kNoSyncServiceError \<Rightarrow> False
        | kSyncServiceCouldNotConnect \<Rightarrow> False
        | kSyncServiceServiceUnavailable \<Rightarrow> False
        | kSyncServiceTrustedVaultRecoverabilityDegraded \<Rightarrow> False
        | kSyncServiceSignInNeedsUpdate \<Rightarrow> True
        | kSyncServiceNeedsPassphrase \<Rightarrow> True
        | kSyncServiceUnrecoverableError \<Rightarrow> True
        | kSyncServiceNeedsTrustedVaultKey \<Rightarrow> IsEncryptEverythingEnabled A X)))"

section \<open>Changes\<close>

definition block_sync :: "('s, 'u) sync_api \<Rightarrow> 's sync_setup \<Rightarrow> 's sync_setup" where
  "block_sync A X = (if sync_blocker X then X
     else X\<lparr>sync_blocker := True, sync_state := api_acquire_handle A (sync_state X)\<rparr>)"

definition SetDataTypeEnabled :: "('s, 'u) sync_api \<Rightarrow> ModelType \<Rightarrow> bool \<Rightarrow> 's sync_setup \<Rightarrow> 's sync_setup" where
  "SetDataTypeEnabled A d enabled X =
     (let X = block_sync A X;
          model_types = (if enabled then insert d (GetPreferredDataTypes A X) else GetPreferredDataTypes A X - {d});
          selected_types = {type \<in> api_registered_types A (sync_state X). api_canonical_type A type \<in> model_types}
      in X\<lparr>sync_state := api_set_selected_types A (IsSyncingAllDataTypes A X) selected_types (sync_state X)\<rparr>)"

definition SetSyncingAllDataTypes :: "('s, 'u) sync_api \<Rightarrow> bool \<Rightarrow> 's sync_setup \<Rightarrow> 's sync_setup" where
  "SetSyncingAllDataTypes A sync_all X =
     (let X = block_sync A X
      in X\<lparr>sync_state := api_set_selected_types A sync_all (api_selected_types A (sync_state X)) (sync_state X)\<rparr>)"

definition SetSyncEnabled :: "('s, 'u) sync_api \<Rightarrow> bool \<Rightarrow> 's sync_setup \<Rightarrow> 's sync_setup" where
  "SetSyncEnabled A sync_enabled X =
     (let X = block_sync A X;
          X = (if \<not> sync_enabled then X\<lparr>stop_samples := Suc (stop_samples X)\<rparr> else X);
          X = X\<lparr>sync_state := api_set_sync_requested A sync_enabled (sync_state X)\<rparr>
      in if sync_enabled \<and> GetPreferredDataTypes A X = {} then SetSyncingAllDataTypes A True X else X)"

definition PrepareForFirstSyncSetup :: "('s, 'u) sync_api \<Rightarrow> 's sync_setup \<Rightarrow> 's sync_setup res" where
  "PrepareForFirstSyncSetup A X =
     dcheck (\<not> api_first_setup_complete A (sync_state X)) ''!IsFirstSetupComplete()'' (Inr (block_sync A X))"

definition SetFirstSetupComplete :: "('s, 'u) sync_api \<Rightarrow> nat \<Rightarrow> 's sync_setup \<Rightarrow> 's sync_setup res" where
  "SetFirstSetupComplete A source X =
     dcheck (sync_blocker X) ''sync_blocker_''
       (Inr (if api_can_start A (sync_state X)
             then X\<lparr>sync_state := api_set_first_setup_complete A source (sync_state X)\<rparr> else X))"

definition CommitSyncChanges :: "('s, 'u) sync_api \<Rightarrow> 's sync_setup \<Rightarrow> 's sync_setup" where
  "CommitSyncChanges A X =
     (if sync_blocker X then X\<lparr>sync_blocker := False, sync_state := api_release_handle A (sync_state X)\<rparr> else X)"

section \<open>What is relied on\<close>

text \<open>
  Documented behaviour of the sync service: the settings are kept while a handle is taken or
  released; setting the selected types stores them and the flag for everything; a model type that
  is the canonical type of registered types is preferred exactly if everything or one of these types
  is selected; setup is in progress while a handle is held, and changing settings does not release it.
\<close>

definition sync_api_ok :: "('s, 'u) sync_api \<Rightarrow> bool" where
  "sync_api_ok A \<longleftrightarrow>
     (\<forall>s f. f \<in> {api_acquire_handle A, api_release_handle A} \<longrightarrow>
        api_preferred_types A (f s) = api_preferred_types A s \<and> api_sync_everything A (f s) = api_sync_everything A s \<and>
        api_registered_types A (f s) = api_registered_types A s) \<and>
     (\<forall>s b T. api_sync_everything A (api_set_selected_types A b T s) = b \<and>
        api_registered_types A (api_set_selected_types A b T s) = api_registered_types A s \<and>
        (\<forall>u \<in> api_registered_types A s. api_canonical_type A u \<in> api_preferred_types A (api_set_selected_types A b T s) \<longleftrightarrow>
           b \<or> (\<exists>v \<in> T. api_canonical_type A v = api_canonical_type A u))) \<and>
     (\<forall>s. api_setup_in_progress A (api_acquire_handle A s)) \<and>
     (\<forall>s b T. api_setup_in_progress A (api_set_selected_types A b T s) = api_setup_in_progress A s) \<and>
     (\<forall>s b. api_setup_in_progress A (api_set_sync_requested A b s) = api_setup_in_progress A s)"

lemma sync_api_okD:
  assumes "sync_api_ok A"
  shows "api_preferred_types A (api_acquire_handle A s) = api_preferred_types A s"
    "api_sync_everything A (api_acquire_handle A s) = api_sync_everything A s"
    "api_registered_types A (api_acquire_handle A s) = api_registered_types A s"
    "api_sync_everything A (api_set_selected_types A b T s) = b"
    "u \<in> api_registered_types A s \<Longrightarrow> api_canonical_type A u \<in> api_preferred_types A (api_set_selected_types A b T s) \<longleftrightarrow>
       b \<or> (\<exists>v \<in> T. api_canonical_type A v = api_canonical_type A u)"
    "api_setup_in_progress A (api_acquire_handle A s)"
    "api_setup_in_progress A (api_set_selected_types A b T s) = api_setup_in_progress A s"
    "api_setup_in_progress A (api_set_sync_requested A b s) = api_setup_in_progress A s"
  using assms by (simp_all add: sync_api_ok_def)

lemma block_sync_settings:
  assumes "sync_api_ok A"
  shows "GetPreferredDataTypes A (block_sync A X) = GetPreferredDataTypes A X"
    "IsSyncingAllDataTypes A (block_sync A X) = IsSyncingAllDataTypes A X"
    "api_registered_types A (sync_state (block_sync A X)) = api_registered_types A (sync_state X)"
    "sync_blocker (block_sync A X)"
  using sync_api_okD [OF assms] by (simp_all add: block_sync_def GetPreferredDataTypes_def IsSyncingAllDataTypes_def)

text \<open>While the service holds its handle, setup is in progress.\<close>

definition setup_blocked :: "('s, 'u) sync_api \<Rightarrow> 's sync_setup \<Rightarrow> bool" where
  "setup_blocked A X \<longleftrightarrow> (sync_blocker X \<longrightarrow> HasUncommittedChanges A X)"

lemma block_sync_blocked: "sync_api_ok A \<Longrightarrow> setup_blocked A X \<Longrightarrow> setup_blocked A (block_sync A X)"
  by (simp add: block_sync_def setup_blocked_def HasUncommittedChanges_def sync_api_okD)

lemma set_syncing_all_blocked:
  assumes "sync_api_ok A" "setup_blocked A X"
  shows "setup_blocked A (SetSyncingAllDataTypes A b X) \<and> sync_blocker (SetSyncingAllDataTypes A b X)"
  using block_sync_blocked [OF assms] block_sync_settings(4) [OF assms(1)] assms(1)
  by (simp add: SetSyncingAllDataTypes_def Let_def setup_blocked_def HasUncommittedChanges_def sync_api_okD)

lemma set_sync_enabled_blocked:
  assumes "sync_api_ok A" "setup_blocked A X"
  shows "setup_blocked A (SetSyncEnabled A b X) \<and> sync_blocker (SetSyncEnabled A b X)"
proof -
  let ?Y = "(let X = block_sync A X; X = (if \<not> b then X\<lparr>stop_samples := Suc (stop_samples X)\<rparr> else X)
      in X\<lparr>sync_state := api_set_sync_requested A b (sync_state X)\<rparr>)"
  have "setup_blocked A ?Y \<and> sync_blocker ?Y"
    using block_sync_blocked [OF assms] block_sync_settings(4) [OF assms(1)] assms(1)
    by (simp add: Let_def setup_blocked_def HasUncommittedChanges_def sync_api_okD)
  then show ?thesis
    using set_syncing_all_blocked [OF assms(1), of ?Y True] by (cases b) (simp_all add: SetSyncEnabled_def Let_def)
qed

section \<open>Properties\<close>

text \<open>Each entry of the settings page belongs to the model type of the same name.\<close>

lemma model_types_in_order:
  "GetModelType kSyncBookmarks = Inr BOOKMARKS" "GetModelType kSyncOmniboxHistory = Inr TYPED_URLS"
  "GetModelType kSyncPasswords = Inr PASSWORDS" "GetModelType kSyncOpenTabs = Inr PROXY_TABS"
  "GetModelType kSyncAutofill = Inr AUTOFILL" "GetModelType kSyncPreferences = Inr PREFERENCES"
  "GetModelType kSyncReadingList = Inr READING_LIST" "\<not> is_ok (GetModelType kNumberOfSyncableDatatypes)"
  by code_simp+

text \<open>
  Tab sync needs no action of the user exactly if sync can start, open tabs are selected, and the
  state of the service is none of those that amount to disabled sync; only authentication errors
  that do not occur on iOS fail the assertion.
\<close>

lemma tab_sync_action:
  assumes "api_auth_error A (sync_state X) \<notin> {SERVICE_ERROR, SCOPE_LIMITED_UNRECOVERABLE_ERROR, NUM_STATES}"
  shows "\<exists>b state. UserActionIsRequiredToHaveTabSyncWork A X = Inr b \<and> GetSyncServiceState A X = Inr state \<and>
    (\<not> b \<longleftrightarrow> CanSyncFeatureStart A X \<and> IsDataTypePreferred A PROXY_TABS X \<and>
       state \<notin> {kSyncServiceSignInNeedsUpdate, kSyncServiceNeedsPassphrase, kSyncServiceUnrecoverableError} \<and>
       (state = kSyncServiceNeedsTrustedVaultKey \<longrightarrow> \<not> IsEncryptEverythingEnabled A X))"
proof -
  obtain state where "GetSyncServiceState A X = Inr state"
    using assms by (cases "api_auth_error A (sync_state X)") (auto simp: GetSyncServiceState_def)
  then show ?thesis by (cases state) (auto simp: UserActionIsRequiredToHaveTabSyncWork_def)
qed

text \<open>
  Switching one data type changes this type only: when not everything is synced, a
  registered type is preferred afterwards if it is the one switched on, or if it has been preferred
  and is not the one switched off; everything stays selected if it was; and until the commit the
  change stays blocked.
\<close>

theorem data_type_switch:
  assumes "sync_api_ok A" "setup_blocked A X" "u \<in> api_registered_types A (sync_state X)"
  shows "(IsDataTypePreferred A (api_canonical_type A u) (SetDataTypeEnabled A d enabled X) \<longleftrightarrow>
      IsSyncingAllDataTypes A X \<or>
      (if api_canonical_type A u = d then enabled else IsDataTypePreferred A (api_canonical_type A u) X)) \<and>
    IsSyncingAllDataTypes A (SetDataTypeEnabled A d enabled X) = IsSyncingAllDataTypes A X \<and>
    sync_blocker (SetDataTypeEnabled A d enabled X) \<and> HasUncommittedChanges A (SetDataTypeEnabled A d enabled X)"
proof (intro conjI)
  note B = block_sync_settings [OF assms(1), of X] and L = sync_api_okD [OF assms(1)]
  let ?Y = "block_sync A X"
  have reg: "u \<in> api_registered_types A (sync_state ?Y)" using assms(3) B(3) by simp
  show "IsDataTypePreferred A (api_canonical_type A u) (SetDataTypeEnabled A d enabled X) \<longleftrightarrow>
      IsSyncingAllDataTypes A X \<or>
      (if api_canonical_type A u = d then enabled else IsDataTypePreferred A (api_canonical_type A u) X)"
    unfolding SetDataTypeEnabled_def Let_def IsDataTypePreferred_def GetPreferredDataTypes_def [of A "_\<lparr>sync_state := _\<rparr>"]
    using L(5) [OF reg] reg B by (auto simp: IsDataTypePreferred_def)
  show "IsSyncingAllDataTypes A (SetDataTypeEnabled A d enabled X) = IsSyncingAllDataTypes A X"
    using B by (simp add: SetDataTypeEnabled_def Let_def IsSyncingAllDataTypes_def L)
  have "HasUncommittedChanges A ?Y" using B(4) block_sync_blocked [OF assms(1,2)] by (simp add: setup_blocked_def)
  then show "sync_blocker (SetDataTypeEnabled A d enabled X)" "HasUncommittedChanges A (SetDataTypeEnabled A d enabled X)"
    using B(4) by (simp_all add: SetDataTypeEnabled_def Let_def HasUncommittedChanges_def L)
qed

text \<open>
  A sync service with two selectable types, bookmarks and passwords.  A state holds the flag for
  everything, the selected types and the number of handles.
\<close>

definition demo_sync :: "(bool \<times> bool set \<times> nat, bool) sync_api" where
  "demo_sync = \<lparr>api_preferred_types = (\<lambda>(e, T, n). (\<lambda>u. if u then BOOKMARKS else PASSWORDS) ` (if e then UNIV else T)),
     api_active_types = (\<lambda>_. {}), api_can_start = (\<lambda>_. True), api_auth_error = (\<lambda>_. NONE_ERROR),
     api_unrecoverable_error = (\<lambda>_. False), api_setup_in_progress = (\<lambda>(e, T, n). 0 < n),
     api_acquire_handle = (\<lambda>(e, T, n). (e, T, Suc n)), api_release_handle = (\<lambda>(e, T, n). (e, T, n - 1)),
     api_registered_types = (\<lambda>_. UNIV), api_selected_types = (\<lambda>(e, T, n). T),
     api_set_selected_types = (\<lambda>b U (e, T, n). (b, U, n)), api_sync_everything = (\<lambda>(e, T, n). e),
     api_sync_requested = (\<lambda>_. True), api_set_sync_requested = (\<lambda>_ s. s), api_first_setup_complete = (\<lambda>_. False),
     api_set_first_setup_complete = (\<lambda>_ s. s), api_passphrase_required = (\<lambda>_. False),
     api_trusted_vault_key_required = (\<lambda>_. False), api_trusted_vault_degraded = (\<lambda>_. False),
     api_encrypt_everything = (\<lambda>_. False), api_canonical_type = (\<lambda>u. if u then BOOKMARKS else PASSWORDS)\<rparr>"

lemma demo_sync_ok: "sync_api_ok demo_sync"
  by (auto simp: sync_api_ok_def demo_sync_def split: if_splits)

theorem data_type_switch_witness:
  "IsDataTypePreferred demo_sync BOOKMARKS
     (SetDataTypeEnabled demo_sync BOOKMARKS True (SyncSetupService (False, {False}, 0))) \<and>
   IsDataTypePreferred demo_sync PASSWORDS
     (SetDataTypeEnabled demo_sync BOOKMARKS True (SyncSetupService (False, {False}, 0)))"
proof -
  let ?X = "SyncSetupService (False, {False}, 0)"
  have X: "setup_blocked demo_sync ?X" "True \<in> api_registered_types demo_sync (sync_state ?X)"
    "False \<in> api_registered_types demo_sync (sync_state ?X)" "IsDataTypePreferred demo_sync PASSWORDS ?X"
    "api_canonical_type demo_sync True = BOOKMARKS" "api_canonical_type demo_sync False = PASSWORDS"
    by (simp_all add: setup_blocked_def SyncSetupService_def demo_sync_def IsDataTypePreferred_def GetPreferredDataTypes_def)
  show ?thesis
    using data_type_switch [OF demo_sync_ok X(1,2), of BOOKMARKS True] data_type_switch [OF demo_sync_ok X(1,3), of BOOKMARKS True] X(4-6)
    by auto
qed

end
